(* ===== verification/Prelude.thy ===== *)
theory Prelude
  imports Main "HOL-Library.List_Lexorder"
begin

section \<open>Prelude: JavaScript strings, exceptions, SQL rows\<close>

text \<open>
  What every component of the development shares.
  \<^item> A JavaScript string is a list of UTF-16 code units (\<open>jsstr\<close>); \<open>js\<close> reads an ASCII
    literal. The string functions of the language the program uses (\<open>trim\<close>, \<open>indexOf\<close>,
    \<open>split\<close> on newlines, decimal rendering, \<open>\s+\<close> normalisation) are defined on it.
  \<^item> A thrown exception is a value of \<open>exn\<close>; a call that may throw returns \<open>exn + 'a\<close>.
  \<^item> An SQL table is a list of rows in rowid order; \<open>row_by\<close>, \<open>modify_by\<close> and
    \<open>update_rows\<close> are the statements \<open>SELECT .. WHERE id = ?\<close>,
    \<open>UPDATE .. WHERE id = ?\<close> and \<open>UPDATE .. WHERE P\<close>. The locale \<open>row_table\<close> states what
    the components rely on of a table keyed by an id.
\<close>

named_theorems row_simps \<open>reading a table after a statement that changed it\<close>
named_theorems inv_intros \<open>preservation of the data invariants by the statements\<close>

subsection \<open>Strings\<close>

type_synonym jsstr = "nat list"

primrec js :: "string \<Rightarrow> jsstr" where
  "js [] = []"
| "js (c # cs) = of_char c # js cs"

lemma js_eq_map: "js s = map of_char s"
  by (induction s) auto

lemma js_inject [simp]: "js a = js b \<longleftrightarrow> a = b"
  by (induction a arbitrary: b) (auto simp: js_eq_map Cons_eq_map_conv)

lemma js_eq_Nil [simp]: "js s = [] \<longleftrightarrow> s = []"
  by (cases s) auto

lemma length_js [simp]: "length (js s) = length s"
  by (simp add: js_eq_map)

text \<open>A nullable string read as a condition: null, undefined and the empty string are falsy.\<close>

definition truthy :: "jsstr option \<Rightarrow> bool" where
  "truthy v = (case v of None \<Rightarrow> False | Some s \<Rightarrow> s \<noteq> [])"

lemma truthy_simps [simp]:
  "truthy None = False" "truthy (Some s) = (s \<noteq> [])"
  by (simp_all add: truthy_def)

text \<open>\<open>x || null\<close> for a string \<open>x\<close>.\<close>

definition or_null :: "jsstr \<Rightarrow> jsstr option" where
  "or_null s = (if s = [] then None else Some s)"

text \<open>White space as \<open>trim\<close> and the regular expression \<open>\s\<close> see it.\<close>

definition js_space :: "nat \<Rightarrow> bool" where
  "js_space u = (9 \<le> u \<and> u \<le> 13 \<or> u = 32 \<or> u = 160 \<or> u = 5760 \<or> 8192 \<le> u \<and> u \<le> 8202
     \<or> u = 8232 \<or> u = 8233 \<or> u = 8239 \<or> u = 8287 \<or> u = 12288 \<or> u = 65279)"

definition trim_start :: "jsstr \<Rightarrow> jsstr" where
  "trim_start s = dropWhile js_space s"

definition trim_end :: "jsstr \<Rightarrow> jsstr" where
  "trim_end s = rev (dropWhile js_space (rev s))"

definition js_trim :: "jsstr \<Rightarrow> jsstr" where
  "js_trim s = trim_end (trim_start s)"

text \<open>\<open>s.replace(/\s+/g, ' ')\<close>: each maximal run of white space becomes one blank.\<close>

fun squeeze :: "jsstr \<Rightarrow> jsstr" where
  "squeeze [] = []"
| "squeeze [u] = (if js_space u then [32] else [u])"
| "squeeze (u # v # s) =
     (if js_space u then (if js_space v then squeeze (v # s) else 32 # squeeze (v # s))
      else u # squeeze (v # s))"

text \<open>\<open>s.split(/\r?\n/)\<close>: the separator takes a carriage return before the line feed.\<close>

fun split_lines :: "jsstr \<Rightarrow> jsstr list" where
  "split_lines [] = [[]]"
| "split_lines [u] = (if u = 10 then [[], []] else [[u]])"
| "split_lines (u # v # s) =
     (if u = 10 then [] # split_lines (v # s)
      else if u = 13 \<and> v = 10 then [] # split_lines s
      else (case split_lines (v # s) of l # ls \<Rightarrow> (u # l) # ls | [] \<Rightarrow> [[u]]))"

text \<open>\<open>s.split(c)\<close> for a single unit.\<close>

fun split_on :: "nat \<Rightarrow> jsstr \<Rightarrow> jsstr list" where
  "split_on c [] = [[]]"
| "split_on c (u # s) =
     (if u = c then [] # split_on c s
      else (case split_on c s of [] \<Rightarrow> [[u]] | l # ls \<Rightarrow> (u # l) # ls))"

text \<open>Surrogates: a code unit that starts or ends a two-unit character.\<close>

definition high_surrogate :: "nat \<Rightarrow> bool" where
  "high_surrogate u = (0xD800 \<le> u \<and> u \<le> 0xDBFF)"

definition low_surrogate :: "nat \<Rightarrow> bool" where
  "low_surrogate u = (0xDC00 \<le> u \<and> u \<le> 0xDFFF)"

lemma surrogate_disjoint: "\<not> (high_surrogate u \<and> low_surrogate u)"
  by (simp add: high_surrogate_def low_surrogate_def)

text \<open>\<open>String(n)\<close> for a natural number.\<close>

fun js_dec :: "nat \<Rightarrow> jsstr" where
  "js_dec n = (let d = 48 + n mod 10 in if n < 10 then [d] else js_dec (n div 10) @ [d])"

declare js_dec.simps [simp del]

definition js_int :: "int \<Rightarrow> jsstr" where
  "js_int n = (if n < 0 then 45 # js_dec (nat (- n)) else js_dec (nat n))"

lemma js_dec_small: "n < 10 \<Longrightarrow> js_dec n = [48 + n]"
  by (subst js_dec.simps) simp

lemma js_dec_digits: "\<forall>u \<in> set (js_dec n). 48 \<le> u \<and> u \<le> 57"
proof (induction n rule: js_dec.induct)
  case (1 n)
  show ?case
  proof (cases "n < 10")
    case True
    then show ?thesis by (simp add: js_dec_small)
  next
    case False
    then have "js_dec n = js_dec (n div 10) @ [48 + n mod 10]"
      by (subst js_dec.simps) (simp add: Let_def)
    moreover have "48 + n mod 10 \<le> 57"
      using pos_mod_bound [of 10 "int n"] by linarith
    ultimately show ?thesis
      using "1.IH" [OF refl False] by auto
  qed
qed

lemma js_dec_nonempty: "js_dec n \<noteq> []"
  by (subst js_dec.simps) (simp add: Let_def)

lemma js_dec_not_zero_first:
  "js_dec n \<noteq> [] \<and> (0 < n \<longrightarrow> hd (js_dec n) \<noteq> 48)"
proof (induction n rule: js_dec.induct)
  case (1 n)
  show ?case
  proof (cases "n < 10")
    case True
    then show ?thesis by (simp add: js_dec_small)
  next
    case False
    then have eq: "js_dec n = js_dec (n div 10) @ [48 + n mod 10]"
      by (subst js_dec.simps) (simp add: Let_def)
    have "0 < n div 10" using False by simp
    with "1.IH" [OF refl False] show ?thesis
      by (simp add: eq)
  qed
qed

subsection \<open>Exceptions\<close>

datatype exn =
    Error jsstr             \<comment> \<open>\<open>throw new Error(message)\<close>\<close>
  | TypeError               \<comment> \<open>reading a property of null, or an argument of the wrong type\<close>
  | SyntaxError             \<comment> \<open>\<open>JSON.parse\<close> on text that is not JSON\<close>
  | RangeError              \<comment> \<open>a number outside the range of a buffer write\<close>
  | UniqueViolation string  \<comment> \<open>SQLite refuses a second row with the key, the table named\<close>

subsection \<open>Rows\<close>

definition row_by :: "('r \<Rightarrow> 'k) \<Rightarrow> 'k \<Rightarrow> 'r list \<Rightarrow> 'r option" where
  "row_by key k rows = find (\<lambda>r. key r = k) rows"

definition update_rows :: "('r \<Rightarrow> bool) \<Rightarrow> ('r \<Rightarrow> 'r) \<Rightarrow> 'r list \<Rightarrow> 'r list" where
  "update_rows P f rows = map (\<lambda>r. if P r then f r else r) rows"

definition modify_by :: "('r \<Rightarrow> 'k) \<Rightarrow> 'k \<Rightarrow> ('r \<Rightarrow> 'r) \<Rightarrow> 'r list \<Rightarrow> 'r list" where
  "modify_by key k f rows = update_rows (\<lambda>r. key r = k) f rows"

text \<open>\<open>ORDER BY rowid DESC LIMIT 1\<close>: the last row that satisfies the condition.\<close>

definition last_row :: "('r \<Rightarrow> bool) \<Rightarrow> 'r list \<Rightarrow> 'r option" where
  "last_row P rows = find P (rev rows)"

lemma update_rows_simps [simp]:
  "update_rows P f [] = []"
  "update_rows P f (r # rows) = (if P r then f r else r) # update_rows P f rows"
  by (simp_all add: update_rows_def)

lemma length_update_rows [simp]: "length (update_rows P f rows) = length rows"
  by (simp add: update_rows_def)

lemma update_rows_append [simp]:
  "update_rows P f (xs @ ys) = update_rows P f xs @ update_rows P f ys"
  by (simp add: update_rows_def)

lemma set_update_rows: "set (update_rows P f rows) = (\<lambda>r. if P r then f r else r) ` set rows"
  by (simp add: update_rows_def)

lemma update_rows_id: "(\<And>r. r \<in> set rows \<Longrightarrow> \<not> P r) \<Longrightarrow> update_rows P f rows = rows"
  by (induction rows) auto

lemma modify_by_fresh: "k \<notin> key ` set rows \<Longrightarrow> modify_by key k f rows = rows"
  unfolding modify_by_def by (rule update_rows_id) (metis image_eqI)

lemma in_update_rows:
  assumes "r \<in> set (update_rows P f rows)"
  obtains q where "q \<in> set rows" "r = (if P q then f q else q)"
  using assms by (auto simp: set_update_rows)

lemma find_Some_in: "find P xs = Some x \<Longrightarrow> x \<in> set xs \<and> P x"
  by (induction xs) (auto split: if_splits)

lemma last_row_Some: "last_row P rows = Some r \<Longrightarrow> r \<in> set rows \<and> P r"
  unfolding last_row_def by (drule find_Some_in) simp

lemma last_row_None: "last_row P rows = None \<longleftrightarrow> (\<forall>r \<in> set rows. \<not> P r)"
  by (auto simp: last_row_def find_None_iff)

lemma last_row_append_one:
  "last_row P (rows @ [r]) = (if P r then Some r else last_row P rows)"
  by (simp add: last_row_def)

text \<open>
  What a component relies on of a table keyed by an id: a lookup finds a row with the id
  or says there is none, and an update under an id that keeps the ids changes that row
  and no other. The laws are proved for \<open>row_by\<close> and \<open>modify_by\<close> once per table.
\<close>

locale row_table =
  fixes rid :: "'r \<Rightarrow> 'k"
    and lookup :: "'k \<Rightarrow> 'r list \<Rightarrow> 'r option"
    and modify :: "'k \<Rightarrow> ('r \<Rightarrow> 'r) \<Rightarrow> 'r list \<Rightarrow> 'r list"
  assumes lookup_Some: "lookup k rows = Some r \<Longrightarrow> r \<in> set rows \<and> rid r = k"
    and lookup_None: "lookup k rows = None \<longleftrightarrow> k \<notin> rid ` set rows"
    and lookup_append: "lookup k (rows @ rows') =
      (case lookup k rows of None \<Rightarrow> lookup k rows' | Some r \<Rightarrow> Some r)"
    and lookup_single: "lookup k [r] = (if rid r = k then Some r else None)"
    and lookup_modify: "(\<And>r. rid (f r) = rid r) \<Longrightarrow> lookup k (modify k' f rows) =
      (if k = k' then map_option f (lookup k rows) else lookup k rows)"
    and keys_modify: "(\<And>r. rid (f r) = rid r) \<Longrightarrow> map rid (modify k f rows) = map rid rows"
begin

lemma lookup_fresh: "k \<notin> rid ` set rows \<Longrightarrow> rid r = k \<Longrightarrow> lookup k (rows @ [r]) = Some r"
  by (simp add: lookup_append lookup_single lookup_None [THEN iffD2])

lemma lookup_other: "rid r \<noteq> k \<Longrightarrow> lookup k (rows @ [r]) = lookup k rows"
  by (simp add: lookup_append lookup_single split: option.split)

lemma distinct_fresh:
  "distinct (map rid rows) \<Longrightarrow> rid r \<notin> rid ` set rows \<Longrightarrow> distinct (map rid (rows @ [r]))"
  by auto

lemma lookup_distinct:
  assumes "distinct (map rid rows)" and "r \<in> set rows"
  shows "lookup (rid r) rows = Some r"
proof -
  obtain q where q: "lookup (rid r) rows = Some q"
    using assms(2) lookup_None [of "rid r" rows] by (cases "lookup (rid r) rows") auto
  with lookup_Some [OF q] assms have "q = r"
    by (auto simp: distinct_map inj_on_def)
  with q show ?thesis by simp
qed

end

lemma row_table_rows: "row_table key (row_by key) (modify_by key)"
proof
  show "row_by key k rows = Some r \<Longrightarrow> r \<in> set rows \<and> key r = k" for k rows r
    unfolding row_by_def by (drule find_Some_in) simp
  show "row_by key k rows = None \<longleftrightarrow> k \<notin> key ` set rows" for k rows
    by (auto simp: row_by_def find_None_iff)
  show "row_by key k (rows @ rows') =
      (case row_by key k rows of None \<Rightarrow> row_by key k rows' | Some r \<Rightarrow> Some r)" for k rows rows'
    by (induction rows) (auto simp: row_by_def)
  show "row_by key k [r] = (if key r = k then Some r else None)" for k r
    by (simp add: row_by_def)
  show "(\<And>r. key (f r) = key r) \<Longrightarrow> row_by key k (modify_by key k' f rows) =
      (if k = k' then map_option f (row_by key k rows) else row_by key k rows)" for f k k' rows
    by (induction rows) (auto simp: row_by_def modify_by_def)
  show "(\<And>r. key (f r) = key r) \<Longrightarrow> map key (modify_by key k f rows) = map key rows" for f k rows
    by (auto simp: modify_by_def update_rows_def)
qed

lemma map_key_update_rows:
  "(\<And>r. key (f r) = key r) \<Longrightarrow> map key (update_rows P f rows) = map key rows"
  by (simp add: update_rows_def)

text \<open>\<open>WHERE id IN (..)\<close>\<close>

lemma key_image_update_rows:
  "(\<And>r. key (f r) = key r) \<Longrightarrow> key ` set (update_rows P f rows) = key ` set rows"
  using map_key_update_rows [of key f P rows] by (metis list.set_map)

end
