(* ===== verification/Orch_Types.thy ===== *)
theory Orch_Types
  imports Prelude
begin

section \<open>The rows of the orchestration database\<close>

text \<open>
  \<open>src/src/main/runtime/orchestration/types.ts\<close>: the enumerations and the row types of the
  five tables, and the state of the database as \<open>db.ts\<close> declares it. A nullable column is an
  option. A table is the list of its rows in rowid order; \<open>msg_seq\<close> is the AUTOINCREMENT
  counter of \<open>messages.sequence\<close>, which SQLite keeps when the rows are deleted. Timestamps are
  text, as in the tables: \<open>datetime('now')\<close> (\<open>YYYY-MM-DD HH:MM:SS\<close>) and
  \<open>Date.toISOString()\<close> (\<open>YYYY-MM-DDTHH:MM:SS.sssZ\<close>) are two readings of a clock.
\<close>

datatype message_type =
    MT_status | MT_dispatch | MT_worker_done | MT_merge_ready
  | MT_escalation | MT_handoff | MT_decision_gate | MT_heartbeat

datatype message_priority = P_normal | P_high | P_urgent

datatype task_status = T_pending | T_ready | T_dispatched | T_completed | T_failed | T_blocked

datatype dispatch_status = D_pending | D_dispatched | D_completed | D_failed | D_circuit_broken

datatype gate_status = G_pending | G_resolved | G_timeout

datatype coordinator_status = C_idle | C_running | C_completed | C_failed

record message_row =
  m_id :: jsstr
  m_from_handle :: jsstr
  m_to_handle :: jsstr
  m_subject :: jsstr
  m_body :: jsstr
  m_type :: message_type
  m_priority :: message_priority
  m_thread_id :: "jsstr option"
  m_payload :: "jsstr option"
  m_read :: nat
  m_sequence :: nat
  m_created_at :: jsstr
  m_delivered_at :: "jsstr option"
  m_sender_pane_key :: "jsstr option"

record task_row =
  t_id :: jsstr
  t_parent_id :: "jsstr option"
  t_created_by_terminal_handle :: "jsstr option"
  t_task_title :: "jsstr option"
  t_display_name :: "jsstr option"
  t_spec :: jsstr
  t_status :: task_status
  t_deps :: jsstr
  t_result :: "jsstr option"
  t_created_at :: jsstr
  t_completed_at :: "jsstr option"

record dispatch_row =
  d_id :: jsstr
  d_task_id :: jsstr
  d_assignee_handle :: "jsstr option"
  d_assignee_pane_key :: "jsstr option"
  d_status :: dispatch_status
  d_failure_count :: nat
  d_last_failure :: "jsstr option"
  d_dispatched_at :: "jsstr option"
  d_completed_at :: "jsstr option"
  d_created_at :: jsstr
  d_last_heartbeat_at :: "jsstr option"

record gate_row =
  g_id :: jsstr
  g_task_id :: jsstr
  g_question :: jsstr
  g_options :: jsstr
  g_status :: gate_status
  g_resolution :: "jsstr option"
  g_created_at :: jsstr
  g_resolved_at :: "jsstr option"

record run_row =
  r_id :: jsstr
  r_spec :: jsstr
  r_status :: coordinator_status
  r_coordinator_handle :: jsstr
  r_poll_interval_ms :: int
  r_created_at :: jsstr
  r_completed_at :: "jsstr option"

record odb =
  messages :: "message_row list"
  msg_seq :: nat
  tasks :: "task_row list"
  dispatches :: "dispatch_row list"
  gates :: "gate_row list"
  runs :: "run_row list"

definition empty_db :: odb where
  "empty_db = \<lparr>messages = [], msg_seq = 0, tasks = [], dispatches = [], gates = [], runs = []\<rparr>"

record clock =
  sql_now :: jsstr
  iso_now :: jsstr

text \<open>The text of a status, as the messages of thrown errors print it.\<close>

fun task_status_text :: "task_status \<Rightarrow> jsstr" where
  "task_status_text T_pending = js ''pending''"
| "task_status_text T_ready = js ''ready''"
| "task_status_text T_dispatched = js ''dispatched''"
| "task_status_text T_completed = js ''completed''"
| "task_status_text T_failed = js ''failed''"
| "task_status_text T_blocked = js ''blocked''"

text \<open>The rows are keyed by their id columns.\<close>

interpretation message_tbl: row_table m_id "row_by m_id" "modify_by m_id"
  by (rule row_table_rows)

interpretation task_tbl: row_table t_id "row_by t_id" "modify_by t_id"
  by (rule row_table_rows)

interpretation dispatch_tbl: row_table d_id "row_by d_id" "modify_by d_id"
  by (rule row_table_rows)

interpretation gate_tbl: row_table g_id "row_by g_id" "modify_by g_id"
  by (rule row_table_rows)

interpretation run_tbl: row_table r_id "row_by r_id" "modify_by r_id"
  by (rule row_table_rows)

end
