(* ===== verification/Js_Json.thy ===== *)
theory Js_Json
  imports Prelude
begin

section \<open>JSON text\<close>

text \<open>
  The two functions of the language the program stores and reads structured data with:
  \<open>json_stringify\<close> (\<open>JSON.stringify\<close> without indentation, lone surrogates escaped) and
  \<open>json_parse\<close> (\<open>JSON.parse\<close>, \<open>None\<close> where it throws a \<open>SyntaxError\<close>). A number is its
  lexeme: nothing in the modelled code computes with a parsed number. An object is its list
  of members in source order; \<open>jget\<close> reads a property the way the parsed object does, the
  last of two equal keys winning. The parser spends one unit of fuel per nested call;
  \<open>json_parse_fuel\<close> shows that the fuel given by \<open>json_parse\<close> never runs out. The round
  trip is \<open>json_parse_stringify\<close>.
\<close>

datatype json =
    JNull
  | JBool bool
  | JNum jsstr
  | JStr jsstr
  | JArr "json list"
  | JObj "(jsstr \<times> json) list"

subsection \<open>Printing\<close>

definition hex_digit :: "nat \<Rightarrow> nat" where
  "hex_digit d = (if d < 10 then 48 + d else 87 + d)"

definition unicode_escape :: "nat \<Rightarrow> jsstr" where
  "unicode_escape u = [92, 117, hex_digit (u div 4096 mod 16), hex_digit (u div 256 mod 16),
     hex_digit (u div 16 mod 16), hex_digit (u mod 16)]"

definition quote_unit :: "nat \<Rightarrow> jsstr" where
  "quote_unit u =
     (if u = 34 then [92, 34] else if u = 92 then [92, 92]
      else if u = 8 then [92, 98] else if u = 9 then [92, 116]
      else if u = 10 then [92, 110] else if u = 12 then [92, 102]
      else if u = 13 then [92, 114]
      else if u < 32 then unicode_escape u else [u])"

fun quote_units :: "jsstr \<Rightarrow> jsstr" where
  "quote_units [] = []"
| "quote_units [u] =
     (if high_surrogate u \<or> low_surrogate u then unicode_escape u else quote_unit u)"
| "quote_units (u # v # s) =
     (if high_surrogate u \<and> low_surrogate v then u # v # quote_units s
      else (if high_surrogate u \<or> low_surrogate u then unicode_escape u else quote_unit u)
             @ quote_units (v # s))"

definition json_quote :: "jsstr \<Rightarrow> jsstr" where
  "json_quote s = 34 # quote_units s @ [34]"

fun json_stringify :: "json \<Rightarrow> jsstr"
  and stringify_elems :: "json list \<Rightarrow> jsstr"
  and stringify_members :: "(jsstr \<times> json) list \<Rightarrow> jsstr" where
  "json_stringify JNull = js ''null''"
| "json_stringify (JBool b) = (if b then js ''true'' else js ''false'')"
| "json_stringify (JNum l) = l"
| "json_stringify (JStr s) = json_quote s"
| "json_stringify (JArr vs) = 91 # stringify_elems vs @ [93]"
| "json_stringify (JObj ms) = 123 # stringify_members ms @ [125]"
| "stringify_elems [] = []"
| "stringify_elems [v] = json_stringify v"
| "stringify_elems (v # w # vs) = json_stringify v @ 44 # stringify_elems (w # vs)"
| "stringify_members [] = []"
| "stringify_members [(k, v)] = json_quote k @ 58 # json_stringify v"
| "stringify_members ((k, v) # m # ms) =
     json_quote k @ 58 # json_stringify v @ 44 # stringify_members (m # ms)"

definition json_strings :: "jsstr list \<Rightarrow> json" where
  "json_strings xs = JArr (map JStr xs)"

subsection \<open>Parsing\<close>

definition json_ws :: "nat \<Rightarrow> bool" where
  "json_ws u = (u = 32 \<or> u = 9 \<or> u = 10 \<or> u = 13)"

definition skip_ws :: "jsstr \<Rightarrow> jsstr" where
  "skip_ws s = dropWhile json_ws s"

definition is_digit :: "nat \<Rightarrow> bool" where
  "is_digit u = (48 \<le> u \<and> u \<le> 57)"

definition hex_value :: "nat \<Rightarrow> nat option" where
  "hex_value u = (if is_digit u then Some (u - 48)
     else if 97 \<le> u \<and> u \<le> 102 then Some (u - 87)
     else if 65 \<le> u \<and> u \<le> 70 then Some (u - 55) else None)"

definition hex4 :: "nat \<Rightarrow> nat \<Rightarrow> nat \<Rightarrow> nat \<Rightarrow> nat option" where
  "hex4 a b c d = (case (hex_value a, hex_value b, hex_value c, hex_value d) of
     (Some a, Some b, Some c, Some d) \<Rightarrow> Some (4096 * a + 256 * b + 16 * c + d)
   | _ \<Rightarrow> None)"

definition escape_value :: "nat \<Rightarrow> nat option" where
  "escape_value e = (if e = 34 \<or> e = 92 \<or> e = 47 then Some e
     else if e = 98 then Some 8 else if e = 116 then Some 9 else if e = 110 then Some 10
     else if e = 102 then Some 12 else if e = 114 then Some 13 else None)"

text \<open>The characters of a string literal after the opening quote.\<close>

fun parse_units :: "jsstr \<Rightarrow> (jsstr \<times> jsstr) option" where
  "parse_units [] = None"
| "parse_units (u # s) =
     (if u = 34 then Some ([], s)
      else if u = 92 then
        (case s of
           [] \<Rightarrow> None
         | e # t \<Rightarrow>
             if e = 117 then
               (case t of
                  a # b # c # d # r \<Rightarrow>
                    (case hex4 a b c d of
                       None \<Rightarrow> None
                     | Some x \<Rightarrow> map_option (apfst (Cons x)) (parse_units r))
                | _ \<Rightarrow> None)
             else
               (case escape_value e of
                  None \<Rightarrow> None
                | Some x \<Rightarrow> map_option (apfst (Cons x)) (parse_units t)))
      else if u < 32 then None
      else map_option (apfst (Cons u)) (parse_units s))"

definition parse_fraction :: "jsstr \<Rightarrow> (jsstr \<times> jsstr) option" where
  "parse_fraction s = (case s of
     u # t \<Rightarrow> if u = 46 then
                (if takeWhile is_digit t = [] then None
                 else Some (46 # takeWhile is_digit t, dropWhile is_digit t))
              else Some ([], s)
   | [] \<Rightarrow> Some ([], []))"

definition parse_exponent :: "jsstr \<Rightarrow> (jsstr \<times> jsstr) option" where
  "parse_exponent s = (case s of
     e # t \<Rightarrow> if e = 101 \<or> e = 69 then
                (let sign = (case t of u # _ \<Rightarrow> if u = 43 \<or> u = 45 then [u] else [] | [] \<Rightarrow> []);
                     r = drop (length sign) t
                 in if takeWhile is_digit r = [] then None
                    else Some (e # sign @ takeWhile is_digit r, dropWhile is_digit r))
              else Some ([], s)
   | [] \<Rightarrow> Some ([], []))"

definition parse_number :: "jsstr \<Rightarrow> (json \<times> jsstr) option" where
  "parse_number s =
     (let sign = (case s of u # _ \<Rightarrow> if u = 45 then [u] else [] | [] \<Rightarrow> []);
          t = drop (length sign) s;
          digits = (case t of u # _ \<Rightarrow> if u = 48 then [48] else takeWhile is_digit t | [] \<Rightarrow> [])
      in if digits = [] then None
         else (case parse_fraction (drop (length digits) t) of
                 None \<Rightarrow> None
               | Some (frac, r) \<Rightarrow>
                   (case parse_exponent r of
                      None \<Rightarrow> None
                    | Some (ex, r') \<Rightarrow> Some (JNum (sign @ digits @ frac @ ex), r'))))"

definition expect :: "jsstr \<Rightarrow> json \<Rightarrow> jsstr \<Rightarrow> (json \<times> jsstr) option" where
  "expect w v s = (if take (length w) s = w then Some (v, drop (length w) s) else None)"

fun parse_value :: "nat \<Rightarrow> jsstr \<Rightarrow> (json \<times> jsstr) option"
  and parse_elems :: "nat \<Rightarrow> jsstr \<Rightarrow> (json list \<times> jsstr) option"
  and parse_members :: "nat \<Rightarrow> jsstr \<Rightarrow> ((jsstr \<times> json) list \<times> jsstr) option" where
  "parse_value 0 s = None"
| "parse_value (Suc n) s =
     (case skip_ws s of
        [] \<Rightarrow> None
      | c # r \<Rightarrow>
          if c = 123 then
            (case skip_ws r of
               [] \<Rightarrow> None
             | d # r' \<Rightarrow> if d = 125 then Some (JObj [], r')
                         else map_option (apfst JObj) (parse_members n (d # r')))
          else if c = 91 then
            (case skip_ws r of
               [] \<Rightarrow> None
             | d # r' \<Rightarrow> if d = 93 then Some (JArr [], r')
                         else map_option (apfst JArr) (parse_elems n (d # r')))
          else if c = 34 then map_option (apfst JStr) (parse_units r)
          else if c = 116 then expect (js ''true'') (JBool True) (c # r)
          else if c = 102 then expect (js ''false'') (JBool False) (c # r)
          else if c = 110 then expect (js ''null'') JNull (c # r)
          else parse_number (c # r))"
| "parse_elems 0 s = None"
| "parse_elems (Suc n) s =
     (case parse_value n s of
        None \<Rightarrow> None
      | Some (v, r) \<Rightarrow>
          (case skip_ws r of
             [] \<Rightarrow> None
           | c # r' \<Rightarrow> if c = 44 then map_option (apfst (Cons v)) (parse_elems n r')
                       else if c = 93 then Some ([v], r') else None))"
| "parse_members 0 s = None"
| "parse_members (Suc n) s =
     (case skip_ws s of
        [] \<Rightarrow> None
      | q # t \<Rightarrow>
          if q \<noteq> 34 then None
          else (case parse_units t of
                  None \<Rightarrow> None
                | Some (k, r) \<Rightarrow>
                    (case skip_ws r of
                       [] \<Rightarrow> None
                     | c # r' \<Rightarrow>
                         if c \<noteq> 58 then None
                         else (case parse_value n r' of
                                 None \<Rightarrow> None
                               | Some (v, x) \<Rightarrow>
                                   (case skip_ws x of
                                      [] \<Rightarrow> None
                                    | d # x' \<Rightarrow>
                                        if d = 44 then
                                          map_option (apfst (Cons (k, v))) (parse_members n x')
                                        else if d = 125 then Some ([(k, v)], x')
                                        else None)))))"

definition json_parse :: "jsstr \<Rightarrow> json option" where
  "json_parse s = (case parse_value (2 * length s + 2) s of
     None \<Rightarrow> None
   | Some (v, r) \<Rightarrow> if skip_ws r = [] then Some v else None)"

text \<open>Reading a property of a parsed value: \<open>None\<close> is \<open>undefined\<close>.\<close>

definition jget :: "jsstr \<Rightarrow> (jsstr \<times> json) list \<Rightarrow> json option" where
  "jget k ms = map_of (rev ms) k"

text \<open>An array of strings, as the deps and options columns hold it.\<close>

fun strings_of :: "json list \<Rightarrow> jsstr list option" where
  "strings_of [] = Some []"
| "strings_of (JStr s # vs) = map_option (Cons s) (strings_of vs)"
| "strings_of (_ # vs) = None"

lemma strings_of_map [simp]: "strings_of (map JStr xs) = Some xs"
  by (induction xs) auto

subsection \<open>The parser consumes its input\<close>

lemma skip_ws_le: "length (skip_ws s) \<le> length s"
  by (simp add: skip_ws_def length_dropWhile_le)

lemma skip_ws_Cons_le: "skip_ws s = c # r \<Longrightarrow> Suc (length r) \<le> length s"
  by (metis skip_ws_le length_Cons)

lemma parse_units_shrinks: "parse_units s = Some (x, r) \<Longrightarrow> length r < length s"
proof (induction s arbitrary: x r rule: parse_units.induct)
  case 1
  then show ?case by simp
next
  case (2 u s)
  then show ?case
    by (fastforce split: if_splits list.splits option.splits)
qed

lemma parse_fraction_le: "parse_fraction s = Some (x, r) \<Longrightarrow> length r \<le> length s"
  by (auto simp: parse_fraction_def length_dropWhile_le le_SucI split: list.splits if_splits)

lemma parse_exponent_le: "parse_exponent s = Some (x, r) \<Longrightarrow> length r \<le> length s"
  by (auto simp: parse_exponent_def Let_def split: list.splits if_splits
      intro: le_SucI order.trans [OF length_dropWhile_le])

lemma parse_number_shrinks:
  assumes "parse_number s = Some (v, r)"
  shows "length r < length s"
proof -
  define sign where "sign = (case s of u # _ \<Rightarrow> if u = 45 then [u] else [] | [] \<Rightarrow> [])"
  define t where "t = drop (length sign) s"
  define digits where
    "digits = (case t of u # _ \<Rightarrow> if u = 48 then [48] else takeWhile is_digit t | [] \<Rightarrow> [])"
  from assms obtain f q e where ne: "digits \<noteq> []"
    and f: "parse_fraction (drop (length digits) t) = Some (f, q)"
    and e: "parse_exponent q = Some (e, r)"
    unfolding parse_number_def Let_def sign_def [symmetric] t_def [symmetric]
      digits_def [symmetric]
    by (auto split: if_splits option.splits prod.splits)
  from ne have "t \<noteq> []" by (cases t) (auto simp: digits_def)
  then have "length (drop (length digits) t) < length t" using ne by simp
  also have "length t \<le> length s" by (simp add: t_def)
  finally show ?thesis
    using parse_fraction_le [OF f] parse_exponent_le [OF e] by linarith
qed

lemma expect_shrinks: "expect w v s = Some (x, r) \<Longrightarrow> w \<noteq> [] \<Longrightarrow> s \<noteq> [] \<Longrightarrow> length r < length s"
  by (auto simp: expect_def split: if_splits)

lemma parse_shrinks:
  "parse_value n s = Some (v, r) \<Longrightarrow> length r < length s"
  "parse_elems n s = Some (vs, r) \<Longrightarrow> length r < length s"
  "parse_members n s = Some (ms, r) \<Longrightarrow> length r < length s"
proof (induction n s and n s and n s arbitrary: v r and vs r and ms r
    rule: parse_value_parse_elems_parse_members.induct)
  case (2 n s)
  from "2.prems" obtain c t where ct: "skip_ws s = c # t"
    by (auto split: list.splits)
  show ?case
    using "2.prems" "2.IH" skip_ws_Cons_le [OF ct]
    by (fastforce simp: ct dest: skip_ws_Cons_le parse_units_shrinks parse_number_shrinks
        expect_shrinks split: if_splits list.splits)
next
  case (4 n s)
  from "4.prems" show ?case
    using "4.IH" by (fastforce dest: skip_ws_Cons_le split: if_splits list.splits option.splits)
next
  case (6 n s)
  from "6.prems" obtain q t k r1 where q: "skip_ws s = q # t" "q = 34"
    and k: "parse_units t = Some (k, r1)"
    by (auto split: list.splits if_splits option.splits)
  from "6.prems" obtain r2 where c: "skip_ws r1 = 58 # r2"
    by (auto simp: q k split: list.splits if_splits option.splits)
  from "6.prems" obtain v r3 where v: "parse_value n r2 = Some (v, r3)"
    by (auto simp: q k c split: option.splits)
  from "6.prems" obtain d r4 where d: "skip_ws r3 = d # r4"
    by (auto simp: q k c v split: list.splits)
  have less: "length r4 < length s"
    using skip_ws_Cons_le [OF q(1)] parse_units_shrinks [OF k] skip_ws_Cons_le [OF c]
      "6.IH"(1) [OF q(1) _ k _ c _ v] skip_ws_Cons_le [OF d] q by simp
  show ?case
  proof (cases "d = 44")
    case True
    with "6.prems" obtain ms' where "parse_members n r4 = Some (ms', r)"
      by (auto simp: q k c v d)
    with "6.IH"(2) [OF q(1) _ k _ c _ v _ d] True q have "length r < length r4" by blast
    with less show ?thesis by simp
  next
    case False
    with "6.prems" less show ?thesis
      by (auto simp: q k c v d split: if_splits)
  qed
qed simp_all

text \<open>Fuel twice the length of the text is enough: more fuel never changes the result.\<close>

lemma parse_fuel:
  "2 * length s < n \<Longrightarrow> 2 * length s < m \<Longrightarrow> parse_value n s = parse_value m s"
  "2 * length s + 1 < n \<Longrightarrow> 2 * length s + 1 < m \<Longrightarrow> parse_elems n s = parse_elems m s"
  "2 * length s + 1 < n \<Longrightarrow> 2 * length s + 1 < m \<Longrightarrow> parse_members n s = parse_members m s"
proof (induction n s and n s and n s arbitrary: m and m and m
    rule: parse_value_parse_elems_parse_members.induct)
  case (2 n s)
  from "2.prems"(2) obtain m' where m: "m = Suc m'" by (cases m) auto
  show ?case
  proof (cases "skip_ws s")
    case (Cons c r)
    have len: "Suc (length r) \<le> length s" by (rule skip_ws_Cons_le [OF Cons])
    show ?thesis
    proof (cases "skip_ws r")
      case Nil
      with Cons m show ?thesis by simp
    next
      case d: (Cons d r')
      have "Suc (length r') \<le> length r" by (rule skip_ws_Cons_le [OF d])
      with len "2.prems" m have "2 * length (d # r') + 1 < n" "2 * length (d # r') + 1 < m'"
        by simp_all
      then have "c = 123 \<Longrightarrow> d \<noteq> 125 \<Longrightarrow> parse_members n (d # r') = parse_members m' (d # r')"
        and "c \<noteq> 123 \<Longrightarrow> c = 91 \<Longrightarrow> d \<noteq> 93 \<Longrightarrow> parse_elems n (d # r') = parse_elems m' (d # r')"
        using "2.IH"(1) [OF Cons _ d] "2.IH"(2) [OF Cons _ _ d] by blast+
      then show ?thesis
        by (cases "c = 123"; cases "c = 91"; cases "d = 125"; cases "d = 93"; simp add: m Cons d)
    qed
  qed (simp add: m)
next
  case (4 n s)
  from "4.prems"(2) obtain m' where m: "m = Suc m'" by (cases m) auto
  have "2 * length s < n" "2 * length s < m'" using "4.prems" m by simp_all
  then have eq: "parse_value n s = parse_value m' s" by (rule "4.IH"(1))
  show ?case
  proof (cases "parse_value m' s")
    case (Some p)
    obtain v r where p: "p = (v, r)" by (cases p)
    have len: "length r < length s"
      using Some p by (auto intro: parse_shrinks(1))
    show ?thesis
    proof (cases "skip_ws r")
      case (Cons c r')
      have "Suc (length r') \<le> length r" by (rule skip_ws_Cons_le [OF Cons])
      with len "4.prems" m have "2 * length r' + 1 < n" "2 * length r' + 1 < m'" by simp_all
      moreover have "parse_value n s = Some (v, r)" using eq Some p by simp
      ultimately have "c = 44 \<Longrightarrow> parse_elems n r' = parse_elems m' r'"
        using "4.IH"(2) [OF _ refl Cons] by blast
      then show ?thesis by (simp add: m eq Some p Cons)
    qed (simp add: m eq Some p)
  qed (simp add: m eq)
next
  case (6 n s)
  from "6.prems"(2) obtain m' where m: "m = Suc m'" by (cases m) auto
  show ?case
  proof (cases "skip_ws s")
    case q: (Cons q t)
    show ?thesis
    proof (cases "q = 34 \<and> parse_units t \<noteq> None")
      case True
      then obtain k r where k: "q = 34" "parse_units t = Some (k, r)" by auto
      show ?thesis
      proof (cases "skip_ws r")
        case c: (Cons c r')
        have len: "2 * length r' < n" "2 * length r' < m'"
          using skip_ws_Cons_le [OF q] parse_units_shrinks [OF k(2)] skip_ws_Cons_le [OF c]
            "6.prems" m by simp_all
        have eq: "c = 58 \<Longrightarrow> parse_value n r' = parse_value m' r'"
          using "6.IH"(1) [OF q _ k(2) _ c] k(1) len by blast
        show ?thesis
        proof (cases "c = 58 \<and> parse_value m' r' \<noteq> None")
          case True
          then obtain v x where v: "c = 58" "parse_value m' r' = Some (v, x)" by auto
          show ?thesis
          proof (cases "skip_ws x")
            case d: (Cons d x')
            have "length x < length r'" by (rule parse_shrinks(1) [OF v(2)])
            with skip_ws_Cons_le [OF d] len
            have "2 * length x' + 1 < n" "2 * length x' + 1 < m'" by simp_all
            moreover have "parse_value n r' = Some (v, x)" using eq v by simp
            ultimately have "d = 44 \<Longrightarrow> parse_members n x' = parse_members m' x'"
              using "6.IH"(2) [OF q _ k(2) refl c _ _ refl d] k(1) v(1) by blast
            then show ?thesis by (simp add: m q k c eq v d)
          qed (simp add: m q k c eq v)
        qed (auto simp: m q k c eq split: option.split)
      qed (simp add: m q k)
    qed (auto simp: m q split: option.split)
  qed (simp add: m)
qed simp_all

lemma json_parse_fuel:
  assumes "2 * length s < n"
  shows "json_parse s = (case parse_value n s of
     None \<Rightarrow> None | Some (v, r) \<Rightarrow> if skip_ws r = [] then Some v else None)"
  unfolding json_parse_def using parse_fuel(1) [of s "2 * length s + 2" n] assms by simp

subsection \<open>Round trip\<close>

lemma hex_value_digit: "d < 16 \<Longrightarrow> hex_value (hex_digit d) = Some d"
  by (auto simp: hex_value_def hex_digit_def is_digit_def)

lemma hex4_digits:
  "a < 16 \<Longrightarrow> b < 16 \<Longrightarrow> c < 16 \<Longrightarrow> d < 16 \<Longrightarrow>
    hex4 (hex_digit a) (hex_digit b) (hex_digit c) (hex_digit d)
      = Some (4096 * a + 256 * b + 16 * c + d)"
  by (simp add: hex4_def hex_value_digit)

lemma hex4_escape:
  assumes "u < 65536"
  shows "hex4 (hex_digit (u div 4096 mod 16)) (hex_digit (u div 256 mod 16))
     (hex_digit (u div 16 mod 16)) (hex_digit (u mod 16)) = Some u"
proof -
  have eq: "4096 * (u div 4096 mod 16) + 256 * (u div 256 mod 16) + 16 * (u div 16 mod 16)
      + u mod 16 = u"
  proof -
    have 1: "u = 16 * (u div 16) + u mod 16" by simp
    have 2: "u div 16 = 16 * (u div 256) + u div 16 mod 16"
      using div_mult_mod_eq [of "u div 16" 16] by (simp add: div_mult2_eq [symmetric])
    have 3: "u div 256 = 16 * (u div 4096) + u div 256 mod 16"
      using div_mult_mod_eq [of "u div 256" 16] by (simp add: div_mult2_eq [symmetric])
    have "u div 4096 mod 16 = u div 4096" using assms by simp
    then show ?thesis using 1 2 3 by linarith
  qed
  have "u div 4096 mod 16 < 16" "u div 256 mod 16 < 16" "u div 16 mod 16 < 16" "u mod 16 < 16"
    by simp_all
  from hex4_digits [OF this] show ?thesis unfolding eq .
qed

lemma parse_hex4:
  "hex4 a b c d = Some u \<Longrightarrow>
    parse_units (92 # 117 # a # b # c # d # s) = map_option (apfst (Cons u)) (parse_units s)"
  by simp

lemma parse_unicode_escape:
  "u < 65536 \<Longrightarrow> parse_units (unicode_escape u @ s) = map_option (apfst (Cons u)) (parse_units s)"
  unfolding unicode_escape_def append_Cons append_Nil by (intro parse_hex4 hex4_escape)

lemma parse_quote_unit:
  "parse_units (quote_unit u @ s) = map_option (apfst (Cons u)) (parse_units s)"
  by (auto simp: quote_unit_def escape_value_def parse_unicode_escape)

lemma surrogate_bounds:
  "high_surrogate u \<Longrightarrow> 55296 \<le> u \<and> u < 65536" "low_surrogate u \<Longrightarrow> 55296 \<le> u \<and> u < 65536"
  by (auto simp: high_surrogate_def low_surrogate_def)

lemma parse_quote_units: "parse_units (quote_units s @ 34 # r) = Some (s, r)"
proof (induction s rule: quote_units.induct)
  case (2 u)
  then show ?case
    by (auto simp: parse_quote_unit parse_unicode_escape surrogate_bounds)
next
  case (3 u v s)
  show ?case
  proof (cases "high_surrogate u \<and> low_surrogate v")
    case True
    with 3 show ?thesis
      using surrogate_bounds(1) [of u] surrogate_bounds(2) [of v] by simp
  next
    case False
    with 3 show ?thesis
      by (auto simp: parse_quote_unit parse_unicode_escape surrogate_bounds)
  qed
qed simp

text \<open>The literals of the integers: \<open>JSON.stringify\<close> writes no others for them.\<close>

definition digits_ok :: "jsstr \<Rightarrow> bool" where
  "digits_ok l = (l \<noteq> [] \<and> list_all is_digit l \<and> (hd l = 48 \<longrightarrow> l = [48]))"

definition num_ok :: "jsstr \<Rightarrow> bool" where
  "num_ok l = (digits_ok l \<or> l \<noteq> [] \<and> hd l = 45 \<and> digits_ok (tl l) \<and> tl l \<noteq> [48])"

lemma digits_ok_dec: "digits_ok (js_dec n)"
proof (cases "n = 0")
  case False
  then show ?thesis
    using js_dec_digits [of n] js_dec_not_zero_first [of n]
    by (auto simp: digits_ok_def list_all_iff is_digit_def)
qed (simp add: js_dec_small digits_ok_def is_digit_def)

lemma js_dec_zero: "js_dec n = [48] \<Longrightarrow> n = 0"
  using js_dec_not_zero_first [of n] by (cases "n = 0") auto

lemma num_ok_dec: "num_ok (js_dec n)"
  by (simp add: num_ok_def digits_ok_dec)

lemma num_ok_int: "num_ok (js_int n)"
  using js_dec_zero [of "nat (- n)"] by (auto simp: js_int_def num_ok_def digits_ok_dec)

fun json_ok :: "json \<Rightarrow> bool" where
  "json_ok (JNum l) = num_ok l"
| "json_ok (JArr vs) = list_all json_ok vs"
| "json_ok (JObj ms) = list_all (\<lambda>m. json_ok (snd m)) ms"
| "json_ok _ = True"

definition value_stop :: "jsstr \<Rightarrow> bool" where
  "value_stop r = (case r of [] \<Rightarrow> True
     | u # _ \<Rightarrow> \<not> is_digit u \<and> u \<noteq> 46 \<and> u \<noteq> 101 \<and> u \<noteq> 69)"

lemma parse_digits_ok:
  assumes "digits_ok l" "value_stop r"
  shows "parse_number (l @ r) = Some (JNum l, r)"
    and "parse_number (45 # l @ r) = Some (JNum (45 # l), r)"
proof -
  obtain u t where l: "l = u # t" and u: "is_digit u" and t: "list_all is_digit t"
    using assms(1) by (cases l) (auto simp: digits_ok_def)
  have stop: "parse_fraction r = Some ([], r)" "parse_exponent r = Some ([], r)"
    using assms(2) by (auto simp: value_stop_def parse_fraction_def parse_exponent_def
        split: list.splits)
  have tw: "takeWhile is_digit (l @ r) = l"
    using assms by (cases r) (auto simp: digits_ok_def value_stop_def list_all_iff
        takeWhile_append)
  have "u \<noteq> 45" using u by (simp add: is_digit_def)
  then have sign: "(case l @ r of u # _ \<Rightarrow> if u = 45 then [u] else [] | [] \<Rightarrow> []) = []"
    by (simp add: l)
  have digits: "(case l @ r of u # _ \<Rightarrow> if u = 48 then [48] else takeWhile is_digit (l @ r)
      | [] \<Rightarrow> []) = l"
    using assms(1) tw by (auto simp: digits_ok_def l)
  have "l \<noteq> []" by (simp add: l)
  then show "parse_number (l @ r) = Some (JNum l, r)"
    unfolding parse_number_def sign Let_def list.size(3) drop_0 digits by (simp add: stop)
  have "drop (length [45 :: nat]) (45 # l @ r) = l @ r" by simp
  then have "parse_number (45 # l @ r) = (if l = [] then None
      else (case parse_fraction (drop (length l) (l @ r)) of
              None \<Rightarrow> None
            | Some (frac, r) \<Rightarrow> (case parse_exponent r of
                  None \<Rightarrow> None
                | Some (ex, r') \<Rightarrow> Some (JNum ([45] @ l @ frac @ ex), r'))))"
    unfolding parse_number_def Let_def list.case if_P [OF refl] by (simp only: digits)
  with \<open>l \<noteq> []\<close> show "parse_number (45 # l @ r) = Some (JNum (45 # l), r)" by (simp add: stop)
qed

lemma parse_number_ok:
  assumes "num_ok l" "value_stop r"
  shows "parse_number (l @ r) = Some (JNum l, r)"
  using assms parse_digits_ok [of l r] parse_digits_ok [of "tl l" r]
  by (cases l) (auto simp: num_ok_def)


lemma json_first:
  assumes "json_ok v"
  shows "\<exists>c t. json_stringify v = c # t \<and> \<not> json_ws c \<and> c \<noteq> 93 \<and> c \<noteq> 125"
proof (cases v)
  case (JNum l)
  then show ?thesis
    using assms by (cases l) (auto simp: num_ok_def digits_ok_def is_digit_def json_ws_def)
qed (auto simp: json_quote_def json_ws_def)

lemma skip_ws_Cons: "\<not> json_ws c \<Longrightarrow> skip_ws (c # t) = c # t"
  by (simp add: skip_ws_def)

lemma stringify_elems_first:
  assumes "list_all json_ok (v # vs)"
  shows "\<exists>c t. stringify_elems (v # vs) = c # t \<and> \<not> json_ws c \<and> c \<noteq> 93"
  using json_first [of v] assms by (cases vs) auto

lemma value_stop_simps [simp]:
  "value_stop []" "value_stop (44 # r)" "value_stop (93 # r)" "value_stop (125 # r)"
  by (simp_all add: value_stop_def is_digit_def)

lemma skip_ws_punct [simp]:
  "skip_ws (44 # r) = 44 # r" "skip_ws (93 # r) = 93 # r" "skip_ws (125 # r) = 125 # r"
  "skip_ws (58 # r) = 58 # r" "skip_ws (34 # r) = 34 # r" "skip_ws (91 # r) = 91 # r"
  "skip_ws (123 # r) = 123 # r"
  by (simp_all add: skip_ws_def json_ws_def)

lemma parse_stringify:
  "json_ok v \<Longrightarrow> value_stop r \<Longrightarrow> 2 * length (json_stringify v @ r) < n \<Longrightarrow>
    parse_value n (json_stringify v @ r) = Some (v, r)"
  "list_all json_ok vs \<Longrightarrow> vs \<noteq> [] \<Longrightarrow> 2 * length (stringify_elems vs @ 93 # r) + 1 < n \<Longrightarrow>
    parse_elems n (stringify_elems vs @ 93 # r) = Some (vs, r)"
  "list_all (\<lambda>m. json_ok (snd m)) ms \<Longrightarrow> ms \<noteq> [] \<Longrightarrow>
    2 * length (stringify_members ms @ 125 # r) + 1 < n \<Longrightarrow>
    parse_members n (stringify_members ms @ 125 # r) = Some (ms, r)"
proof (induction v and vs and ms arbitrary: n r and n r and n r
    rule: json_stringify_stringify_elems_stringify_members.induct)
  case 1
  then obtain m where "n = Suc m" by (cases n) auto
  then show ?case by (simp add: skip_ws_Cons json_ws_def expect_def)
next
  case (2 b)
  then obtain m where "n = Suc m" by (cases n) auto
  then show ?case by (simp add: skip_ws_Cons json_ws_def expect_def)
next
  case (3 l)
  then obtain m where "n = Suc m" by (cases n) auto
  moreover obtain c t where "l = c # t" "is_digit c \<or> c = 45"
    using "3.prems" by (cases l) (auto simp: num_ok_def digits_ok_def)
  ultimately show ?case
    using parse_number_ok [of l r] "3.prems"
    by (auto simp: skip_ws_Cons json_ws_def is_digit_def)
next
  case (4 s)
  then obtain m where "n = Suc m" by (cases n) auto
  then show ?case by (simp add: json_quote_def parse_quote_units)
next
  case (5 vs)
  then obtain m where m: "n = Suc m" by (cases n) auto
  show ?case
  proof (cases vs)
    case Nil
    then show ?thesis by (simp add: m)
  next
    case (Cons w ws)
    with stringify_elems_first [of w ws] "5.prems" obtain c t where
      ct: "stringify_elems vs = c # t" "\<not> json_ws c" "c \<noteq> 93" by auto
    have "parse_elems m (stringify_elems vs @ 93 # r) = Some (vs, r)"
      using "5.prems" Cons m by (intro "5.IH") auto
    then show ?thesis using ct by (simp add: m skip_ws_Cons)
  qed
next
  case (6 ms)
  then obtain m where m: "n = Suc m" by (cases n) auto
  show ?case
  proof (cases ms)
    case Nil
    then show ?thesis by (simp add: m)
  next
    case (Cons w ws)
    then obtain t where ct: "stringify_members ms = 34 # t"
      by (cases w; cases ws) (auto simp: json_quote_def)
    have "parse_members m (stringify_members ms @ 125 # r) = Some (ms, r)"
      using "6.prems" Cons m by (intro "6.IH") auto
    then show ?thesis using ct by (simp add: m)
  qed
next
  case (8 v)
  then obtain m where m: "n = Suc m" by (cases n) auto
  have "parse_value m (json_stringify v @ 93 # r) = Some (v, 93 # r)"
    using "8.prems" m by (intro "8.IH") auto
  then show ?case by (simp add: m)
next
  case (9 v w vs)
  then obtain m where m: "n = Suc m" by (cases n) auto
  have "parse_value m (json_stringify v @ 44 # stringify_elems (w # vs) @ 93 # r)
      = Some (v, 44 # stringify_elems (w # vs) @ 93 # r)"
    using "9.prems" m by (intro "9.IH"(1)) auto
  moreover have "parse_elems m (stringify_elems (w # vs) @ 93 # r) = Some (w # vs, r)"
    using "9.prems" m by (intro "9.IH"(2)) auto
  ultimately show ?case by (simp add: m)
next
  case (11 k v)
  then obtain m where m: "n = Suc m" by (cases n) auto
  have "parse_value m (json_stringify v @ 125 # r) = Some (v, 125 # r)"
    using "11.prems" m by (intro "11.IH") (auto simp: json_quote_def)
  then show ?case by (simp add: m json_quote_def parse_quote_units)
next
  case (12 k v w ms)
  then obtain m where m: "n = Suc m" by (cases n) auto
  have "parse_value m (json_stringify v @ 44 # stringify_members (w # ms) @ 125 # r)
      = Some (v, 44 # stringify_members (w # ms) @ 125 # r)"
    using "12.prems" m by (intro "12.IH"(1)) (auto simp: json_quote_def)
  moreover have "parse_members m (stringify_members (w # ms) @ 125 # r) = Some (w # ms, r)"
    using "12.prems" m by (intro "12.IH"(2)) (auto simp: json_quote_def)
  ultimately show ?case by (simp add: m json_quote_def parse_quote_units)
qed simp_all

theorem json_parse_stringify:
  assumes "json_ok v"
  shows "json_parse (json_stringify v) = Some v"
  using parse_stringify(1) [of v "[]" "2 * length (json_stringify v) + 2"] assms
  by (simp add: json_parse_def skip_ws_def)

lemma json_parse_strings [simp]:
  "json_parse (json_stringify (json_strings xs)) = Some (json_strings xs)"
  by (rule json_parse_stringify) (simp add: json_strings_def list_all_iff)

text \<open>Unfolding the parser is done on purpose only.\<close>

declare parse_value.simps [simp del] parse_elems.simps [simp del] parse_members.simps [simp del]

end
