(* ===== verification/Pane_Key.thy ===== *)
theory Pane_Key
  imports Js_Json
begin

section \<open>Pane keys\<close>

text \<open>
  \<open>src/src/shared/stable-pane-id.ts\<close>: the durable identity \<open>tabId:leafUuid\<close> of a terminal
  pane, its constructor and its two parsers, and the two comparisons built on it,
  \<open>isEquivalentPaneKey\<close> of the orchestration database and \<open>isForeignPane\<close> of the lifecycle
  reconciliation. Shown: the constructor and the parser are inverse, a legacy numeric key is
  never a stable one, equivalence is an equivalence relation, and where both keys parse a
  pane is foreign exactly when it is not equivalent.
\<close>

subsection \<open>The source's functions\<close>

text \<open>\<open>s.indexOf(u)\<close> and \<open>s.lastIndexOf(u)\<close> for a single code unit, -1 when absent.\<close>

fun index_of :: "nat \<Rightarrow> jsstr \<Rightarrow> int" where
  "index_of u [] = -1"
| "index_of u (v # s) =
     (if v = u then 0 else (let i = index_of u s in if i = -1 then -1 else i + 1))"

definition last_index_of :: "nat \<Rightarrow> jsstr \<Rightarrow> int" where
  "last_index_of u s =
     (let i = index_of u (rev s) in if i = -1 then -1 else int (length s) - 1 - i)"

definition lower_hex :: "nat \<Rightarrow> bool" where
  "lower_hex u = (is_digit u \<or> 97 \<le> u \<and> u \<le> 102)"

definition uuid_pattern :: "(nat \<Rightarrow> bool) list" where
  "uuid_pattern = replicate 8 lower_hex @ [\<lambda>u. u = 45] @ replicate 4 lower_hex @ [\<lambda>u. u = 45]
     @ [\<lambda>u. 49 \<le> u \<and> u \<le> 53] @ replicate 3 lower_hex @ [\<lambda>u. u = 45]
     @ [\<lambda>u. u = 56 \<or> u = 57 \<or> u = 97 \<or> u = 98] @ replicate 3 lower_hex @ [\<lambda>u. u = 45]
     @ replicate 12 lower_hex"

fun matches_pattern :: "(nat \<Rightarrow> bool) list \<Rightarrow> jsstr \<Rightarrow> bool" where
  "matches_pattern [] s = (s = [])"
| "matches_pattern (p # ps) [] = False"
| "matches_pattern (p # ps) (u # s) = (p u \<and> matches_pattern ps s)"

definition isStablePaneId :: "jsstr \<Rightarrow> bool" where
  "isStablePaneId v = matches_pattern uuid_pattern v"

definition isTerminalLeafId :: "jsstr \<Rightarrow> bool" where
  "isTerminalLeafId v = isStablePaneId v"

record parsed_pane_key =
  pk_tabId :: jsstr
  pk_leafId :: jsstr
  pk_stablePaneId :: jsstr

definition makePaneKey :: "jsstr \<Rightarrow> jsstr \<Rightarrow> exn + jsstr" where
  "makePaneKey tabId stableLeafId =
     (if tabId = [] \<or> 58 \<in> set tabId
      then Inl (Error (js ''tabId must be non-empty and must not contain \":\"''))
      else if \<not> isTerminalLeafId stableLeafId
      then Inl (Error (js ''stableLeafId must be a UUID''))
      else Inr (tabId @ [58] @ stableLeafId))"

definition parsePaneKey :: "jsstr \<Rightarrow> parsed_pane_key option" where
  "parsePaneKey paneKey =
     (let first = index_of 58 paneKey
      in if first \<le> 0 \<or> first \<noteq> last_index_of 58 paneKey \<or> first = int (length paneKey) - 1
         then None
         else (let tabId = take (nat first) paneKey; leafId = drop (nat first + 1) paneKey
               in if \<not> isTerminalLeafId leafId then None
                  else Some \<lparr>pk_tabId = tabId, pk_leafId = leafId, pk_stablePaneId = leafId\<rparr>))"

record legacy_pane_key =
  lk_tabId :: jsstr
  lk_numericPaneId :: jsstr
  lk_paneKey :: jsstr

definition parseLegacyNumericPaneKey :: "jsstr \<Rightarrow> legacy_pane_key option" where
  "parseLegacyNumericPaneKey paneKey =
     (if 256 < length paneKey then None
      else (let trimmed = js_trim paneKey; delimiter = index_of 58 trimmed
            in if delimiter \<le> 0 \<or> delimiter \<noteq> last_index_of 58 trimmed
                  \<or> delimiter = int (length trimmed) - 1
               then None
               else (let numericPaneId = drop (nat delimiter + 1) trimmed
                     in if numericPaneId = [] \<or> \<not> list_all is_digit numericPaneId then None
                        else Some \<lparr>lk_tabId = take (nat delimiter) trimmed,
                                   lk_numericPaneId = numericPaneId, lk_paneKey = trimmed\<rparr>)))"

definition isEquivalentPaneKey :: "jsstr \<Rightarrow> jsstr \<Rightarrow> bool" where
  "isEquivalentPaneKey a b =
     (if a = b then True
      else (case (parsePaneKey a, parsePaneKey b) of
              (Some p, Some q) \<Rightarrow>
                pk_leafId p \<noteq> [] \<and> pk_leafId q \<noteq> [] \<and> pk_leafId p = pk_leafId q
            | _ \<Rightarrow> False))"

definition isForeignPane :: "jsstr \<Rightarrow> jsstr \<Rightarrow> bool" where
  "isForeignPane assigneePaneKey senderPaneKey =
     (if assigneePaneKey = senderPaneKey then False
      else (case (parsePaneKey assigneePaneKey, parsePaneKey senderPaneKey) of
              (Some p, Some q) \<Rightarrow>
                pk_leafId p \<noteq> [] \<and> pk_leafId q \<noteq> [] \<and> pk_leafId p \<noteq> pk_leafId q
            | _ \<Rightarrow> False))"

subsection \<open>Searching for a separator\<close>

lemma index_of_ge: "-1 \<le> index_of u s"
  by (induction s) (auto simp: Let_def)

lemma index_of_absent: "index_of u s = -1 \<longleftrightarrow> u \<notin> set s"
proof (induction s)
  case (Cons v s)
  then show ?case using index_of_ge [of u s] by (auto simp: Let_def)
qed simp

lemma index_of_split:
  "u \<notin> set a \<Longrightarrow> index_of u (a @ u # b) = int (length a)"
  by (induction a) (auto simp: Let_def)

lemma last_index_of_split:
  "u \<notin> set b \<Longrightarrow> last_index_of u (a @ u # b) = int (length a)"
  using index_of_split [of u "rev b" "rev a"] by (simp add: last_index_of_def Let_def)

lemma index_of_present:
  assumes "0 \<le> index_of u s"
  shows "\<exists>a b. s = a @ u # b \<and> u \<notin> set a \<and> index_of u s = int (length a)"
proof -
  have "u \<in> set s" using assms index_of_absent [of u s] by auto
  then obtain a b where "s = a @ u # b" "u \<notin> set a" by (meson split_list_first)
  then show ?thesis using index_of_split [of u a b] by auto
qed

text \<open>One separator, neither first nor last: what both parsers ask for.\<close>

lemma single_separator:
  "(0 < index_of u s \<and> index_of u s = last_index_of u s \<and> index_of u s \<noteq> int (length s) - 1)
   \<longleftrightarrow> (\<exists>a b. s = a @ u # b \<and> a \<noteq> [] \<and> b \<noteq> [] \<and> u \<notin> set a \<and> u \<notin> set b)"
  (is "?L \<longleftrightarrow> ?R")
proof
  assume ?L
  then obtain a b where s: "s = a @ u # b" "u \<notin> set a" "index_of u s = int (length a)"
    using index_of_present [of u s] by auto
  have "u \<notin> set b"
  proof
    assume "u \<in> set b"
    then obtain c d where "b = c @ u # d" "u \<notin> set d" by (meson split_list_last)
    then have "last_index_of u s = int (length (a @ u # c))"
      using last_index_of_split [of u d "a @ u # c"] s by simp
    with \<open>?L\<close> s show False by simp
  qed
  with s \<open>?L\<close> show ?R by (intro exI [of _ a] exI [of _ b]) auto
next
  assume ?R
  then obtain a b where "s = a @ u # b" "a \<noteq> []" "b \<noteq> []" "u \<notin> set a" "u \<notin> set b" by blast
  then show ?L by (simp add: index_of_split last_index_of_split)
qed

lemma matches_pattern_length: "matches_pattern ps s \<Longrightarrow> length s = length ps"
  by (induction ps s rule: matches_pattern.induct) auto

lemma matches_pattern_list_all2: "matches_pattern ps s \<longleftrightarrow> list_all2 (\<lambda>p u. p u) ps s"
  by (induction ps s rule: matches_pattern.induct) auto

lemma leaf_length: "isTerminalLeafId v \<Longrightarrow> length v = 36"
  unfolding isTerminalLeafId_def isStablePaneId_def
  by (drule matches_pattern_length) (simp add: uuid_pattern_def)

lemma uuid_pattern_no_colon: "p \<in> set uuid_pattern \<Longrightarrow> \<not> p 58"
  by (auto simp: uuid_pattern_def lower_hex_def is_digit_def)

lemma leaf_no_colon: "isTerminalLeafId v \<Longrightarrow> 58 \<notin> set v"
  unfolding isTerminalLeafId_def isStablePaneId_def matches_pattern_list_all2
  by (metis in_set_conv_nth list_all2_conv_all_nth uuid_pattern_no_colon)

lemma leaf_dash: "isTerminalLeafId v \<Longrightarrow> v ! 8 = 45"
  unfolding isTerminalLeafId_def isStablePaneId_def matches_pattern_list_all2
  by (drule list_all2_nthD [where p = 8]) (simp_all add: uuid_pattern_def nth_append)

lemma parsePaneKey_iff:
  "parsePaneKey k = Some p \<longleftrightarrow>
     k = pk_tabId p @ 58 # pk_leafId p \<and> pk_tabId p \<noteq> [] \<and> 58 \<notin> set (pk_tabId p)
     \<and> isTerminalLeafId (pk_leafId p) \<and> pk_stablePaneId p = pk_leafId p"
  (is "?L \<longleftrightarrow> ?R")
proof
  assume L: ?L
  then have "0 < index_of 58 k \<and> index_of 58 k = last_index_of 58 k
      \<and> index_of 58 k \<noteq> int (length k) - 1"
    by (auto simp: parsePaneKey_def Let_def split: if_splits)
  then obtain a b where k: "k = a @ 58 # b" "a \<noteq> []" "58 \<notin> set a" "58 \<notin> set b"
    unfolding single_separator by blast
  with L show ?R
    by (auto simp: parsePaneKey_def Let_def index_of_split last_index_of_split split: if_splits)
next
  assume R: ?R
  then have "pk_leafId p \<noteq> []" "58 \<notin> set (pk_leafId p)"
    using leaf_length [of "pk_leafId p"] leaf_no_colon [of "pk_leafId p"] by auto
  with R show ?L
    by (auto simp: parsePaneKey_def Let_def index_of_split last_index_of_split)
qed

lemma parsePaneKey_leaf_nonempty: "parsePaneKey k = Some p \<Longrightarrow> pk_leafId p \<noteq> []"
  using leaf_length by (fastforce simp: parsePaneKey_iff)

subsection \<open>Equivalence of keys\<close>

lemma isEquivalentPaneKey_iff:
  "isEquivalentPaneKey a b \<longleftrightarrow>
     a = b \<or> (\<exists>p q. parsePaneKey a = Some p \<and> parsePaneKey b = Some q
                 \<and> pk_leafId p = pk_leafId q)"
  using parsePaneKey_leaf_nonempty
  by (auto simp: isEquivalentPaneKey_def split: option.splits)

lemma isEquivalentPaneKey_refl [simp]: "isEquivalentPaneKey a a"
  by (simp add: isEquivalentPaneKey_def)

lemma isEquivalentPaneKey_sym: "isEquivalentPaneKey a b \<Longrightarrow> isEquivalentPaneKey b a"
  unfolding isEquivalentPaneKey_iff by metis

lemma isEquivalentPaneKey_trans:
  "isEquivalentPaneKey a b \<Longrightarrow> isEquivalentPaneKey b c \<Longrightarrow> isEquivalentPaneKey a c"
  unfolding isEquivalentPaneKey_iff by auto

subsection \<open>Properties\<close>

text \<open>
  The constructor and the parser of pane keys agree: what one builds the other reads back,
  and every key that parses is the key the constructor builds from its parts.
\<close>

theorem pane_key_roundtrip:
  "makePaneKey t l = Inr k \<longleftrightarrow>
     parsePaneKey k = Some \<lparr>pk_tabId = t, pk_leafId = l, pk_stablePaneId = l\<rparr>"
  by (auto simp: makePaneKey_def parsePaneKey_iff)

text \<open>A legacy numeric key is never taken for a stable one.\<close>

lemma legacy_not_stable:
  assumes "parseLegacyNumericPaneKey k = Some r"
  shows "parsePaneKey (lk_paneKey r) = None"
proof (rule ccontr)
  assume "parsePaneKey (lk_paneKey r) \<noteq> None"
  then obtain p where "parsePaneKey (lk_paneKey r) = Some p" by auto
  then have key: "lk_paneKey r = pk_tabId p @ 58 # pk_leafId p" "58 \<notin> set (pk_tabId p)"
    and leaf: "isTerminalLeafId (pk_leafId p)" by (auto simp: parsePaneKey_iff)
  have "lk_paneKey r = js_trim k"
    and "list_all is_digit (drop (nat (index_of 58 (js_trim k)) + 1) (js_trim k))"
    using assms by (auto simp: parseLegacyNumericPaneKey_def Let_def split: if_splits)
  with key have "list_all is_digit (pk_leafId p)"
    by (simp add: index_of_split)
  moreover have "pk_leafId p ! 8 = 45" "8 < length (pk_leafId p)"
    using leaf_dash [OF leaf] leaf_length [OF leaf] by simp_all
  ultimately have "is_digit 45" by (metis list_all_length)
  then show False by (simp add: is_digit_def)
qed

text \<open>A pane is foreign exactly when both keys parse and are not equivalent.\<close>

lemma foreign_iff_not_equivalent:
  "isForeignPane a b \<longleftrightarrow>
     parsePaneKey a \<noteq> None \<and> parsePaneKey b \<noteq> None \<and> \<not> isEquivalentPaneKey a b"
  using parsePaneKey_leaf_nonempty [of a] parsePaneKey_leaf_nonempty [of b]
  by (auto simp: isForeignPane_def isEquivalentPaneKey_def split: option.splits if_splits)

text \<open>
  Pane identity: being the same pane is an equivalence on keys, and the two readings of it
  in the program agree: a completion is taken for one from a foreign pane exactly when both
  keys parse and the dispatch lock does not count them as the same pane.
\<close>

theorem pane_identity:
  "equivp isEquivalentPaneKey \<and>
   (isForeignPane a b \<longleftrightarrow>
     parsePaneKey a \<noteq> None \<and> parsePaneKey b \<noteq> None \<and> \<not> isEquivalentPaneKey a b)"
  using foreign_iff_not_equivalent
  by (intro conjI equivpI reflpI sympI transpI)
    (auto intro: isEquivalentPaneKey_sym isEquivalentPaneKey_trans)

end
