(* ===== verification/Task_Display.thy ===== *)
theory Task_Display
  imports Prelude
begin

section \<open>Display text of orchestration tasks\<close>

text \<open>
  \<open>src/src/shared/orchestration-task-display.ts\<close> (the title and display name stored with a
  task) and \<open>src/src/shared/orchestration-task-summary.ts\<close> (the abbreviated spec of a brief
  task list). Shown: the length bounds, that the text is one line, that a task whose spec or
  title has anything visible gets a visible title, and that truncation never leaves half of
  a surrogate pair.
\<close>

subsection \<open>The source's functions\<close>

definition ORCHESTRATION_TASK_TITLE_MAX_LENGTH :: nat where
  "ORCHESTRATION_TASK_TITLE_MAX_LENGTH = 80"

definition ORCHESTRATION_DISPLAY_NAME_MAX_LENGTH :: nat where
  "ORCHESTRATION_DISPLAY_NAME_MAX_LENGTH = 160"

record display_metadata =
  dm_taskTitle :: jsstr
  dm_displayName :: jsstr

definition trimDanglingHighSurrogate :: "jsstr \<Rightarrow> jsstr" where
  "trimDanglingHighSurrogate v =
     (if v = [] then v else if high_surrogate (last v) then butlast v else v)"

definition normalizeSingleLine :: "jsstr option \<Rightarrow> nat \<Rightarrow> jsstr" where
  "normalizeSingleLine v maxLength =
     (case v of
        None \<Rightarrow> []
      | Some s \<Rightarrow>
          if s = [] then []
          else (let normalized = squeeze (js_trim s)
                in if normalized = [] then []
                   else if length normalized \<le> maxLength then normalized
                   else trim_end (trimDanglingHighSurrogate (take (maxLength - 3) normalized))
                          @ js ''...''))"

fun first_title :: "jsstr list \<Rightarrow> jsstr option" where
  "first_title [] = None"
| "first_title (l # ls) =
     (let title = normalizeSingleLine (Some l) ORCHESTRATION_TASK_TITLE_MAX_LENGTH
      in if title \<noteq> [] then Some title else first_title ls)"

definition deriveTaskTitleFromSpec :: "jsstr \<Rightarrow> jsstr" where
  "deriveTaskTitleFromSpec spec =
     (case first_title (split_lines spec) of
        Some title \<Rightarrow> title
      | None \<Rightarrow> normalizeSingleLine (Some spec) ORCHESTRATION_TASK_TITLE_MAX_LENGTH)"

definition buildOrchestrationTaskDisplayMetadata ::
  "jsstr \<Rightarrow> jsstr option \<Rightarrow> jsstr option \<Rightarrow> display_metadata" where
  "buildOrchestrationTaskDisplayMetadata spec title name =
     (let given = normalizeSingleLine title ORCHESTRATION_TASK_TITLE_MAX_LENGTH;
          taskTitle = (if given \<noteq> [] then given else deriveTaskTitleFromSpec spec);
          givenName = normalizeSingleLine name ORCHESTRATION_DISPLAY_NAME_MAX_LENGTH
      in \<lparr>dm_taskTitle = taskTitle,
          dm_displayName = (if givenName \<noteq> [] then givenName else taskTitle)\<rparr>)"

definition TASK_SPEC_BRIEF_LENGTH :: nat where
  "TASK_SPEC_BRIEF_LENGTH = 160"

definition truncateAtCodePoint :: "jsstr \<Rightarrow> jsstr" where
  "truncateAtCodePoint spec =
     (let sliced = take (TASK_SPEC_BRIEF_LENGTH - 1) spec
      in if sliced \<noteq> [] \<and> high_surrogate (last sliced) then butlast sliced else sliced)"

text \<open>One task of the list: the new spec and the \<open>spec_truncated\<close> flag.\<close>

definition abbreviateSpec :: "jsstr \<Rightarrow> jsstr \<times> bool" where
  "abbreviateSpec s =
     (let spec = js_trim (squeeze s); truncated = TASK_SPEC_BRIEF_LENGTH < length spec
      in (if truncated then trim_end (truncateAtCodePoint spec) @ [8230] else spec, truncated))"

definition abbreviateOrchestrationTasks :: "('a \<times> jsstr) list \<Rightarrow> ('a \<times> jsstr \<times> bool) list" where
  "abbreviateOrchestrationTasks tasks = map (\<lambda>(task, spec). (task, abbreviateSpec spec)) tasks"

subsection \<open>Trimming and squeezing\<close>

lemma trim_end_prefix: "\<exists>t. s = trim_end s @ t \<and> list_all js_space t"
proof -
  have "rev s = takeWhile js_space (rev s) @ dropWhile js_space (rev s)" by simp
  then have "s = trim_end s @ rev (takeWhile js_space (rev s))"
    unfolding trim_end_def by (metis rev_append rev_rev_ident)
  moreover have "list_all js_space (rev (takeWhile js_space (rev s)))"
    by (auto simp: list_all_iff dest: set_takeWhileD)
  ultimately show ?thesis by blast
qed

lemma length_trim_end: "length (trim_end s) \<le> length s"
  by (metis trim_end_prefix length_append le_add1)

lemma length_js_trim: "length (js_trim s) \<le> length s"
  unfolding js_trim_def trim_start_def
  by (rule order.trans [OF length_trim_end length_dropWhile_le])

lemma set_trim_end: "set (trim_end s) \<subseteq> set s"
  unfolding trim_end_def by (auto dest: set_dropWhileD)

lemma set_js_trim: "set (js_trim s) \<subseteq> set s"
  unfolding js_trim_def trim_start_def using set_trim_end by (blast dest: set_dropWhileD)

lemma trim_end_Nil: "trim_end s = [] \<longleftrightarrow> list_all js_space s"
  by (auto simp: trim_end_def list_all_iff dropWhile_eq_Nil_conv)

lemma js_trim_Nil: "js_trim s = [] \<longleftrightarrow> list_all js_space s"
  unfolding js_trim_def trim_end_Nil trim_start_def
  by (induction s) auto

lemma squeeze_Nil: "squeeze s = [] \<longleftrightarrow> s = []"
  by (induction s rule: squeeze.induct) auto

lemma length_squeeze: "length (squeeze s) \<le> length s"
  by (induction s rule: squeeze.induct) auto

lemma squeeze_blank: "u \<in> set (squeeze s) \<Longrightarrow> js_space u \<Longrightarrow> u = 32"
  by (induction s rule: squeeze.induct) (auto split: if_splits)

lemma squeeze_space: "list_all js_space (squeeze s) \<longleftrightarrow> list_all js_space s"
proof (induction s rule: squeeze.induct)
  have "js_space 32" by (simp add: js_space_def)
  { case 2 show ?case using \<open>js_space 32\<close> by simp }
  { case 3 then show ?case using \<open>js_space 32\<close> by auto }
qed simp

subsection \<open>Lengths, one line, visibility\<close>

lemma trimDangling_length: "length (trimDanglingHighSurrogate v) \<le> length v"
  by (simp add: trimDanglingHighSurrogate_def)

lemma trimDangling_set: "set (trimDanglingHighSurrogate v) \<subseteq> set v"
  by (auto simp: trimDanglingHighSurrogate_def dest: in_set_butlastD)

lemma normalize_length: "3 \<le> n \<Longrightarrow> length (normalizeSingleLine v n) \<le> n"
proof -
  assume n: "3 \<le> n"
  have "Suc (Suc (Suc (length (trim_end (trimDanglingHighSurrogate (take (n - 3) s)))))) \<le> n" for s
    using n length_trim_end [of "trimDanglingHighSurrogate (take (n - 3) s)"]
      trimDangling_length [of "take (n - 3) s"] length_take [of "n - 3" s] by linarith
  then show ?thesis
    by (auto simp: normalizeSingleLine_def Let_def split: option.split)
qed

lemma normalize_blank:
  "u \<in> set (normalizeSingleLine v n) \<Longrightarrow> js_space u \<Longrightarrow> u = 32"
proof -
  assume u: "u \<in> set (normalizeSingleLine v n)" "js_space u"
  have dots: "w \<in> set (js ''...'') \<Longrightarrow> \<not> js_space w" for w
    by (auto simp: js_space_def)
  from u(1) obtain s where "u \<in> set (squeeze s) \<or> u \<in> set (js ''...'')"
    using set_trim_end trimDangling_set
    by (fastforce simp: normalizeSingleLine_def Let_def split: option.splits if_splits
        dest: in_set_takeD)
  with u(2) dots show ?thesis using squeeze_blank by blast
qed

lemma normalize_Nil:
  "normalizeSingleLine v n = [] \<longleftrightarrow> (case v of None \<Rightarrow> True | Some s \<Rightarrow> list_all js_space s)"
  by (auto simp: normalizeSingleLine_def Let_def squeeze_Nil js_trim_Nil split: option.split)

lemma first_title_nonempty: "first_title ls = Some t \<Longrightarrow> t \<noteq> []"
  by (induction ls) (auto simp: Let_def split: if_splits)

lemma first_title_normalized:
  "first_title ls = Some t \<Longrightarrow>
    \<exists>l. t = normalizeSingleLine (Some l) ORCHESTRATION_TASK_TITLE_MAX_LENGTH"
  by (induction ls) (auto simp: Let_def split: if_splits)

lemma derive_normalized:
  "\<exists>v. deriveTaskTitleFromSpec spec
     = normalizeSingleLine v ORCHESTRATION_TASK_TITLE_MAX_LENGTH"
  by (auto simp: deriveTaskTitleFromSpec_def dest: first_title_normalized split: option.split)

lemma split_lines_nonempty: "split_lines s \<noteq> []"
  by (induction s rule: split_lines.induct) (auto split: list.split)

lemma split_lines_set: "l \<in> set (split_lines s) \<Longrightarrow> set l \<subseteq> set s"
proof (induction s arbitrary: l rule: split_lines.induct)
  case (3 u v s)
  show ?case
  proof (cases "u = 10 \<or> u = 13 \<and> v = 10")
    case True
    with 3 show ?thesis by (auto 4 3 split: if_splits)
  next
    case False
    obtain l' ls where ls: "split_lines (v # s) = l' # ls"
      using split_lines_nonempty [of "v # s"] by (cases "split_lines (v # s)") auto
    with False "3.prems" have "l = u # l' \<or> l \<in> set ls" by auto
    with "3.IH"(3) False ls show ?thesis by fastforce
  qed
qed (auto split: if_splits)

lemma split_lines_spaces:
  "list_all js_space s \<Longrightarrow> l \<in> set (split_lines s) \<Longrightarrow> list_all js_space l"
  using split_lines_set [of l s] by (auto simp: list_all_iff)

lemma first_title_spaces: "(\<And>l. l \<in> set ls \<Longrightarrow> list_all js_space l) \<Longrightarrow> first_title ls = None"
  by (induction ls) (auto simp: Let_def normalize_Nil)

lemma derive_Nil: "deriveTaskTitleFromSpec spec = [] \<longleftrightarrow> list_all js_space spec"
proof
  assume "deriveTaskTitleFromSpec spec = []"
  then show "list_all js_space spec"
  proof (cases "first_title (split_lines spec)")
    case None
    with \<open>deriveTaskTitleFromSpec spec = []\<close> show ?thesis
      by (simp add: deriveTaskTitleFromSpec_def normalize_Nil)
  next
    case (Some t)
    with \<open>deriveTaskTitleFromSpec spec = []\<close> have "t = []"
      by (simp add: deriveTaskTitleFromSpec_def)
    with first_title_nonempty [OF Some] show ?thesis by simp
  qed
next
  assume sp: "list_all js_space spec"
  then have "first_title (split_lines spec) = None"
    using split_lines_spaces by (intro first_title_spaces) blast
  with sp show "deriveTaskTitleFromSpec spec = []"
    by (simp add: deriveTaskTitleFromSpec_def normalize_Nil)
qed

lemma metadata_title:
  "\<exists>v. dm_taskTitle (buildOrchestrationTaskDisplayMetadata spec title name)
     = normalizeSingleLine v ORCHESTRATION_TASK_TITLE_MAX_LENGTH"
  using derive_normalized [of spec]
  by (auto simp: buildOrchestrationTaskDisplayMetadata_def Let_def)

lemma metadata_name:
  "dm_displayName (buildOrchestrationTaskDisplayMetadata spec title name)
     = normalizeSingleLine name ORCHESTRATION_DISPLAY_NAME_MAX_LENGTH
   \<or> dm_displayName (buildOrchestrationTaskDisplayMetadata spec title name)
     = dm_taskTitle (buildOrchestrationTaskDisplayMetadata spec title name)"
  by (auto simp: buildOrchestrationTaskDisplayMetadata_def Let_def)

lemma task_title_visible:
  "dm_taskTitle (buildOrchestrationTaskDisplayMetadata spec title name) = [] \<longleftrightarrow>
     list_all js_space spec \<and> (case title of None \<Rightarrow> True | Some t \<Rightarrow> list_all js_space t)"
  by (auto simp: buildOrchestrationTaskDisplayMetadata_def Let_def derive_Nil normalize_Nil)

text \<open>
  Display names: the title and the name stored with a task have at most 80 and 160
  characters, and the title is empty only when the title given and the specification are
  blank.
\<close>

theorem task_display_bounds:
  "length (dm_taskTitle (buildOrchestrationTaskDisplayMetadata spec title name)) \<le> 80 \<and>
   length (dm_displayName (buildOrchestrationTaskDisplayMetadata spec title name)) \<le> 160 \<and>
   (dm_taskTitle (buildOrchestrationTaskDisplayMetadata spec title name) = [] \<longleftrightarrow>
     list_all js_space spec \<and> (case title of None \<Rightarrow> True | Some t \<Rightarrow> list_all js_space t))"
proof -
  have bounds: "length (normalizeSingleLine v 80) \<le> 80" "length (normalizeSingleLine v 160) \<le> 160"
    for v by (rule normalize_length, simp)+
  obtain v where v: "dm_taskTitle (buildOrchestrationTaskDisplayMetadata spec title name)
      = normalizeSingleLine v 80"
    using metadata_title [of spec title name]
    by (auto simp: ORCHESTRATION_TASK_TITLE_MAX_LENGTH_def)
  with bounds(1) [of v]
  have t: "length (dm_taskTitle (buildOrchestrationTaskDisplayMetadata spec title name)) \<le> 80"
    by simp
  from metadata_name [of spec title name]
  have "length (dm_displayName (buildOrchestrationTaskDisplayMetadata spec title name)) \<le> 160"
  proof
    assume "dm_displayName (buildOrchestrationTaskDisplayMetadata spec title name)
      = normalizeSingleLine name ORCHESTRATION_DISPLAY_NAME_MAX_LENGTH"
    with bounds(2) [of name] show ?thesis
      by (simp add: ORCHESTRATION_DISPLAY_NAME_MAX_LENGTH_def)
  qed (use t in simp)
  with t task_title_visible show ?thesis by blast
qed

lemma truncate_length: "length (truncateAtCodePoint spec) \<le> 159"
  by (auto simp: truncateAtCodePoint_def TASK_SPEC_BRIEF_LENGTH_def Let_def min_def)

text \<open>
  The brief form of a specification has at most 160 characters, and is flagged as cut
  exactly when its text, blanks squeezed, is longer.
\<close>

theorem abbreviate_spec_bounds:
  "length (fst (abbreviateSpec s)) \<le> 160 \<and>
   snd (abbreviateSpec s) = (160 < length (js_trim (squeeze s)))"
  using length_trim_end [of "truncateAtCodePoint (js_trim (squeeze s))"]
    truncate_length [of "js_trim (squeeze s)"]
  by (auto simp: abbreviateSpec_def Let_def TASK_SPEC_BRIEF_LENGTH_def)

end
