(* ===== verification/Orch_Db.thy ===== *)
theory Orch_Db
  imports Orch_Types Pane_Key Task_Display
begin

section \<open>The orchestration database\<close>

text \<open>
  \<open>src/src/main/runtime/orchestration/db.ts\<close>, class \<open>OrchestrationDb\<close>: messages, tasks and
  their dependencies, dispatch contexts with the circuit breaker, decision gates, coordinator
  runs. One definition per method. A method that reads returns its rows; one that writes
  returns the new state, with an \<open>exn\<close> where an SQL constraint or the method itself throws.
  The random part of a fresh id (\<open>randomBytes(6).toString('hex')\<close>) and the clock are
  arguments. SQLite runs each call to completion, so no other call sees a state between.
\<close>

subsection \<open>Ids and selection\<close>

definition generateId :: "string \<Rightarrow> jsstr \<Rightarrow> jsstr" where
  "generateId prefix hex = js prefix @ [95] @ hex"

definition active_status :: "dispatch_status \<Rightarrow> bool" where
  "active_status s = (s = D_pending \<or> s = D_dispatched)"

text \<open>\<open>LIMIT n\<close>: a negative limit is no limit.\<close>

definition sql_limit :: "int \<Rightarrow> 'a list \<Rightarrow> 'a list" where
  "sql_limit n rows = (if n < 0 then rows else take (nat n) rows)"

definition coalesce :: "'a option \<Rightarrow> 'a option \<Rightarrow> 'a option" where
  "coalesce a b = (case a of None \<Rightarrow> b | Some x \<Rightarrow> Some x)"

text \<open>An optional type filter: absent or empty means every type.\<close>

definition type_selected :: "message_type list option \<Rightarrow> message_type \<Rightarrow> bool" where
  "type_selected types t = (case types of None \<Rightarrow> True | Some ts \<Rightarrow> ts = [] \<or> t \<in> set ts)"

subsection \<open>Messages\<close>

record new_message =
  nm_from :: jsstr
  nm_to :: jsstr
  nm_subject :: jsstr
  nm_body :: "jsstr option"
  nm_type :: "message_type option"
  nm_priority :: "message_priority option"
  nm_threadId :: "jsstr option"
  nm_payload :: "jsstr option"
  nm_senderPaneKey :: "jsstr option"

definition insertMessage ::
  "jsstr \<Rightarrow> clock \<Rightarrow> new_message \<Rightarrow> odb \<Rightarrow> exn + (message_row \<times> odb)" where
  "insertMessage hex now msg db =
     (let i = generateId ''msg'' hex;
          row = \<lparr>m_id = i, m_from_handle = nm_from msg, m_to_handle = nm_to msg,
                 m_subject = nm_subject msg,
                 m_body = (case nm_body msg of None \<Rightarrow> [] | Some b \<Rightarrow> b),
                 m_type = (case nm_type msg of None \<Rightarrow> MT_status | Some t \<Rightarrow> t),
                 m_priority = (case nm_priority msg of None \<Rightarrow> P_normal | Some p \<Rightarrow> p),
                 m_thread_id = nm_threadId msg, m_payload = nm_payload msg,
                 m_read = 0, m_sequence = Suc (msg_seq db), m_created_at = sql_now now,
                 m_delivered_at = None, m_sender_pane_key = nm_senderPaneKey msg\<rparr>
      in if i \<in> m_id ` set (messages db) then Inl (UniqueViolation ''messages'')
         else Inr (row, db\<lparr>messages := messages db @ [row], msg_seq := Suc (msg_seq db)\<rparr>))"

definition getUnreadMessages :: "odb \<Rightarrow> jsstr \<Rightarrow> message_type list option \<Rightarrow> message_row list" where
  "getUnreadMessages db toHandle types =
     sort_key m_sequence (filter (\<lambda>m. m_to_handle m = toHandle \<and> m_read m = 0
       \<and> type_selected types (m_type m)) (messages db))"

definition getUndeliveredUnreadMessages ::
  "odb \<Rightarrow> jsstr \<Rightarrow> message_type list option \<Rightarrow> message_row list" where
  "getUndeliveredUnreadMessages db toHandle types =
     sort_key m_sequence (filter (\<lambda>m. m_to_handle m = toHandle \<and> m_read m = 0
       \<and> m_delivered_at m = None \<and> type_selected types (m_type m)) (messages db))"

definition getAllMessages :: "odb \<Rightarrow> jsstr \<Rightarrow> int option \<Rightarrow> message_row list" where
  "getAllMessages db toHandle limit =
     sql_limit (case limit of None \<Rightarrow> 20 | Some n \<Rightarrow> n)
       (rev (sort_key m_sequence (filter (\<lambda>m. m_to_handle m = toHandle) (messages db))))"

definition getMessageById :: "odb \<Rightarrow> jsstr \<Rightarrow> message_row option" where
  "getMessageById db i = row_by m_id i (messages db)"

definition markAsRead :: "jsstr list \<Rightarrow> odb \<Rightarrow> odb" where
  "markAsRead ids db =
     (if ids = [] then db
      else db\<lparr>messages := update_rows (\<lambda>m. m_id m \<in> set ids) (m_read_update (\<lambda>_. 1))
                (messages db)\<rparr>)"

definition markAsDelivered :: "clock \<Rightarrow> jsstr list \<Rightarrow> odb \<Rightarrow> odb" where
  "markAsDelivered now ids db =
     (if ids = [] then db
      else db\<lparr>messages := update_rows (\<lambda>m. m_id m \<in> set ids)
                (m_delivered_at_update (\<lambda>_. Some (sql_now now))) (messages db)\<rparr>)"

definition markAsReadAndDelivered :: "clock \<Rightarrow> jsstr list \<Rightarrow> odb \<Rightarrow> odb" where
  "markAsReadAndDelivered now ids db =
     (if ids = [] then db
      else db\<lparr>messages := update_rows (\<lambda>m. m_id m \<in> set ids)
                (\<lambda>m. m\<lparr>m_read := 1,
                       m_delivered_at := coalesce (m_delivered_at m) (Some (sql_now now))\<rparr>)
                (messages db)\<rparr>)"

definition getInbox :: "odb \<Rightarrow> int option \<Rightarrow> message_row list" where
  "getInbox db limit =
     sql_limit (case limit of None \<Rightarrow> 20 | Some n \<Rightarrow> n)
       (rev (sort_key m_sequence (messages db)))"

definition getAllMessagesForHandle ::
  "odb \<Rightarrow> jsstr \<Rightarrow> int option \<Rightarrow> message_type list option \<Rightarrow> message_row list" where
  "getAllMessagesForHandle db toHandle limit types =
     sql_limit (case limit of None \<Rightarrow> 100 | Some n \<Rightarrow> n)
       (rev (sort_key m_sequence (filter (\<lambda>m. m_to_handle m = toHandle
          \<and> type_selected types (m_type m)) (messages db))))"

definition getThreadMessagesFor ::
  "odb \<Rightarrow> jsstr \<Rightarrow> jsstr \<Rightarrow> nat option \<Rightarrow> message_row list" where
  "getThreadMessagesFor db threadId toHandle afterSequence =
     sort_key m_sequence (filter (\<lambda>m. m_thread_id m = Some threadId \<and> m_to_handle m = toHandle
       \<and> (case afterSequence of None \<Rightarrow> True | Some n \<Rightarrow> n < m_sequence m)) (messages db))"

subsection \<open>Tasks\<close>

record new_task =
  nt_spec :: jsstr
  nt_taskTitle :: "jsstr option"
  nt_displayName :: "jsstr option"
  nt_deps :: "jsstr list option"
  nt_parentId :: "jsstr option"
  nt_createdByTerminalHandle :: "jsstr option"

definition deps_of_new :: "new_task \<Rightarrow> jsstr list" where
  "deps_of_new task = (case nt_deps task of None \<Rightarrow> [] | Some ds \<Rightarrow> ds)"

definition createTask :: "jsstr \<Rightarrow> clock \<Rightarrow> new_task \<Rightarrow> odb \<Rightarrow> exn + (task_row \<times> odb)" where
  "createTask hex now task db =
     (let i = generateId ''task'' hex;
          depsJson = json_stringify (json_strings (deps_of_new task));
          status = (if deps_of_new task \<noteq> [] then T_pending else T_ready);
          display = buildOrchestrationTaskDisplayMetadata (nt_spec task) (nt_taskTitle task)
                      (nt_displayName task);
          row = \<lparr>t_id = i, t_parent_id = nt_parentId task,
                 t_created_by_terminal_handle = nt_createdByTerminalHandle task,
                 t_task_title = or_null (dm_taskTitle display),
                 t_display_name = or_null (dm_displayName display),
                 t_spec = nt_spec task, t_status = status, t_deps = depsJson, t_result = None,
                 t_created_at = sql_now now, t_completed_at = None\<rparr>
      in if i \<in> t_id ` set (tasks db) then Inl (UniqueViolation ''tasks'')
         else Inr (row, db\<lparr>tasks := tasks db @ [row]\<rparr>))"

definition getTask :: "odb \<Rightarrow> jsstr \<Rightarrow> task_row option" where
  "getTask db i = row_by t_id i (tasks db)"

text \<open>\<open>ORDER BY created_at\<close>: SQLite keeps rows with equal timestamps in rowid order.\<close>

definition listTasks :: "odb \<Rightarrow> task_status option \<Rightarrow> bool \<Rightarrow> task_row list" where
  "listTasks db status ready =
     (if ready then sort_key t_created_at (filter (\<lambda>t. t_status t = T_ready) (tasks db))
      else (case status of
              Some s \<Rightarrow> sort_key t_created_at (filter (\<lambda>t. t_status t = s) (tasks db))
            | None \<Rightarrow> sort_key t_created_at (tasks db)))"

definition listTasksWithDispatch ::
  "odb \<Rightarrow> task_status option \<Rightarrow> bool \<Rightarrow> (task_row \<times> jsstr option \<times> jsstr option) list" where
  "listTasksWithDispatch db status ready =
     map (\<lambda>t. (case last_row (\<lambda>d. d_task_id d = t_id t \<and> active_status (d_status d))
                      (dispatches db) of
                 None \<Rightarrow> (t, None, None)
               | Some d \<Rightarrow> (t, d_assignee_handle d, Some (d_id d))))
       (listTasks db status ready)"

text \<open>\<open>UPDATE tasks SET status = ? WHERE id = ?\<close>\<close>

definition set_task_status :: "jsstr \<Rightarrow> task_status \<Rightarrow> odb \<Rightarrow> odb" where
  "set_task_status i s db = db\<lparr>tasks := modify_by t_id i (t_status_update (\<lambda>_. s)) (tasks db)\<rparr>"

text \<open>The deps column, parsed and read as the array of strings it holds.\<close>

definition parse_deps :: "jsstr \<Rightarrow> exn + jsstr list" where
  "parse_deps s = (case json_parse s of
     None \<Rightarrow> Inl SyntaxError
   | Some (JArr vs) \<Rightarrow> (case strings_of vs of None \<Rightarrow> Inl TypeError | Some ds \<Rightarrow> Inr ds)
   | Some _ \<Rightarrow> Inl TypeError)"

definition dep_completed :: "odb \<Rightarrow> jsstr \<Rightarrow> bool" where
  "dep_completed db i = (case getTask db i of None \<Rightarrow> False | Some t \<Rightarrow> t_status t = T_completed)"

fun promote_loop :: "jsstr \<Rightarrow> task_row list \<Rightarrow> odb \<Rightarrow> exn option \<times> odb" where
  "promote_loop done [] db = (None, db)"
| "promote_loop done (t # ts) db =
     (case parse_deps (t_deps t) of
        Inl e \<Rightarrow> (Some e, db)
      | Inr deps \<Rightarrow>
          if done \<notin> set deps then promote_loop done ts db
          else if list_all (dep_completed db) deps
          then promote_loop done ts (set_task_status (t_id t) T_ready db)
          else promote_loop done ts db)"

definition promoteReadyTasks :: "jsstr \<Rightarrow> odb \<Rightarrow> exn option \<times> odb" where
  "promoteReadyTasks completedTaskId db =
     promote_loop completedTaskId (filter (\<lambda>t. t_status t = T_pending) (tasks db)) db"

definition completeDispatch :: "clock \<Rightarrow> jsstr \<Rightarrow> odb \<Rightarrow> odb" where
  "completeDispatch now ctxId db =
     db\<lparr>dispatches := modify_by d_id ctxId
          (\<lambda>d. d\<lparr>d_status := D_completed, d_completed_at := Some (sql_now now)\<rparr>) (dispatches db)\<rparr>"

definition latest_active_for_task :: "odb \<Rightarrow> jsstr \<Rightarrow> dispatch_row option" where
  "latest_active_for_task db taskId =
     last_row (\<lambda>d. d_task_id d = taskId \<and> active_status (d_status d)) (dispatches db)"

definition completeActiveDispatchForTask :: "clock \<Rightarrow> jsstr \<Rightarrow> odb \<Rightarrow> odb" where
  "completeActiveDispatchForTask now taskId db =
     (case latest_active_for_task db taskId of
        None \<Rightarrow> db
      | Some d \<Rightarrow> completeDispatch now (d_id d) db)"

definition terminal_task_status :: "task_status \<Rightarrow> bool" where
  "terminal_task_status s = (s = T_completed \<or> s = T_failed)"

definition write_task_status ::
  "clock \<Rightarrow> jsstr \<Rightarrow> task_status \<Rightarrow> jsstr option \<Rightarrow> odb \<Rightarrow> odb" where
  "write_task_status now i status result db =
     (let completedAt = (if terminal_task_status status then Some (iso_now now) else None)
      in db\<lparr>tasks := modify_by t_id i
              (\<lambda>t. t\<lparr>t_status := status, t_result := coalesce result (t_result t),
                     t_completed_at := coalesce completedAt (t_completed_at t)\<rparr>) (tasks db)\<rparr>)"

definition updateTaskStatus ::
  "clock \<Rightarrow> jsstr \<Rightarrow> task_status \<Rightarrow> jsstr option \<Rightarrow> odb \<Rightarrow> (exn + task_row option) \<times> odb" where
  "updateTaskStatus now i status result db =
     (let db1 = write_task_status now i status result db
      in if status = T_completed
         then (case promoteReadyTasks i db1 of
                 (Some e, db2) \<Rightarrow> (Inl e, db2)
               | (None, db2) \<Rightarrow>
                   (let db3 = completeActiveDispatchForTask now i db2
                    in (Inr (getTask db3 i), db3)))
         else (Inr (getTask db1 i), db1))"

subsection \<open>Dispatch contexts\<close>

definition findActiveDispatchForAssignee ::
  "odb \<Rightarrow> jsstr \<Rightarrow> jsstr option \<Rightarrow> dispatch_row option" where
  "findActiveDispatchForAssignee db assigneeHandle assigneePaneKey =
     (case find (\<lambda>d. d_assignee_handle d = Some assigneeHandle \<and> active_status (d_status d))
             (dispatches db) of
        Some d \<Rightarrow> Some d
      | None \<Rightarrow>
          (case assigneePaneKey of
             None \<Rightarrow> None
           | Some key \<Rightarrow>
               if key = [] then None
               else find (\<lambda>d. active_status (d_status d)
                       \<and> (case d_assignee_pane_key d of
                            None \<Rightarrow> False
                          | Some k \<Rightarrow> k \<noteq> [] \<and> isEquivalentPaneKey k key)) (dispatches db)))"

definition getActiveDispatchForTerminal :: "odb \<Rightarrow> jsstr \<Rightarrow> dispatch_row option" where
  "getActiveDispatchForTerminal db handle = findActiveDispatchForAssignee db handle None"

definition prior_failures :: "odb \<Rightarrow> jsstr \<Rightarrow> nat" where
  "prior_failures db taskId =
     foldr max (map d_failure_count (filter (\<lambda>d. d_task_id d = taskId) (dispatches db))) 0"

definition createDispatchContext ::
  "jsstr \<Rightarrow> clock \<Rightarrow> jsstr \<Rightarrow> jsstr \<Rightarrow> jsstr option \<Rightarrow> odb \<Rightarrow> exn + (dispatch_row \<times> odb)" where
  "createDispatchContext hex now taskId assigneeHandle assigneePaneKey db =
     (case getTask db taskId of
        None \<Rightarrow> Inl (Error (js ''Task not found: '' @ taskId))
      | Some task \<Rightarrow>
          if t_status task \<noteq> T_ready
          then Inl (Error (js ''Task '' @ taskId @ js '' is '' @ task_status_text (t_status task)
                 @ js ''; only ready tasks can be dispatched''))
          else (case findActiveDispatchForAssignee db assigneeHandle assigneePaneKey of
                  Some existing \<Rightarrow>
                    Inl (Error (js ''Terminal '' @ assigneeHandle
                      @ js '' already has an active dispatch ('' @ d_id existing @ js '' for task ''
                      @ d_task_id existing @ js '')''))
                | None \<Rightarrow>
                    (let i = generateId ''ctx'' hex;
                         row = \<lparr>d_id = i, d_task_id = taskId,
                                d_assignee_handle = Some assigneeHandle,
                                d_assignee_pane_key = assigneePaneKey,
                                d_status = D_dispatched,
                                d_failure_count = prior_failures db taskId,
                                d_last_failure = None, d_dispatched_at = Some (sql_now now),
                                d_completed_at = None, d_created_at = sql_now now,
                                d_last_heartbeat_at = None\<rparr>
                     in if i \<in> d_id ` set (dispatches db)
                        then Inl (UniqueViolation ''dispatch_contexts'')
                        else Inr (row, set_task_status taskId T_dispatched
                                         (db\<lparr>dispatches := dispatches db @ [row]\<rparr>)))))"

definition getDispatchContext :: "odb \<Rightarrow> jsstr \<Rightarrow> dispatch_row option" where
  "getDispatchContext db taskId = last_row (\<lambda>d. d_task_id d = taskId) (dispatches db)"

definition getDispatchContextById :: "odb \<Rightarrow> jsstr \<Rightarrow> dispatch_row option" where
  "getDispatchContextById db i = row_by d_id i (dispatches db)"

definition getLatestDispatchForTerminal :: "odb \<Rightarrow> jsstr \<Rightarrow> dispatch_row option" where
  "getLatestDispatchForTerminal db handle =
     last_row (\<lambda>d. d_assignee_handle d = Some handle) (dispatches db)"

definition recordHeartbeat :: "jsstr \<Rightarrow> jsstr \<Rightarrow> odb \<Rightarrow> odb" where
  "recordHeartbeat dispatchId at db =
     db\<lparr>dispatches := update_rows (\<lambda>d. d_id d = dispatchId \<and> d_status d = D_dispatched)
          (d_last_heartbeat_at_update (\<lambda>_. Some at)) (dispatches db)\<rparr>"

definition getStaleDispatches :: "odb \<Rightarrow> jsstr \<Rightarrow> dispatch_row list" where
  "getStaleDispatches db thresholdIso =
     filter (\<lambda>d. d_status d = D_dispatched
        \<and> (case d_dispatched_at d of None \<Rightarrow> False | Some t \<Rightarrow> t < thresholdIso)
        \<and> (case d_last_heartbeat_at d of None \<Rightarrow> True | Some t \<Rightarrow> t < thresholdIso))
       (dispatches db)"

definition failure_status :: "nat \<Rightarrow> dispatch_status" where
  "failure_status count = (if 3 \<le> count then D_circuit_broken else D_failed)"

definition write_failure :: "jsstr \<Rightarrow> nat \<Rightarrow> jsstr \<Rightarrow> odb \<Rightarrow> odb" where
  "write_failure ctxId count error db =
     db\<lparr>dispatches := modify_by d_id ctxId
          (\<lambda>d. d\<lparr>d_status := failure_status count, d_failure_count := count,
                 d_last_failure := Some error\<rparr>) (dispatches db)\<rparr>"

definition failDispatch :: "jsstr \<Rightarrow> jsstr \<Rightarrow> odb \<Rightarrow> dispatch_row option \<times> odb" where
  "failDispatch ctxId error db =
     (case getDispatchContextById db ctxId of
        None \<Rightarrow> (None, db)
      | Some ctx \<Rightarrow>
          (let newFailureCount = d_failure_count ctx + 1;
               newStatus = failure_status newFailureCount;
               taskStatus = (if newStatus = D_circuit_broken then T_failed else T_ready);
               db' = set_task_status (d_task_id ctx) taskStatus
                       (write_failure ctxId newFailureCount error db)
           in (getDispatchContextById db' ctxId, db')))"

definition failActiveDispatchForTask ::
  "jsstr \<Rightarrow> jsstr \<Rightarrow> odb \<Rightarrow> dispatch_row option \<times> odb" where
  "failActiveDispatchForTask taskId error db =
     (case latest_active_for_task db taskId of
        None \<Rightarrow> (None, db)
      | Some d \<Rightarrow> failDispatch (d_id d) error db)"

subsection \<open>Decision gates\<close>

text \<open>\<open>gate.options ?? []\<close>; a decision_gate message passes on whatever its payload holds.\<close>

definition gate_options :: "json option \<Rightarrow> json" where
  "gate_options options = (case options of None \<Rightarrow> JArr [] | Some JNull \<Rightarrow> JArr [] | Some v \<Rightarrow> v)"

definition createGate ::
  "jsstr \<Rightarrow> clock \<Rightarrow> jsstr \<Rightarrow> jsstr \<Rightarrow> json option \<Rightarrow> odb \<Rightarrow> exn + (gate_row \<times> odb)" where
  "createGate hex now taskId question options db =
     (let i = generateId ''gate'' hex;
          optionsJson = json_stringify (gate_options options);
          row = \<lparr>g_id = i, g_task_id = taskId, g_question = question, g_options = optionsJson,
                 g_status = G_pending, g_resolution = None, g_created_at = sql_now now,
                 g_resolved_at = None\<rparr>
      in if i \<in> g_id ` set (gates db) then Inl (UniqueViolation ''decision_gates'')
         else Inr (row, set_task_status taskId T_blocked
                    (completeActiveDispatchForTask now taskId (db\<lparr>gates := gates db @ [row]\<rparr>))))"

definition getGate :: "odb \<Rightarrow> jsstr \<Rightarrow> gate_row option" where
  "getGate db i = row_by g_id i (gates db)"

definition resolveGate :: "clock \<Rightarrow> jsstr \<Rightarrow> jsstr \<Rightarrow> odb \<Rightarrow> gate_row option \<times> odb" where
  "resolveGate now gateId resolution db =
     (case getGate db gateId of
        None \<Rightarrow> (None, db)
      | Some gate \<Rightarrow>
          (let db1 = db\<lparr>gates := modify_by g_id gateId
                 (\<lambda>g. g\<lparr>g_status := G_resolved, g_resolution := Some resolution,
                        g_resolved_at := Some (sql_now now)\<rparr>) (gates db)\<rparr>;
               db2 = set_task_status (g_task_id gate) T_ready db1
           in (getGate db2 gateId, db2)))"

definition timeoutGate :: "clock \<Rightarrow> jsstr \<Rightarrow> odb \<Rightarrow> gate_row option \<times> odb" where
  "timeoutGate now gateId db =
     (let db1 = db\<lparr>gates := modify_by g_id gateId
            (\<lambda>g. g\<lparr>g_status := G_timeout, g_resolved_at := Some (sql_now now)\<rparr>) (gates db)\<rparr>
      in (getGate db1 gateId, db1))"

definition listGates :: "odb \<Rightarrow> jsstr option \<Rightarrow> gate_status option \<Rightarrow> gate_row list" where
  "listGates db taskId status =
     (if truthy taskId \<and> status \<noteq> None
      then sort_key g_created_at (filter (\<lambda>g. Some (g_task_id g) = taskId
             \<and> Some (g_status g) = status) (gates db))
      else if truthy taskId
      then sort_key g_created_at (filter (\<lambda>g. Some (g_task_id g) = taskId) (gates db))
      else if status \<noteq> None
      then sort_key g_created_at (filter (\<lambda>g. Some (g_status g) = status) (gates db))
      else sort_key g_created_at (gates db))"

subsection \<open>Coordinator runs\<close>

definition createCoordinatorRun ::
  "jsstr \<Rightarrow> clock \<Rightarrow> jsstr \<Rightarrow> jsstr \<Rightarrow> int option \<Rightarrow> odb \<Rightarrow> exn + (run_row \<times> odb)" where
  "createCoordinatorRun hex now spec coordinatorHandle pollIntervalMs db =
     (let i = generateId ''run'' hex;
          row = \<lparr>r_id = i, r_spec = spec, r_status = C_running,
                 r_coordinator_handle = coordinatorHandle,
                 r_poll_interval_ms = (case pollIntervalMs of None \<Rightarrow> 2000 | Some n \<Rightarrow> n),
                 r_created_at = sql_now now, r_completed_at = None\<rparr>
      in if i \<in> r_id ` set (runs db) then Inl (UniqueViolation ''coordinator_runs'')
         else Inr (row, db\<lparr>runs := runs db @ [row]\<rparr>))"

definition getCoordinatorRun :: "odb \<Rightarrow> jsstr \<Rightarrow> run_row option" where
  "getCoordinatorRun db i = row_by r_id i (runs db)"

definition updateCoordinatorRun ::
  "clock \<Rightarrow> jsstr \<Rightarrow> coordinator_status \<Rightarrow> odb \<Rightarrow> run_row option \<times> odb" where
  "updateCoordinatorRun now i status db =
     (let completedAt = (if status = C_completed \<or> status = C_failed then Some (iso_now now)
                         else None);
          db' = db\<lparr>runs := modify_by r_id i
                  (\<lambda>r. r\<lparr>r_status := status,
                         r_completed_at := coalesce completedAt (r_completed_at r)\<rparr>) (runs db)\<rparr>
      in (getCoordinatorRun db' i, db'))"

text \<open>\<open>ORDER BY created_at DESC LIMIT 1\<close>: among equal timestamps the first in rowid order.\<close>

definition getActiveCoordinatorRun :: "odb \<Rightarrow> run_row option" where
  "getActiveCoordinatorRun db =
     (case filter (\<lambda>r. r_status r = C_running) (runs db) of
        [] \<Rightarrow> None
      | r # rs \<Rightarrow> Some (fold (\<lambda>q best. if r_created_at best < r_created_at q then q else best) rs r))"

subsection \<open>Idle terminals, reset\<close>

definition getIdleTerminals :: "odb \<Rightarrow> jsstr list \<Rightarrow> jsstr list" where
  "getIdleTerminals db excludeHandles =
     (let busy = List.map_filter d_assignee_handle
                   (filter (\<lambda>d. active_status (d_status d)) (dispatches db)) @ excludeHandles;
          allHandles = remdups (sort (map m_to_handle (messages db)
                                        @ map m_from_handle (messages db)))
      in filter (\<lambda>h. h \<notin> set busy) allHandles)"

definition resetAll :: "odb \<Rightarrow> odb" where
  "resetAll db = db\<lparr>messages := [], tasks := [], dispatches := [], gates := [], runs := []\<rparr>"

definition resetTasks :: "odb \<Rightarrow> odb" where
  "resetTasks db = db\<lparr>tasks := [], dispatches := [], gates := [], runs := []\<rparr>"

definition resetMessages :: "odb \<Rightarrow> odb" where
  "resetMessages db = db\<lparr>messages := []\<rparr>"

end
