(* ===== verification/Orch_Inv.thy ===== *)
theory Orch_Inv
  imports Orch_Db
begin

section \<open>Invariants of the orchestration database\<close>

text \<open>
  The locale \<open>orch_invariant\<close> is the contract between the database and its clients (lifecycle
  reconciliation, coordinator, RPC methods): a property that every SQL statement of \<open>db.ts\<close>
  keeps. Every composed method keeps it then; the clients' theories prove the same of their
  operations inside the locale. It is interpreted here on six invariants of the model:
  unique ids (\<open>ids_inv\<close>), the message sequence (\<open>seq_inv\<close>), the dispatch lock
  (\<open>lock_inv\<close>), the circuit breaker (\<open>breaker_inv\<close>), readable deps columns (\<open>deps_inv\<close>) and
  dispatch contexts that refer to a task (\<open>refs_inv\<close>).
\<close>

subsection \<open>What a statement leaves alone\<close>

lemma set_task_status_frame [simp]:
  "messages (set_task_status i s db) = messages db"
  "msg_seq (set_task_status i s db) = msg_seq db"
  "dispatches (set_task_status i s db) = dispatches db"
  "gates (set_task_status i s db) = gates db"
  "runs (set_task_status i s db) = runs db"
  by (simp_all add: set_task_status_def)

lemma write_task_status_frame [simp]:
  "messages (write_task_status now i s r db) = messages db"
  "msg_seq (write_task_status now i s r db) = msg_seq db"
  "dispatches (write_task_status now i s r db) = dispatches db"
  "gates (write_task_status now i s r db) = gates db"
  "runs (write_task_status now i s r db) = runs db"
  by (simp_all add: write_task_status_def Let_def)

lemma completeDispatch_frame [simp]:
  "messages (completeDispatch now c db) = messages db"
  "msg_seq (completeDispatch now c db) = msg_seq db"
  "tasks (completeDispatch now c db) = tasks db"
  "gates (completeDispatch now c db) = gates db"
  "runs (completeDispatch now c db) = runs db"
  by (simp_all add: completeDispatch_def)

lemma write_failure_frame [simp]:
  "messages (write_failure c n e db) = messages db"
  "msg_seq (write_failure c n e db) = msg_seq db"
  "tasks (write_failure c n e db) = tasks db"
  "gates (write_failure c n e db) = gates db"
  "runs (write_failure c n e db) = runs db"
  by (simp_all add: write_failure_def)

lemma recordHeartbeat_frame [simp]:
  "messages (recordHeartbeat c at db) = messages db"
  "msg_seq (recordHeartbeat c at db) = msg_seq db"
  "tasks (recordHeartbeat c at db) = tasks db"
  "gates (recordHeartbeat c at db) = gates db"
  "runs (recordHeartbeat c at db) = runs db"
  by (simp_all add: recordHeartbeat_def)

lemma mark_frame [simp]:
  "msg_seq (markAsRead ids db) = msg_seq db"
  "tasks (markAsRead ids db) = tasks db"
  "dispatches (markAsRead ids db) = dispatches db"
  "gates (markAsRead ids db) = gates db"
  "runs (markAsRead ids db) = runs db"
  "msg_seq (markAsDelivered now ids db) = msg_seq db"
  "tasks (markAsDelivered now ids db) = tasks db"
  "dispatches (markAsDelivered now ids db) = dispatches db"
  "gates (markAsDelivered now ids db) = gates db"
  "runs (markAsDelivered now ids db) = runs db"
  "msg_seq (markAsReadAndDelivered now ids db) = msg_seq db"
  "tasks (markAsReadAndDelivered now ids db) = tasks db"
  "dispatches (markAsReadAndDelivered now ids db) = dispatches db"
  "gates (markAsReadAndDelivered now ids db) = gates db"
  "runs (markAsReadAndDelivered now ids db) = runs db"
  by (simp_all add: markAsRead_def markAsDelivered_def markAsReadAndDelivered_def)

text \<open>Ids never change; neither do the other columns an update does not name.\<close>

lemma map_t_id_set_task_status [simp]:
  "map t_id (tasks (set_task_status i s db)) = map t_id (tasks db)"
  by (simp add: set_task_status_def task_tbl.keys_modify)

lemma map_t_id_write_task_status [simp]:
  "map t_id (tasks (write_task_status now i s r db)) = map t_id (tasks db)"
  by (simp add: write_task_status_def Let_def task_tbl.keys_modify)

lemma map_t_deps_set_task_status [simp]:
  "map t_deps (tasks (set_task_status i s db)) = map t_deps (tasks db)"
  by (simp add: set_task_status_def modify_by_def update_rows_def)

lemma map_t_deps_write_task_status [simp]:
  "map t_deps (tasks (write_task_status now i s r db)) = map t_deps (tasks db)"
  by (simp add: write_task_status_def Let_def modify_by_def update_rows_def)

lemma map_d_completeDispatch [simp]:
  "map d_id (dispatches (completeDispatch now c db)) = map d_id (dispatches db)"
  "map d_task_id (dispatches (completeDispatch now c db)) = map d_task_id (dispatches db)"
  by (simp_all add: completeDispatch_def modify_by_def update_rows_def)

lemma map_d_write_failure [simp]:
  "map d_id (dispatches (write_failure c n e db)) = map d_id (dispatches db)"
  "map d_task_id (dispatches (write_failure c n e db)) = map d_task_id (dispatches db)"
  by (simp_all add: write_failure_def modify_by_def update_rows_def)

lemma map_d_recordHeartbeat [simp]:
  "map d_id (dispatches (recordHeartbeat c at db)) = map d_id (dispatches db)"
  "map d_task_id (dispatches (recordHeartbeat c at db)) = map d_task_id (dispatches db)"
  by (simp_all add: recordHeartbeat_def update_rows_def)

lemma map_m_mark [simp]:
  "map m_id (messages (markAsRead ids db)) = map m_id (messages db)"
  "map m_sequence (messages (markAsRead ids db)) = map m_sequence (messages db)"
  "map m_id (messages (markAsDelivered now ids db)) = map m_id (messages db)"
  "map m_sequence (messages (markAsDelivered now ids db)) = map m_sequence (messages db)"
  "map m_id (messages (markAsReadAndDelivered now ids db)) = map m_id (messages db)"
  "map m_sequence (messages (markAsReadAndDelivered now ids db)) = map m_sequence (messages db)"
  by (simp_all add: markAsRead_def markAsDelivered_def markAsReadAndDelivered_def update_rows_def)

lemma resetAll_eq: "resetAll db = resetMessages (resetTasks db)"
  by (simp add: resetAll_def resetMessages_def resetTasks_def)

subsection \<open>The contract\<close>

locale orch_invariant =
  fixes I :: "odb \<Rightarrow> bool"
  assumes inv_insertMessage: "I db \<Longrightarrow> insertMessage h now m db = Inr (r, db') \<Longrightarrow> I db'"
    and inv_markAsRead: "I db \<Longrightarrow> I (markAsRead ids db)"
    and inv_markAsDelivered: "I db \<Longrightarrow> I (markAsDelivered now ids db)"
    and inv_markAsReadAndDelivered: "I db \<Longrightarrow> I (markAsReadAndDelivered now ids db)"
    and inv_createTask: "I db \<Longrightarrow> createTask h now nt db = Inr (t, db') \<Longrightarrow> I db'"
    and inv_set_task_status: "I db \<Longrightarrow> I (set_task_status i s db)"
    and inv_write_task_status: "I db \<Longrightarrow> I (write_task_status now i s res db)"
    and inv_createDispatchContext:
      "I db \<Longrightarrow> createDispatchContext h now i a k db = Inr (d, db') \<Longrightarrow> I db'"
    and inv_completeDispatch: "I db \<Longrightarrow> I (completeDispatch now c db)"
    and inv_recordHeartbeat: "I db \<Longrightarrow> I (recordHeartbeat c at db)"
    and inv_write_failure: "I db \<Longrightarrow> getDispatchContextById db c = Some d \<Longrightarrow>
      I (write_failure c (d_failure_count d + 1) e db)"
    and inv_insert_gate: "I db \<Longrightarrow> g_id g \<notin> g_id ` set (gates db) \<Longrightarrow>
      I (db\<lparr>gates := gates db @ [g]\<rparr>)"
    and inv_update_gate: "I db \<Longrightarrow> (\<And>g. g_id (f g) = g_id g) \<Longrightarrow>
      I (db\<lparr>gates := modify_by g_id i f (gates db)\<rparr>)"
    and inv_createCoordinatorRun:
      "I db \<Longrightarrow> createCoordinatorRun h now sp ch p db = Inr (run, db') \<Longrightarrow> I db'"
    and inv_update_run: "I db \<Longrightarrow> (\<And>q. r_id (fr q) = r_id q) \<Longrightarrow>
      I (db\<lparr>runs := modify_by r_id i fr (runs db)\<rparr>)"
    and inv_resetTasks: "I db \<Longrightarrow> I (resetTasks db)"
    and inv_resetMessages: "I db \<Longrightarrow> I (resetMessages db)"
begin

lemma inv_promote_loop: "I db \<Longrightarrow> I (snd (promote_loop i ts db))"
  by (induction i ts db rule: promote_loop.induct) (auto intro: inv_set_task_status split: sum.split)

lemma inv_promoteReadyTasks: "I db \<Longrightarrow> I (snd (promoteReadyTasks i db))"
  by (simp add: promoteReadyTasks_def inv_promote_loop)

lemma inv_completeActive: "I db \<Longrightarrow> I (completeActiveDispatchForTask now i db)"
  by (auto simp: completeActiveDispatchForTask_def intro: inv_completeDispatch split: option.split)

lemma inv_updateTaskStatus: "I db \<Longrightarrow> I (snd (updateTaskStatus now i s res db))"
proof -
  assume "I db"
  then have "I (write_task_status now i s res db)" by (rule inv_write_task_status)
  moreover from this have "I (snd (promoteReadyTasks i (write_task_status now i s res db)))"
    by (rule inv_promoteReadyTasks)
  ultimately show ?thesis
    by (auto simp: updateTaskStatus_def Let_def intro: inv_completeActive
        split: prod.splits option.splits)
qed

lemma inv_failDispatch: "I db \<Longrightarrow> I (snd (failDispatch c e db))"
  by (auto simp: failDispatch_def Let_def split: option.split
      intro!: inv_set_task_status inv_write_failure [simplified])

lemma inv_failActive: "I db \<Longrightarrow> I (snd (failActiveDispatchForTask i e db))"
  by (auto simp: failActiveDispatchForTask_def intro: inv_failDispatch split: option.split)

lemma inv_createGate: "I db \<Longrightarrow> createGate h now i q os db = Inr (g, db') \<Longrightarrow> I db'"
  by (auto simp: createGate_def Let_def split: if_splits
      intro!: inv_set_task_status inv_completeActive inv_insert_gate)

lemma inv_resolveGate: "I db \<Longrightarrow> I (snd (resolveGate now i res db))"
  by (auto simp: resolveGate_def Let_def split: option.split
      intro!: inv_set_task_status inv_update_gate)

lemma inv_timeoutGate: "I db \<Longrightarrow> I (snd (timeoutGate now i db))"
  by (auto simp: timeoutGate_def Let_def intro!: inv_update_gate)

lemma inv_updateCoordinatorRun: "I db \<Longrightarrow> I (snd (updateCoordinatorRun now i s db))"
  by (auto simp: updateCoordinatorRun_def Let_def intro!: inv_update_run)

lemma inv_resetAll: "I db \<Longrightarrow> I (resetAll db)"
  by (simp add: resetAll_eq inv_resetMessages inv_resetTasks)

end

subsection \<open>Unique ids\<close>

definition ids_inv :: "odb \<Rightarrow> bool" where
  "ids_inv db = (distinct (map m_id (messages db)) \<and> distinct (map t_id (tasks db))
     \<and> distinct (map d_id (dispatches db)) \<and> distinct (map g_id (gates db))
     \<and> distinct (map r_id (runs db)))"

lemmas insert_defs = insertMessage_def createTask_def createDispatchContext_def
  createCoordinatorRun_def Let_def

interpretation ids: orch_invariant ids_inv
  by unfold_locales
    (auto simp: ids_inv_def insert_defs gate_tbl.keys_modify run_tbl.keys_modify
      resetTasks_def resetMessages_def split: if_splits option.splits)

subsection \<open>The message sequence\<close>

text \<open>Sequence numbers grow along the table and stay below the counter, across deletions.\<close>

definition seq_inv :: "odb \<Rightarrow> bool" where
  "seq_inv db = (sorted_wrt (<) (map m_sequence (messages db))
     \<and> (\<forall>n \<in> set (map m_sequence (messages db)). n \<le> msg_seq db))"

interpretation seq: orch_invariant seq_inv
  by unfold_locales
    (auto simp: seq_inv_def insert_defs sorted_wrt_append resetTasks_def resetMessages_def
      simp del: set_map split: if_splits option.splits)

subsection \<open>The dispatch lock\<close>

text \<open>Two dispatch contexts that are both active name different terminals, and different panes
  where both recorded one.\<close>

definition panes_apart :: "dispatch_row \<Rightarrow> dispatch_row \<Rightarrow> bool" where
  "panes_apart a b = (case (d_assignee_pane_key a, d_assignee_pane_key b) of
     (Some k, Some l) \<Rightarrow> k = [] \<or> l = [] \<or> \<not> isEquivalentPaneKey k l
   | _ \<Rightarrow> True)"

definition lock_apart :: "dispatch_row \<Rightarrow> dispatch_row \<Rightarrow> bool" where
  "lock_apart a b = (active_status (d_status a) \<and> active_status (d_status b) \<longrightarrow>
     d_assignee_handle a \<noteq> d_assignee_handle b \<and> panes_apart a b)"

definition lock_inv :: "odb \<Rightarrow> bool" where
  "lock_inv db = sorted_wrt lock_apart (dispatches db)"

lemma lock_update:
  assumes "sorted_wrt lock_apart rows"
    and "\<And>r. active_status (d_status (f r)) \<Longrightarrow> active_status (d_status r)"
    and "\<And>r. d_assignee_handle (f r) = d_assignee_handle r"
    and "\<And>r. d_assignee_pane_key (f r) = d_assignee_pane_key r"
  shows "sorted_wrt lock_apart (update_rows P f rows)"
proof -
  have apart: "panes_apart (f a) b = panes_apart a b" "panes_apart a (f b) = panes_apart a b" for a b
    by (simp_all add: panes_apart_def assms(4))
  have lock: "lock_apart (if P a then f a else a) (if P b then f b else b)"
    if "lock_apart a b" for a b
    using that assms(2) [of a] assms(2) [of b] unfolding lock_apart_def
    by (simp add: apart assms(3))
  show ?thesis
    unfolding update_rows_def sorted_wrt_map
    by (rule sorted_wrt_mono_rel [OF _ assms(1)]) (rule lock)
qed

lemma findActive_None:
  assumes "findActiveDispatchForAssignee db h k = None" and "d \<in> set (dispatches db)"
    and "active_status (d_status d)"
  shows "d_assignee_handle d \<noteq> Some h"
    and "k = Some l \<Longrightarrow> d_assignee_pane_key d = Some q \<Longrightarrow> q \<noteq> [] \<Longrightarrow> l \<noteq> [] \<Longrightarrow>
      \<not> isEquivalentPaneKey q l"
  using assms by (auto simp: findActiveDispatchForAssignee_def find_None_iff split: option.splits)

lemma lock_createDispatchContext:
  assumes inv: "lock_inv db" and ok: "createDispatchContext h now i a k db = Inr (d, db')"
  shows "lock_inv db'"
proof -
  from ok have free: "findActiveDispatchForAssignee db a k = None"
    and rows: "dispatches db' = dispatches db @ [d]"
    and d: "d_assignee_handle d = Some a" "d_assignee_pane_key d = k"
    by (auto simp: createDispatchContext_def Let_def split: option.splits if_splits)
  have "lock_apart r d" if "r \<in> set (dispatches db)" for r
    using findActive_None [OF free that]
    by (auto simp: lock_apart_def panes_apart_def d split: option.splits)
  with inv rows show ?thesis by (simp add: lock_inv_def sorted_wrt_append)
qed

interpretation lock: orch_invariant lock_inv
proof
  show "lock_inv db \<Longrightarrow> lock_inv (completeDispatch now c db)" for db now c
    by (auto simp: lock_inv_def completeDispatch_def modify_by_def active_status_def
        intro!: lock_update)
  show "lock_inv db \<Longrightarrow> lock_inv (recordHeartbeat c at db)" for db c at
    by (auto simp: lock_inv_def recordHeartbeat_def intro!: lock_update)
  show "lock_inv db \<Longrightarrow> getDispatchContextById db c = Some d \<Longrightarrow>
      lock_inv (write_failure c (d_failure_count d + 1) e db)" for db c d e
    by (auto simp: lock_inv_def write_failure_def modify_by_def active_status_def
        failure_status_def intro!: lock_update)
  show "lock_inv db \<Longrightarrow> createDispatchContext h now i a k db = Inr (d, db') \<Longrightarrow> lock_inv db'"
    for db h now i a k d db'
    by (rule lock_createDispatchContext)
qed (auto simp: lock_inv_def insertMessage_def createTask_def createCoordinatorRun_def Let_def
    resetTasks_def resetMessages_def markAsRead_def markAsDelivered_def
    markAsReadAndDelivered_def split: if_splits)

text \<open>What the lock means: an active dispatch is the only one of its terminal.\<close>

lemma lock_inv_unique:
  assumes "lock_inv db" and "a \<in> set (dispatches db)" and "b \<in> set (dispatches db)"
    and "active_status (d_status a)" and "active_status (d_status b)"
    and "d_assignee_handle a = d_assignee_handle b"
  shows "a = b"
proof (rule ccontr)
  assume "a \<noteq> b"
  obtain i j where ij: "i < length (dispatches db)" "dispatches db ! i = a"
      "j < length (dispatches db)" "dispatches db ! j = b"
    using assms(2,3) by (metis in_set_conv_nth)
  with \<open>a \<noteq> b\<close> have "i < j \<or> j < i" by (metis nat_neq_iff)
  then have "lock_apart a b \<or> lock_apart b a"
    using assms(1) ij unfolding lock_inv_def sorted_wrt_iff_nth_less by blast
  with assms(4-6) show False by (auto simp: lock_apart_def)
qed

lemma lock_inv_panes:
  assumes "lock_inv db" and "a \<in> set (dispatches db)" and "b \<in> set (dispatches db)"
    and "active_status (d_status a)" and "active_status (d_status b)"
    and "d_assignee_pane_key a = Some k" and "d_assignee_pane_key b = Some l"
    and "k \<noteq> []" and "l \<noteq> []" and "isEquivalentPaneKey k l"
  shows "a = b"
proof (rule ccontr)
  assume "a \<noteq> b"
  obtain i j where ij: "i < length (dispatches db)" "dispatches db ! i = a"
      "j < length (dispatches db)" "dispatches db ! j = b"
    using assms(2,3) by (metis in_set_conv_nth)
  with \<open>a \<noteq> b\<close> have "i < j \<or> j < i" by (metis nat_neq_iff)
  then have "lock_apart a b \<or> lock_apart b a"
    using assms(1) ij unfolding lock_inv_def sorted_wrt_iff_nth_less by blast
  with assms(4-10) show False
    by (auto simp: lock_apart_def panes_apart_def dest: isEquivalentPaneKey_sym)
qed

subsection \<open>The circuit breaker\<close>

text \<open>A context is broken exactly from its third failure on, and none is ever pending.\<close>

definition breaker_row :: "dispatch_row \<Rightarrow> bool" where
  "breaker_row d = (case d_status d of
     D_pending \<Rightarrow> False
   | D_failed \<Rightarrow> 1 \<le> d_failure_count d \<and> d_failure_count d \<le> 2
   | D_circuit_broken \<Rightarrow> 3 \<le> d_failure_count d
   | _ \<Rightarrow> True)"

definition breaker_inv :: "odb \<Rightarrow> bool" where
  "breaker_inv db = list_all breaker_row (dispatches db)"

lemma list_all_update_rows:
  "list_all Q rows \<Longrightarrow> (\<And>r. Q r \<Longrightarrow> P r \<Longrightarrow> Q (f r)) \<Longrightarrow> list_all Q (update_rows P f rows)"
  by (induction rows) auto

interpretation breaker: orch_invariant breaker_inv
  by unfold_locales
    (auto simp: breaker_inv_def insert_defs resetTasks_def resetMessages_def
      completeDispatch_def recordHeartbeat_def write_failure_def modify_by_def markAsRead_def
      markAsDelivered_def markAsReadAndDelivered_def failure_status_def breaker_row_def
      intro!: list_all_update_rows split: if_splits option.splits dispatch_status.splits)

subsection \<open>Deps columns\<close>

text \<open>Every deps column is the JSON text of an array of strings, so promotion never throws.\<close>

definition deps_text :: "jsstr \<Rightarrow> bool" where
  "deps_text s = (\<exists>ds. s = json_stringify (json_strings ds))"

definition deps_inv :: "odb \<Rightarrow> bool" where
  "deps_inv db = list_all deps_text (map t_deps (tasks db))"

interpretation deps: orch_invariant deps_inv
  by unfold_locales
    (auto simp: deps_inv_def insert_defs resetTasks_def resetMessages_def deps_text_def
      simp del: list.pred_map split: if_splits option.splits)

lemma parse_deps_strings [simp]: "parse_deps (json_stringify (json_strings ds)) = Inr ds"
  unfolding parse_deps_def json_parse_strings by (simp add: json_strings_def)

lemma parse_deps_ok: "deps_text s \<Longrightarrow> \<exists>ds. parse_deps s = Inr ds"
  by (auto simp: deps_text_def)

subsection \<open>Dispatch contexts refer to tasks\<close>

definition refs_inv :: "odb \<Rightarrow> bool" where
  "refs_inv db = (set (map d_task_id (dispatches db)) \<subseteq> set (map t_id (tasks db)))"

lemma getTask_in: "getTask db i = Some t \<Longrightarrow> i \<in> set (map t_id (tasks db))"
  by (auto simp: getTask_def dest: task_tbl.lookup_Some)

interpretation refs: orch_invariant refs_inv
  by unfold_locales
    (auto simp: refs_inv_def insert_defs resetTasks_def resetMessages_def
      simp del: set_map dest: getTask_in split: if_splits option.splits)

subsection \<open>All of them\<close>

definition db_inv :: "odb \<Rightarrow> bool" where
  "db_inv db = (ids_inv db \<and> seq_inv db \<and> lock_inv db \<and> breaker_inv db \<and> deps_inv db
     \<and> refs_inv db)"

text \<open>Invariants that keep the contract keep it together.\<close>

locale orch_invariant_pair = fst: orch_invariant I + snd: orch_invariant J for I J
begin

lemma pair: "orch_invariant (\<lambda>db. I db \<and> J db)"
  by unfold_locales
    (auto simp del: One_nat_def intro: fst.inv_insertMessage snd.inv_insertMessage
      fst.inv_markAsRead snd.inv_markAsRead fst.inv_markAsDelivered snd.inv_markAsDelivered
      fst.inv_markAsReadAndDelivered snd.inv_markAsReadAndDelivered fst.inv_createTask
      snd.inv_createTask fst.inv_set_task_status snd.inv_set_task_status
      fst.inv_write_task_status snd.inv_write_task_status fst.inv_createDispatchContext
      snd.inv_createDispatchContext fst.inv_completeDispatch snd.inv_completeDispatch
      fst.inv_recordHeartbeat snd.inv_recordHeartbeat fst.inv_write_failure [simplified]
      snd.inv_write_failure [simplified] fst.inv_insert_gate snd.inv_insert_gate
      fst.inv_update_gate snd.inv_update_gate fst.inv_createCoordinatorRun
      snd.inv_createCoordinatorRun fst.inv_update_run snd.inv_update_run fst.inv_resetTasks
      snd.inv_resetTasks fst.inv_resetMessages snd.inv_resetMessages)

end

interpretation deps_refs: orch_invariant_pair deps_inv refs_inv ..

interpretation breaker_rest: orch_invariant_pair breaker_inv "\<lambda>db. deps_inv db \<and> refs_inv db"
  by (intro orch_invariant_pair.intro breaker.orch_invariant_axioms deps_refs.pair)

interpretation lock_rest: orch_invariant_pair lock_inv
  "\<lambda>db. breaker_inv db \<and> deps_inv db \<and> refs_inv db"
  by (intro orch_invariant_pair.intro lock.orch_invariant_axioms breaker_rest.pair)

interpretation seq_rest: orch_invariant_pair seq_inv
  "\<lambda>db. lock_inv db \<and> breaker_inv db \<and> deps_inv db \<and> refs_inv db"
  by (intro orch_invariant_pair.intro seq.orch_invariant_axioms lock_rest.pair)

interpretation ids_rest: orch_invariant_pair ids_inv
  "\<lambda>db. seq_inv db \<and> lock_inv db \<and> breaker_inv db \<and> deps_inv db \<and> refs_inv db"
  by (intro orch_invariant_pair.intro ids.orch_invariant_axioms seq_rest.pair)

interpretation db: orch_invariant db_inv
  using ids_rest.pair by (simp only: db_inv_def [abs_def])

lemma db_inv_empty: "db_inv empty_db"
  by (simp add: db_inv_def empty_db_def ids_inv_def seq_inv_def lock_inv_def breaker_inv_def
      deps_inv_def refs_inv_def)

end
