(* ===== verification/Orch_Demo.thy ===== *)
theory Orch_Demo
  imports Orch_Inv
begin

section \<open>A small database\<close>

text \<open>
  The state the witnesses run on, made by the operations themselves: two tasks, the second
  waiting for the first, which is dispatched to the terminal \<open>t1\<close>; a heartbeat and a
  \<open>worker_done\<close> message of that terminal to the coordinator \<open>co\<close>.
\<close>

definition db_of :: "exn + ('a \<times> odb) \<Rightarrow> odb" where
  "db_of r = (case r of Inl _ \<Rightarrow> empty_db | Inr (_, db) \<Rightarrow> db)"

definition demo_clock :: clock where
  "demo_clock = \<lparr>sql_now = js ''2026-01-02 03:04:05'', iso_now = js ''2026-01-02T03:04:05.000Z''\<rparr>"

definition demo_task :: "string \<Rightarrow> string list \<Rightarrow> new_task" where
  "demo_task spec deps = \<lparr>nt_spec = js spec, nt_taskTitle = None, nt_displayName = None,
     nt_deps = Some (map js deps), nt_parentId = None, nt_createdByTerminalHandle = None\<rparr>"

definition demo_payload :: jsstr where
  "demo_payload = json_stringify (JObj [(js ''taskId'', JStr (js ''task_a'')),
     (js ''dispatchId'', JStr (js ''ctx_c''))])"

definition demo_message :: "message_type \<Rightarrow> new_message" where
  "demo_message t = \<lparr>nm_from = js ''t1'', nm_to = js ''co'', nm_subject = js ''s'', nm_body = None,
     nm_type = Some t, nm_priority = None, nm_threadId = None, nm_payload = Some demo_payload,
     nm_senderPaneKey = None\<rparr>"

definition demo_tasks :: odb where
  "demo_tasks =
     db_of (createTask (js ''b'') demo_clock (demo_task ''two'' [''task_a''])
      (db_of (createTask (js ''a'') demo_clock (demo_task ''one'' []) empty_db)))"

definition demo_dispatched :: odb where
  "demo_dispatched =
     db_of (createDispatchContext (js ''c'') demo_clock (js ''task_a'') (js ''t1'') None demo_tasks)"

definition demo_db :: odb where
  "demo_db = db_of (insertMessage (js ''y'') demo_clock (demo_message MT_worker_done)
     (db_of (insertMessage (js ''x'') demo_clock (demo_message MT_heartbeat) demo_dispatched)))"

lemma db_of_inv: "(\<And>x db'. r = Inr (x, db') \<Longrightarrow> db_inv db') \<Longrightarrow> db_inv (db_of r)"
  by (auto simp: db_of_def db_inv_empty split: sum.split)

lemma demo_tasks_inv: "db_inv demo_tasks"
  unfolding demo_tasks_def
  by (intro db_of_inv) (blast intro: db.inv_createTask db_of_inv db_inv_empty)

lemma demo_dispatched_inv: "db_inv demo_dispatched"
  unfolding demo_dispatched_def
  by (intro db_of_inv) (blast intro: db.inv_createDispatchContext demo_tasks_inv)

lemma demo_db_inv: "db_inv demo_db"
  unfolding demo_db_def
  by (intro db_of_inv) (blast intro: db.inv_insertMessage db_of_inv demo_dispatched_inv)

lemmas demo_eval = demo_db_def demo_dispatched_def demo_tasks_def db_of_def insert_defs
  deps_of_new_def demo_task_def demo_message_def empty_db_def generateId_def getTask_def row_by_def
  set_task_status_def modify_by_def findActiveDispatchForAssignee_def prior_failures_def

end
