(* ===== verification/Orch_Tasks.thy ===== *)
theory Orch_Tasks
  imports Orch_Demo
begin

section \<open>Tasks, dispatches and gates: what the operations do\<close>

text \<open>
  The functional behaviour of the methods of \<open>db.ts\<close> that change tasks. \<open>promote_task\<close> is the
  reference definition of promotion: all dependents are judged against one state, at once;
  the loop of \<open>promoteReadyTasks\<close> is shown equal to it. \<open>retry_rounds\<close> runs a task through
  dispatch and failure again and again, for the circuit breaker.
\<close>

subsection \<open>Promotion\<close>

definition task_deps :: "task_row \<Rightarrow> jsstr list" where
  "task_deps t = (case parse_deps (t_deps t) of Inl _ \<Rightarrow> [] | Inr ds \<Rightarrow> ds)"

text \<open>A pending task is promoted when the completed task is among its dependencies and all of
  them are completed.\<close>

definition promotable :: "jsstr \<Rightarrow> odb \<Rightarrow> task_row \<Rightarrow> bool" where
  "promotable i db t = (t_status t = T_pending \<and> i \<in> set (task_deps t)
     \<and> list_all (dep_completed db) (task_deps t))"

definition promote_task :: "jsstr \<Rightarrow> odb \<Rightarrow> task_row \<Rightarrow> task_row" where
  "promote_task i db t = (if promotable i db t then t\<lparr>t_status := T_ready\<rparr> else t)"

lemma getTask_set_status:
  "getTask (set_task_status k s db) i =
     (if i = k then map_option (t_status_update (\<lambda>_. s)) (getTask db i) else getTask db i)"
  by (simp add: getTask_def set_task_status_def task_tbl.lookup_modify)

lemma dep_completed_ready:
  "\<not> dep_completed db k \<Longrightarrow> dep_completed (set_task_status k T_ready db) i = dep_completed db i"
  by (auto simp: dep_completed_def getTask_set_status split: option.splits)

definition mark_ready :: "jsstr set \<Rightarrow> odb \<Rightarrow> odb" where
  "mark_ready K db =
     db\<lparr>tasks := update_rows (\<lambda>t. t_id t \<in> K) (t_status_update (\<lambda>_. T_ready)) (tasks db)\<rparr>"

lemma mark_ready_empty: "mark_ready {} db = db"
  by (simp add: mark_ready_def update_rows_def)

lemma mark_ready_insert:
  "mark_ready K (set_task_status k T_ready db) = mark_ready (insert k K) db"
  by (auto simp: mark_ready_def set_task_status_def modify_by_def update_rows_def)

lemma promote_loop_marks:
  assumes "list_all deps_text (map t_deps ts)" and "\<And>t. t \<in> set ts \<Longrightarrow> \<not> C (t_id t)"
    and "\<And>d. dep_completed db d = C d"
  shows "promote_loop i ts db =
    (None, mark_ready {t_id t |t. t \<in> set ts \<and> i \<in> set (task_deps t)
                                   \<and> list_all C (task_deps t)} db)"
  using assms
proof (induction ts arbitrary: db)
  case Nil
  then show ?case by (simp add: mark_ready_empty)
next
  case (Cons t ts)
  obtain ds where ds: "parse_deps (t_deps t) = Inr ds"
    using Cons.prems(1) parse_deps_ok by auto
  then have td: "task_deps t = ds" by (simp add: task_deps_def)
  have C: "dep_completed db = C" using Cons.prems(3) by blast
  let ?K = "{t_id t |t. t \<in> set ts \<and> i \<in> set (task_deps t) \<and> list_all C (task_deps t)}"
  let ?L = "{t_id s |s. s \<in> set (t # ts) \<and> i \<in> set (task_deps s) \<and> list_all C (task_deps s)}"
  show ?case
  proof (cases "i \<in> set ds \<and> list_all C ds")
    case True
    let ?db = "set_task_status (t_id t) T_ready db"
    have "\<not> dep_completed db (t_id t)" using Cons.prems(2,3) by simp
    then have C': "dep_completed ?db d = C d" for d
      using dep_completed_ready Cons.prems(3) by simp
    have IH: "promote_loop i ts ?db = (None, mark_ready ?K ?db)"
      by (rule Cons.IH) (use Cons.prems C' in auto)
    have L: "?L = insert (t_id t) ?K" using True td by auto
    have "promote_loop i (t # ts) db = promote_loop i ts ?db"
      using True ds C by simp
    then show ?thesis unfolding IH L mark_ready_insert .
  next
    case False
    have IH: "promote_loop i ts db = (None, mark_ready ?K db)"
      by (rule Cons.IH) (use Cons.prems in auto)
    have "?L = ?K" using False td by auto
    moreover have "promote_loop i (t # ts) db = promote_loop i ts db"
      using False ds C by auto
    ultimately show ?thesis using IH by simp
  qed
qed

lemma dep_completed_row:
  assumes "ids_inv db" and "t \<in> set (tasks db)"
  shows "dep_completed db (t_id t) \<longleftrightarrow> t_status t = T_completed"
  using task_tbl.lookup_distinct [of "tasks db" t] assms
  by (simp add: dep_completed_def getTask_def ids_inv_def)

lemma promotion:
  assumes ids: "ids_inv db" and deps: "deps_inv db"
  shows "promoteReadyTasks i db = (None, db\<lparr>tasks := map (promote_task i db) (tasks db)\<rparr>)"
proof -
  let ?ts = "filter (\<lambda>t. t_status t = T_pending) (tasks db)"
  let ?K = "{t_id t |t. t \<in> set ?ts \<and> i \<in> set (task_deps t)
              \<and> list_all (dep_completed db) (task_deps t)}"
  have "promote_loop i ?ts db = (None, mark_ready ?K db)"
  proof (rule promote_loop_marks)
    show "list_all deps_text (map t_deps ?ts)"
      using deps by (auto simp: deps_inv_def list_all_iff)
    show "\<not> dep_completed db (t_id t)" if "t \<in> set ?ts" for t
      using that dep_completed_row [OF ids] by auto
  qed simp
  moreover have "mark_ready ?K db = db\<lparr>tasks := map (promote_task i db) (tasks db)\<rparr>"
  proof -
    have "t_id t \<in> ?K \<longleftrightarrow> promotable i db t" if "t \<in> set (tasks db)" for t
    proof
      assume "t_id t \<in> ?K"
      then obtain s where s: "s \<in> set (tasks db)" "t_id t = t_id s" "promotable i db s"
        unfolding promotable_def by auto
      have "inj_on t_id (set (tasks db))" using ids by (simp add: ids_inv_def distinct_map)
      then have "t = s" using that s(1,2) by (meson inj_onD)
      with s(3) show "promotable i db t" by simp
    next
      assume "promotable i db t"
      then show "t_id t \<in> ?K" using that unfolding promotable_def by auto
    qed
    then have "update_rows (\<lambda>t. t_id t \<in> ?K) (t_status_update (\<lambda>_. T_ready)) (tasks db)
        = map (promote_task i db) (tasks db)"
      unfolding update_rows_def promote_task_def by (intro map_cong refl if_cong)
    then show ?thesis by (simp only: mark_ready_def)
  qed
  ultimately show ?thesis by (simp add: promoteReadyTasks_def)
qed

text \<open>
  C3. Promotion after a completion equals the reference: every pending task that waits for the
  completed task and has all its dependencies completed becomes ready, judged against the
  state before the call; no other row changes and nothing is thrown.
\<close>

theorem promote_ready_tasks:
  assumes "db_inv db"
  shows "promoteReadyTasks i db = (None, db\<lparr>tasks := map (promote_task i db) (tasks db)\<rparr>)"
  using assms by (simp add: db_inv_def promotion)

theorem promote_ready_tasks_witness:
  "promoteReadyTasks (js ''task_a'') demo_db =
     (None, demo_db\<lparr>tasks := map (promote_task (js ''task_a'') demo_db) (tasks demo_db)\<rparr>)"
  using promote_ready_tasks [OF demo_db_inv] .

subsection \<open>Completion of a task\<close>

definition completed_row :: "clock \<Rightarrow> jsstr option \<Rightarrow> task_row \<Rightarrow> task_row" where
  "completed_row now res t = t\<lparr>t_status := T_completed, t_result := coalesce res (t_result t),
     t_completed_at := Some (iso_now now)\<rparr>"

definition completed_db :: "clock \<Rightarrow> jsstr \<Rightarrow> jsstr option \<Rightarrow> odb \<Rightarrow> odb" where
  "completed_db now i res db = db\<lparr>tasks := modify_by t_id i (completed_row now res) (tasks db)\<rparr>"

definition promoted_db :: "jsstr \<Rightarrow> odb \<Rightarrow> odb" where
  "promoted_db i db = db\<lparr>tasks := map (promote_task i db) (tasks db)\<rparr>"

definition after_completion :: "clock \<Rightarrow> jsstr \<Rightarrow> jsstr option \<Rightarrow> odb \<Rightarrow> odb" where
  "after_completion now i res db =
     completeActiveDispatchForTask now i (promoted_db i (completed_db now i res db))"

lemma coalesce_Some [simp]: "coalesce (Some x) y = Some x"
  by (simp add: coalesce_def)

lemma write_completed: "write_task_status now i T_completed res db = completed_db now i res db"
  by (simp add: write_task_status_def completed_row_def [abs_def] terminal_task_status_def
      completed_db_def)

lemma completeActive_frame [simp]:
  "messages (completeActiveDispatchForTask now i db) = messages db"
  "msg_seq (completeActiveDispatchForTask now i db) = msg_seq db"
  "tasks (completeActiveDispatchForTask now i db) = tasks db"
  "gates (completeActiveDispatchForTask now i db) = gates db"
  "runs (completeActiveDispatchForTask now i db) = runs db"
  by (simp_all add: completeActiveDispatchForTask_def split: option.split)

lemma getTask_completeActive [simp]:
  "getTask (completeActiveDispatchForTask now i db) k = getTask db k"
  by (simp add: getTask_def)

lemma completion:
  assumes inv: "db_inv db"
  shows "updateTaskStatus now i T_completed res db =
    (Inr (getTask (after_completion now i res db) i), after_completion now i res db)"
proof -
  have "db_inv (completed_db now i res db)"
    using db.inv_write_task_status [OF inv, of now i T_completed res]
    by (simp add: write_completed)
  then have "promoteReadyTasks i (completed_db now i res db) =
      (None, promoted_db i (completed_db now i res db))"
    by (simp add: db_inv_def promotion promoted_db_def)
  then show ?thesis
    by (simp add: updateTaskStatus_def write_completed Let_def after_completion_def)
qed

lemma row_by_map:
  "(\<And>r. key (f r) = key r) \<Longrightarrow> row_by key k (map f rows) = map_option f (row_by key k rows)"
  by (induction rows) (auto simp: row_by_def)

lemma t_id_promote [simp]: "t_id (promote_task i db t) = t_id t"
  by (simp add: promote_task_def)

lemma t_id_completed_row [simp]: "t_id (completed_row now res t) = t_id t"
  by (simp add: completed_row_def)

lemma getTask_promoted: "getTask (promoted_db i db) k = map_option (promote_task i db) (getTask db k)"
  by (simp add: promoted_db_def getTask_def row_by_map)

lemma getTask_completed_db: "getTask (completed_db now i res db) k =
    (if k = i then map_option (completed_row now res) (getTask db k) else getTask db k)"
  by (simp add: completed_db_def getTask_def task_tbl.lookup_modify)

lemma promote_completed_row [simp]:
  "promote_task i db (completed_row now res t) = completed_row now res t"
  by (simp add: promote_task_def promotable_def completed_row_def)

lemma getTask_after_completion:
  "getTask db i = Some t \<Longrightarrow> getTask (after_completion now i res db) i = Some (completed_row now res t)"
  by (simp add: after_completion_def getTask_promoted getTask_completed_db)

lemma dep_completed_promoted [simp]: "dep_completed (promoted_db i db) d = dep_completed db d"
  by (auto simp: dep_completed_def getTask_promoted promote_task_def promotable_def
      split: option.split)

lemma dep_completed_after [simp]:
  "dep_completed (completeActiveDispatchForTask now i db) d = dep_completed db d"
  by (simp add: dep_completed_def)

lemma pending_after_promotion:
  assumes "u \<in> set (tasks (promoted_db i db))" and "t_status u = T_pending"
    and "i \<in> set (task_deps u)"
  shows "\<exists>d \<in> set (task_deps u). \<not> dep_completed db d"
proof -
  obtain v where v: "u = promote_task i db v"
    using assms(1) by (auto simp: promoted_db_def)
  with assms(2) have "\<not> promotable i db v" by (auto simp: promote_task_def)
  with v have "u = v" and "\<not> promotable i db u" by (simp_all add: promote_task_def)
  with assms(2,3) show ?thesis by (auto simp: promotable_def list_all_iff)
qed

text \<open>
  Completing a task that exists throws nothing, returns the row, completed, with the
  result given and the time of completion, and leaves the state \<open>after_completion\<close>: that row
  written, the dependents promoted at once, the latest active dispatch completed. Every task
  that still waits for it is waiting for another one that is not completed.
\<close>

theorem complete_task:
  assumes "db_inv db" and "getTask db i = Some t"
  shows "updateTaskStatus now i T_completed res db =
      (Inr (Some (completed_row now res t)), after_completion now i res db)
     \<and> (\<forall>u \<in> set (tasks (after_completion now i res db)).
          t_status u = T_pending \<and> i \<in> set (task_deps u) \<longrightarrow>
          (\<exists>d \<in> set (task_deps u). \<not> dep_completed (after_completion now i res db) d))"
proof (intro conjI ballI impI)
  show "updateTaskStatus now i T_completed res db =
      (Inr (Some (completed_row now res t)), after_completion now i res db)"
    using assms by (simp add: completion getTask_after_completion)
qed (auto simp: after_completion_def dest: pending_after_promotion)

theorem complete_task_witness:
  "updateTaskStatus demo_clock (js ''task_a'') T_completed None demo_db =
       (Inr (Some (completed_row demo_clock None (hd (tasks demo_db)))),
        after_completion demo_clock (js ''task_a'') None demo_db)"
proof -
  have "getTask demo_db (js ''task_a'') = Some (hd (tasks demo_db))" by (simp add: demo_eval)
  from complete_task [OF demo_db_inv this] show ?thesis by blast
qed

subsection \<open>The circuit breaker\<close>

text \<open>One more round: the ready task is dispatched to a terminal, and the dispatch fails.\<close>

definition retry_round ::
  "clock \<Rightarrow> jsstr \<Rightarrow> jsstr \<times> jsstr \<times> jsstr option \<times> jsstr \<Rightarrow> odb \<Rightarrow> exn + odb" where
  "retry_round now taskId r db = (case r of (hex, handle, pane, error) \<Rightarrow>
     (case createDispatchContext hex now taskId handle pane db of
        Inl e \<Rightarrow> Inl e
      | Inr (d, db') \<Rightarrow> Inr (snd (failDispatch (d_id d) error db'))))"

fun retry_rounds ::
  "clock \<Rightarrow> jsstr \<Rightarrow> (jsstr \<times> jsstr \<times> jsstr option \<times> jsstr) list \<Rightarrow> odb \<Rightarrow> exn + odb" where
  "retry_rounds now taskId [] db = Inr db"
| "retry_rounds now taskId (r # rs) db = (case retry_round now taskId r db of
     Inl e \<Rightarrow> Inl e | Inr db' \<Rightarrow> retry_rounds now taskId rs db')"

lemma getTask_frame [simp]:
  "getTask (db\<lparr>dispatches := ds\<rparr>) i = getTask db i"
  "getTask (db\<lparr>gates := gs\<rparr>) i = getTask db i"
  "getTask (write_failure c n e db) i = getTask db i"
  by (simp_all add: getTask_def)

lemma createDispatchContext_rows:
  assumes "createDispatchContext hex now i a k db = Inr (d, db')"
  shows "d_id d \<notin> d_id ` set (dispatches db)" and "dispatches db' = dispatches db @ [d]"
    and "d_task_id d = i" and "d_failure_count d = prior_failures db i"
    and "d_status d = D_dispatched" and "d_assignee_handle d = Some a"
    and "d_assignee_pane_key d = k"
    and "getTask db' i = map_option (t_status_update (\<lambda>_. T_dispatched)) (getTask db i)"
    and "\<exists>t. getTask db i = Some t \<and> t_status t = T_ready"
    and "findActiveDispatchForAssignee db a k = None"
  using assms
  by (auto simp: createDispatchContext_def Let_def getTask_set_status split: option.splits if_splits)

lemma foldr_max_snoc: "foldr max (xs @ [y]) (0::nat) = max (foldr max xs 0) y"
  by (induction xs) auto

lemma prior_failures_append:
  assumes "dispatches db' = dispatches db @ [d]" and "d_task_id d = i"
  shows "prior_failures db' i = max (prior_failures db i) (d_failure_count d)"
  unfolding prior_failures_def assms(1) filter_append map_append
  by (simp only: filter.simps assms(2) simp_thms if_True list.map foldr_max_snoc)

definition task_status_of :: "odb \<Rightarrow> jsstr \<Rightarrow> task_status option" where
  "task_status_of db i = map_option t_status (getTask db i)"

lemma failDispatch_last:
  assumes rows: "dispatches db = ds @ [d]" and fresh: "d_id d \<notin> d_id ` set ds"
  shows "failDispatch (d_id d) e db =
    (let n = d_failure_count d + 1;
         d' = d\<lparr>d_status := failure_status n, d_failure_count := n, d_last_failure := Some e\<rparr>
     in (Some d', set_task_status (d_task_id d) (if 3 \<le> n then T_failed else T_ready)
                    (db\<lparr>dispatches := ds @ [d']\<rparr>)))"
proof -
  have get: "row_by d_id (d_id d) (ds @ [q]) = Some q" if "d_id q = d_id d" for q
    using that fresh by (simp add: dispatch_tbl.lookup_fresh)
  have upd: "modify_by d_id (d_id d) f (ds @ [d]) = ds @ [f d]" for f
    using modify_by_fresh [OF fresh, of f] by (simp add: modify_by_def)
  show ?thesis
    using rows by (simp add: failDispatch_def getDispatchContextById_def get upd write_failure_def
        Let_def failure_status_def)
qed

lemma retry_round_step:
  assumes "retry_round now i r db = Inr db'"
  shows "task_status_of db i = Some T_ready" and "prior_failures db' i = prior_failures db i + 1"
    and "task_status_of db' i = Some (if 3 \<le> prior_failures db i + 1 then T_failed else T_ready)"
proof -
  obtain hex a k e where r: "r = (hex, a, k, e)" by (cases r) auto
  obtain d db1 where c: "createDispatchContext hex now i a k db = Inr (d, db1)"
    and db': "db' = snd (failDispatch (d_id d) e db1)"
    using assms r by (auto simp: retry_round_def split: sum.splits)
  note rows = createDispatchContext_rows [OF c]
  obtain t where t: "getTask db i = Some t" "t_status t = T_ready" using rows(9) by auto
  then show "task_status_of db i = Some T_ready" by (simp add: task_status_of_def)
  let ?n = "prior_failures db i + 1"
  let ?d = "d\<lparr>d_status := failure_status ?n, d_failure_count := ?n, d_last_failure := Some e\<rparr>"
  have db'_eq: "db' = set_task_status i (if 3 \<le> ?n then T_failed else T_ready)
                 (db1\<lparr>dispatches := dispatches db @ [?d]\<rparr>)"
    using failDispatch_last [OF rows(2,1), of e] db' rows(3,4) by (simp add: Let_def)
  then have "dispatches db' = dispatches db @ [?d]" by simp
  from prior_failures_append [OF this] rows(3)
  show "prior_failures db' i = prior_failures db i + 1" by simp
  show "task_status_of db' i = Some (if 3 \<le> ?n then T_failed else T_ready)"
    using t rows(8) unfolding db'_eq task_status_of_def getTask_set_status by simp
qed

lemma retry_rounds_count:
  assumes "retry_rounds now i rs db = Inr db'"
  shows "prior_failures db' i = prior_failures db i + length rs
     \<and> (rs \<noteq> [] \<longrightarrow> task_status_of db' i =
            Some (if 3 \<le> prior_failures db' i then T_failed else T_ready))
     \<and> length rs \<le> max 1 (3 - prior_failures db i)"
  using assms
proof (induction rs arbitrary: db)
  case Nil
  then show ?case by simp
next
  case (Cons r rs)
  obtain db1 where r: "retry_round now i r db = Inr db1"
    and rs: "retry_rounds now i rs db1 = Inr db'"
    using Cons.prems by (auto split: sum.splits)
  note step = retry_round_step [OF r]
  note IH = Cons.IH [OF rs]
  show ?case
  proof (cases rs)
    case Nil
    with rs step show ?thesis by simp
  next
    case (Cons q qs)
    obtain db2 where "retry_round now i q db1 = Inr db2"
      using rs Cons by (auto split: sum.splits)
    from retry_round_step(1) [OF this] step(3) have "prior_failures db i + 1 < 3"
      by (auto split: if_splits)
    with IH step(2) Cons show ?thesis by auto
  qed
qed

text \<open>
  C23. The circuit breaker: when dispatches of a task fail one after the other, each failure
  adds one to the count its contexts carry, the task is failed from the third on and ready to
  be retried before it; so no more rounds are possible than the three less the failures it
  had (at most one, when it was made ready again by hand).
\<close>

theorem circuit_breaker:
  assumes "retry_rounds now i rs db = Inr db'"
  shows "prior_failures db' i = prior_failures db i + length rs
     \<and> (rs \<noteq> [] \<longrightarrow> task_status_of db' i =
            Some (if 3 \<le> prior_failures db' i then T_failed else T_ready))
     \<and> length rs \<le> max 1 (3 - prior_failures db i)"
  using assms by (rule retry_rounds_count)

definition demo_rounds :: "(jsstr \<times> jsstr \<times> jsstr option \<times> jsstr) list" where
  "demo_rounds = map (\<lambda>h. (js h, js ''t1'', None, js ''x'')) [''1'', ''2'', ''3'']"

theorem circuit_breaker_witness:
  "\<exists>db'. retry_rounds demo_clock (js ''task_a'') demo_rounds demo_tasks = Inr db'
     \<and> prior_failures db' (js ''task_a'') = 3
     \<and> task_status_of db' (js ''task_a'') = Some T_failed"
proof -
  have "\<exists>db'. retry_rounds demo_clock (js ''task_a'') demo_rounds demo_tasks = Inr db'"
    by (simp add: demo_rounds_def retry_round_def demo_eval failDispatch_def write_failure_def
        getDispatchContextById_def failure_status_def active_status_def)
  then obtain db' where *: "retry_rounds demo_clock (js ''task_a'') demo_rounds demo_tasks = Inr db'"
    ..
  have "prior_failures demo_tasks (js ''task_a'') = 0" "length demo_rounds = 3" "demo_rounds \<noteq> []"
    by (simp_all add: demo_eval demo_rounds_def)
  with circuit_breaker [OF *] * show ?thesis by simp
qed

end
