(* ===== verification/Orch_Gates.thy ===== *)
theory Orch_Gates
  imports Orch_Tasks
begin

section \<open>Admission of a dispatch, and decision gates\<close>

text \<open>
  When \<open>createDispatchContext\<close> accepts a dispatch, and what a decision gate does to the task
  and to the terminal it ran on: \<open>createGate\<close> blocks the one and releases the other,
  \<open>resolveGate\<close> makes the task ready again, and it can go back to the same terminal.
\<close>

definition same_pane :: "jsstr option \<Rightarrow> jsstr option \<Rightarrow> bool" where
  "same_pane k l = (case (k, l) of
     (Some a, Some b) \<Rightarrow> a \<noteq> [] \<and> b \<noteq> [] \<and> isEquivalentPaneKey a b | _ \<Rightarrow> False)"

text \<open>A terminal is taken when an active dispatch names its handle or its pane.\<close>

definition terminal_taken :: "odb \<Rightarrow> jsstr \<Rightarrow> jsstr option \<Rightarrow> bool" where
  "terminal_taken db a k = (\<exists>d \<in> set (dispatches db). active_status (d_status d)
     \<and> (d_assignee_handle d = Some a \<or> same_pane (d_assignee_pane_key d) k))"

lemma findActive_taken:
  "findActiveDispatchForAssignee db a k = None \<longleftrightarrow> \<not> terminal_taken db a k"
proof -
  have "findActiveDispatchForAssignee db a k = None \<longleftrightarrow>
    find (\<lambda>d. d_assignee_handle d = Some a \<and> active_status (d_status d)) (dispatches db) = None \<and>
    find (\<lambda>d. active_status (d_status d) \<and> same_pane (d_assignee_pane_key d) k) (dispatches db) = None"
    by (auto simp: findActiveDispatchForAssignee_def same_pane_def find_None_iff dest: find_Some_in
        split: option.splits)
  then show ?thesis by (auto simp: terminal_taken_def find_None_iff)
qed

text \<open>
  A dispatch is created exactly when the task exists and is ready, the terminal is not
  taken, under its handle or its pane, by an active dispatch, and the id is new.
\<close>

theorem dispatch_admission:
  "(\<exists>d db'. createDispatchContext hex now i a k db = Inr (d, db')) \<longleftrightarrow>
     task_status_of db i = Some T_ready \<and> \<not> terminal_taken db a k
     \<and> generateId ''ctx'' hex \<notin> d_id ` set (dispatches db)"
  by (auto simp: createDispatchContext_def Let_def task_status_of_def findActive_taken [symmetric]
      split: option.splits)

lemma dispatch_admitted:
  "task_status_of db i = Some T_ready \<Longrightarrow> \<not> terminal_taken db a k \<Longrightarrow>
   generateId ''ctx'' hex \<notin> d_id ` set (dispatches db) \<Longrightarrow>
   \<exists>d db'. createDispatchContext hex now i a k db = Inr (d, db')"
  by (auto simp: createDispatchContext_def Let_def task_status_of_def findActive_taken [symmetric]
      split: option.splits)

lemma completeDispatch_rows:
  assumes "q \<in> set (dispatches (completeDispatch now c db))" and "active_status (d_status q)"
  shows "q \<in> set (dispatches db) \<and> d_id q \<noteq> c"
proof -
  obtain r where r: "r \<in> set (dispatches db)" and q: "q = (if d_id r = c
      then r\<lparr>d_status := D_completed, d_completed_at := Some (sql_now now)\<rparr> else r)"
    using assms(1) by (auto simp: completeDispatch_def modify_by_def set_update_rows)
  with assms(2) show ?thesis by (cases "d_id r = c") (simp_all add: active_status_def)
qed

text \<open>The lock gives back exactly the terminal of the dispatch that is completed.\<close>

lemma completed_frees:
  assumes inv: "db_inv db" and d: "d \<in> set (dispatches db)" "active_status (d_status d)"
    and a: "d_assignee_handle d = Some a"
  shows "\<not> terminal_taken (completeDispatch now (d_id d) db) a (d_assignee_pane_key d)"
proof
  assume "terminal_taken (completeDispatch now (d_id d) db) a (d_assignee_pane_key d)"
  then obtain q where q: "q \<in> set (dispatches (completeDispatch now (d_id d) db))"
      "active_status (d_status q)"
      "d_assignee_handle q = Some a \<or> same_pane (d_assignee_pane_key q) (d_assignee_pane_key d)"
    by (auto simp: terminal_taken_def)
  have lock: "lock_inv db" using inv by (simp add: db_inv_def)
  have "q \<in> set (dispatches db)" "q \<noteq> d"
    using completeDispatch_rows [OF q(1,2)] by auto
  have "d_assignee_handle q \<noteq> Some a"
    using lock_inv_unique [OF lock \<open>q \<in> set (dispatches db)\<close> d(1) q(2) d(2)] \<open>q \<noteq> d\<close> a by auto
  moreover have "\<not> same_pane (d_assignee_pane_key q) (d_assignee_pane_key d)"
    using lock_inv_panes [OF lock \<open>q \<in> set (dispatches db)\<close> d(1) q(2) d(2)] \<open>q \<noteq> d\<close>
    by (auto simp: same_pane_def split: option.splits)
  ultimately show False using q(3) by blast
qed

lemma latest_active_in:
  "latest_active_for_task db i = Some d \<Longrightarrow>
     d \<in> set (dispatches db) \<and> d_task_id d = i \<and> active_status (d_status d)"
  unfolding latest_active_for_task_def by (drule last_row_Some) simp

lemma latest_active_gates [simp]:
  "latest_active_for_task (db\<lparr>gates := gs\<rparr>) i = latest_active_for_task db i"
  by (simp add: latest_active_for_task_def)

lemma completeActive_gates [simp]:
  "completeActiveDispatchForTask now i (db\<lparr>gates := gs\<rparr>) =
     (completeActiveDispatchForTask now i db)\<lparr>gates := gs\<rparr>"
  by (simp add: completeActiveDispatchForTask_def completeDispatch_def split: option.split)

lemma createGate_rows:
  assumes "createGate hex now i q os db = Inr (g, db')"
  shows "dispatches db' = dispatches (completeActiveDispatchForTask now i db)"
    and "task_status_of db' i = map_option (\<lambda>_. T_blocked) (getTask db i)"
    and "gates db' = gates db @ [g]" and "g_id g \<notin> g_id ` set (gates db)"
    and "g_task_id g = i" and "g_status g = G_pending"
  using assms
  by (auto simp: createGate_def Let_def getTask_set_status task_status_of_def option.map_comp
      comp_def split: if_splits)

lemma resolveGate_rows:
  assumes "getGate db gid = Some g"
  shows "task_status_of (snd (resolveGate now gid r db)) (g_task_id g) =
      map_option (\<lambda>_. T_ready) (getTask db (g_task_id g))"
    and "dispatches (snd (resolveGate now gid r db)) = dispatches db"
    and "fst (resolveGate now gid r db) =
      Some (g\<lparr>g_status := G_resolved, g_resolution := Some r, g_resolved_at := Some (sql_now now)\<rparr>)"
  using assms
  by (simp_all add: resolveGate_def Let_def task_status_of_def getTask_set_status
      getGate_def set_task_status_frame gate_tbl.lookup_modify option.map_comp comp_def)

lemma terminal_taken_cong: "dispatches db = dispatches db' \<Longrightarrow>
   terminal_taken db a k = terminal_taken db' a k"
  by (simp add: terminal_taken_def)

lemma prior_failures_completeActive [simp]:
  "prior_failures (completeActiveDispatchForTask now i db) k = prior_failures db k"
proof -
  have rows: "map d_failure_count (filter (\<lambda>d. d_task_id d = k) (update_rows P
      (\<lambda>d. d\<lparr>d_status := s, d_completed_at := c\<rparr>) rows)) =
    map d_failure_count (filter (\<lambda>d. d_task_id d = k) rows)" for P s c rows
    by (induction rows) auto
  have "prior_failures (completeDispatch now c db) k = prior_failures db k" for c
    using rows [of "\<lambda>d. d_id d = c" "Some (sql_now now)" D_completed "dispatches db"]
    by (simp add: prior_failures_def completeDispatch_def modify_by_def)
  then show ?thesis by (simp add: completeActiveDispatchForTask_def split: option.split)
qed

lemma prior_failures_cong: "dispatches db = dispatches db' \<Longrightarrow> prior_failures db i = prior_failures db' i"
  by (simp add: prior_failures_def)

text \<open>
  C30. A decision gate on a running task: creating it blocks the task and frees its terminal;
  resolving it makes the task ready, and dispatching it to the same terminal and pane is
  accepted, with the failure count it had: waiting for a decision costs no retry.
\<close>

theorem gate_round_trip:
  assumes inv: "db_inv db" and task: "task_status_of db i = Some s"
    and d: "latest_active_for_task db i = Some d" "d_assignee_handle d = Some a"
    and gate: "createGate h now i q os db = Inr (g, db1)"
    and fresh: "generateId ''ctx'' hex \<notin> d_id ` set (dispatches db)"
  shows "task_status_of db1 i = Some T_blocked \<and> \<not> terminal_taken db1 a (d_assignee_pane_key d)
    \<and> (\<exists>d' db'. createDispatchContext hex now' i a (d_assignee_pane_key d)
          (snd (resolveGate now' (g_id g) r db1)) = Inr (d', db')
        \<and> d_failure_count d' = prior_failures db i)"
proof -
  note rows = createGate_rows [OF gate]
  let ?k = "d_assignee_pane_key d"
  let ?db2 = "snd (resolveGate now' (g_id g) r db1)"
  have "getTask db1 i \<noteq> None" "task_status_of db1 i = Some T_blocked"
    using task rows(2) by (auto simp: task_status_of_def)
  have c: "completeActiveDispatchForTask now i db = completeDispatch now (d_id d) db"
    using d by (simp add: completeActiveDispatchForTask_def)
  have free: "\<not> terminal_taken db1 a ?k"
    using completed_frees [OF inv] latest_active_in [OF d(1)] d(2) rows(1) c
    by (metis terminal_taken_cong)
  have "getGate db1 (g_id g) = Some g"
    unfolding getGate_def rows(3) by (rule gate_tbl.lookup_fresh [OF rows(4)]) simp
  note res = resolveGate_rows [OF this, of now' r, unfolded rows(5)]
  have ready: "task_status_of ?db2 i = Some T_ready"
    using res(1) \<open>getTask db1 i \<noteq> None\<close> by auto
  have "d_id ` set (dispatches ?db2) = d_id ` set (dispatches db)"
    unfolding res(2) rows(1) c by (simp flip: set_map)
  then obtain d' db' where new: "createDispatchContext hex now' i a ?k ?db2 = Inr (d', db')"
    using dispatch_admitted [OF ready] free fresh terminal_taken_cong [OF res(2)] by metis
  have "d_failure_count d' = prior_failures db i"
    using createDispatchContext_rows(4) [OF new] prior_failures_cong [OF res(2)]
      prior_failures_cong [OF rows(1)] by simp
  with new free \<open>task_status_of db1 i = Some T_blocked\<close> show ?thesis by blast
qed

theorem gate_round_trip_witness:
  "\<exists>g db1. createGate (js ''g'') demo_clock (js ''task_a'') (js ''?'') None demo_db = Inr (g, db1)
     \<and> task_status_of db1 (js ''task_a'') = Some T_blocked
     \<and> (\<exists>d' db'. createDispatchContext (js ''d'') demo_clock (js ''task_a'') (js ''t1'') None
          (snd (resolveGate demo_clock (g_id g) (js ''yes'') db1)) = Inr (d', db'))"
proof -
  let ?d = "hd (dispatches demo_db)"
  have "\<exists>g db1. createGate (js ''g'') demo_clock (js ''task_a'') (js ''?'') None demo_db = Inr (g, db1)"
    by (simp add: createGate_def demo_eval)
  then obtain g db1 where
    g: "createGate (js ''g'') demo_clock (js ''task_a'') (js ''?'') None demo_db = Inr (g, db1)" by blast
  have s: "task_status_of demo_db (js ''task_a'') = Some T_dispatched"
    by (simp add: task_status_of_def demo_eval)
  have d: "latest_active_for_task demo_db (js ''task_a'') = Some ?d" "d_assignee_handle ?d = Some (js ''t1'')"
      "d_assignee_pane_key ?d = None"
    by (simp_all add: latest_active_for_task_def last_row_def demo_eval active_status_def)
  have "generateId ''ctx'' (js ''d'') \<notin> d_id ` set (dispatches demo_db)"
    by (simp add: demo_eval)
  from gate_round_trip [OF demo_db_inv s d(1,2) g this] g d(3) show ?thesis by metis
qed

end
