(* ===== verification/Orch_Mail.thy ===== *)
theory Orch_Mail
  imports Orch_Demo
begin

section \<open>Messages: reading in order, once\<close>

text \<open>
  What the message methods of \<open>db.ts\<close> promise a reader: the unread messages of a handle come
  in the order they were sent, a message that is read is not handed out again, and marking
  the messages of one handle leaves those of the others alone.
\<close>

lemma sorted_seq: "seq_inv db \<Longrightarrow> sorted (map m_sequence (filter P (messages db)))"
  unfolding seq_inv_def
  by (metis sorted_filter strict_sorted_imp_sorted)

lemma sort_messages: "seq_inv db \<Longrightarrow> sort_key m_sequence (filter P (messages db)) = filter P (messages db)"
  by (rule sort_key_id_if_sorted) (rule sorted_seq)

lemma unread_eq:
  "seq_inv db \<Longrightarrow> getUnreadMessages db h types =
     filter (\<lambda>m. m_to_handle m = h \<and> m_read m = 0 \<and> type_selected types (m_type m)) (messages db)"
  unfolding getUnreadMessages_def by (rule sort_messages)

lemma sort_undelivered:
  "seq_inv db \<Longrightarrow> getUndeliveredUnreadMessages db h types =
     filter (\<lambda>m. m_delivered_at m = None) (getUnreadMessages db h types)"
  by (simp add: getUndeliveredUnreadMessages_def sort_messages unread_eq conj_ac)

lemma sorted_wrt_filter_map:
  "sorted_wrt (<) (map m_sequence ms) \<Longrightarrow> sorted_wrt (<) (map m_sequence (filter P ms))"
  by (simp add: sorted_wrt_map sorted_wrt_filter)

lemma markAsRead_eq:
  "messages (markAsRead ids db) =
     map (\<lambda>m. if m_id m \<in> set ids then m\<lparr>m_read := 1\<rparr> else m) (messages db)"
  by (simp add: markAsRead_def update_rows_def)

lemma insertMessage_rows:
  assumes "insertMessage hex now msg db = Inr (m, db')"
  shows "messages db' = messages db @ [m]" and "m_sequence m = Suc (msg_seq db)"
    and "m_read m = 0" and "m_to_handle m = nm_to msg" and "m_delivered_at m = None"
    and "m_type m = (case nm_type msg of None \<Rightarrow> MT_status | Some t \<Rightarrow> t)"
    and "m_id m \<notin> m_id ` set (messages db)"
  using assms by (auto simp: insertMessage_def Let_def split: if_splits)

lemma filter_marked:
  assumes ids: "distinct (map m_id rows)"
    and P: "\<And>m n. P m \<Longrightarrow> Q n \<Longrightarrow> m \<noteq> n"
    and sel: "\<And>m. P (f m) \<Longrightarrow> P m"
  shows "filter P (map (\<lambda>m. if m_id m \<in> m_id ` {m \<in> set rows. Q m} then f m else m) rows) =
    filter P rows"
proof -
  have "filter P (map (\<lambda>m. if m_id m \<in> m_id ` {m \<in> set rows. Q m} then f m else m) qs) = filter P qs"
    if "set qs \<subseteq> set rows" for qs
    using that
  proof (induction qs)
    case (Cons q qs)
    have "P q \<Longrightarrow> m_id q \<notin> m_id ` {m \<in> set rows. Q m}"
      using Cons.prems ids P by (fastforce simp: distinct_map inj_on_def)
    with Cons sel show ?case by auto
  qed simp
  then show ?thesis by simp
qed

definition read_inbox :: "jsstr \<Rightarrow> message_type list option \<Rightarrow> odb \<Rightarrow> odb" where
  "read_inbox h types db = markAsRead (map m_id (getUnreadMessages db h types)) db"

text \<open>
  Reading the inbox: a handle's unread messages of the types it asks for come in strictly
  growing sequence; once they are marked as read, nothing of that selection is unread, and
  what any other handle has unread is what it was.
\<close>

theorem inbox_read_once:
  assumes inv: "db_inv db"
  shows "sorted_wrt (<) (map m_sequence (getUnreadMessages db h types))
    \<and> getUnreadMessages (read_inbox h types db) h types = []
    \<and> (h' \<noteq> h \<longrightarrow> getUnreadMessages (read_inbox h types db) h' types' = getUnreadMessages db h' types')"
proof (intro conjI impI)
  let ?db = "read_inbox h types db"
  have seq: "seq_inv db" and ids: "distinct (map m_id (messages db))"
    using inv by (simp_all add: db_inv_def ids_inv_def)
  have seq': "seq_inv ?db" unfolding read_inbox_def by (rule seq.inv_markAsRead [OF seq])
  let ?Q = "\<lambda>m. m_to_handle m = h \<and> m_read m = 0 \<and> type_selected types (m_type m)"
  have rows: "messages ?db = map (\<lambda>m. if m_id m \<in> m_id ` {m \<in> set (messages db). ?Q m}
      then m\<lparr>m_read := 1\<rparr> else m) (messages db)"
    by (simp add: read_inbox_def markAsRead_eq unread_eq [OF seq])
  show "sorted_wrt (<) (map m_sequence (getUnreadMessages db h types))"
    using seq by (simp add: unread_eq seq_inv_def sorted_wrt_filter_map)
  show "getUnreadMessages ?db h types = []"
    unfolding unread_eq [OF seq'] rows by (auto simp: filter_empty_conv)
  show "getUnreadMessages ?db h' types' = getUnreadMessages db h' types'" if "h' \<noteq> h"
    unfolding unread_eq [OF seq'] unread_eq [OF seq] rows
    by (rule filter_marked [OF ids]) (use that in auto)
qed

theorem inbox_read_once_witness:
  "getUnreadMessages (read_inbox (js ''co'') None demo_db)
      (js ''co'') None = []
   \<and> map m_id (getUnreadMessages demo_db (js ''co'') None) = [js ''msg_x'', js ''msg_y'']"
proof
  show "getUnreadMessages (read_inbox (js ''co'') None demo_db)
      (js ''co'') None = []"
    using inbox_read_once [OF demo_db_inv] by blast
  show "map m_id (getUnreadMessages demo_db (js ''co'') None) = [js ''msg_x'', js ''msg_y'']"
    using demo_db_inv by (simp add: unread_eq db_inv_def) (simp add: demo_eval type_selected_def)
qed

text \<open>
  Sending: a message that was stored is the newest one of its recipient, unread and not
  delivered, whatever was deleted before; nobody else's inbox changes.
\<close>

theorem send_appends:
  assumes "db_inv db" and "insertMessage hex now msg db = Inr (m, db')"
  shows "getUnreadMessages db' h None =
      getUnreadMessages db h None @ (if h = nm_to msg then [m] else [])
    \<and> getUndeliveredUnreadMessages db' h None =
      getUndeliveredUnreadMessages db h None @ (if h = nm_to msg then [m] else [])
    \<and> (\<forall>q \<in> set (messages db). m_sequence q < m_sequence m)"
proof (intro conjI)
  have seq: "seq_inv db" using assms(1) by (simp add: db_inv_def)
  have seq': "seq_inv db'" by (rule seq.inv_insertMessage [OF seq assms(2)])
  note rows = insertMessage_rows [OF assms(2)]
  show u: "getUnreadMessages db' h None =
      getUnreadMessages db h None @ (if h = nm_to msg then [m] else [])"
    by (auto simp: unread_eq seq seq' rows type_selected_def)
  show "getUndeliveredUnreadMessages db' h None =
      getUndeliveredUnreadMessages db h None @ (if h = nm_to msg then [m] else [])"
    by (auto simp: sort_undelivered seq seq' u rows(5))
  show "\<forall>q \<in> set (messages db). m_sequence q < m_sequence m"
    using seq rows(2) by (auto simp: seq_inv_def)
qed

theorem send_appends_witness:
  "\<exists>m db'. insertMessage (js ''z'') demo_clock (demo_message MT_status) demo_db = Inr (m, db')
     \<and> getUnreadMessages db' (js ''co'') None = getUnreadMessages demo_db (js ''co'') None @ [m]"
proof -
  have "\<exists>m db'. insertMessage (js ''z'') demo_clock (demo_message MT_status) demo_db = Inr (m, db')"
    by (simp add: demo_eval)
  then obtain m db' where
    *: "insertMessage (js ''z'') demo_clock (demo_message MT_status) demo_db = Inr (m, db')" by blast
  have "nm_to (demo_message MT_status) = js ''co''" by (simp add: demo_message_def)
  with send_appends [OF demo_db_inv *, of "js ''co''"] * show ?thesis by auto
qed

end
