(* ===== verification/Orch_Steps.thy ===== *)
theory Orch_Steps
  imports Orch_Gates Orch_Mail
begin

section \<open>Runs of the orchestration database\<close>

text \<open>
  \<open>orch_step\<close> is one call of a public method of \<open>OrchestrationDb\<close> that writes, \<open>orch_steps\<close> any
  number of them, in any order and by any caller. The operations of the clients are shown to
  be such runs in their theories, so every invariant of \<open>Orch_Inv\<close> holds of every state the
  program reaches (\<open>reachable\<close>).
\<close>

inductive orch_step :: "odb \<Rightarrow> odb \<Rightarrow> bool" where
  step_insertMessage: "insertMessage h now m db = Inr (r, db') \<Longrightarrow> orch_step db db'"
| step_markAsRead: "orch_step db (markAsRead ids db)"
| step_markAsDelivered: "orch_step db (markAsDelivered now ids db)"
| step_markAsReadAndDelivered: "orch_step db (markAsReadAndDelivered now ids db)"
| step_createTask: "createTask h now nt db = Inr (t, db') \<Longrightarrow> orch_step db db'"
| step_updateTaskStatus: "orch_step db (snd (updateTaskStatus now i s res db))"
| step_createDispatchContext:
    "createDispatchContext h now i a k db = Inr (d, db') \<Longrightarrow> orch_step db db'"
| step_completeDispatch: "orch_step db (completeDispatch now c db)"
| step_completeActive: "orch_step db (completeActiveDispatchForTask now i db)"
| step_failDispatch: "orch_step db (snd (failDispatch c e db))"
| step_failActive: "orch_step db (snd (failActiveDispatchForTask i e db))"
| step_recordHeartbeat: "orch_step db (recordHeartbeat c at db)"
| step_createGate: "createGate h now i q os db = Inr (g, db') \<Longrightarrow> orch_step db db'"
| step_resolveGate: "orch_step db (snd (resolveGate now gid r db))"
| step_timeoutGate: "orch_step db (snd (timeoutGate now gid db))"
| step_createCoordinatorRun:
    "createCoordinatorRun h now sp ch p db = Inr (run, db') \<Longrightarrow> orch_step db db'"
| step_updateCoordinatorRun: "orch_step db (snd (updateCoordinatorRun now i cs db))"
| step_resetAll: "orch_step db (resetAll db)"
| step_resetTasks: "orch_step db (resetTasks db)"
| step_resetMessages: "orch_step db (resetMessages db)"

abbreviation orch_steps :: "odb \<Rightarrow> odb \<Rightarrow> bool" where
  "orch_steps \<equiv> orch_step\<^sup>*\<^sup>*"

definition reachable :: "odb \<Rightarrow> bool" where
  "reachable db = orch_steps empty_db db"

text \<open>A property under the contract holds along every run.\<close>

context orch_invariant
begin

lemma inv_step: "orch_step db db' \<Longrightarrow> I db \<Longrightarrow> I db'"
  by (induction rule: orch_step.induct)
    (auto intro: inv_insertMessage inv_markAsRead inv_markAsDelivered inv_markAsReadAndDelivered
      inv_createTask inv_updateTaskStatus inv_createDispatchContext inv_completeDispatch
      inv_completeActive inv_failDispatch inv_failActive inv_recordHeartbeat inv_createGate
      inv_resolveGate inv_timeoutGate inv_createCoordinatorRun inv_updateCoordinatorRun
      inv_resetAll inv_resetTasks inv_resetMessages)

lemma inv_steps: "orch_steps db db' \<Longrightarrow> I db \<Longrightarrow> I db'"
  by (induction rule: rtranclp_induct) (auto intro: inv_step)

end

lemma reachable_inv: "reachable db \<Longrightarrow> db_inv db"
  unfolding reachable_def by (rule db.inv_steps [OF _ db_inv_empty])

lemma steps_one: "orch_step db db' \<Longrightarrow> orch_steps db db'"
  by (rule r_into_rtranclp)

lemmas method_steps = step_insertMessage [THEN steps_one] step_markAsRead [THEN steps_one]
  step_markAsDelivered [THEN steps_one] step_markAsReadAndDelivered [THEN steps_one]
  step_createTask [THEN steps_one] step_updateTaskStatus [THEN steps_one]
  step_createDispatchContext [THEN steps_one] step_completeDispatch [THEN steps_one]
  step_completeActive [THEN steps_one] step_failDispatch [THEN steps_one]
  step_failActive [THEN steps_one] step_recordHeartbeat [THEN steps_one]
  step_createGate [THEN steps_one] step_resolveGate [THEN steps_one]
  step_timeoutGate [THEN steps_one] step_createCoordinatorRun [THEN steps_one]
  step_updateCoordinatorRun [THEN steps_one] step_resetAll [THEN steps_one]
  step_resetTasks [THEN steps_one] step_resetMessages [THEN steps_one]

lemma steps_db_of: "(\<And>x db'. r = Inr (x, db') \<Longrightarrow> orch_steps db db') \<Longrightarrow>
   orch_steps empty_db db \<Longrightarrow> reachable (db_of r)"
  by (auto simp: db_of_def reachable_def split: sum.split dest: rtranclp_trans)

lemma demo_tasks_reachable: "reachable demo_tasks"
  unfolding demo_tasks_def
  by (rule steps_db_of, erule method_steps, fold reachable_def, rule steps_db_of,
      erule method_steps) simp

lemma demo_dispatched_reachable: "reachable demo_dispatched"
  unfolding demo_dispatched_def
  by (rule steps_db_of, erule method_steps, fold reachable_def) (rule demo_tasks_reachable)

lemma demo_db_reachable: "reachable demo_db"
  unfolding demo_db_def
  by (rule steps_db_of, erule method_steps, fold reachable_def, rule steps_db_of,
      erule method_steps, fold reachable_def) (rule demo_dispatched_reachable)

text \<open>
  C1. The dispatch lock, in every state the program reaches: two active dispatch contexts
  that name the same terminal handle, or panes that are the same pane, are the same context.
\<close>

theorem dispatch_lock:
  assumes "reachable db" and "a \<in> set (dispatches db)" and "b \<in> set (dispatches db)"
    and "active_status (d_status a)" and "active_status (d_status b)"
    and "d_assignee_handle a = d_assignee_handle b
       \<or> same_pane (d_assignee_pane_key a) (d_assignee_pane_key b)"
  shows "a = b"
proof -
  have lock: "lock_inv db" using reachable_inv [OF assms(1)] by (simp add: db_inv_def)
  from assms(6) show ?thesis
  proof
    assume "d_assignee_handle a = d_assignee_handle b"
    then show ?thesis by (rule lock_inv_unique [OF lock assms(2-5)])
  next
    assume "same_pane (d_assignee_pane_key a) (d_assignee_pane_key b)"
    then show ?thesis
      using lock_inv_panes [OF lock assms(2-5)] by (auto simp: same_pane_def split: option.splits)
  qed
qed

theorem dispatch_lock_witness:
  "{b \<in> set (dispatches demo_db). active_status (d_status b)
      \<and> d_assignee_handle b = Some (js ''t1'')} = {hd (dispatches demo_db)}"
proof -
  have hd: "hd (dispatches demo_db) \<in> set (dispatches demo_db)"
      "active_status (d_status (hd (dispatches demo_db)))"
      "d_assignee_handle (hd (dispatches demo_db)) = Some (js ''t1'')"
    by (simp_all add: demo_eval active_status_def)
  have "b = hd (dispatches demo_db)" if "b \<in> set (dispatches demo_db)" "active_status (d_status b)"
      "d_assignee_handle b = Some (js ''t1'')" for b
    by (rule dispatch_lock [OF demo_db_reachable that(1) hd(1) that(2) hd(2)]) (simp add: that(3) hd(3))
  with hd show ?thesis by blast
qed

text \<open>
  C21. What every reachable state keeps: the ids of each table are unique, message sequence
  numbers grow along the table, a context is broken exactly from its third failure on and a
  failed one has one or two, and each dispatch context belongs to a task that exists.
\<close>

theorem reachable_integrity:
  assumes "reachable db"
  shows "distinct (map t_id (tasks db)) \<and> distinct (map d_id (dispatches db))
    \<and> distinct (map m_id (messages db)) \<and> distinct (map g_id (gates db))
    \<and> sorted_wrt (<) (map m_sequence (messages db))
    \<and> list_all (\<lambda>d. (d_status d = D_circuit_broken \<longrightarrow> 3 \<le> d_failure_count d)
         \<and> (d_status d = D_failed \<longrightarrow> d_failure_count d \<in> {1, 2})
         \<and> d_status d \<noteq> D_pending \<and> getTask db (d_task_id d) \<noteq> None) (dispatches db)"
proof -
  have inv: "db_inv db" using assms by (rule reachable_inv)
  have "(d_status d = D_circuit_broken \<longrightarrow> 3 \<le> d_failure_count d)
         \<and> (d_status d = D_failed \<longrightarrow> d_failure_count d \<in> {1, 2})
         \<and> d_status d \<noteq> D_pending \<and> getTask db (d_task_id d) \<noteq> None"
    if d: "d \<in> set (dispatches db)" for d
  proof -
    have row: "breaker_row d" and ref: "d_task_id d \<in> t_id ` set (tasks db)"
      using inv d by (auto simp: db_inv_def breaker_inv_def refs_inv_def list_all_iff)
    from ref have "getTask db (d_task_id d) \<noteq> None"
      using task_tbl.lookup_None [of "d_task_id d" "tasks db"] by (simp add: getTask_def)
    moreover from row have "(d_status d = D_circuit_broken \<longrightarrow> 3 \<le> d_failure_count d)
         \<and> (d_status d = D_failed \<longrightarrow> d_failure_count d \<in> {1, 2}) \<and> d_status d \<noteq> D_pending"
      unfolding breaker_row_def by (cases "d_status d") auto
    ultimately show ?thesis by blast
  qed
  with inv show ?thesis by (simp add: db_inv_def ids_inv_def seq_inv_def list_all_iff)
qed

theorem reachable_integrity_witness:
  "distinct (map d_id (dispatches demo_db)) \<and> sorted_wrt (<) (map m_sequence (messages demo_db))"
  using reachable_integrity [OF demo_db_reachable] by blast

end
