(* ===== verification/Lifecycle.thy ===== *)
theory Lifecycle
  imports Orch_Steps
begin

section \<open>Lifecycle reconciliation\<close>

text \<open>
  \<open>src/src/main/runtime/orchestration/lifecycle-reconciliation.ts\<close>: what a \<open>worker_done\<close> or
  a \<open>heartbeat\<close> message does to the database, and when it is refused. A reconciliation returns
  its action (or the exception that a method of the database throws), the lines it logs, in
  order, and the new state.
\<close>

subsection \<open>The payload\<close>

definition nonempty_payload :: "message_row \<Rightarrow> bool" where
  "nonempty_payload msg = truthy (m_payload msg)"

text \<open>The members of the payload object, and whether \<open>onInvalidJson\<close> was called. A JSON array
  is an object too; it has none of the properties the callers read.\<close>

definition parseObjectPayload :: "message_row \<Rightarrow> (jsstr \<times> json) list \<times> bool" where
  "parseObjectPayload msg =
     (case m_payload msg of
        None \<Rightarrow> ([], False)
      | Some text \<Rightarrow>
          if text = [] then ([], False)
          else (case json_parse text of
                  None \<Rightarrow> ([], True)
                | Some (JObj members) \<Rightarrow> (members, False)
                | Some _ \<Rightarrow> ([], False)))"

text \<open>A property that is a string with at least one unit.\<close>

definition string_prop :: "jsstr \<Rightarrow> (jsstr \<times> json) list \<Rightarrow> jsstr option" where
  "string_prop k payload = (case jget k payload of
     Some (JStr s) \<Rightarrow> if s = [] then None else Some s
   | _ \<Rightarrow> None)"

text \<open>The \<open>filesModified\<close> of a completion: an array of strings, or the empty array.\<close>

definition files_modified :: "(jsstr \<times> json) list \<Rightarrow> jsstr list" where
  "files_modified payload = (case jget (js ''filesModified'') payload of
     Some (JArr vs) \<Rightarrow> (case strings_of vs of Some fs \<Rightarrow> fs | None \<Rightarrow> [])
   | _ \<Rightarrow> [])"

datatype lifecycle_result =
    Ignored
  | Suppressed
  | Completed jsstr jsstr           \<comment> \<open>task, dispatch\<close>
  | Heartbeat_recorded jsstr

type_synonym 'a effect = "(exn + 'a) \<times> jsstr list \<times> odb"

text \<open>\<open>dispatch.assignee_pane_key && msg.sender_pane_key && isForeignPane(..)\<close>\<close>

definition foreign_sender :: "dispatch_row \<Rightarrow> message_row \<Rightarrow> bool" where
  "foreign_sender d msg = (case (d_assignee_pane_key d, m_sender_pane_key msg) of
     (Some a, Some s) \<Rightarrow> a \<noteq> [] \<and> s \<noteq> [] \<and> isForeignPane a s
   | _ \<Rightarrow> False)"

definition text_or :: "jsstr \<Rightarrow> jsstr option \<Rightarrow> jsstr" where
  "text_or dflt v = (case v of None \<Rightarrow> dflt | Some s \<Rightarrow> s)"

subsection \<open>Heartbeats\<close>

definition reconcileHeartbeatMessage ::
  "clock \<Rightarrow> message_row \<Rightarrow> odb \<Rightarrow> lifecycle_result effect" where
  "reconcileHeartbeatMessage now msg db =
     (if \<not> nonempty_payload msg
      then (Inr Ignored,
            [js ''Heartbeat from '' @ m_from_handle msg @ js '' missing payload; ignored''], db)
      else
        (let (payload, invalid) = parseObjectPayload msg;
             l0 = (if invalid then [js ''Heartbeat from '' @ m_from_handle msg
                                    @ js '' has invalid JSON payload; ignored''] else [])
         in case string_prop (js ''dispatchId'') payload of
              None \<Rightarrow> (Inr Ignored, l0 @ [js ''Heartbeat from '' @ m_from_handle msg
                         @ js '' missing dispatchId; ignored''], db)
            | Some dispatchId \<Rightarrow>
                (case getDispatchContextById db dispatchId of
                   None \<Rightarrow>
                     (Inr Suppressed, l0 @ [js ''Heartbeat for inactive dispatch '' @ dispatchId
                        @ js '' suppressed''], markAsReadAndDelivered now [m_id msg] db)
                 | Some dispatch \<Rightarrow>
                     if d_status dispatch \<noteq> D_dispatched
                     then (Inr Suppressed, l0 @ [js ''Heartbeat for inactive dispatch ''
                             @ dispatchId @ js '' suppressed''],
                           markAsReadAndDelivered now [m_id msg] db)
                     else if foreign_sender dispatch msg
                     then (Inr Ignored, l0 @ [js ''Heartbeat for dispatch '' @ dispatchId
                             @ js '' came from pane '' @ text_or [] (m_sender_pane_key msg)
                             @ js '', expected pane '' @ text_or [] (d_assignee_pane_key dispatch)
                             @ js ''; ignored''], db)
                     else (Inr (Heartbeat_recorded dispatchId), l0,
                           recordHeartbeat dispatchId (m_created_at msg) db))))"

subsection \<open>Completions\<close>

text \<open>Heartbeats of the dispatch that were sent to the same handle before the completion.\<close>

definition earlier_heartbeats :: "message_row \<Rightarrow> jsstr \<Rightarrow> odb \<Rightarrow> message_row list" where
  "earlier_heartbeats workerDone dispatchId db =
     filter (\<lambda>m. m_sequence m < m_sequence workerDone
               \<and> jget (js ''dispatchId'') (fst (parseObjectPayload m)) = Some (JStr dispatchId))
       (getUnreadMessages db (m_to_handle workerDone) (Some [MT_heartbeat]))"

definition suppressEarlierHeartbeats ::
  "clock \<Rightarrow> message_row \<Rightarrow> jsstr \<Rightarrow> odb \<Rightarrow> odb" where
  "suppressEarlierHeartbeats now workerDone dispatchId db =
     markAsReadAndDelivered now (map m_id (earlier_heartbeats workerDone dispatchId db)) db"

definition completion_result :: "clock \<Rightarrow> jsstr \<Rightarrow> jsstr list \<Rightarrow> jsstr" where
  "completion_result now from_handle files =
     json_stringify (JObj [(js ''completedBy'', JStr from_handle),
                           (js ''filesModified'', json_strings files),
                           (js ''completedAt'', JStr (iso_now now))])"

text \<open>The update of a completion that was accepted.\<close>

definition accept_worker_done ::
  "clock \<Rightarrow> message_row \<Rightarrow> (jsstr \<times> json) list \<Rightarrow> jsstr \<Rightarrow> jsstr \<Rightarrow> odb
    \<Rightarrow> lifecycle_result effect" where
  "accept_worker_done now msg payload taskId dispatchId db =
     (case updateTaskStatus now taskId T_completed
             (Some (completion_result now (m_from_handle msg) (files_modified payload))) db of
        (Inl e, db') \<Rightarrow> (Inl e, [], db')
      | (Inr _, db') \<Rightarrow>
          (Inr (Completed taskId dispatchId), [js ''Task '' @ taskId @ js '' completed''],
           suppressEarlierHeartbeats now msg dispatchId db'))"

text \<open>The checks on the two rows a completion names, in the order of the code.\<close>

definition judge_worker_done ::
  "clock \<Rightarrow> message_row \<Rightarrow> (jsstr \<times> json) list \<Rightarrow> task_row \<Rightarrow> dispatch_row \<Rightarrow> jsstr \<Rightarrow> jsstr
    \<Rightarrow> odb \<Rightarrow> lifecycle_result effect" where
  "judge_worker_done now msg payload task dispatch taskId dispatchId db =
     (if d_status dispatch = D_completed \<and> t_status task = T_completed
      then (Inr (Completed taskId dispatchId), [], db)
      else if d_status dispatch \<noteq> D_dispatched
      then (Inr Ignored, [js ''Warning: worker_done for inactive dispatch '' @ dispatchId
              @ js '' ignored''], db)
      else if map_option d_id (getDispatchContext db taskId) \<noteq> Some dispatchId
              \<or> t_status task \<noteq> T_dispatched
      then (Inr Ignored, [js ''Warning: worker_done for stale dispatch '' @ dispatchId
              @ js '' ignored''], db)
      else accept_worker_done now msg payload taskId dispatchId db)"

definition add_logs :: "jsstr list \<Rightarrow> 'a effect \<Rightarrow> 'a effect" where
  "add_logs ls r = (case r of (v, logs, db) \<Rightarrow> (v, ls @ logs, db))"

definition reconcileWorkerDoneMessage ::
  "clock \<Rightarrow> message_row \<Rightarrow> odb \<Rightarrow> lifecycle_result effect" where
  "reconcileWorkerDoneMessage now msg db =
     (let (payload, invalid) = parseObjectPayload msg;
          l0 = [js ''Worker done: '' @ m_from_handle msg @ [32, 8212, 32] @ m_subject msg]
               @ (if invalid then [js ''Warning: invalid payload in worker_done from ''
                                   @ m_from_handle msg] else [])
      in add_logs l0
        (case string_prop (js ''taskId'') payload of
           None \<Rightarrow> (Inr Ignored, [js ''Warning: worker_done without taskId from ''
                      @ m_from_handle msg], db)
         | Some taskId \<Rightarrow>
             (case string_prop (js ''dispatchId'') payload of
                None \<Rightarrow> (Inr Ignored, [js ''Warning: worker_done without dispatchId from ''
                           @ m_from_handle msg], db)
              | Some dispatchId \<Rightarrow>
                  (case getTask db taskId of
                     None \<Rightarrow> (Inr Ignored, [js ''Warning: worker_done for unknown task ''
                                @ taskId], db)
                   | Some task \<Rightarrow>
                       (case getDispatchContextById db dispatchId of
                          None \<Rightarrow> (Inr Ignored, [js ''Warning: worker_done for unknown dispatch ''
                                     @ dispatchId], db)
                        | Some dispatch \<Rightarrow>
                            if d_task_id dispatch \<noteq> taskId
                            then (Inr Ignored, [js ''Warning: worker_done dispatch '' @ dispatchId
                                    @ js '' belongs to '' @ d_task_id dispatch @ js '', not ''
                                    @ taskId], db)
                            else if d_assignee_handle dispatch \<noteq> Some (m_from_handle msg)
                            then
                              (if foreign_sender dispatch msg
                               then (Inr Ignored, [js ''Warning: worker_done for dispatch ''
                                       @ dispatchId @ js '' came from pane ''
                                       @ text_or [] (m_sender_pane_key msg) @ js '', expected pane ''
                                       @ text_or [] (d_assignee_pane_key dispatch)
                                       @ js ''; ignored''], db)
                               else add_logs [js ''Warning: worker_done for dispatch '' @ dispatchId
                                       @ js '' came from '' @ m_from_handle msg @ js '', expected ''
                                       @ text_or (js ''<unknown>'') (d_assignee_handle dispatch)
                                       @ js ''; accepting payload provenance'']
                                      (judge_worker_done now msg payload task dispatch taskId
                                         dispatchId db))
                            else judge_worker_done now msg payload task dispatch taskId
                                   dispatchId db)))))"

definition reconcileLifecycleMessage ::
  "clock \<Rightarrow> message_row \<Rightarrow> odb \<Rightarrow> lifecycle_result effect" where
  "reconcileLifecycleMessage now msg db =
     (case m_type msg of
        MT_worker_done \<Rightarrow> reconcileWorkerDoneMessage now msg db
      | MT_heartbeat \<Rightarrow> reconcileHeartbeatMessage now msg db
      | _ \<Rightarrow> (Inr Ignored, [], db))"

subsection \<open>What a completion needs, and what it does\<close>

text \<open>The whole condition under which a completion of dispatch \<open>c\<close> of task \<open>i\<close> is accepted.\<close>

definition completion_accepted :: "message_row \<Rightarrow> jsstr \<Rightarrow> jsstr \<Rightarrow> odb \<Rightarrow> bool" where
  "completion_accepted msg i c db =
     (string_prop (js ''taskId'') (fst (parseObjectPayload msg)) = Some i
      \<and> string_prop (js ''dispatchId'') (fst (parseObjectPayload msg)) = Some c
      \<and> task_status_of db i = Some T_dispatched
      \<and> (case getDispatchContextById db c of
           None \<Rightarrow> False
         | Some d \<Rightarrow> d_status d = D_dispatched \<and> d_task_id d = i
             \<and> map_option d_id (getDispatchContext db i) = Some c
             \<and> (d_assignee_handle d = Some (m_from_handle msg) \<or> \<not> foreign_sender d msg)))"

text \<open>The database after it.\<close>

definition accepted_db :: "clock \<Rightarrow> message_row \<Rightarrow> jsstr \<Rightarrow> jsstr \<Rightarrow> odb \<Rightarrow> odb" where
  "accepted_db now msg i c db =
     suppressEarlierHeartbeats now msg c
       (after_completion now i (Some (completion_result now (m_from_handle msg)
          (files_modified (fst (parseObjectPayload msg))))) db)"

lemma suppress_frame [simp]:
  "tasks (suppressEarlierHeartbeats now m c db) = tasks db"
  "dispatches (suppressEarlierHeartbeats now m c db) = dispatches db"
  "gates (suppressEarlierHeartbeats now m c db) = gates db"
  "runs (suppressEarlierHeartbeats now m c db) = runs db"
  by (simp_all add: suppressEarlierHeartbeats_def)

lemma add_logs_simps [simp]:
  "fst (add_logs ls r) = fst r" "snd (snd (add_logs ls r)) = snd (snd r)"
  by (simp_all add: add_logs_def split: prod.split)

lemma accept_worker_done_eq:
  assumes "db_inv db"
  shows "accept_worker_done now msg (fst (parseObjectPayload msg)) i c db =
    (Inr (Completed i c), [js ''Task '' @ i @ js '' completed''], accepted_db now msg i c db)"
  by (simp add: accept_worker_done_def completion [OF assms] accepted_db_def)

lemma judge_result:
  assumes inv: "db_inv db" and t: "getTask db i = Some t"
    and d: "getDispatchContextById db c = Some d" "d_task_id d = i"
    and who: "d_assignee_handle d = Some (m_from_handle msg) \<or> \<not> foreign_sender d msg"
    and ids: "string_prop (js ''taskId'') (fst (parseObjectPayload msg)) = Some i"
      "string_prop (js ''dispatchId'') (fst (parseObjectPayload msg)) = Some c"
  shows "(fst (judge_worker_done now msg (fst (parseObjectPayload msg)) t d i c db),
          snd (snd (judge_worker_done now msg (fst (parseObjectPayload msg)) t d i c db))) =
    (if completion_accepted msg i c db then (Inr (Completed i c), accepted_db now msg i c db)
     else (Inr (if d_status d = D_completed \<and> t_status t = T_completed then Completed i c
                else Ignored), db))"
  using assms
  by (auto simp: judge_worker_done_def completion_accepted_def accept_worker_done_eq [OF inv]
      task_status_of_def)

text \<open>The rows a completion names, when they exist, belong together and its sender may speak
  for them.\<close>

definition completion_rows ::
  "message_row \<Rightarrow> jsstr \<Rightarrow> jsstr \<Rightarrow> task_row \<Rightarrow> dispatch_row \<Rightarrow> odb \<Rightarrow> bool" where
  "completion_rows msg i c t d db =
     (string_prop (js ''taskId'') (fst (parseObjectPayload msg)) = Some i
      \<and> string_prop (js ''dispatchId'') (fst (parseObjectPayload msg)) = Some c
      \<and> getTask db i = Some t \<and> getDispatchContextById db c = Some d \<and> d_task_id d = i
      \<and> (d_assignee_handle d = Some (m_from_handle msg) \<or> \<not> foreign_sender d msg))"

lemma accepted_rows:
  "completion_accepted msg i c db \<Longrightarrow> \<exists>t d. completion_rows msg i c t d db"
  by (auto simp: completion_accepted_def completion_rows_def task_status_of_def split: option.splits)

lemma completion_rows_unique:
  "completion_rows msg i c t d db \<Longrightarrow> completion_rows msg i' c' t' d' db \<Longrightarrow> i' = i \<and> c' = c"
  by (simp add: completion_rows_def)

lemma worker_done_judged:
  assumes "completion_rows msg i c t d db"
  shows "fst (reconcileWorkerDoneMessage now msg db) =
      fst (judge_worker_done now msg (fst (parseObjectPayload msg)) t d i c db)"
    and "snd (snd (reconcileWorkerDoneMessage now msg db)) =
      snd (snd (judge_worker_done now msg (fst (parseObjectPayload msg)) t d i c db))"
  using assms
  by (auto simp: reconcileWorkerDoneMessage_def completion_rows_def simp del: js.simps
      split: prod.split)

lemma worker_done_refused:
  assumes "\<nexists>i c t d. completion_rows msg i c t d db"
  shows "fst (reconcileWorkerDoneMessage now msg db) = Inr Ignored
    \<and> snd (snd (reconcileWorkerDoneMessage now msg db)) = db"
  using assms
  by (cases "parseObjectPayload msg")
    (auto simp: reconcileWorkerDoneMessage_def completion_rows_def simp del: js.simps
      split: option.split)

text \<open>The outcome of a completion message, the lines it logs left aside.\<close>

lemma worker_done_accepted:
  assumes "db_inv db" and acc: "completion_accepted msg i c db"
  shows "fst (reconcileWorkerDoneMessage now msg db) = Inr (Completed i c)"
    and "snd (snd (reconcileWorkerDoneMessage now msg db)) = accepted_db now msg i c db"
proof -
  obtain t d where r: "completion_rows msg i c t d db" using accepted_rows [OF acc] by blast
  then have "(fst (reconcileWorkerDoneMessage now msg db),
      snd (snd (reconcileWorkerDoneMessage now msg db))) =
      (Inr (Completed i c), accepted_db now msg i c db)"
    unfolding worker_done_judged [OF r] using acc
    by (subst judge_result [OF assms(1)]) (simp_all add: completion_rows_def)
  then show "fst (reconcileWorkerDoneMessage now msg db) = Inr (Completed i c)"
    and "snd (snd (reconcileWorkerDoneMessage now msg db)) = accepted_db now msg i c db"
    by simp_all
qed

lemma worker_done_not_accepted:
  assumes inv: "db_inv db" and no: "\<And>i c. \<not> completion_accepted msg i c db"
  shows "snd (snd (reconcileWorkerDoneMessage now msg db)) = db
     \<and> (fst (reconcileWorkerDoneMessage now msg db) = Inr Ignored
        \<or> (\<exists>i c. fst (reconcileWorkerDoneMessage now msg db) = Inr (Completed i c)
              \<and> task_status_of db i = Some T_completed))"
proof (cases "\<exists>i c t d. completion_rows msg i c t d db")
  case False
  then show ?thesis using worker_done_refused by blast
next
  case True
  then obtain i c t d where r: "completion_rows msg i c t d db" by blast
  then have "(fst (reconcileWorkerDoneMessage now msg db),
      snd (snd (reconcileWorkerDoneMessage now msg db))) =
      (Inr (if d_status d = D_completed \<and> t_status t = T_completed then Completed i c
            else Ignored), db)"
    unfolding worker_done_judged [OF r] using no
    by (subst judge_result [OF inv]) (simp_all add: completion_rows_def)
  moreover have "task_status_of db i = Some (t_status t)"
    using r by (simp add: completion_rows_def task_status_of_def)
  ultimately show ?thesis by (auto split: if_splits)
qed

lemma heartbeat_db:
  "snd (snd (reconcileHeartbeatMessage now msg db)) = db
   \<or> snd (snd (reconcileHeartbeatMessage now msg db)) = markAsReadAndDelivered now [m_id msg] db
   \<or> (\<exists>c. snd (snd (reconcileHeartbeatMessage now msg db)) = recordHeartbeat c (m_created_at msg) db)"
  by (simp add: reconcileHeartbeatMessage_def del: js.simps split: prod.split option.split) blast

lemma updateTaskStatus_steps: "updateTaskStatus now i s res db = (r, db') \<Longrightarrow> orch_steps db db'"
  using method_steps(6) [of db now i s res] by simp

lemma suppress_steps: "orch_steps db (suppressEarlierHeartbeats now m c db)"
  unfolding suppressEarlierHeartbeats_def by (rule method_steps)

lemma accept_steps: "orch_steps db (snd (snd (accept_worker_done now msg p i c db)))"
  by (auto simp: accept_worker_done_def split: prod.split sum.split
      intro: updateTaskStatus_steps rtranclp_trans [OF updateTaskStatus_steps suppress_steps])

lemma judge_steps: "orch_steps db (snd (snd (judge_worker_done now msg p t d i c db)))"
  by (simp add: judge_worker_done_def accept_steps)

lemma worker_done_steps: "orch_steps db (snd (snd (reconcileWorkerDoneMessage now msg db)))"
proof (cases "\<exists>i c t d. completion_rows msg i c t d db")
  case True
  then show ?thesis using worker_done_judged(2) judge_steps by metis
next
  case False
  then show ?thesis using worker_done_refused by (metis rtranclp.rtrancl_refl)
qed

lemma heartbeat_steps: "orch_steps db (snd (snd (reconcileHeartbeatMessage now msg db)))"
  using heartbeat_db [of now msg db] method_steps(4) [of db now "[m_id msg]"]
    method_steps(12) [of db _ "m_created_at msg"] by (metis rtranclp.rtrancl_refl)

lemma lifecycle_steps: "orch_steps db (snd (snd (reconcileLifecycleMessage now msg db)))"
  by (simp add: reconcileLifecycleMessage_def worker_done_steps heartbeat_steps
      split: message_type.split)

text \<open>
  C2. Completion authority: a \<open>worker_done\<close> message either satisfies \<open>completion_accepted\<close>
  for the task and dispatch it names (they exist and belong together, both are running, the
  dispatch is the newest of the task, and the sender has its handle or is not a foreign
  pane), and then the task is completed; or the database is left as it was, and the message
  is ignored or repeats a completion that already happened. Nothing is thrown.
\<close>

theorem completion_authority:
  assumes "db_inv db" and "m_type msg = MT_worker_done"
    and "reconcileLifecycleMessage now msg db = (r, logs, db')"
  shows "(\<exists>i c. completion_accepted msg i c db \<and> r = Inr (Completed i c)
        \<and> db' = accepted_db now msg i c db)
    \<or> ((\<forall>i c. \<not> completion_accepted msg i c db) \<and> db' = db
        \<and> (r = Inr Ignored \<or> (\<exists>i c. r = Inr (Completed i c)
              \<and> task_status_of db i = Some T_completed)))"
proof -
  have R: "r = fst (reconcileWorkerDoneMessage now msg db)"
      "db' = snd (snd (reconcileWorkerDoneMessage now msg db))"
    using assms(2,3) by (simp_all add: reconcileLifecycleMessage_def)
  show ?thesis
  proof (cases "\<exists>i c. completion_accepted msg i c db")
    case True
    then show ?thesis unfolding R using worker_done_accepted [OF assms(1)] by blast
  next
    case False
    then show ?thesis unfolding R using worker_done_not_accepted [OF assms(1)] by blast
  qed
qed

definition demo_done :: message_row where
  "demo_done = last (messages demo_db)"

lemma demo_payload_parse: "json_parse demo_payload = Some (JObj
   [(js ''taskId'', JStr (js ''task_a'')), (js ''dispatchId'', JStr (js ''ctx_c''))])"
  unfolding demo_payload_def by (rule json_parse_stringify) simp

lemma demo_done_payload:
  "m_payload demo_done = Some demo_payload" "m_type demo_done = MT_worker_done"
  "m_from_handle demo_done = js ''t1''" "demo_payload \<noteq> []"
  by (simp_all add: demo_done_def demo_eval) (simp add: demo_payload_def)

lemma demo_accepted: "completion_accepted demo_done (js ''task_a'') (js ''ctx_c'') demo_db"
proof -
  have "string_prop (js ''taskId'') (fst (parseObjectPayload demo_done)) = Some (js ''task_a'')"
    "string_prop (js ''dispatchId'') (fst (parseObjectPayload demo_done)) = Some (js ''ctx_c'')"
    by (simp_all add: parseObjectPayload_def demo_done_payload demo_payload_parse string_prop_def
        jget_def del: js.simps)
  moreover have "task_status_of demo_db (js ''task_a'') = Some T_dispatched"
    by (simp add: task_status_of_def demo_eval)
  moreover have "getDispatchContextById demo_db (js ''ctx_c'') = Some (hd (dispatches demo_db))"
      "d_status (hd (dispatches demo_db)) = D_dispatched"
      "d_task_id (hd (dispatches demo_db)) = js ''task_a''"
      "d_assignee_handle (hd (dispatches demo_db)) = Some (js ''t1'')"
      "map_option d_id (getDispatchContext demo_db (js ''task_a'')) = Some (js ''ctx_c'')"
    by (simp_all add: getDispatchContextById_def getDispatchContext_def last_row_def demo_eval)
  ultimately show ?thesis
    by (simp add: completion_accepted_def demo_done_payload(3) del: js.simps)
qed

theorem completion_authority_witness:
  "fst (reconcileLifecycleMessage demo_clock demo_done demo_db) =
     Inr (Completed (js ''task_a'') (js ''ctx_c''))"
proof -
  obtain r logs db' where R: "reconcileLifecycleMessage demo_clock demo_done demo_db = (r, logs, db')"
    by (metis prod_cases3)
  from completion_authority [OF demo_db_inv demo_done_payload(2) R] demo_accepted
  obtain i c where "completion_accepted demo_done i c demo_db" "r = Inr (Completed i c)" by blast
  with demo_accepted R show ?thesis by (simp add: completion_accepted_def del: js.simps)
qed

subsection \<open>Delivering a completion again\<close>

lemma last_row_stronger:
  "last_row P rows = Some e \<Longrightarrow> Q e \<Longrightarrow> (\<And>x. Q x \<Longrightarrow> P x) \<Longrightarrow> last_row Q rows = Some e"
  by (induction rows rule: rev_induct) (auto simp: last_row_append_one last_row_def split: if_splits)

lemma accepted_dispatch:
  assumes inv: "db_inv db" and acc: "completion_accepted msg i c db"
    and d: "getDispatchContextById db c = Some d"
  shows "latest_active_for_task db i = Some d" and "d_id d = c"
proof -
  have d_in: "d \<in> set (dispatches db)" and c: "d_id d = c"
    using dispatch_tbl.lookup_Some [OF d [unfolded getDispatchContextById_def]] by auto
  obtain e where e: "getDispatchContext db i = Some e" "d_id e = c"
    and d': "d_status d = D_dispatched" "d_task_id d = i"
    using acc d by (auto simp: completion_accepted_def)
  have "e \<in> set (dispatches db)"
    using last_row_Some [OF e(1) [unfolded getDispatchContext_def]] by simp
  then have "e = d"
  proof -
    have "inj_on d_id (set (dispatches db))"
      using inv by (simp add: db_inv_def ids_inv_def distinct_map)
    moreover have "d_id e = d_id d" using c e(2) by simp
    ultimately show ?thesis using \<open>e \<in> set (dispatches db)\<close> d_in by (rule inj_onD)
  qed
  then show "latest_active_for_task db i = Some d"
    using e(1) d' unfolding latest_active_for_task_def getDispatchContext_def
    by (simp only:) (erule last_row_stronger, simp_all add: active_status_def)
  show "d_id d = c" by (rule c)
qed

lemma dispatches_promoted [simp]:
  "dispatches (promoted_db i db) = dispatches db" "dispatches (completed_db now i res db) = dispatches db"
  by (simp_all add: promoted_db_def completed_db_def)

lemma accepted_db_dispatch:
  assumes inv: "db_inv db" and acc: "completion_accepted msg i c db"
    and d: "getDispatchContextById db c = Some d"
  shows "getDispatchContextById (accepted_db now msg i c db) c =
    Some (d\<lparr>d_status := D_completed, d_completed_at := Some (sql_now now)\<rparr>)"
proof -
  have "latest_active_for_task (promoted_db i (completed_db now i res db)) i = Some d" for res
    using accepted_dispatch(1) [OF assms] by (simp add: latest_active_for_task_def)
  then show ?thesis
    using d accepted_dispatch(2) [OF assms]
    by (simp add: accepted_db_def after_completion_def completeActiveDispatchForTask_def
        completeDispatch_def getDispatchContextById_def dispatch_tbl.lookup_modify)
qed

lemma accepted_db_task:
  assumes "completion_accepted msg i c db"
  shows "task_status_of (accepted_db now msg i c db) i = Some T_completed"
proof -
  obtain t where t: "getTask db i = Some t"
    using assms by (auto simp: completion_accepted_def task_status_of_def)
  have "getTask (suppressEarlierHeartbeats now msg c db0) i = getTask db0 i" for db0
    by (simp add: getTask_def)
  then show ?thesis
    by (simp add: accepted_db_def task_status_of_def getTask_after_completion [OF t]
        completed_row_def)
qed

text \<open>
  A completion can be delivered again (the sender reconciles it when it is sent, the
  coordinator when it reads it): the second delivery reports the same completion and leaves
  the database as the first one left it.
\<close>

theorem completion_replay:
  assumes "db_inv db" and "m_type msg = MT_worker_done" and "completion_accepted msg i c db"
    and "reconcileLifecycleMessage now msg db = (r, logs, db')"
  shows "r = Inr (Completed i c)
    \<and> (\<exists>logs'. reconcileLifecycleMessage now' msg db' = (Inr (Completed i c), logs', db'))"
proof -
  have R: "r = Inr (Completed i c)" "db' = accepted_db now msg i c db"
    using assms(2,4) worker_done_accepted [OF assms(1,3), of now]
    by (simp_all add: reconcileLifecycleMessage_def)
  have inv': "db_inv db'"
    using db.inv_steps [OF lifecycle_steps [of db now msg] assms(1)] assms(4) by simp
  obtain t d where rows: "completion_rows msg i c t d db" using accepted_rows [OF assms(3)] by blast
  then have d: "getDispatchContextById db c = Some d" by (simp add: completion_rows_def)
  let ?d = "d\<lparr>d_status := D_completed, d_completed_at := Some (sql_now now)\<rparr>"
  have d': "getDispatchContextById db' c = Some ?d"
    unfolding R(2) by (rule accepted_db_dispatch [OF assms(1,3) d])
  obtain t' where t': "getTask db' i = Some t'" "t_status t' = T_completed"
    using accepted_db_task [OF assms(3), of now] R(2) by (auto simp: task_status_of_def)
  have rows': "completion_rows msg i c t' ?d db'"
    using rows d' t' by (auto simp: completion_rows_def foreign_sender_def)
  have "fst (reconcileWorkerDoneMessage now' msg db') = Inr (Completed i c)
      \<and> snd (snd (reconcileWorkerDoneMessage now' msg db')) = db'"
    unfolding worker_done_judged [OF rows'] by (simp add: judge_worker_done_def t'(2))
  with assms(2) R(1) show ?thesis
    by (auto simp: reconcileLifecycleMessage_def prod_eq_iff)
qed

theorem completion_replay_witness:
  "\<exists>logs db' logs'. reconcileLifecycleMessage demo_clock demo_done demo_db =
       (Inr (Completed (js ''task_a'') (js ''ctx_c'')), logs, db')
     \<and> reconcileLifecycleMessage demo_clock demo_done db' =
       (Inr (Completed (js ''task_a'') (js ''ctx_c'')), logs', db')"
proof -
  obtain r logs db' where R: "reconcileLifecycleMessage demo_clock demo_done demo_db = (r, logs, db')"
    by (metis prod_cases3)
  from completion_replay [OF demo_db_inv demo_done_payload(2) demo_accepted R, of demo_clock] R
  show ?thesis by blast
qed

subsection \<open>Heartbeats\<close>

text \<open>
  A heartbeat is recorded only on a running dispatch it names, and not from a foreign
  pane; one for a dispatch that is unknown or not running is consumed without a trace on it;
  every other one changes nothing. It is never a completion and never throws.
\<close>

theorem heartbeat_effect:
  assumes "m_type msg = MT_heartbeat" and "reconcileLifecycleMessage now msg db = (r, logs, db')"
  shows "(case r of
      Inr (Heartbeat_recorded c) \<Rightarrow> db' = recordHeartbeat c (m_created_at msg) db
        \<and> (case getDispatchContextById db c of None \<Rightarrow> False
           | Some d \<Rightarrow> d_status d = D_dispatched \<and> \<not> foreign_sender d msg)
    | Inr Suppressed \<Rightarrow> db' = markAsReadAndDelivered now [m_id msg] db
        \<and> (\<exists>c. string_prop (js ''dispatchId'') (fst (parseObjectPayload msg)) = Some c
             \<and> map_option d_status (getDispatchContextById db c) \<noteq> Some D_dispatched)
    | Inr Ignored \<Rightarrow> db' = db
    | _ \<Rightarrow> False)"
proof (cases "parseObjectPayload msg")
  case (Pair p iv)
  with assms show ?thesis
    by (cases "string_prop (js ''dispatchId'') p")
      (auto simp: reconcileLifecycleMessage_def reconcileHeartbeatMessage_def Let_def
        simp del: js.simps split: option.splits if_splits)
qed

theorem heartbeat_effect_witness:
  "\<exists>logs. reconcileLifecycleMessage demo_clock (hd (messages demo_db)) demo_db =
     (Inr (Heartbeat_recorded (js ''ctx_c'')), logs,
      recordHeartbeat (js ''ctx_c'') (sql_now demo_clock) demo_db)"
proof -
  let ?m = "hd (messages demo_db)"
  have m: "m_type ?m = MT_heartbeat" "m_payload ?m = Some demo_payload"
      "m_created_at ?m = sql_now demo_clock" "m_sender_pane_key ?m = None"
    by (simp_all add: demo_eval)
  have p: "string_prop (js ''dispatchId'') (fst (parseObjectPayload ?m)) = Some (js ''ctx_c'')"
    by (simp add: parseObjectPayload_def m demo_done_payload(4) demo_payload_parse string_prop_def
        jget_def del: js.simps)
  have d: "map_option d_status (getDispatchContextById demo_db (js ''ctx_c'')) = Some D_dispatched"
      "\<And>d. \<not> foreign_sender d ?m"
    by (simp add: getDispatchContextById_def demo_eval)
      (simp add: foreign_sender_def m split: option.split)
  obtain r logs db' where R: "reconcileLifecycleMessage demo_clock ?m demo_db = (r, logs, db')"
    by (metis prod_cases3)
  moreover have "r = Inr (Heartbeat_recorded (js ''ctx_c''))"
    using R m p d
    by (cases "parseObjectPayload ?m") (auto simp: reconcileLifecycleMessage_def
        reconcileHeartbeatMessage_def nonempty_payload_def demo_done_payload(4) Let_def
        simp del: js.simps
        split: option.splits)
  ultimately show ?thesis using heartbeat_effect [OF m(1) R] by (simp add: m(3) del: js.simps)
qed

end
