(* ===== verification/Preamble.thy ===== *)
theory Preamble
  imports Prelude
begin

section \<open>The dispatch preamble\<close>

text \<open>
  \<open>src/src/main/runtime/orchestration/preamble.ts\<close>: the text a worker gets with its task.
  A template is the list of its lines, joined by line feeds; units that the source language of
  these theories has no literal for (quotes, back quotes, dashes, arrows) are given by code.
\<close>

definition join_lines :: "jsstr list \<Rightarrow> jsstr" where
  "join_lines ls = (case ls of [] \<Rightarrow> [] | l # r \<Rightarrow> l
      @ concat (map (\<lambda>x. 10 # x) r))"

definition HEARTBEAT_INTERVAL_MIN :: nat where
  "HEARTBEAT_INTERVAL_MIN = 5"

record base_drift =
  dr_base :: jsstr
  dr_behind :: nat
  dr_recentSubjects :: "jsstr list"

datatype worker_kind = Prompt_returning_agent | Bare_shell

record preamble_params =
  pp_taskId :: jsstr
  pp_dispatchId :: jsstr
  pp_taskSpec :: jsstr
  pp_coordinatorHandle :: jsstr
  pp_devMode :: bool
  pp_baseDrift :: "base_drift option"
  pp_workerKind :: "worker_kind option"

definition buildPostWorkerDoneInstructions :: "jsstr \<Rightarrow> worker_kind \<Rightarrow> jsstr list" where
  "buildPostWorkerDoneInstructions cli workerKind = (case workerKind of
     Bare_shell \<Rightarrow>
       [js ''=== AFTER YOU SEND worker_done ==='',
        [],
        js ''worker_done ends your turn for this task. Your dispatched work is complete:'',
        js ''stop and take no further actions '' @ [8212]
      @ js '' do NOT start new or unrelated work,'',
        js ''do NOT run a sleep/poll loop, and do NOT keep calling'',
        [96] @ cli @ js '' orchestration check'' @ [96]
      @ js ''. The coordinator has already recorded your'',
        js ''completion and expects no further output.'',
        [],
        js ''Exit the shell after completion. Bare-shell workers have no idle agent'',
        js ''prompt for Orca to reuse; if the coordinator has more for you it will'',
        js ''dispatch or prompt another worker with a fresh TASK block.'']
   | Prompt_returning_agent \<Rightarrow>
       [js ''=== AFTER YOU SEND worker_done ==='',
        [],
        js ''worker_done ends your turn for this task. Your dispatched work is complete:'',
        js ''stop, return to an idle prompt, and take no further actions '' @ [8212]
      @ js '' do NOT start'',
        js ''new or unrelated work, do NOT run a sleep/poll loop, and do NOT keep calling'',
        [96] @ cli @ js '' orchestration check'' @ [96]
      @ js ''. The coordinator has already recorded your'',
        js ''completion and expects no further output.'',
        [],
        js ''Do not exit the shell. Your terminal stays available, and if the'',
        js ''coordinator has more for you it will re-engage this terminal with a fresh'',
        js ''preamble + TASK block, which arrives as new input. When that happens,'',
        js ''reset and start the new task; ignore the previous task's follow-ups.''])"

definition buildDriftSection :: "base_drift \<Rightarrow> jsstr list" where
  "buildDriftSection drift =
     [[],
      [],
      js ''--- BASE DRIFT ---'',
      js ''Your worktree HEAD is '' @ js_dec (dr_behind drift) @ js '' commits behind ''
      @ dr_base drift @ js ''. The 5 most recent'',
      js ''subjects on '' @ dr_base drift @ js '' NOT in your worktree:''] @
     (if dr_recentSubjects drift = [] then [[]]
      else map (\<lambda>s. js ''  - '' @ s) (dr_recentSubjects drift)) @
     [[],
      js ''If any look relevant to your task, either pull them in ('' @ [96]
      @ js ''git pull --rebase'',
      dr_base drift @ [96] @ js '' or equivalent) or escalate to the coordinator before starting.'',
      js ''---'']"

definition preamble_header :: "jsstr \<Rightarrow> preamble_params \<Rightarrow> jsstr list" where
  "preamble_header cli p =
     [js ''You are working inside Orca, a multi-agent IDE. You are a dispatched worker.'',
      js ''Your coordinator's terminal handle is: '' @ pp_coordinatorHandle p,
      js ''Your task ID is: '' @ pp_taskId p,
      [],
      js ''You talk to the coordinator only through the CLI commands below. Do not use'',
      js ''Slack, GitHub comments, or any other channel to reach a human during the run.'',
      [],
      js ''=== CLI COMMANDS ==='',
      [],
      js ''  # Report task completion (REQUIRED when done '' @ [8212] @ js '' even on failure).'',
      js ''  #'',
      js ''  # RULE: --body must be a 3-sentence executive summary (what you did,'',
      js ''  # what you found, what's left). Never send an empty body; the coordinator'',
      js ''  # reads the body first and only opens artifacts if it needs more detail.'',
      js ''  # If you produced a long-form artifact, include its path as'',
      js ''  # payload.reportPath so the coordinator can find it without a file search.'',
      js ''  #'',
      js ''  # RULE: send worker_done exactly once. Failure is still a worker_done'',
      js ''  # with subject like '' @ [34] @ js ''Failed: <reason>'' @ [34] @ js '' '' @ [8212]
      @ js '' never silently exit.'',
      js ''  # Include BOTH taskId and dispatchId in the payload so a late completion'',
      js ''  # from a failed retry cannot complete the current dispatch.'',
      js ''  '' @ cli @ js '' orchestration send --to '' @ pp_coordinatorHandle p @ js '' '' @ [92],
      js ''    --type worker_done --subject '' @ [34] @ js ''<short status>'' @ [34] @ js '' ''
      @ [92],
      js ''    --body '' @ [34]
      @ js ''<3-sentence summary: what you did, what you found, what's left>'' @ [34] @ js '' ''
      @ [92],
      js ''    --task-id '' @ pp_taskId p @ js '' --dispatch-id '' @ pp_dispatchId p @ js '' ''
      @ [92],
      js ''    --files-modified '' @ [34] @ js ''path/a,path/b'' @ [34] @ js '' '' @ [92],
      js ''    --report-path '' @ [34] @ js ''<optional: path to the full artifact>'' @ [34],
      [],
      js ''  # BEHAVIOR RULE: send a heartbeat every '' @ js_dec HEARTBEAT_INTERVAL_MIN
      @ js '' minutes'',
      js ''  # while actively working on the task. The coordinator uses this to'',
      js ''  # distinguish '' @ [34] @ js ''still thinking'' @ [34] @ js '' from '' @ [34]
      @ js ''hung / crashed.'' @ [34] @ js '' Skip heartbeats only'',
      js ''  # while blocked inside '' @ [96] @ js ''check --wait'' @ [96] @ js '' or '' @ [96]
      @ js ''ask'' @ [96] @ js '' '' @ [8212] @ js '' those calls are'',
      js ''  # themselves liveness signals.'',
      js ''  #'',
      js ''  # Include BOTH taskId and dispatchId in the payload: the coordinator'',
      js ''  # attributes the heartbeat to the specific dispatch context, not just'',
      js ''  # the task, so a straggler heartbeat from a previously-failed dispatch'',
      js ''  # cannot mask a hung retry.'',
      js ''  '' @ cli @ js '' orchestration send --to '' @ pp_coordinatorHandle p @ js '' '' @ [92],
      js ''    --type heartbeat --subject '' @ [34] @ js ''alive'' @ [34] @ js '' '' @ [92],
      js ''    --task-id '' @ pp_taskId p @ js '' --dispatch-id '' @ pp_dispatchId p @ js '' ''
      @ [92],
      js ''    --phase '' @ [34] @ js ''<short: investigating|implementing|reviewing|waiting>''
      @ [34],
      [],
      js ''  # Ask the coordinator a question and block until it answers.'',
      js ''  #'',
      js ''  # BEHAVIOR RULE #1 (MUST NOT VIOLATE):'',
      js ''  # NEVER use AskUserQuestion; use '' @ [96] @ cli @ js '' orchestration ask'' @ [96]
      @ js '' or send'',
      js ''  # --type decision_gate. AskUserQuestion opens a local TUI prompt that the'',
      js ''  # coordinator cannot see and cannot answer '' @ [8212]
      @ js '' your session will hang forever'',
      js ''  # waiting on a human. Every interactive question goes through '' @ [96]
      @ js ''ask'' @ [96] @ js '' below.'',
      js ''  #'',
      js ''  # The '' @ [96] @ js ''ask'' @ [96]
      @ js '' verb is a thin wrapper: it sends a decision_gate message and'',
      js ''  # blocks on '' @ [96] @ js ''check --wait'' @ [96]
      @ js '' until the coordinator replies, then prints the'',
      js ''  # reply body. Use it anywhere you would otherwise have reached for'',
      js ''  # AskUserQuestion.'',
      js ''  '' @ cli @ js '' orchestration ask --to '' @ pp_coordinatorHandle p @ js '' '' @ [92],
      js ''    --question '' @ [34] @ js ''<your question>'' @ [34] @ js '' '' @ [92],
      js ''    --options '' @ [34] @ js ''<optional,comma,separated>'' @ [34] @ js '' '' @ [92],
      js ''    --timeout-ms 600000'',
      [],
      js ''  # Escalate a blocker or failure (pre-completion, when you need the'',
      js ''  # coordinator to do something before you can continue):'',
      js ''  '' @ cli @ js '' orchestration send --to '' @ pp_coordinatorHandle p @ js '' '' @ [92],
      js ''    --type escalation --subject '' @ [34] @ js ''Blocked: <reason>'' @ [34]
      @ js '' '' @ [92],
      js ''    --body '' @ [34] @ js ''<details>'' @ [34] @ js '' '' @ [92],
      js ''    --task-id '' @ pp_taskId p,
      [],
      js ''  # Check for messages from the coordinator:'',
      js ''  '' @ cli @ js '' orchestration check'']"

text \<open>The whole preamble: header, the rules after completion, the drift section when the base
  is behind, and the task.\<close>

definition buildDispatchPreamble :: "preamble_params \<Rightarrow> jsstr" where
  "buildDispatchPreamble p =
     (let cli = (if pp_devMode p then js ''orca-dev'' else js ''orca'');
          post = buildPostWorkerDoneInstructions cli
                   (case pp_workerKind p of None \<Rightarrow> Prompt_returning_agent | Some k \<Rightarrow> k);
          header = join_lines (preamble_header cli p @ [[]] @ post);
          drift = (case pp_baseDrift p of
                     None \<Rightarrow> []
                   | Some d \<Rightarrow> if 0 < dr_behind d then join_lines (buildDriftSection d) else [])
      in header @ drift @ join_lines [[], [], js ''=== TASK ==='', pp_taskSpec p])"

text \<open>The task block is the end of the preamble, whatever else it says, and the specification
  is passed on unchanged.\<close>

lemma preamble_task_block:
  "\<exists>pre. buildDispatchPreamble p = pre @ js ''=== TASK ==='' @ [10] @ pp_taskSpec p"
  by (simp add: buildDispatchPreamble_def Let_def join_lines_def del: js.simps)

end
