(* ===== verification/Stale_Base.thy ===== *)
theory Stale_Base
  imports Prelude "HOL-Library.Sublist"
begin

section \<open>The stale-base flag of a task\<close>

text \<open>
  \<open>parseAllowStaleBaseFromSpec\<close> of \<open>src/src/main/runtime/orchestration/coordinator.ts\<close>. The two
  regular expressions are \<open>/^[ \t]*allow-stale-base:[ \t]*true[ \t]*\r?$/im\<close>, tested, and
  \<open>/^[ \t]*allow-stale-base:[ \t]*true[ \t]*\r?\n?/im\<close>, whose first match is cut out. They are
  read as what they match at a line start: \<open>flag_prefix\<close> is their common part (no repetition
  in it can usefully give back, since what follows is never a blank), and the multi-line
  anchors hold at the ends of the text and next to a line terminator.
\<close>

definition line_terminator :: "nat \<Rightarrow> bool" where
  "line_terminator u = (u = 10 \<or> u = 13 \<or> u = 8232 \<or> u = 8233)"

definition ascii_lower :: "nat \<Rightarrow> nat" where
  "ascii_lower u = (if 65 \<le> u \<and> u \<le> 90 then u + 32 else u)"

definition blank :: "nat \<Rightarrow> bool" where
  "blank u = (u = 32 \<or> u = 9)"

text \<open>A literal, without regard to case (flag \<open>i\<close>).\<close>

fun eat :: "jsstr \<Rightarrow> jsstr \<Rightarrow> jsstr option" where
  "eat [] s = Some s"
| "eat (w # ws) [] = None"
| "eat (w # ws) (u # s) = (if ascii_lower u = w then eat ws s else None)"

definition flag_prefix :: "jsstr \<Rightarrow> jsstr option" where
  "flag_prefix s =
     (case eat (js ''allow-stale-base:'') (dropWhile blank s) of
        None \<Rightarrow> None
      | Some r \<Rightarrow> map_option (dropWhile blank) (eat (js ''true'') (dropWhile blank r)))"

text \<open>\<open>\r?$\<close> after it.\<close>

definition flag_line :: "jsstr \<Rightarrow> bool" where
  "flag_line s = (case flag_prefix s of
     None \<Rightarrow> False
   | Some [] \<Rightarrow> True
   | Some (u # _) \<Rightarrow> line_terminator u)"

text \<open>\<open>\r?\n?\<close> after it: what is left when the match is cut out.\<close>

definition drop_newline :: "jsstr \<Rightarrow> jsstr" where
  "drop_newline s = (let s1 = (case s of u # r \<Rightarrow> if u = 13 then r else s | [] \<Rightarrow> [])
     in case s1 of u # r \<Rightarrow> if u = 10 then r else s1 | [] \<Rightarrow> [])"

definition cut_flag :: "jsstr \<Rightarrow> jsstr option" where
  "cut_flag s = map_option drop_newline (flag_prefix s)"

text \<open>The search from left to right; the first argument says that a line starts here.\<close>

fun has_flag_line :: "bool \<Rightarrow> jsstr \<Rightarrow> bool" where
  "has_flag_line start [] = False"
| "has_flag_line start (u # s) =
     (start \<and> flag_line (u # s) \<or> has_flag_line (line_terminator u) s)"

fun cut_first :: "bool \<Rightarrow> jsstr \<Rightarrow> jsstr" where
  "cut_first start [] = []"
| "cut_first start (u # s) =
     (case (if start then cut_flag (u # s) else None) of
        Some r \<Rightarrow> r
      | None \<Rightarrow> u # cut_first (line_terminator u) s)"

definition parseAllowStaleBaseFromSpec :: "jsstr \<Rightarrow> bool \<times> jsstr" where
  "parseAllowStaleBaseFromSpec spec =
     (if \<not> has_flag_line True spec then (False, spec) else (True, cut_first True spec))"

subsection \<open>What is cut out\<close>

lemma eat_suffix: "eat w s = Some r \<Longrightarrow> suffix r s \<and> length s = length w + length r"
  by (induction w s rule: eat.induct) (auto split: if_splits intro: suffix_ConsI)

lemma dropWhile_length: "length (dropWhile P s) \<le> length s"
  by (simp add: length_dropWhile_le)

lemma flag_prefix_suffix:
  assumes "flag_prefix s = Some r"
  shows "suffix r s \<and> length r < length s"
proof -
  obtain q t where q: "eat (js ''allow-stale-base:'') (dropWhile blank s) = Some q"
    and t: "eat (js ''true'') (dropWhile blank q) = Some t" and r: "r = dropWhile blank t"
    using assms by (auto simp: flag_prefix_def simp del: js.simps split: option.splits)
  have "suffix r t" "suffix t q" "suffix q s"
    using eat_suffix [OF q] eat_suffix [OF t] suffix_dropWhile suffix_order.trans
    unfolding r by blast+
  then have "suffix r s" using suffix_order.trans by blast
  moreover have "length r < length s"
    using eat_suffix [OF q] eat_suffix [OF t] dropWhile_length [of blank s]
      dropWhile_length [of blank q] dropWhile_length [of blank t] unfolding r by simp
  ultimately show ?thesis ..
qed

lemma drop_newline_suffix: "suffix (drop_newline s) s"
  by (auto simp: drop_newline_def Let_def split: list.split intro: suffix_ConsI)

lemma cut_flag_suffix:
  assumes "cut_flag s = Some r"
  shows "\<exists>m. s = m @ r \<and> m \<noteq> []"
proof -
  obtain q where q: "flag_prefix s = Some q" "r = drop_newline q"
    using assms by (auto simp: cut_flag_def)
  have sq: "suffix q s" "length q < length s" using flag_prefix_suffix [OF q(1)] by auto
  have rq: "suffix r q" using drop_newline_suffix [of q] q(2) by simp
  then have len: "length r \<le> length q" by (rule suffix_length_le)
  have "suffix r s" using rq sq(1) by (rule suffix_order.trans)
  then obtain m where "s = m @ r" by (rule suffixE)
  moreover have "m \<noteq> []" using calculation sq(2) len by auto
  ultimately show ?thesis by blast
qed

lemma flag_line_cut: "flag_line s \<Longrightarrow> \<exists>r. cut_flag s = Some r"
  by (auto simp: flag_line_def cut_flag_def split: option.splits)

lemma cut_first_segment:
  "has_flag_line start s \<Longrightarrow> \<exists>pre m post. s = pre @ m @ post \<and> cut_first start s = pre @ post \<and> m \<noteq> []"
proof (induction start s rule: cut_first.induct)
  case (2 start u s)
  show ?case
  proof (cases "if start then cut_flag (u # s) else None")
    case (Some r)
    then have "cut_first start (u # s) = r" "cut_flag (u # s) = Some r"
      by (simp_all split: if_splits)
    with cut_flag_suffix [of "u # s" r] show ?thesis by (metis append_Nil)
  next
    case None
    then have "has_flag_line (line_terminator u) s"
      using "2.prems" flag_line_cut [of "u # s"] by (auto split: if_splits)
    with "2.IH" [OF None] obtain pre m post
      where "s = pre @ m @ post" "cut_first (line_terminator u) s = pre @ post" "m \<noteq> []" by blast
    moreover have "cut_first start (u # s) = u # cut_first (line_terminator u) s"
      using None by simp
    ultimately show ?thesis by (metis append_Cons)
  qed
qed simp

text \<open>A line that is the flag and nothing else, followed by a line feed.\<close>

definition canonical_flag :: jsstr where
  "canonical_flag = js ''allow-stale-base: true''"

lemma flag_prefix_canonical:
  "flag_prefix (canonical_flag @ 10 # post) = Some (10 # post)"
  by (simp add: flag_prefix_def canonical_flag_def blank_def ascii_lower_def)

lemma canonical_first: "canonical_flag = 97 # tl canonical_flag"
  by (simp add: canonical_flag_def)

text \<open>No line start of a text begins with the flag.\<close>

fun no_flag :: "bool \<Rightarrow> jsstr \<Rightarrow> jsstr \<Rightarrow> bool" where
  "no_flag start [] rest = True"
| "no_flag start (u # s) rest =
     ((start \<longrightarrow> flag_prefix (u # s @ rest) = None) \<and> no_flag (line_terminator u) s rest)"

definition at_line_start :: "bool \<Rightarrow> jsstr \<Rightarrow> bool" where
  "at_line_start start pre = (if pre = [] then start else line_terminator (last pre))"

lemma at_line_start_Cons: "at_line_start start (u # pre) = at_line_start (line_terminator u) pre"
  by (simp add: at_line_start_def)

lemma cut_canonical:
  "no_flag start pre (canonical_flag @ 10 # post) \<Longrightarrow> at_line_start start pre \<Longrightarrow>
   has_flag_line start (pre @ canonical_flag @ 10 # post)
   \<and> cut_first start (pre @ canonical_flag @ 10 # post) = pre @ post"
proof (induction start pre "canonical_flag @ 10 # post" rule: no_flag.induct)
  case (1 start)
  then have start by (simp add: at_line_start_def)
  let ?s = "canonical_flag @ 10 # post"
  have "flag_line ?s" "cut_flag ?s = Some post"
    by (simp_all add: flag_line_def cut_flag_def flag_prefix_canonical line_terminator_def
        drop_newline_def)
  moreover obtain u s where "?s = u # s" using canonical_first by (cases ?s) auto
  ultimately show ?case using \<open>start\<close> by simp
next
  case (2 start u s)
  then show ?case
    by (auto simp: at_line_start_Cons cut_flag_def)
qed

text \<open>
  The stale-base flag: without a line that is the flag the specification is passed on as
  it is; with one, exactly one segment of it is cut out. When the flag is the first line that
  begins like one, that segment is the line with its line feed.
\<close>

theorem stale_base_flag:
  "(\<not> has_flag_line True spec \<longrightarrow> parseAllowStaleBaseFromSpec spec = (False, spec))
   \<and> (has_flag_line True spec \<longrightarrow> (\<exists>pre m post. spec = pre @ m @ post \<and> m \<noteq> []
        \<and> parseAllowStaleBaseFromSpec spec = (True, pre @ post)))
   \<and> (\<forall>pre post. spec = pre @ canonical_flag @ 10 # post
        \<and> no_flag True pre (canonical_flag @ 10 # post) \<and> at_line_start True pre \<longrightarrow>
        parseAllowStaleBaseFromSpec spec = (True, pre @ post))"
proof (intro conjI impI allI)
  show "parseAllowStaleBaseFromSpec spec = (False, spec)" if "\<not> has_flag_line True spec"
    using that by (simp add: parseAllowStaleBaseFromSpec_def)
  show "\<exists>pre m post. spec = pre @ m @ post \<and> m \<noteq> []
        \<and> parseAllowStaleBaseFromSpec spec = (True, pre @ post)" if "has_flag_line True spec"
    using cut_first_segment [OF that] that by (auto simp: parseAllowStaleBaseFromSpec_def)
  show "parseAllowStaleBaseFromSpec spec = (True, pre @ post)"
    if "spec = pre @ canonical_flag @ 10 # post
        \<and> no_flag True pre (canonical_flag @ 10 # post) \<and> at_line_start True pre" for pre post
    using that cut_canonical [of True pre post] by (simp add: parseAllowStaleBaseFromSpec_def)
qed

theorem stale_base_flag_witness:
  "parseAllowStaleBaseFromSpec (js ''ab'' @ [10] @ canonical_flag @ [10] @ js ''c'') =
     (True, js ''ab'' @ [10] @ js ''c'')"
proof -
  have "no_flag True (js ''ab'' @ [10]) (canonical_flag @ 10 # js ''c'')"
    "at_line_start True (js ''ab'' @ [10])"
    by (simp_all add: flag_prefix_def blank_def ascii_lower_def line_terminator_def
        at_line_start_def)
  then have "parseAllowStaleBaseFromSpec ((js ''ab'' @ [10]) @ canonical_flag @ 10 # js ''c'') =
      (True, (js ''ab'' @ [10]) @ js ''c'')"
    using stale_base_flag [of "(js ''ab'' @ [10]) @ canonical_flag @ 10 # js ''c''"] by blast
  then show ?thesis by (simp del: js.simps)
qed

text \<open>
  The cut has no end-of-line anchor: a line that only begins like the flag is cut instead
  of the line that is the flag, which the worker then reads.
\<close>

theorem stale_base_wrong_line:
  "parseAllowStaleBaseFromSpec
      (js ''allow-stale-base: truely'' @ [10] @ canonical_flag) =
    (True, js ''ly'' @ [10] @ canonical_flag)"
  by (simp add: parseAllowStaleBaseFromSpec_def canonical_flag_def flag_line_def flag_prefix_def
      cut_flag_def drop_newline_def blank_def ascii_lower_def line_terminator_def)

end
