(* ===== verification/Coordinator.thy ===== *)
theory Coordinator
  imports Lifecycle Preamble Stale_Base
begin

section \<open>The coordinator\<close>

text \<open>
  \<open>src/src/main/runtime/orchestration/coordinator.ts\<close>, class \<open>Coordinator\<close>. The coordinator
  (\<open>coord\<close>) holds the database, its own state, the lines it logged and whether \<open>stop\<close> was
  called. The runtime it talks to (terminals, git, clock, random ids) is not this code: it is
  the record \<open>runtime\<close>, over a state \<open>'e\<close> of its own. A call that the code awaits gives its
  answer, whether \<open>stop()\<close> was called meanwhile, and the database as the code that ran
  meanwhile left it. Synchronous parts run without interruption. \<open>tick\<close> and its parts are
  total; the polling loop takes the number of ticks as fuel.
\<close>

definition DISPATCH_STALE_THRESHOLD :: nat where
  "DISPATCH_STALE_THRESHOLD = 20"

definition HUNG_THRESHOLD_MINUTES :: nat where
  "HUNG_THRESHOLD_MINUTES = 10"

subsection \<open>The runtime\<close>

record terminal_info =
  ti_handle :: jsstr
  ti_connected :: bool
  ti_writable :: bool

text \<open>An awaited call: the answer, whether the coordinator was stopped, the two states after it.\<close>

type_synonym ('e, 'a) call = "'e \<Rightarrow> odb \<Rightarrow> 'a \<times> bool \<times> 'e \<times> odb"

text \<open>\<open>rt_now\<close> reads the clock and draws the random part of an id; \<open>rt_hung_since\<close> is the ISO text
  of the time ten minutes ago. A call that rejects gives the text of its error, and for a
  prompt that could not be sent its message as well.\<close>

record 'e runtime =
  rt_now :: "'e \<Rightarrow> (clock \<times> jsstr) \<times> 'e"
  rt_hung_since :: "'e \<Rightarrow> jsstr"
  rt_getTerminalPaneKey :: "'e \<Rightarrow> jsstr \<Rightarrow> jsstr option"
  rt_number_text :: "jsstr \<Rightarrow> jsstr"
  rt_listTerminals :: "jsstr option \<Rightarrow> ('e, jsstr + terminal_info list) call"
  rt_createTerminal :: "jsstr option \<Rightarrow> jsstr \<Rightarrow> ('e, jsstr + jsstr) call"
  rt_probeWorktreeDrift :: "jsstr \<Rightarrow> ('e, jsstr + base_drift option) call"
  rt_sendTerminalAgentPrompt :: "jsstr \<Rightarrow> jsstr \<Rightarrow> ('e, (jsstr \<times> jsstr) option) call"
  rt_sleep :: "int \<Rightarrow> ('e, unit) call"

record coordinator_options =
  co_coordinatorHandle :: jsstr
  co_pollIntervalMs :: int
  co_maxConcurrent :: int
  co_worktree :: "jsstr option"
  co_devMode :: bool

definition DEFAULT_POLL_MS :: int where
  "DEFAULT_POLL_MS = 2000"

definition MAX_CONCURRENT_DEFAULT :: int where
  "MAX_CONCURRENT_DEFAULT = 4"

text \<open>The options of the constructor, with \<open>None\<close> for what the caller left out.\<close>

definition constructor_options ::
  "jsstr \<Rightarrow> int option \<Rightarrow> int option \<Rightarrow> jsstr option \<Rightarrow> bool \<Rightarrow> coordinator_options" where
  "constructor_options handle pollIntervalMs maxConcurrent worktree devMode =
     \<lparr>co_coordinatorHandle = handle,
      co_pollIntervalMs = (case pollIntervalMs of None \<Rightarrow> DEFAULT_POLL_MS | Some n \<Rightarrow> n),
      co_maxConcurrent = (case maxConcurrent of None \<Rightarrow> MAX_CONCURRENT_DEFAULT | Some n \<Rightarrow> n),
      co_worktree = worktree, co_devMode = devMode\<rparr>"

datatype phase = Decomposing | Dispatching | Monitoring | Merging | Done

record 'e coord =
  c_db :: odb
  c_env :: 'e
  c_stopped :: bool
  c_logs :: "jsstr list"
  c_runId :: jsstr
  c_phase :: phase
  c_completedTasks :: "jsstr list"
  c_failedTasks :: "jsstr list"
  c_escalations :: "message_row list"

definition await :: "('e, 'a) call \<Rightarrow> 'e coord \<Rightarrow> 'a \<times> 'e coord" where
  "await call c = (case call (c_env c) (c_db c) of
     (x, stop, env, db) \<Rightarrow>
       (x, c\<lparr>c_env := env, c_db := db, c_stopped := c_stopped c \<or> stop\<rparr>))"

definition log :: "jsstr \<Rightarrow> 'e coord \<Rightarrow> 'e coord" where
  "log line c = c\<lparr>c_logs := c_logs c @ [line]\<rparr>"

definition clock_of :: "'e runtime \<Rightarrow> 'e coord \<Rightarrow> clock \<times> jsstr \<times> 'e coord" where
  "clock_of rt c = (case rt_now rt (c_env c) of ((now, hex), env) \<Rightarrow> (now, hex, c\<lparr>c_env := env\<rparr>))"

text \<open>\<open>String(err)\<close> of what the database methods throw.\<close>

fun exn_text :: "exn \<Rightarrow> jsstr" where
  "exn_text (Error m) = js ''Error: '' @ m"
| "exn_text TypeError = js ''TypeError''"
| "exn_text SyntaxError = js ''SyntaxError''"
| "exn_text RangeError = js ''RangeError''"
| "exn_text (UniqueViolation t) = js ''Error: UNIQUE constraint failed: '' @ js t @ js ''.id''"

subsection \<open>Payload values\<close>

text \<open>A parsed value read as a condition. The lexeme of a number is zero when its digits are.\<close>

definition zero_lexeme :: "jsstr \<Rightarrow> bool" where
  "zero_lexeme l = list_all (\<lambda>u. u = 48 \<or> u = 45 \<or> u = 46) (takeWhile (\<lambda>u. u \<noteq> 101 \<and> u \<noteq> 69) l)"

fun json_truthy :: "json \<Rightarrow> bool" where
  "json_truthy JNull = False"
| "json_truthy (JBool b) = b"
| "json_truthy (JNum l) = (\<not> zero_lexeme l)"
| "json_truthy (JStr s) = (s \<noteq> [])"
| "json_truthy (JArr vs) = True"
| "json_truthy (JObj ms) = True"

text \<open>\<open>value.property\<close>: reading null throws, what is not an object has none of them.\<close>

fun json_prop :: "jsstr \<Rightarrow> json \<Rightarrow> exn + json option" where
  "json_prop k JNull = Inl TypeError"
| "json_prop k (JObj ms) = Inr (jget k ms)"
| "json_prop k _ = Inr None"

text \<open>A value bound as the only parameter of \<open>SELECT .. WHERE id = ?\<close>: a number is compared as
  text and equals no id; an object or array is a set of named parameters, which the statement
  does not have, and when it is empty the id is null; a boolean cannot be bound.\<close>

definition unknown_parameter :: "jsstr \<Rightarrow> exn" where
  "unknown_parameter k = Error (js ''Unknown named parameter '' @ [39] @ k @ [39])"

fun bind_id :: "json \<Rightarrow> exn + jsstr option" where
  "bind_id (JStr s) = Inr (Some s)"
| "bind_id (JNum l) = Inr None"
| "bind_id JNull = Inr None"
| "bind_id (JBool b) = Inl TypeError"
| "bind_id (JArr vs) = (if vs = [] then Inr None else Inl (unknown_parameter [48]))"
| "bind_id (JObj ms) = (case ms of [] \<Rightarrow> Inr None | (k, _) # _ \<Rightarrow> Inl (unknown_parameter k))"

text \<open>A value bound as a further parameter of an INSERT into a text column.\<close>

fun bind_text :: "(jsstr \<Rightarrow> jsstr) \<Rightarrow> json \<Rightarrow> exn + jsstr" where
  "bind_text number_text (JStr s) = Inr s"
| "bind_text number_text (JNum l) = Inr (number_text l)"
| "bind_text number_text _ = Inl TypeError"

subsection \<open>Messages\<close>

text \<open>A handler gives what it threw, if anything, and the coordinator after it.\<close>

definition handleLifecycleMessage ::
  "'e runtime \<Rightarrow> message_row \<Rightarrow> 'e coord \<Rightarrow> exn option \<times> 'e coord" where
  "handleLifecycleMessage rt msg c =
     (case clock_of rt c of (now, _, c1) \<Rightarrow>
      (case reconcileLifecycleMessage now msg (c_db c1) of (r, logs, db') \<Rightarrow>
        (let c2 = c1\<lparr>c_db := db', c_logs := c_logs c1 @ logs\<rparr>
         in case r of
              Inl e \<Rightarrow> (Some e, c2)
            | Inr (Completed taskId _) \<Rightarrow>
                (None, if taskId \<in> set (c_completedTasks c2) then c2
                       else c2\<lparr>c_completedTasks := c_completedTasks c2 @ [taskId]\<rparr>)
            | Inr _ \<Rightarrow> (None, c2))))"

text \<open>The \<open>taskId\<close> of an escalation; a payload that cannot be read names none.\<close>

definition escalation_task :: "message_row \<Rightarrow> json option" where
  "escalation_task msg = (case m_payload msg of
     None \<Rightarrow> None
   | Some text \<Rightarrow>
       if text = [] then None
       else (case json_parse text of
               None \<Rightarrow> None
             | Some v \<Rightarrow> (case json_prop (js ''taskId'') v of Inl _ \<Rightarrow> None | Inr x \<Rightarrow> x)))"

definition fail_escalated ::
  "'e runtime \<Rightarrow> message_row \<Rightarrow> jsstr \<Rightarrow> dispatch_row \<Rightarrow> 'e coord \<Rightarrow> 'e coord" where
  "fail_escalated rt msg taskId dispatch c =
     (case failDispatch (d_id dispatch) (m_subject msg) (c_db c) of (updated, db1) \<Rightarrow>
      (if map_option d_status updated = Some D_circuit_broken
       then (case clock_of rt (log (js ''Task '' @ taskId
                   @ js '' circuit broken after repeated failures'') (c\<lparr>c_db := db1\<rparr>)) of
              (now, _, c1) \<Rightarrow>
                c1\<lparr>c_db := snd (updateTaskStatus now taskId T_failed
                              (Some (js ''Circuit broken: '' @ m_subject msg)) (c_db c1)),
                   c_failedTasks := c_failedTasks c1 @ [taskId]\<rparr>)
       else log (js ''Task '' @ taskId @ js '' will be retried (failure ''
                 @ js_dec (case updated of None \<Rightarrow> 0 | Some d \<Rightarrow> d_failure_count d) @ js ''/3)'')
              (c\<lparr>c_db := db1\<rparr>)))"

definition handleEscalation ::
  "'e runtime \<Rightarrow> message_row \<Rightarrow> 'e coord \<Rightarrow> exn option \<times> 'e coord" where
  "handleEscalation rt msg c0 =
     (let c1 = log (js ''Escalation from '' @ m_from_handle msg @ js '': '' @ m_subject msg) c0;
          c = c1\<lparr>c_escalations := c_escalations c1 @ [msg]\<rparr>
      in case escalation_task msg of
           None \<Rightarrow> (None, c)
         | Some v \<Rightarrow>
             if \<not> json_truthy v then (None, c)
             else (case bind_id v of
                     Inl e \<Rightarrow> (Some e, c)
                   | Inr None \<Rightarrow> (None, c)
                   | Inr (Some taskId) \<Rightarrow>
                       (case getTask (c_db c) taskId of
                          None \<Rightarrow> (None, c)
                        | Some task \<Rightarrow>
                            if terminal_task_status (t_status task) then (None, c)
                            else (case getDispatchContext (c_db c) taskId of
                                    None \<Rightarrow> (None, c)
                                  | Some dispatch \<Rightarrow>
                                      (None, fail_escalated rt msg taskId dispatch c)))))"

text \<open>\<open>if (!payload.taskId || !payload.question)\<close>, then the gate.\<close>

definition create_message_gate ::
  "'e runtime \<Rightarrow> json option \<Rightarrow> json option \<Rightarrow> json option \<Rightarrow> 'e coord
    \<Rightarrow> exn option \<times> 'e coord" where
  "create_message_gate rt taskId question options c =
     (case (taskId, question) of
        (Some tv, Some qv) \<Rightarrow>
          if \<not> json_truthy tv \<or> \<not> json_truthy qv
          then (None, log (js ''Warning: decision_gate missing taskId or question'') c)
          else (case bind_text (rt_number_text rt) tv of
                  Inl e \<Rightarrow> (Some e, c)
                | Inr taskId \<Rightarrow>
                    (case bind_text (rt_number_text rt) qv of
                       Inl e \<Rightarrow> (Some e, c)
                     | Inr question \<Rightarrow>
                         (case clock_of rt c of (now, hex, c1) \<Rightarrow>
                           (case createGate hex now taskId question options (c_db c1) of
                              Inl e \<Rightarrow> (Some e, c1)
                            | Inr (_, db') \<Rightarrow>
                                (None, log (js ''Task ''
                                   @ (case tv of JNum l \<Rightarrow> l | _ \<Rightarrow> taskId)
                                   @ js '' blocked on decision gate'') (c1\<lparr>c_db := db'\<rparr>))))))
      | _ \<Rightarrow> (None, log (js ''Warning: decision_gate missing taskId or question'') c))"

definition handleDecisionGateMessage ::
  "'e runtime \<Rightarrow> message_row \<Rightarrow> 'e coord \<Rightarrow> exn option \<times> 'e coord" where
  "handleDecisionGateMessage rt msg c0 =
     (let c = log (js ''Decision gate from '' @ m_from_handle msg @ js '': '' @ m_subject msg) c0
      in case (if truthy (m_payload msg) then json_parse (the (m_payload msg))
               else Some (JObj [])) of
           None \<Rightarrow> (None, c)
         | Some payload \<Rightarrow>
             (case (json_prop (js ''taskId'') payload, json_prop (js ''question'') payload,
                    json_prop (js ''options'') payload) of
                (Inr taskId, Inr question, Inr options) \<Rightarrow>
                  create_message_gate rt taskId question options c
              | _ \<Rightarrow> (Some TypeError, c)))"

definition handle_message ::
  "'e runtime \<Rightarrow> message_row \<Rightarrow> 'e coord \<Rightarrow> exn option \<times> 'e coord" where
  "handle_message rt msg c = (case m_type msg of
     MT_worker_done \<Rightarrow> handleLifecycleMessage rt msg c
   | MT_escalation \<Rightarrow> handleEscalation rt msg c
   | MT_decision_gate \<Rightarrow> handleDecisionGateMessage rt msg c
   | MT_heartbeat \<Rightarrow> handleLifecycleMessage rt msg c
   | MT_status \<Rightarrow> (None, log (js ''Status from '' @ m_from_handle msg @ js '': '' @ m_subject msg) c)
   | _ \<Rightarrow> (None, c))"

fun handle_messages ::
  "'e runtime \<Rightarrow> message_row list \<Rightarrow> 'e coord \<Rightarrow> exn option \<times> 'e coord" where
  "handle_messages rt [] c = (None, c)"
| "handle_messages rt (m # ms) c = (case handle_message rt m c of
     (Some e, c') \<Rightarrow> (Some e, c')
   | (None, c') \<Rightarrow> handle_messages rt ms c')"

definition processMessages ::
  "'e runtime \<Rightarrow> coordinator_options \<Rightarrow> 'e coord \<Rightarrow> exn option \<times> 'e coord" where
  "processMessages rt opts c =
     (let msgs = getUnreadMessages (c_db c) (co_coordinatorHandle opts) None
      in if msgs = [] then (None, c)
         else (case handle_messages rt msgs c of
                 (Some e, c') \<Rightarrow> (Some e, c')
               | (None, c') \<Rightarrow> (None, c'\<lparr>c_db := markAsRead (map m_id msgs) (c_db c')\<rparr>)))"

subsection \<open>Gates, stale workers\<close>

text \<open>\<open>task && task.status !== 'blocked'\<close>: the task of a pending gate is blocked again.\<close>

definition reblock :: "'e runtime \<Rightarrow> gate_row \<Rightarrow> 'e coord \<Rightarrow> 'e coord" where
  "reblock rt gate c = (case getTask (c_db c) (g_task_id gate) of
     None \<Rightarrow> c
   | Some task \<Rightarrow>
       if t_status task \<noteq> T_blocked
       then (case clock_of rt c of (now, _, c1) \<Rightarrow>
              c1\<lparr>c_db := snd (updateTaskStatus now (g_task_id gate) T_blocked None (c_db c1))\<rparr>)
       else c)"

definition processDecisionGates :: "'e runtime \<Rightarrow> 'e coord \<Rightarrow> 'e coord" where
  "processDecisionGates rt c = fold (reblock rt) (listGates (c_db c) None (Some G_pending)) c"

definition warnStaleDispatches :: "'e runtime \<Rightarrow> 'e coord \<Rightarrow> 'e coord" where
  "warnStaleDispatches rt c =
     fold (\<lambda>ctx. log (js ''Warning: worker '' @ text_or (js ''<unknown>'') (d_assignee_handle ctx)
             @ js '' on task '' @ d_task_id ctx @ js '' has not sent a heartbeat in ~''
             @ js_dec HUNG_THRESHOLD_MINUTES @ js '' min (dispatch '' @ d_id ctx @ js '')''))
       (getStaleDispatches (c_db c) (rt_hung_since rt (c_env c))) c"

subsection \<open>Dispatching\<close>

definition gate_context :: "odb \<Rightarrow> jsstr \<Rightarrow> jsstr" where
  "gate_context db taskId = (case listGates db (Some taskId) (Some G_resolved) of
     [] \<Rightarrow> []
   | gs \<Rightarrow> (let latest = last gs
           in [10, 10] @ js ''--- DECISION GATE RESOLVED ---'' @ [10] @ js ''Question: ''
              @ g_question latest @ [10] @ js ''Resolution: ''
              @ text_or (js ''null'') (g_resolution latest) @ [10] @ js ''---'' @ [10]))"

text \<open>The part of \<open>dispatchTask\<close> after the drift check: lock the terminal, send the prompt, and
  fail the dispatch when that rejects. The text is what the caller logs of an error.\<close>

definition send_dispatch ::
  "'e runtime \<Rightarrow> coordinator_options \<Rightarrow> task_row \<Rightarrow> jsstr \<Rightarrow> jsstr \<Rightarrow> base_drift option
    \<Rightarrow> 'e coord \<Rightarrow> jsstr option \<times> 'e coord" where
  "send_dispatch rt opts task targetHandle strippedSpec baseDrift c =
     (case clock_of rt c of (now, hex, c1) \<Rightarrow>
      (case createDispatchContext hex now (t_id task) targetHandle
              (rt_getTerminalPaneKey rt (c_env c1) targetHandle) (c_db c1) of
         Inl e \<Rightarrow> (Some (exn_text e), c1)
       | Inr (dispatch, db') \<Rightarrow>
           (let c2 = c1\<lparr>c_db := db'\<rparr>;
                preamble = buildDispatchPreamble
                  \<lparr>pp_taskId = t_id task, pp_dispatchId = d_id dispatch,
                   pp_taskSpec = strippedSpec,
                   pp_coordinatorHandle = co_coordinatorHandle opts,
                   pp_devMode = co_devMode opts, pp_baseDrift = baseDrift, pp_workerKind = None\<rparr>
            in case await (rt_sendTerminalAgentPrompt rt targetHandle
                       (preamble @ gate_context db' (t_id task))) c2 of
                 (Some (message, text), c3) \<Rightarrow>
                   (case failDispatch (d_id dispatch) message (c_db c3) of (updated, db3) \<Rightarrow>
                     (Some text, c3\<lparr>c_db := db3,
                        c_failedTasks := c_failedTasks c3
                          @ (if map_option d_status updated = Some D_circuit_broken
                             then [t_id task] else [])\<rparr>))
               | (None, c3) \<Rightarrow>
                   (None, (log (js ''Dispatched task '' @ t_id task @ js '' to '' @ targetHandle) c3)
                      \<lparr>c_phase := Monitoring\<rparr>))))"

definition refuse_text :: "task_row \<Rightarrow> base_drift \<Rightarrow> jsstr" where
  "refuse_text task drift =
     js ''Skipping dispatch of '' @ t_id task @ js '': worktree is '' @ js_dec (dr_behind drift)
     @ js '' commits behind '' @ dr_base drift
     @ js ''. Pull/rebase the worktree, recreate it with --base-branch '' @ dr_base drift
     @ js '', or include '' @ [39] @ js ''allow-stale-base: true'' @ [39]
     @ js '' in the task spec to override. Task remains in '' @ [39] @ js ''ready'' @ [39]
     @ js ''; coordinator will retry on the next tick.''"

definition dispatchTask ::
  "'e runtime \<Rightarrow> coordinator_options \<Rightarrow> task_row \<Rightarrow> jsstr \<Rightarrow> 'e coord \<Rightarrow> jsstr option \<times> 'e coord" where
  "dispatchTask rt opts task targetHandle c =
     (case parseAllowStaleBaseFromSpec (t_spec task) of (allowStale, strippedSpec) \<Rightarrow>
        if \<not> truthy (co_worktree opts)
        then send_dispatch rt opts task targetHandle strippedSpec None
               (log (js ''stale-base guard inert for '' @ t_id task
                  @ js '': coordinator has no worktree selector'') c)
        else
          (let worktree = the (co_worktree opts)
           in case await (rt_probeWorktreeDrift rt worktree) c of
                (Inl err, c1) \<Rightarrow>
                  send_dispatch rt opts task targetHandle strippedSpec None
                    (log (js ''probeWorktreeDrift failed for '' @ worktree @ js '': '' @ err) c1)
              | (Inr None, c1) \<Rightarrow>
                  send_dispatch rt opts task targetHandle strippedSpec None c1
              | (Inr (Some drift), c1) \<Rightarrow>
                  if DISPATCH_STALE_THRESHOLD < dr_behind drift \<and> \<not> allowStale
                  then (None, log (refuse_text task drift) c1)
                  else send_dispatch rt opts task targetHandle strippedSpec (Some drift) c1))"

text \<open>The handles of running tasks' newest dispatches.\<close>

definition busy_handles :: "odb \<Rightarrow> jsstr list" where
  "busy_handles db =
     filter (\<lambda>h. h \<noteq> [])
       (List.map_filter (\<lambda>t. Option.bind (getDispatchContext db (t_id t)) d_assignee_handle)
          (listTasks db (Some T_dispatched) False))"

definition getAvailableTerminals ::
  "'e runtime \<Rightarrow> coordinator_options \<Rightarrow> 'e coord \<Rightarrow> jsstr list \<times> 'e coord" where
  "getAvailableTerminals rt opts c =
     (case await (rt_listTerminals rt (co_worktree opts)) c of
        (Inl _, c1) \<Rightarrow> ([], c1)
      | (Inr terminals, c1) \<Rightarrow>
          (map ti_handle (filter (\<lambda>t. ti_handle t \<noteq> co_coordinatorHandle opts
             \<and> ti_handle t \<notin> set (busy_handles (c_db c1)) \<and> ti_connected t \<and> ti_writable t)
             terminals), c1))"

fun dispatch_loop ::
  "'e runtime \<Rightarrow> coordinator_options \<Rightarrow> task_row list \<Rightarrow> int \<Rightarrow> jsstr list \<Rightarrow> 'e coord \<Rightarrow> 'e coord" where
  "dispatch_loop rt opts [] slots terminals c = c"
| "dispatch_loop rt opts (task # ts) slots [] c = c"
| "dispatch_loop rt opts (task # ts) slots (h # hs) c =
     (if slots \<le> 0 then c
      else (case dispatchTask rt opts task h c of
              (Some err, c') \<Rightarrow> dispatch_loop rt opts ts (slots - 1) hs
                (log (js ''Failed to dispatch task '' @ t_id task @ js '': '' @ err) c')
            | (None, c') \<Rightarrow> dispatch_loop rt opts ts (slots - 1) hs c'))"

definition dispatchReadyTasks ::
  "'e runtime \<Rightarrow> coordinator_options \<Rightarrow> 'e coord \<Rightarrow> 'e coord" where
  "dispatchReadyTasks rt opts c0 =
     (let c = c0\<lparr>c_phase := Dispatching\<rparr>;
          readyTasks = listTasks (c_db c) None True;
          slots = co_maxConcurrent opts - int (length (listTasks (c_db c) (Some T_dispatched) False))
      in if readyTasks = [] then c
         else if slots \<le> 0 then c
         else (case getAvailableTerminals rt opts c of
                 (terminals, c1) \<Rightarrow>
                   if terminals = []
                   then (case await (rt_createTerminal rt (co_worktree opts)
                               (js ''Worker: '' @ take 40 (t_spec (hd readyTasks)))) c1 of
                           (Inl err, c2) \<Rightarrow> log (js ''Failed to create terminal: '' @ err) c2
                         | (Inr handle, c2) \<Rightarrow>
                             dispatch_loop rt opts readyTasks slots [handle]
                               (log (js ''Created worker terminal '' @ handle) c2))
                   else dispatch_loop rt opts readyTasks slots terminals c1))"

subsection \<open>Convergence and the loop\<close>

definition all_done :: "task_row list \<Rightarrow> bool" where
  "all_done ts = list_all (\<lambda>t. terminal_task_status (t_status t)) ts"

definition checkConvergence :: "'e coord \<Rightarrow> bool \<times> 'e coord" where
  "checkConvergence c =
     (let ts = listTasks (c_db c) None False;
          active = filter (\<lambda>t. t_status t \<in> {T_ready, T_dispatched, T_pending}) ts;
          blocked = filter (\<lambda>t. t_status t = T_blocked) ts
      in if ts = [] then (True, c)
         else if all_done ts then (True, c\<lparr>c_phase := Done\<rparr>)
         else if active = [] \<and> blocked \<noteq> []
         then (False, log (js ''Stuck: '' @ js_dec (length blocked)
                 @ js '' tasks blocked with no active tasks. Resolve decision gates to continue.'') c)
         else (False, c))"

definition tick :: "'e runtime \<Rightarrow> coordinator_options \<Rightarrow> 'e coord \<Rightarrow> (exn + bool) \<times> 'e coord" where
  "tick rt opts c = (case processMessages rt opts c of
     (Some e, c1) \<Rightarrow> (Inl e, c1)
   | (None, c1) \<Rightarrow>
       (case checkConvergence (dispatchReadyTasks rt opts
               (warnStaleDispatches rt (processDecisionGates rt c1))) of
          (converged, c2) \<Rightarrow> (Inr converged, c2)))"

text \<open>The \<open>while\<close> loop: no result when the fuel is spent and it still polls.\<close>

fun run_ticks ::
  "'e runtime \<Rightarrow> coordinator_options \<Rightarrow> nat \<Rightarrow> 'e coord \<Rightarrow> (exn option \<times> 'e coord) option" where
  "run_ticks rt opts 0 c = None"
| "run_ticks rt opts (Suc n) c =
     (if c_stopped c then Some (None, c)
      else (case tick rt opts c of
              (Inl e, c') \<Rightarrow> Some (Some e, c')
            | (Inr True, c') \<Rightarrow> Some (None, c')
            | (Inr False, c') \<Rightarrow>
                run_ticks rt opts n (snd (await (rt_sleep rt (co_pollIntervalMs opts)) c'))))"

definition decompose :: "'e coord \<Rightarrow> exn option \<times> 'e coord" where
  "decompose c0 =
     (let c = c0\<lparr>c_phase := Decomposing\<rparr>; existing = listTasks (c_db c) None False
      in if existing = []
         then (Some (Error (js ''No tasks found. Create tasks with orchestration.taskCreate before running the coordinator.'')), c)
         else (None, (log (js ''Found '' @ js_dec (length existing) @ js '' tasks in DAG'') c)
                 \<lparr>c_phase := Dispatching\<rparr>))"

record run_report =
  rp_runId :: jsstr
  rp_status :: coordinator_status
  rp_completedTasks :: "jsstr list"
  rp_failedTasks :: "jsstr list"
  rp_escalations :: "message_row list"

text \<open>\<open>[...new Set(xs)]\<close>: the first occurrences, in order.\<close>

definition uniq :: "'a list \<Rightarrow> 'a list" where
  "uniq xs = rev (remdups (rev xs))"

fun status_text :: "coordinator_status \<Rightarrow> jsstr" where
  "status_text C_idle = js ''idle''"
| "status_text C_running = js ''running''"
| "status_text C_completed = js ''completed''"
| "status_text C_failed = js ''failed''"

definition finish_run :: "'e runtime \<Rightarrow> jsstr \<Rightarrow> 'e coord \<Rightarrow> run_report \<times> 'e coord" where
  "finish_run rt runId c =
     (let ts = listTasks (c_db c) None False;
          failed = uniq (c_failedTasks c @ map t_id (filter (\<lambda>t. t_status t = T_failed) ts));
          status = (if c_stopped c \<or> failed \<noteq> [] \<or> \<not> all_done ts then C_failed else C_completed)
      in case clock_of rt c of (now, _, c1) \<Rightarrow>
           (\<lparr>rp_runId = runId, rp_status = status, rp_completedTasks = c_completedTasks c1,
             rp_failedTasks = failed, rp_escalations = c_escalations c1\<rparr>,
            log (js ''Coordinator run '' @ runId @ js '' '' @ status_text status)
              (c1\<lparr>c_db := snd (updateCoordinatorRun now runId status (c_db c1))\<rparr>)))"

definition abort_run :: "'e runtime \<Rightarrow> jsstr \<Rightarrow> 'e coord \<Rightarrow> 'e coord" where
  "abort_run rt runId c = (case clock_of rt c of (now, _, c1) \<Rightarrow>
     c1\<lparr>c_db := snd (updateCoordinatorRun now runId C_failed (c_db c1))\<rparr>)"

definition executeLoop ::
  "'e runtime \<Rightarrow> coordinator_options \<Rightarrow> nat \<Rightarrow> jsstr \<Rightarrow> 'e coord
    \<Rightarrow> ((exn + run_report) \<times> 'e coord) option" where
  "executeLoop rt opts fuel runId c =
     (case decompose (log (js ''Coordinator run '' @ runId @ js '' started'')
               (c\<lparr>c_runId := runId\<rparr>)) of
        (Some e, c1) \<Rightarrow> Some (Inl e, abort_run rt runId c1)
      | (None, c1) \<Rightarrow>
          (case run_ticks rt opts fuel c1 of
             None \<Rightarrow> None
           | Some (Some e, c2) \<Rightarrow> Some (Inl e, abort_run rt runId c2)
           | Some (None, c2) \<Rightarrow>
               (case finish_run rt runId c2 of (report, c3) \<Rightarrow> Some (Inr report, c3))))"

definition init_coord :: "odb \<Rightarrow> 'e \<Rightarrow> 'e coord" where
  "init_coord db env = \<lparr>c_db = db, c_env = env, c_stopped = False, c_logs = [], c_runId = [],
     c_phase = Decomposing, c_completedTasks = [], c_failedTasks = [], c_escalations = []\<rparr>"

definition run ::
  "'e runtime \<Rightarrow> coordinator_options \<Rightarrow> jsstr \<Rightarrow> nat \<Rightarrow> odb \<Rightarrow> 'e
    \<Rightarrow> ((exn + run_report) \<times> 'e coord) option" where
  "run rt opts spec fuel db env =
     (case clock_of rt (init_coord db env) of (now, hex, c) \<Rightarrow>
      (case createCoordinatorRun hex now spec (co_coordinatorHandle opts)
              (Some (co_pollIntervalMs opts)) (c_db c) of
         Inl e \<Rightarrow> Some (Inl e, c)
       | Inr (r, db') \<Rightarrow> executeLoop rt opts fuel (r_id r) (c\<lparr>c_db := db'\<rparr>)))"

text \<open>The RPC handler has created the run already.\<close>

definition runFromExistingRun ::
  "'e runtime \<Rightarrow> coordinator_options \<Rightarrow> nat \<Rightarrow> jsstr \<Rightarrow> odb \<Rightarrow> 'e
    \<Rightarrow> ((exn + run_report) \<times> 'e coord) option" where
  "runFromExistingRun rt opts fuel runId db env = executeLoop rt opts fuel runId (init_coord db env)"

definition stop :: "'e coord \<Rightarrow> 'e coord" where
  "stop c = c\<lparr>c_stopped := True\<rparr>"

end
