(* ===== verification/Orch_Groups.thy ===== *)
theory Orch_Groups
  imports Orch_Types
begin

section \<open>Group addresses and message banners\<close>

text \<open>
  \<open>src/src/main/runtime/orchestration/groups.ts\<close> (the recipients a group address names) with
  the two title matchers it uses (\<open>src/src/shared/agent-name-token-match.ts\<close>,
  \<open>isCursorAgentTitle\<close> of \<open>src/src/shared/agent-title-core.ts\<close>), and
  \<open>src/src/main/runtime/orchestration/formatter.ts\<close> (the banner a message is printed with).
  The case mappings of the language (\<open>toLowerCase\<close>, \<open>toUpperCase\<close>) are arguments: their tables
  are the Unicode database. Shown: a group never names its sender, nor a handle that is not a
  terminal of the list.
\<close>

subsection \<open>Agent names in a title\<close>

text \<open>The unit class \<open>[\w./\\-]\<close>, and the letters of a name compared as the flag \<open>i\<close> does.\<close>

definition name_unit :: "nat \<Rightarrow> bool" where
  "name_unit u = ((48 \<le> u \<and> u \<le> 57) \<or> (65 \<le> u \<and> u \<le> 90) \<or> (97 \<le> u \<and> u \<le> 122)
     \<or> u \<in> {95, 46, 47, 92, 45})"

definition ascii_upper :: "nat \<Rightarrow> nat" where
  "ascii_upper u = (if 97 \<le> u \<and> u \<le> 122 then u - 32 else u)"

text \<open>What is left after \<open>name\<close> at the front of the text.\<close>

fun after_name :: "jsstr \<Rightarrow> jsstr \<Rightarrow> jsstr option" where
  "after_name [] s = Some s"
| "after_name (c # cs) [] = None"
| "after_name (c # cs) (u # s) =
     (if ascii_upper c = ascii_upper u then after_name cs s else None)"

definition WINDOWS_EXECUTABLE_SUFFIXES :: "jsstr list" where
  "WINDOWS_EXECUTABLE_SUFFIXES = [js ''.exe'', js ''.cmd'', js ''.bat'', js ''.ps1'']"

definition token_end :: "jsstr \<Rightarrow> bool" where
  "token_end s = (case s of [] \<Rightarrow> True | u # _ \<Rightarrow> \<not> name_unit u)"

definition ends_token :: "jsstr option \<Rightarrow> bool" where
  "ends_token r = (case r of None \<Rightarrow> False | Some s \<Rightarrow> token_end s)"

definition name_token :: "jsstr \<Rightarrow> jsstr \<Rightarrow> bool" where
  "name_token name s = (case after_name name s of
     None \<Rightarrow> False
   | Some r \<Rightarrow> token_end r
       \<or> list_ex (\<lambda>suffix. ends_token (after_name suffix r)) WINDOWS_EXECUTABLE_SUFFIXES)"

text \<open>\<open>buildAgentNameRe(name).test(title)\<close>: \<open>before\<close> says whether the unit before is in the class.\<close>

fun name_search :: "bool \<Rightarrow> jsstr \<Rightarrow> jsstr \<Rightarrow> bool" where
  "name_search before name [] = (\<not> before \<and> name_token name [])"
| "name_search before name (u # s) =
     ((\<not> before \<and> name_token name (u # s)) \<or> name_search (name_unit u) name s)"

definition agent_name_test :: "jsstr \<Rightarrow> jsstr \<Rightarrow> bool" where
  "agent_name_test name title = name_search False name title"

definition isCursorAgentTitle :: "(jsstr \<Rightarrow> jsstr) \<Rightarrow> jsstr \<Rightarrow> bool" where
  "isCursorAgentTitle lower title =
     (let trimmed = js_trim title; l = lower trimmed
      in l = js ''cursor agent'' \<or> l = js ''cursor ready'' \<or> l = js ''cursor - action required''
         \<or> (case trimmed of [] \<Rightarrow> False
             | u # r \<Rightarrow> 10240 \<le> u \<and> u \<le> 10495 \<and> r = js '' Cursor Agent''))"

subsection \<open>Resolving a group\<close>

record terminal_summary =
  ts_handle :: jsstr
  ts_worktreeId :: jsstr
  ts_title :: "jsstr option"

definition AGENT_NAME_GROUPS :: "jsstr list" where
  "AGENT_NAME_GROUPS = map js [''claude'', ''openclaude'', ''codex'', ''opencode'', ''mimo'',
     ''gemini'', ''droid'', ''grok'', ''cursor'']"

definition isGroupAddress :: "jsstr \<Rightarrow> bool" where
  "isGroupAddress a = (take 1 a = js ''@'')"

definition titleMatchesAgentNameGroup :: "(jsstr \<Rightarrow> jsstr) \<Rightarrow> jsstr \<Rightarrow> jsstr \<Rightarrow> bool" where
  "titleMatchesAgentNameGroup lower title agentName =
     (if agentName = js ''cursor'' then isCursorAgentTitle lower title
      else agent_name_test agentName title)"

definition resolveGroupAddress ::
  "(jsstr \<Rightarrow> jsstr) \<Rightarrow> jsstr \<Rightarrow> jsstr \<Rightarrow> terminal_summary list \<Rightarrow> (jsstr \<Rightarrow> jsstr option)
    \<Rightarrow> jsstr list" where
  "resolveGroupAddress lower a senderHandle terminals getAgentStatus =
     (if \<not> isGroupAddress a then [a]
      else (let group = lower a; agentName = drop 1 group;
                others = filter (\<lambda>t. ts_handle t \<noteq> senderHandle) terminals
            in if group = js ''@all'' then map ts_handle others
               else if group = js ''@idle''
               then map ts_handle
                      (filter (\<lambda>t. getAgentStatus (ts_handle t) = Some (js ''idle'')) others)
               else if take 10 group = js ''@worktree:''
               then map ts_handle (filter (\<lambda>t. ts_worktreeId t = drop 10 a) others)
               else if agentName \<in> set AGENT_NAME_GROUPS
               then map ts_handle (filter (\<lambda>t. titleMatchesAgentNameGroup lower
                      (case ts_title t of None \<Rightarrow> [] | Some s \<Rightarrow> s) agentName) others)
               else []))"

lemma group_recipients:
  "isGroupAddress a \<Longrightarrow> h \<in> set (resolveGroupAddress lower a from terminals status) \<Longrightarrow>
     h \<noteq> from \<and> h \<in> ts_handle ` set terminals"
  by (auto simp: resolveGroupAddress_def Let_def split: if_splits)

subsection \<open>Banners\<close>

definition BANNER_WIDTH :: nat where
  "BANNER_WIDTH = 60"

definition SEPARATOR :: jsstr where
  "SEPARATOR = replicate BANNER_WIDTH 9472"

fun message_type_text :: "message_type \<Rightarrow> jsstr" where
  "message_type_text MT_status = js ''status''"
| "message_type_text MT_dispatch = js ''dispatch''"
| "message_type_text MT_worker_done = js ''worker_done''"
| "message_type_text MT_merge_ready = js ''merge_ready''"
| "message_type_text MT_escalation = js ''escalation''"
| "message_type_text MT_handoff = js ''handoff''"
| "message_type_text MT_decision_gate = js ''decision_gate''"
| "message_type_text MT_heartbeat = js ''heartbeat''"

fun priority_tag :: "message_priority \<Rightarrow> jsstr" where
  "priority_tag P_urgent = js '' [URGENT]''"
| "priority_tag P_high = js '' [HIGH]''"
| "priority_tag P_normal = []"

text \<open>\<open>lines.join(separator)\<close>\<close>

definition join_with :: "jsstr \<Rightarrow> jsstr list \<Rightarrow> jsstr" where
  "join_with sep ls = (case ls of [] \<Rightarrow> [] | l # r \<Rightarrow> l @ concat (map (\<lambda>x. sep @ x) r))"

definition banner_header :: "(jsstr \<Rightarrow> jsstr) \<Rightarrow> message_row \<Rightarrow> jsstr" where
  "banner_header upper msg =
     replicate 4 9472 @ js '' From: '' @ upper (m_from_handle msg) @ js '' ('' @ m_from_handle msg
       @ js '')'' @ priority_tag (m_priority msg) @ js '' ('' @ message_type_text (m_type msg)
       @ js '') '' @ replicate 4 9472"

definition formatMessageBanner :: "(jsstr \<Rightarrow> jsstr) \<Rightarrow> message_row \<Rightarrow> jsstr" where
  "formatMessageBanner upper msg =
     join_with [10]
       ([banner_header upper msg, js ''Subject: '' @ m_subject msg]
        @ (if m_body msg = [] then [] else [m_body msg])
        @ (if truthy (m_payload msg) then [js ''[Payload: '' @ the (m_payload msg) @ js '']''] else [])
        @ [js ''[Reply: orca orchestration reply --id '' @ m_id msg @ js '' --body '' @ [34]
             @ js ''...'' @ [34] @ js '']'', SEPARATOR])"

definition formatMessagesForInjection :: "(jsstr \<Rightarrow> jsstr) \<Rightarrow> message_row list \<Rightarrow> jsstr" where
  "formatMessagesForInjection upper msgs =
     (if msgs = [] then []
      else [10] @ js ''--- Orchestration Messages ('' @ js_dec (length msgs) @ js '') ---'' @ [10]
        @ join_with [10, 10] (map (formatMessageBanner upper) msgs) @ [10] @ js ''---'' @ [10])"

end
