(* ===== verification/Orch_Wait.thy ===== *)
theory Orch_Wait
  imports Orch_Db
begin

section \<open>Waiting for a message\<close>

text \<open>
  The message waiters of \<open>src/src/main/runtime/orca-runtime.ts\<close> (\<open>waitForMessage\<close>,
  \<open>notifyMessageArrived\<close>, \<open>removeMessageWaiter\<close>): one waiter per blocked \<open>check --wait\<close> or
  \<open>ask\<close>, in the order they began to wait. A waiter is named by a number; the timer that ends
  it and the abort of its client are events from outside, which remove it. Shown: a message
  wakes the waiters of its handle whose type filter admits it and no other.
\<close>

record message_waiter =
  mw_id :: nat
  mw_handle :: jsstr
  mw_typeFilter :: "message_type list option"
  mw_timeoutMs :: int

record message_waiters =
  ws_next :: nat
  ws_waiting :: "message_waiter list"

definition no_waiters :: message_waiters where
  "no_waiters = \<lparr>ws_next = 0, ws_waiting = []\<rparr>"

definition MESSAGE_WAIT_DEFAULT_TIMEOUT_MS :: int where
  "MESSAGE_WAIT_DEFAULT_TIMEOUT_MS = 120000"

definition add_waiter ::
  "jsstr \<Rightarrow> message_type list option \<Rightarrow> int option \<Rightarrow> message_waiters
    \<Rightarrow> message_waiter \<times> message_waiters" where
  "add_waiter handle typeFilter timeoutMs ws =
     (let w = \<lparr>mw_id = ws_next ws, mw_handle = handle, mw_typeFilter = typeFilter,
               mw_timeoutMs = (case timeoutMs of None \<Rightarrow> MESSAGE_WAIT_DEFAULT_TIMEOUT_MS
                               | Some n \<Rightarrow> n)\<rparr>
      in (w, \<lparr>ws_next = Suc (ws_next ws), ws_waiting = ws_waiting ws @ [w]\<rparr>))"

definition removeMessageWaiter :: "nat \<Rightarrow> message_waiters \<Rightarrow> message_waiters" where
  "removeMessageWaiter i ws = ws\<lparr>ws_waiting := filter (\<lambda>w. mw_id w \<noteq> i) (ws_waiting ws)\<rparr>"

text \<open>\<open>waiter.typeFilter && !waiter.typeFilter.includes(messageType)\<close>: an empty filter is a filter.\<close>

definition filter_skips :: "message_waiter \<Rightarrow> message_type \<Rightarrow> bool" where
  "filter_skips w t = (case mw_typeFilter w of None \<Rightarrow> False | Some ts \<Rightarrow> t \<notin> set ts)"

definition woken_by :: "jsstr \<Rightarrow> message_type \<Rightarrow> message_waiters \<Rightarrow> message_waiter list" where
  "woken_by handle t ws =
     filter (\<lambda>w. mw_handle w = handle \<and> \<not> filter_skips w t) (ws_waiting ws)"

text \<open>The waiters are resolved one after the other.\<close>

definition notifyMessageArrived :: "jsstr \<Rightarrow> message_type \<Rightarrow> message_waiters \<Rightarrow> message_waiters" where
  "notifyMessageArrived handle t ws =
     fold (\<lambda>w. removeMessageWaiter (mw_id w)) (woken_by handle t ws) ws"

lemma fold_remove:
  "ws_waiting (fold (\<lambda>w. removeMessageWaiter (mw_id w)) vs ws) =
     filter (\<lambda>w. mw_id w \<notin> mw_id ` set vs) (ws_waiting ws)"
  by (induction vs arbitrary: ws) (auto simp: removeMessageWaiter_def intro: filter_cong)

lemma notify_waiting:
  assumes "distinct (map mw_id (ws_waiting ws))"
  shows "ws_waiting (notifyMessageArrived handle t ws) =
    filter (\<lambda>w. mw_handle w = handle \<longrightarrow> filter_skips w t) (ws_waiting ws)"
  unfolding notifyMessageArrived_def fold_remove woken_by_def
  using assms by (auto simp: distinct_map inj_on_def intro!: filter_cong)

text \<open>The numbers of the waiters are unique, because each comes from the counter.\<close>

definition waiters_ok :: "message_waiters \<Rightarrow> bool" where
  "waiters_ok ws = (distinct (map mw_id (ws_waiting ws))
     \<and> (\<forall>w \<in> set (ws_waiting ws). mw_id w < ws_next ws))"

lemma waiters_ok_add: "waiters_ok ws \<Longrightarrow> waiters_ok (snd (add_waiter h f n ws))"
  by (auto simp: waiters_ok_def add_waiter_def Let_def)

lemma waiters_ok_remove: "waiters_ok ws \<Longrightarrow> waiters_ok (removeMessageWaiter i ws)"
  by (auto simp: waiters_ok_def removeMessageWaiter_def distinct_map_filter)

lemma waiters_ok_notify: "waiters_ok ws \<Longrightarrow> waiters_ok (notifyMessageArrived h t ws)"
  unfolding notifyMessageArrived_def
  by (induction "woken_by h t ws" arbitrary: ws rule: list.induct)
    (auto intro: waiters_ok_remove fold_invariant [where Q = "\<lambda>_. True"])

end
