(* ===== verification/Orch_Rpc.thy ===== *)
theory Orch_Rpc
  imports Coordinator Orch_Groups Orch_Wait
begin

section \<open>The RPC methods of the orchestration\<close>

text \<open>
  \<open>src/src/main/runtime/rpc/methods/orchestration.ts\<close>: the methods the CLI calls, over the
  database and the message waiters. A request's \<open>params\<close> is a parsed JSON value; the schema of
  a method (\<open>src/src/main/runtime/rpc/schemas.ts\<close> and the schema objects of the methods' file)
  is a function that gives the typed parameters, or \<open>None\<close> where the schema reports an issue.
  A handler is a computation (\<open>act\<close>) over the world: it changes the state and either throws
  or gives a value. What the handlers ask of the rest of the runtime (clock, terminals, time
  passing while they wait) is the record \<open>rpc_runtime\<close>, over a state \<open>'e\<close> of its own.
\<close>

subsection \<open>Computations\<close>

text \<open>The module variable \<open>activeCoordinator\<close>, the coordinators that were told to stop, and the
  loops that were started in the background; a coordinator is named by a number.\<close>

record gate_module =
  gm_active :: "nat option"
  gm_next :: nat
  gm_stopped :: "nat list"
  gm_loops :: "(nat \<times> coordinator_options \<times> jsstr) list"

record 'e world =
  w_env :: 'e
  w_db :: odb
  w_waiters :: message_waiters
  w_module :: gate_module

type_synonym ('e, 'a) act = "'e world \<Rightarrow> (exn + 'a) \<times> 'e world"

definition ret :: "'a \<Rightarrow> ('e, 'a) act" where
  "ret x w = (Inr x, w)"

definition throw :: "exn \<Rightarrow> ('e, 'a) act" where
  "throw e w = (Inl e, w)"

definition and_then :: "('e, 'a) act \<Rightarrow> ('a \<Rightarrow> ('e, 'b) act) \<Rightarrow> ('e, 'b) act" where
  "and_then a f w = (case a w of (Inl e, w') \<Rightarrow> (Inl e, w') | (Inr x, w') \<Rightarrow> f x w')"

fun for_each :: "('x \<Rightarrow> ('e, 'a) act) \<Rightarrow> 'x list \<Rightarrow> ('e, 'a list) act" where
  "for_each f [] = ret []"
| "for_each f (x # xs) = and_then (f x) (\<lambda>y. and_then (for_each f xs) (\<lambda>ys. ret (y # ys)))"

definition read_db :: "(odb \<Rightarrow> 'a) \<Rightarrow> ('e, 'a) act" where
  "read_db f w = (Inr (f (w_db w)), w)"

definition update_db :: "(odb \<Rightarrow> odb) \<Rightarrow> ('e, unit) act" where
  "update_db f w = (Inr (), w\<lparr>w_db := f (w_db w)\<rparr>)"

text \<open>A statement that fails as a whole, and a method that may throw halfway.\<close>

definition try_db :: "(odb \<Rightarrow> exn + ('a \<times> odb)) \<Rightarrow> ('e, 'a) act" where
  "try_db f w = (case f (w_db w) of Inl e \<Rightarrow> (Inl e, w) | Inr (x, db) \<Rightarrow> (Inr x, w\<lparr>w_db := db\<rparr>))"

definition effect_db :: "(odb \<Rightarrow> (exn + 'a) \<times> odb) \<Rightarrow> ('e, 'a) act" where
  "effect_db f w = (case f (w_db w) of (r, db) \<Rightarrow> (r, w\<lparr>w_db := db\<rparr>))"

definition state_db :: "(odb \<Rightarrow> 'a \<times> odb) \<Rightarrow> ('e, 'a) act" where
  "state_db f w = (case f (w_db w) of (x, db) \<Rightarrow> (Inr x, w\<lparr>w_db := db\<rparr>))"

definition on_waiters :: "(message_waiters \<Rightarrow> 'a \<times> message_waiters) \<Rightarrow> ('e, 'a) act" where
  "on_waiters f w = (case f (w_waiters w) of (x, ws) \<Rightarrow> (Inr x, w\<lparr>w_waiters := ws\<rparr>))"

definition on_module :: "(gate_module \<Rightarrow> 'a \<times> gate_module) \<Rightarrow> ('e, 'a) act" where
  "on_module f w = (case f (w_module w) of (x, m) \<Rightarrow> (Inr x, w\<lparr>w_module := m\<rparr>))"

definition on_env :: "('e \<Rightarrow> 'a \<times> 'e) \<Rightarrow> ('e, 'a) act" where
  "on_env f w = (case f (w_env w) of (x, e) \<Rightarrow> (Inr x, w\<lparr>w_env := e\<rparr>))"

subsection \<open>The runtime\<close>

text \<open>\<open>rr_clock\<close> reads the clock and draws the random part of an id, \<open>rr_millis\<close> is \<open>Date.now()\<close>,
  \<open>rr_aborted\<close> is \<open>signal?.aborted\<close>. A prompt that is rejected gives the error and its text.
  \<open>rr_pause\<close> is the time until the promise of a waiter resolves, by whatever event.\<close>

record 'e rpc_runtime =
  rr_clock :: "'e \<Rightarrow> (clock \<times> jsstr) \<times> 'e"
  rr_millis :: "'e \<Rightarrow> int \<times> 'e"
  rr_aborted :: "'e \<Rightarrow> bool"
  rr_deliverPendingMessages :: "jsstr \<Rightarrow> ('e, unit) act"
  rr_listTerminals :: "('e, terminal_summary list) act"
  rr_getAgentStatusForHandle :: "'e \<Rightarrow> jsstr \<Rightarrow> jsstr option"
  rr_getTerminalPaneKey :: "'e \<Rightarrow> jsstr \<Rightarrow> jsstr option"
  rr_isTerminalRunningAgent :: "jsstr \<Rightarrow> ('e, bool) act"
  rr_sendTerminalAgentPrompt :: "jsstr \<Rightarrow> jsstr \<Rightarrow> ('e, (exn \<times> jsstr) option) act"
  rr_pause :: "message_waiter \<Rightarrow> ('e, unit) act"
  rr_toLowerCase :: "jsstr \<Rightarrow> jsstr"
  rr_toUpperCase :: "jsstr \<Rightarrow> jsstr"
  rr_number :: "jsstr \<Rightarrow> int option"

definition aborted :: "'e rpc_runtime \<Rightarrow> ('e, bool) act" where
  "aborted rt w = (Inr (rr_aborted rt (w_env w)), w)"

definition notify :: "jsstr \<Rightarrow> message_type \<Rightarrow> ('e, unit) act" where
  "notify handle t = on_waiters (\<lambda>ws. ((), notifyMessageArrived handle t ws))"

definition waitForMessage ::
  "'e rpc_runtime \<Rightarrow> jsstr \<Rightarrow> message_type list option \<Rightarrow> int option \<Rightarrow> ('e, unit) act" where
  "waitForMessage rt handle typeFilter timeoutMs =
     and_then (aborted rt) (\<lambda>stop.
       if stop then ret ()
       else and_then (on_waiters (add_waiter handle typeFilter timeoutMs)) (\<lambda>waiter.
            and_then (rr_pause rt waiter) (\<lambda>_.
              on_waiters (\<lambda>ws. ((), removeMessageWaiter (mw_id waiter) ws)))))"

definition insert_message :: "'e rpc_runtime \<Rightarrow> new_message \<Rightarrow> ('e, message_row) act" where
  "insert_message rt msg =
     and_then (on_env (rr_clock rt)) (\<lambda>(now, hex). try_db (insertMessage hex now msg))"

definition reconcile :: "'e rpc_runtime \<Rightarrow> message_row \<Rightarrow> ('e, lifecycle_result) act" where
  "reconcile rt msg =
     and_then (on_env (rr_clock rt)) (\<lambda>(now, _).
       effect_db (\<lambda>db. case reconcileLifecycleMessage now msg db of (r, _, db') \<Rightarrow> (r, db')))"

subsection \<open>Schemas\<close>

definition OptionalFiniteNumber :: "(jsstr \<Rightarrow> int option) \<Rightarrow> json option \<Rightarrow> int option" where
  "OptionalFiniteNumber number v = (case v of Some (JNum l) \<Rightarrow> number l | _ \<Rightarrow> None)"

definition OptionalString :: "json option \<Rightarrow> jsstr option" where
  "OptionalString v = (case v of Some (JStr s) \<Rightarrow> or_null s | _ \<Rightarrow> None)"

definition OptionalBoolean :: "json option \<Rightarrow> bool option" where
  "OptionalBoolean v = (case v of Some (JBool b) \<Rightarrow> Some b | _ \<Rightarrow> None)"

definition requiredString :: "json option \<Rightarrow> jsstr option" where
  "requiredString v = (case v of Some (JStr s) \<Rightarrow> or_null s | _ \<Rightarrow> None)"

text \<open>\<open>z.enum(..).optional()\<close>: absent, or one of the words.\<close>

definition optional_enum :: "(jsstr \<times> 'a) list \<Rightarrow> json option \<Rightarrow> 'a option option" where
  "optional_enum names v = (case v of
     None \<Rightarrow> Some None
   | Some (JStr s) \<Rightarrow> map_option Some (map_of names s)
   | _ \<Rightarrow> None)"

text \<open>\<open>z.object(..)\<close>: the members of an object; no params is the empty object.\<close>

definition object_params :: "json option \<Rightarrow> (jsstr \<times> json) list option" where
  "object_params v = (case v of None \<Rightarrow> Some [] | Some JNull \<Rightarrow> Some [] | Some (JObj ms) \<Rightarrow> Some ms
     | _ \<Rightarrow> None)"

definition MESSAGE_TYPES :: "(jsstr \<times> message_type) list" where
  "MESSAGE_TYPES = map (\<lambda>t. (message_type_text t, t))
     [MT_status, MT_dispatch, MT_worker_done, MT_merge_ready, MT_escalation, MT_handoff,
      MT_decision_gate, MT_heartbeat]"

definition MESSAGE_PRIORITIES :: "(jsstr \<times> message_priority) list" where
  "MESSAGE_PRIORITIES = [(js ''normal'', P_normal), (js ''high'', P_high), (js ''urgent'', P_urgent)]"

definition TASK_STATUSES :: "(jsstr \<times> task_status) list" where
  "TASK_STATUSES = map (\<lambda>s. (task_status_text s, s))
     [T_pending, T_ready, T_dispatched, T_completed, T_failed, T_blocked]"

definition lifecycle_type :: "message_type option \<Rightarrow> bool" where
  "lifecycle_type t = (t = Some MT_worker_done \<or> t = Some MT_heartbeat)"

definition field :: "string \<Rightarrow> (jsstr \<times> json) list \<Rightarrow> json option" where
  "field k ms = jget (js k) ms"

record send_params =
  sp_to :: jsstr
  sp_subject :: jsstr
  sp_from :: "jsstr option"
  sp_body :: "jsstr option"
  sp_type :: "message_type option"
  sp_priority :: "message_priority option"
  sp_threadId :: "jsstr option"
  sp_payload :: "jsstr option"
  sp_senderPaneKey :: "jsstr option"

definition SendParams :: "(jsstr \<times> json) list \<Rightarrow> send_params option" where
  "SendParams ms =
     Option.bind (requiredString (field ''to'' ms)) (\<lambda>recipient.
     Option.bind (requiredString (field ''subject'' ms)) (\<lambda>subject.
     Option.bind (optional_enum MESSAGE_TYPES (field ''type'' ms)) (\<lambda>ty.
     Option.bind (optional_enum MESSAGE_PRIORITIES (field ''priority'' ms)) (\<lambda>priority.
       if lifecycle_type ty \<and> isGroupAddress recipient then None
       else Some \<lparr>sp_to = recipient, sp_subject = subject,
              sp_from = OptionalString (field ''from'' ms),
              sp_body = OptionalString (field ''body'' ms), sp_type = ty, sp_priority = priority,
              sp_threadId = OptionalString (field ''threadId'' ms),
              sp_payload = OptionalString (field ''payload'' ms),
              sp_senderPaneKey = OptionalString (field ''senderPaneKey'' ms)\<rparr>))))"

record check_params =
  cp_terminal :: "jsstr option"
  cp_unread :: "bool option"
  cp_peek :: "bool option"
  cp_all :: "bool option"
  cp_types :: "jsstr option"
  cp_inject :: "bool option"
  cp_wait :: "bool option"
  cp_timeoutMs :: "int option"

text \<open>\<open>params.all === true || (params.unread === false && params.peek !== true)\<close>\<close>

definition show_all :: "check_params \<Rightarrow> bool" where
  "show_all p = (cp_all p = Some True \<or> (cp_unread p = Some False \<and> cp_peek p \<noteq> Some True))"

definition CheckParams :: "(jsstr \<Rightarrow> int option) \<Rightarrow> (jsstr \<times> json) list \<Rightarrow> check_params option" where
  "CheckParams number ms =
     (let p = \<lparr>cp_terminal = OptionalString (field ''terminal'' ms),
               cp_unread = OptionalBoolean (field ''unread'' ms),
               cp_peek = OptionalBoolean (field ''peek'' ms),
               cp_all = OptionalBoolean (field ''all'' ms),
               cp_types = OptionalString (field ''types'' ms),
               cp_inject = OptionalBoolean (field ''inject'' ms),
               cp_wait = OptionalBoolean (field ''wait'' ms),
               cp_timeoutMs = OptionalFiniteNumber number (field ''timeoutMs'' ms)\<rparr>;
          modes = [cp_unread p = Some True, cp_peek p = Some True, show_all p]
      in if 1 < length (filter (\<lambda>b. b) modes) then None else Some p)"

record reply_params =
  rp_id :: jsstr
  rp_body :: jsstr
  rp_from :: "jsstr option"

definition ReplyParams :: "(jsstr \<times> json) list \<Rightarrow> reply_params option" where
  "ReplyParams ms =
     Option.bind (requiredString (field ''id'' ms)) (\<lambda>i.
     Option.bind (requiredString (field ''body'' ms)) (\<lambda>body.
       Some \<lparr>rp_id = i, rp_body = body, rp_from = OptionalString (field ''from'' ms)\<rparr>))"

record inbox_params =
  ip_limit :: "int option"
  ip_terminal :: "jsstr option"

definition InboxParams :: "(jsstr \<Rightarrow> int option) \<Rightarrow> (jsstr \<times> json) list \<Rightarrow> inbox_params option" where
  "InboxParams number ms =
     Some \<lparr>ip_limit = OptionalFiniteNumber number (field ''limit'' ms),
           ip_terminal = OptionalString (field ''terminal'' ms)\<rparr>"

record task_create_params =
  tc_spec :: jsstr
  tc_taskTitle :: "jsstr option"
  tc_displayName :: "jsstr option"
  tc_deps :: "jsstr option"
  tc_parent :: "jsstr option"
  tc_callerTerminalHandle :: "jsstr option"

definition TaskCreateParams :: "(jsstr \<times> json) list \<Rightarrow> task_create_params option" where
  "TaskCreateParams ms =
     Option.bind (requiredString (field ''spec'' ms)) (\<lambda>spec.
       Some \<lparr>tc_spec = spec, tc_taskTitle = OptionalString (field ''taskTitle'' ms),
             tc_displayName = OptionalString (field ''displayName'' ms),
             tc_deps = OptionalString (field ''deps'' ms),
             tc_parent = OptionalString (field ''parent'' ms),
             tc_callerTerminalHandle = OptionalString (field ''callerTerminalHandle'' ms)\<rparr>)"

record task_list_params =
  tl_status :: "task_status option"
  tl_ready :: "bool option"
  tl_brief :: "bool option"

definition TaskListParams :: "(jsstr \<times> json) list \<Rightarrow> task_list_params option" where
  "TaskListParams ms =
     Option.bind (optional_enum TASK_STATUSES (field ''status'' ms)) (\<lambda>status.
       Some \<lparr>tl_status = status, tl_ready = OptionalBoolean (field ''ready'' ms),
             tl_brief = OptionalBoolean (field ''brief'' ms)\<rparr>)"

record task_update_params =
  tu_id :: jsstr
  tu_status :: task_status
  tu_result :: "jsstr option"

definition TaskUpdateParams :: "(jsstr \<times> json) list \<Rightarrow> task_update_params option" where
  "TaskUpdateParams ms =
     Option.bind (requiredString (field ''id'' ms)) (\<lambda>i.
     Option.bind (case field ''status'' ms of Some (JStr s) \<Rightarrow> map_of TASK_STATUSES s | _ \<Rightarrow> None)
       (\<lambda>status. Some \<lparr>tu_id = i, tu_status = status,
                        tu_result = OptionalString (field ''result'' ms)\<rparr>))"

record dispatch_params =
  dp_task :: jsstr
  dp_to :: "jsstr option"
  dp_from :: "jsstr option"
  dp_inject :: "bool option"
  dp_dryRun :: "bool option"
  dp_returnPreamble :: "bool option"
  dp_devMode :: "bool option"

definition DispatchParams :: "(jsstr \<times> json) list \<Rightarrow> dispatch_params option" where
  "DispatchParams ms =
     Option.bind (requiredString (field ''task'' ms)) (\<lambda>task.
       Some \<lparr>dp_task = task, dp_to = OptionalString (field ''to'' ms),
             dp_from = OptionalString (field ''from'' ms),
             dp_inject = OptionalBoolean (field ''inject'' ms),
             dp_dryRun = OptionalBoolean (field ''dryRun'' ms),
             dp_returnPreamble = OptionalBoolean (field ''returnPreamble'' ms),
             dp_devMode = OptionalBoolean (field ''devMode'' ms)\<rparr>)"

record dispatch_show_params =
  ds_task :: "jsstr option"
  ds_preamble :: "bool option"
  ds_from :: "jsstr option"
  ds_devMode :: "bool option"

definition DispatchShowParams :: "(jsstr \<times> json) list \<Rightarrow> dispatch_show_params option" where
  "DispatchShowParams ms =
     Some \<lparr>ds_task = OptionalString (field ''task'' ms),
           ds_preamble = OptionalBoolean (field ''preamble'' ms),
           ds_from = OptionalString (field ''from'' ms),
           ds_devMode = OptionalBoolean (field ''devMode'' ms)\<rparr>"

record ask_params =
  ap_to :: jsstr
  ap_question :: jsstr
  ap_options :: "jsstr option"
  ap_timeoutMs :: "int option"
  ap_from :: "jsstr option"

definition AskParams :: "(jsstr \<Rightarrow> int option) \<Rightarrow> (jsstr \<times> json) list \<Rightarrow> ask_params option" where
  "AskParams number ms =
     Option.bind (requiredString (field ''to'' ms)) (\<lambda>recipient.
     Option.bind (requiredString (field ''question'' ms)) (\<lambda>question.
       Some \<lparr>ap_to = recipient, ap_question = question,
             ap_options = OptionalString (field ''options'' ms),
             ap_timeoutMs = OptionalFiniteNumber number (field ''timeoutMs'' ms),
             ap_from = OptionalString (field ''from'' ms)\<rparr>))"

record reset_params =
  sc_all :: "bool option"
  sc_tasks :: "bool option"
  sc_messages :: "bool option"

definition ResetParams :: "(jsstr \<times> json) list \<Rightarrow> reset_params option" where
  "ResetParams ms =
     (let p = \<lparr>sc_all = OptionalBoolean (field ''all'' ms),
               sc_tasks = OptionalBoolean (field ''tasks'' ms),
               sc_messages = OptionalBoolean (field ''messages'' ms)\<rparr>
      in if length (filter (\<lambda>s. s = Some True) [sc_all p, sc_tasks p, sc_messages p]) \<noteq> 1
         then None else Some p)"

end
