(* ===== verification/Orch_Handlers.thy ===== *)
theory Orch_Handlers
  imports Orch_Rpc
begin

section \<open>The handlers of the orchestration methods\<close>

text \<open>
  The handlers of \<open>src/src/main/runtime/rpc/methods/orchestration.ts\<close> and
  \<open>src/src/main/runtime/rpc/methods/orchestration-gates.ts\<close>, in the order of the files, and
  \<open>RpcDispatcher.dispatch\<close> (\<open>src/src/main/runtime/rpc/dispatcher.ts\<close>) for them. The loop of
  \<open>ask\<close> takes the number of its waits as fuel and gives \<open>None\<close> while it is still waiting.
  The coordinator that \<open>run\<close> starts in the background is \<open>background_loop\<close>.
\<close>

datatype rpc_result =
    R_message message_row
  | R_messages "message_row list"
  | R_check "message_row list" "jsstr option"
  | R_inbox "message_row list"
  | R_task task_row
  | R_tasks "(task_row \<times> (jsstr option \<times> jsstr option) option \<times> bool option) list"
  | R_dispatch "dispatch_row option" bool "jsstr option"
  | R_dry_run jsstr
  | R_dispatch_show "dispatch_row option" "jsstr option"
  | R_ask "jsstr option" "jsstr option" jsstr bool
  | R_run jsstr
  | R_run_stop jsstr
  | R_gate gate_row
  | R_gates "gate_row list"
  | R_reset jsstr

definition or_else :: "'a \<Rightarrow> 'a option \<Rightarrow> 'a" where
  "or_else d v = (case v of None \<Rightarrow> d | Some x \<Rightarrow> x)"

subsection \<open>send\<close>

definition getLifecycleGroupRecipientError :: "message_type \<Rightarrow> jsstr" where
  "getLifecycleGroupRecipientError t = message_type_text t
     @ js '' messages must be sent to a concrete coordinator terminal handle, not a group address.''"

definition new_message_of :: "send_params \<Rightarrow> jsstr \<Rightarrow> jsstr option \<Rightarrow> new_message" where
  "new_message_of p recipient threadId =
     \<lparr>nm_from = or_else (js ''unknown'') (sp_from p), nm_to = recipient, nm_subject = sp_subject p,
      nm_body = sp_body p, nm_type = sp_type p, nm_priority = sp_priority p,
      nm_threadId = threadId, nm_payload = sp_payload p, nm_senderPaneKey = sp_senderPaneKey p\<rparr>"

definition announce :: "'e rpc_runtime \<Rightarrow> message_row \<Rightarrow> ('e, unit) act" where
  "announce rt msg =
     and_then (rr_deliverPendingMessages rt (m_to_handle msg)) (\<lambda>_.
       notify (m_to_handle msg) (m_type msg))"

definition send_direct :: "'e rpc_runtime \<Rightarrow> send_params \<Rightarrow> ('e, rpc_result) act" where
  "send_direct rt p =
     and_then (insert_message rt (new_message_of p (sp_to p) (sp_threadId p))) (\<lambda>msg.
       if m_type msg = MT_worker_done \<or> m_type msg = MT_heartbeat
       then and_then (reconcile rt msg) (\<lambda>r.
              if r = Suppressed then ret (R_message msg)
              else and_then (announce rt msg) (\<lambda>_. ret (R_message msg)))
       else and_then (announce rt msg) (\<lambda>_. ret (R_message msg)))"

definition send_group :: "'e rpc_runtime \<Rightarrow> send_params \<Rightarrow> ('e, rpc_result) act" where
  "send_group rt p =
     and_then (rr_listTerminals rt) (\<lambda>terminals.
     and_then (on_env (\<lambda>e. (resolveGroupAddress (rr_toLowerCase rt) (sp_to p)
        (or_else (js ''unknown'') (sp_from p)) terminals (rr_getAgentStatusForHandle rt e), e)))
       (\<lambda>handles.
       if handles = []
       then throw (Error (js ''No recipients resolved for group address: '' @ sp_to p))
       else and_then (case sp_threadId p of
                        Some t \<Rightarrow> ret t
                      | None \<Rightarrow> and_then (on_env (rr_millis rt)) (\<lambda>ms.
                                  ret (js ''thread_'' @ js_int ms))) (\<lambda>threadId.
            and_then (for_each (\<lambda>h. insert_message rt (new_message_of p h (Some threadId))) handles)
              (\<lambda>msgs.
            and_then (for_each (announce rt) msgs) (\<lambda>_. ret (R_messages msgs))))))"

definition rpc_send :: "'e rpc_runtime \<Rightarrow> send_params \<Rightarrow> ('e, rpc_result) act" where
  "rpc_send rt p = (if isGroupAddress (sp_to p) then send_group rt p else send_direct rt p)"

subsection \<open>check\<close>

text \<open>\<open>.split(',').map((t) => t.trim()).filter(Boolean)\<close>\<close>

definition comma_words :: "jsstr \<Rightarrow> jsstr list" where
  "comma_words s = filter (\<lambda>t. t \<noteq> []) (map js_trim (split_on 44 s))"

definition type_filter :: "jsstr option \<Rightarrow> exn + message_type list option" where
  "type_filter types =
     (if \<not> truthy types then Inr None
      else (let ws = comma_words (the types);
                invalid = filter (\<lambda>t. map_of MESSAGE_TYPES t = None) ws
            in if invalid \<noteq> []
               then Inl (Error (js ''Invalid --types: '' @ join_with [44] invalid))
               else Inr (Some (List.map_filter (map_of MESSAGE_TYPES) ws))))"

definition check_handle :: "check_params \<Rightarrow> jsstr" where
  "check_handle p = or_else (js ''unknown'') (cp_terminal p)"

definition consume_unread :: "check_params \<Rightarrow> bool" where
  "consume_unread p = (\<not> show_all p \<and> cp_peek p \<noteq> Some True)"

definition consume :: "'e rpc_runtime \<Rightarrow> message_row list \<Rightarrow> ('e, unit) act" where
  "consume rt msgs =
     and_then (for_each (reconcile rt) msgs) (\<lambda>_. update_db (markAsRead (map m_id msgs)))"

definition read_and_return ::
  "'e rpc_runtime \<Rightarrow> check_params \<Rightarrow> message_type list option \<Rightarrow> ('e, rpc_result) act" where
  "read_and_return rt p types =
     and_then (read_db (\<lambda>db. if show_all p
         then getAllMessagesForHandle db (check_handle p) None types
         else getUnreadMessages db (check_handle p) types)) (\<lambda>msgs.
     and_then (if consume_unread p \<and> msgs \<noteq> [] then consume rt msgs else ret ()) (\<lambda>_.
       ret (R_check msgs
         (if cp_inject p = Some True
          then Some (join_with [10, 10] (map (formatMessageBanner (rr_toUpperCase rt)) msgs))
          else None))))"

definition no_messages :: rpc_result where
  "no_messages = R_check [] None"

definition rpc_check :: "'e rpc_runtime \<Rightarrow> check_params \<Rightarrow> ('e, rpc_result) act" where
  "rpc_check rt p =
     (case type_filter (cp_types p) of
        Inl e \<Rightarrow> throw e
      | Inr types \<Rightarrow>
          and_then (aborted rt) (\<lambda>stop.
            if stop then ret no_messages
            else and_then (read_and_return rt p types) (\<lambda>result.
                 case result of
                   R_check msgs _ \<Rightarrow>
                     if msgs \<noteq> [] \<or> cp_wait p \<noteq> Some True then ret result
                     else and_then (waitForMessage rt (check_handle p) types (cp_timeoutMs p)) (\<lambda>_.
                          and_then (aborted rt) (\<lambda>stop.
                            if stop then ret no_messages else read_and_return rt p types))
                 | _ \<Rightarrow> ret result)))"

subsection \<open>reply, inbox\<close>

definition reply_message :: "message_row \<Rightarrow> reply_params \<Rightarrow> new_message" where
  "reply_message original p =
     \<lparr>nm_from = or_else (m_to_handle original) (rp_from p), nm_to = m_from_handle original,
      nm_subject = js ''Re: '' @ m_subject original, nm_body = Some (rp_body p), nm_type = None,
      nm_priority = None, nm_threadId = Some (or_else (m_id original) (m_thread_id original)),
      nm_payload = None, nm_senderPaneKey = None\<rparr>"

definition rpc_reply :: "'e rpc_runtime \<Rightarrow> reply_params \<Rightarrow> ('e, rpc_result) act" where
  "rpc_reply rt p =
     and_then (read_db (\<lambda>db. getMessageById db (rp_id p))) (\<lambda>found.
       case found of
         None \<Rightarrow> throw (Error (js ''Message not found: '' @ rp_id p))
       | Some original \<Rightarrow>
           and_then (update_db (markAsRead [m_id original])) (\<lambda>_.
           and_then (insert_message rt (reply_message original p)) (\<lambda>r.
           and_then (notify (m_from_handle original) (m_type r)) (\<lambda>_. ret (R_message r)))))"

definition rpc_inbox :: "inbox_params \<Rightarrow> ('e, rpc_result) act" where
  "rpc_inbox p =
     and_then (read_db (\<lambda>db. if truthy (ip_terminal p)
         then getAllMessagesForHandle db (the (ip_terminal p)) (ip_limit p) None
         else getInbox db (ip_limit p))) (\<lambda>msgs. ret (R_inbox msgs))"

subsection \<open>taskCreate, taskList, taskUpdate\<close>

text \<open>A JSON array of strings, of an option that is absent when it is empty.\<close>

definition string_array :: "jsstr \<Rightarrow> jsstr option \<Rightarrow> exn + jsstr list option" where
  "string_array error text =
     (if \<not> truthy text then Inr None
      else (case json_parse (the text) of
              Some (JArr vs) \<Rightarrow> (case strings_of vs of None \<Rightarrow> Inl (Error error) | Some ds \<Rightarrow> Inr (Some ds))
            | _ \<Rightarrow> Inl (Error error)))"

definition create_task :: "'e rpc_runtime \<Rightarrow> new_task \<Rightarrow> ('e, task_row) act" where
  "create_task rt task =
     and_then (on_env (rr_clock rt)) (\<lambda>(now, hex). try_db (createTask hex now task))"

definition rpc_taskCreate :: "'e rpc_runtime \<Rightarrow> task_create_params \<Rightarrow> ('e, rpc_result) act" where
  "rpc_taskCreate rt p =
     (case string_array (js ''Invalid --deps: must be a JSON array of task IDs'') (tc_deps p) of
        Inl e \<Rightarrow> throw e
      | Inr deps \<Rightarrow>
          and_then (create_task rt
            \<lparr>nt_spec = tc_spec p, nt_taskTitle = tc_taskTitle p, nt_displayName = tc_displayName p,
             nt_deps = deps, nt_parentId = tc_parent p,
             nt_createdByTerminalHandle = tc_callerTerminalHandle p\<rparr>) (\<lambda>task. ret (R_task task)))"

definition list_row ::
  "task_row \<times> jsstr option \<times> jsstr option \<Rightarrow> task_row \<times> (jsstr option \<times> jsstr option) option" where
  "list_row row = (case row of (t, assignee, dispatch) \<Rightarrow>
     (t, if t_status t = T_dispatched then Some (assignee, dispatch) else None))"

definition rpc_taskList :: "task_list_params \<Rightarrow> ('e, rpc_result) act" where
  "rpc_taskList p =
     and_then (read_db (\<lambda>db. map list_row
         (listTasksWithDispatch db (tl_status p) (tl_ready p = Some True)))) (\<lambda>rows.
       ret (R_tasks (if tl_brief p = Some True
         then map (\<lambda>((t, d), spec, truncated). (t\<lparr>t_spec := spec\<rparr>, d, Some truncated))
                (abbreviateOrchestrationTasks (map (\<lambda>r. (r, t_spec (fst r))) rows))
         else map (\<lambda>(t, d). (t, d, None)) rows)))"

definition rpc_taskUpdate :: "'e rpc_runtime \<Rightarrow> task_update_params \<Rightarrow> ('e, rpc_result) act" where
  "rpc_taskUpdate rt p =
     and_then (on_env (rr_clock rt)) (\<lambda>(now, _).
     and_then (effect_db (updateTaskStatus now (tu_id p) (tu_status p) (tu_result p))) (\<lambda>task.
       case task of
         None \<Rightarrow> throw (Error (js ''Task not found: '' @ tu_id p))
       | Some t \<Rightarrow> ret (R_task t)))"

subsection \<open>dispatch, dispatchShow\<close>

definition rpc_preamble :: "task_row \<Rightarrow> jsstr \<Rightarrow> jsstr option \<Rightarrow> bool option \<Rightarrow> jsstr" where
  "rpc_preamble task dispatchId sender devMode =
     buildDispatchPreamble \<lparr>pp_taskId = t_id task, pp_dispatchId = dispatchId,
       pp_taskSpec = t_spec task, pp_coordinatorHandle = or_else (js ''coordinator'') sender,
       pp_devMode = (devMode = Some True), pp_baseDrift = None, pp_workerKind = None\<rparr>"

definition no_agent_error :: "jsstr \<Rightarrow> exn" where
  "no_agent_error terminal = Error (js ''Cannot dispatch --inject to terminal '' @ terminal
     @ js '': no recognized agent detected. ''
     @ js ''Start an agent CLI (e.g. claude, codex, gemini, droid, cursor) in the terminal first, ''
     @ js ''or dispatch without --inject and send the prompt manually.'')"

definition require_agent :: "'e rpc_runtime \<Rightarrow> dispatch_params \<Rightarrow> jsstr \<Rightarrow> ('e, unit) act" where
  "require_agent rt p terminal =
     (if dp_inject p = Some True
      then and_then (rr_isTerminalRunningAgent rt terminal) (\<lambda>hasAgent.
             if hasAgent then ret () else throw (no_agent_error terminal))
      else ret ())"

definition create_dispatch :: "'e rpc_runtime \<Rightarrow> jsstr \<Rightarrow> jsstr \<Rightarrow> ('e, dispatch_row) act" where
  "create_dispatch rt taskId terminal =
     and_then (on_env (\<lambda>e. (rr_getTerminalPaneKey rt e terminal, e))) (\<lambda>paneKey.
     and_then (on_env (rr_clock rt)) (\<lambda>(now, hex).
       try_db (createDispatchContext hex now taskId terminal paneKey)))"

definition inject_prompt ::
  "'e rpc_runtime \<Rightarrow> dispatch_params \<Rightarrow> jsstr \<Rightarrow> dispatch_row \<Rightarrow> jsstr \<Rightarrow> ('e, bool) act" where
  "inject_prompt rt p terminal ctx preamble =
     (if dp_inject p = Some True
      then and_then (rr_sendTerminalAgentPrompt rt terminal preamble) (\<lambda>rejected.
             case rejected of
               None \<Rightarrow> ret True
             | Some (e, text) \<Rightarrow>
                 and_then (state_db (failDispatch (d_id ctx) text)) (\<lambda>_. throw e))
      else ret False)"

definition dispatch_task ::
  "'e rpc_runtime \<Rightarrow> dispatch_params \<Rightarrow> task_row \<Rightarrow> jsstr \<Rightarrow> ('e, rpc_result) act" where
  "dispatch_task rt p task terminal =
     (if t_status task \<noteq> T_ready
      then throw (Error (js ''Task '' @ dp_task p @ js '' is '' @ task_status_text (t_status task)
             @ js ''; only ready tasks can be dispatched''))
      else and_then (require_agent rt p terminal) (\<lambda>_.
           and_then (create_dispatch rt (dp_task p) terminal) (\<lambda>ctx.
             let preamble = rpc_preamble task (d_id ctx) (dp_from p) (dp_devMode p)
             in and_then (inject_prompt rt p terminal ctx preamble) (\<lambda>injected.
                  ret (R_dispatch (Some ctx) injected
                    (if dp_returnPreamble p = Some True then Some preamble else None))))))"

definition rpc_dispatch :: "'e rpc_runtime \<Rightarrow> dispatch_params \<Rightarrow> ('e, rpc_result) act" where
  "rpc_dispatch rt p =
     and_then (read_db (\<lambda>db. getTask db (dp_task p))) (\<lambda>found.
       case found of
         None \<Rightarrow> throw (Error (js ''Task not found: '' @ dp_task p))
       | Some task \<Rightarrow>
           if dp_dryRun p = Some True
           then ret (R_dry_run (rpc_preamble task (js ''ctx_dryrun'') (dp_from p) (dp_devMode p)))
           else if \<not> truthy (dp_to p) then throw (Error (js ''Missing --to''))
           else dispatch_task rt p task (the (dp_to p)))"

definition rpc_dispatchShow :: "dispatch_show_params \<Rightarrow> ('e, rpc_result) act" where
  "rpc_dispatchShow p =
     (if \<not> truthy (ds_task p) then throw (Error (js ''Missing --task''))
      else and_then (read_db (\<lambda>db. getDispatchContext db (the (ds_task p)))) (\<lambda>ctx.
           if ds_preamble p = Some True
           then and_then (read_db (\<lambda>db. getTask db (the (ds_task p)))) (\<lambda>found.
                  case found of
                    None \<Rightarrow> throw (Error (js ''Task not found: '' @ the (ds_task p)))
                  | Some task \<Rightarrow>
                      ret (R_dispatch_show ctx (Some (rpc_preamble task
                        (or_else (js ''ctx_preview'') (map_option d_id ctx)) (ds_from p)
                        (ds_devMode p)))))
           else ret (R_dispatch_show ctx None)))"

subsection \<open>ask\<close>

definition ask_payload :: "jsstr \<Rightarrow> jsstr list \<Rightarrow> json" where
  "ask_payload question options =
     JObj [(js ''question'', JStr question), (js ''options'', json_strings options)]"

definition ask_message :: "ask_params \<Rightarrow> new_message" where
  "ask_message p =
     \<lparr>nm_from = or_else (js ''unknown'') (ap_from p), nm_to = ap_to p, nm_subject = js ''Question'',
      nm_body = Some (ap_question p), nm_type = Some MT_decision_gate, nm_priority = None,
      nm_threadId = None,
      nm_payload = Some (json_stringify (ask_payload (ap_question p)
        (case ap_options p of None \<Rightarrow> [] | Some s \<Rightarrow> comma_words s))),
      nm_senderPaneKey = None\<rparr>"

datatype ask_state = Answered message_row | Given_up | Wait_for int

text \<open>One turn of the loop, up to the wait.\<close>

definition ask_turn ::
  "'e rpc_runtime \<Rightarrow> jsstr \<Rightarrow> message_row \<Rightarrow> int \<Rightarrow> ('e, ask_state) act" where
  "ask_turn rt asker outbound deadline =
     and_then (read_db (\<lambda>db. getThreadMessagesFor db (m_id outbound) asker
         (Some (m_sequence outbound)))) (\<lambda>replies.
       case replies of
         r # _ \<Rightarrow> and_then (update_db (markAsRead [m_id r])) (\<lambda>_. ret (Answered r))
       | [] \<Rightarrow>
           and_then (aborted rt) (\<lambda>stop.
             if stop then ret Given_up
             else and_then (on_env (rr_millis rt)) (\<lambda>now.
                  if deadline - now \<le> 0 then ret Given_up else ret (Wait_for (deadline - now)))))"

fun ask_loop ::
  "'e rpc_runtime \<Rightarrow> jsstr \<Rightarrow> message_row \<Rightarrow> int \<Rightarrow> nat \<Rightarrow> ('e, rpc_result option) act" where
  "ask_loop rt asker outbound deadline 0 = ret None"
| "ask_loop rt asker outbound deadline (Suc fuel) =
     and_then (ask_turn rt asker outbound deadline) (\<lambda>s. case s of
       Answered r \<Rightarrow> ret (Some (R_ask (Some (m_body r)) (Some (m_id r)) (m_id outbound) False))
     | Given_up \<Rightarrow> ret (Some (R_ask None None (m_id outbound) True))
     | Wait_for ms \<Rightarrow> and_then (waitForMessage rt asker None (Some ms)) (\<lambda>_.
                       ask_loop rt asker outbound deadline fuel))"

definition ASK_TIMEOUT_MS :: int where
  "ASK_TIMEOUT_MS = 600000"

definition rpc_ask :: "'e rpc_runtime \<Rightarrow> nat \<Rightarrow> ask_params \<Rightarrow> ('e, rpc_result option) act" where
  "rpc_ask rt fuel p =
     (if isGroupAddress (ap_to p)
      then throw (Error (js ''ask does not support group addresses; ''
             @ js ''use send --type decision_gate for fan-out questions''))
      else and_then (insert_message rt (ask_message p)) (\<lambda>outbound.
           and_then (rr_deliverPendingMessages rt (ap_to p)) (\<lambda>_.
           and_then (notify (ap_to p) (m_type outbound)) (\<lambda>_.
           and_then (on_env (rr_millis rt)) (\<lambda>now.
             ask_loop rt (or_else (js ''unknown'') (ap_from p)) outbound
               (now + or_else ASK_TIMEOUT_MS (ap_timeoutMs p)) fuel)))))"

subsection \<open>run, runStop\<close>

record run_params =
  rn_spec :: jsstr
  rn_from :: "jsstr option"
  rn_pollIntervalMs :: "int option"
  rn_maxConcurrent :: "int option"
  rn_worktree :: "jsstr option"

definition RunParams :: "(jsstr \<Rightarrow> int option) \<Rightarrow> (jsstr \<times> json) list \<Rightarrow> run_params option" where
  "RunParams number ms =
     Option.bind (requiredString (field ''spec'' ms)) (\<lambda>spec.
       Some \<lparr>rn_spec = spec, rn_from = OptionalString (field ''from'' ms),
             rn_pollIntervalMs = OptionalFiniteNumber number (field ''pollIntervalMs'' ms),
             rn_maxConcurrent = OptionalFiniteNumber number (field ''maxConcurrent'' ms),
             rn_worktree = OptionalString (field ''worktree'' ms)\<rparr>)"

definition run_options :: "run_params \<Rightarrow> coordinator_options" where
  "run_options p = constructor_options (or_else (js ''coordinator'') (rn_from p))
     (rn_pollIntervalMs p) (rn_maxConcurrent p) (rn_worktree p) False"

text \<open>\<open>activeCoordinator = coordinator\<close>, for a new one.\<close>

definition new_coordinator :: "gate_module \<Rightarrow> nat \<times> gate_module" where
  "new_coordinator m = (gm_next m, m\<lparr>gm_active := Some (gm_next m), gm_next := Suc (gm_next m)\<rparr>)"

definition start_loop :: "nat \<Rightarrow> coordinator_options \<Rightarrow> jsstr \<Rightarrow> gate_module \<Rightarrow> unit \<times> gate_module" where
  "start_loop n opts runId m = ((), m\<lparr>gm_loops := gm_loops m @ [(n, opts, runId)]\<rparr>)"

definition create_run :: "'e rpc_runtime \<Rightarrow> run_params \<Rightarrow> ('e, run_row) act" where
  "create_run rt p =
     and_then (on_env (rr_clock rt)) (\<lambda>(now, hex).
       try_db (createCoordinatorRun hex now (rn_spec p)
         (or_else (js ''coordinator'') (rn_from p)) (rn_pollIntervalMs p)))"

definition rpc_run :: "'e rpc_runtime \<Rightarrow> run_params \<Rightarrow> ('e, rpc_result) act" where
  "rpc_run rt p =
     and_then (read_db getActiveCoordinatorRun) (\<lambda>existing.
       case existing of
         Some r \<Rightarrow> throw (Error (js ''Coordinator already running: '' @ r_id r))
       | None \<Rightarrow>
           and_then (on_module new_coordinator) (\<lambda>n.
           and_then (create_run rt p) (\<lambda>r.
           and_then (on_module (start_loop n (run_options p) (r_id r))) (\<lambda>_.
             ret (R_run (r_id r))))))"

text \<open>What runs in the background, and the \<open>finally\<close> after it.\<close>

definition background_loop ::
  "'e runtime \<Rightarrow> nat \<Rightarrow> nat \<times> coordinator_options \<times> jsstr \<Rightarrow> 'e world
    \<Rightarrow> ((exn + run_report) \<times> 'e world) option" where
  "background_loop rt fuel loop w = (case loop of (n, opts, runId) \<Rightarrow>
     (case runFromExistingRun rt opts fuel runId (w_db w) (w_env w) of
        None \<Rightarrow> None
      | Some (r, c) \<Rightarrow>
          Some (r, w\<lparr>w_db := c_db c, w_env := c_env c,
                    w_module := (if gm_active (w_module w) = Some n
                                 then (w_module w)\<lparr>gm_active := None\<rparr> else w_module w)\<rparr>)))"

definition stop_active :: "gate_module \<Rightarrow> unit \<times> gate_module" where
  "stop_active m = ((), case gm_active m of
     None \<Rightarrow> m
   | Some n \<Rightarrow> m\<lparr>gm_stopped := gm_stopped m @ [n], gm_active := None\<rparr>)"

definition rpc_runStop :: "('e, rpc_result) act" where
  "rpc_runStop =
     and_then (read_db getActiveCoordinatorRun) (\<lambda>r.
       case r of
         None \<Rightarrow> throw (Error (js ''No active coordinator run''))
       | Some r \<Rightarrow> and_then (on_module stop_active) (\<lambda>_. ret (R_run_stop (r_id r))))"

subsection \<open>gateCreate, gateResolve, gateList\<close>

record gate_create_params =
  gc_task :: jsstr
  gc_question :: jsstr
  gc_options :: "jsstr option"

definition GateCreateParams :: "(jsstr \<times> json) list \<Rightarrow> gate_create_params option" where
  "GateCreateParams ms =
     Option.bind (requiredString (field ''task'' ms)) (\<lambda>task.
     Option.bind (requiredString (field ''question'' ms)) (\<lambda>question.
       Some \<lparr>gc_task = task, gc_question = question,
             gc_options = OptionalString (field ''options'' ms)\<rparr>))"

definition rpc_gateCreate :: "'e rpc_runtime \<Rightarrow> gate_create_params \<Rightarrow> ('e, rpc_result) act" where
  "rpc_gateCreate rt p =
     (case string_array (js ''Invalid --options: must be a JSON array of strings'') (gc_options p) of
        Inl e \<Rightarrow> throw e
      | Inr options \<Rightarrow>
          and_then (on_env (rr_clock rt)) (\<lambda>(now, hex).
          and_then (try_db (createGate hex now (gc_task p) (gc_question p)
              (map_option json_strings options))) (\<lambda>gate. ret (R_gate gate))))"

record gate_resolve_params =
  gr_id :: jsstr
  gr_resolution :: jsstr

definition GateResolveParams :: "(jsstr \<times> json) list \<Rightarrow> gate_resolve_params option" where
  "GateResolveParams ms =
     Option.bind (requiredString (field ''id'' ms)) (\<lambda>i.
     Option.bind (requiredString (field ''resolution'' ms)) (\<lambda>resolution.
       Some \<lparr>gr_id = i, gr_resolution = resolution\<rparr>))"

definition rpc_gateResolve :: "'e rpc_runtime \<Rightarrow> gate_resolve_params \<Rightarrow> ('e, rpc_result) act" where
  "rpc_gateResolve rt p =
     and_then (on_env (rr_clock rt)) (\<lambda>(now, _).
     and_then (state_db (resolveGate now (gr_id p) (gr_resolution p))) (\<lambda>gate.
       case gate of
         None \<Rightarrow> throw (Error (js ''Gate not found: '' @ gr_id p))
       | Some g \<Rightarrow> ret (R_gate g)))"

record gate_list_params =
  gl_task :: "jsstr option"
  gl_status :: "gate_status option"

definition GATE_STATUSES :: "(jsstr \<times> gate_status) list" where
  "GATE_STATUSES = [(js ''pending'', G_pending), (js ''resolved'', G_resolved),
     (js ''timeout'', G_timeout)]"

definition GateListParams :: "(jsstr \<times> json) list \<Rightarrow> gate_list_params option" where
  "GateListParams ms =
     Option.bind (optional_enum GATE_STATUSES (field ''status'' ms)) (\<lambda>status.
       Some \<lparr>gl_task = OptionalString (field ''task'' ms), gl_status = status\<rparr>)"

definition rpc_gateList :: "gate_list_params \<Rightarrow> ('e, rpc_result) act" where
  "rpc_gateList p =
     and_then (read_db (\<lambda>db. listGates db (gl_task p) (gl_status p))) (\<lambda>gs. ret (R_gates gs))"

subsection \<open>reset\<close>

definition rpc_reset :: "reset_params \<Rightarrow> ('e, rpc_result) act" where
  "rpc_reset p =
     (if sc_all p = Some True
      then and_then (update_db resetAll) (\<lambda>_. ret (R_reset (js ''all'')))
      else if sc_tasks p = Some True
      then and_then (update_db resetTasks) (\<lambda>_. ret (R_reset (js ''tasks'')))
      else if sc_messages p = Some True
      then and_then (update_db resetMessages) (\<lambda>_. ret (R_reset (js ''messages'')))
      else throw (Error (js ''Invalid reset scope'')))"

subsection \<open>The registry and the dispatcher\<close>

definition finished :: "('e, rpc_result) act \<Rightarrow> ('e, rpc_result option) act" where
  "finished a = and_then a (\<lambda>r. ret (Some r))"

definition ORCHESTRATION_METHODS ::
  "'e rpc_runtime \<Rightarrow> nat \<Rightarrow> (jsstr \<times> ((jsstr \<times> json) list \<Rightarrow> ('e, rpc_result option) act option)) list"
where
  "ORCHESTRATION_METHODS rt fuel =
     (let number = rr_number rt
      in [(js ''orchestration.send'', \<lambda>ms. map_option (\<lambda>p. finished (rpc_send rt p)) (SendParams ms)),
      (js ''orchestration.check'',
         \<lambda>ms. map_option (\<lambda>p. finished (rpc_check rt p)) (CheckParams number ms)),
      (js ''orchestration.reply'', \<lambda>ms. map_option (\<lambda>p. finished (rpc_reply rt p)) (ReplyParams ms)),
      (js ''orchestration.inbox'',
         \<lambda>ms. map_option (\<lambda>p. finished (rpc_inbox p)) (InboxParams number ms)),
      (js ''orchestration.taskCreate'',
         \<lambda>ms. map_option (\<lambda>p. finished (rpc_taskCreate rt p)) (TaskCreateParams ms)),
      (js ''orchestration.taskList'',
         \<lambda>ms. map_option (\<lambda>p. finished (rpc_taskList p)) (TaskListParams ms)),
      (js ''orchestration.taskUpdate'',
         \<lambda>ms. map_option (\<lambda>p. finished (rpc_taskUpdate rt p)) (TaskUpdateParams ms)),
      (js ''orchestration.dispatch'',
         \<lambda>ms. map_option (\<lambda>p. finished (rpc_dispatch rt p)) (DispatchParams ms)),
      (js ''orchestration.dispatchShow'',
         \<lambda>ms. map_option (\<lambda>p. finished (rpc_dispatchShow p)) (DispatchShowParams ms)),
      (js ''orchestration.ask'', \<lambda>ms. map_option (rpc_ask rt fuel) (AskParams number ms)),
      (js ''orchestration.run'',
         \<lambda>ms. map_option (\<lambda>p. finished (rpc_run rt p)) (RunParams number ms)),
      (js ''orchestration.runStop'', \<lambda>ms. Some (finished rpc_runStop)),
      (js ''orchestration.gateCreate'',
         \<lambda>ms. map_option (\<lambda>p. finished (rpc_gateCreate rt p)) (GateCreateParams ms)),
      (js ''orchestration.gateResolve'',
         \<lambda>ms. map_option (\<lambda>p. finished (rpc_gateResolve rt p)) (GateResolveParams ms)),
      (js ''orchestration.gateList'',
         \<lambda>ms. map_option (\<lambda>p. finished (rpc_gateList p)) (GateListParams ms)),
      (js ''orchestration.reset'',
         \<lambda>ms. map_option (\<lambda>p. finished (rpc_reset p)) (ResetParams ms))])"

datatype rpc_response =
    Method_not_found | Invalid_argument | Failed exn | Succeeded rpc_result | Still_waiting

definition rpc_dispatcher ::
  "'e rpc_runtime \<Rightarrow> nat \<Rightarrow> jsstr \<Rightarrow> json option \<Rightarrow> 'e world \<Rightarrow> rpc_response \<times> 'e world" where
  "rpc_dispatcher rt fuel meth params w =
     (case map_of (ORCHESTRATION_METHODS rt fuel) meth of
        None \<Rightarrow> (Method_not_found, w)
      | Some schema \<Rightarrow>
          (case Option.bind (object_params params) schema of
             None \<Rightarrow> (Invalid_argument, w)
           | Some handler \<Rightarrow>
               (case handler w of
                  (Inl e, w') \<Rightarrow> (Failed e, w')
                | (Inr None, w') \<Rightarrow> (Still_waiting, w')
                | (Inr (Some r), w') \<Rightarrow> (Succeeded r, w'))))"

end
