(* ===== verification/Coordinator_Props.thy ===== *)
theory Coordinator_Props
  imports Coordinator
begin

section \<open>What the coordinator keeps and promises\<close>

text \<open>
  The coordinator changes the database only by the methods of \<open>OrchestrationDb\<close> (\<open>run_steps\<close>),
  whatever the runtime answers, provided that the code that runs while a call is pending does
  the same (\<open>runtime_ok\<close>); so all invariants survive a run. Then: the report it ends with,
  when it ends, the refusal of a stale base, and the bound on running tasks.
\<close>

subsection \<open>A run is a run of the database\<close>

definition call_ok :: "('e, 'a) call \<Rightarrow> bool" where
  "call_ok call = (\<forall>env db. orch_steps db (snd (snd (snd (call env db)))))"

definition runtime_ok :: "'e runtime \<Rightarrow> bool" where
  "runtime_ok rt = ((\<forall>w. call_ok (rt_listTerminals rt w))
     \<and> (\<forall>w t. call_ok (rt_createTerminal rt w t)) \<and> (\<forall>w. call_ok (rt_probeWorktreeDrift rt w))
     \<and> (\<forall>h p. call_ok (rt_sendTerminalAgentPrompt rt h p)) \<and> (\<forall>n. call_ok (rt_sleep rt n)))"

definition c_steps :: "'e coord \<Rightarrow> 'e coord \<Rightarrow> bool" where
  "c_steps c c' = orch_steps (c_db c) (c_db c')"

lemma c_steps_refl [simp]: "c_steps c c"
  by (simp add: c_steps_def)

lemma c_steps_trans [trans]: "c_steps a b \<Longrightarrow> c_steps b c \<Longrightarrow> c_steps a c"
  unfolding c_steps_def by (rule rtranclp_trans)

lemma c_steps_db_eq: "c_db c = c_db c' \<Longrightarrow> c_steps c c'"
  by (simp add: c_steps_def)

lemma c_db_log [simp]: "c_db (log l c) = c_db c"
  by (simp add: log_def)

lemma clock_of_db: "clock_of rt c = (now, hex, c') \<Longrightarrow> c_db c' = c_db c"
  by (auto simp: clock_of_def split: prod.splits)

lemma await_steps: "call_ok call \<Longrightarrow> await call c = (x, c') \<Longrightarrow> c_steps c c'"
proof -
  assume ok: "call_ok call" and aw: "await call c = (x, c')"
  obtain y stop env db where call: "call (c_env c) (c_db c) = (y, stop, env, db)"
    by (rule prod_cases4)
  have "orch_steps (c_db c) (snd (snd (snd (call (c_env c) (c_db c)))))"
    using ok unfolding call_ok_def by blast
  then show "c_steps c c'" using aw call by (auto simp: await_def c_steps_def)
qed

lemma update_steps: "updateTaskStatus now i s r db = (x, db') \<Longrightarrow> orch_steps db db'"
  by (rule updateTaskStatus_steps)

lemma failDispatch_steps: "failDispatch d e db = (x, db') \<Longrightarrow> orch_steps db db'"
  using method_steps(10) [of db d e] by simp

lemma lifecycle_steps_eq: "reconcileLifecycleMessage now msg db = (r, logs, db') \<Longrightarrow> orch_steps db db'"
  using lifecycle_steps [of db now msg] by simp

lemmas snoc_step = rtranclp.rtrancl_into_rtrancl [of orch_step]

lemma lifecycle_message_steps:
  "handleLifecycleMessage rt msg c = (e, c') \<Longrightarrow> c_steps c c'"
  by (auto simp: handleLifecycleMessage_def Let_def c_steps_def dest!: clock_of_db lifecycle_steps_eq
      split: prod.splits sum.splits lifecycle_result.splits if_splits)

lemma fail_escalated_steps: "c_steps c (fail_escalated rt msg i d c)"
  by (auto simp: fail_escalated_def c_steps_def dest!: clock_of_db failDispatch_steps
      split: prod.splits simp del: js.simps) (erule snoc_step, rule step_updateTaskStatus)

lemma escalation_steps: "handleEscalation rt msg c = (e, c') \<Longrightarrow> c_steps c c'"
proof -
  let ?c = "\<lambda>l. (log l c)\<lparr>c_escalations := c_escalations (log l c) @ [msg]\<rparr>"
  have "c_steps c (?c l)" "c_steps c (fail_escalated rt msg i d (?c l))" for l i d
    using fail_escalated_steps [of "?c l" rt msg i d] by (simp_all add: c_steps_def)
  then show "handleEscalation rt msg c = (e, c') \<Longrightarrow> c_steps c c'"
    by (auto simp: handleEscalation_def Let_def simp del: js.simps
        split: option.splits sum.splits if_splits)
qed

lemma gate_message_steps: "handleDecisionGateMessage rt msg c = (e, c') \<Longrightarrow> c_steps c c'"
proof -
  have "create_message_gate rt t q os a = (e, b) \<Longrightarrow> c_steps a b" for t q os a b
    by (auto simp: create_message_gate_def c_steps_def simp del: js.simps dest!: clock_of_db
        split: option.splits sum.splits if_splits prod.splits intro: method_steps)
  then show "handleDecisionGateMessage rt msg c = (e, c') \<Longrightarrow> c_steps c c'"
    by (auto simp: handleDecisionGateMessage_def Let_def c_steps_def simp del: js.simps
        split: option.splits sum.splits if_splits prod.splits) fastforce+
qed

lemma handle_message_steps: "handle_message rt m c = (e, c') \<Longrightarrow> c_steps c c'"
  by (auto simp: handle_message_def c_steps_db_eq simp del: js.simps
      dest: lifecycle_message_steps escalation_steps gate_message_steps split: message_type.splits)

lemma handle_messages_steps: "handle_messages rt ms c = (e, c') \<Longrightarrow> c_steps c c'"
  by (induction rt ms c rule: handle_messages.induct)
    (auto dest!: handle_message_steps split: prod.splits option.splits intro: c_steps_trans)

lemma processMessages_steps: "processMessages rt opts c = (e, c') \<Longrightarrow> c_steps c c'"
  by (auto simp: processMessages_def Let_def dest!: handle_messages_steps split: if_splits prod.splits
      option.splits) (auto simp: c_steps_def intro: snoc_step step_markAsRead)


lemma reblock_steps: "c_steps c (reblock rt g c)"
  by (auto simp: reblock_def c_steps_def dest!: clock_of_db split: option.splits prod.splits
      intro: method_steps)

lemma fold_steps: "(\<And>x c. c_steps c (f x c)) \<Longrightarrow> c_steps c (fold f xs c)"
  by (induction xs arbitrary: c) (auto intro: c_steps_trans)

lemma processDecisionGates_steps: "c_steps c (processDecisionGates rt c)"
  unfolding processDecisionGates_def by (rule fold_steps) (rule reblock_steps)

lemma warnStale_db [simp]: "c_db (warnStaleDispatches rt c) = c_db c"
proof -
  have "c_db (fold (\<lambda>ctx. log (f ctx)) xs c) = c_db c" for f and xs :: "dispatch_row list"
    by (induction xs arbitrary: c) auto
  then show ?thesis by (simp add: warnStaleDispatches_def)
qed

lemma send_dispatch_steps:
  assumes "runtime_ok rt" and "send_dispatch rt opts task h spec drift c = (e, c')"
  shows "c_steps c c'"
proof -
  obtain now hex c1 where c1: "clock_of rt c = (now, hex, c1)" by (metis prod_cases3)
  show ?thesis
  proof (cases "createDispatchContext hex now (t_id task) h (rt_getTerminalPaneKey rt (c_env c1) h)
      (c_db c1)")
    case (Inl x)
    with assms(2) c1 show ?thesis by (simp add: send_dispatch_def c_steps_db_eq clock_of_db)
  next
    case (Inr y)
    obtain d db' where y: "y = (d, db')" by (cases y)
    have "orch_steps (c_db c) db'"
      using Inr y clock_of_db [OF c1] by (auto intro: method_steps)
    moreover have "orch_steps db' (c_db c3)"
      if "await (rt_sendTerminalAgentPrompt rt h p) (c1\<lparr>c_db := db'\<rparr>) = (x, c3)" for p x c3
      using await_steps [OF _ that] assms(1) by (simp add: runtime_ok_def c_steps_def)
    ultimately show ?thesis
      using assms(2) c1 Inr y
      by (auto simp: send_dispatch_def Let_def c_steps_def simp del: js.simps
          dest!: failDispatch_steps split: prod.splits option.splits)
        (meson rtranclp_trans)+
  qed
qed

lemma dispatchTask_steps:
  assumes "runtime_ok rt" and "dispatchTask rt opts task h c = (e, c')"
  shows "c_steps c c'"
proof -
  have send: "c_steps a b" if "send_dispatch rt opts task h spec drift a = (x, b)" for a b x spec drift
    using send_dispatch_steps [OF assms(1) that] .
  have probe: "c_steps a b" if "await (rt_probeWorktreeDrift rt w) a = (x, b)" for w x a b
    using await_steps [OF _ that] assms(1) by (simp add: runtime_ok_def)
  have logged: "c_steps (log l a) b \<Longrightarrow> c_steps a b" for l a b by (simp add: c_steps_def)
  from assms(2) show ?thesis
    by (auto simp: dispatchTask_def Let_def c_steps_db_eq simp del: js.simps
        split: prod.splits sum.splits option.splits if_splits
        dest!: probe send logged intro: c_steps_trans)
qed

lemma available_steps:
  assumes "runtime_ok rt" and "getAvailableTerminals rt opts c = (ts, c')"
  shows "c_steps c c'"
proof -
  have "c_steps a b" if "await (rt_listTerminals rt w) a = (x, b)" for w x a b
    using await_steps [OF _ that] assms(1) by (simp add: runtime_ok_def)
  with assms(2) show ?thesis
    by (auto simp: getAvailableTerminals_def split: prod.splits sum.splits)
qed

lemma c_steps_log [simp]: "c_steps (log l c) c' = c_steps c c'" "c_steps c (log l c') = c_steps c c'"
  by (simp_all add: c_steps_def)

lemma c_steps_phase [simp]: "c_steps (c\<lparr>c_phase := p\<rparr>) c' = c_steps c c'"
    "c_steps c (c'\<lparr>c_phase := p\<rparr>) = c_steps c c'"
  by (simp_all add: c_steps_def)

lemma dispatch_loop_steps:
  "runtime_ok rt \<Longrightarrow> c_steps c (dispatch_loop rt opts ts slots hs c)"
proof (induction rt opts ts slots hs c rule: dispatch_loop.induct)
  case (3 rt opts task ts slots h hs c)
  obtain e c1 where t: "dispatchTask rt opts task h c = (e, c1)" by (cases "dispatchTask rt opts task h c")
  have c1: "c_steps c c1" using dispatchTask_steps [OF "3.prems" t] .
  show ?case
  proof (cases "slots \<le> 0")
    case False
    note IH = "3.IH" [OF False t [symmetric]]
    show ?thesis
    proof (cases e)
      case None
      with IH(1) [OF None "3.prems"] t False c1 show ?thesis by (auto intro: c_steps_trans)
    next
      case (Some err)
      with IH(2) [OF Some "3.prems"] t False c1 show ?thesis
        by (auto simp del: js.simps intro: c_steps_trans)
    qed
  qed simp
qed simp_all

lemma dispatchReadyTasks_steps:
  assumes "runtime_ok rt"
  shows "c_steps c (dispatchReadyTasks rt opts c)"
proof -
  let ?c = "c\<lparr>c_phase := Dispatching\<rparr>"
  obtain hs c1 where av: "getAvailableTerminals rt opts ?c = (hs, c1)"
    by (cases "getAvailableTerminals rt opts ?c")
  have c1: "c_steps c c1" using available_steps [OF assms av] by simp
  have loop: "c_steps c1 b \<Longrightarrow> c_steps c (dispatch_loop rt opts ts n xs (log l b))" for l b ts n xs
    using dispatch_loop_steps [OF assms, of "log l b" opts ts n xs] c1
    by (auto intro: c_steps_trans)
  have loop0: "c_steps c (dispatch_loop rt opts ts n xs c1)" for ts n xs
    using dispatch_loop_steps [OF assms] c1 by (auto intro: c_steps_trans)
  have new: "c_steps c1 b" if "await (rt_createTerminal rt w t) c1 = (x, b)" for w t x b
    using await_steps [OF _ that] assms by (simp add: runtime_ok_def)
  show ?thesis
    using av loop loop0 c1
    by (auto simp: dispatchReadyTasks_def Let_def simp del: js.simps dest: new
        split: prod.splits sum.splits intro: c_steps_trans)
qed

lemma tick_steps:
  assumes "runtime_ok rt" and "tick rt opts c = (r, c')"
  shows "c_steps c c'"
proof -
  obtain e c1 where p: "processMessages rt opts c = (e, c1)" by (cases "processMessages rt opts c")
  have c1: "c_steps c c1" using processMessages_steps [OF p] .
  let ?d = "dispatchReadyTasks rt opts (warnStaleDispatches rt (processDecisionGates rt c1))"
  have "c_steps c1 (warnStaleDispatches rt (processDecisionGates rt c1))"
    using processDecisionGates_steps [of c1 rt] by (simp add: c_steps_def)
  then have d: "c_steps c ?d"
    using dispatchReadyTasks_steps [OF assms(1)] c1 by (blast intro: c_steps_trans)
  have "c_db (snd (checkConvergence a)) = c_db a" for a :: "'a coord"
    by (simp add: checkConvergence_def Let_def)
  with d have "c_steps c (snd (checkConvergence ?d))" by (simp add: c_steps_def)
  then show ?thesis
    using assms(2) p c1 by (auto simp: tick_def split: option.splits prod.splits)
qed

lemma run_ticks_steps:
  "runtime_ok rt \<Longrightarrow> run_ticks rt opts n c = Some (e, c') \<Longrightarrow> c_steps c c'"
proof (induction n arbitrary: c)
  case (Suc n)
  have sleep: "c_steps a (snd (await (rt_sleep rt k) a))" for a k
    using await_steps [of "rt_sleep rt k" a] Suc.prems(1)
    by (cases "await (rt_sleep rt k) a") (simp add: runtime_ok_def)
  obtain r c1 where t: "tick rt opts c = (r, c1)" by (cases "tick rt opts c")
  have c1: "c_steps c c1" using tick_steps [OF Suc.prems(1) t] .
  show ?case
  proof (cases "c_stopped c \<or> r \<noteq> Inr False")
    case True
    with Suc.prems t c1 show ?thesis by (auto split: if_splits sum.splits bool.splits)
  next
    case False
    with Suc.prems(2) t
    have "run_ticks rt opts n (snd (await (rt_sleep rt (co_pollIntervalMs opts)) c1)) = Some (e, c')"
      by simp
    from Suc.IH [OF Suc.prems(1) this] c1 sleep show ?thesis by (blast intro: c_steps_trans)
  qed
qed simp

lemma decompose_db: "decompose c = (e, c') \<Longrightarrow> c_db c' = c_db c"
  by (auto simp: decompose_def Let_def log_def simp del: js.simps split: if_splits)

lemma abort_steps: "c_steps c (abort_run rt i c)"
  by (auto simp: abort_run_def c_steps_def dest!: clock_of_db split: prod.splits intro: method_steps)

lemma finish_steps: "finish_run rt i c = (r, c') \<Longrightarrow> c_steps c c'"
  by (auto simp: finish_run_def Let_def c_steps_def simp del: js.simps dest!: clock_of_db
      split: prod.splits intro: method_steps)

lemma executeLoop_steps:
  assumes "runtime_ok rt" and "executeLoop rt opts fuel i c = Some (r, c')"
  shows "c_steps c c'"
proof -
  obtain e c1 where d: "decompose (log (js ''Coordinator run '' @ i @ js '' started'')
      (c\<lparr>c_runId := i\<rparr>)) = (e, c1)" by (meson surj_pair)
  have c1: "c_steps c c1" using decompose_db [OF d] by (simp add: c_steps_db_eq)
  show ?thesis
    using assms(2) d c1 abort_steps
    by (auto simp: executeLoop_def simp del: js.simps
        dest!: run_ticks_steps [OF assms(1)] finish_steps
        split: option.splits prod.splits intro: c_steps_trans)
qed

lemma run_steps:
  assumes "runtime_ok rt" and "run rt opts spec fuel db env = Some (r, c)"
  shows "orch_steps db (c_db c)"
proof -
  obtain now hex c0 where c0: "clock_of rt (init_coord db env) = (now, hex, c0)" by (metis prod_cases3)
  have "c_db c0 = db" using clock_of_db [OF c0] by (simp add: init_coord_def)
  then show ?thesis
    using assms(2) c0
    by (auto simp: run_def c_steps_def split: sum.splits prod.splits
        dest!: executeLoop_steps [OF assms(1)] step_createCoordinatorRun [THEN steps_one] intro: rtranclp_trans)
qed

subsection \<open>A small runtime\<close>

text \<open>One terminal, a prompt whose worker finishes at once, and nothing else going on.\<close>

definition finish_running :: "odb \<Rightarrow> odb" where
  "finish_running db = fold (\<lambda>t d. snd (updateTaskStatus demo_clock (t_id t) T_completed None d))
     (filter (\<lambda>t. t_status t = T_dispatched) (tasks db)) db"

definition demo_runtime :: "(odb \<Rightarrow> odb) \<Rightarrow> (jsstr \<times> jsstr) option \<Rightarrow> nat runtime" where
  "demo_runtime meanwhile rejected =
     \<lparr>rt_now = (\<lambda>n. ((demo_clock, [n]), Suc n)), rt_hung_since = (\<lambda>_. []),
      rt_getTerminalPaneKey = (\<lambda>_ _. None), rt_number_text = id,
      rt_listTerminals = (\<lambda>_ n db. (Inr [\<lparr>ti_handle = js ''t1'', ti_connected = True,
         ti_writable = True\<rparr>], False, n, db)),
      rt_createTerminal = (\<lambda>_ _ n db. (Inl (js ''none''), False, n, db)),
      rt_probeWorktreeDrift = (\<lambda>_ n db. (Inr None, False, n, db)),
      rt_sendTerminalAgentPrompt = (\<lambda>_ _ n db. (rejected, False, n, meanwhile db)),
      rt_sleep = (\<lambda>_ n db. ((), False, n, db))\<rparr>"

definition demo_options :: coordinator_options where
  "demo_options = \<lparr>co_coordinatorHandle = js ''co'', co_pollIntervalMs = 2000,
     co_maxConcurrent = 4, co_worktree = None, co_devMode = False\<rparr>"

lemma demo_runtime_ok:
  assumes "\<And>db. orch_steps db (meanwhile db)"
  shows "runtime_ok (demo_runtime meanwhile rejected)"
  using assms by (simp add: runtime_ok_def call_ok_def demo_runtime_def)

lemma finish_running_steps: "orch_steps db (finish_running db)"
proof -
  have "orch_steps db (fold (\<lambda>t d. snd (updateTaskStatus demo_clock (t_id t) T_completed None d)) ts db)"
    for ts
    by (induction ts arbitrary: db)
      (auto intro: converse_rtranclp_into_rtranclp step_updateTaskStatus)
  then show ?thesis by (simp add: finish_running_def)
qed

definition demo_finished :: odb where
  "demo_finished = snd (updateTaskStatus demo_clock (js ''task_a'') T_completed None
     (db_of (createTask (js ''a'') demo_clock (demo_task ''one'' []) empty_db)))"

lemma demo_finished_reachable: "reachable demo_finished"
proof -
  have "reachable (db_of (createTask (js ''a'') demo_clock (demo_task ''one'' []) empty_db))"
    by (rule steps_db_of, erule method_steps) simp
  then show ?thesis
    unfolding reachable_def demo_finished_def by (rule snoc_step) (rule step_updateTaskStatus)
qed

lemma demo_finished_rows:
  "map t_status (tasks demo_finished) = [T_completed]" "messages demo_finished = []"
  "gates demo_finished = []" "runs demo_finished = []"
  by (simp_all add: demo_finished_def demo_eval updateTaskStatus_def write_task_status_def
      promoteReadyTasks_def completeActiveDispatchForTask_def latest_active_for_task_def last_row_def)

subsection \<open>When a run ends, and with which report\<close>

lemma listTasks_all: "set (listTasks db None False) = set (tasks db)"
  by (simp add: listTasks_def)

lemma listTasks_status: "set (listTasks db (Some s) False) = {t \<in> set (tasks db). t_status t = s}"
  by (simp add: listTasks_def)

lemma listTasks_ready: "set (listTasks db st True) = {t \<in> set (tasks db). t_status t = T_ready}"
  by (simp add: listTasks_def)

definition nothing_left :: "coordinator_options \<Rightarrow> odb \<Rightarrow> bool" where
  "nothing_left opts db = (getUnreadMessages db (co_coordinatorHandle opts) None = []
     \<and> listGates db None (Some G_pending) = [] \<and> tasks db \<noteq> []
     \<and> list_all (\<lambda>t. t_status t = T_completed) (tasks db))"

lemma warnStale_frame [simp]:
  "c_stopped (warnStaleDispatches rt c) = c_stopped c"
  "c_failedTasks (warnStaleDispatches rt c) = c_failedTasks c"
proof -
  have "c_stopped (fold (\<lambda>ctx. log (f ctx)) xs c) = c_stopped c
      \<and> c_failedTasks (fold (\<lambda>ctx. log (f ctx)) xs c) = c_failedTasks c"
    for f and xs :: "dispatch_row list"
    by (induction xs arbitrary: c) (auto simp: log_def)
  then show "c_stopped (warnStaleDispatches rt c) = c_stopped c"
    and "c_failedTasks (warnStaleDispatches rt c) = c_failedTasks c"
    by (simp_all add: warnStaleDispatches_def)
qed

lemma quiet_tick:
  assumes "nothing_left opts (c_db c)"
  shows "\<exists>c'. tick rt opts c = (Inr True, c') \<and> c_db c' = c_db c \<and> c_stopped c' = c_stopped c
     \<and> c_failedTasks c' = c_failedTasks c"
proof -
  have p: "processMessages rt opts c = (None, c)"
    using assms by (simp add: processMessages_def nothing_left_def)
  have g: "processDecisionGates rt c = c"
    using assms by (simp add: processDecisionGates_def nothing_left_def)
  let ?w = "warnStaleDispatches rt c"
  have "set (listTasks (c_db ?w) None True) = {}"
    using assms unfolding listTasks_ready by (auto simp: nothing_left_def list_all_iff)
  then have d: "dispatchReadyTasks rt opts ?w = ?w\<lparr>c_phase := Dispatching\<rparr>"
    by (simp add: dispatchReadyTasks_def)
  have "set (listTasks (c_db c) None False) \<noteq> {}" "all_done (listTasks (c_db c) None False)"
    using assms
    by (auto simp: nothing_left_def all_done_def list_all_iff terminal_task_status_def listTasks_all)
  then have "checkConvergence (?w\<lparr>c_phase := Dispatching\<rparr>) = (True, ?w\<lparr>c_phase := Done\<rparr>)"
    by (auto simp: checkConvergence_def Let_def)
  then show ?thesis by (simp add: tick_def p g d)
qed

lemma updateCoordinatorRun_frame:
  "tasks (snd (updateCoordinatorRun now i s db)) = tasks db"
  "getCoordinatorRun (snd (updateCoordinatorRun now i s db)) i =
     map_option (\<lambda>r. r\<lparr>r_status := s, r_completed_at := coalesce
        (if s = C_completed \<or> s = C_failed then Some (iso_now now) else None) (r_completed_at r)\<rparr>)
       (getCoordinatorRun db i)"
  by (simp_all add: updateCoordinatorRun_def getCoordinatorRun_def Let_def run_tbl.lookup_modify)

lemma uniq_set [simp]: "set (uniq xs) = set xs"
  by (simp add: uniq_def)

definition all_completed :: "odb \<Rightarrow> bool" where
  "all_completed db = list_all (\<lambda>t. t_status t = T_completed) (tasks db)"

lemma finish_report:
  assumes "finish_run rt i c = (report, c')"
  shows "c_stopped c' = c_stopped c" "tasks (c_db c') = tasks (c_db c)"
    and "set (rp_failedTasks report) =
      set (c_failedTasks c) \<union> t_id ` {t \<in> set (tasks (c_db c)). t_status t = T_failed}"
    and "rp_status report = (if \<not> c_stopped c \<and> c_failedTasks c = [] \<and> all_completed (c_db c)
      then C_completed else C_failed)"
    and "map_option r_status (getCoordinatorRun (c_db c') i) =
      map_option (\<lambda>_. rp_status report) (getCoordinatorRun (c_db c) i)"
proof -
  obtain now hex c1 where c1: "clock_of rt c = (now, hex, c1)" by (metis prod_cases3)
  then have eqs: "c_db c1 = c_db c" "c_stopped c1 = c_stopped c"
    by (auto simp: clock_of_def split: prod.splits)
  note [simp] = finish_run_def c1 Let_def log_def updateCoordinatorRun_frame eqs
  show "c_stopped c' = c_stopped c" "tasks (c_db c') = tasks (c_db c)"
    using assms by auto
  show "set (rp_failedTasks report) =
      set (c_failedTasks c) \<union> t_id ` {t \<in> set (tasks (c_db c)). t_status t = T_failed}"
    using assms by (auto simp: listTasks_all)
  have fl: "uniq xs = [] \<longleftrightarrow> xs = []" for xs :: "jsstr list"
    by (metis uniq_set set_empty)
  have "all_completed (c_db c) \<longleftrightarrow> all_done (listTasks (c_db c) None False)
      \<and> filter (\<lambda>t. t_status t = T_failed) (listTasks (c_db c) None False) = []"
    by (auto simp: all_completed_def all_done_def list_all_iff terminal_task_status_def
        filter_empty_conv listTasks_all)
  then show "rp_status report = (if \<not> c_stopped c \<and> c_failedTasks c = [] \<and> all_completed (c_db c)
      then C_completed else C_failed)"
    using assms by (auto simp: fl)
  show "map_option r_status (getCoordinatorRun (c_db c') i) =
      map_option (\<lambda>_. rp_status report) (getCoordinatorRun (c_db c) i)"
    using assms by (auto simp: option.map_comp comp_def)
qed

text \<open>
  When the polling loop returns, the report says \<open>completed\<close> exactly when the run was not
  stopped, no task failed on the way and every task is completed; its failed tasks are those
  recorded and those with status failed; and the run's row has the status of the report.
\<close>

theorem run_report_correct:
  assumes "finish_run rt i c = (report, c')"
  shows "rp_status report = (if \<not> c_stopped c' \<and> c_failedTasks c = [] \<and> all_completed (c_db c')
      then C_completed else C_failed)
    \<and> set (rp_failedTasks report) =
        set (c_failedTasks c) \<union> t_id ` {t \<in> set (tasks (c_db c')). t_status t = T_failed}
    \<and> map_option r_status (getCoordinatorRun (c_db c') i) =
        map_option (\<lambda>_. rp_status report) (getCoordinatorRun (c_db c) i)"
  using finish_report [OF assms] by (simp add: all_completed_def)

lemma demo_all_completed: "all_completed demo_finished"
  using demo_finished_rows(1) by (auto simp: all_completed_def)

theorem run_report_correct_witness:
  "rp_status (fst (finish_run (demo_runtime id None) (js ''r'') (init_coord demo_finished 0)))
     = C_completed"
proof -
  obtain report c' where
    f: "finish_run (demo_runtime id None) (js ''r'') (init_coord demo_finished 0) = (report, c')"
    by (cases "finish_run (demo_runtime id None) (js ''r'') (init_coord demo_finished 0)")
  have "\<not> c_stopped c'" "tasks (c_db c') = tasks demo_finished"
    using finish_report(1,2) [OF f] by (simp_all add: init_coord_def)
  then show ?thesis
    using run_report_correct [OF f] f demo_all_completed
    by (simp add: init_coord_def all_completed_def)
qed

lemma finished_dag_loop:
  assumes "nothing_left opts (c_db c)" and "\<not> c_stopped c" and "c_failedTasks c = []"
  shows "\<exists>report c'. executeLoop rt opts (Suc n) i c = Some (Inr report, c')
    \<and> rp_status report = C_completed \<and> tasks (c_db c') = tasks (c_db c)
    \<and> map_option r_status (getCoordinatorRun (c_db c') i) =
        map_option (\<lambda>_. C_completed) (getCoordinatorRun (c_db c) i)"
proof -
  let ?c0 = "log (js ''Coordinator run '' @ i @ js '' started'') (c\<lparr>c_runId := i\<rparr>)"
  have "listTasks (c_db c) None False \<noteq> []"
    using assms(1) listTasks_all [of "c_db c"] by (metis nothing_left_def set_empty)
  then obtain c1 where d: "decompose ?c0 = (None, c1)" and c1: "c_db c1 = c_db c"
      "c_stopped c1 = c_stopped c" "c_failedTasks c1 = c_failedTasks c"
    by (simp add: decompose_def Let_def log_def)
  have "nothing_left opts (c_db c1)" using assms(1) c1(1) by simp
  from quiet_tick [OF this, of rt] obtain c2 where t: "tick rt opts c1 = (Inr True, c2)"
      and c2: "c_db c2 = c_db c" "c_stopped c2 = c_stopped c" "c_failedTasks c2 = c_failedTasks c"
    using c1 by auto
  obtain report c3 where f: "finish_run rt i c2 = (report, c3)" by (cases "finish_run rt i c2")
  have "run_ticks rt opts (Suc n) c1 = Some (None, c2)"
    using t c1(2) assms(2) by simp
  then have e: "executeLoop rt opts (Suc n) i c = Some (Inr report, c3)"
    using d f by (simp add: executeLoop_def del: js.simps)
  have "all_completed (c_db c2)" using assms(1) c2(1) by (simp add: nothing_left_def all_completed_def)
  with finish_report [OF f] c2 assms(2,3) e show ?thesis by auto
qed

text \<open>
  C36. Termination: when every task is completed, no gate is pending and the coordinator has
  no unread message, the loop returns in its first tick, whatever the runtime does, and the
  run is reported and recorded as completed.
\<close>

theorem finished_dag_ends:
  assumes "nothing_left opts (c_db c)" and "\<not> c_stopped c" and "c_failedTasks c = []"
  shows "\<exists>report c'. executeLoop rt opts (Suc n) i c = Some (Inr report, c')
    \<and> rp_status report = C_completed \<and> tasks (c_db c') = tasks (c_db c)
    \<and> map_option r_status (getCoordinatorRun (c_db c') i) =
        map_option (\<lambda>_. C_completed) (getCoordinatorRun (c_db c) i)"
  using assms by (rule finished_dag_loop)

lemma demo_nothing_left: "nothing_left demo_options demo_finished"
  using demo_finished_rows
  by (auto simp: nothing_left_def getUnreadMessages_def listGates_def)

theorem finished_dag_ends_witness:
  "\<exists>report c'. executeLoop (demo_runtime id None) demo_options 1 (js ''r'')
      (init_coord demo_finished 0) = Some (Inr report, c') \<and> rp_status report = C_completed"
  using finished_dag_ends [of demo_options "init_coord demo_finished (0::nat)" "demo_runtime id None" 0
      "js ''r''"] demo_nothing_left
  by (auto simp: init_coord_def)

text \<open>
  A run of the coordinator, with any answers of the runtime and any methods of the
  database called by others while it waits, leads from a reachable database to a reachable
  one; so unique ids, the dispatch lock and the circuit breaker hold throughout.
\<close>

theorem coordinator_safe:
  assumes "reachable db" and "runtime_ok rt" and "run rt opts spec fuel db env = Some (r, c)"
  shows "reachable (c_db c) \<and> db_inv (c_db c)"
proof
  show "reachable (c_db c)"
    using assms(1) run_steps [OF assms(2,3)] unfolding reachable_def by (rule rtranclp_trans)
  then show "db_inv (c_db c)" by (rule reachable_inv)
qed

lemma demo_run: "\<exists>r c. run (demo_runtime finish_running None) demo_options (js ''s'') 1 demo_finished 0
   = Some (r, c)"
proof -
  let ?rt = "demo_runtime finish_running None"
  have now: "clock_of ?rt (init_coord demo_finished 0) = (demo_clock, [0], init_coord demo_finished (Suc 0))"
    by (simp add: clock_of_def demo_runtime_def init_coord_def)
  obtain row db' where new: "createCoordinatorRun [0] demo_clock (js ''s'') (js ''co'') (Some 2000)
      demo_finished = Inr (row, db')" and
    rows: "tasks db' = tasks demo_finished" "gates db' = gates demo_finished"
      "messages db' = messages demo_finished"
    by (auto simp: createCoordinatorRun_def Let_def demo_finished_rows)
  have "nothing_left demo_options db'"
    using demo_nothing_left rows by (simp add: nothing_left_def getUnreadMessages_def listGates_def)
  then obtain report c' where
    "executeLoop ?rt demo_options (Suc 0) (r_id row) ((init_coord demo_finished (Suc 0))\<lparr>c_db := db'\<rparr>)
      = Some (Inr report, c')"
    using finished_dag_loop [of demo_options "(init_coord demo_finished (Suc 0))\<lparr>c_db := db'\<rparr>" ?rt 0
        "r_id row"]
    by (auto simp: init_coord_def)
  then show ?thesis
    using now new by (simp add: run_def init_coord_def demo_options_def)
qed

theorem coordinator_safe_witness:
  "\<exists>r c. run (demo_runtime finish_running None) demo_options (js ''s'') 1 demo_finished 0 = Some (r, c)
     \<and> db_inv (c_db c)"
proof -
  obtain r c where
    r: "run (demo_runtime finish_running None) demo_options (js ''s'') 1 demo_finished 0 = Some (r, c)"
    using demo_run by blast
  from coordinator_safe [OF demo_finished_reachable demo_runtime_ok [OF finish_running_steps] r] r
  show ?thesis by blast
qed

subsection \<open>A message the coordinator cannot get past\<close>

lemma parse_null: "json_parse (js ''null'') = Some JNull"
  using json_parse_stringify [of JNull] by simp

text \<open>
  A \<open>decision_gate\<close> message whose payload is the JSON value null makes the tick throw
  before the messages are marked as read: the database, and with it the inbox, is unchanged,
  so the next run of the coordinator ends at the same message.
\<close>

theorem poison_gate_message:
  assumes "getUnreadMessages (c_db c) (co_coordinatorHandle opts) None = m # ms"
    and "m_type m = MT_decision_gate" and "m_payload m = Some (js ''null'')"
  shows "\<exists>c'. tick rt opts c = (Inl TypeError, c') \<and> c_db c' = c_db c"
proof -
  let ?c = "log (js ''Decision gate from '' @ m_from_handle m @ js '': '' @ m_subject m) c"
  have "handle_message rt m c = (Some TypeError, ?c)"
    by (simp add: handle_message_def handleDecisionGateMessage_def assms(2,3) parse_null Let_def
        del: js.simps)
  then have "tick rt opts c = (Inl TypeError, ?c)"
    using assms(1) by (simp add: tick_def processMessages_def)
  then show ?thesis by (intro exI [of _ ?c]) simp
qed

definition poison_message :: new_message where
  "poison_message = (demo_message MT_decision_gate)\<lparr>nm_payload := Some (js ''null'')\<rparr>"

theorem poison_gate_message_witness:
  "\<exists>c'. tick (demo_runtime id None) demo_options
      (init_coord (db_of (insertMessage (js ''p'') demo_clock poison_message empty_db)) 0)
    = (Inl TypeError, c')"
proof -
  let ?db = "db_of (insertMessage (js ''p'') demo_clock poison_message empty_db)"
  obtain m where m: "getUnreadMessages ?db (js ''co'') None = [m]" "m_type m = MT_decision_gate"
      "m_payload m = Some (js ''null'')"
    by (simp add: getUnreadMessages_def poison_message_def demo_eval type_selected_def)
  from poison_gate_message [of "init_coord ?db (0::nat)" demo_options m "[]" "demo_runtime id None"] m
  show ?thesis by (auto simp: init_coord_def demo_options_def)
qed

subsection \<open>The bound on running tasks\<close>

definition running :: "odb \<Rightarrow> nat" where
  "running db = length (filter (\<lambda>t. t_status t = T_dispatched) (tasks db))"

text \<open>A runtime during whose calls nothing else happens to the database.\<close>

definition call_quiet :: "('e, 'a) call \<Rightarrow> bool" where
  "call_quiet call = (\<forall>env db. snd (snd (snd (call env db))) = db)"

definition runtime_quiet :: "'e runtime \<Rightarrow> bool" where
  "runtime_quiet rt = ((\<forall>w. call_quiet (rt_listTerminals rt w))
     \<and> (\<forall>w t. call_quiet (rt_createTerminal rt w t)) \<and> (\<forall>w. call_quiet (rt_probeWorktreeDrift rt w))
     \<and> (\<forall>h p. call_quiet (rt_sendTerminalAgentPrompt rt h p)) \<and> (\<forall>n. call_quiet (rt_sleep rt n)))"

lemma quiet_ok: "runtime_quiet rt \<Longrightarrow> runtime_ok rt"
  by (simp add: runtime_quiet_def runtime_ok_def call_quiet_def call_ok_def)

lemma await_quiet: "call_quiet call \<Longrightarrow> await call c = (x, c') \<Longrightarrow> c_db c' = c_db c"
proof -
  assume q: "call_quiet call" and aw: "await call c = (x, c')"
  obtain y stop env db where call: "call (c_env c) (c_db c) = (y, stop, env, db)"
    by (rule prod_cases4)
  have "snd (snd (snd (call (c_env c) (c_db c)))) = c_db c" using q unfolding call_quiet_def by blast
  then show "c_db c' = c_db c" using aw call by (auto simp: await_def)
qed

lemma running_set_status:
  assumes "distinct (map t_id (tasks db))"
  shows "running (set_task_status i s db) \<le> running db + 1"
    and "s \<noteq> T_dispatched \<Longrightarrow> running (set_task_status i s db) \<le> running db"
proof -
  have "length (filter P (modify_by t_id i f ts)) \<le> length (filter P ts) + 1"
    if "distinct (map t_id ts)" for P f and ts :: "task_row list"
    using that
  proof (induction ts)
    case (Cons t ts)
    then show ?case
    proof (cases "t_id t = i")
      case True
      then have "modify_by t_id i f ts = ts"
        using Cons.prems by (intro modify_by_fresh) simp
      then show ?thesis by (simp add: modify_by_def)
    next
      case False
      then show ?thesis using Cons by (simp add: modify_by_def)
    qed
  qed (simp add: modify_by_def)
  then show "running (set_task_status i s db) \<le> running db + 1"
    using assms by (simp add: running_def set_task_status_def)
  show "running (set_task_status i s db) \<le> running db" if "s \<noteq> T_dispatched"
  proof -
    have "length (filter (\<lambda>t. t_status t = T_dispatched) (modify_by t_id i (t_status_update (\<lambda>_. s)) ts))
       \<le> length (filter (\<lambda>t. t_status t = T_dispatched) ts)" for ts
      using that by (induction ts) (auto simp: modify_by_def)
    then show ?thesis by (simp add: running_def set_task_status_def)
  qed
qed

lemma running_cong: "tasks db = tasks db' \<Longrightarrow> running db = running db'"
  by (simp add: running_def)

lemma running_createDispatch:
  assumes "createDispatchContext hex now i a k db = Inr (d, db')" and "ids_inv db"
  shows "running db' \<le> running db + 1"
proof -
  have "db' = set_task_status i T_dispatched (db\<lparr>dispatches := dispatches db @ [d]\<rparr>)"
    using assms(1) by (auto simp: createDispatchContext_def Let_def split: option.splits if_splits)
  then show ?thesis
    using running_set_status(1) [of "db\<lparr>dispatches := dispatches db @ [d]\<rparr>" i T_dispatched] assms(2)
    by (simp add: ids_inv_def running_def)
qed

lemma running_failDispatch:
  assumes "failDispatch c e db = (r, db')" and "ids_inv db"
  shows "running db' \<le> running db"
proof (cases "getDispatchContextById db c")
  case (Some d)
  let ?n = "d_failure_count d + 1"
  have "running (set_task_status (d_task_id d) s (write_failure c ?n e db))
      \<le> running (write_failure c ?n e db)" if "s \<noteq> T_dispatched" for s
    using running_set_status(2) [OF _ that] assms(2) by (simp add: ids_inv_def)
  then show ?thesis
    using assms(1) Some by (auto simp: failDispatch_def Let_def running_def split: if_splits)
qed (use assms in \<open>simp add: failDispatch_def\<close>)

lemma running_send:
  assumes q: "runtime_quiet rt" and inv: "ids_inv (c_db c)"
    and s: "send_dispatch rt opts task h spec drift c = (e, c')"
  shows "running (c_db c') \<le> running (c_db c) + 1"
proof -
  obtain now hex c1 where c1: "clock_of rt c = (now, hex, c1)" by (metis prod_cases3)
  have db1: "c_db c1 = c_db c" using clock_of_db [OF c1] .
  show ?thesis
  proof (cases "createDispatchContext hex now (t_id task) h (rt_getTerminalPaneKey rt (c_env c1) h)
      (c_db c1)")
    case (Inl x)
    with s c1 db1 show ?thesis by (simp add: send_dispatch_def)
  next
    case (Inr y)
    obtain d db' where y: "y = (d, db')" by (cases y)
    have r: "running db' \<le> running (c_db c) + 1"
      using running_createDispatch Inr y inv db1 by metis
    have inv': "ids_inv db'" using ids.inv_createDispatchContext Inr y inv db1 by metis
    have aw: "c_db c3 = db'"
      if "await (rt_sendTerminalAgentPrompt rt h p) (c1\<lparr>c_db := db'\<rparr>) = (x, c3)" for p x c3
      using await_quiet [OF _ that] q by (simp add: runtime_quiet_def)
    have fd: "running db'' \<le> running (c_db c) + 1" if "failDispatch cx er db' = (x, db'')" for cx er x db''
      using running_failDispatch [OF that inv'] r by simp
    show ?thesis
      using s c1 Inr y r fd
      by (auto simp: send_dispatch_def Let_def simp del: js.simps dest!: aw
          split: prod.splits option.splits)
  qed
qed

lemma running_dispatchTask:
  assumes q: "runtime_quiet rt" and inv: "ids_inv (c_db c)"
    and s: "dispatchTask rt opts task h c = (e, c')"
  shows "running (c_db c') \<le> running (c_db c) + 1"
proof -
  have send: "running (c_db b) \<le> running (c_db c) + 1"
    if "send_dispatch rt opts task h spec drift a = (x, b)" "c_db a = c_db c" for a b x spec drift
    using running_send [OF q _ that(1)] that(2) inv by simp
  have probe: "c_db b = c_db c" if "await (rt_probeWorktreeDrift rt w) c = (x, b)" for w x b
    using await_quiet [OF _ that] q by (simp add: runtime_quiet_def)
  from s show ?thesis
    by (auto simp: dispatchTask_def Let_def simp del: js.simps
        split: prod.splits sum.splits option.splits if_splits dest!: probe dest: send)
qed

lemma running_loop:
  assumes "runtime_quiet rt"
  shows "ids_inv (c_db c) \<Longrightarrow>
    int (running (c_db (dispatch_loop rt opts ts slots hs c))) \<le> int (running (c_db c)) + max 0 slots"
  using assms
proof (induction rt opts ts slots hs c rule: dispatch_loop.induct)
  case (3 rt opts task ts slots h hs c)
  show ?case
  proof (cases "slots \<le> 0")
    case False
    obtain e c1 where t: "dispatchTask rt opts task h c = (e, c1)"
      by (cases "dispatchTask rt opts task h c")
    have one: "running (c_db c1) \<le> running (c_db c) + 1"
      using running_dispatchTask "3.prems" t by blast
    have inv: "ids_inv (c_db c1)"
      using ids.inv_steps dispatchTask_steps [OF quiet_ok [OF "3.prems"(2)] t] "3.prems"(1)
      unfolding c_steps_def by blast
    show ?thesis
    proof (cases e)
      case None
      from "3.IH"(1) [OF False t [symmetric] None inv "3.prems"(2)] one False t None
      show ?thesis by (simp del: js.simps)
    next
      case (Some err)
      from "3.IH"(2) [OF False t [symmetric] Some _ "3.prems"(2)] inv one False t Some
      show ?thesis by (simp del: js.simps)
    qed
  qed simp
qed simp_all

text \<open>
  The concurrency limit: while nothing else touches the database, dispatching the ready
  tasks never leaves more tasks running than \<open>maxConcurrent\<close>, or than were running before.
\<close>

theorem concurrency_limit:
  assumes "runtime_quiet rt" and "db_inv (c_db c)"
  shows "int (running (c_db (dispatchReadyTasks rt opts c)))
    \<le> max (int (running (c_db c))) (co_maxConcurrent opts)"
proof -
  let ?c = "c\<lparr>c_phase := Dispatching\<rparr>"
  have inv: "ids_inv (c_db c)" using assms(2) by (simp add: db_inv_def)
  have n: "length (listTasks (c_db c) (Some T_dispatched) False) = running (c_db c)"
    by (simp add: listTasks_def running_def)
  obtain hs c1 where av: "getAvailableTerminals rt opts ?c = (hs, c1)"
    by (cases "getAvailableTerminals rt opts ?c")
  have lst: "c_db b = c_db a" if "await (rt_listTerminals rt w) a = (x, b)" for w x a b
    using await_quiet [OF _ that] assms(1) by (simp add: runtime_quiet_def)
  have new: "c_db b = c_db a" if "await (rt_createTerminal rt w t) a = (x, b)" for w t x a b
    using await_quiet [OF _ that] assms(1) by (simp add: runtime_quiet_def)
  have c1: "c_db c1 = c_db c"
    using av by (auto simp: getAvailableTerminals_def dest!: lst split: prod.splits sum.splits)
  let ?n = "co_maxConcurrent opts - int (running (c_db c))"
  have loop: "int (running (c_db (dispatch_loop rt opts ts ?n xs b))) \<le> max (int (running (c_db c)))
      (co_maxConcurrent opts)" if "c_db b = c_db c" for ts xs b
    using running_loop [OF assms(1), of b opts ts ?n xs] inv that by simp
  have loop': "int (running (c_db (dispatch_loop rt opts ts ?n xs b))) \<le> co_maxConcurrent opts"
    if "c_db b = c_db c" "\<not> co_maxConcurrent opts \<le> int (running (c_db c))" for ts xs b
    using loop [OF that(1), of ts xs] that(2) by simp
  show ?thesis
    using av c1
    by (auto simp: dispatchReadyTasks_def Let_def n simp del: js.simps dest!: new
        split: prod.splits sum.splits intro!: loop')
qed

theorem concurrency_limit_witness:
  "int (running (c_db (dispatchReadyTasks (demo_runtime id None) demo_options (init_coord demo_tasks 0))))
     \<le> max (int (running demo_tasks)) 4"
proof -
  have "runtime_quiet (demo_runtime id None)"
    by (simp add: runtime_quiet_def call_quiet_def demo_runtime_def)
  from concurrency_limit [OF this, of "init_coord demo_tasks 0" demo_options] demo_tasks_inv
  show ?thesis by (simp add: init_coord_def demo_options_def)
qed

subsection \<open>Which tasks a tick touches\<close>











subsection \<open>A prompt that cannot be sent\<close>

lemma terminal_taken_snoc:
  assumes "dispatches db' = dispatches db @ [d]" and "\<not> active_status (d_status d)"
  shows "terminal_taken db' h k = terminal_taken db h k"
  using assms by (auto simp: terminal_taken_def)

text \<open>A dispatch that is created and failed again counts one failure and leaves no lock.\<close>

lemma failed_dispatch_frees:
  assumes new: "createDispatchContext hex now i h k db = Inr (d, db')"
    and db2: "db2 = snd (failDispatch (d_id d) message db')"
  shows "prior_failures db2 i = prior_failures db i + 1"
    and "task_status_of db2 i = Some (if 3 \<le> prior_failures db i + 1 then T_failed else T_ready)"
    and "\<not> terminal_taken db2 h k"
proof -
  have round: "retry_round now i (hex, h, k, message) db = Inr db2"
    using new db2 by (simp add: retry_round_def)
  show "prior_failures db2 i = prior_failures db i + 1"
    and "task_status_of db2 i = Some (if 3 \<le> prior_failures db i + 1 then T_failed else T_ready)"
    using retry_round_step [OF round] by simp_all
  note rows = createDispatchContext_rows [OF new]
  let ?n = "d_failure_count d + 1"
  have "dispatches db2 = dispatches db @ [d\<lparr>d_status := failure_status ?n,
      d_failure_count := ?n, d_last_failure := Some message\<rparr>]"
    using failDispatch_last [OF rows(2,1), of message] by (simp add: Let_def db2)
  moreover have "\<not> active_status (d_status (d\<lparr>d_status := failure_status ?n,
      d_failure_count := ?n, d_last_failure := Some message\<rparr>))"
    by (simp add: active_status_def failure_status_def)
  moreover have "\<not> terminal_taken db h k" using rows(10) findActive_taken by blast
  ultimately show "\<not> terminal_taken db2 h k" using terminal_taken_snoc by blast
qed

text \<open>
  When the prompt of a dispatch is rejected, the error is passed on, the task has one
  failure more and is ready again (or failed, from the third on), and the terminal is free:
  a dispatch that did not reach its worker leaves no lock behind.
\<close>

theorem rejected_prompt:
  assumes quiet: "runtime_quiet rt" and now: "clock_of rt c = (now, hex, c1)"
    and pane: "k = rt_getTerminalPaneKey rt (c_env c1) h"
    and new: "createDispatchContext hex now (t_id task) h k (c_db c) = Inr (d, db')"
    and reject: "\<And>p env db. fst (rt_sendTerminalAgentPrompt rt h p env db) = Some (message, err)"
  shows "\<exists>c'. send_dispatch rt opts task h spec drift c = (Some err, c')
    \<and> prior_failures (c_db c') (t_id task) = prior_failures (c_db c) (t_id task) + 1
    \<and> task_status_of (c_db c') (t_id task) =
        Some (if 3 \<le> prior_failures (c_db c) (t_id task) + 1 then T_failed else T_ready)
    \<and> \<not> terminal_taken (c_db c') h k"
proof -
  have db1: "c_db c1 = c_db c" using clock_of_db [OF now] .
  let ?p = "\<lambda>pre. rt_sendTerminalAgentPrompt rt h (pre @ gate_context db' (t_id task))"
  let ?pre = "buildDispatchPreamble \<lparr>pp_taskId = t_id task, pp_dispatchId = d_id d,
     pp_taskSpec = spec, pp_coordinatorHandle = co_coordinatorHandle opts,
     pp_devMode = co_devMode opts, pp_baseDrift = drift, pp_workerKind = None\<rparr>"
  obtain x c3 where aw: "await (?p ?pre) (c1\<lparr>c_db := db'\<rparr>) = (x, c3)"
    by (cases "await (?p ?pre) (c1\<lparr>c_db := db'\<rparr>)")
  have x: "x = Some (message, err)"
    using aw reject [of "?pre @ gate_context db' (t_id task)" "c_env c1" db']
    by (auto simp: await_def split: prod.splits)
  have c3: "c_db c3 = db'"
    using await_quiet [OF _ aw] quiet by (simp add: runtime_quiet_def)
  let ?db = "snd (failDispatch (d_id d) message db')"
  have "\<exists>c'. send_dispatch rt opts task h spec drift c = (Some err, c') \<and> c_db c' = ?db"
    using now new db1 pane aw x c3
    by (auto simp: send_dispatch_def Let_def split: prod.split)
  then show ?thesis using failed_dispatch_frees [OF new refl, of message] by metis
qed

theorem rejected_prompt_witness:
  "\<exists>c'. send_dispatch (demo_runtime id (Some (js ''gone'', js ''Error: gone''))) demo_options
      (hd (tasks demo_tasks)) (js ''t1'') (js ''one'') None (init_coord demo_tasks 7)
      = (Some (js ''Error: gone''), c')
    \<and> task_status_of (c_db c') (js ''task_a'') = Some T_ready"
proof -
  let ?rt = "demo_runtime id (Some (js ''gone'', js ''Error: gone''))"
  have quiet: "runtime_quiet ?rt"
    by (simp add: runtime_quiet_def call_quiet_def demo_runtime_def)
  have now: "clock_of ?rt (init_coord demo_tasks 7) = (demo_clock, [7], init_coord demo_tasks 8)"
    by (simp add: clock_of_def demo_runtime_def init_coord_def)
  have pane: "None = rt_getTerminalPaneKey ?rt (c_env (init_coord demo_tasks 8)) (js ''t1'')"
    by (simp add: demo_runtime_def)
  have i: "t_id (hd (tasks demo_tasks)) = js ''task_a''" by (simp add: demo_eval)
  have db: "c_db (init_coord demo_tasks (7::nat)) = demo_tasks" by (simp add: init_coord_def)
  have "\<exists>d db'. createDispatchContext [7] demo_clock (js ''task_a'') (js ''t1'') None demo_tasks
      = Inr (d, db')"
    by (simp add: demo_eval)
  then obtain d db' where new: "createDispatchContext [7] demo_clock (t_id (hd (tasks demo_tasks)))
      (js ''t1'') None (c_db (init_coord demo_tasks (7::nat))) = Inr (d, db')"
    unfolding i db by blast
  have reject: "fst (rt_sendTerminalAgentPrompt ?rt (js ''t1'') p env b) =
      Some (js ''gone'', js ''Error: gone'')" for p env b
    by (simp add: demo_runtime_def)
  have zero: "prior_failures demo_tasks (js ''task_a'') = 0" by (simp add: demo_eval)
  from rejected_prompt [OF quiet now pane new reject, of demo_options "js ''one''" None]
  show ?thesis unfolding i db zero by (simp del: js.simps) blast
qed

end
