(* ===== verification/Orch_Rpc_Props.thy ===== *)
theory Orch_Rpc_Props
  imports Orch_Handlers Coordinator_Props
begin

section \<open>What the RPC methods keep and promise\<close>

text \<open>
  A relation between databases that is reflexive and transitive is kept by a computation when
  it is kept by its parts (locale \<open>act_relation\<close>). For the runs of the database (\<open>orch_steps\<close>) this
  shows that no request, whatever its parameters, leaves the reachable states; for
  \<open>unread_shrinks\<close> that a read that consumes messages never makes one unread. Then: what \<open>check\<close>
  returns and consumes, that a reply answers a question, what the coordinator makes of one,
  which waiters a message wakes, and what a run row left by an earlier process does.
\<close>

subsection \<open>Relations along computations\<close>

definition keeps :: "(odb \<Rightarrow> odb \<Rightarrow> bool) \<Rightarrow> ('e, 'a) act \<Rightarrow> bool" where
  "keeps R a = (\<forall>w. R (w_db w) (w_db (snd (a w))))"

lemma keepsD: "keeps R a \<Longrightarrow> a w = (r, w') \<Longrightarrow> R (w_db w) (w_db w')"
  unfolding keeps_def by (metis snd_conv)

named_theorems keeps_intros \<open>how a relation is kept along a computation\<close>

locale act_relation =
  fixes R :: "odb \<Rightarrow> odb \<Rightarrow> bool"
  assumes refl [intro, simp]: "R db db"
    and trans: "R a b \<Longrightarrow> R b c \<Longrightarrow> R a c"
begin

lemma keeps_ret: "keeps R (ret x)" and keeps_throw: "keeps R (throw e)"
  by (simp_all add: keeps_def ret_def throw_def)

lemma keeps_and_then:
  assumes "keeps R a" and "\<And>x. keeps R (f x)"
  shows "keeps R (and_then a f)"
  unfolding keeps_def and_then_def
proof
  fix w
  show "R (w_db w) (w_db (snd (case a w of (Inl e, w') \<Rightarrow> (Inl e, w') | (Inr x, w') \<Rightarrow> f x w')))"
    using assms(1) [unfolded keeps_def, rule_format, of w]
      assms(2) [unfolded keeps_def, rule_format]
    by (auto split: prod.split sum.split intro: trans)
qed

lemma keeps_for_each: "(\<And>x. keeps R (f x)) \<Longrightarrow> keeps R (for_each f xs)"
  by (induction xs) (auto intro: keeps_ret keeps_and_then)

lemma keeps_read: "keeps R (read_db f)" and keeps_waiters: "keeps R (on_waiters g)"
  and keeps_module: "keeps R (on_module h)" and keeps_env: "keeps R (on_env k)"
  and keeps_aborted: "keeps R (aborted rt)"
  by (simp_all add: keeps_def read_db_def on_waiters_def on_module_def on_env_def aborted_def
      split: prod.split)

lemma keeps_update: "(\<And>db. R db (f db)) \<Longrightarrow> keeps R (update_db f)"
  by (simp add: keeps_def update_db_def)

lemma keeps_try: "(\<And>db x db'. f db = Inr (x, db') \<Longrightarrow> R db db') \<Longrightarrow> keeps R (try_db f)"
  by (auto simp: keeps_def try_db_def split: sum.split)

lemma keeps_effect: "(\<And>db. R db (snd (f db))) \<Longrightarrow> keeps R (effect_db f)"
  and keeps_state: "(\<And>db. R db (snd (g db))) \<Longrightarrow> keeps R (state_db g)"
  by (auto simp: keeps_def effect_db_def state_db_def split: prod.split)
    (metis snd_conv)+

lemmas keeps_parts = keeps_ret keeps_throw keeps_and_then keeps_for_each keeps_read keeps_waiters
  keeps_module keeps_env keeps_aborted

end

interpretation runs: act_relation orch_steps
  by unfold_locales auto

subsection \<open>Every request keeps the database reachable\<close>

definition rpc_runtime_ok :: "'e rpc_runtime \<Rightarrow> bool" where
  "rpc_runtime_ok rt = ((\<forall>h. keeps orch_steps (rr_deliverPendingMessages rt h))
     \<and> keeps orch_steps (rr_listTerminals rt)
     \<and> (\<forall>h. keeps orch_steps (rr_isTerminalRunningAgent rt h))
     \<and> (\<forall>h p. keeps orch_steps (rr_sendTerminalAgentPrompt rt h p))
     \<and> (\<forall>v. keeps orch_steps (rr_pause rt v)))"

declare runs.keeps_parts [keeps_intros]

lemma keeps_notify [keeps_intros]: "keeps orch_steps (notify h t)"
  unfolding notify_def by (rule keeps_intros)

lemma keeps_insert [keeps_intros]: "keeps orch_steps (insert_message rt m)"
  unfolding insert_message_def
  by (auto intro!: keeps_intros runs.keeps_try split: prod.split dest: method_steps(1))

lemma keeps_reconcile [keeps_intros]: "keeps orch_steps (reconcile rt m)"
  unfolding reconcile_def
  by (auto intro!: keeps_intros runs.keeps_effect split: prod.split)
    (metis lifecycle_steps snd_conv)

lemma keeps_mark [keeps_intros]: "keeps orch_steps (update_db (markAsRead ids))"
  by (intro runs.keeps_update method_steps)

lemma keeps_wait [keeps_intros]: "rpc_runtime_ok rt \<Longrightarrow> keeps orch_steps (waitForMessage rt h f n)"
  unfolding waitForMessage_def
  by (auto intro!: keeps_intros simp: rpc_runtime_ok_def)

lemma keeps_announce [keeps_intros]: "rpc_runtime_ok rt \<Longrightarrow> keeps orch_steps (announce rt m)"
  unfolding announce_def by (auto intro!: keeps_intros simp: rpc_runtime_ok_def)

text \<open>The handlers; the case splits are those of the code.\<close>

lemmas handler_keeps = keeps_intros runs.keeps_try runs.keeps_effect runs.keeps_state

lemma keeps_send: "rpc_runtime_ok rt \<Longrightarrow> keeps orch_steps (rpc_send rt p)"
  unfolding rpc_send_def send_direct_def send_group_def
  by (auto intro!: keeps_intros split: option.split simp: rpc_runtime_ok_def)

lemma keeps_consume [keeps_intros]: "keeps orch_steps (consume rt ms)"
  unfolding consume_def by (intro keeps_intros)

lemma keeps_read_and_return [keeps_intros]: "keeps orch_steps (read_and_return rt p types)"
  unfolding read_and_return_def by (auto intro!: keeps_intros)

lemma keeps_check: "rpc_runtime_ok rt \<Longrightarrow> keeps orch_steps (rpc_check rt p)"
  unfolding rpc_check_def
  by (auto intro!: keeps_intros split: sum.split rpc_result.split)

lemma keeps_reply: "keeps orch_steps (rpc_reply rt p)"
  unfolding rpc_reply_def by (auto intro!: keeps_intros split: option.split)

lemma keeps_inbox: "keeps orch_steps (rpc_inbox p)"
  unfolding rpc_inbox_def by (intro keeps_intros)

lemma keeps_taskCreate: "keeps orch_steps (rpc_taskCreate rt p)"
  unfolding rpc_taskCreate_def create_task_def
  by (auto intro!: keeps_intros runs.keeps_try split: sum.split prod.split dest: method_steps(5))

lemma keeps_taskList: "keeps orch_steps (rpc_taskList p)"
  unfolding rpc_taskList_def by (intro keeps_intros)

lemma keeps_taskUpdate: "keeps orch_steps (rpc_taskUpdate rt p)"
  unfolding rpc_taskUpdate_def
  by (auto intro!: keeps_intros runs.keeps_effect method_steps split: option.split prod.split)

lemma keeps_create_dispatch [keeps_intros]: "keeps orch_steps (create_dispatch rt i h)"
  unfolding create_dispatch_def
  by (auto intro!: keeps_intros runs.keeps_try split: prod.split dest: method_steps(7))

lemma keeps_inject [keeps_intros]: "rpc_runtime_ok rt \<Longrightarrow> keeps orch_steps (inject_prompt rt p h c t)"
  unfolding inject_prompt_def
  by (auto intro!: keeps_intros runs.keeps_state method_steps simp: rpc_runtime_ok_def
      split: option.split prod.split)

lemma keeps_dispatch_task [keeps_intros]:
  "rpc_runtime_ok rt \<Longrightarrow> keeps orch_steps (dispatch_task rt p t h)"
  unfolding dispatch_task_def Let_def require_agent_def
  by (auto intro!: keeps_intros simp: rpc_runtime_ok_def)

lemma keeps_dispatch: "rpc_runtime_ok rt \<Longrightarrow> keeps orch_steps (rpc_dispatch rt p)"
  unfolding rpc_dispatch_def
  by (auto intro!: keeps_intros split: option.split)

lemma keeps_dispatchShow: "keeps orch_steps (rpc_dispatchShow p)"
  unfolding rpc_dispatchShow_def by (auto intro!: keeps_intros split: option.split)

lemma keeps_ask_turn [keeps_intros]: "keeps orch_steps (ask_turn rt h m d)"
  unfolding ask_turn_def by (auto intro!: keeps_intros split: list.split)

lemma keeps_ask_loop [keeps_intros]: "rpc_runtime_ok rt \<Longrightarrow> keeps orch_steps (ask_loop rt h m d n)"
  by (induction n) (auto intro!: keeps_intros split: ask_state.split)

lemma keeps_ask: "rpc_runtime_ok rt \<Longrightarrow> keeps orch_steps (rpc_ask rt n p)"
  unfolding rpc_ask_def
  by (auto intro!: keeps_intros simp: rpc_runtime_ok_def)

lemma keeps_run: "keeps orch_steps (rpc_run rt p)"
  unfolding rpc_run_def create_run_def
  by (auto intro!: keeps_intros runs.keeps_try split: option.split prod.split dest: method_steps(16))

lemma keeps_runStop: "keeps orch_steps rpc_runStop"
  unfolding rpc_runStop_def by (auto intro!: keeps_intros split: option.split)

lemma keeps_gateCreate: "keeps orch_steps (rpc_gateCreate rt p)"
  unfolding rpc_gateCreate_def
  by (auto intro!: keeps_intros runs.keeps_try split: sum.split prod.split dest: method_steps(13))

lemma keeps_gateResolve: "keeps orch_steps (rpc_gateResolve rt p)"
  unfolding rpc_gateResolve_def
  by (auto intro!: keeps_intros runs.keeps_state method_steps split: option.split prod.split)

lemma keeps_gateList: "keeps orch_steps (rpc_gateList p)"
  unfolding rpc_gateList_def by (intro keeps_intros)

lemma keeps_reset: "keeps orch_steps (rpc_reset p)"
  unfolding rpc_reset_def by (auto intro!: keeps_intros runs.keeps_update method_steps)

lemma keeps_finished: "keeps orch_steps a \<Longrightarrow> keeps orch_steps (finished a)"
  unfolding finished_def by (intro keeps_intros)

lemmas methods_keep = keeps_finished keeps_send keeps_check keeps_reply keeps_inbox keeps_taskCreate
  keeps_taskList keeps_taskUpdate keeps_dispatch keeps_dispatchShow keeps_ask keeps_run keeps_runStop
  keeps_gateCreate keeps_gateResolve keeps_gateList keeps_reset

lemma keeps_methods:
  assumes "rpc_runtime_ok rt" and "(m, schema) \<in> set (ORCHESTRATION_METHODS rt fuel)"
    and "schema ms = Some handler"
  shows "keeps orch_steps handler"
  using assms(2,3) unfolding ORCHESTRATION_METHODS_def Let_def
  by (auto intro!: methods_keep assms(1) simp del: js.simps)

text \<open>
  Any request to the orchestration, with any method name and any JSON parameters, keeps the
  database reachable, also when it fails or is still waiting: unique ids, the dispatch lock and
  the circuit breaker are out of reach of a client.
\<close>

theorem rpc_keeps_reachable:
  assumes "reachable (w_db w)" and "rpc_runtime_ok rt"
    and "rpc_dispatcher rt fuel meth params w = (response, w')"
  shows "reachable (w_db w') \<and> db_inv (w_db w')"
proof -
  have "orch_steps (w_db w) (w_db w')"
  proof (cases "Option.bind (map_of (ORCHESTRATION_METHODS rt fuel) meth)
      (\<lambda>schema. Option.bind (object_params params) schema)")
    case None
    then show ?thesis
      using assms(3) by (auto simp: rpc_dispatcher_def split: option.splits)
  next
    case (Some handler)
    then obtain schema ms where m: "map_of (ORCHESTRATION_METHODS rt fuel) meth = Some schema"
      "object_params params = Some ms" "schema ms = Some handler"
      by (auto simp: Option.bind_eq_Some_conv)
    have "keeps orch_steps handler"
      using keeps_methods [OF assms(2) map_of_SomeD [OF m(1)] m(3)] .
    moreover have "w' = snd (handler w)"
      using assms(3) m by (auto simp: rpc_dispatcher_def split: prod.splits sum.splits option.splits)
    ultimately show ?thesis by (simp add: keeps_def)
  qed
  with assms(1) have "reachable (w_db w')"
    unfolding reachable_def by (rule rtranclp_trans)
  then show ?thesis by (blast intro: reachable_inv)
qed

text \<open>A runtime in which time passes by ten seconds with each wait and nothing else happens.\<close>

definition demo_rpc :: "nat rpc_runtime" where
  "demo_rpc =
     \<lparr>rr_clock = (\<lambda>n. ((demo_clock, js ''d'' @ js_dec n), Suc n)), rr_millis = (\<lambda>n. (int n, n)),
      rr_aborted = (\<lambda>_. False), rr_deliverPendingMessages = (\<lambda>_. ret ()),
      rr_listTerminals = ret [], rr_getAgentStatusForHandle = (\<lambda>_ _. None),
      rr_getTerminalPaneKey = (\<lambda>_ _. None), rr_isTerminalRunningAgent = (\<lambda>_. ret True),
      rr_sendTerminalAgentPrompt = (\<lambda>_ _. ret None),
      rr_pause = (\<lambda>_. on_env (\<lambda>n. ((), n + 10000))), rr_toLowerCase = id, rr_toUpperCase = id,
      rr_number = (\<lambda>_. None)\<rparr>"

definition demo_world :: "odb \<Rightarrow> nat world" where
  "demo_world db = \<lparr>w_env = 0, w_db = db, w_waiters = no_waiters,
     w_module = \<lparr>gm_active = None, gm_next = 0, gm_stopped = [], gm_loops = []\<rparr>\<rparr>"

lemma demo_rpc_ok: "rpc_runtime_ok demo_rpc"
  by (auto simp: rpc_runtime_ok_def demo_rpc_def intro!: keeps_intros)

theorem rpc_keeps_reachable_witness:
  "reachable (w_db (snd (rpc_dispatcher demo_rpc 3 (js ''orchestration.check'')
     (Some (JObj [(js ''terminal'', JStr (js ''co''))])) (demo_world demo_db))))"
proof -
  obtain response w' where r: "rpc_dispatcher demo_rpc 3 (js ''orchestration.check'')
     (Some (JObj [(js ''terminal'', JStr (js ''co''))])) (demo_world demo_db) = (response, w')"
    by fastforce
  from rpc_keeps_reachable [OF _ demo_rpc_ok r] demo_db_reachable r
  show ?thesis by (simp add: demo_world_def)
qed

subsection \<open>What the dispatch request does\<close>
















subsection \<open>What check returns and consumes\<close>

definition unread_shrinks :: "odb \<Rightarrow> odb \<Rightarrow> bool" where
  "unread_shrinks db db' = (\<forall>m' \<in> set (messages db'). m_read m' = 0 \<longrightarrow>
     (\<exists>m \<in> set (messages db). m_id m = m_id m' \<and> m_to_handle m = m_to_handle m'
        \<and> m_type m = m_type m' \<and> m_read m = 0))"

interpretation shrink: act_relation unread_shrinks
proof
  show "unread_shrinks db db" for db by (auto simp: unread_shrinks_def)
next
  show "unread_shrinks a c" if "unread_shrinks a b" "unread_shrinks b c" for a b c
    using that unfolding unread_shrinks_def by metis
qed

lemma shrink_mark: "unread_shrinks db (markAsRead ids db)"
  "unread_shrinks db (markAsReadAndDelivered now ids db)"
  by (auto simp: unread_shrinks_def markAsRead_def markAsReadAndDelivered_def update_rows_def
      split: if_splits)

lemma shrink_same: "messages db' = messages db \<Longrightarrow> unread_shrinks db db'"
  by (auto simp: unread_shrinks_def)

lemma promote_loop_messages: "promote_loop done ts db = (e, db') \<Longrightarrow> messages db' = messages db"
  by (induction "done" ts db arbitrary: e db' rule: promote_loop.induct)
    (auto split: sum.splits if_splits)

lemma updateTaskStatus_messages: "messages (snd (updateTaskStatus now i s r db)) = messages db"
  by (auto simp: updateTaskStatus_def promoteReadyTasks_def completeActiveDispatchForTask_def Let_def
      split: prod.split option.split dest: promote_loop_messages)

lemma shrink_accept: "unread_shrinks db (snd (snd (accept_worker_done now msg p i c db)))"
proof -
  obtain r db1 where u: "updateTaskStatus now i T_completed (Some (completion_result now
      (m_from_handle msg) (files_modified p))) db = (r, db1)" by fastforce
  then have "unread_shrinks db db1"
    using updateTaskStatus_messages [of now i T_completed _ db] by (metis shrink_same snd_conv)
  then show ?thesis
    unfolding accept_worker_done_def u suppressEarlierHeartbeats_def
    by (auto split: sum.split intro: shrink.trans shrink_mark)
qed

lemma shrink_judge: "unread_shrinks db (snd (snd (judge_worker_done now msg p t d i c db)))"
  by (simp add: judge_worker_done_def shrink_accept)

lemma shrink_worker_done: "unread_shrinks db (snd (snd (reconcileWorkerDoneMessage now msg db)))"
proof (cases "\<exists>i c t d. completion_rows msg i c t d db")
  case True
  then show ?thesis using worker_done_judged(2) shrink_judge by metis
next
  case False
  then show ?thesis using worker_done_refused shrink.refl by metis
qed

lemma shrink_lifecycle: "unread_shrinks db (snd (snd (reconcileLifecycleMessage now msg db)))"
proof -
  have "unread_shrinks db (snd (snd (reconcileHeartbeatMessage now msg db)))"
    using heartbeat_db [of now msg db] shrink_mark
    by (auto intro: shrink_same simp: recordHeartbeat_frame)
  then show ?thesis
    by (simp add: reconcileLifecycleMessage_def shrink_worker_done split: message_type.split)
qed

lemma shrink_reconcile: "keeps unread_shrinks (reconcile rt m)"
  unfolding reconcile_def
  by (auto intro!: shrink.keeps_parts shrink.keeps_effect split: prod.split)
    (metis shrink_lifecycle snd_conv)

lemma sort_key_empty [simp]: "sort_key f xs = [] \<longleftrightarrow> xs = []"
  by (metis length_0_conv length_sort)

lemma marked_rows:
  "m \<in> set (messages (markAsRead ids db)) \<Longrightarrow> m_read m = 0 \<Longrightarrow> m_id m \<notin> set ids \<and> m \<in> set (messages db)"
  by (auto simp: markAsRead_eq split: if_splits)

lemma consume_unread_rows:
  assumes "consume rt (getUnreadMessages (w_db w) h types) w = (Inr x, w')"
  shows "getUnreadMessages (w_db w') h types = []"
proof -
  let ?ms = "getUnreadMessages (w_db w) h types"
  obtain w1 y where w1: "for_each (reconcile rt) ?ms w = (Inr y, w1)"
    "w_db w' = markAsRead (map m_id ?ms) (w_db w1)"
    using assms by (auto simp: consume_def and_then_def update_db_def split: prod.splits sum.splits)
  have "unread_shrinks (w_db w) (w_db w1)"
    using shrink.keeps_for_each [of "reconcile rt" ?ms, OF shrink_reconcile] w1(1) by (rule keepsD)
  then have "\<not> (m_to_handle m = h \<and> type_selected types (m_type m))"
    if m: "m \<in> set (messages (w_db w'))" "m_read m = 0" for m
  proof -
    have "m_id m \<notin> m_id ` set ?ms" "m \<in> set (messages (w_db w1))"
      using marked_rows [OF m(1) [unfolded w1(2)] m(2)] by simp_all
    moreover from this m(2) \<open>unread_shrinks (w_db w) (w_db w1)\<close> obtain n where
      "n \<in> set (messages (w_db w))" "m_id n = m_id m" "m_to_handle n = m_to_handle m"
      "m_type n = m_type m" "m_read n = 0"
      unfolding unread_shrinks_def by blast
    ultimately have "n \<in> set ?ms" if "m_to_handle m = h" "type_selected types (m_type m)"
      using that by (simp add: getUnreadMessages_def)
    with \<open>m_id m \<notin> m_id ` set ?ms\<close> \<open>m_id n = m_id m\<close> show ?thesis by (metis image_eqI)
  qed
  then show ?thesis by (auto simp: getUnreadMessages_def filter_empty_conv)
qed

lemma read_and_return_result:
  assumes "read_and_return rt p types w = (Inr r, w')"
  shows "(\<exists>text. r = R_check (if show_all p
        then getAllMessagesForHandle (w_db w) (check_handle p) None types
        else getUnreadMessages (w_db w) (check_handle p) types) text)
    \<and> (if consume_unread p then getUnreadMessages (w_db w') (check_handle p) types = []
       else w_db w' = w_db w)"
proof (cases "consume_unread p")
  case True
  then have "\<not> show_all p" by (simp add: consume_unread_def)
  then show ?thesis
    using assms True consume_unread_rows [of rt w "check_handle p" types]
    by (auto simp: read_and_return_def and_then_def read_db_def ret_def
        split: prod.splits sum.splits if_splits)
next
  case False
  then show ?thesis
    using assms by (auto simp: read_and_return_def and_then_def read_db_def ret_def)
qed

text \<open>
  A \<open>check\<close> that does not wait returns the unread messages of the handle that have one of
  the types asked for (all messages with \<open>--all\<close>); by default every one of them is read
  afterwards, so the next check does not return it again, and with \<open>--peek\<close> or \<open>--all\<close> the
  database is untouched.
\<close>

theorem check_reads_once:
  assumes "type_filter (cp_types p) = Inr types" and "\<not> rr_aborted rt (w_env w)"
    and "cp_wait p \<noteq> Some True" and "rpc_check rt p w = (Inr r, w')"
  shows "(\<exists>text. r = R_check (if show_all p
        then getAllMessagesForHandle (w_db w) (check_handle p) None types
        else getUnreadMessages (w_db w) (check_handle p) types) text)
    \<and> (if consume_unread p then getUnreadMessages (w_db w') (check_handle p) types = []
       else w_db w' = w_db w)"
proof -
  obtain r1 w1 where r1: "read_and_return rt p types w = (Inr r1, w1)"
    using assms by (auto simp: rpc_check_def and_then_def aborted_def ret_def split: prod.splits sum.splits)
  note result = read_and_return_result [OF r1]
  then have "r = r1 \<and> w' = w1"
    using assms r1 by (auto simp: rpc_check_def and_then_def aborted_def ret_def)
  with result show ?thesis by simp
qed

definition demo_check :: check_params where
  "demo_check = \<lparr>cp_terminal = Some (js ''co''), cp_unread = None, cp_peek = None, cp_all = None,
     cp_types = None, cp_inject = None, cp_wait = None, cp_timeoutMs = None\<rparr>"

lemma demo_check_runs: "\<exists>r w'. rpc_check demo_rpc demo_check (demo_world demo_tasks) = (Inr r, w')"
  by (simp add: demo_check_def rpc_check_def type_filter_def and_then_def aborted_def demo_rpc_def
      read_and_return_def read_db_def show_all_def consume_unread_def check_handle_def or_else_def
      demo_world_def getUnreadMessages_def demo_eval ret_def)

theorem check_reads_once_witness:
  "\<exists>r w'. rpc_check demo_rpc demo_check (demo_world demo_tasks) = (Inr r, w')
     \<and> getUnreadMessages (w_db w') (js ''co'') None = []"
proof -
  obtain r w' where r: "rpc_check demo_rpc demo_check (demo_world demo_tasks) = (Inr r, w')"
    using demo_check_runs by blast
  have "type_filter (cp_types demo_check) = Inr None"
    by (simp add: demo_check_def type_filter_def)
  from check_reads_once [OF this _ _ r] r show ?thesis
    by (force simp: demo_check_def demo_rpc_def consume_unread_def show_all_def check_handle_def
        or_else_def)
qed

subsection \<open>A reply answers a question\<close>

lemma insert_message_result:
  assumes "insert_message rt msg w = (Inr m, w')"
  shows "\<exists>hex now. insertMessage hex now msg (w_db w) = Inr (m, w_db w')"
  using assms
  by (auto simp: insert_message_def and_then_def on_env_def try_db_def split: prod.splits sum.splits)
    blast

lemma reply_effect:
  assumes "getMessageById (w_db w) (rp_id p) = Some m" and "rpc_reply rt p w = (Inr r, w')"
  shows "\<exists>a hex now. r = R_message a
    \<and> insertMessage hex now (reply_message m p) (markAsRead [m_id m] (w_db w)) = Inr (a, w_db w')"
proof -
  let ?w = "w\<lparr>w_db := markAsRead [m_id m] (w_db w)\<rparr>"
  obtain a w1 where a: "insert_message rt (reply_message m p) ?w = (Inr a, w1)"
    using assms by (auto simp: rpc_reply_def and_then_def read_db_def update_db_def
        split: prod.splits sum.splits)
  then have "r = R_message a \<and> w_db w' = w_db w1"
    using assms by (auto simp: rpc_reply_def and_then_def read_db_def update_db_def notify_def
        on_waiters_def ret_def)
  with insert_message_result [OF a] show ?thesis by auto
qed

text \<open>
  C39. A reply to a question answers the \<open>ask\<close> that waits for it: unless an earlier reply is in
  the thread, the next turn of the loop ends with the body of this one, which is then read.
\<close>

theorem ask_reply_roundtrip:
  assumes "db_inv (w_db w)" and "getMessageById (w_db w) (rp_id p) = Some m"
    and "m_thread_id m = None"
    and "getThreadMessagesFor (w_db w) (m_id m) (m_from_handle m) (Some (m_sequence m)) = []"
    and "rpc_reply rt p w = (Inr r, w')"
  shows "\<exists>a w''. r = R_message a \<and> m_body a = rp_body p
    \<and> ask_loop rt (m_from_handle m) m deadline (Suc fuel) w' =
        (Inr (Some (R_ask (Some (rp_body p)) (Some (m_id a)) (m_id m) False)), w'')
    \<and> w_db w'' = markAsRead [m_id a] (w_db w')"
proof -
  obtain a hex now where a: "r = R_message a"
    "insertMessage hex now (reply_message m p) (markAsRead [m_id m] (w_db w)) = Inr (a, w_db w')"
    using reply_effect [OF assms(2,5)] by blast
  have m: "m \<in> set (messages (w_db w))"
    using assms(2) by (auto simp: getMessageById_def row_by_def dest: find_Some_in)
  have seq: "seq_inv (w_db w)" using assms(1) by (simp add: db_inv_def)
  have fields: "m_thread_id a = Some (m_id m)" "m_to_handle a = m_from_handle m"
    "m_body a = rp_body p" "m_sequence m < m_sequence a"
    "messages (w_db w') = messages (markAsRead [m_id m] (w_db w)) @ [a]"
  proof -
    have "msg_seq (markAsRead ids db) = msg_seq db" for ids db by (simp add: markAsRead_def)
    then show "m_sequence m < m_sequence a"
      using insertMessage_rows(2) [OF a(2)] m seq by (simp add: seq_inv_def less_Suc_eq_le)
  qed (use a(2) insertMessage_rows(1,4) [OF a(2)] assms(3) in
      \<open>auto simp: insertMessage_def Let_def reply_message_def or_else_def split: if_splits\<close>)
  have none: "\<not> (m_thread_id n = Some (m_id m) \<and> m_to_handle n = m_from_handle m
      \<and> m_sequence m < m_sequence n)" if "n \<in> set (messages (markAsRead [m_id m] (w_db w)))" for n
    using assms(4) that
    by (auto simp: getThreadMessagesFor_def filter_empty_conv markAsRead_eq)
  have "getThreadMessagesFor (w_db w') (m_id m) (m_from_handle m) (Some (m_sequence m)) = [a]"
    using none fields by (auto simp: getThreadMessagesFor_def filter_empty_conv)
  then show ?thesis
    using a(1) fields(3)
    by (simp add: ask_turn_def and_then_def read_db_def update_db_def ret_def)
qed

definition demo_ask :: ask_params where
  "demo_ask = \<lparr>ap_to = js ''co'', ap_question = js ''which?'', ap_options = Some (js ''a, b''),
     ap_timeoutMs = None, ap_from = Some (js ''t1'')\<rparr>"

definition demo_question :: odb where
  "demo_question = db_of (insertMessage (js ''q'') demo_clock (ask_message demo_ask) demo_tasks)"

definition demo_reply :: reply_params where
  "demo_reply = \<lparr>rp_id = js ''msg_q'', rp_body = js ''b'', rp_from = None\<rparr>"

lemma demo_question_inv: "db_inv demo_question"
  unfolding demo_question_def
  by (intro db_of_inv) (blast intro: db.inv_insertMessage demo_tasks_inv)

lemma demo_question_row:
  "\<exists>m. getMessageById demo_question (js ''msg_q'') = Some m \<and> m_thread_id m = None
     \<and> m_from_handle m = js ''t1'' \<and> m_id m = js ''msg_q'' \<and> m_sequence m = 1"
  by (simp add: demo_question_def demo_eval getMessageById_def ask_message_def demo_ask_def
      or_else_def)

lemma demo_question_rows: "messages demo_question = [the (getMessageById demo_question (js ''msg_q''))]"
  by (simp add: demo_question_def demo_eval getMessageById_def ask_message_def demo_ask_def
      or_else_def)

lemma demo_reply_runs:
  assumes "w_db w = demo_question"
  shows "\<exists>r w'. rpc_reply demo_rpc demo_reply w = (Inr r, w')"
  using demo_question_row assms
  by (auto simp: demo_reply_def rpc_reply_def and_then_def read_db_def update_db_def demo_rpc_def
      insert_message_def on_env_def try_db_def insertMessage_def Let_def markAsRead_eq
      demo_question_rows generateId_def notify_def on_waiters_def ret_def)

theorem ask_reply_roundtrip_witness:
  "\<exists>m r w' (a :: message_row) w''. rpc_reply demo_rpc demo_reply (demo_world demo_question) = (Inr r, w')
     \<and> ask_loop demo_rpc (js ''t1'') m 600000 1 w' =
         (Inr (Some (R_ask (Some (js ''b'')) (Some (m_id a)) (js ''msg_q'') False)), w'')"
proof -
  let ?w = "demo_world demo_question"
  have db: "w_db ?w = demo_question" by (simp add: demo_world_def)
  obtain m where m: "getMessageById demo_question (js ''msg_q'') = Some m" "m_thread_id m = None"
    "m_from_handle m = js ''t1''" "m_id m = js ''msg_q''"
    using demo_question_row by blast
  obtain r w' where r: "rpc_reply demo_rpc demo_reply ?w = (Inr r, w')"
    using demo_reply_runs [OF db] by blast
  have none: "getThreadMessagesFor demo_question (m_id m) (m_from_handle m) (Some (m_sequence m)) = []"
    using demo_question_rows m by (simp add: getThreadMessagesFor_def)
  have w: "db_inv (w_db ?w)" "getMessageById (w_db ?w) (rp_id demo_reply) = Some m"
    "getThreadMessagesFor (w_db ?w) (m_id m) (m_from_handle m) (Some (m_sequence m)) = []"
    using m none demo_question_inv by (simp_all add: db demo_reply_def del: js.simps)
  obtain a :: message_row and w'' where
    "ask_loop demo_rpc (m_from_handle m) m 600000 (Suc 0) w' =
      (Inr (Some (R_ask (Some (rp_body demo_reply)) (Some (m_id a)) (m_id m) False)), w'')"
    using ask_reply_roundtrip [OF w(1,2) m(2) w(3) r, of 600000 0] by blast
  then have "ask_loop demo_rpc (js ''t1'') m 600000 1 w' =
      (Inr (Some (R_ask (Some (js ''b'')) (Some (m_id a)) (js ''msg_q'') False)), w'')"
    by (simp add: m(3,4) demo_reply_def del: js.simps ask_loop.simps)
  with r show ?thesis by blast
qed

subsection \<open>What the coordinator makes of a question\<close>

text \<open>
  A question sent by \<open>ask\<close> names no task, so the coordinator's loop logs a warning, makes no
  gate and no reply, and marks the message as read: all that is left of it is a row nobody has
  unread, and the asker waits until its time is up.
\<close>

theorem ask_unheard_by_coordinator:
  assumes "getUnreadMessages (c_db c) (co_coordinatorHandle opts) None = [m]"
    and "m_type m = MT_decision_gate" and "m_payload m = nm_payload (ask_message p)"
  shows "\<exists>c'. processMessages rt opts c = (None, c') \<and> c_db c' = markAsRead [m_id m] (c_db c)"
proof -
  let ?v = "ask_payload (ap_question p) (case ap_options p of None \<Rightarrow> [] | Some s \<Rightarrow> comma_words s)"
  have "json_ok ?v"
    by (simp add: ask_payload_def json_strings_def list_all_iff)
  then have parsed: "json_parse (json_stringify ?v) = Some ?v" by (rule json_parse_stringify)
  have props: "json_prop (js ''taskId'') ?v = Inr None" "json_prop (js ''question'') ?v = Inr (Some (JStr (ap_question p)))"
    "\<exists>x. json_prop (js ''options'') ?v = Inr x"
    by (simp_all add: ask_payload_def jget_def)
  have "\<exists>c'. handleDecisionGateMessage rt m c = (None, c') \<and> c_db c' = c_db c"
  proof (cases "truthy (m_payload m)")
    case True
    then show ?thesis
      using parsed props assms(3)
      by (auto simp: handleDecisionGateMessage_def Let_def ask_message_def create_message_gate_def
          simp del: js.simps)
  next
    case False
    then show ?thesis
      by (simp add: handleDecisionGateMessage_def Let_def create_message_gate_def jget_def)
  qed
  then show ?thesis
    using assms(1,2) by (auto simp: processMessages_def handle_message_def)
qed

definition demo_coordinator :: "nat coord" where
  "demo_coordinator = init_coord demo_question 0"

theorem ask_unheard_by_coordinator_witness:
  "\<exists>c'. processMessages (demo_runtime id None) demo_options demo_coordinator = (None, c')
     \<and> c_db c' = markAsRead [js ''msg_q''] demo_question"
proof -
  have rows: "getUnreadMessages demo_question (js ''co'') None
      = [the (getMessageById demo_question (js ''msg_q''))]"
    by (simp add: getUnreadMessages_def demo_question_def demo_eval getMessageById_def
        ask_message_def demo_ask_def or_else_def type_selected_def)
  have row: "m_type (the (getMessageById demo_question (js ''msg_q''))) = MT_decision_gate"
    "m_payload (the (getMessageById demo_question (js ''msg_q''))) = nm_payload (ask_message demo_ask)"
    "m_id (the (getMessageById demo_question (js ''msg_q''))) = js ''msg_q''"
    by (simp_all add: demo_question_def demo_eval getMessageById_def ask_message_def demo_ask_def
        or_else_def)
  show ?thesis
    using ask_unheard_by_coordinator [of demo_coordinator demo_options _ demo_ask "demo_runtime id None"]
      rows row
    by (simp add: demo_coordinator_def init_coord_def demo_options_def del: js.simps)
qed

subsection \<open>Waiting and waking\<close>

text \<open>
  A message wakes exactly the waiters of its handle for which a read would find it, as long
  as their type filter is absent or names a type; a waiter whose filter is empty is not woken by
  any message, although a read with that filter returns every type.
\<close>

theorem message_wakes_waiters:
  assumes "waiters_ok ws" and "v \<in> set (ws_waiting ws)"
  shows "(mw_typeFilter v \<noteq> Some [] \<longrightarrow>
      (v \<notin> set (ws_waiting (notifyMessageArrived h t ws))) =
        (mw_handle v = h \<and> type_selected (mw_typeFilter v) t))
    \<and> (mw_typeFilter v = Some [] \<longrightarrow>
        v \<in> set (ws_waiting (notifyMessageArrived h t ws)) \<and> type_selected (mw_typeFilter v) t)"
  using assms
  by (auto simp: waiters_ok_def notify_waiting filter_skips_def type_selected_def split: option.splits)

theorem message_wakes_waiters_witness:
  "ws_waiting (notifyMessageArrived (js ''co'') MT_status
     (snd (add_waiter (js ''co'') (Some []) None no_waiters)))
   = ws_waiting (snd (add_waiter (js ''co'') (Some []) None no_waiters))"
proof -
  have "waiters_ok no_waiters" by (simp add: waiters_ok_def no_waiters_def)
  from message_wakes_waiters [OF waiters_ok_add [OF this], of _ "js ''co''" "Some []" None "js ''co''" MT_status]
  show ?thesis
    by (auto simp: add_waiter_def no_waiters_def Let_def notifyMessageArrived_def woken_by_def
        filter_skips_def)
qed

subsection \<open>A run row without a coordinator\<close>

text \<open>
  A row that says \<open>running\<close> with no coordinator in the process, as a crash leaves one behind:
  \<open>runStop\<close> reports it as stopped and changes nothing, and \<open>run\<close> refuses to start, before and
  after it; only a reset of the tasks gets past the row.
\<close>

theorem stale_run_blocks:
  assumes "getActiveCoordinatorRun (w_db w) = Some r" and "gm_active (w_module w) = None"
  shows "rpc_runStop w = (Inr (R_run_stop (r_id r)), w)
    \<and> rpc_run rt p w = (Inl (Error (js ''Coordinator already running: '' @ r_id r)), w)"
  using assms
  by (simp add: rpc_runStop_def rpc_run_def and_then_def read_db_def on_module_def stop_active_def
      ret_def throw_def)

definition demo_stale :: odb where
  "demo_stale = db_of (createCoordinatorRun (js ''r'') demo_clock (js ''s'') (js ''co'') None demo_tasks)"

theorem stale_run_blocks_witness:
  "rpc_runStop (demo_world demo_stale) = (Inr (R_run_stop (js ''run_r'')), demo_world demo_stale)"
proof -
  have "\<exists>r. getActiveCoordinatorRun demo_stale = Some r \<and> r_id r = js ''run_r''"
    by (simp add: getActiveCoordinatorRun_def demo_stale_def createCoordinatorRun_def demo_eval Let_def)
  then obtain r where r: "getActiveCoordinatorRun (w_db (demo_world demo_stale)) = Some r"
    "r_id r = js ''run_r''" by (auto simp: demo_world_def)
  from stale_run_blocks [OF r(1)] r(2) show ?thesis
    by (simp add: demo_world_def del: js.simps)
qed

end
