(* ===== verification/Byte_Stream.thy ===== *)
theory Byte_Stream
  imports Prelude "HOL-Library.Word"
begin

section \<open>Bytes, and parsers of a byte stream\<close>

text \<open>
  What the framing components share: big- and little-endian 32-bit integers over bytes, and
  the locale \<open>incremental_parser\<close>, the contract of a function that takes one unit from the
  front of a buffer. Under it, parsing a stream in pieces gives what parsing it at once
  gives (\<open>feeds_concat\<close>), and nothing is lost. The decoders of the relay, of the daemon's
  binary frames and of its NDJSON lines are interpretations.
\<close>

type_synonym byte = "8 word"

definition be32 :: "nat \<Rightarrow> byte list" where
  "be32 n = [word_of_nat (n div 16777216), word_of_nat (n div 65536), word_of_nat (n div 256),
             word_of_nat n]"

definition rd_be32 :: "byte list \<Rightarrow> nat" where
  "rd_be32 b = (case b of b0 # b1 # b2 # b3 # _ \<Rightarrow>
       unat b0 * 16777216 + unat b1 * 65536 + unat b2 * 256 + unat b3
   | _ \<Rightarrow> 0)"

definition le32 :: "nat \<Rightarrow> byte list" where
  "le32 n = rev (be32 n)"

definition rd_le32 :: "byte list \<Rightarrow> nat" where
  "rd_le32 b = rd_be32 (rev (take 4 b))"

lemma length_be32 [simp]: "length (be32 n) = 4"
  by (simp add: be32_def)

lemma length_le32 [simp]: "length (le32 n) = 4"
  by (simp add: le32_def)

lemma unat_byte: "unat (word_of_nat n :: byte) = n mod 256"
  by (simp add: unat_of_nat)

lemma bytes_of_nat:
  assumes "n < 2 ^ 32"
  shows "n div 16777216 mod 256 * 16777216 + n div 65536 mod 256 * 65536
    + n div 256 mod 256 * 256 + n mod 256 = (n :: nat)"
proof -
  have "n div 16777216 < 256" using assms by (simp add: less_mult_imp_div_less)
  then have a: "n div 16777216 mod 256 = n div 16777216" by simp
  have b: "n div 65536 = n div 16777216 * 256 + n div 65536 mod 256"
    using div_mult_mod_eq [of "n div 65536" 256] by (simp add: div_mult2_eq [symmetric])
  have c: "n div 256 = n div 65536 * 256 + n div 256 mod 256"
    using div_mult_mod_eq [of "n div 256" 256] by (simp add: div_mult2_eq [symmetric])
  have d: "n = n div 256 * 256 + n mod 256" by simp
  show ?thesis unfolding a using b c d by linarith
qed

lemma rd_be32_be32: "n < 2 ^ 32 \<Longrightarrow> rd_be32 (be32 n @ r) = n"
  using bytes_of_nat [of n] by (simp add: rd_be32_def be32_def unat_byte)

lemma rd_be32_append: "4 \<le> length b \<Longrightarrow> rd_be32 (b @ c) = rd_be32 b"
  by (auto simp: rd_be32_def split: list.splits)

lemma byte_bound: "unat (b :: byte) < 256"
  using unsigned_less [where 'b = 8 and 'a = nat, of b] by simp

lemma rd_be32_bound: "rd_be32 b < 2 ^ 32"
proof -
  have "unat b0 * 16777216 + unat b1 * 65536 + unat b2 * 256 + unat b3 < 2 ^ 32"
    for b0 b1 b2 b3 :: byte
    using byte_bound [of b0] byte_bound [of b1] byte_bound [of b2] byte_bound [of b3] by simp
  then show ?thesis by (auto simp: rd_be32_def split: list.split)
qed

lemma rd_le32_le32: "n < 2 ^ 32 \<Longrightarrow> rd_le32 (le32 n @ r) = n"
  using rd_be32_be32 [of n "[]"] by (simp add: rd_le32_def le32_def)

subsection \<open>Incremental parsing\<close>

text \<open>Take units from the front until there is none; a unit of fuel for each. A unit that
  shortens the buffer cannot use it up (\<open>drain_enough\<close>).\<close>

fun drain_fuel :: "nat \<Rightarrow> ('b list \<Rightarrow> ('u \<times> 'b list) option) \<Rightarrow> 'b list \<Rightarrow> 'u list \<times> 'b list" where
  "drain_fuel 0 step b = ([], b)"
| "drain_fuel (Suc n) step b = (case step b of
     None \<Rightarrow> ([], b)
   | Some (u, r) \<Rightarrow> (case drain_fuel n step r of (us, r') \<Rightarrow> (u # us, r')))"

definition drain_all :: "('b list \<Rightarrow> ('u \<times> 'b list) option) \<Rightarrow> 'b list \<Rightarrow> 'u list \<times> 'b list" where
  "drain_all step b = drain_fuel (Suc (length b)) step b"

text \<open>Chunks that arrive one after the other, each appended to what was left.\<close>

fun feeds :: "('b list \<Rightarrow> ('u \<times> 'b list) option) \<Rightarrow> 'b list \<Rightarrow> 'b list list \<Rightarrow> 'u list \<times> 'b list" where
  "feeds step b [] = ([], b)"
| "feeds step b (c # cs) = (case drain_all step (b @ c) of
     (us, r) \<Rightarrow> (case feeds step r cs of (vs, r') \<Rightarrow> (us @ vs, r')))"

locale incremental_parser =
  fixes step :: "'b list \<Rightarrow> ('u \<times> 'b list) option"
  assumes step_append: "step b = Some (u, r) \<Longrightarrow> step (b @ c) = Some (u, r @ c)"
    and step_shrinks: "step b = Some (u, r) \<Longrightarrow> length r < length b"
begin

lemma drain_enough: "length b < n \<Longrightarrow> length b < m \<Longrightarrow> drain_fuel n step b = drain_fuel m step b"
proof (induction n arbitrary: m b)
  case (Suc n)
  obtain k where m: "m = Suc k" using Suc.prems(2) by (cases m) auto
  show ?case
  proof (cases "step b")
    case (Some x)
    obtain u r where x: "x = (u, r)" by (cases x)
    have "length r < length b" using step_shrinks Some x by simp
    then have "drain_fuel n step r = drain_fuel k step r"
      using Suc.IH [of r k] Suc.prems m by simp
    with Some x m show ?thesis by simp
  qed (simp add: m)
qed simp

lemma drain_all_fuel: "length b < n \<Longrightarrow> drain_fuel n step b = drain_all step b"
  unfolding drain_all_def by (rule drain_enough) simp_all

lemma drain_all_unfold: "drain_all step b = (case step b of
     None \<Rightarrow> ([], b)
   | Some (u, r) \<Rightarrow> (case drain_all step r of (us, r') \<Rightarrow> (u # us, r')))"
proof (cases "step b")
  case (Some x)
  obtain u r where x: "x = (u, r)" by (cases x)
  have "length r < length b" using step_shrinks Some x by simp
  then have "drain_fuel (length b) step r = drain_all step r" by (rule drain_all_fuel)
  with Some x show ?thesis by (simp add: drain_all_def)
qed (simp add: drain_all_def)

lemma drain_all_rest: "drain_all step b = (us, r) \<Longrightarrow> step r = None"
proof (induction "length b" arbitrary: b us rule: less_induct)
  case less
  show ?case
  proof (cases "step b")
    case None
    with less.prems show ?thesis by (subst (asm) drain_all_unfold) simp
  next
    case (Some x)
    obtain u r' where x: "x = (u, r')" by (cases x)
    have "length r' < length b" using step_shrinks Some x by simp
    moreover obtain vs where "drain_all step r' = (vs, r)"
      using less.prems Some x by (subst (asm) drain_all_unfold) (auto split: prod.splits)
    ultimately show ?thesis by (rule less.hyps)
  qed
qed

lemma drain_all_append:
  "drain_all step b = (us, r) \<Longrightarrow>
   drain_all step (b @ c) = (case drain_all step (r @ c) of (vs, r') \<Rightarrow> (us @ vs, r'))"
proof (induction "length b" arbitrary: b us rule: less_induct)
  case less
  show ?case
  proof (cases "step b")
    case None
    with less.prems have "us = []" "r = b" by (subst (asm) drain_all_unfold, simp)+
    then show ?thesis by (simp split: prod.split)
  next
    case (Some x)
    obtain u q where x: "x = (u, q)" by (cases x)
    have q: "length q < length b" using step_shrinks Some x by simp
    obtain vs where vs: "drain_all step q = (vs, r)" "us = u # vs"
      using less.prems Some x by (subst (asm) drain_all_unfold) (auto split: prod.splits)
    have "step (b @ c) = Some (u, q @ c)" using step_append Some x by simp
    then have "drain_all step (b @ c) = (case drain_all step (q @ c) of (ws, r') \<Rightarrow> (u # ws, r'))"
      by (subst drain_all_unfold) simp
    then show ?thesis using less.hyps [OF q vs(1)] vs(2) by (simp split: prod.splits)
  qed
qed

text \<open>However the stream is cut into chunks, the units and the rest are those of the whole.\<close>

lemma feeds_concat: "step b = None \<Longrightarrow> feeds step b cs = drain_all step (b @ concat cs)"
proof (induction cs arbitrary: b)
  case Nil
  then show ?case by (subst drain_all_unfold) simp
next
  case (Cons c cs)
  obtain us r where d: "drain_all step (b @ c) = (us, r)" by (cases "drain_all step (b @ c)")
  have "feeds step r cs = drain_all step (r @ concat cs)"
    by (rule Cons.IH) (rule drain_all_rest [OF d])
  with d show ?case
    using drain_all_append [OF d, of "concat cs"] by simp
qed

text \<open>A stream made by an encoder that the parser inverts is parsed back, chunks or not.\<close>

lemma drain_encoded:
  assumes "\<And>x r. x \<in> set xs \<Longrightarrow> step (enc x @ r) = Some (dec x, r)" and "step [] = None"
  shows "drain_all step (concat (map enc xs)) = (map dec xs, [])"
  using assms(1)
proof (induction xs)
  case Nil
  then show ?case by (subst drain_all_unfold) (simp add: assms(2))
next
  case (Cons x xs)
  have "drain_all step (concat (map enc xs)) = (map dec xs, [])"
    using Cons.IH Cons.prems by simp
  moreover have "step (enc x @ concat (map enc xs)) = Some (dec x, concat (map enc xs))"
    using Cons.prems by simp
  ultimately show ?case by (subst drain_all_unfold) simp
qed

end

end
