(* ===== verification/Relay_Frames.thy ===== *)
theory Relay_Frames
  imports Byte_Stream
begin

section \<open>The frames of the relay\<close>

text \<open>
  \<open>src/src/relay/protocol.ts\<close>: the frame format of the relay connection and the decoder that
  assembles frames from the chunks the transport delivers. The decoder keeps a list of chunks
  and their total length; \<open>frame_step\<close> is the format on one contiguous buffer, the
  specification the decoder is shown to refine (\<open>feed_refines\<close>): its events and the bytes it
  still holds depend on the bytes received alone, not on how they were cut.
\<close>

definition HEADER_LENGTH :: nat where
  "HEADER_LENGTH = 13"

definition MAX_MESSAGE_SIZE :: nat where
  "MAX_MESSAGE_SIZE = 16 * 1024 * 1024"

definition MT_Regular :: nat where "MT_Regular = 1"
definition MT_Handshake :: nat where "MT_Handshake = 2"
definition MT_KeepAlive :: nat where "MT_KeepAlive = 9"

record decoded_frame =
  fr_type :: byte
  fr_id :: nat
  fr_ack :: nat
  fr_payload :: "byte list"

text \<open>\<open>writeUInt32BE\<close> throws outside the range; the byte written for the type wraps.\<close>

definition encodeFrame :: "nat \<Rightarrow> nat \<Rightarrow> nat \<Rightarrow> byte list \<Rightarrow> exn + byte list" where
  "encodeFrame type seqId ack payload =
     (if 2 ^ 32 \<le> seqId \<or> 2 ^ 32 \<le> ack \<or> 2 ^ 32 \<le> length payload then Inl RangeError
      else Inr ([word_of_nat type] @ be32 seqId @ be32 ack @ be32 (length payload) @ payload))"

definition encodeKeepAliveFrame :: "nat \<Rightarrow> nat \<Rightarrow> exn + byte list" where
  "encodeKeepAliveFrame seqId ack = encodeFrame MT_KeepAlive seqId ack []"

subsection \<open>The chunk list\<close>

record frame_decoder =
  fd_chunks :: "byte list list"
  fd_bufferedLength :: nat

definition new_decoder :: frame_decoder where
  "new_decoder = \<lparr>fd_chunks = [], fd_bufferedLength = 0\<rparr>"

text \<open>The copying loops; they stop without a result where the code would read past the last
  chunk, which the length it keeps rules out.\<close>

fun copy_loop :: "nat \<Rightarrow> byte list list \<Rightarrow> byte list" where
  "copy_loop n [] = []"
| "copy_loop n (part # cs) =
     (let copied = take (min (length part) n) part
      in if n \<le> length copied then copied else copied @ copy_loop (n - length copied) cs)"

definition peekBytes :: "nat \<Rightarrow> byte list list \<Rightarrow> byte list option" where
  "peekBytes count chunks = (case chunks of
     [] \<Rightarrow> None
   | first # _ \<Rightarrow> if count \<le> length first then Some first else Some (copy_loop count chunks))"

fun take_loop :: "nat \<Rightarrow> byte list list \<Rightarrow> (byte list \<times> byte list list) option" where
  "take_loop n cs =
     (if n = 0 then Some ([], cs)
      else (case cs of
              [] \<Rightarrow> None
            | part # rest \<Rightarrow>
                (let k = min (length part) n
                 in if k = length part
                    then map_option (\<lambda>(out, r). (part @ out, r)) (take_loop (n - k) rest)
                    else Some (take k part, drop k part # rest))))"

declare take_loop.simps [simp del]

definition takeBytes :: "nat \<Rightarrow> byte list list \<Rightarrow> (byte list \<times> byte list list) option" where
  "takeBytes count chunks = (case chunks of
     [] \<Rightarrow> None
   | first # rest \<Rightarrow>
       if length first = count then Some (first, rest)
       else if count < length first then Some (take count first, drop count first # rest)
       else take_loop count chunks)"

fun discard_loop :: "nat \<Rightarrow> byte list list \<Rightarrow> byte list list option" where
  "discard_loop remaining cs =
     (if remaining = 0 then Some cs
      else (case cs of
              [] \<Rightarrow> None
            | part # rest \<Rightarrow>
                if length part \<le> remaining then discard_loop (remaining - length part) rest
                else Some (drop remaining part # rest)))"

declare discard_loop.simps [simp del]

subsection \<open>Feeding the decoder\<close>

datatype decoder_event = Frame decoded_frame | Oversized nat

definition frame_of :: "byte list \<Rightarrow> decoded_frame" where
  "frame_of framed = \<lparr>fr_type = hd framed, fr_id = rd_be32 (drop 1 framed),
     fr_ack = rd_be32 (drop 5 framed), fr_payload = drop HEADER_LENGTH framed\<rparr>"

text \<open>One turn of the \<open>while\<close> loop of \<open>feed\<close>: no more turn, or an event and the next state.
  An oversized frame is skipped whole.\<close>

definition decode_turn :: "frame_decoder \<Rightarrow> (decoder_event \<times> frame_decoder) option" where
  "decode_turn d =
     (if fd_bufferedLength d < HEADER_LENGTH then None
      else (case peekBytes HEADER_LENGTH (fd_chunks d) of
              None \<Rightarrow> None
            | Some header \<Rightarrow>
                (let len = rd_be32 (drop 9 header); total = HEADER_LENGTH + len
                 in if fd_bufferedLength d < total then None
                    else if MAX_MESSAGE_SIZE < len
                    then (case discard_loop total (fd_chunks d) of
                            None \<Rightarrow> None
                          | Some cs \<Rightarrow> Some (Oversized len,
                              \<lparr>fd_chunks = cs, fd_bufferedLength = fd_bufferedLength d - total\<rparr>))
                    else (case takeBytes total (fd_chunks d) of
                            None \<Rightarrow> None
                          | Some (framed, cs) \<Rightarrow> Some (Frame (frame_of framed),
                              \<lparr>fd_chunks = cs, fd_bufferedLength = fd_bufferedLength d - total\<rparr>)))))"

fun decode_loop :: "nat \<Rightarrow> frame_decoder \<Rightarrow> decoder_event list \<times> frame_decoder" where
  "decode_loop 0 d = ([], d)"
| "decode_loop (Suc n) d = (case decode_turn d of
     None \<Rightarrow> ([], d)
   | Some (e, d') \<Rightarrow> (case decode_loop n d' of (es, d'') \<Rightarrow> (e # es, d'')))"

text \<open>Each turn takes at least a header, so the number of buffered bytes is fuel enough.\<close>

definition feed :: "byte list \<Rightarrow> frame_decoder \<Rightarrow> decoder_event list \<times> frame_decoder" where
  "feed chunk d =
     (let d1 = (if 0 < length chunk
                then \<lparr>fd_chunks = fd_chunks d @ [chunk],
                      fd_bufferedLength = fd_bufferedLength d + length chunk\<rparr>
                else d)
      in decode_loop (Suc (fd_bufferedLength d1)) d1)"

fun feed_all :: "byte list list \<Rightarrow> frame_decoder \<Rightarrow> decoder_event list \<times> frame_decoder" where
  "feed_all [] d = ([], d)"
| "feed_all (c # cs) d = (case feed c d of
     (es, d') \<Rightarrow> (case feed_all cs d' of (es', d'') \<Rightarrow> (es @ es', d'')))"

definition reset :: "frame_decoder \<Rightarrow> frame_decoder" where
  "reset d = new_decoder"

definition drain :: "frame_decoder \<Rightarrow> byte list \<times> frame_decoder" where
  "drain d = ((if length (fd_chunks d) = 1 then hd (fd_chunks d)
               else take (fd_bufferedLength d) (concat (fd_chunks d))), reset d)"

subsection \<open>The format on one buffer\<close>

definition frame_step :: "byte list \<Rightarrow> (decoder_event \<times> byte list) option" where
  "frame_step b =
     (if length b < HEADER_LENGTH then None
      else (let len = rd_be32 (drop 9 b); total = HEADER_LENGTH + len
            in if length b < total then None
               else Some (if MAX_MESSAGE_SIZE < len then Oversized len
                          else Frame (frame_of (take total b)), drop total b)))"

lemma frame_of_append:
  "HEADER_LENGTH \<le> length f \<Longrightarrow> frame_of (f @ []) = frame_of f"
  by simp

lemma drop_rd: "k + 4 \<le> length b \<Longrightarrow> rd_be32 (drop k (b @ c)) = rd_be32 (drop k b)"
  using rd_be32_append [of "drop k b" c] by simp

interpretation relay: incremental_parser frame_step
proof
  fix b c :: "byte list" and u r
  assume s: "frame_step b = Some (u, r)"
  then have h: "HEADER_LENGTH \<le> length b" "HEADER_LENGTH + rd_be32 (drop 9 b) \<le> length b"
    by (auto simp: frame_step_def Let_def split: if_splits)
  have "rd_be32 (drop 9 (b @ c)) = rd_be32 (drop 9 b)"
    using h(1) by (intro drop_rd) (simp add: HEADER_LENGTH_def)
  with s h show "frame_step (b @ c) = Some (u, r @ c)"
    by (auto simp: frame_step_def Let_def split: if_splits)
next
  fix b u r
  assume "frame_step b = Some (u, r)"
  then show "length r < length b"
    by (auto simp: frame_step_def Let_def HEADER_LENGTH_def split: if_splits)
qed

subsection \<open>Refinement\<close>

definition decoder_ok :: "frame_decoder \<Rightarrow> bool" where
  "decoder_ok d = (fd_bufferedLength d = length (concat (fd_chunks d)) \<and> [] \<notin> set (fd_chunks d))"

lemma copy_loop_take: "copy_loop n cs = take n (concat cs)"
  by (induction n cs rule: copy_loop.induct) (auto simp: Let_def min_def)

lemma take_loop_ok:
  "n \<le> length (concat cs) \<Longrightarrow> [] \<notin> set cs \<Longrightarrow> \<exists>cs'. take_loop n cs = Some (take n (concat cs), cs')
     \<and> concat cs' = drop n (concat cs) \<and> [] \<notin> set cs'"
proof (induction n cs rule: take_loop.induct)
  case (1 n cs)
  show ?case
  proof (cases "n = 0 \<or> cs = []")
    case True
    with 1 show ?thesis by (auto simp: take_loop.simps [of n cs])
  next
    case False
    then obtain p rest where cs: "cs = p # rest" and n: "n \<noteq> 0" by (cases cs) auto
    show ?thesis
    proof (cases "length p \<le> n")
      case True
      then have k: "min (length p) n = length p" "n - length p \<le> length (concat rest)"
        using "1.prems"(1) cs by auto
      have "\<exists>cs'. take_loop (n - length p) rest = Some (take (n - length p) (concat rest), cs')
          \<and> concat cs' = drop (n - length p) (concat rest) \<and> [] \<notin> set cs'"
        using "1.IH" [OF n cs refl, unfolded k(1), OF refl k(2)] "1.prems"(2) cs by simp
      then obtain cs' where "take_loop (n - length p) rest = Some (take (n - length p) (concat rest), cs')"
          "concat cs' = drop (n - length p) (concat rest)" "[] \<notin> set cs'" by blast
      with True cs n show ?thesis by (simp add: take_loop.simps [of n "p # rest"] Let_def min_def)
    next
      case False
      with cs n "1.prems" show ?thesis by (auto simp: take_loop.simps [of n "p # rest"] Let_def min_def)
    qed
  qed
qed

lemma discard_loop_ok:
  "n \<le> length (concat cs) \<Longrightarrow> [] \<notin> set cs \<Longrightarrow> \<exists>cs'. discard_loop n cs = Some cs'
     \<and> concat cs' = drop n (concat cs) \<and> [] \<notin> set cs'"
proof (induction n cs rule: discard_loop.induct)
  case (1 n cs)
  show ?case
  proof (cases "n = 0 \<or> cs = []")
    case True
    with 1 show ?thesis by (auto simp: discard_loop.simps [of n cs])
  next
    case False
    then obtain p rest where cs: "cs = p # rest" and n: "n \<noteq> 0" by (cases cs) auto
    show ?thesis
    proof (cases "length p \<le> n")
      case True
      then have "n - length p \<le> length (concat rest)" using "1.prems"(1) cs by auto
      from "1.IH" [OF n cs True this] "1.prems"(2) cs n True show ?thesis
        by (simp add: discard_loop.simps [of n "p # rest"])
    next
      case False
      with cs n "1.prems" show ?thesis by (auto simp: discard_loop.simps [of n "p # rest"])
    qed
  qed
qed

lemma takeBytes_ok:
  assumes "n \<le> length (concat cs)" and "[] \<notin> set cs" and "n \<noteq> 0"
  shows "\<exists>cs'. takeBytes n cs = Some (take n (concat cs), cs')
     \<and> concat cs' = drop n (concat cs) \<and> [] \<notin> set cs'"
proof (cases cs)
  case (Cons p rest)
  then show ?thesis
    using assms take_loop_ok [OF assms(1,2)] by (auto simp: takeBytes_def)
qed (use assms in simp)

lemma peekBytes_ok:
  assumes "n \<le> length (concat cs)" and "n \<noteq> 0"
  shows "\<exists>h. peekBytes n cs = Some h \<and> take n h = take n (concat cs) \<and> n \<le> length h"
proof (cases cs)
  case (Cons p rest)
  then show ?thesis using assms by (auto simp: peekBytes_def copy_loop_take)
qed (use assms in simp)

lemma peek_length:
  assumes "take 13 h = take 13 (b :: byte list)" and "13 \<le> length h" and "13 \<le> length b"
  shows "rd_be32 (drop 9 h) = rd_be32 (drop 9 b)"
proof -
  have "rd_be32 (drop 9 x) = rd_be32 (drop 9 (take 13 x))" if "13 \<le> length x" for x :: "byte list"
    using drop_rd [of 9 "take 13 x" "drop 13 x"] that by (simp add: append_take_drop_id)
  with assms show ?thesis by metis
qed

text \<open>A turn on the chunks is a step on the bytes they hold.\<close>

lemma decode_turn_refines:
  assumes ok: "decoder_ok d"
  shows "case frame_step (concat (fd_chunks d)) of
      None \<Rightarrow> decode_turn d = None
    | Some (e, r) \<Rightarrow> \<exists>d'. decode_turn d = Some (e, d') \<and> decoder_ok d' \<and> concat (fd_chunks d') = r"
proof -
  let ?b = "concat (fd_chunks d)"
  have len: "fd_bufferedLength d = length ?b" and ne: "[] \<notin> set (fd_chunks d)"
    using ok by (auto simp: decoder_ok_def)
  show ?thesis
  proof (cases "length ?b < HEADER_LENGTH")
    case True
    then show ?thesis by (simp add: frame_step_def decode_turn_def len)
  next
    case False
    then have b: "HEADER_LENGTH \<le> length ?b" by simp
    obtain h where pk: "peekBytes HEADER_LENGTH (fd_chunks d) = Some h"
        "take HEADER_LENGTH h = take HEADER_LENGTH ?b" "HEADER_LENGTH \<le> length h"
      using peekBytes_ok [OF b] by (auto simp: HEADER_LENGTH_def)
    then have h: "peekBytes HEADER_LENGTH (fd_chunks d) = Some h"
        "rd_be32 (drop 9 h) = rd_be32 (drop 9 ?b)"
      using peek_length [of h ?b] b unfolding HEADER_LENGTH_def by blast+
    let ?t = "HEADER_LENGTH + rd_be32 (drop 9 ?b)"
    show ?thesis
    proof (cases "length ?b < ?t")
      case True
      with False h show ?thesis by (simp add: frame_step_def decode_turn_def len Let_def)
    next
      case enough: False
      obtain c1 where c1: "discard_loop ?t (fd_chunks d) = Some c1" "concat c1 = drop ?t ?b" "[] \<notin> set c1"
        using discard_loop_ok [of ?t "fd_chunks d"] enough ne by auto
      obtain c2 where c2: "takeBytes ?t (fd_chunks d) = Some (take ?t ?b, c2)" "concat c2 = drop ?t ?b"
          "[] \<notin> set c2"
        using takeBytes_ok [of ?t "fd_chunks d"] enough ne by (auto simp: HEADER_LENGTH_def)
      have l: "length ?b - ?t = length (concat c1)" "length ?b - ?t = length (concat c2)"
        using c1(2) c2(2) by simp_all
      let ?L = "rd_be32 (drop 9 ?b)"
      have step: "frame_step ?b = Some (if MAX_MESSAGE_SIZE < ?L then Oversized ?L
          else Frame (frame_of (take ?t ?b)), drop ?t ?b)"
        unfolding frame_step_def Let_def using False enough by (simp only: if_False)
      have turn: "decode_turn d = Some (if MAX_MESSAGE_SIZE < ?L
          then (Oversized ?L, \<lparr>fd_chunks = c1, fd_bufferedLength = length ?b - ?t\<rparr>)
          else (Frame (frame_of (take ?t ?b)), \<lparr>fd_chunks = c2, fd_bufferedLength = length ?b - ?t\<rparr>))"
        unfolding decode_turn_def Let_def len h(1) option.case h(2) c1(1) c2(1) prod.case
        using False enough by (simp only: if_False split: if_split) blast
      have "decoder_ok \<lparr>fd_chunks = c1, fd_bufferedLength = length ?b - ?t\<rparr>"
        "decoder_ok \<lparr>fd_chunks = c2, fd_bufferedLength = length ?b - ?t\<rparr>"
        using l c1(3) c2(3) by (simp_all only: decoder_ok_def frame_decoder.simps simp_thms)
      with step turn c1(2) c2(2) show ?thesis
        by (cases "MAX_MESSAGE_SIZE < ?L") (simp_all del: length_concat)
    qed
  qed
qed

lemma decode_loop_refines:
  "decoder_ok d \<Longrightarrow> \<exists>d'. decode_loop n d = (fst (drain_fuel n frame_step (concat (fd_chunks d))), d')
     \<and> decoder_ok d' \<and> concat (fd_chunks d') = snd (drain_fuel n frame_step (concat (fd_chunks d)))"
proof (induction n arbitrary: d)
  case (Suc n)
  note turn = decode_turn_refines [OF Suc.prems]
  show ?case
  proof (cases "frame_step (concat (fd_chunks d))")
    case None
    with turn Suc.prems show ?thesis by simp
  next
    case (Some x)
    obtain e r where x: "x = (e, r)" by (cases x)
    with turn Some obtain d1 where d1: "decode_turn d = Some (e, d1)" "decoder_ok d1"
        "concat (fd_chunks d1) = r" by auto
    with Suc.IH [OF d1(2)] Some x show ?thesis by (auto split: prod.splits)
  qed
qed simp

lemma feed_refines:
  assumes "decoder_ok d" and "feed chunk d = (es, d')"
  shows "drain_all frame_step (concat (fd_chunks d) @ chunk) = (es, concat (fd_chunks d'))"
    and "decoder_ok d'"
proof -
  let ?d1 = "if 0 < length chunk
    then \<lparr>fd_chunks = fd_chunks d @ [chunk], fd_bufferedLength = fd_bufferedLength d + length chunk\<rparr>
    else d"
  have ok1: "decoder_ok ?d1" and b1: "concat (fd_chunks ?d1) = concat (fd_chunks d) @ chunk"
    using assms(1) by (auto simp: decoder_ok_def)
  have n: "fd_bufferedLength ?d1 = length (concat (fd_chunks ?d1))"
    using ok1 by (simp only: decoder_ok_def)
  have f: "feed chunk d = decode_loop (Suc (length (concat (fd_chunks ?d1)))) ?d1"
    unfolding feed_def Let_def n ..
  from decode_loop_refines [OF ok1, of "Suc (length (concat (fd_chunks ?d1)))"] assms(2)
  show "drain_all frame_step (concat (fd_chunks d) @ chunk) = (es, concat (fd_chunks d'))"
    and "decoder_ok d'"
    unfolding f drain_all_def b1 [symmetric] by auto
qed

lemma feed_all_refines:
  "decoder_ok d \<Longrightarrow> feed_all cs d = (es, d') \<Longrightarrow>
   feeds frame_step (concat (fd_chunks d)) cs = (es, concat (fd_chunks d')) \<and> decoder_ok d'"
proof (induction cs arbitrary: d es d')
  case (Cons c cs)
  obtain e1 d1 where f: "feed c d = (e1, d1)" by (cases "feed c d")
  obtain e2 d2 where g: "feed_all cs d1 = (e2, d2)" by (cases "feed_all cs d1")
  note r = feed_refines [OF Cons.prems(1) f]
  from Cons.IH [OF r(2) g] r(1) Cons.prems(2) f g show ?case by simp
qed simp

lemma new_decoder_ok: "decoder_ok new_decoder" "concat (fd_chunks new_decoder) = []"
  by (simp_all add: decoder_ok_def new_decoder_def)

lemma frame_step_Nil: "frame_step [] = None"
  by (simp add: frame_step_def HEADER_LENGTH_def)

lemma feed_all_stream:
  assumes "feed_all cs new_decoder = (es, d)"
  shows "drain_all frame_step (concat cs) = (es, concat (fd_chunks d))" and "decoder_ok d"
  using feed_all_refines [OF new_decoder_ok(1) assms] relay.feeds_concat [OF frame_step_Nil]
  by (simp_all add: new_decoder_ok(2))

lemma drain_bytes: "decoder_ok d \<Longrightarrow> fst (drain d) = concat (fd_chunks d)"
  by (auto simp: drain_def decoder_ok_def length_Suc_conv)

text \<open>
  C40. The relay decoder does not depend on how the transport cuts the stream: any two
  sequences of chunks with the same bytes give the same frames, and \<open>drain\<close> returns the same
  residue, which is what the specification on one buffer leaves.
\<close>

theorem relay_chunking:
  assumes "concat cs = concat cs'"
  shows "fst (feed_all cs new_decoder) = fst (feed_all cs' new_decoder)
    \<and> fst (drain (snd (feed_all cs new_decoder))) = fst (drain (snd (feed_all cs' new_decoder)))
    \<and> (fst (feed_all cs new_decoder), fst (drain (snd (feed_all cs new_decoder))))
        = drain_all frame_step (concat cs)"
proof -
  obtain es d es' d' where f: "feed_all cs new_decoder = (es, d)" "feed_all cs' new_decoder = (es', d')"
    by (meson surj_pair)
  note a = feed_all_stream [OF f(1)] and b = feed_all_stream [OF f(2)]
  have "(es, concat (fd_chunks d)) = (es', concat (fd_chunks d'))"
    using a(1) b(1) assms by metis
  with a b f show ?thesis by (simp add: drain_bytes)
qed

theorem relay_chunking_witness:
  "fst (feed_all [[1, 0], [0, 0, 0]] new_decoder) = fst (feed_all [[1], [], [0, 0, 0, 0]] new_decoder)"
proof -
  have "concat [[1, 0], [0, 0, 0]] = concat [[1], [], [0, 0, 0, 0 :: byte]]" by simp
  from relay_chunking [OF this] show ?thesis by blast
qed

definition frame_event :: "nat \<times> nat \<times> nat \<times> byte list \<Rightarrow> decoder_event" where
  "frame_event f = (case f of (ty, i, a, p) \<Rightarrow>
     if MAX_MESSAGE_SIZE < length p then Oversized (length p)
     else Frame \<lparr>fr_type = word_of_nat ty, fr_id = i, fr_ack = a, fr_payload = p\<rparr>)"

definition encode_ok :: "nat \<times> nat \<times> nat \<times> byte list \<Rightarrow> byte list" where
  "encode_ok f = (case f of (ty, i, a, p) \<Rightarrow>
     (case encodeFrame ty i a p of Inr b \<Rightarrow> b | Inl _ \<Rightarrow> []))"

lemma frame_step_encoded:
  assumes "encodeFrame ty i a p = Inr b"
  shows "frame_step (b @ r) = Some (frame_event (ty, i, a, p), r)"
proof -
  have bd: "i < 2 ^ 32" "a < 2 ^ 32" "length p < 2 ^ 32"
    and b: "b = word_of_nat ty # be32 i @ be32 a @ be32 (length p) @ p"
    using assms by (auto simp: encodeFrame_def split: if_splits)
  have len: "length b = 13 + length p" by (simp add: b)
  have "drop 9 b = be32 (length p) @ p" by (simp add: b be32_def)
  then have n: "rd_be32 (drop 9 b @ r) = length p" using rd_be32_be32 [OF bd(3), of "p @ r"] by simp
  have "frame_of b = \<lparr>fr_type = word_of_nat ty, fr_id = i, fr_ack = a, fr_payload = p\<rparr>"
  proof -
    have "drop 1 b = be32 i @ be32 a @ be32 (length p) @ p" "drop 5 b = be32 a @ be32 (length p) @ p"
      "drop 13 b = p" by (simp_all add: b be32_def)
    then show ?thesis
      using rd_be32_be32 [OF bd(1)] rd_be32_be32 [OF bd(2)]
      by (simp add: frame_of_def HEADER_LENGTH_def b)
  qed
  then show ?thesis
    by (simp add: frame_step_def n len HEADER_LENGTH_def frame_event_def Let_def)
qed

lemma drain_frames:
  assumes "\<And>f. f \<in> set fs \<Longrightarrow> \<exists>b. (case f of (ty, i, a, p) \<Rightarrow> encodeFrame ty i a p) = Inr b"
  shows "drain_all frame_step (concat (map encode_ok fs)) = (map frame_event fs, [])"
proof -
  have "frame_step (encode_ok f @ r) = Some (frame_event f, r)" if "f \<in> set fs" for f r
    using assms [OF that] frame_step_encoded by (auto simp: encode_ok_def split: prod.splits)
  then show ?thesis by (rule relay.drain_encoded [OF _ frame_step_Nil])
qed

text \<open>
  Round trip: frames that \<open>encodeFrame\<close> produced, concatenated and delivered in any
  chunks, come out as they went in and leave nothing behind; one whose payload is over the
  limit is reported and skipped, and the frames after it are not affected.
\<close>

theorem relay_roundtrip:
  assumes "\<And>f. f \<in> set fs \<Longrightarrow> \<exists>b. (case f of (ty, i, a, p) \<Rightarrow> encodeFrame ty i a p) = Inr b"
    and "concat cs = concat (map encode_ok fs)"
  shows "fst (feed_all cs new_decoder) = map frame_event fs
    \<and> fst (drain (snd (feed_all cs new_decoder))) = []"
proof -
  obtain es d where f: "feed_all cs new_decoder = (es, d)" by (meson surj_pair)
  have "drain_all frame_step (concat cs) = (map frame_event fs, [])"
    unfolding assms(2) using assms(1) by (rule drain_frames)
  with feed_all_stream [OF f] f show ?thesis by (simp add: drain_bytes)
qed

theorem relay_roundtrip_witness:
  "fst (feed_all [[1, 0, 0, 0, 5, 0, 0], [0, 7, 0, 0, 0, 1, 65, 9], [0, 0, 0, 6, 0, 0, 0, 7, 0, 0, 0, 0]]
      new_decoder) =
    [Frame \<lparr>fr_type = 1, fr_id = 5, fr_ack = 7, fr_payload = [65]\<rparr>,
     Frame \<lparr>fr_type = 9, fr_id = 6, fr_ack = 7, fr_payload = []\<rparr>]"
proof -
  let ?fs = "[(1, 5, 7, [65]), (9, 6, 7, [])] :: (nat \<times> nat \<times> nat \<times> byte list) list"
  let ?cs = "[[1, 0, 0, 0, 5, 0, 0], [0, 7, 0, 0, 0, 1, 65, 9], [0, 0, 0, 6, 0, 0, 0, 7, 0, 0, 0, 0]] :: byte list list"
  have "\<exists>b. (case f of (ty, i, a, p) \<Rightarrow> encodeFrame ty i a p) = Inr b" if "f \<in> set ?fs" for f
    using that by (auto simp: encodeFrame_def)
  moreover have "concat ?cs = concat (map encode_ok ?fs)"
    by (simp add: encode_ok_def encodeFrame_def be32_def)
  ultimately have "fst (feed_all ?cs new_decoder) = map frame_event ?fs"
    using relay_roundtrip by blast
  then show ?thesis by (simp add: frame_event_def MAX_MESSAGE_SIZE_def)
qed

end
