(* ===== verification/Daemon_Frames.thy ===== *)
theory Daemon_Frames
  imports Byte_Stream
begin

section \<open>Binary frames of the daemon\<close>

text \<open>
  \<open>src/src/main/daemon/binary-frame.ts\<close>: a frame is a type byte, the payload length in four
  bytes and the payload. The parser keeps one buffer; \<open>daemon_step\<close> is one turn of its loop,
  an incremental parser.
\<close>

definition FRAME_HEADER_SIZE :: nat where
  "FRAME_HEADER_SIZE = 5"

definition FRAME_MAX_PAYLOAD :: nat where
  "FRAME_MAX_PAYLOAD = 1024 * 1024"

definition encodeDaemonFrame :: "byte \<Rightarrow> byte list \<Rightarrow> exn + byte list" where
  "encodeDaemonFrame ty payload =
     (if FRAME_MAX_PAYLOAD < length payload
      then Inl (Error (js ''Frame payload '' @ js_dec (length payload) @ js '' exceeds max ''
                 @ js_dec FRAME_MAX_PAYLOAD))
      else Inr ([ty] @ be32 (length payload) @ payload))"

definition daemon_step :: "byte list \<Rightarrow> ((byte \<times> byte list) \<times> byte list) option" where
  "daemon_step buffer =
     (if length buffer < FRAME_HEADER_SIZE then None
      else (let total = FRAME_HEADER_SIZE + rd_be32 (drop 1 buffer)
            in if length buffer < total then None
               else Some ((hd buffer, drop FRAME_HEADER_SIZE (take total buffer)), drop total buffer)))"

text \<open>\<open>feed\<close>: what \<open>onFrame\<close> is called with, and the buffer after it.\<close>

definition feedParser :: "byte list \<Rightarrow> byte list \<Rightarrow> (byte \<times> byte list) list \<times> byte list" where
  "feedParser chunk buffer = drain_all daemon_step (if buffer = [] then chunk else buffer @ chunk)"

fun feedParser_all :: "byte list list \<Rightarrow> byte list \<Rightarrow> (byte \<times> byte list) list \<times> byte list" where
  "feedParser_all [] b = ([], b)"
| "feedParser_all (c # cs) b = (case feedParser c b of
     (fs, b') \<Rightarrow> (case feedParser_all cs b' of (fs', b'') \<Rightarrow> (fs @ fs', b'')))"

interpretation daemon: incremental_parser daemon_step
proof
  fix b c :: "byte list" and u r
  assume s: "daemon_step b = Some (u, r)"
  then have h: "5 \<le> length b" "5 + rd_be32 (drop 1 b) \<le> length b"
    by (auto simp: daemon_step_def Let_def FRAME_HEADER_SIZE_def split: if_splits)
  have "rd_be32 (drop 1 (b @ c)) = rd_be32 (drop 1 b)"
    using rd_be32_append [of "drop 1 b" c] h(1) by simp
  with s h show "daemon_step (b @ c) = Some (u, r @ c)"
    by (auto simp: daemon_step_def Let_def FRAME_HEADER_SIZE_def hd_append split: if_splits)
next
  fix b u r
  assume "daemon_step b = Some (u, r)"
  then show "length r < length b"
    by (auto simp: daemon_step_def Let_def FRAME_HEADER_SIZE_def split: if_splits)
qed

lemma feedParser_all_feeds: "feedParser_all cs b = feeds daemon_step b cs"
  by (induction cs arbitrary: b) (auto simp: feedParser_def split: prod.split)

lemma daemon_step_encoded:
  assumes "encodeDaemonFrame ty p = Inr b"
  shows "daemon_step (b @ r) = Some ((ty, p), r)"
proof -
  have bd: "length p < 2 ^ 32" and b: "b = ty # be32 (length p) @ p"
    using assms by (auto simp: encodeDaemonFrame_def FRAME_MAX_PAYLOAD_def split: if_splits)
  have len: "length b = 5 + length p" by (simp add: b)
  have "drop 1 (b @ r) = be32 (length p) @ p @ r" by (simp add: b)
  then have n: "rd_be32 (drop 1 (b @ r)) = length p" using rd_be32_be32 [OF bd] by simp
  have "drop 5 b = p" "hd (b @ r) = ty" by (simp_all add: b)
  then show ?thesis
    unfolding daemon_step_def FRAME_HEADER_SIZE_def Let_def n by (simp add: len)
qed

definition encode_frame_ok :: "byte \<times> byte list \<Rightarrow> byte list" where
  "encode_frame_ok f = (case encodeDaemonFrame (fst f) (snd f) of Inr b \<Rightarrow> b | Inl _ \<Rightarrow> [])"

text \<open>
  Frames that the daemon encoded come out of the parser as they went in, however the
  socket cuts the stream, and leave an empty buffer; whatever the stream, the frames and the
  bytes kept depend on the bytes received alone.
\<close>

theorem daemon_frame_roundtrip:
  assumes "concat cs = concat cs'"
  shows "feedParser_all cs [] = feedParser_all cs' []
    \<and> (list_all (\<lambda>f. length (snd f) \<le> FRAME_MAX_PAYLOAD) fs
         \<and> concat cs = concat (map encode_frame_ok fs) \<longrightarrow> feedParser_all cs [] = (fs, []))"
proof (intro conjI impI)
  have Nil: "daemon_step [] = None" by (simp add: daemon_step_def FRAME_HEADER_SIZE_def)
  have all: "feedParser_all xs [] = drain_all daemon_step (concat xs)" for xs
    using daemon.feeds_concat [OF Nil] by (simp add: feedParser_all_feeds)
  show "feedParser_all cs [] = feedParser_all cs' []"
    unfolding all assms ..
  assume fs: "list_all (\<lambda>f. length (snd f) \<le> FRAME_MAX_PAYLOAD) fs
      \<and> concat cs = concat (map encode_frame_ok fs)"
  have step: "daemon_step (encode_frame_ok f @ r) = Some (id f, r)" if f: "f \<in> set fs" for f r
  proof -
    have "\<exists>b. encodeDaemonFrame (fst f) (snd f) = Inr b"
      using fs f by (auto simp: list_all_iff encodeDaemonFrame_def)
    then obtain b where b: "encodeDaemonFrame (fst f) (snd f) = Inr b" by blast
    then show ?thesis using daemon_step_encoded [OF b] by (simp add: encode_frame_ok_def)
  qed
  show "feedParser_all cs [] = (fs, [])"
    unfolding all using daemon.drain_encoded [of fs encode_frame_ok id, OF step Nil] fs by simp
qed

theorem daemon_frame_roundtrip_witness:
  "feedParser_all [[1, 0, 0], [0, 1, 65, 3], [0, 0, 0, 0]] [] = ([(1, [65]), (3, [])], [])"
proof -
  let ?cs = "[[1, 0, 0], [0, 1, 65, 3], [0, 0, 0, 0]] :: byte list list"
  have "concat ?cs = concat (map encode_frame_ok [(1, [65]), (3, [])])"
    by (simp add: encode_frame_ok_def encodeDaemonFrame_def FRAME_MAX_PAYLOAD_def be32_def)
  with daemon_frame_roundtrip [of ?cs ?cs "[(1, [65]), (3, [])]"] show ?thesis
    by (simp add: FRAME_MAX_PAYLOAD_def)
qed

end
