(* ===== verification/Ndjson.thy ===== *)
theory Ndjson
  imports Byte_Stream Js_Json
begin

section \<open>Newline-delimited JSON\<close>

text \<open>
  \<open>src/src/main/daemon/ndjson.ts\<close>. A line is the JSON text of a message and a line feed. The
  parser buffers the line it is in, counts its bytes in UTF-8 and gives up a line that is
  over the limit, up to its end. \<open>line_step\<close> takes one line from a buffer: an incremental
  parser, and the specification of the parser as long as no line is too long.
\<close>

definition encodeNdjson :: "json \<Rightarrow> jsstr" where
  "encodeNdjson msg = json_stringify msg @ [10]"

definition NDJSON_MAX_LINE_BYTES :: nat where
  "NDJSON_MAX_LINE_BYTES = 16 * 1024 * 1024"

text \<open>\<open>Buffer.byteLength(s, 'utf8')\<close>: a surrogate without its partner takes three bytes.\<close>

fun utf8_length :: "jsstr \<Rightarrow> nat" where
  "utf8_length [] = 0"
| "utf8_length [u] = (if u < 128 then 1 else if u < 2048 then 2 else 3)"
| "utf8_length (u # v # s) =
     (if high_surrogate u \<and> low_surrogate v then 4 + utf8_length s
      else (if u < 128 then 1 else if u < 2048 then 2 else 3) + utf8_length (v # s))"

record ndjson_parser =
  nd_buffer :: jsstr
  nd_bufferBytes :: nat
  nd_discarding :: bool

definition new_parser :: ndjson_parser where
  "new_parser = \<lparr>nd_buffer = [], nd_bufferBytes = 0, nd_discarding = False\<rparr>"

text \<open>What the callbacks are called with: a message, an oversized line with the bytes observed,
  a line that is not JSON.\<close>

datatype ndjson_event = Message json | Oversized_line nat | Bad_line

definition max_line :: "nat option \<Rightarrow> nat" where
  "max_line maxLineBytes =
     max 1 (case maxLineBytes of None \<Rightarrow> NDJSON_MAX_LINE_BYTES | Some n \<Rightarrow> n)"

definition clearBuffer :: "ndjson_parser \<Rightarrow> ndjson_parser" where
  "clearBuffer st = st\<lparr>nd_buffer := [], nd_bufferBytes := 0\<rparr>"

text \<open>\<open>remaining.indexOf('\n')\<close>: the segment before it, and what follows it if it is there.\<close>

fun split_newline :: "jsstr \<Rightarrow> jsstr \<times> jsstr option" where
  "split_newline [] = ([], None)"
| "split_newline (u # s) =
     (if u = 10 then ([], Some s)
      else (case split_newline s of (segment, rest) \<Rightarrow> (u # segment, rest)))"

definition line_event :: "jsstr \<Rightarrow> ndjson_event list" where
  "line_event line =
     (if line = [] then []
      else (case json_parse line of None \<Rightarrow> [Bad_line] | Some v \<Rightarrow> [Message v]))"

text \<open>One turn of the loop on a segment, without its line feed.\<close>

definition segment_turn ::
  "nat \<Rightarrow> jsstr \<Rightarrow> bool \<Rightarrow> ndjson_parser \<Rightarrow> ndjson_event list \<times> ndjson_parser" where
  "segment_turn limit segment hasNewline st =
     (if nd_discarding st
      then ([], if hasNewline then (clearBuffer st)\<lparr>nd_discarding := False\<rparr> else st)
      else (let nextLineBytes = nd_bufferBytes st + utf8_length segment
            in if limit < nextLineBytes
               then ([Oversized_line nextLineBytes],
                     (clearBuffer st)\<lparr>nd_discarding := \<not> hasNewline\<rparr>)
               else (let st1 = st\<lparr>nd_buffer := nd_buffer st @ segment,
                                 nd_bufferBytes := nextLineBytes\<rparr>
                     in if hasNewline then (line_event (nd_buffer st1), clearBuffer st1)
                        else ([], st1))))"

lemma split_newline_length: "split_newline s = (a, Some r) \<Longrightarrow> length r < length s"
  by (induction s arbitrary: a) (auto split: if_splits prod.splits)

function nd_feed :: "nat \<Rightarrow> jsstr \<Rightarrow> ndjson_parser \<Rightarrow> ndjson_event list \<times> ndjson_parser" where
  "nd_feed limit remaining st =
     (if remaining = [] then ([], st)
      else (case split_newline remaining of
              (segment, None) \<Rightarrow> segment_turn limit segment False st
            | (segment, Some rest) \<Rightarrow>
                (case segment_turn limit segment True st of (es, st1) \<Rightarrow>
                  (case nd_feed limit rest st1 of (es', st2) \<Rightarrow> (es @ es', st2)))))"
  by pat_completeness auto
termination
  by (relation "measure (\<lambda>(_, s, _). length s)") (auto dest: split_newline_length [OF sym])

declare nd_feed.simps [simp del]

fun nd_feed_all :: "nat \<Rightarrow> jsstr list \<Rightarrow> ndjson_parser \<Rightarrow> ndjson_event list \<times> ndjson_parser" where
  "nd_feed_all limit [] st = ([], st)"
| "nd_feed_all limit (c # cs) st = (case nd_feed limit c st of
     (es, st1) \<Rightarrow> (case nd_feed_all limit cs st1 of (es', st2) \<Rightarrow> (es @ es', st2)))"

definition nd_reset :: "ndjson_parser \<Rightarrow> ndjson_parser" where
  "nd_reset st = (clearBuffer st)\<lparr>nd_discarding := False\<rparr>"

subsection \<open>The buffer is bounded\<close>

lemma utf8_length_ge: "length s \<le> utf8_length s"
  by (induction s rule: utf8_length.induct) auto

lemma utf8_length_le: "utf8_length s \<le> 3 * length s"
  by (induction s rule: utf8_length.induct) auto

definition nd_bounded :: "nat \<Rightarrow> ndjson_parser \<Rightarrow> bool" where
  "nd_bounded limit st = (length (nd_buffer st) \<le> nd_bufferBytes st \<and> nd_bufferBytes st \<le> limit)"

lemma segment_turn_bounded:
  "nd_bounded limit st \<Longrightarrow> nd_bounded limit (snd (segment_turn limit seg nl st))"
  using utf8_length_ge [of seg]
  by (auto simp: segment_turn_def nd_bounded_def clearBuffer_def Let_def)

lemma nd_feed_bounded: "nd_bounded limit st \<Longrightarrow> nd_bounded limit (snd (nd_feed limit s st))"
proof (induction limit s st rule: nd_feed.induct)
  case (1 limit s st)
  show ?case
  proof (cases "s = []")
    case True
    with 1 show ?thesis by (simp add: nd_feed.simps [of limit "[]" st])
  next
    case False
    obtain a r where ar: "split_newline s = (a, r)" by (cases "split_newline s")
    obtain es st1 where t: "segment_turn limit a True st = (es, st1)"
      by (cases "segment_turn limit a True st")
    have "nd_bounded limit st1" using segment_turn_bounded [OF "1.prems", of a True] t by simp
    moreover have "nd_bounded limit (snd (segment_turn limit a False st))"
      by (rule segment_turn_bounded [OF "1.prems"])
    moreover have "r = Some q \<Longrightarrow> nd_bounded limit (snd (nd_feed limit q st1))" for q
      using "1.IH" [OF False ar [symmetric]] t \<open>nd_bounded limit st1\<close> by simp
    ultimately show ?thesis
      using False ar t by (cases r) (simp_all add: nd_feed.simps [of limit s st] split_beta)
  qed
qed

lemma nd_feed_all_bounded:
  "nd_bounded limit st \<Longrightarrow> nd_bounded limit (snd (nd_feed_all limit cs st))"
proof (induction cs arbitrary: st)
  case (Cons c cs)
  have "nd_bounded limit (snd (nd_feed limit c st))" by (rule nd_feed_bounded [OF Cons.prems])
  then have "nd_bounded limit (snd (nd_feed_all limit cs (snd (nd_feed limit c st))))"
    by (rule Cons.IH)
  then show ?case
    by (cases "nd_feed limit c st"; cases "nd_feed_all limit cs (snd (nd_feed limit c st))") simp
qed simp

text \<open>
  Whatever a peer sends, and however long it goes without a line feed, the parser never
  holds more characters than the line limit.
\<close>

theorem ndjson_bounded:
  "length (nd_buffer (snd (nd_feed_all limit cs new_parser))) \<le> limit"
  using nd_feed_all_bounded [of limit new_parser cs]
  by (auto simp: nd_bounded_def new_parser_def)

subsection \<open>Lines\<close>

definition line_step :: "jsstr \<Rightarrow> (jsstr \<times> jsstr) option" where
  "line_step b = (case split_newline b of (l, None) \<Rightarrow> None | (l, Some r) \<Rightarrow> Some (l, r))"

lemma split_newline_spec: "case split_newline b of
    (l, None) \<Rightarrow> b = l \<and> 10 \<notin> set l
  | (l, Some r) \<Rightarrow> b = l @ 10 # r \<and> 10 \<notin> set l"
  by (induction b) (auto split: prod.splits option.splits)

lemma split_newline_line [simp]: "10 \<notin> set l \<Longrightarrow> split_newline (l @ 10 # r) = (l, Some r)"
  by (induction l) auto

lemma split_newline_rest [simp]: "10 \<notin> set l \<Longrightarrow> split_newline l = (l, None)"
  by (induction l) auto

lemma split_newline_Some_iff:
  "split_newline b = (l, Some r) \<longleftrightarrow> b = l @ 10 # r \<and> 10 \<notin> set l"
proof
  assume "split_newline b = (l, Some r)"
  with split_newline_spec [of b] show "b = l @ 10 # r \<and> 10 \<notin> set l" by simp
qed simp

lemma split_newline_None_iff: "split_newline b = (l, None) \<longleftrightarrow> b = l \<and> 10 \<notin> set l"
proof
  assume "split_newline b = (l, None)"
  with split_newline_spec [of b] show "b = l \<and> 10 \<notin> set l" by simp
qed simp

lemma line_step_iff: "line_step b = Some (l, r) \<longleftrightarrow> b = l @ 10 # r \<and> 10 \<notin> set l"
proof -
  have "line_step b = Some (l, r) \<longleftrightarrow> split_newline b = (l, Some r)"
    by (simp add: line_step_def split: prod.split option.split)
  then show ?thesis by (simp only: split_newline_Some_iff)
qed

lemma line_step_None: "line_step b = None \<longleftrightarrow> 10 \<notin> set b"
proof -
  obtain l r where b: "split_newline b = (l, r)" by (cases "split_newline b")
  show ?thesis
  proof (cases r)
    case None
    with b have "10 \<notin> set b" by (auto simp: split_newline_None_iff)
    with None b show ?thesis by (simp add: line_step_def)
  next
    case (Some q)
    with b have "b = l @ 10 # q" by (simp add: split_newline_Some_iff)
    then have "10 \<in> set b" by simp
    with Some b show ?thesis by (simp add: line_step_def)
  qed
qed

interpretation lines: incremental_parser line_step
  by unfold_locales (auto simp: line_step_iff)

lemma drain_no_newline: "10 \<notin> set b \<Longrightarrow> drain_all line_step b = ([], b)"
  by (subst lines.drain_all_unfold) (simp add: line_step_None [THEN iffD2])

lemma drain_line: "10 \<notin> set l \<Longrightarrow> drain_all line_step (l @ 10 # r) =
    (l # fst (drain_all line_step r), snd (drain_all line_step r))"
proof -
  assume "10 \<notin> set l"
  then have "line_step (l @ 10 # r) = Some (l, r)" by (simp add: line_step_iff)
  then show ?thesis by (subst lines.drain_all_unfold) (simp add: split_beta)
qed

text \<open>Every line of a text, and the piece after the last, is within the limit even at three
  bytes for a character.\<close>

definition short_lines :: "nat \<Rightarrow> jsstr \<Rightarrow> bool" where
  "short_lines limit b = (case drain_all line_step b of (ls, r) \<Rightarrow>
     list_all (\<lambda>l. 3 * length l \<le> limit) (r # ls))"

definition nd_at :: "jsstr \<Rightarrow> ndjson_parser \<Rightarrow> bool" where
  "nd_at buf st = (nd_buffer st = buf \<and> \<not> nd_discarding st \<and> nd_bufferBytes st \<le> 3 * length buf
     \<and> 10 \<notin> set buf)"

lemma nd_feed_lines:
  "nd_at buf st \<Longrightarrow> short_lines limit (buf @ s) \<Longrightarrow>
   fst (nd_feed limit s st) = concat (map line_event (fst (drain_all line_step (buf @ s))))
   \<and> nd_at (snd (drain_all line_step (buf @ s))) (snd (nd_feed limit s st))"
proof (induction limit s st arbitrary: buf rule: nd_feed.induct)
  case (1 limit s st)
  note at = "1.prems"(1) and short = "1.prems"(2)
  have buf: "10 \<notin> set buf" using at by (simp add: nd_at_def)
  show ?case
  proof (cases "s = []")
    case True
    with at show ?thesis
      by (simp add: nd_feed.simps [of limit "[]" st] drain_no_newline [OF buf])
  next
    case False
    obtain seg r where sp: "split_newline s = (seg, r)" by (cases "split_newline s")
    show ?thesis
    proof (cases r)
      case None
      with sp have seg: "s = seg" "10 \<notin> set seg" by (simp_all add: split_newline_None_iff)
      have d: "drain_all line_step (buf @ s) = ([], buf @ seg)"
        using buf seg by (simp add: drain_no_newline)
      then have "3 * (length buf + length seg) \<le> limit"
        using short by (simp add: short_lines_def)
      then have "nd_bufferBytes st + utf8_length seg \<le> limit"
        using at utf8_length_le [of seg] by (simp add: nd_at_def)
      moreover have "nd_feed limit s st = segment_turn limit seg False st"
        using False sp None by (simp add: nd_feed.simps [of limit s st])
      ultimately show ?thesis
        unfolding d using at seg utf8_length_le [of seg]
        by (simp add: segment_turn_def nd_at_def)
    next
      case (Some q)
      with sp have seg: "s = seg @ 10 # q" "10 \<notin> set seg"
        by (simp_all add: split_newline_Some_iff)
      have "10 \<notin> set (buf @ seg)" using buf seg(2) by simp
      note d = drain_line [OF this, of q]
      have bs: "buf @ s = (buf @ seg) @ 10 # q" using seg by simp
      have "3 * (length buf + length seg) \<le> limit" and q: "short_lines limit q"
        using short d unfolding bs by (simp_all add: short_lines_def split_beta)
      then have le: "nd_bufferBytes st + utf8_length seg \<le> limit"
        using at utf8_length_le [of seg] by (simp add: nd_at_def)
      let ?st = "clearBuffer (st\<lparr>nd_buffer := buf @ seg,
                   nd_bufferBytes := nd_bufferBytes st + utf8_length seg\<rparr>)"
      have t: "segment_turn limit seg True st = (line_event (buf @ seg), ?st)"
        using le at by (simp add: segment_turn_def nd_at_def Let_def)
      have "nd_at [] ?st" using at by (simp add: nd_at_def clearBuffer_def)
      from "1.IH" [OF False sp [symmetric] Some t [symmetric] this] q
      have IH: "fst (nd_feed limit q ?st) = concat (map line_event (fst (drain_all line_step q)))"
        "nd_at (snd (drain_all line_step q)) (snd (nd_feed limit q ?st))" by simp_all
      have "nd_feed limit s st = (line_event (buf @ seg) @ fst (nd_feed limit q ?st),
          snd (nd_feed limit q ?st))"
        using False sp Some t by (simp add: nd_feed.simps [of limit s st] split_beta)
      then show ?thesis unfolding bs d using IH by simp
    qed
  qed
qed

lemma short_lines_front:
  assumes "drain_all line_step b = (ls, r)" and "short_lines limit (b @ x)"
  shows "short_lines limit b" and "short_lines limit (r @ x)"
proof -
  obtain vs t where v: "drain_all line_step (r @ x) = (vs, t)" by (cases "drain_all line_step (r @ x)")
  have "drain_all line_step (b @ x) = (ls @ vs, t)"
    using lines.drain_all_append [OF assms(1), of x] v by simp
  then have ok: "list_all (\<lambda>l. 3 * length l \<le> limit) (t # ls @ vs)"
    using assms(2) by (simp add: short_lines_def)
  then show "short_lines limit (r @ x)" by (simp add: short_lines_def v)
  have nl: "10 \<notin> set r" using lines.drain_all_rest [OF assms(1)] by (simp add: line_step_None)
  have "3 * length r \<le> limit"
  proof (cases "10 \<in> set x")
    case False
    with nl have "t = r @ x" using v by (simp add: drain_no_newline)
    with ok show ?thesis by simp
  next
    case True
    then obtain a c where x: "x = a @ 10 # c" "10 \<notin> set a" by (metis split_list_first)
    then have "drain_all line_step (r @ x) = ((r @ a) # fst (drain_all line_step c), snd (drain_all line_step c))"
      using drain_line [of "r @ a" c] nl by simp
    with v ok show ?thesis by auto
  qed
  with ok show "short_lines limit b" by (simp add: short_lines_def assms(1))
qed

lemma nd_feed_all_lines:
  "nd_at buf st \<Longrightarrow> short_lines limit (buf @ concat cs) \<Longrightarrow>
   fst (nd_feed_all limit cs st) = concat (map line_event (fst (drain_all line_step (buf @ concat cs))))
   \<and> nd_at (snd (drain_all line_step (buf @ concat cs))) (snd (nd_feed_all limit cs st))"
proof (induction cs arbitrary: buf st)
  case Nil
  then have "10 \<notin> set buf" by (simp add: nd_at_def)
  with Nil show ?case by (simp add: drain_no_newline)
next
  case (Cons c cs)
  obtain ls r where d: "drain_all line_step (buf @ c) = (ls, r)" by (cases "drain_all line_step (buf @ c)")
  have sh: "short_lines limit ((buf @ c) @ concat cs)" using Cons.prems(2) by simp
  obtain es st1 where f: "nd_feed limit c st = (es, st1)" by (cases "nd_feed limit c st")
  have one: "es = concat (map line_event ls)" "nd_at r st1"
    using nd_feed_lines [OF Cons.prems(1) short_lines_front(1) [OF d sh]] d f by simp_all
  note IH = Cons.IH [OF one(2) short_lines_front(2) [OF d sh]]
  obtain vs t where v: "drain_all line_step (r @ concat cs) = (vs, t)"
    by (cases "drain_all line_step (r @ concat cs)")
  have "drain_all line_step (buf @ concat (c # cs)) = (ls @ vs, t)"
    using lines.drain_all_append [OF d, of "concat cs"] v by simp
  then show ?case using IH f one(1) v by (simp add: split_beta)
qed

subsection \<open>Round trip\<close>

lemma quote_units_line: "10 \<notin> set (quote_units s)"
proof (induction s rule: quote_units.induct)
  case (3 u v s)
  then show ?case
    by (auto simp: quote_unit_def unicode_escape_def hex_digit_def high_surrogate_def low_surrogate_def)
qed (auto simp: quote_unit_def unicode_escape_def hex_digit_def)

lemma num_ok_line: "num_ok l \<Longrightarrow> 10 \<notin> set l"
  by (cases l) (auto simp: num_ok_def digits_ok_def list_all_iff is_digit_def)

lemma stringify_line:
  "json_ok v \<Longrightarrow> 10 \<notin> set (json_stringify v)"
  "list_all json_ok vs \<Longrightarrow> 10 \<notin> set (stringify_elems vs)"
  "list_all (\<lambda>m. json_ok (snd m)) ms \<Longrightarrow> 10 \<notin> set (stringify_members ms)"
  by (induction v and vs and ms rule: json_stringify_stringify_elems_stringify_members.induct)
    (auto simp: json_quote_def quote_units_line num_ok_line list_all_iff)

lemma drain_encoded_lines:
  assumes "list_all json_ok ms"
  shows "drain_all line_step (concat (map encodeNdjson ms)) = (map json_stringify ms, [])"
proof (rule lines.drain_encoded)
  show "line_step (encodeNdjson m @ r) = Some (json_stringify m, r)" if "m \<in> set ms" for m r
    using that assms stringify_line(1) [of m]
    by (simp add: encodeNdjson_def line_step_iff list_all_iff)
  show "line_step [] = None" by (simp add: line_step_None)
qed

text \<open>
  NDJSON round trip: messages that were encoded, each well within the line limit, are
  delivered in order and unchanged however the socket cuts the stream, with no error and
  nothing left in the buffer.
\<close>

theorem ndjson_roundtrip:
  assumes "list_all (\<lambda>m. json_ok m \<and> 3 * length (json_stringify m) \<le> limit) ms"
    and "concat cs = concat (map encodeNdjson ms)"
  shows "fst (nd_feed_all limit cs new_parser) = map Message ms
    \<and> nd_buffer (snd (nd_feed_all limit cs new_parser)) = []"
proof -
  have ok: "list_all json_ok ms" using assms(1) by (simp add: list_all_iff)
  note d = drain_encoded_lines [OF ok, folded assms(2)]
  have sh: "short_lines limit ([] @ concat cs)"
    using assms(1) d by (simp add: short_lines_def list_all_iff)
  have "nd_at [] new_parser" by (simp add: nd_at_def new_parser_def)
  note r = nd_feed_all_lines [OF this sh]
  have "line_event (json_stringify m) = [Message m]" if "m \<in> set ms" for m
  proof -
    have m: "json_ok m" using ok that by (simp add: list_all_iff)
    then have "json_stringify m \<noteq> []" using json_first [of m] by auto
    with json_parse_stringify [OF m] show ?thesis by (simp add: line_event_def)
  qed
  then have "concat (map line_event (map json_stringify ms)) = map Message ms"
    by (induction ms) auto
  with r d show ?thesis by (simp add: nd_at_def)
qed

theorem ndjson_roundtrip_witness:
  "fst (nd_feed_all 100 [[91], [93, 10, 34], [97, 34, 10]] new_parser) =
     [Message (JArr []), Message (JStr [97])]"
proof -
  have "concat [[91], [93, 10, 34], [97, 34, 10]] = concat (map encodeNdjson [JArr [], JStr [97]])"
    by (simp add: encodeNdjson_def json_quote_def high_surrogate_def low_surrogate_def quote_unit_def)
  moreover have "list_all (\<lambda>m. json_ok m \<and> 3 * length (json_stringify m) \<le> 100) [JArr [], JStr [97]]"
    by (simp add: json_quote_def high_surrogate_def low_surrogate_def quote_unit_def)
  ultimately show ?thesis
    using ndjson_roundtrip [of 100 "[JArr [], JStr [97]]"] by (simp del: nd_feed_all.simps concat.simps)
qed

end
