(* ===== verification/Stream_Split.thy ===== *)
theory Stream_Split
  imports Ndjson
begin

section \<open>Splitting stream data into lines that fit\<close>

text \<open>
  \<open>src/src/main/daemon/daemon-stream-data-split.ts\<close>: a \<open>data\<close> event is one NDJSON line, which
  the receiver rejects above its limit; longer data is cut, by binary search for the longest
  piece that fits, and never between the two halves of a surrogate pair.
\<close>

definition encodeStreamDataEvent :: "jsstr \<Rightarrow> jsstr \<Rightarrow> int option \<Rightarrow> jsstr" where
  "encodeStreamDataEvent sessionId data sequenceChars =
     encodeNdjson (JObj [(js ''type'', JStr (js ''event'')), (js ''event'', JStr (js ''data'')),
       (js ''sessionId'', JStr sessionId),
       (js ''payload'', JObj ((js ''data'', JStr data) #
          (case sequenceChars of None \<Rightarrow> [] | Some n \<Rightarrow> [(js ''sequenceChars'', JNum (js_int n))])))])"

definition streamDataEventLineBytes :: "jsstr \<Rightarrow> jsstr \<Rightarrow> int option \<Rightarrow> nat" where
  "streamDataEventLineBytes sessionId data sequenceChars =
     utf8_length (encodeStreamDataEvent sessionId data sequenceChars)"

definition clampToSafeSplitIndex :: "jsstr \<Rightarrow> nat \<Rightarrow> nat \<Rightarrow> nat" where
  "clampToSafeSplitIndex v start stop =
     (if stop \<le> start \<or> length v \<le> stop then stop
      else if high_surrogate (v ! (stop - 1)) \<and> low_surrogate (v ! stop) then stop - 1 else stop)"

definition nextSafeSplitIndex :: "jsstr \<Rightarrow> nat \<Rightarrow> nat" where
  "nextSafeSplitIndex v start =
     (let nxt = min (length v) (start + 1)
      in if nxt < length v \<and> high_surrogate (v ! start) \<and> low_surrogate (v ! nxt) then nxt + 1
         else nxt)"

definition slice :: "jsstr \<Rightarrow> nat \<Rightarrow> nat \<Rightarrow> jsstr" where
  "slice v start stop = take (stop - start) (drop start v)"

text \<open>The binary search; \<open>fits\<close> says that the event for the piece up to an index is short enough.\<close>

function best_split :: "(nat \<Rightarrow> bool) \<Rightarrow> jsstr \<Rightarrow> nat \<Rightarrow> nat \<Rightarrow> nat \<Rightarrow> nat \<Rightarrow> nat" where
  "best_split fits v start low high best =
     (if high < low then best
      else (let rawMid = (low + high) div 2; mid = clampToSafeSplitIndex v start rawMid
            in if mid \<le> start then best_split fits v start (rawMid + 1) high best
               else if fits mid then best_split fits v start (rawMid + 1) high mid
               else if rawMid = 0 then best
               else best_split fits v start low (rawMid - 1) best))"
  by pat_completeness auto
termination
  by (relation "measure (\<lambda>(_, _, _, low, high, _). high + 1 - low)") auto

declare best_split.simps [simp del]

definition piece_fits :: "jsstr \<Rightarrow> int option \<Rightarrow> nat \<Rightarrow> jsstr \<Rightarrow> nat \<Rightarrow> nat \<Rightarrow> bool" where
  "piece_fits sessionId sequenceChars maxLineBytes v start stop =
     (streamDataEventLineBytes sessionId (slice v start stop) sequenceChars \<le> maxLineBytes)"

definition piece_end :: "jsstr \<Rightarrow> int option \<Rightarrow> nat \<Rightarrow> jsstr \<Rightarrow> nat \<Rightarrow> nat" where
  "piece_end sessionId sequenceChars maxLineBytes v start =
     (let best = best_split (piece_fits sessionId sequenceChars maxLineBytes v start) v start
                   (start + 1) (length v) start
      in if start < best then best else nextSafeSplitIndex v start)"

subsection \<open>The cuts\<close>

text \<open>An index that is not inside a surrogate pair.\<close>

definition safe_cut :: "jsstr \<Rightarrow> nat \<Rightarrow> bool" where
  "safe_cut v i = (0 < i \<and> i < length v \<longrightarrow> \<not> (high_surrogate (v ! (i - 1)) \<and> low_surrogate (v ! i)))"

lemma clamp_safe:
  "start < clampToSafeSplitIndex v start i \<Longrightarrow> i \<le> length v \<Longrightarrow>
   safe_cut v (clampToSafeSplitIndex v start i) \<and> clampToSafeSplitIndex v start i \<le> length v"
  using surrogate_disjoint [of "v ! (i - 1)"]
  by (auto simp: clampToSafeSplitIndex_def safe_cut_def split: if_splits)

lemma nextSafe_props:
  "start < length v \<Longrightarrow> start < nextSafeSplitIndex v start \<and> nextSafeSplitIndex v start \<le> length v
     \<and> safe_cut v (nextSafeSplitIndex v start) \<and> nextSafeSplitIndex v start \<le> start + 2"
  using surrogate_disjoint [of "v ! Suc start"]
  by (auto simp: nextSafeSplitIndex_def safe_cut_def Let_def min_def)

lemma best_split_props:
  "high \<le> length v \<Longrightarrow>
   best_split fits v start low high best = best
   \<or> (start < best_split fits v start low high best \<and> best_split fits v start low high best \<le> length v
      \<and> safe_cut v (best_split fits v start low high best)
      \<and> fits (best_split fits v start low high best))"
proof (induction fits v start low high best rule: best_split.induct)
  case (1 fits v start low high best)
  let ?raw = "(low + high) div 2" and ?mid = "clampToSafeSplitIndex v start ((low + high) div 2)"
  show ?case
  proof (cases "high < low")
    case True
    then show ?thesis by (simp add: best_split.simps [of fits v start low high best])
  next
    case False
    then have raw: "?raw \<le> length v" using "1.prems" by linarith
    note eq = best_split.simps [of fits v start low high best]
    consider "?mid \<le> start" | "start < ?mid" "fits ?mid" | "start < ?mid" "\<not> fits ?mid" "?raw = 0"
      | "start < ?mid" "\<not> fits ?mid" "?raw \<noteq> 0" by linarith
    then show ?thesis
    proof cases
      case 1
      with "1.IH"(1) [OF False refl refl _ "1.prems"] False show ?thesis by (simp add: eq Let_def)
    next
      case 2
      with "1.IH"(2) [OF False refl refl _ _ "1.prems"] False clamp_safe [OF 2(1) raw] show ?thesis
        by (auto simp: eq Let_def)
    next
      case 3
      with False show ?thesis by (simp add: eq Let_def)
    next
      case 4
      have "?raw - 1 \<le> length v" using raw by simp
      with 4 "1.IH"(3) [OF False refl refl] False show ?thesis by (simp add: eq Let_def)
    qed
  qed
qed

lemma piece_end_props:
  assumes "start < length v"
  shows "start < piece_end s q m v start" and "piece_end s q m v start \<le> length v"
    and "safe_cut v (piece_end s q m v start)"
    and "piece_fits s q m v start (piece_end s q m v start) \<or> piece_end s q m v start \<le> start + 2"
  using best_split_props [of "length v" v "piece_fits s q m v start" start "start + 1" start]
    nextSafe_props [OF assms]
  by (auto simp: piece_end_def Let_def)

subsection \<open>The pieces\<close>

function split_pieces :: "jsstr \<Rightarrow> int option \<Rightarrow> nat \<Rightarrow> jsstr \<Rightarrow> nat \<Rightarrow> jsstr list" where
  "split_pieces sessionId sequenceChars maxLineBytes v start =
     (if length v \<le> start then []
      else (let stop = piece_end sessionId sequenceChars maxLineBytes v start
            in slice v start stop # split_pieces sessionId sequenceChars maxLineBytes v stop))"
  by pat_completeness auto
termination
  by (relation "measure (\<lambda>(_, _, _, v, start). length v - start)")
    (auto simp: not_le intro!: diff_less_mono2 piece_end_props(1))

declare split_pieces.simps [simp del]

definition splitStreamDataForNdjson ::
  "jsstr \<Rightarrow> jsstr \<Rightarrow> nat \<Rightarrow> int option \<Rightarrow> jsstr list" where
  "splitStreamDataForNdjson sessionId data maxLineBytes sequenceChars =
     (if streamDataEventLineBytes sessionId data sequenceChars \<le> maxLineBytes then [data]
      else split_pieces sessionId sequenceChars maxLineBytes data 0)"

text \<open>The lines \<open>writeStreamDataEvents\<close> writes to the socket.\<close>

definition writeStreamDataEvents :: "jsstr \<Rightarrow> jsstr \<Rightarrow> nat \<Rightarrow> int option \<Rightarrow> jsstr list" where
  "writeStreamDataEvents sessionId data maxLineBytes sequenceChars =
     (let chars = (case sequenceChars of None \<Rightarrow> int (length data) | Some n \<Rightarrow> n);
          explicit = (if chars = int (length data) then None else Some chars)
      in map (\<lambda>chunk. encodeStreamDataEvent sessionId chunk explicit)
           (splitStreamDataForNdjson sessionId data maxLineBytes explicit))"

text \<open>Between two pieces that follow each other no pair is torn.\<close>

fun untorn :: "jsstr list \<Rightarrow> bool" where
  "untorn (a # b # r) = (\<not> (a \<noteq> [] \<and> b \<noteq> [] \<and> high_surrogate (last a) \<and> low_surrogate (hd b))
     \<and> untorn (b # r))"
| "untorn _ = True"

lemma slice_length: "stop \<le> length v \<Longrightarrow> length (slice v start stop) = stop - start"
  by (auto simp: slice_def)

lemma slice_drop: "start \<le> stop \<Longrightarrow> slice v start stop @ drop stop v = drop start v"
proof -
  assume "start \<le> stop"
  then have "drop stop v = drop (stop - start) (drop start v)" by simp
  then show ?thesis unfolding slice_def by (metis append_take_drop_id)
qed

lemma split_pieces_concat: "concat (split_pieces s q m v start) = drop start v"
proof (induction s q m v start rule: split_pieces.induct)
  case (1 s q m v start)
  show ?case
  proof (cases "length v \<le> start")
    case False
    with "1.IH" [OF False refl] piece_end_props(1) [of start v s q m] show ?thesis
      by (simp add: split_pieces.simps [of s q m v start] Let_def slice_drop)
  qed (simp add: split_pieces.simps [of s q m v start])
qed

lemma split_pieces_fit:
  "c \<in> set (split_pieces s q m v start) \<Longrightarrow>
   c \<noteq> [] \<and> (streamDataEventLineBytes s c q \<le> m \<or> length c \<le> 2)"
proof (induction s q m v start rule: split_pieces.induct)
  case (1 s q m v start)
  have "\<not> length v \<le> start" using "1.prems" by (auto simp: split_pieces.simps [of s q m v start])
  then have lt: "start < length v" by simp
  let ?e = "piece_end s q m v start"
  note pe = piece_end_props [OF lt, of s q m]
  from "1.prems" lt have "c = slice v start ?e \<or> c \<in> set (split_pieces s q m v ?e)"
    by (auto simp: split_pieces.simps [of s q m v start] Let_def)
  then show ?case
  proof
    assume c: "c = slice v start ?e"
    have "length c = ?e - start" unfolding c by (rule slice_length [OF pe(2)])
    with pe(1) have "c \<noteq> []" "?e \<le> start + 2 \<Longrightarrow> length c \<le> 2" by auto
    with pe(4) show ?thesis by (auto simp: c piece_fits_def)
  next
    assume "c \<in> set (split_pieces s q m v ?e)"
    with "1.IH" [OF _ refl] lt show ?thesis by simp
  qed
qed

lemma split_pieces_hd:
  assumes "start < length v"
  shows "\<exists>r. split_pieces s q m v start = slice v start (piece_end s q m v start) # r
     \<and> hd (slice v start (piece_end s q m v start)) = v ! start"
  using assms piece_end_props(1) [OF assms, of s q m]
  by (auto simp: split_pieces.simps [of s q m v start] Let_def slice_def hd_drop_conv_nth)

lemma split_pieces_untorn: "untorn (split_pieces s q m v start)"
proof (induction s q m v start rule: split_pieces.induct)
  case (1 s q m v start)
  show ?case
  proof (cases "length v \<le> start")
    case False
    then have lt: "start < length v" by simp
    let ?e = "piece_end s q m v start"
    note pe = piece_end_props [OF lt, of s q m]
    have IH: "untorn (split_pieces s q m v ?e)" by (rule "1.IH" [OF False refl])
    have eq: "split_pieces s q m v start = slice v start ?e # split_pieces s q m v ?e"
      using lt by (simp add: split_pieces.simps [of s q m v start] Let_def)
    show ?thesis
    proof (cases "?e < length v")
      case True
      obtain r where r: "split_pieces s q m v ?e = slice v ?e (piece_end s q m v ?e) # r"
          "hd (slice v ?e (piece_end s q m v ?e)) = v ! ?e"
        using split_pieces_hd [OF True] by blast
      have "last (slice v start ?e) = v ! (?e - 1)"
        using pe(1,2) slice_length [OF pe(2), of start]
        by (simp add: last_conv_nth slice_def nth_append)
      with IH r pe(1,3) True show ?thesis unfolding eq by (simp add: safe_cut_def)
    next
      case False
      then have "split_pieces s q m v ?e = []" by (simp add: split_pieces.simps [of s q m v ?e])
      then show ?thesis by (simp add: eq)
    qed
  qed (simp add: split_pieces.simps [of s q m v start])
qed

text \<open>
  Splitting loses nothing and reorders nothing: the pieces concatenate to the data; no
  cut is inside a surrogate pair; and the line of each piece is within the limit, unless the
  piece is one character, which cannot be cut.
\<close>

theorem split_stream_data:
  "concat (splitStreamDataForNdjson s v m q) = v
   \<and> untorn (splitStreamDataForNdjson s v m q)
   \<and> (\<forall>c \<in> set (splitStreamDataForNdjson s v m q).
        streamDataEventLineBytes s c q \<le> m \<or> (c \<noteq> [] \<and> length c \<le> 2))"
  using split_pieces_concat [of s q m v 0] split_pieces_untorn [of s q m v 0]
    split_pieces_fit [of _ s q m v 0]
  by (auto simp: splitStreamDataForNdjson_def)

theorem split_stream_data_witness:
  "concat (splitStreamDataForNdjson [] [97, 98] 80 None) = [97, 98]"
  using split_stream_data [of "[]" "[97, 98]" 80 None] by blast

end
