(* ===== verification/Keep_Tail.thy ===== *)
theory Keep_Tail
  imports Stream_Split "HOL-Library.AList"
begin

section \<open>Keep-tail thinning of backgrounded sessions\<close>

text \<open>
  \<open>src/src/main/daemon/daemon-stream-keep-tail-drop.ts\<close>: when a backgrounded session has
  queued more than its cap, its oldest characters are dropped and a \<open>dataGap\<close> control entry
  takes their place; what the salvage callback keeps of them (queries that await a reply) is
  queued right behind it. The batch is a queue of entries of all sessions, with the number of
  queued characters in total and per session.
\<close>

subsection \<open>State\<close>

datatype stream_control =
    Data_gap jsstr int "int option"     \<comment> \<open>sessionId, droppedChars, sequenceChars\<close>
  | Other_control json

record stream_entry =
  se_sessionId :: jsstr
  se_data :: jsstr
  se_sequenceChars :: "int option"
  se_control :: "stream_control option"

text \<open>The map by session keeps the order in which its keys were set first.\<close>

record stream_batch =
  sb_timer :: bool
  sb_queue :: "stream_entry list"
  sb_queuedChars :: int
  sb_bySession :: "(jsstr \<times> int) list"
  sb_lastDroppable :: "nat option"

definition held_chars :: "stream_batch \<Rightarrow> jsstr \<Rightarrow> int" where
  "held_chars batch sid = (case map_of (sb_bySession batch) sid of None \<Rightarrow> 0 | Some n \<Rightarrow> n)"

definition add_held :: "jsstr \<Rightarrow> int \<Rightarrow> stream_batch \<Rightarrow> stream_batch" where
  "add_held sid n batch =
     batch\<lparr>sb_bySession := AList.update sid (held_chars batch sid + n) (sb_bySession batch)\<rparr>"

definition BACKGROUND_SESSION_KEEP_TAIL_CHARS :: nat where
  "BACKGROUND_SESSION_KEEP_TAIL_CHARS = 512 * 1024"

definition BACKGROUND_SESSION_MIN_KEEP_TAIL_CHARS :: nat where
  "BACKGROUND_SESSION_MIN_KEEP_TAIL_CHARS = 64 * 1024"

definition BACKGROUND_GLOBAL_KEEP_BUDGET_CHARS :: nat where
  "BACKGROUND_GLOBAL_KEEP_BUDGET_CHARS = 2 * 1024 * 1024"

definition DROPPED_QUERY_SALVAGE_MAX_CHARS :: nat where
  "DROPPED_QUERY_SALVAGE_MAX_CHARS = 4096"

definition backgroundSessionKeepTailChars :: "nat \<Rightarrow> nat" where
  "backgroundSessionKeepTailChars sessions =
     min BACKGROUND_SESSION_KEEP_TAIL_CHARS
       (max BACKGROUND_SESSION_MIN_KEEP_TAIL_CHARS
          (BACKGROUND_GLOBAL_KEEP_BUDGET_CHARS div max 1 sessions))"

definition backgroundSessionDropCapChars :: "nat \<Rightarrow> nat" where
  "backgroundSessionDropCapChars sessions = backgroundSessionKeepTailChars sessions * 2"

subsection \<open>The loop\<close>

text \<open>What the loop has found: characters still to drop, positions of the source stream that
  were dropped, the salvage, the index of the last gap entry seen, the index of the first
  entry that lost data.\<close>

record drop_state =
  dp_toDrop :: nat
  dp_sequence :: int
  dp_salvaged :: jsstr
  dp_gap :: "nat option"
  dp_insertAt :: "nat option"

definition sequence_of :: "stream_entry \<Rightarrow> int" where
  "sequence_of entry = (case se_sequenceChars entry of
     None \<Rightarrow> int (length (se_data entry)) | Some n \<Rightarrow> n)"

definition salvageIntoCap :: "(jsstr \<Rightarrow> jsstr) \<Rightarrow> jsstr \<Rightarrow> jsstr \<Rightarrow> jsstr" where
  "salvageIntoCap salvage salvaged dropped =
     (if DROPPED_QUERY_SALVAGE_MAX_CHARS \<le> length salvaged then salvaged
      else take DROPPED_QUERY_SALVAGE_MAX_CHARS (salvaged @ salvage dropped))"

definition first_index :: "nat option \<Rightarrow> nat \<Rightarrow> nat option" where
  "first_index at i = (case at of None \<Rightarrow> Some i | Some j \<Rightarrow> Some j)"

text \<open>An entry that is dropped whole.\<close>

definition drop_entry :: "(jsstr \<Rightarrow> jsstr) \<Rightarrow> nat \<Rightarrow> stream_entry \<Rightarrow> drop_state \<Rightarrow> drop_state" where
  "drop_entry salvage i entry st =
     st\<lparr>dp_toDrop := dp_toDrop st - length (se_data entry),
        dp_sequence := dp_sequence st + sequence_of entry,
        dp_salvaged := salvageIntoCap salvage (dp_salvaged st) (se_data entry),
        dp_insertAt := first_index (dp_insertAt st) i\<rparr>"

text \<open>What taking \<open>n\<close> characters from the front of an entry leaves of it, and the positions
  they stand for: none in an entry that stands for none.\<close>

definition taken_sequence :: "stream_entry \<Rightarrow> nat \<Rightarrow> int" where
  "taken_sequence entry n = (if sequence_of entry = 0 then 0 else int n)"

definition entry_rest :: "stream_entry \<Rightarrow> nat \<Rightarrow> stream_entry" where
  "entry_rest entry n =
     (let remaining = sequence_of entry - taken_sequence entry n; rest = drop n (se_data entry)
      in entry\<lparr>se_data := rest,
               se_sequenceChars := (if remaining = int (length rest) then None else Some remaining)\<rparr>)"

text \<open>The entry in which the dropping ends.\<close>

definition cut_entry ::
  "(jsstr \<Rightarrow> jsstr) \<Rightarrow> nat \<Rightarrow> stream_entry \<Rightarrow> drop_state \<Rightarrow> stream_entry \<times> drop_state" where
  "cut_entry salvage i entry st =
     (let cut = clampToSafeSplitIndex (se_data entry) 0 (dp_toDrop st)
      in if cut = 0 then (entry, st\<lparr>dp_toDrop := 0\<rparr>)
         else (entry_rest entry cut,
               st\<lparr>dp_toDrop := 0, dp_sequence := dp_sequence st + taken_sequence entry cut,
                  dp_salvaged := salvageIntoCap salvage (dp_salvaged st)
                                   (take cut (se_data entry)),
                  dp_insertAt := first_index (dp_insertAt st) i\<rparr>))"

fun drop_loop ::
  "(jsstr \<Rightarrow> jsstr) \<Rightarrow> jsstr \<Rightarrow> stream_entry list \<Rightarrow> stream_entry list \<Rightarrow> drop_state
    \<Rightarrow> stream_entry list \<times> drop_state" where
  "drop_loop salvage sid pre [] st = (pre, st)"
| "drop_loop salvage sid pre (entry # rest) st =
     (if dp_toDrop st = 0 then (pre @ entry # rest, st)
      else if se_sessionId entry \<noteq> sid then drop_loop salvage sid (pre @ [entry]) rest st
      else (case se_control entry of
              Some (Data_gap _ _ _) \<Rightarrow>
                drop_loop salvage sid (pre @ [entry]) rest (st\<lparr>dp_gap := Some (length pre)\<rparr>)
            | Some (Other_control _) \<Rightarrow> drop_loop salvage sid (pre @ [entry]) rest st
            | None \<Rightarrow>
                if length (se_data entry) \<le> dp_toDrop st
                then drop_loop salvage sid pre rest (drop_entry salvage (length pre) entry st)
                else (case cut_entry salvage (length pre) entry st of
                        (entry', st') \<Rightarrow> drop_loop salvage sid (pre @ [entry']) rest st')))"

subsection \<open>Dropping\<close>

definition insert_at :: "nat \<Rightarrow> stream_entry \<Rightarrow> stream_entry list \<Rightarrow> stream_entry list" where
  "insert_at i entry q = take i q @ entry # drop i q"

definition grow_gap :: "int \<Rightarrow> int \<Rightarrow> stream_entry \<Rightarrow> stream_entry" where
  "grow_gap dropped sequence entry = (case se_control entry of
     Some (Data_gap sid d s) \<Rightarrow>
       entry\<lparr>se_control := Some (Data_gap sid (d + dropped)
               (Some ((case s of None \<Rightarrow> d | Some n \<Rightarrow> n) + sequence)))\<rparr>
   | _ \<Rightarrow> entry)"

definition gap_entry :: "jsstr \<Rightarrow> int \<Rightarrow> int \<Rightarrow> stream_entry" where
  "gap_entry sid dropped sequence = \<lparr>se_sessionId = sid, se_data = [], se_sequenceChars = None,
     se_control = Some (Data_gap sid dropped (Some sequence))\<rparr>"

definition salvage_entry :: "jsstr \<Rightarrow> jsstr \<Rightarrow> stream_entry" where
  "salvage_entry sid salvaged = \<lparr>se_sessionId = sid, se_data = salvaged,
     se_sequenceChars = Some 0, se_control = None\<rparr>"

text \<open>The gap is recorded, in the last one seen or in a new entry where the first data was
  lost; with the index right behind it.\<close>

definition record_gap ::
  "jsstr \<Rightarrow> int \<Rightarrow> drop_state \<Rightarrow> stream_entry list \<Rightarrow> stream_entry list \<times> nat" where
  "record_gap sid dropped st q = (case dp_gap st of
     Some g \<Rightarrow> (q[g := grow_gap dropped (dp_sequence st) (q ! g)], g + 1)
   | None \<Rightarrow> (let at = (case dp_insertAt st of None \<Rightarrow> 0 | Some i \<Rightarrow> i)
             in (insert_at at (gap_entry sid dropped (dp_sequence st)) q, at + 1)))"

definition start_drop :: "int \<Rightarrow> drop_state" where
  "start_drop excess = \<lparr>dp_toDrop = nat excess, dp_sequence = 0, dp_salvaged = [], dp_gap = None,
     dp_insertAt = None\<rparr>"

definition dropOldestQueuedForSession ::
  "stream_batch \<Rightarrow> jsstr \<Rightarrow> nat \<Rightarrow> (jsstr \<Rightarrow> jsstr) \<Rightarrow> stream_batch" where
  "dropOldestQueuedForSession batch sid keepTailChars salvage =
     (let excess = held_chars batch sid - int keepTailChars
      in if excess \<le> 0 then batch
         else (case drop_loop salvage sid [] (sb_queue batch) (start_drop excess) of (q, st) \<Rightarrow>
           (let dropped = excess - int (dp_toDrop st)
            in if dropped \<le> 0 then batch\<lparr>sb_queue := q\<rparr>
               else (case record_gap sid dropped st q of (q1, salvageAt) \<Rightarrow>
                 (let batch1 = batch\<lparr>sb_queue := q1, sb_queuedChars := sb_queuedChars batch - dropped,
                        sb_bySession := AList.update sid (max 0 (held_chars batch sid - dropped))
                                          (sb_bySession batch)\<rparr>;
                      salvaged = dp_salvaged st
                  in if salvaged = [] then batch1
                     else add_held sid (int (length salvaged))
                       (batch1\<lparr>sb_queue := insert_at salvageAt (salvage_entry sid salvaged) q1,
                         sb_queuedChars := sb_queuedChars batch1 + int (length salvaged)\<rparr>))))))"

subsection \<open>What is queued for a session\<close>

definition data_of :: "jsstr \<Rightarrow> stream_entry list \<Rightarrow> jsstr" where
  "data_of sid q =
     concat (map se_data (filter (\<lambda>e. se_sessionId e = sid \<and> se_control e = None) q))"

text \<open>The entries that thinning a session must leave alone: those of other sessions, and its
  own control entries other than gaps.\<close>

definition untouchable :: "jsstr \<Rightarrow> stream_entry \<Rightarrow> bool" where
  "untouchable sid e = (se_sessionId e \<noteq> sid
     \<or> (case se_control e of Some (Other_control _) \<Rightarrow> True | _ \<Rightarrow> False))"

definition others_of :: "jsstr \<Rightarrow> stream_entry list \<Rightarrow> stream_entry list" where
  "others_of sid q = filter (untouchable sid) q"

text \<open>The positions of the source stream an entry stands for: those of its data, or those
  its gap declares as lost.\<close>

definition entry_positions :: "stream_entry \<Rightarrow> int" where
  "entry_positions entry = (case se_control entry of
     None \<Rightarrow> sequence_of entry
   | Some (Data_gap _ d s) \<Rightarrow> (case s of None \<Rightarrow> d | Some n \<Rightarrow> n)
   | Some (Other_control _) \<Rightarrow> 0)"

definition positions_of :: "jsstr \<Rightarrow> stream_entry list \<Rightarrow> int" where
  "positions_of sid q = sum_list (map entry_positions (filter (\<lambda>e. se_sessionId e = sid) q))"

named_theorems queued

lemma data_of_simps [queued]:
  "data_of sid [] = []"
  "data_of sid (e # q) = (if se_sessionId e = sid \<and> se_control e = None then se_data e else [])
     @ data_of sid q"
  "data_of sid (p @ q) = data_of sid p @ data_of sid q"
  by (auto simp: data_of_def)

lemma others_of_simps [queued]:
  "others_of sid [] = []"
  "others_of sid (e # q) = (if untouchable sid e then e # others_of sid q else others_of sid q)"
  "others_of sid (p @ q) = others_of sid p @ others_of sid q"
  by (auto simp: others_of_def)

lemma positions_of_simps [queued]:
  "positions_of sid [] = 0"
  "positions_of sid (e # q) = (if se_sessionId e = sid then entry_positions e else 0)
     + positions_of sid q"
  "positions_of sid (p @ q) = positions_of sid p + positions_of sid q"
  by (auto simp: positions_of_def)

text \<open>The newest data of the session stands for as many positions as it has characters; so
  that data can be appended to its entry.\<close>

definition data_entries :: "jsstr \<Rightarrow> stream_entry list \<Rightarrow> stream_entry list" where
  "data_entries sid q = filter (\<lambda>e. se_sessionId e = sid \<and> se_control e = None) q"

definition plain_tail :: "jsstr \<Rightarrow> stream_entry list \<Rightarrow> bool" where
  "plain_tail sid q = (data_entries sid q = [] \<or> se_sequenceChars (last (data_entries sid q)) = None)"

lemma data_entries_simps [queued]:
  "data_entries sid [] = []"
  "data_entries sid (e # q) = (if se_sessionId e = sid \<and> se_control e = None
     then e # data_entries sid q else data_entries sid q)"
  "data_entries sid (p @ q) = data_entries sid p @ data_entries sid q"
  by (auto simp: data_entries_def)

lemma data_entries_nonempty: "data_of sid q \<noteq> [] \<Longrightarrow> data_entries sid q \<noteq> []"
  by (auto simp: data_of_def data_entries_def filter_empty_conv)

lemma plain_tail_append:
  "data_entries sid r \<noteq> [] \<Longrightarrow> plain_tail sid (p @ r) = plain_tail sid r"
  by (simp add: plain_tail_def data_entries_simps)

lemma plain_tail_data:
  "n < length (data_of sid r) \<Longrightarrow> plain_tail sid (p @ r) = plain_tail sid r"
  by (rule plain_tail_append, rule data_entries_nonempty) auto

lemma plain_tail_data_Cons:
  "n < length (data_of sid r) \<Longrightarrow> plain_tail sid (p @ e # r) = plain_tail sid r"
  using plain_tail_data [of n sid r "p @ [e]"] by simp

lemma salvage_bounded:
  "length salvaged \<le> DROPPED_QUERY_SALVAGE_MAX_CHARS \<Longrightarrow>
   length (salvageIntoCap salvage salvaged dropped) \<le> DROPPED_QUERY_SALVAGE_MAX_CHARS"
  by (auto simp: salvageIntoCap_def min_def)

lemma clamp_start:
  "clampToSafeSplitIndex v 0 n = n \<or> (0 < n \<and> clampToSafeSplitIndex v 0 n = n - 1)"
  by (auto simp: clampToSafeSplitIndex_def)

subsection \<open>The loop drops from the front\<close>

definition gap_at :: "jsstr \<Rightarrow> stream_entry \<Rightarrow> bool" where
  "gap_at sid e = (se_sessionId e = sid
     \<and> (case se_control e of Some (Data_gap _ _ _) \<Rightarrow> True | _ \<Rightarrow> False))"

text \<open>What holds of the part of the queue that was passed: none of the session's data is left
  in it, and the indices found point into it.\<close>

definition drop_ok :: "jsstr \<Rightarrow> stream_entry list \<Rightarrow> drop_state \<Rightarrow> bool" where
  "drop_ok sid pre st = (data_of sid pre = []
     \<and> (case dp_gap st of None \<Rightarrow> True | Some g \<Rightarrow> g < length pre \<and> gap_at sid (pre ! g))
     \<and> (case dp_insertAt st of None \<Rightarrow> True | Some i \<Rightarrow> i \<le> length pre)
     \<and> length (dp_salvaged st) \<le> DROPPED_QUERY_SALVAGE_MAX_CHARS)"

lemma drop_ok_step:
  assumes "drop_ok sid pre st" and "data_of sid [e] = []"
  shows "drop_ok sid (pre @ [e]) st"
    and "gap_at sid e \<Longrightarrow> drop_ok sid (pre @ [e]) (st\<lparr>dp_gap := Some (length pre)\<rparr>)"
  using assms by (auto simp: drop_ok_def data_of_simps nth_append split: option.splits)

lemma drop_ok_entry: "drop_ok sid pre st \<Longrightarrow> drop_ok sid pre (drop_entry salvage (length pre) e st)"
  by (auto simp: drop_ok_def drop_entry_def first_index_def salvage_bounded split: option.splits)

lemma drop_ok_cut:
  "drop_ok sid pre st \<Longrightarrow> drop_ok sid pre (snd (cut_entry salvage (length pre) e st))"
proof -
  assume ok: "drop_ok sid pre st"
  have "dp_gap (snd (cut_entry salvage (length pre) e st)) = dp_gap st"
    "dp_insertAt (snd (cut_entry salvage (length pre) e st)) \<in> {dp_insertAt st, first_index (dp_insertAt st) (length pre)}"
    "dp_salvaged (snd (cut_entry salvage (length pre) e st)) = dp_salvaged st \<or>
     (\<exists>v. dp_salvaged (snd (cut_entry salvage (length pre) e st)) = salvageIntoCap salvage (dp_salvaged st) v)"
    by (auto simp: cut_entry_def Let_def)
  with ok show ?thesis
    by (auto simp: drop_ok_def first_index_def salvage_bounded split: option.splits)
qed

lemma entry_rest_fields [simp]:
  "se_sessionId (entry_rest e n) = se_sessionId e" "se_control (entry_rest e n) = se_control e"
  "se_data (entry_rest e n) = drop n (se_data e)"
  by (simp_all add: entry_rest_def Let_def)

lemma entry_rest_sequence: "sequence_of (entry_rest e n) = sequence_of e - taken_sequence e n"
  by (simp add: sequence_of_def [of "entry_rest e n"]) (simp add: entry_rest_def Let_def)

lemma entry_rest_plain:
  "se_sequenceChars e = None \<Longrightarrow> n \<le> length (se_data e) \<Longrightarrow> se_sequenceChars (entry_rest e n) = None"
  by (auto simp: entry_rest_def Let_def sequence_of_def taken_sequence_def of_nat_diff)

lemma plain_tail_replace:
  "plain_tail sid (e # rest) \<Longrightarrow> se_sessionId e' = se_sessionId e \<Longrightarrow>
   se_control e = None \<Longrightarrow> se_control e' = None \<Longrightarrow>
   (se_sequenceChars e = None \<Longrightarrow> se_sequenceChars e' = None) \<Longrightarrow> plain_tail sid (e' # rest)"
  by (auto simp: plain_tail_def queued split: if_splits)

lemma cut_entry_props:
  assumes "se_control e = None" and "0 < dp_toDrop st" and "dp_toDrop st < length (se_data e)"
    and "cut_entry salvage i e st = (e', st')"
  shows "dp_toDrop st' = 0" and "se_sessionId e' = se_sessionId e" and "se_control e' = None"
    and "\<exists>k. (k = dp_toDrop st \<or> k + 1 = dp_toDrop st) \<and> se_data e' = drop k (se_data e)"
    and "sequence_of e' + dp_sequence st' = sequence_of e + dp_sequence st"
    and "se_sequenceChars e = None \<Longrightarrow> se_sequenceChars e' = None"
proof -
  let ?cut = "clampToSafeSplitIndex (se_data e) 0 (dp_toDrop st)"
  have cut: "?cut = dp_toDrop st \<or> ?cut + 1 = dp_toDrop st"
    using clamp_start [of "se_data e" "dp_toDrop st"] by linarith
  have *: "dp_toDrop st' = 0 \<and> se_sessionId e' = se_sessionId e \<and> se_control e' = se_control e
      \<and> se_data e' = drop ?cut (se_data e)
      \<and> sequence_of e' + dp_sequence st' = sequence_of e + dp_sequence st"
    using assms(4) by (cases "?cut = 0") (auto simp: cut_entry_def Let_def entry_rest_sequence)
  show "se_sequenceChars e' = None" if "se_sequenceChars e = None"
    using assms(3,4) cut entry_rest_plain [OF that, of ?cut] that
    by (cases "?cut = 0") (auto simp: cut_entry_def Let_def)
  from * show "dp_toDrop st' = 0" "se_sessionId e' = se_sessionId e"
    "sequence_of e' + dp_sequence st' = sequence_of e + dp_sequence st" by simp_all
  from * assms(1) show "se_control e' = None" by simp
  from * cut show "\<exists>k. (k = dp_toDrop st \<or> k + 1 = dp_toDrop st) \<and> se_data e' = drop k (se_data e)"
    by auto
qed

text \<open>What the loop leaves: a front part without data of the session, and behind it the queue
  with \<open>k\<close> of its characters gone.\<close>

definition dropped_front ::
  "jsstr \<Rightarrow> stream_entry list \<Rightarrow> drop_state \<Rightarrow> nat \<Rightarrow> stream_entry list \<Rightarrow> drop_state \<Rightarrow> bool" where
  "dropped_front sid q st k q' st' = (\<exists>p r. q' = p @ r \<and> drop_ok sid p st'
     \<and> data_of sid r = drop k (data_of sid q)
     \<and> others_of sid q' = others_of sid q
     \<and> positions_of sid q' + dp_sequence st' = positions_of sid q + dp_sequence st
     \<and> (k < length (data_of sid q) \<and> plain_tail sid q \<longrightarrow> plain_tail sid r))"

lemma dropped_front_here:
  assumes "drop_ok sid pre st'" and "data_of sid r = drop k (data_of sid es)"
    and "others_of sid r = others_of sid es"
    and "positions_of sid r + dp_sequence st' = positions_of sid es + dp_sequence st"
    and "k < length (data_of sid es) \<Longrightarrow> plain_tail sid es \<Longrightarrow> plain_tail sid r"
  shows "dropped_front sid (pre @ es) st k (pre @ r) st'"
proof -
  have pre: "data_of sid pre = []" using assms(1) by (simp add: drop_ok_def)
  have "plain_tail sid r" if "k < length (data_of sid (pre @ es))" "plain_tail sid (pre @ es)"
  proof -
    have "k < length (data_of sid es)" using that(1) pre by (simp add: queued)
    moreover from this have "plain_tail sid es"
      using that(2) plain_tail_data [of k sid es pre] by simp
    ultimately show ?thesis by (rule assms(5))
  qed
  with assms(1-4) pre show ?thesis
    unfolding dropped_front_def by (intro exI [of _ pre] exI [of _ r]) (simp add: queued)
qed

lemma dropped_front_mono:
  assumes "dropped_front sid q1 st1 k q' st'" and "drop k (data_of sid q1) = drop k' (data_of sid q)"
    and "others_of sid q1 = others_of sid q"
    and "positions_of sid q1 + dp_sequence st1 = positions_of sid q + dp_sequence st"
    and "k' < length (data_of sid q) \<Longrightarrow> plain_tail sid q \<Longrightarrow>
      k < length (data_of sid q1) \<and> plain_tail sid q1"
  shows "dropped_front sid q st k' q' st'"
  using assms by (auto simp: dropped_front_def)

lemma drop_loop_front:
  assumes "drop_ok sid pre st" and "dp_toDrop st \<le> length (data_of sid es)"
    and "drop_loop salvage sid pre es st = (q', st')"
  shows "dp_toDrop st' = 0 \<and> (\<exists>k. (k = dp_toDrop st \<or> k + 1 = dp_toDrop st)
     \<and> dropped_front sid (pre @ es) st k q' st')"
  using assms
proof (induction salvage sid pre es st rule: drop_loop.induct)
  case (1 salvage sid pre st)
  then show ?case using dropped_front_here [of sid pre st "[]" 0 "[]"] by (auto simp: queued)
next
  case (2 salvage sid pre e rest st)
  have pre: "data_of sid pre = []" using "2.prems"(1) by (simp add: drop_ok_def)
  consider (stop) "dp_toDrop st = 0"
    | (other) "0 < dp_toDrop st" "se_sessionId e \<noteq> sid"
    | (gap) g d s where "0 < dp_toDrop st" "se_sessionId e = sid" "se_control e = Some (Data_gap g d s)"
    | (event) j where "0 < dp_toDrop st" "se_sessionId e = sid" "se_control e = Some (Other_control j)"
    | (whole) "0 < dp_toDrop st" "se_sessionId e = sid" "se_control e = None"
        "length (se_data e) \<le> dp_toDrop st"
    | (part) "0 < dp_toDrop st" "se_sessionId e = sid" "se_control e = None"
        "dp_toDrop st < length (se_data e)"
    by (cases "se_control e") (metis not_gr_zero not_le stream_control.exhaust)+
  then show ?case
  proof cases
    case stop
    with "2.prems" dropped_front_here [OF "2.prems"(1), of "e # rest" 0 "e # rest"] show ?thesis by auto
  next
    case other
    have e: "data_of sid [e] = []" using other by (simp add: data_of_simps)
    show ?thesis
      using "2.IH"(1) [OF _ other(2)] drop_ok_step(1) [OF "2.prems"(1) e] "2.prems" other
      by (simp add: data_of_simps)
  next
    case gap
    have e: "data_of sid [e] = []" "gap_at sid e" using gap by (simp_all add: data_of_simps gap_at_def)
    show ?thesis
      using "2.IH"(4) [OF _ _ gap(3) refl] drop_ok_step(2) [OF "2.prems"(1) e] "2.prems" gap
      by (auto simp: data_of_simps dropped_front_def)
  next
    case event
    have e: "data_of sid [e] = []" using event by (simp add: data_of_simps)
    show ?thesis
      using "2.IH"(5) [OF _ _ event(3) refl] drop_ok_step(1) [OF "2.prems"(1) e] "2.prems" event
      by (simp add: data_of_simps)
  next
    case whole
    let ?st = "drop_entry salvage (length pre) e st"
    have d: "data_of sid (e # rest) = se_data e @ data_of sid rest" using whole by (simp add: queued)
    have td: "dp_toDrop ?st = dp_toDrop st - length (se_data e)" by (simp add: drop_entry_def)
    have "dp_toDrop ?st \<le> length (data_of sid rest)" using "2.prems"(2) d td by simp
    moreover have "drop_loop salvage sid pre rest ?st = (q', st')"
      using "2.prems"(3) whole by simp
    ultimately obtain k where k: "dp_toDrop st' = 0" "k = dp_toDrop ?st \<or> k + 1 = dp_toDrop ?st"
        "dropped_front sid (pre @ rest) ?st k q' st'"
      using "2.IH"(2) [OF _ _ whole(3,4) drop_ok_entry [OF "2.prems"(1)]] whole by auto
    have "dropped_front sid (pre @ e # rest) st (k + length (se_data e)) q' st'"
      by (rule dropped_front_mono [OF k(3)])
        (use whole pre in \<open>auto simp: queued untouchable_def entry_positions_def drop_entry_def
            plain_tail_data plain_tail_data_Cons\<close>)
    with k(1,2) td whole(4) show ?thesis
      by (intro conjI exI [of _ "k + length (se_data e)"]) auto
  next
    case part
    obtain e' st1 where c: "cut_entry salvage (length pre) e st = (e', st1)" by fastforce
    note cp = cut_entry_props [OF part(3,1,4) c]
    obtain k where k: "k = dp_toDrop st \<or> k + 1 = dp_toDrop st" "se_data e' = drop k (se_data e)"
      using cp(4) by blast
    have ok: "drop_ok sid pre st1" using drop_ok_cut [OF "2.prems"(1), of salvage e] c by simp
    have "drop_loop salvage sid (pre @ [e']) rest st1 = (pre @ e' # rest, st1)"
      using cp(1) by (cases rest) simp_all
    then have "q' = pre @ e' # rest" "st' = st1" using "2.prems"(3) part c by simp_all
    moreover have "dropped_front sid (pre @ e # rest) st k (pre @ e' # rest) st1"
      by (rule dropped_front_here [OF ok])
        (use part cp(2,3,5,6) k part(4) in \<open>auto simp: queued untouchable_def entry_positions_def
            intro: plain_tail_replace\<close>)
    ultimately show ?thesis using cp(1) k(1) by blast
  qed
qed

subsection \<open>The gap and the salvage\<close>

lemma insert_at_append: "i \<le> length p \<Longrightarrow> insert_at i e (p @ r) = insert_at i e p @ r"
  by (simp add: insert_at_def)

lemma insert_at_queued [queued]:
  assumes "i \<le> length p"
  shows "others_of sid (insert_at i e p) =
      others_of sid (take i p) @ others_of sid [e] @ others_of sid (drop i p)"
    and "positions_of sid (insert_at i e p) = positions_of sid p + positions_of sid [e]"
    and "data_of sid p = [] \<Longrightarrow> data_of sid (insert_at i e p) = data_of sid [e]"
    and "length (insert_at i e p) = Suc (length p)"
proof -
  have p: "p = take i p @ drop i p" by simp
  show "others_of sid (insert_at i e p) =
      others_of sid (take i p) @ others_of sid [e] @ others_of sid (drop i p)"
    by (simp add: insert_at_def queued)
  show "positions_of sid (insert_at i e p) = positions_of sid p + positions_of sid [e]"
    by (subst (2) p) (simp add: insert_at_def queued del: append_take_drop_id)
  show "data_of sid (insert_at i e p) = data_of sid [e]" if "data_of sid p = []"
  proof -
    have "data_of sid (take i p) = []" "data_of sid (drop i p) = []"
      using that p data_of_simps(3) [of sid "take i p" "drop i p"] by auto
    then show ?thesis by (simp add: insert_at_def queued)
  qed
  show "length (insert_at i e p) = Suc (length p)" using assms by (simp add: insert_at_def)
qed

lemma others_of_insert:
  assumes "i \<le> length p" and "\<not> untouchable sid e"
  shows "others_of sid (insert_at i e p) = others_of sid p"
  using assms insert_at_queued(1) [OF assms(1)] others_of_simps(3) [of sid "take i p" "drop i p"]
  by (simp add: others_of_simps)

lemma queued_update:
  assumes "g < length p" and "gap_at sid (p ! g)" and "gap_at sid e"
  shows "data_of sid (p[g := e]) = data_of sid p" and "others_of sid (p[g := e]) = others_of sid p"
    and "positions_of sid (p[g := e]) = positions_of sid p + entry_positions e - entry_positions (p ! g)"
proof -
  have p: "p = take g p @ p ! g # drop (Suc g) p" using assms(1) by (rule id_take_nth_drop)
  have u: "p[g := e] = take g p @ e # drop (Suc g) p" using assms(1) by (rule upd_conv_take_nth_drop)
  have ne: "se_control (p ! g) \<noteq> None" "se_control e \<noteq> None" "\<not> untouchable sid (p ! g)"
    "\<not> untouchable sid e" "se_sessionId (p ! g) = sid" "se_sessionId e = sid"
    using assms(2,3) by (auto simp: gap_at_def untouchable_def split: option.splits stream_control.splits)
  show "data_of sid (p[g := e]) = data_of sid p"
    unfolding u using arg_cong [OF p, of "data_of sid"] ne by (auto simp: data_of_simps)
  show "others_of sid (p[g := e]) = others_of sid p"
    unfolding u using arg_cong [OF p, of "others_of sid"] ne by (auto simp: others_of_simps)
  show "positions_of sid (p[g := e]) = positions_of sid p + entry_positions e - entry_positions (p ! g)"
    unfolding u using arg_cong [OF p, of "positions_of sid"] ne by (auto simp: positions_of_simps)
qed

lemma record_gap_front:
  assumes "drop_ok sid p st" and "record_gap sid d st (p @ r) = (q, at)"
  shows "\<exists>p'. q = p' @ r \<and> at \<le> length p' \<and> data_of sid p' = [] \<and> others_of sid p' = others_of sid p
    \<and> positions_of sid p' = positions_of sid p + dp_sequence st"
proof (cases "dp_gap st")
  case (Some g)
  then have g: "g < length p" "gap_at sid (p ! g)" using assms(1) by (auto simp: drop_ok_def)
  let ?e = "grow_gap d (dp_sequence st) (p ! g)"
  have e: "gap_at sid ?e" "entry_positions ?e = entry_positions (p ! g) + dp_sequence st"
    using g(2) by (auto simp: gap_at_def grow_gap_def entry_positions_def split: option.splits
        stream_control.splits)
  have "q = p[g := ?e] @ r" "at = g + 1"
    using assms(2) Some g(1) by (auto simp: record_gap_def nth_append list_update_append)
  with g e queued_update [OF g e(1)] assms(1) show ?thesis
    by (intro exI [of _ "p[g := ?e]"]) (auto simp: drop_ok_def)
next
  case None
  define i where "i = (case dp_insertAt st of None \<Rightarrow> 0 | Some i \<Rightarrow> i)"
  have i: "i \<le> length p" using assms(1) by (auto simp: drop_ok_def i_def split: option.splits)
  let ?e = "gap_entry sid d (dp_sequence st)"
  have "q = insert_at i ?e p @ r" "at = i + 1"
    using assms(2) None i by (auto simp: record_gap_def i_def Let_def insert_at_append)
  moreover have "\<not> untouchable sid ?e" by (simp add: untouchable_def gap_entry_def)
  ultimately show ?thesis
    using insert_at_queued(2,3) [OF i, of sid ?e] insert_at_queued(4) [OF i, of ?e]
      others_of_insert [OF i, of sid ?e] i assms(1)
    by (intro exI [of _ "insert_at i ?e p"])
      (auto simp: drop_ok_def data_of_simps positions_of_simps gap_entry_def entry_positions_def)
qed

subsection \<open>Dropping keeps the tail\<close>

definition salvaged_tail ::
  "stream_batch \<Rightarrow> jsstr \<Rightarrow> nat \<Rightarrow> stream_batch \<Rightarrow> jsstr \<Rightarrow> nat \<Rightarrow> bool" where
  "salvaged_tail b sid keep b' salvaged k =
     (data_of sid (sb_queue b') = salvaged @ drop k (data_of sid (sb_queue b))
      \<and> length salvaged \<le> DROPPED_QUERY_SALVAGE_MAX_CHARS
      \<and> (int k = held_chars b sid - int keep \<or> int k + 1 = held_chars b sid - int keep)
      \<and> held_chars b' sid = int keep + int (length salvaged)
      \<and> sb_queuedChars b' = sb_queuedChars b - (held_chars b sid - int keep) + int (length salvaged))"

lemma held_chars_update:
  "held_chars (b\<lparr>sb_bySession := AList.update sid n m\<rparr>) s =
     (if s = sid then n else held_chars (b\<lparr>sb_bySession := m\<rparr>) s)"
  by (simp add: held_chars_def update_conv')

lemma held_add_held: "held_chars (add_held sid n b) s = held_chars b s + (if s = sid then n else 0)"
  by (simp add: add_held_def held_chars_update)

lemma held_chars_fields [simp]:
  "held_chars (b\<lparr>sb_queue := q\<rparr>) s = held_chars b s"
  "held_chars (b\<lparr>sb_queuedChars := n\<rparr>) s = held_chars b s"
  "held_chars (b\<lparr>sb_timer := t\<rparr>) s = held_chars b s"
  "held_chars (b\<lparr>sb_lastDroppable := l\<rparr>) s = held_chars b s"
  "held_chars (b\<lparr>sb_queue := q, sb_queuedChars := n, sb_bySession := m\<rparr>) s =
     held_chars (b\<lparr>sb_bySession := m\<rparr>) s"
  by (simp_all add: held_chars_def)

lemma add_held_fields [simp]:
  "sb_queue (add_held sid n b) = sb_queue b" "sb_queuedChars (add_held sid n b) = sb_queuedChars b"
  "sb_timer (add_held sid n b) = sb_timer b" "sb_lastDroppable (add_held sid n b) = sb_lastDroppable b"
  by (simp_all add: add_held_def)

lemma salvaging:
  assumes "data_of sid p = []" and "at \<le> length p"
  shows "data_of sid (insert_at at (salvage_entry sid v) (p @ r)) = v @ data_of sid r"
    and "others_of sid (insert_at at (salvage_entry sid v) (p @ r)) = others_of sid (p @ r)"
    and "positions_of sid (insert_at at (salvage_entry sid v) (p @ r)) = positions_of sid (p @ r)"
proof -
  let ?e = "salvage_entry sid v"
  have e: "data_of sid [?e] = v" "positions_of sid [?e] = 0" "\<not> untouchable sid ?e"
    by (simp_all add: salvage_entry_def queued untouchable_def entry_positions_def sequence_of_def)
  show "data_of sid (insert_at at ?e (p @ r)) = v @ data_of sid r"
    unfolding insert_at_append [OF assms(2)] data_of_simps(3)
    by (simp add: insert_at_queued(3) [OF assms(2,1)] e)
  show "others_of sid (insert_at at ?e (p @ r)) = others_of sid (p @ r)"
    by (rule others_of_insert) (use assms e in auto)
  show "positions_of sid (insert_at at ?e (p @ r)) = positions_of sid (p @ r)"
    using insert_at_queued(2) [of at "p @ r" sid ?e] assms(2) e by simp
qed

lemma drop_oldest:
  assumes "int keep < held_chars b sid" and "held_chars b sid \<le> int (length (data_of sid (sb_queue b)))"
    and b'_def: "b' = dropOldestQueuedForSession b sid keep salvage"
  shows "\<exists>salvaged k. salvaged_tail b sid keep b' salvaged k"
    and "others_of sid (sb_queue b') = others_of sid (sb_queue b)"
    and "positions_of sid (sb_queue b') = positions_of sid (sb_queue b)"
    and "s \<noteq> sid \<Longrightarrow> held_chars b' s = held_chars b s"
    and "0 < keep \<Longrightarrow> plain_tail sid (sb_queue b) \<Longrightarrow> plain_tail sid (sb_queue b')"
proof -
  let ?x = "held_chars b sid - int keep"
  obtain q st where l: "drop_loop salvage sid [] (sb_queue b) (start_drop ?x) = (q, st)" by fastforce
  have ok: "drop_ok sid [] (start_drop ?x)" by (simp add: drop_ok_def start_drop_def queued)
  have n: "dp_toDrop (start_drop ?x) = nat ?x" "dp_sequence (start_drop ?x) = 0"
    by (simp_all add: start_drop_def)
  have le: "nat ?x \<le> length (data_of sid (sb_queue b))" using assms(2) by linarith
  obtain k where k: "dp_toDrop st = 0" "k = nat ?x \<or> k + 1 = nat ?x"
      "dropped_front sid (sb_queue b) (start_drop ?x) k q st"
    using drop_loop_front [OF ok _ l] le n by auto
  obtain p r where q: "q = p @ r" "drop_ok sid p st" "data_of sid r = drop k (data_of sid (sb_queue b))"
      "others_of sid q = others_of sid (sb_queue b)"
      "positions_of sid q + dp_sequence st = positions_of sid (sb_queue b)"
      "k < length (data_of sid (sb_queue b)) \<Longrightarrow> plain_tail sid (sb_queue b) \<Longrightarrow> plain_tail sid r"
    using k(3) n by (auto simp: dropped_front_def)
  obtain q1 at where g: "record_gap sid ?x st q = (q1, at)" by fastforce
  obtain p1 where p1: "q1 = p1 @ r" "at \<le> length p1" "data_of sid p1 = []"
      "others_of sid p1 = others_of sid p" "positions_of sid p1 = positions_of sid p + dp_sequence st"
    using record_gap_front [OF q(2) g [unfolded q(1)]] by blast
  let ?m = "AList.update sid (max 0 (held_chars b sid - ?x)) (sb_bySession b)"
  let ?b1 = "b\<lparr>sb_queue := q1, sb_queuedChars := sb_queuedChars b - ?x, sb_bySession := ?m\<rparr>"
  define v where "v = dp_salvaged st"
  have vlen: "length v \<le> DROPPED_QUERY_SALVAGE_MAX_CHARS" using q(2) by (simp add: v_def drop_ok_def)
  have held1: "held_chars ?b1 s = (if s = sid then int keep else held_chars b s)" for s
    by (simp add: held_chars_def update_conv')
  have b': "b' = (if v = [] then ?b1 else add_held sid (int (length v))
      (?b1\<lparr>sb_queue := insert_at at (salvage_entry sid v) q1,
        sb_queuedChars := sb_queuedChars ?b1 + int (length v)\<rparr>))"
    using assms(1) l g k(1)
    by (simp add: b'_def dropOldestQueuedForSession_def Let_def v_def)
  have held: "held_chars b' s = held_chars ?b1 s + (if s = sid then int (length v) else 0)" for s
    unfolding b' by (auto simp: held_add_held)
  note sv = salvaging [OF p1(3,2), of v r]
  have queue: "data_of sid (sb_queue b') = v @ data_of sid r"
      "others_of sid (sb_queue b') = others_of sid q1"
      "positions_of sid (sb_queue b') = positions_of sid q1"
    unfolding b' using sv p1(1,3) by (auto simp: queued)
  have "sb_queuedChars b' = sb_queuedChars b - ?x + int (length v)" unfolding b' by simp
  with queue(1) q(3) vlen held [of sid] held1 [of sid] k(2) assms(1)
  have "salvaged_tail b sid keep b' v k" unfolding salvaged_tail_def by auto
  then show "\<exists>salvaged k. salvaged_tail b sid keep b' salvaged k" by blast
  show "others_of sid (sb_queue b') = others_of sid (sb_queue b)"
    using queue(2) p1(1,4) q(1,4) by (simp add: others_of_simps)
  show "positions_of sid (sb_queue b') = positions_of sid (sb_queue b)"
    using queue(3) p1(1,5) q(1,5) by (simp add: positions_of_simps)
  show "held_chars b' s = held_chars b s" if "s \<noteq> sid" using that held held1 by simp
  show "plain_tail sid (sb_queue b')" if "0 < keep" "plain_tail sid (sb_queue b)"
  proof -
    have lt: "k < length (data_of sid (sb_queue b))" using that(1) k(2) assms(1,2) by linarith
    then have r: "0 < length (data_of sid r)" "plain_tail sid r" using q(3,6) that(2) by simp_all
    obtain p2 where "sb_queue b' = p2 @ r"
      unfolding b' using p1(1,2) by (cases "v = []") (auto simp: insert_at_append)
    with r(2) plain_tail_data [OF r(1), of p2] show ?thesis by simp
  qed
qed

text \<open>
  Thinning a background session: what is left of its data is the kept tail, behind at most
  4096 salvaged characters; the dropped characters are declared in a gap, so that the positions
  of the source stream its entries stand for are the same as before; the entries of other
  sessions and control events keep their place, and the count of no other session changes.
\<close>

theorem keep_tail_drop:
  assumes "int keep < held_chars b sid" and "held_chars b sid \<le> int (length (data_of sid (sb_queue b)))"
  shows "(\<exists>salvaged k.
       salvaged_tail b sid keep (dropOldestQueuedForSession b sid keep salvage) salvaged k)
    \<and> others_of sid (sb_queue (dropOldestQueuedForSession b sid keep salvage))
        = others_of sid (sb_queue b)
    \<and> positions_of sid (sb_queue (dropOldestQueuedForSession b sid keep salvage))
        = positions_of sid (sb_queue b)
    \<and> (\<forall>s. s \<noteq> sid \<longrightarrow>
         held_chars (dropOldestQueuedForSession b sid keep salvage) s = held_chars b s)"
  using drop_oldest [OF assms refl] by blast

definition pair_entry :: stream_entry where
  "pair_entry = \<lparr>se_sessionId = [115], se_data = [55357, 56832, 97], se_sequenceChars = None,
     se_control = None\<rparr>"

definition pair_batch :: stream_batch where
  "pair_batch = \<lparr>sb_timer = True, sb_queue = [pair_entry], sb_queuedChars = 3,
     sb_bySession = [([115], 3)], sb_lastDroppable = None\<rparr>"

theorem keep_tail_drop_witness:
  "positions_of [115] (sb_queue (dropOldestQueuedForSession pair_batch [115] 1 (\<lambda>_. []))) = 3"
proof -
  have "held_chars pair_batch [115] = 3" "data_of [115] (sb_queue pair_batch) = [55357, 56832, 97]"
    "positions_of [115] (sb_queue pair_batch) = 3"
    by (simp_all add: held_chars_def pair_batch_def pair_entry_def queued entry_positions_def
        sequence_of_def)
  then show ?thesis using keep_tail_drop [of 1 pair_batch "[115]"] by simp
qed

text \<open>
  When the cut falls between the halves of a surrogate pair one character less is cut, but
  the full number is subtracted from the counts and declared in the gap: three characters are
  queued here, two are counted, and the gap says that one was dropped.
\<close>

theorem keep_tail_miscount:
  "let b = dropOldestQueuedForSession pair_batch [115] 2 (\<lambda>_. [])
   in data_of [115] (sb_queue b) = [55357, 56832, 97] \<and> held_chars b [115] = 2
      \<and> sb_queuedChars b = 2 \<and> hd (sb_queue b) = gap_entry [115] 1 0"
  by (simp add: dropOldestQueuedForSession_def held_chars_def pair_batch_def pair_entry_def
      start_drop_def cut_entry_def clampToSafeSplitIndex_def high_surrogate_def low_surrogate_def
      record_gap_def insert_at_def gap_entry_def queued)

text \<open>
  The budget of background sessions: each keeps between 64K and 512K characters, all of
  them together at most 2M as long as they are not more than 32, and the cap that triggers a
  drop is twice the tail that is kept.
\<close>

theorem keep_tail_budget:
  "64 * 1024 \<le> backgroundSessionKeepTailChars n \<and> backgroundSessionKeepTailChars n \<le> 512 * 1024
   \<and> (n \<le> 32 \<longrightarrow> n * backgroundSessionKeepTailChars n \<le> 2 * 1024 * 1024)
   \<and> backgroundSessionDropCapChars n = 2 * backgroundSessionKeepTailChars n"
proof -
  have "n * backgroundSessionKeepTailChars n \<le> 2 * 1024 * 1024" if "n \<le> 32"
  proof (cases "n = 0")
    case False
    have "65536 \<le> 2097152 div n"
      using that False by (simp add: less_eq_div_iff_mult_less_eq)
    then have "backgroundSessionKeepTailChars n \<le> 2097152 div n"
      using False by (simp add: backgroundSessionKeepTailChars_def BACKGROUND_SESSION_KEEP_TAIL_CHARS_def
          BACKGROUND_SESSION_MIN_KEEP_TAIL_CHARS_def BACKGROUND_GLOBAL_KEEP_BUDGET_CHARS_def max_def)
    then have "n * backgroundSessionKeepTailChars n \<le> n * (2097152 div n)" by simp
    also have "\<dots> \<le> 2097152" by simp
    finally show ?thesis by simp
  qed simp
  then show ?thesis
    by (auto simp: backgroundSessionKeepTailChars_def BACKGROUND_SESSION_KEEP_TAIL_CHARS_def
        BACKGROUND_SESSION_MIN_KEEP_TAIL_CHARS_def BACKGROUND_GLOBAL_KEEP_BUDGET_CHARS_def
        backgroundSessionDropCapChars_def)
qed

theorem keep_tail_budget_witness:
  "20 * backgroundSessionKeepTailChars 20 \<le> 2 * 1024 * 1024"
  using keep_tail_budget [of 20] by simp

end
