(* ===== verification/Stream_Batcher.thy ===== *)
theory Stream_Batcher
  imports Keep_Tail
begin

section \<open>The stream batcher of the daemon\<close>

text \<open>
  \<open>src/src/main/daemon/daemon-stream-data-batcher.ts\<close>, class \<open>DaemonStreamDataBatcher\<close>:
  the output of all sessions of a client shares one socket. It is queued per client and
  flushed by a timer, by the socket's drain event or by the callback of a sentinel line; while
  the socket is deep the flush holds back sessions with much queued output, and lets those
  with little through. Sockets, the set of backgrounded sessions and the salvage function are
  not this code: they are the record \<open>stream_env\<close> of functions over an environment \<open>'e\<close>. The
  batcher also carries what the code does not keep: the trace of what it wrote, and for every line
  written with a callback that the socket has not called yet, the client that callback is for.
\<close>

subsection \<open>Lines\<close>

text \<open>What is written to a socket: a piece of data with the positions it stands for, when they
  are not its length, or a control event.\<close>

datatype wire = Wire_data jsstr jsstr "int option" | Wire_control jsstr stream_control

fun control_json :: "stream_control \<Rightarrow> json" where
  "control_json (Data_gap sid droppedChars sequenceChars) =
     JObj [(js ''type'', JStr (js ''event'')), (js ''event'', JStr (js ''dataGap'')),
       (js ''sessionId'', JStr sid),
       (js ''payload'', JObj ((js ''droppedChars'', JNum (js_int droppedChars)) #
          (case sequenceChars of None \<Rightarrow> []
             | Some n \<Rightarrow> [(js ''sequenceChars'', JNum (js_int n))])))]"
| "control_json (Other_control event) = event"

fun wire_line :: "wire \<Rightarrow> jsstr" where
  "wire_line (Wire_data sid data sequenceChars) = encodeStreamDataEvent sid data sequenceChars"
| "wire_line (Wire_control sid control) = encodeNdjson (control_json control)"

subsection \<open>State\<close>

text \<open>\<open>en_alive\<close>: the client exists and its stream socket is not destroyed; \<open>en_depth\<close>: the
  socket's \<open>writableLength\<close>.\<close>

record 'e stream_env =
  en_alive :: "'e \<Rightarrow> jsstr \<Rightarrow> bool"
  en_depth :: "'e \<Rightarrow> jsstr \<Rightarrow> nat"
  en_write :: "jsstr \<Rightarrow> jsstr \<Rightarrow> 'e \<Rightarrow> 'e"
  en_onAfterSocketWrite :: "'e \<Rightarrow> 'e"
  en_isSessionDroppable :: "'e \<Rightarrow> jsstr \<Rightarrow> bool"
  en_salvageDroppedData :: "jsstr \<Rightarrow> jsstr"
  en_maxLineBytes :: "nat option"
  en_ORCA_DAEMON_SHALLOW_SOCKET_GATE :: "jsstr option"

record 'e batcher =
  ba_pendingByClient :: "jsstr \<Rightarrow> stream_batch option"
  ba_refillArmed :: "jsstr list"
  ba_sentinels :: "jsstr list"
  ba_env :: 'e
  ba_trace :: "(jsstr \<times> wire) list"

text \<open>The variable of the process environment switches the gate off; \<open>None\<close> is positive infinity.\<close>

definition SHALLOW_SOCKET_WRITE_GATE_BYTES :: "jsstr option \<Rightarrow> nat option" where
  "SHALLOW_SOCKET_WRITE_GATE_BYTES variable = (if variable = Some (js ''0'') then None else Some (128 * 1024))"

definition BULK_WRITE_SLICE_CHARS :: nat where
  "BULK_WRITE_SLICE_CHARS = 64 * 1024"

definition HELD_WRITE_THROUGH_TOTAL_CHARS :: int where
  "HELD_WRITE_THROUGH_TOTAL_CHARS = 32 * 1024 * 1024"

definition SMALL_SESSION_HOLD_BYPASS_CHARS :: int where
  "SMALL_SESSION_HOLD_BYPASS_CHARS = 4 * 1024"

definition new_batcher :: "'e \<Rightarrow> 'e batcher" where
  "new_batcher env = \<lparr>ba_pendingByClient = \<lambda>_. None, ba_refillArmed = [], ba_sentinels = [], ba_env = env,
     ba_trace = []\<rparr>"

definition new_batch :: stream_batch where
  "new_batch = \<lparr>sb_timer = False, sb_queue = [], sb_queuedChars = 0, sb_bySession = [],
     sb_lastDroppable = None\<rparr>"

definition getOrCreateBatch :: "jsstr \<Rightarrow> 'e batcher \<Rightarrow> stream_batch" where
  "getOrCreateBatch clientId b =
     (case ba_pendingByClient b clientId of None \<Rightarrow> new_batch | Some batch \<Rightarrow> batch)"

definition set_batch :: "jsstr \<Rightarrow> stream_batch option \<Rightarrow> 'e batcher \<Rightarrow> 'e batcher" where
  "set_batch clientId batch b =
     b\<lparr>ba_pendingByClient := (ba_pendingByClient b)(clientId := batch)\<rparr>"

definition queuedCharsForClient :: "jsstr \<Rightarrow> 'e batcher \<Rightarrow> int" where
  "queuedCharsForClient clientId b =
     (case ba_pendingByClient b clientId of None \<Rightarrow> 0 | Some batch \<Rightarrow> sb_queuedChars batch)"

definition queuedCharsForSession :: "stream_batch \<Rightarrow> jsstr \<Rightarrow> nat" where
  "queuedCharsForSession batch sid =
     sum_list (map (\<lambda>e. length (se_data e)) (filter (\<lambda>e. se_sessionId e = sid) (sb_queue batch)))"

definition countDroppable :: "'e stream_env \<Rightarrow> 'e \<Rightarrow> stream_batch \<Rightarrow> nat" where
  "countDroppable E env batch =
     length (filter (\<lambda>(sid, queued). 0 < queued \<and> en_isSessionDroppable E env sid)
       (sb_bySession batch))"

subsection \<open>Writing\<close>

definition put :: "'e stream_env \<Rightarrow> jsstr \<Rightarrow> wire \<Rightarrow> 'e batcher \<Rightarrow> 'e batcher" where
  "put E clientId w b =
     b\<lparr>ba_env := en_write E clientId (wire_line w) (ba_env b), ba_trace := ba_trace b @ [(clientId, w)]\<rparr>"

text \<open>A line written with a callback; the only ones are the sentinels.\<close>

definition put_with_callback :: "'e stream_env \<Rightarrow> jsstr \<Rightarrow> wire \<Rightarrow> 'e batcher \<Rightarrow> 'e batcher" where
  "put_with_callback E clientId w b =
     (let b' = put E clientId w b in b'\<lparr>ba_sentinels := clientId # ba_sentinels b'\<rparr>)"

definition after_write :: "'e stream_env \<Rightarrow> 'e batcher \<Rightarrow> 'e batcher" where
  "after_write E b = b\<lparr>ba_env := en_onAfterSocketWrite E (ba_env b)\<rparr>"

text \<open>The units of \<open>writeStreamDataEvents\<close>, whose lines \<open>wire_lines_written\<close> shows them to be.\<close>

definition data_units :: "'e stream_env \<Rightarrow> jsstr \<Rightarrow> jsstr \<Rightarrow> int \<Rightarrow> wire list" where
  "data_units E sid data sequenceChars =
     (let explicit = (if sequenceChars = int (length data) then None else Some sequenceChars)
      in map (\<lambda>chunk. Wire_data sid chunk explicit)
           (splitStreamDataForNdjson sid data (max_line (en_maxLineBytes E)) explicit))"

definition write_data ::
  "'e stream_env \<Rightarrow> jsstr \<Rightarrow> jsstr \<Rightarrow> jsstr \<Rightarrow> int \<Rightarrow> 'e batcher \<Rightarrow> 'e batcher" where
  "write_data E clientId sid data sequenceChars b =
     after_write E (fold (put E clientId) (data_units E sid data sequenceChars) b)"

definition write_control ::
  "'e stream_env \<Rightarrow> jsstr \<Rightarrow> jsstr \<Rightarrow> stream_control \<Rightarrow> 'e batcher \<Rightarrow> 'e batcher" where
  "write_control E clientId sid control b = after_write E (put E clientId (Wire_control sid control) b)"

lemma wire_lines_written:
  "map wire_line (data_units E sid data n) =
     writeStreamDataEvents sid data (max_line (en_maxLineBytes E)) (Some n)"
  by (simp add: data_units_def writeStreamDataEvents_def Let_def)

subsection \<open>Flushing\<close>

text \<open>The first entry of the queue, or a slice of it, leaves the queue.\<close>

definition slice_end :: "stream_entry \<Rightarrow> nat" where
  "slice_end entry =
     (if length (se_data entry) \<le> BULK_WRITE_SLICE_CHARS then length (se_data entry)
      else clampToSafeSplitIndex (se_data entry) 0 BULK_WRITE_SLICE_CHARS)"

definition release_held :: "jsstr \<Rightarrow> nat \<Rightarrow> stream_batch \<Rightarrow> stream_batch" where
  "release_held sid n batch =
     (let heldAfter = (case map_of (sb_bySession batch) sid of None \<Rightarrow> int n | Some h \<Rightarrow> h) - int n
      in batch\<lparr>sb_queuedChars := sb_queuedChars batch - int n,
           sb_bySession := (if heldAfter \<le> 0 then AList.delete sid (sb_bySession batch)
                            else AList.update sid heldAfter (sb_bySession batch))\<rparr>)"

definition take_slice :: "stream_entry \<Rightarrow> stream_entry list \<Rightarrow> stream_batch \<Rightarrow> stream_batch" where
  "take_slice entry rest batch =
     (let stop = slice_end entry
      in release_held (se_sessionId entry) (length (take stop (se_data entry)))
           (batch\<lparr>sb_queue := (if length (se_data entry) \<le> stop then rest
                              else entry_rest entry stop # rest)\<rparr>))"

text \<open>Whether an entry of data is held back.\<close>

definition at_gate :: "'e stream_env \<Rightarrow> nat \<Rightarrow> bool" where
  "at_gate E depth = (case SHALLOW_SOCKET_WRITE_GATE_BYTES (en_ORCA_DAEMON_SHALLOW_SOCKET_GATE E) of
     None \<Rightarrow> False | Some gate \<Rightarrow> gate \<le> depth)"

definition socket_deep :: "'e stream_env \<Rightarrow> jsstr \<Rightarrow> 'e batcher \<Rightarrow> bool" where
  "socket_deep E clientId b = at_gate E (en_depth E (ba_env b) clientId)"

definition hold_entry ::
  "'e stream_env \<Rightarrow> jsstr \<Rightarrow> stream_batch \<Rightarrow> jsstr list \<Rightarrow> jsstr \<Rightarrow> 'e batcher \<Rightarrow> bool" where
  "hold_entry E clientId batch held sid b =
     (socket_deep E clientId b \<and> sb_queuedChars batch \<le> HELD_WRITE_THROUGH_TOTAL_CHARS
      \<and> (sid \<in> set held \<or> SMALL_SESSION_HOLD_BYPASS_CHARS < held_chars batch sid))"

lemma slice_end_pos: "se_data e \<noteq> [] \<Longrightarrow> 0 < slice_end e"
  by (auto simp: slice_end_def clampToSafeSplitIndex_def BULK_WRITE_SLICE_CHARS_def)

function flush_loop ::
  "'e stream_env \<Rightarrow> jsstr \<Rightarrow> stream_batch \<Rightarrow> jsstr list \<Rightarrow> stream_entry list \<Rightarrow> 'e batcher
    \<Rightarrow> stream_batch \<times> stream_entry list \<times> 'e batcher" where
  "flush_loop E clientId batch held retained b =
     (case sb_queue batch of
        [] \<Rightarrow> (batch, retained, b)
      | entry # rest \<Rightarrow>
          (case se_control entry of
             Some control \<Rightarrow>
               if se_sessionId entry \<in> set held
               then flush_loop E clientId (batch\<lparr>sb_queue := rest\<rparr>) held (retained @ [entry]) b
               else flush_loop E clientId (batch\<lparr>sb_queue := rest\<rparr>) held retained
                      (write_control E clientId (se_sessionId entry) control b)
           | None \<Rightarrow>
               if hold_entry E clientId batch held (se_sessionId entry) b
               then flush_loop E clientId (batch\<lparr>sb_queue := rest\<rparr>) (se_sessionId entry # held)
                      (retained @ [entry]) b
               else flush_loop E clientId (take_slice entry rest batch) held retained
                      (write_data E clientId (se_sessionId entry)
                         (take (slice_end entry) (se_data entry))
                         (taken_sequence entry (length (take (slice_end entry) (se_data entry)))) b)))"
  by pat_completeness auto
termination
  by (relation "measure (\<lambda>(_, _, batch, _, _, _). sum_list (map (\<lambda>e. Suc (length (se_data e))) (sb_queue batch)))")
    (auto simp: take_slice_def release_held_def Let_def intro!: diff_less slice_end_pos)

declare flush_loop.simps [simp del]

definition armHeldQueueRefill :: "'e stream_env \<Rightarrow> jsstr \<Rightarrow> jsstr \<Rightarrow> 'e batcher \<Rightarrow> 'e batcher" where
  "armHeldQueueRefill E clientId sid b =
     (if clientId \<in> set (ba_refillArmed b) \<or> \<not> en_alive E (ba_env b) clientId then b
      else put_with_callback E clientId (Wire_data sid [] None) (b\<lparr>ba_refillArmed := clientId # ba_refillArmed b\<rparr>))"

definition flush :: "'e stream_env \<Rightarrow> jsstr \<Rightarrow> 'e batcher \<Rightarrow> 'e batcher" where
  "flush E clientId b = (case ba_pendingByClient b clientId of
     None \<Rightarrow> b
   | Some batch \<Rightarrow>
       if \<not> en_alive E (ba_env b) clientId then set_batch clientId None b
       else (case flush_loop E clientId (batch\<lparr>sb_timer := False\<rparr>) [] [] b of
               (batch', [], b') \<Rightarrow> set_batch clientId None b'
             | (batch', entry # retained, b') \<Rightarrow>
                 armHeldQueueRefill E clientId (se_sessionId entry)
                   (set_batch clientId (Some (batch'\<lparr>sb_queue := entry # retained\<rparr>)) b')))"

text \<open>The callback of the sentinel, and the socket calling it, which it does once for a line that was
  written with it.\<close>

definition refill_written :: "'e stream_env \<Rightarrow> jsstr \<Rightarrow> 'e batcher \<Rightarrow> 'e batcher" where
  "refill_written E clientId b =
     flush E clientId (b\<lparr>ba_refillArmed := filter (\<lambda>c. c \<noteq> clientId) (ba_refillArmed b)\<rparr>)"

definition sentinel_written :: "'e stream_env \<Rightarrow> jsstr \<Rightarrow> 'e batcher \<Rightarrow> 'e batcher" where
  "sentinel_written E clientId b =
     (if clientId \<in> set (ba_sentinels b)
      then refill_written E clientId (b\<lparr>ba_sentinels := remove1 clientId (ba_sentinels b)\<rparr>)
      else b)"

definition write_entry :: "'e stream_env \<Rightarrow> jsstr \<Rightarrow> stream_entry \<Rightarrow> 'e batcher \<Rightarrow> 'e batcher" where
  "write_entry E clientId entry b = (case se_control entry of
     Some control \<Rightarrow> write_control E clientId (se_sessionId entry) control b
   | None \<Rightarrow> write_data E clientId (se_sessionId entry) (se_data entry) (sequence_of entry) b)"

definition flushSession :: "'e stream_env \<Rightarrow> jsstr \<Rightarrow> jsstr \<Rightarrow> 'e batcher \<Rightarrow> 'e batcher" where
  "flushSession E clientId sid b = (case ba_pendingByClient b clientId of
     None \<Rightarrow> b
   | Some batch \<Rightarrow>
       (let flushed = filter (\<lambda>e. se_sessionId e = sid) (sb_queue batch);
            retained = filter (\<lambda>e. se_sessionId e \<noteq> sid) (sb_queue batch);
            batch' = batch\<lparr>sb_queue := retained,
                       sb_queuedChars := sb_queuedChars batch - int (queuedCharsForSession batch sid),
                       sb_bySession := AList.delete sid (sb_bySession batch)\<rparr>;
            b1 = set_batch clientId (if retained = [] then None else Some batch') b
        in if flushed = [] then b
           else if \<not> en_alive E (ba_env b) clientId then b1
           else fold (write_entry E clientId) flushed b1))"

subsection \<open>Enqueueing\<close>

definition append_data :: "jsstr \<Rightarrow> jsstr \<Rightarrow> stream_entry list \<Rightarrow> stream_entry list" where
  "append_data sid data q =
     (if q \<noteq> [] \<and> se_sessionId (last q) = sid \<and> se_control (last q) = None
      then butlast q @ [(last q)\<lparr>se_data := se_data (last q) @ data\<rparr>]
      else q @ [\<lparr>se_sessionId = sid, se_data = data, se_sequenceChars = None, se_control = None\<rparr>])"

text \<open>Thinning, when the session may be thinned: the session itself when it is over the cap, and
  the others when the number of sessions that share the budget has grown.\<close>

definition thin_other ::
  "'e stream_env \<Rightarrow> 'e \<Rightarrow> jsstr \<Rightarrow> nat \<Rightarrow> nat \<Rightarrow> jsstr \<times> int \<Rightarrow> stream_batch \<Rightarrow> stream_batch" where
  "thin_other E env sid dropCap keepTail p batch =
     (if int dropCap < snd p \<and> fst p \<noteq> sid \<and> en_isSessionDroppable E env (fst p)
      then dropOldestQueuedForSession batch (fst p) keepTail (en_salvageDroppedData E) else batch)"

definition thin_batch :: "'e stream_env \<Rightarrow> 'e \<Rightarrow> jsstr \<Rightarrow> stream_batch \<Rightarrow> stream_batch" where
  "thin_batch E env sid batch =
     (if \<not> en_isSessionDroppable E env sid then batch
      else (let droppable = countDroppable E env batch;
                dropCap = backgroundSessionDropCapChars droppable;
                keepTail = backgroundSessionKeepTailChars droppable;
                batch1 = (if int dropCap < held_chars batch sid
                          then dropOldestQueuedForSession batch sid keepTail (en_salvageDroppedData E)
                          else batch);
                batch2 = (if (case sb_lastDroppable batch1 of None \<Rightarrow> 0 | Some n \<Rightarrow> n) < droppable
                          then fold (thin_other E env sid dropCap keepTail) (sb_bySession batch1) batch1
                          else batch1)
            in batch2\<lparr>sb_lastDroppable := Some droppable\<rparr>))"

definition enqueue ::
  "'e stream_env \<Rightarrow> jsstr \<Rightarrow> jsstr \<Rightarrow> jsstr \<Rightarrow> bool \<Rightarrow> nat option \<Rightarrow> 'e batcher \<Rightarrow> 'e batcher" where
  "enqueue E clientId sid data flushImmediately flushMaxChars b =
     (if \<not> en_alive E (ba_env b) clientId then b
      else (let batch = getOrCreateBatch clientId b;
                batch1 = add_held sid (int (length data))
                  (batch\<lparr>sb_queue := append_data sid data (sb_queue batch),
                        sb_queuedChars := sb_queuedChars batch + int (length data)\<rparr>);
                batch2 = thin_batch E (ba_env b) sid batch1
            in if flushImmediately
                 \<and> (case flushMaxChars of None \<Rightarrow> True | Some n \<Rightarrow> queuedCharsForSession batch2 sid \<le> n)
               then flushSession E clientId sid (set_batch clientId (Some batch2) b)
               else set_batch clientId (Some (batch2\<lparr>sb_timer := True\<rparr>)) b))"

definition enqueueControlEvent ::
  "'e stream_env \<Rightarrow> jsstr \<Rightarrow> jsstr \<Rightarrow> stream_control \<Rightarrow> 'e batcher \<Rightarrow> 'e batcher" where
  "enqueueControlEvent E clientId sid control b =
     (if \<not> en_alive E (ba_env b) clientId then b
      else (let batch = getOrCreateBatch clientId b
            in set_batch clientId (Some (batch\<lparr>sb_queue := sb_queue batch @
                 [\<lparr>se_sessionId = sid, se_data = [], se_sequenceChars = None,
                   se_control = Some control\<rparr>], sb_timer := True\<rparr>)) b))"

definition clear :: "jsstr option \<Rightarrow> 'e batcher \<Rightarrow> 'e batcher" where
  "clear clientId b = (case clientId of
     None \<Rightarrow> b\<lparr>ba_pendingByClient := \<lambda>_. None\<rparr>
   | Some c \<Rightarrow> set_batch c None b)"

end
