(* ===== verification/Batcher_Order.thy ===== *)
theory Batcher_Order
  imports Stream_Batcher
begin

section \<open>What the batcher keeps of each session's stream\<close>

text \<open>
  The stream of a session, as a client gets it, is what was written for it followed by what is
  still queued (\<open>stream_of\<close>). The lemmas of each operation say what it does to the stream and
  to the counts of queued characters; the theorems follow by induction over the calls.
\<close>

datatype atom = Char nat | Event stream_control

definition entry_atoms :: "stream_entry \<Rightarrow> atom list" where
  "entry_atoms e = (case se_control e of None \<Rightarrow> map Char (se_data e) | Some c \<Rightarrow> [Event c])"

definition queued_atoms :: "jsstr \<Rightarrow> stream_entry list \<Rightarrow> atom list" where
  "queued_atoms sid q = concat (map entry_atoms (filter (\<lambda>e. se_sessionId e = sid) q))"

fun wire_session :: "wire \<Rightarrow> jsstr" where
  "wire_session (Wire_data sid _ _) = sid"
| "wire_session (Wire_control sid _) = sid"

fun wire_atoms :: "wire \<Rightarrow> atom list" where
  "wire_atoms (Wire_data _ data _) = map Char data"
| "wire_atoms (Wire_control _ c) = [Event c]"

definition written :: "jsstr \<Rightarrow> jsstr \<Rightarrow> (jsstr \<times> wire) list \<Rightarrow> wire list" where
  "written c sid tr = map snd (filter (\<lambda>(c', w). c' = c \<and> wire_session w = sid) tr)"

definition written_atoms :: "jsstr \<Rightarrow> jsstr \<Rightarrow> 'e batcher \<Rightarrow> atom list" where
  "written_atoms c sid b = concat (map wire_atoms (written c sid (ba_trace b)))"

definition queue_of :: "jsstr \<Rightarrow> 'e batcher \<Rightarrow> stream_entry list" where
  "queue_of c b = (case ba_pendingByClient b c of None \<Rightarrow> [] | Some batch \<Rightarrow> sb_queue batch)"

definition stream_of :: "jsstr \<Rightarrow> jsstr \<Rightarrow> 'e batcher \<Rightarrow> atom list" where
  "stream_of c sid b = written_atoms c sid b @ queued_atoms sid (queue_of c b)"

lemma queued_atoms_simps [queued]:
  "queued_atoms sid [] = []"
  "queued_atoms sid (e # q) = (if se_sessionId e = sid then entry_atoms e else []) @ queued_atoms sid q"
  "queued_atoms sid (p @ q) = queued_atoms sid p @ queued_atoms sid q"
  by (auto simp: queued_atoms_def)

lemma queued_others: "s \<noteq> sid \<Longrightarrow> queued_atoms s (others_of sid q) = queued_atoms s q"
  by (induction q) (auto simp: queued untouchable_def)

lemma data_others: "s \<noteq> sid \<Longrightarrow> data_of s (others_of sid q) = data_of s q"
  by (induction q) (auto simp: queued untouchable_def)

subsection \<open>Writing\<close>

lemma put_fields [simp]:
  "ba_pendingByClient (put E c w b) = ba_pendingByClient b"
  "ba_refillArmed (put E c w b) = ba_refillArmed b"
  "ba_sentinels (put E c w b) = ba_sentinels b"
  "ba_trace (put E c w b) = ba_trace b @ [(c, w)]"
  "ba_pendingByClient (after_write E b) = ba_pendingByClient b"
  "ba_refillArmed (after_write E b) = ba_refillArmed b"
  "ba_sentinels (after_write E b) = ba_sentinels b"
  "ba_trace (after_write E b) = ba_trace b"
  by (simp_all add: put_def after_write_def)

lemma put_with_callback_fields [simp]:
  "ba_pendingByClient (put_with_callback E c w b) = ba_pendingByClient b"
  "ba_refillArmed (put_with_callback E c w b) = ba_refillArmed b"
  "ba_sentinels (put_with_callback E c w b) = c # ba_sentinels b"
  "ba_trace (put_with_callback E c w b) = ba_trace b @ [(c, w)]"
  by (simp_all add: put_with_callback_def Let_def)

lemma fold_put_fields [simp]:
  "ba_pendingByClient (fold (put E c) ws b) = ba_pendingByClient b"
  "ba_refillArmed (fold (put E c) ws b) = ba_refillArmed b"
  "ba_sentinels (fold (put E c) ws b) = ba_sentinels b"
  "ba_trace (fold (put E c) ws b) = ba_trace b @ map (Pair c) ws"
  by (induction ws arbitrary: b) simp_all

lemma write_fields [simp]:
  "ba_pendingByClient (write_data E c sid d n b) = ba_pendingByClient b"
  "ba_refillArmed (write_data E c sid d n b) = ba_refillArmed b"
  "ba_sentinels (write_data E c sid d n b) = ba_sentinels b"
  "ba_trace (write_data E c sid d n b) = ba_trace b @ map (Pair c) (data_units E sid d n)"
  "ba_pendingByClient (write_control E c sid k b) = ba_pendingByClient b"
  "ba_refillArmed (write_control E c sid k b) = ba_refillArmed b"
  "ba_sentinels (write_control E c sid k b) = ba_sentinels b"
  "ba_trace (write_control E c sid k b) = ba_trace b @ [(c, Wire_control sid k)]"
  by (simp_all add: write_data_def write_control_def)

lemma written_append: "written c s (t @ u) = written c s t @ written c s u"
  by (simp add: written_def)

lemma split_concat: "concat (splitStreamDataForNdjson s v m q) = v"
  using split_pieces_concat [of s q m v 0] by (simp add: splitStreamDataForNdjson_def)

lemma written_units:
  "written c' s (map (Pair c) (data_units E sid d n)) =
     (if c = c' \<and> sid = s then data_units E sid d n else [])"
  by (auto simp: written_def data_units_def Let_def filter_map comp_def)

lemma atoms_units: "concat (map wire_atoms (data_units E sid d n)) = map Char d"
proof -
  have "concat (map (\<lambda>x. map Char x) xs) = map Char (concat xs)" for xs by (induction xs) auto
  then show ?thesis by (simp add: data_units_def Let_def comp_def split_concat)
qed

lemma written_atoms_data:
  "written_atoms c' s (write_data E c sid d n b) =
     written_atoms c' s b @ (if c = c' \<and> sid = s then map Char d else [])"
  by (cases "c = c' \<and> sid = s") (auto simp: written_atoms_def written_append written_units atoms_units)

lemma written_atoms_control:
  "written_atoms c' s (write_control E c sid k b) =
     written_atoms c' s b @ (if c = c' \<and> sid = s then [Event k] else [])"
  by (simp add: written_atoms_def written_append) (simp add: written_def)

lemmas written_simps = written_atoms_data written_atoms_control

subsection \<open>The flush loop\<close>

text \<open>A deep socket stays deep while the batcher writes: what is written to a socket with bytes
  in flight is added to its buffer, and the buffer shrinks only between two calls.\<close>

definition depth_kept :: "'e stream_env \<Rightarrow> bool" where
  "depth_kept E = ((\<forall>env c c' l. at_gate E (en_depth E env c) \<longrightarrow>
       at_gate E (en_depth E (en_write E c' l env) c))
   \<and> (\<forall>env c. at_gate E (en_depth E env c) \<longrightarrow>
       at_gate E (en_depth E (en_onAfterSocketWrite E env) c)))"

lemma deep_kept:
  assumes "depth_kept E" and "socket_deep E c b"
  shows "socket_deep E c (put E c' w b)" and "socket_deep E c (after_write E b)"
  using assms by (auto simp: depth_kept_def socket_deep_def put_def after_write_def)

lemma deep_kept_fold:
  "depth_kept E \<Longrightarrow> socket_deep E c b \<Longrightarrow> socket_deep E c (fold (put E c') ws b)"
  by (induction ws arbitrary: b) (simp_all add: deep_kept)

lemma deep_kept_write:
  assumes "depth_kept E" and "socket_deep E c b"
  shows "socket_deep E c (write_data E c' sid d n b)" and "socket_deep E c (write_control E c' sid k b)"
  using assms by (simp_all add: write_data_def write_control_def deep_kept deep_kept_fold)

definition latched :: "'e stream_env \<Rightarrow> jsstr \<Rightarrow> stream_batch \<Rightarrow> jsstr list \<Rightarrow> 'e batcher \<Rightarrow> bool" where
  "latched E c batch held b = (held \<noteq> [] \<longrightarrow>
     socket_deep E c b \<and> sb_queuedChars batch \<le> HELD_WRITE_THROUGH_TOTAL_CHARS)"

lemma take_slice_fields:
  "sb_queuedChars (take_slice e rest batch) \<le> sb_queuedChars batch"
  "sb_queue (take_slice e rest batch) =
     (if length (se_data e) \<le> slice_end e then rest else entry_rest e (slice_end e) # rest)"
  by (simp_all add: take_slice_def release_held_def Let_def)

lemma slice_atoms:
  assumes "se_control e = None"
  shows "(if se_sessionId e = s then map Char (take (slice_end e) (se_data e)) else [])
     @ queued_atoms s (sb_queue (take_slice e rest batch)) = queued_atoms s (e # rest)"
  using assms append_take_drop_id [of "slice_end e" "se_data e"]
  by (auto simp: take_slice_fields queued entry_atoms_def map_append [symmetric]
      simp del: append_take_drop_id map_append)

lemma flush_loop_stream:
  assumes "depth_kept E" and "latched E c batch held b"
    and "\<And>s. s \<notin> set held \<Longrightarrow> queued_atoms s retained = []"
    and "flush_loop E c batch held retained b = (batch', retained', b')"
  shows "written_atoms c s b' @ queued_atoms s retained' =
      written_atoms c s b @ queued_atoms s retained @ queued_atoms s (sb_queue batch)
    \<and> (c' \<noteq> c \<longrightarrow> written_atoms c' s b' = written_atoms c' s b)
    \<and> ba_pendingByClient b' = ba_pendingByClient b"
  using assms
proof (induction E c batch held retained b rule: flush_loop.induct)
  case (1 E c batch held retained b)
  note eq = flush_loop.simps [of E c batch held retained b]
  show ?case
  proof (cases "sb_queue batch")
    case Nil
    with "1.prems"(4) show ?thesis by (auto simp: eq queued)
  next
    case (Cons e rest)
    let ?sid = "se_sessionId e"
    show ?thesis
    proof (cases "se_control e")
      case (Some k)
      show ?thesis
      proof (cases "?sid \<in> set held")
        case True
        have l: "latched E c (batch\<lparr>sb_queue := rest\<rparr>) held b"
          using "1.prems"(2) by (simp add: latched_def)
        have r: "queued_atoms s (retained @ [e]) = []" if "s \<notin> set held" for s
          using "1.prems"(3) [OF that] that True by (auto simp: queued)
        show ?thesis
          using "1.IH"(3) [OF Cons Some True "1.prems"(1) l r] "1.prems"(4) Cons Some True
          by (simp add: eq queued)
      next
        case False
        have l: "latched E c (batch\<lparr>sb_queue := rest\<rparr>) held (write_control E c ?sid k b)"
          using "1.prems"(1,2) by (simp add: latched_def deep_kept_write)
        show ?thesis
          using "1.IH"(4) [OF Cons Some False "1.prems"(1) l "1.prems"(3)] "1.prems"(3) [OF False]
            "1.prems"(4) Cons Some False
          by (auto simp: eq queued written_simps entry_atoms_def)
      qed
    next
      case None
      show ?thesis
      proof (cases "hold_entry E c batch held ?sid b")
        case True
        have l: "latched E c (batch\<lparr>sb_queue := rest\<rparr>) (?sid # held) b"
          using True by (simp add: latched_def hold_entry_def)
        have r: "queued_atoms s (retained @ [e]) = []" if "s \<notin> set (?sid # held)" for s
          using "1.prems"(3) [of s] that by (auto simp: queued)
        show ?thesis
          using "1.IH"(1) [OF Cons None True "1.prems"(1) l r] "1.prems"(4) Cons None True
          by (simp add: eq queued)
      next
        case False
        let ?b = "write_data E c ?sid (take (slice_end e) (se_data e))
            (taken_sequence e (length (take (slice_end e) (se_data e)))) b"
        have l: "latched E c (take_slice e rest batch) held ?b"
          using "1.prems"(1,2) take_slice_fields(1) [of e rest batch]
          by (auto simp: latched_def deep_kept_write)
        have nh: "?sid \<notin> set held"
          using False "1.prems"(2) by (cases held) (auto simp: hold_entry_def latched_def)
        show ?thesis
          using "1.IH"(2) [OF Cons None False "1.prems"(1) l "1.prems"(3)] "1.prems"(3) [OF nh]
            "1.prems"(4) Cons None False slice_atoms [OF None, of s rest batch]
          by (auto simp: eq written_simps)
      qed
    qed
  qed
qed

subsection \<open>Thinning\<close>

text \<open>What holds of every queue: no session is counted with more characters than it has
  queued, data can be appended to its newest entry, and each entry of data stands for as many
  positions as it has characters, or for none.\<close>

definition plain_entry :: "stream_entry \<Rightarrow> bool" where
  "plain_entry e = (se_control e = None \<longrightarrow>
     sequence_of e = 0 \<or> sequence_of e = int (length (se_data e)))"

definition queue_inv :: "stream_batch \<Rightarrow> stream_entry list \<Rightarrow> bool" where
  "queue_inv batch q = ((\<forall>s. held_chars batch s \<le> int (length (data_of s q)) \<and> plain_tail s q)
     \<and> list_all plain_entry q)"

abbreviation batch_inv :: "stream_batch \<Rightarrow> bool" where
  "batch_inv batch \<equiv> queue_inv batch (sb_queue batch)"

lemma plain_entry_rest: "plain_entry e \<Longrightarrow> n \<le> length (se_data e) \<Longrightarrow> plain_entry (entry_rest e n)"
  by (auto simp: plain_entry_def entry_rest_sequence taken_sequence_def of_nat_diff)

lemma plain_entry_cut:
  "plain_entry e \<Longrightarrow> dp_toDrop st < length (se_data e) \<Longrightarrow> plain_entry (fst (cut_entry salvage i e st))"
  using clamp_start [of "se_data e" "dp_toDrop st"]
  by (auto simp: cut_entry_def Let_def intro!: plain_entry_rest)

lemma list_all_insert_at: "list_all P q \<Longrightarrow> P e \<Longrightarrow> list_all P (insert_at i e q)"
  by (auto simp: insert_at_def list_all_iff dest: in_set_takeD in_set_dropD)

lemma list_all_update: "list_all P q \<Longrightarrow> (i < length q \<Longrightarrow> P (q ! i) \<Longrightarrow> P e) \<Longrightarrow> list_all P (q[i := e])"
  by (cases "i < length q") (auto simp: list_all_length nth_list_update)

text \<open>A property of all entries that the cut, the growth of a gap and the new entries keep.\<close>

lemma drop_loop_all:
  assumes "\<And>e st i. P e \<Longrightarrow> dp_toDrop st < length (se_data e) \<Longrightarrow> P (fst (cut_entry salvage i e st))"
    and "list_all P (pre @ es)"
  shows "list_all P (fst (drop_loop salvage sid pre es st))"
  using assms
proof (induction salvage sid pre es st rule: drop_loop.induct)
  case (2 salvage sid pre e rest st)
  show ?case
    using "2" by (auto split: option.splits stream_control.splits prod.splits) (metis fst_conv not_le)+
qed simp

lemma drop_oldest_all:
  assumes "\<And>e st i. P e \<Longrightarrow> dp_toDrop st < length (se_data e) \<Longrightarrow> P (fst (cut_entry salvage i e st))"
    and "\<And>e d n. P e \<Longrightarrow> P (grow_gap d n e)"
    and "\<And>d n. P (gap_entry sid d n)" and "\<And>v. P (salvage_entry sid v)"
    and "list_all P (sb_queue b)"
  shows "list_all P (sb_queue (dropOldestQueuedForSession b sid keep salvage))"
proof -
  obtain q st where l: "drop_loop salvage sid [] (sb_queue b) (start_drop (held_chars b sid - int keep)) = (q, st)"
    by fastforce
  have q: "list_all P q"
    using drop_loop_all [of P salvage "[]" "sb_queue b" sid, OF assms(1)] assms(5) l
    by (metis append_Nil fst_conv)
  have "list_all P (fst (record_gap sid d st q))" for d
    using q assms(2,3) by (auto simp: record_gap_def Let_def split: option.splits
        intro!: list_all_update list_all_insert_at)
  then have g: "list_all P q1" if "record_gap sid d st q = (q1, at)" for d q1 at
    using that by (metis fst_conv)
  then show ?thesis
    using l q assms(4,5) by (auto simp: dropOldestQueuedForSession_def Let_def split: prod.split
        intro!: list_all_insert_at)
qed

lemma drop_oldest_plain:
  "list_all plain_entry (sb_queue b) \<Longrightarrow>
   list_all plain_entry (sb_queue (dropOldestQueuedForSession b sid keep salvage))"
proof (rule drop_oldest_all)
  show "plain_entry (grow_gap d n e)" if "plain_entry e" for e d n
    using that by (auto simp: grow_gap_def plain_entry_def split: option.splits stream_control.splits)
qed (simp_all add: plain_entry_cut, simp_all add: plain_entry_def gap_entry_def salvage_entry_def
    sequence_of_def)

text \<open>What thinning keeps, with \<open>D\<close> the sessions that may be thinned.\<close>

definition thinned :: "(jsstr \<Rightarrow> bool) \<Rightarrow> stream_batch \<Rightarrow> stream_batch \<Rightarrow> bool" where
  "thinned D batch batch' = (batch_inv batch'
     \<and> (\<forall>s. positions_of s (sb_queue batch') = positions_of s (sb_queue batch))
     \<and> (\<forall>s. \<not> D s \<longrightarrow> queued_atoms s (sb_queue batch') = queued_atoms s (sb_queue batch)))"

lemma thinned_refl: "batch_inv batch \<Longrightarrow> thinned D batch batch"
  by (simp add: thinned_def)

lemma thinned_trans: "thinned D a b \<Longrightarrow> thinned D b c \<Longrightarrow> thinned D a c"
  by (simp add: thinned_def)

lemma positions_others: "s \<noteq> sid \<Longrightarrow> positions_of s (others_of sid q) = positions_of s q"
  by (induction q) (auto simp: queued untouchable_def)

lemma entries_others: "s \<noteq> sid \<Longrightarrow> data_entries s (others_of sid q) = data_entries s q"
  by (induction q) (auto simp: queued untouchable_def)

lemma thinned_drop:
  assumes "batch_inv b" and "0 < keep" and "D sid"
  shows "thinned D b (dropOldestQueuedForSession b sid keep salvage)"
proof (cases "int keep < held_chars b sid")
  case False
  then have "dropOldestQueuedForSession b sid keep salvage = b"
    by (simp add: dropOldestQueuedForSession_def Let_def)
  then show ?thesis using assms(1) by (simp add: thinned_refl)
next
  case True
  let ?b = "dropOldestQueuedForSession b sid keep salvage"
  have h: "held_chars b sid \<le> int (length (data_of sid (sb_queue b)))" "plain_tail sid (sb_queue b)"
    using assms(1) by (simp_all add: queue_inv_def)
  note d = drop_oldest [where salvage = salvage, OF True h(1) refl]
  obtain v k where v: "salvaged_tail b sid keep ?b v k" using d(1) by blast
  have other: "queued_atoms s (sb_queue ?b) = queued_atoms s (sb_queue b)"
      "data_of s (sb_queue ?b) = data_of s (sb_queue b)"
      "positions_of s (sb_queue ?b) = positions_of s (sb_queue b)"
      "data_entries s (sb_queue ?b) = data_entries s (sb_queue b)" if "s \<noteq> sid" for s
    using queued_others [OF that] data_others [OF that] positions_others [OF that]
      entries_others [OF that] d(2) by metis+
  have "held_chars ?b s \<le> int (length (data_of s (sb_queue ?b)))" for s
  proof (cases "s = sid")
    case True
    with v h(1) show ?thesis by (auto simp: salvaged_tail_def)
  next
    case False
    with assms(1) d(4) [OF False] other(2) [OF False] show ?thesis by (simp add: queue_inv_def)
  qed
  moreover have "plain_tail s (sb_queue ?b)" for s
    using d(5) [OF assms(2) h(2)] other(4) [of s] assms(1)
    by (cases "s = sid") (auto simp: plain_tail_def queue_inv_def)
  moreover have "positions_of s (sb_queue ?b) = positions_of s (sb_queue b)" for s
    using d(3) other(3) by (cases "s = sid") auto
  moreover have "queued_atoms s (sb_queue ?b) = queued_atoms s (sb_queue b)" if "\<not> D s" for s
    using other(1) that assms(3) by metis
  ultimately show ?thesis
    using assms(1) drop_oldest_plain [of b sid keep salvage] by (simp add: thinned_def queue_inv_def)
qed

lemma keep_tail_pos: "0 < backgroundSessionKeepTailChars n"
  by (simp add: backgroundSessionKeepTailChars_def BACKGROUND_SESSION_KEEP_TAIL_CHARS_def
      BACKGROUND_SESSION_MIN_KEEP_TAIL_CHARS_def)

lemma thinned_others:
  assumes "batch_inv batch" and "0 < keep"
  shows "thinned (en_isSessionDroppable E env) batch (fold (thin_other E env sid cap keep) ps batch)"
  using assms(1)
proof (induction ps arbitrary: batch)
  case Nil
  then show ?case by (simp add: thinned_refl)
next
  case (Cons p ps)
  have 1: "thinned (en_isSessionDroppable E env) batch (thin_other E env sid cap keep p batch)"
    using Cons.prems assms(2) by (simp add: thin_other_def thinned_refl thinned_drop)
  then show ?case
    using thinned_trans [OF 1 Cons.IH] by (simp add: thinned_def)
qed

lemma thinned_batch:
  assumes "batch_inv batch"
  shows "thinned (en_isSessionDroppable E env) batch (thin_batch E env sid batch)"
proof (cases "en_isSessionDroppable E env sid")
  case True
  let ?n = "countDroppable E env batch"
  let ?b1 = "if int (backgroundSessionDropCapChars ?n) < held_chars batch sid
    then dropOldestQueuedForSession batch sid (backgroundSessionKeepTailChars ?n) (en_salvageDroppedData E)
    else batch"
  have 1: "thinned (en_isSessionDroppable E env) batch ?b1"
    using assms True by (simp add: thinned_refl thinned_drop keep_tail_pos)
  then have i: "batch_inv ?b1" by (simp add: thinned_def)
  have 2: "thinned (en_isSessionDroppable E env) ?b1
      (fold (thin_other E env sid (backgroundSessionDropCapChars ?n) (backgroundSessionKeepTailChars ?n))
        (sb_bySession ?b1) ?b1)"
    by (rule thinned_others [OF i keep_tail_pos])
  have 3: "thinned D b c \<Longrightarrow> thinned D b (c\<lparr>sb_lastDroppable := l\<rparr>)" for D b c l
    by (simp add: thinned_def queue_inv_def)
  show ?thesis
    using True thinned_trans [OF 1 2] 1 by (simp add: thin_batch_def Let_def 3)
qed (simp add: thin_batch_def thinned_refl [OF assms])

subsection \<open>Positions on the wire\<close>

text \<open>The positions the receiver counts for a line.\<close>

fun wire_positions :: "wire \<Rightarrow> int" where
  "wire_positions (Wire_data _ data q) = (case q of None \<Rightarrow> int (length data) | Some n \<Rightarrow> n)"
| "wire_positions (Wire_control _ (Data_gap _ d q)) = (case q of None \<Rightarrow> d | Some n \<Rightarrow> n)"
| "wire_positions (Wire_control _ (Other_control _)) = 0"

definition written_positions :: "jsstr \<Rightarrow> jsstr \<Rightarrow> 'e batcher \<Rightarrow> int" where
  "written_positions c s b = sum_list (map wire_positions (written c s (ba_trace b)))"

definition stream_positions :: "jsstr \<Rightarrow> jsstr \<Rightarrow> 'e batcher \<Rightarrow> int" where
  "stream_positions c s b = written_positions c s b + positions_of s (queue_of c b)"

lemma positions_units:
  assumes "n = 0 \<or> n = int (length d)"
  shows "sum_list (map wire_positions (data_units E sid d n)) = n"
proof (cases "n = int (length d)")
  case True
  have "sum_list (map (\<lambda>x. int (length x)) xs) = int (length (concat xs))" for xs :: "jsstr list"
    by (induction xs) auto
  then show ?thesis using True by (simp add: data_units_def Let_def comp_def split_concat)
next
  case False
  with assms show ?thesis by (simp add: data_units_def Let_def comp_def sum_list_0)
qed

lemma written_positions_data:
  "n = 0 \<or> n = int (length d) \<Longrightarrow> written_positions c' s (write_data E c sid d n b) =
     written_positions c' s b + (if c = c' \<and> sid = s then n else 0)"
  by (cases "c = c' \<and> sid = s")
    (auto simp: written_positions_def written_append written_units positions_units)

lemma written_positions_control:
  "written_positions c' s (write_control E c sid k b) =
     written_positions c' s b + (if c = c' \<and> sid = s then wire_positions (Wire_control sid k) else 0)"
  by (simp add: written_positions_def written_append) (simp add: written_def)

lemma control_positions: "se_control e = Some k \<Longrightarrow> entry_positions e = wire_positions (Wire_control sid k)"
  by (cases k) (simp_all add: entry_positions_def)

subsection \<open>Appending\<close>

lemma append_cases:
  obtains (new) "append_data sid d q = q @ [\<lparr>se_sessionId = sid, se_data = d,
      se_sequenceChars = None, se_control = None\<rparr>]"
  | (old) p e where "q = p @ [e]" "se_sessionId e = sid" "se_control e = None"
      "append_data sid d q = p @ [e\<lparr>se_data := se_data e @ d\<rparr>]"
proof (cases "q \<noteq> [] \<and> se_sessionId (last q) = sid \<and> se_control (last q) = None")
  case True
  then show ?thesis using old [of "butlast q" "last q"] by (simp add: append_data_def)
next
  case False
  then have "append_data sid d q = q @ [\<lparr>se_sessionId = sid, se_data = d,
      se_sequenceChars = None, se_control = None\<rparr>]" by (auto simp: append_data_def)
  then show ?thesis by (rule new)
qed

lemma append_effect:
  "queued_atoms s (append_data sid d q) = queued_atoms s q @ (if s = sid then map Char d else [])"
  "data_of s (append_data sid d q) = data_of s q @ (if s = sid then d else [])"
  by (cases rule: append_cases [of sid d q]; auto simp: queued entry_atoms_def)+

lemma append_plain:
  assumes "\<And>s. plain_tail s q" and "list_all plain_entry q"
  shows "plain_tail s (append_data sid d q)" and "list_all plain_entry (append_data sid d q)"
    and "positions_of s (append_data sid d q) =
      positions_of s q + (if s = sid then int (length d) else 0)"
proof -
  have "plain_tail s (append_data sid d q) \<and> list_all plain_entry (append_data sid d q)
    \<and> positions_of s (append_data sid d q) = positions_of s q + (if s = sid then int (length d) else 0)"
  proof (cases rule: append_cases [of sid d q])
    case new
    then show ?thesis using assms
      by (auto simp: new plain_tail_def queued plain_entry_def entry_positions_def sequence_of_def)
  next
    case (old p e)
    have "se_sequenceChars e = None"
      using assms(1) [of sid] old(1-3) by (simp add: plain_tail_def queued)
    with old assms(1) [of s] assms(2) show ?thesis
      by (auto simp: plain_tail_def queued plain_entry_def entry_positions_def sequence_of_def)
  qed
  then show "plain_tail s (append_data sid d q)" "list_all plain_entry (append_data sid d q)"
    "positions_of s (append_data sid d q) = positions_of s q + (if s = sid then int (length d) else 0)"
    by blast+
qed

subsection \<open>The flush loop and the counts\<close>

lemma held_release:
  "held_chars (release_held sid n b) s = (if s \<noteq> sid then held_chars b s
     else max 0 (held_chars b sid - int n))"
  by (auto simp: release_held_def Let_def held_chars_def delete_conv' update_conv' split: option.split)

lemma take_slice_held:
  "held_chars (take_slice e rest b) s = (if s \<noteq> se_sessionId e then held_chars b s
     else max 0 (held_chars b s - int (length (take (slice_end e) (se_data e)))))"
  by (auto simp: take_slice_def Let_def held_release)

lemma slice_end_le: "slice_end e \<le> length (se_data e)"
  by (auto simp: slice_end_def clampToSafeSplitIndex_def BULK_WRITE_SLICE_CHARS_def)

lemma take_slice_inv:
  assumes "queue_inv batch (retained @ e # rest)" and "se_control e = None"
    and "\<forall>x \<in> set retained. se_sessionId x \<noteq> se_sessionId e"
  shows "queue_inv (take_slice e rest batch) (retained @ sb_queue (take_slice e rest batch))"
    and "(if se_sessionId e = s
          then taken_sequence e (length (take (slice_end e) (se_data e))) else 0)
        + positions_of s (sb_queue (take_slice e rest batch)) = positions_of s (e # rest)"
    and "taken_sequence e (length (take (slice_end e) (se_data e))) \<in>
        {0, int (length (take (slice_end e) (se_data e)))}"
proof -
  let ?n = "slice_end e" and ?q = "sb_queue (take_slice e rest batch)"
  have n: "length (take ?n (se_data e)) = ?n" using slice_end_le by simp
  have pe: "plain_entry e" using assms(1) by (simp add: queue_inv_def)
  have ret: "data_of (se_sessionId e) retained = []" "data_entries (se_sessionId e) retained = []"
    using assms(3) by (auto simp: data_of_def data_entries_def filter_empty_conv)
  have data: "data_of s (retained @ ?q) = (if s = se_sessionId e then drop ?n (data_of s (retained @ e # rest))
      else data_of s (retained @ e # rest))" for s
    using assms(2) ret slice_end_le [of e] by (auto simp: take_slice_fields queued)
  have held: "held_chars (take_slice e rest batch) s \<le> int (length (data_of s (retained @ ?q)))" for s
  proof -
    have "held_chars batch s \<le> int (length (data_of s (retained @ e # rest)))"
      using assms(1) unfolding queue_inv_def by blast
    then show ?thesis unfolding take_slice_held data n by auto
  qed
  have tail: "plain_tail s (retained @ ?q)" for s
  proof (cases "s = se_sessionId e")
    case True
    have "plain_tail s (retained @ e # rest)" using assms(1) by (simp add: queue_inv_def)
    then have "plain_tail s (e # rest)" using True assms(2) plain_tail_append [of s "e # rest" retained]
      by (simp add: data_entries_simps)
    then have "plain_tail s rest" "plain_tail s (entry_rest e ?n # rest)"
      using plain_tail_replace [of s e rest "entry_rest e ?n"] entry_rest_plain [OF _ slice_end_le]
        assms(2) by (auto simp: plain_tail_def queued split: if_splits)
    then have "plain_tail s ?q" by (simp add: take_slice_fields)
    then show ?thesis using ret True by (auto simp: plain_tail_def queued)
  next
    case False
    have "data_entries s (retained @ ?q) = data_entries s (retained @ e # rest)"
      using False by (simp add: take_slice_fields data_entries_simps)
    then show ?thesis using assms(1) by (simp add: plain_tail_def queue_inv_def)
  qed
  have "list_all plain_entry (retained @ ?q)"
    using assms(1) plain_entry_rest [OF pe slice_end_le]
    by (simp add: queue_inv_def take_slice_fields)
  with held tail show "queue_inv (take_slice e rest batch) (retained @ ?q)"
    by (simp add: queue_inv_def)
  show "(if se_sessionId e = s then taken_sequence e (length (take ?n (se_data e))) else 0)
        + positions_of s ?q = positions_of s (e # rest)"
    using assms(2) pe slice_end_le [of e] unfolding n
    by (auto simp: take_slice_fields queued entry_positions_def entry_rest_sequence plain_entry_def
        taken_sequence_def)
  show "taken_sequence e (length (take ?n (se_data e))) \<in> {0, int (length (take ?n (se_data e)))}"
    by (simp add: taken_sequence_def)
qed

lemma flush_loop_inv:
  assumes "depth_kept E" and "latched E c batch held b"
    and "\<forall>x \<in> set retained. se_sessionId x \<in> set held"
    and "queue_inv batch (retained @ sb_queue batch)"
    and "flush_loop E c batch held retained b = (batch', retained', b')"
  shows "queue_inv batch' retained'
    \<and> written_positions c s b' + positions_of s retained' =
      written_positions c s b + positions_of s (retained @ sb_queue batch)
    \<and> (c' \<noteq> c \<longrightarrow> written_positions c' s b' = written_positions c' s b)"
  using assms
proof (induction E c batch held retained b rule: flush_loop.induct)
  case (1 E c batch held retained b)
  note eq = flush_loop.simps [of E c batch held retained b]
  show ?case
  proof (cases "sb_queue batch")
    case Nil
    with "1.prems"(4,5) show ?thesis by (auto simp: eq queued)
  next
    case (Cons e rest)
    let ?sid = "se_sessionId e"
    have moved: "queue_inv (batch\<lparr>sb_queue := rest\<rparr>) ((retained @ [e]) @ rest)"
      using "1.prems"(4) Cons by (simp add: queue_inv_def)
    show ?thesis
    proof (cases "se_control e")
      case (Some k)
      show ?thesis
      proof (cases "?sid \<in> set held")
        case True
        have l: "latched E c (batch\<lparr>sb_queue := rest\<rparr>) held b"
          using "1.prems"(2) by (simp add: latched_def)
        have r: "\<forall>x \<in> set (retained @ [e]). se_sessionId x \<in> set held"
          using "1.prems"(3) True by simp
        show ?thesis
          using "1.IH"(3) [OF Cons Some True "1.prems"(1) l r] moved "1.prems"(5) Cons Some True
          by (simp add: eq queued)
      next
        case False
        have l: "latched E c (batch\<lparr>sb_queue := rest\<rparr>) held (write_control E c ?sid k b)"
          using "1.prems"(1,2) by (simp add: latched_def deep_kept_write)
        have i: "queue_inv (batch\<lparr>sb_queue := rest\<rparr>) (retained @ sb_queue (batch\<lparr>sb_queue := rest\<rparr>))"
          using "1.prems"(4) Cons Some by (auto simp: queue_inv_def queued plain_tail_def)
        show ?thesis
          using "1.IH"(4) [OF Cons Some False "1.prems"(1) l "1.prems"(3) i] "1.prems"(5) Cons Some False
            control_positions [OF Some, of ?sid]
          by (auto simp: eq queued written_positions_control)
      qed
    next
      case None
      show ?thesis
      proof (cases "hold_entry E c batch held ?sid b")
        case True
        have l: "latched E c (batch\<lparr>sb_queue := rest\<rparr>) (?sid # held) b"
          using True by (simp add: latched_def hold_entry_def)
        have r: "\<forall>x \<in> set (retained @ [e]). se_sessionId x \<in> set (?sid # held)"
          using "1.prems"(3) by simp
        show ?thesis
          using "1.IH"(1) [OF Cons None True "1.prems"(1) l r] moved "1.prems"(5) Cons None True
          by (simp add: eq queued)
      next
        case False
        let ?n = "length (take (slice_end e) (se_data e))"
        let ?b = "write_data E c ?sid (take (slice_end e) (se_data e)) (taken_sequence e ?n) b"
        have l: "latched E c (take_slice e rest batch) held ?b"
          using "1.prems"(1,2) take_slice_fields(1) [of e rest batch]
          by (auto simp: latched_def deep_kept_write)
        have nh: "\<forall>x \<in> set retained. se_sessionId x \<noteq> ?sid"
          using False "1.prems"(2,3) by (cases held) (auto simp: hold_entry_def latched_def)
        have q: "queue_inv batch (retained @ e # rest)" using "1.prems"(4) Cons by simp
        note ts = take_slice_inv [OF q None nh]
        have w: "written_positions c'' s ?b = written_positions c'' s b +
            (if c = c'' \<and> ?sid = s then taken_sequence e ?n else 0)" for c''
          by (rule written_positions_data) (use ts(3) in auto)
        show ?thesis
          using "1.IH"(2) [OF Cons None False "1.prems"(1) l "1.prems"(3) ts(1)]
            "1.prems"(5) Cons None False ts(2) [of s] w
          by (auto simp: eq positions_of_simps(3))
      qed
    qed
  qed
qed

subsection \<open>Operations\<close>

definition ba_inv :: "'e batcher \<Rightarrow> bool" where
  "ba_inv b = (\<forall>c batch. ba_pendingByClient b c = Some batch \<longrightarrow> batch_inv batch)"

text \<open>The effect of a call on one session of one client: the invariant, the stream, when the
  session is not thinned, and the positions.\<close>

definition effect ::
  "jsstr \<Rightarrow> jsstr \<Rightarrow> bool \<Rightarrow> 'e batcher \<Rightarrow> 'e batcher \<Rightarrow> atom list \<Rightarrow> int \<Rightarrow> bool" where
  "effect c s thin b b' atoms n = (ba_inv b' \<and> stream_positions c s b' = stream_positions c s b + n
     \<and> (\<not> thin \<longrightarrow> stream_of c s b' = stream_of c s b @ atoms))"

lemma effect_refl: "ba_inv b \<Longrightarrow> effect c s thin b b [] 0"
  by (simp add: effect_def)

lemma effect_trans:
  "effect c s thin b b1 as n \<Longrightarrow> effect c s thin b1 b2 as' n' \<Longrightarrow> effect c s thin b b2 (as @ as') (n + n')"
  by (simp add: effect_def)

lemma queue_inv_empty [simp]: "batch_inv new_batch"
  by (simp add: queue_inv_def new_batch_def held_chars_def queued plain_tail_def)

lemma queue_inv_fields [simp]:
  "queue_inv (batch\<lparr>sb_timer := t\<rparr>) q = queue_inv batch q"
  "queue_inv (batch\<lparr>sb_queue := q'\<rparr>) q = queue_inv batch q"
  "queue_inv (batch\<lparr>sb_queuedChars := n\<rparr>) q = queue_inv batch q"
  by (simp_all add: queue_inv_def)

lemma set_batch_fields [simp]:
  "ba_pendingByClient (set_batch c x b) = (ba_pendingByClient b)(c := x)"
  "ba_trace (set_batch c x b) = ba_trace b" "ba_env (set_batch c x b) = ba_env b"
  "ba_refillArmed (set_batch c x b) = ba_refillArmed b"
  "ba_sentinels (set_batch c x b) = ba_sentinels b"
  by (simp_all add: set_batch_def)

lemma queue_of_set: "queue_of c (set_batch c' x b) =
   (if c = c' then (case x of None \<Rightarrow> [] | Some batch \<Rightarrow> sb_queue batch) else queue_of c b)"
  by (simp add: queue_of_def)

lemma written_set [simp]:
  "written_atoms c s (set_batch c' x b) = written_atoms c s b"
  "written_positions c s (set_batch c' x b) = written_positions c s b"
  by (simp_all add: written_atoms_def written_positions_def)

lemma ba_inv_set: "ba_inv b \<Longrightarrow> (\<And>batch. x = Some batch \<Longrightarrow> batch_inv batch) \<Longrightarrow> ba_inv (set_batch c x b)"
  by (simp add: ba_inv_def)

lemma ba_inv_pending: "ba_inv b \<Longrightarrow> ba_pendingByClient b' = ba_pendingByClient b \<Longrightarrow> ba_inv b'"
  by (simp add: ba_inv_def)

text \<open>The sentinel stands for nothing.\<close>

lemma effect_refill:
  assumes "ba_inv b"
  shows "effect c s thin b (armHeldQueueRefill E c' sid b) [] 0"
proof -
  have "queue_of c (put_with_callback E c' (Wire_data sid [] None) (b\<lparr>ba_refillArmed := r\<rparr>)) = queue_of c b" for r
    by (simp add: queue_of_def)
  moreover have "written_atoms c s (put_with_callback E c' (Wire_data sid [] None) (b\<lparr>ba_refillArmed := r\<rparr>)) =
      written_atoms c s b" for r
    by (simp add: written_atoms_def written_append) (simp add: written_def)
  moreover have "written_positions c s (put_with_callback E c' (Wire_data sid [] None) (b\<lparr>ba_refillArmed := r\<rparr>)) =
      written_positions c s b" for r
    by (simp add: written_positions_def written_append) (simp add: written_def)
  ultimately show ?thesis
    using assms by (auto simp: armHeldQueueRefill_def effect_def stream_of_def stream_positions_def
        intro: ba_inv_pending [OF assms])
qed

lemma effect_flush:
  assumes "depth_kept E" and "ba_inv b" and "en_alive E (ba_env b) c' \<or> c' \<noteq> c"
  shows "effect c s thin b (flush E c' b) [] 0"
proof (cases "ba_pendingByClient b c'")
  case None
  then show ?thesis by (simp add: flush_def effect_refl assms(2))
next
  case (Some batch)
  have i: "queue_inv (batch\<lparr>sb_timer := False\<rparr>) ([] @ sb_queue (batch\<lparr>sb_timer := False\<rparr>))"
    using assms(2) Some by (simp add: ba_inv_def)
  show ?thesis
  proof (cases "en_alive E (ba_env b) c'")
    case False
    then show ?thesis
      using assms(2,3) Some by (auto simp: flush_def effect_def stream_of_def stream_positions_def
          queue_of_set intro!: ba_inv_set)
  next
    case True
    obtain batch' ret b' where fl: "flush_loop E c' (batch\<lparr>sb_timer := False\<rparr>) [] [] b = (batch', ret, b')"
      using prod_cases3 by blast
    have l: "latched E c' (batch\<lparr>sb_timer := False\<rparr>) [] b" by (simp add: latched_def)
    have st: "written_atoms c' s b' @ queued_atoms s ret = written_atoms c' s b @ queued_atoms s (sb_queue batch)"
        "c \<noteq> c' \<Longrightarrow> written_atoms c s b' = written_atoms c s b" "ba_pendingByClient b' = ba_pendingByClient b"
      using flush_loop_stream [OF assms(1) l _ fl, of s c] by (simp_all add: queued)
    have po: "queue_inv batch' ret"
        "written_positions c' s b' + positions_of s ret = written_positions c' s b + positions_of s (sb_queue batch)"
        "c \<noteq> c' \<Longrightarrow> written_positions c s b' = written_positions c s b"
      using flush_loop_inv [OF assms(1) l _ i fl, of s c] by (simp_all add: queued)
    define b1 where "b1 = set_batch c' (if ret = [] then None else Some (batch'\<lparr>sb_queue := ret\<rparr>)) b'"
    have inv1: "ba_inv b1"
      unfolding b1_def using ba_inv_pending [OF assms(2) st(3)] po(1)
      by (auto intro!: ba_inv_set)
    have q1: "queue_of c b1 = (if c = c' then ret else queue_of c b)"
      unfolding b1_def queue_of_set using st(3) by (simp add: queue_of_def)
    have qb: "queue_of c' b = sb_queue batch" using Some by (simp add: queue_of_def)
    have e: "effect c s thin b b1 [] 0"
      using inv1 st(1,2) po(2,3) q1 qb
      by (cases "c = c'") (auto simp: effect_def stream_of_def stream_positions_def b1_def)
    have "flush E c' b = (case ret of [] \<Rightarrow> b1
        | x # _ \<Rightarrow> armHeldQueueRefill E c' (se_sessionId x) b1)"
      using Some True fl by (simp add: flush_def b1_def split: list.split)
    then show ?thesis
      using e effect_trans [OF e effect_refill [OF inv1]] by (cases ret) simp_all
  qed
qed

subsection \<open>Flushing one session\<close>

lemma write_entry_effect:
  assumes "plain_entry e"
  shows "written_atoms c s (write_entry E c' e b) =
      written_atoms c s b @ (if c' = c \<and> se_sessionId e = s then entry_atoms e else [])"
    and "written_positions c s (write_entry E c' e b) =
      written_positions c s b + (if c' = c \<and> se_sessionId e = s then entry_positions e else 0)"
    and "ba_pendingByClient (write_entry E c' e b) = ba_pendingByClient b"
proof -
  have "written_atoms c s (write_entry E c' e b) =
      written_atoms c s b @ (if c' = c \<and> se_sessionId e = s then entry_atoms e else [])
    \<and> written_positions c s (write_entry E c' e b) =
      written_positions c s b + (if c' = c \<and> se_sessionId e = s then entry_positions e else 0)
    \<and> ba_pendingByClient (write_entry E c' e b) = ba_pendingByClient b"
  proof (cases "se_control e")
    case None
    with assms have "sequence_of e = 0 \<or> sequence_of e = int (length (se_data e))"
      by (simp add: plain_entry_def)
    note w = written_positions_data [OF this]
    from None show ?thesis
      by (simp add: write_entry_def written_simps entry_atoms_def entry_positions_def w)
  next
    case (Some k)
    with control_positions [OF Some, of "se_sessionId e"] show ?thesis
      by (simp add: write_entry_def written_simps written_positions_control entry_atoms_def)
  qed
  then show "written_atoms c s (write_entry E c' e b) =
      written_atoms c s b @ (if c' = c \<and> se_sessionId e = s then entry_atoms e else [])"
    "written_positions c s (write_entry E c' e b) =
      written_positions c s b + (if c' = c \<and> se_sessionId e = s then entry_positions e else 0)"
    "ba_pendingByClient (write_entry E c' e b) = ba_pendingByClient b" by blast+
qed

lemma write_entries_effect:
  assumes "list_all plain_entry q"
  shows "written_atoms c s (fold (write_entry E c') q b) =
      written_atoms c s b @ (if c' = c then queued_atoms s q else [])
    \<and> written_positions c s (fold (write_entry E c') q b) =
      written_positions c s b + (if c' = c then positions_of s q else 0)
    \<and> ba_pendingByClient (fold (write_entry E c') q b) = ba_pendingByClient b"
  using assms
proof (induction q arbitrary: b)
  case (Cons e q)
  have e: "plain_entry e" and q: "list_all plain_entry q" using Cons.prems by simp_all
  show ?case
    using Cons.IH [OF q, of "write_entry E c' e b"]
    by (simp add: queued write_entry_effect [OF e])
qed (simp add: queued)

lemma split_session:
  "queued_atoms s (filter (\<lambda>e. se_sessionId e = sid) q) = (if s = sid then queued_atoms s q else [])"
  "queued_atoms s (filter (\<lambda>e. se_sessionId e \<noteq> sid) q) = (if s = sid then [] else queued_atoms s q)"
  "positions_of s (filter (\<lambda>e. se_sessionId e = sid) q) = (if s = sid then positions_of s q else 0)"
  "positions_of s (filter (\<lambda>e. se_sessionId e \<noteq> sid) q) = (if s = sid then 0 else positions_of s q)"
  "data_of s (filter (\<lambda>e. se_sessionId e \<noteq> sid) q) = (if s = sid then [] else data_of s q)"
  "data_entries s (filter (\<lambda>e. se_sessionId e \<noteq> sid) q) = (if s = sid then [] else data_entries s q)"
  by (induction q; auto simp: queued)+

lemma effect_flushSession:
  assumes "ba_inv b" and "en_alive E (ba_env b) c' \<or> c' \<noteq> c"
  shows "effect c s thin b (flushSession E c' sid b) [] 0"
proof (cases "ba_pendingByClient b c'")
  case None
  then show ?thesis by (simp add: flushSession_def effect_refl assms(1))
next
  case (Some batch)
  let ?fl = "filter (\<lambda>e. se_sessionId e = sid) (sb_queue batch)"
  let ?ret = "filter (\<lambda>e. se_sessionId e \<noteq> sid) (sb_queue batch)"
  let ?batch = "batch\<lparr>sb_queue := ?ret,
      sb_queuedChars := sb_queuedChars batch - int (queuedCharsForSession batch sid),
      sb_bySession := AList.delete sid (sb_bySession batch)\<rparr>"
  define b1 where "b1 = set_batch c' (if ?ret = [] then None else Some ?batch) b"
  have i: "batch_inv batch" using assms(1) Some by (simp add: ba_inv_def)
  have fp: "list_all plain_entry ?fl" "list_all plain_entry ?ret"
    using i by (auto simp: queue_inv_def list_all_iff)
  have "held_chars ?batch s' = (if s' = sid then 0 else held_chars batch s')" for s'
    by (simp add: held_chars_def delete_conv')
  then have i': "batch_inv ?batch"
    using i fp(2) by (simp add: queue_inv_def split_session plain_tail_def)
  have inv1: "ba_inv b1" unfolding b1_def using assms(1) i' by (auto intro!: ba_inv_set)
  have q1: "queue_of c b1 = (if c = c' then ?ret else queue_of c b)"
    by (simp add: b1_def queue_of_set)
  have qb: "queue_of c' b = sb_queue batch" using Some by (simp add: queue_of_def)
  have w1: "written_atoms c s b1 = written_atoms c s b" "written_positions c s b1 = written_positions c s b"
    by (simp_all add: b1_def)
  define b2 where "b2 = fold (write_entry E c') ?fl b1"
  note w2 = write_entries_effect [OF fp(1), of c s E c' b1, folded b2_def]
  have q2: "queue_of c b2 = queue_of c b1" using w2 by (simp add: queue_of_def)
  have e2: "effect c s thin b b2 [] 0"
    using inv1 w1 w2 q1 q2 qb ba_inv_pending [OF inv1, of b2] arg_cong [OF split_session(1), of length]
    by (cases "c = c'") (auto simp: effect_def stream_of_def stream_positions_def split_session)
  have e1: "effect c s thin b b1 [] 0" if "c \<noteq> c'"
    using that inv1 w1 q1 by (simp add: effect_def stream_of_def stream_positions_def)
  have "flushSession E c' sid b = (if ?fl = [] then b else if en_alive E (ba_env b) c' then b2 else b1)"
    using Some by (simp add: flushSession_def Let_def b1_def b2_def)
  then show ?thesis using e1 e2 effect_refl [OF assms(1)] assms(2) by auto
qed

subsection \<open>Enqueueing\<close>

lemma effect_set:
  assumes "ba_inv b" and "batch_inv batch"
    and "positions_of s (sb_queue batch) = positions_of s (queue_of c' b) + n"
    and "\<not> thin \<Longrightarrow> queued_atoms s (sb_queue batch) = queued_atoms s (queue_of c' b) @ as"
  shows "effect c s thin b (set_batch c' (Some batch) b) (if c = c' then as else []) (if c = c' then n else 0)"
  using assms by (cases "c = c'")
    (auto simp: effect_def stream_of_def stream_positions_def queue_of_set intro!: ba_inv_set)

lemma batch_inv_create: "ba_inv b \<Longrightarrow> batch_inv (getOrCreateBatch c b)"
  by (auto simp: getOrCreateBatch_def ba_inv_def split: option.split)

lemma queue_create: "sb_queue (getOrCreateBatch c b) = queue_of c b"
  by (auto simp: getOrCreateBatch_def queue_of_def new_batch_def split: option.split)

lemma effect_enqueue:
  assumes "ba_inv b" and "en_alive E (ba_env b) c' \<or> c' \<noteq> c"
    and "en_isSessionDroppable E (ba_env b) s \<Longrightarrow> thin"
  shows "effect c s thin b (enqueue E c' sid d im mx b)
    (if c = c' \<and> s = sid then map Char d else []) (if c = c' \<and> s = sid then int (length d) else 0)"
proof (cases "en_alive E (ba_env b) c'")
  case False
  with assms(1,2) show ?thesis by (auto simp: enqueue_def effect_refl)
next
  case True
  let ?batch = "getOrCreateBatch c' b"
  define batch1 where "batch1 = add_held sid (int (length d))
      (?batch\<lparr>sb_queue := append_data sid d (sb_queue ?batch),
             sb_queuedChars := sb_queuedChars ?batch + int (length d)\<rparr>)"
  define batch2 where "batch2 = thin_batch E (ba_env b) sid batch1"
  have i: "batch_inv ?batch" by (rule batch_inv_create [OF assms(1)])
  have tails: "\<And>s. plain_tail s (sb_queue ?batch)" "list_all plain_entry (sb_queue ?batch)"
    using i by (simp_all add: queue_inv_def)
  have q1: "sb_queue batch1 = append_data sid d (queue_of c' b)"
    by (simp add: batch1_def queue_create)
  have h1: "held_chars batch1 s' = held_chars ?batch s' + (if s' = sid then int (length d) else 0)" for s'
    by (simp add: batch1_def held_add_held)
  have i1: "batch_inv batch1"
    using i append_plain(1) [OF tails, of _ sid d] append_plain(2) [OF tails, of sid d] h1
    by (auto simp: queue_inv_def q1 append_effect queue_create)
  have t: "thinned (en_isSessionDroppable E (ba_env b)) batch1 batch2"
    unfolding batch2_def by (rule thinned_batch [OF i1])
  have p2: "positions_of s (sb_queue batch2) =
      positions_of s (queue_of c' b) + (if s = sid then int (length d) else 0)"
    using t append_plain(3) [OF tails, of s sid d] by (simp add: thinned_def q1 queue_create)
  have a2: "queued_atoms s (sb_queue batch2) =
      queued_atoms s (queue_of c' b) @ (if s = sid then map Char d else [])" if "\<not> thin"
  proof -
    have "\<not> en_isSessionDroppable E (ba_env b) s" using assms(3) that by blast
    with t show ?thesis by (simp add: thinned_def q1 append_effect)
  qed
  have i2: "batch_inv batch2" using t by (simp add: thinned_def)
  have *: "effect c s thin b (set_batch c' (Some (batch2\<lparr>sb_timer := x\<rparr>)) b)
      (if c = c' \<and> s = sid then map Char d else []) (if c = c' \<and> s = sid then int (length d) else 0)" for x
    using effect_set [OF assms(1), of "batch2\<lparr>sb_timer := x\<rparr>" s c' _ thin _ c] i2 p2 a2
    by (cases "s = sid") (force split: if_splits)+
  have eq: "enqueue E c' sid d im mx b =
      (if im \<and> (case mx of None \<Rightarrow> True | Some n \<Rightarrow> queuedCharsForSession batch2 sid \<le> n)
       then flushSession E c' sid (set_batch c' (Some batch2) b)
       else set_batch c' (Some (batch2\<lparr>sb_timer := True\<rparr>)) b)"
    using True unfolding enqueue_def Let_def batch1_def batch2_def by simp
  show ?thesis
  proof (cases "im \<and> (case mx of None \<Rightarrow> True | Some n \<Rightarrow> queuedCharsForSession batch2 sid \<le> n)")
    case False
    show ?thesis unfolding eq if_not_P [OF False] by (rule *)
  next
    case im: True
    have e: "effect c s thin b (set_batch c' (Some batch2) b)
      (if c = c' \<and> s = sid then map Char d else []) (if c = c' \<and> s = sid then int (length d) else 0)"
      using * [of "sb_timer batch2"] by simp
    have "effect c s thin (set_batch c' (Some batch2) b)
        (flushSession E c' sid (set_batch c' (Some batch2) b)) [] 0"
      by (rule effect_flushSession) (use e True in \<open>simp_all add: effect_def\<close>)
    from effect_trans [OF e this] show ?thesis unfolding eq if_P [OF im] by simp
  qed
qed

lemma effect_control:
  assumes "ba_inv b" and "en_alive E (ba_env b) c' \<or> c' \<noteq> c"
  shows "effect c s thin b (enqueueControlEvent E c' sid k b)
    (if c = c' \<and> s = sid then [Event k] else [])
    (if c = c' \<and> s = sid then wire_positions (Wire_control sid k) else 0)"
proof (cases "en_alive E (ba_env b) c'")
  case False
  with assms(1,2) show ?thesis by (auto simp: enqueueControlEvent_def effect_refl)
next
  case True
  let ?e = "\<lparr>se_sessionId = sid, se_data = [], se_sequenceChars = None, se_control = Some k\<rparr>"
  let ?batch = "(getOrCreateBatch c' b)\<lparr>sb_queue := sb_queue (getOrCreateBatch c' b) @ [?e], sb_timer := True\<rparr>"
  have i: "batch_inv ?batch"
    using batch_inv_create [OF assms(1), of c']
    by (auto simp: queue_inv_def queued plain_tail_def plain_entry_def)
  have ep: "entry_positions ?e = wire_positions (Wire_control sid k)"
    by (rule control_positions) simp
  have "positions_of s (sb_queue ?batch) = positions_of s (queue_of c' b)
      + (if s = sid then wire_positions (Wire_control sid k) else 0)"
    "queued_atoms s (sb_queue ?batch) = queued_atoms s (queue_of c' b) @ (if s = sid then [Event k] else [])"
    by (simp_all add: queue_create queued ep entry_atoms_def)
  from effect_set [where thin = thin and c = c, OF assms(1) i this] True show ?thesis
    by (auto simp: enqueueControlEvent_def Let_def split: if_splits)
qed

subsection \<open>Any sequence of calls\<close>

text \<open>The calls, with what the environment does between them: output of a session, a control
  event, the timer or the drain event of a client's socket, the callback of the sentinel.\<close>

datatype 'e stream_op =
    Op_enqueue jsstr jsstr jsstr bool "nat option"
  | Op_control jsstr jsstr stream_control
  | Op_flush jsstr
  | Op_refill_written jsstr
  | Op_environment "'e \<Rightarrow> 'e"

fun exec_op :: "'e stream_env \<Rightarrow> 'e stream_op \<Rightarrow> 'e batcher \<Rightarrow> 'e batcher" where
  "exec_op E (Op_enqueue c sid d im mx) b = enqueue E c sid d im mx b"
| "exec_op E (Op_control c sid k) b = enqueueControlEvent E c sid k b"
| "exec_op E (Op_flush c) b = flush E c b"
| "exec_op E (Op_refill_written c) b = sentinel_written E c b"
| "exec_op E (Op_environment f) b = b\<lparr>ba_env := f (ba_env b)\<rparr>"

fun op_atoms :: "jsstr \<Rightarrow> jsstr \<Rightarrow> 'e stream_op \<Rightarrow> atom list" where
  "op_atoms c s (Op_enqueue c' sid d im mx) = (if c = c' \<and> s = sid then map Char d else [])"
| "op_atoms c s (Op_control c' sid k) = (if c = c' \<and> s = sid then [Event k] else [])"
| "op_atoms c s _ = []"

fun op_positions :: "jsstr \<Rightarrow> jsstr \<Rightarrow> 'e stream_op \<Rightarrow> int" where
  "op_positions c s (Op_enqueue c' sid d im mx) = (if c = c' \<and> s = sid then int (length d) else 0)"
| "op_positions c s (Op_control c' sid k) =
     (if c = c' \<and> s = sid then wire_positions (Wire_control sid k) else 0)"
| "op_positions c s _ = 0"

lemma effect_env: "ba_inv b \<Longrightarrow> effect c s thin b (b\<lparr>ba_env := e\<rparr>) [] 0"
  by (simp add: effect_def ba_inv_def stream_of_def stream_positions_def written_atoms_def
      written_positions_def queue_of_def)

lemma effect_op:
  assumes "depth_kept E" and "\<And>env. en_alive E env c" and "ba_inv b"
    and "\<And>env. en_isSessionDroppable E env s \<Longrightarrow> thin"
  shows "effect c s thin b (exec_op E op b) (op_atoms c s op) (op_positions c s op)"
proof (cases op)
  case (Op_enqueue c' sid d im mx)
  show ?thesis unfolding Op_enqueue exec_op.simps op_atoms.simps op_positions.simps
    by (rule effect_enqueue [OF assms(3) _ assms(4)]) (use assms(2) in auto)
next
  case (Op_control c' sid k)
  show ?thesis unfolding Op_control exec_op.simps op_atoms.simps op_positions.simps
    by (rule effect_control [OF assms(3)]) (use assms(2) in auto)
next
  case (Op_flush c')
  show ?thesis unfolding Op_flush exec_op.simps op_atoms.simps op_positions.simps
    by (rule effect_flush [OF assms(1,3)]) (use assms(2) in auto)
next
  case (Op_refill_written c')
  let ?b = "b\<lparr>ba_sentinels := remove1 c' (ba_sentinels b),
    ba_refillArmed := filter (\<lambda>x. x \<noteq> c') (ba_refillArmed b)\<rparr>"
  have e: "effect c s thin b ?b [] 0"
    using assms(3) by (simp add: effect_def ba_inv_def stream_of_def stream_positions_def
        written_atoms_def written_positions_def queue_of_def)
  have "effect c s thin ?b (flush E c' ?b) [] 0"
    by (rule effect_flush [OF assms(1)]) (use e assms(2) in \<open>auto simp: effect_def\<close>)
  from effect_trans [OF e this] effect_refl [OF assms(3)] show ?thesis
    by (simp add: Op_refill_written refill_written_def sentinel_written_def)
next
  case (Op_environment f)
  then show ?thesis using effect_env [OF assms(3)] by simp
qed

lemma effect_ops:
  assumes "depth_kept E" and "\<And>env. en_alive E env c" and "ba_inv b"
    and "\<And>env. en_isSessionDroppable E env s \<Longrightarrow> thin"
  shows "effect c s thin b (fold (exec_op E) ops b) (concat (map (op_atoms c s) ops))
    (sum_list (map (op_positions c s) ops))"
  using assms(3)
proof (induction ops arbitrary: b)
  case Nil
  then show ?case by (simp add: effect_refl)
next
  case (Cons op ops)
  have e: "effect c s thin b (exec_op E op b) (op_atoms c s op) (op_positions c s op)"
    by (rule effect_op [OF assms(1,2) Cons.prems assms(4)])
  then have "ba_inv (exec_op E op b)" by (simp add: effect_def)
  from effect_trans [OF e Cons.IH [OF this]] show ?case by simp
qed

lemma new_batcher_effect:
  "ba_inv (new_batcher env)" "stream_of c s (new_batcher env) = []"
  "stream_positions c s (new_batcher env) = 0"
  by (simp_all add: ba_inv_def new_batcher_def stream_of_def stream_positions_def written_atoms_def
      written_positions_def written_def queue_of_def queued)

text \<open>
  C7. Order and completeness of each session's stream: whatever the calls of all sessions, the
  timers, drain events and sentinel callbacks, and in whatever order they come, what was
  written for a session that may not be thinned, followed by what is still queued for it, is
  its output and its control events in the order in which they were enqueued; nothing is
  lost, doubled or passed by anything else of the session.
\<close>

theorem batcher_fifo:
  assumes "depth_kept E" and "\<And>env. en_alive E env c" and "\<And>env. \<not> en_isSessionDroppable E env s"
  shows "stream_of c s (fold (exec_op E) ops (new_batcher env)) = concat (map (op_atoms c s) ops)"
proof -
  have "effect c s False (new_batcher env) (fold (exec_op E) ops (new_batcher env))
      (concat (map (op_atoms c s) ops)) (sum_list (map (op_positions c s) ops))"
    by (rule effect_ops [OF assms(1,2) new_batcher_effect(1)]) (use assms(3) in blast)
  then show ?thesis by (simp add: effect_def new_batcher_effect)
qed

text \<open>A socket that is never drained, with its depth as the environment; the sessions named
  \<open>b\<close> are in the background.\<close>

definition demo_stream :: "nat stream_env" where
  "demo_stream = \<lparr>en_alive = \<lambda>_ _. True, en_depth = \<lambda>n _. n, en_write = \<lambda>_ l n. n + length l,
     en_onAfterSocketWrite = \<lambda>n. n, en_isSessionDroppable = \<lambda>_ s. s = js ''b'',
     en_salvageDroppedData = \<lambda>_. [], en_maxLineBytes = None,
     en_ORCA_DAEMON_SHALLOW_SOCKET_GATE = None\<rparr>"

lemma demo_depth_kept: "depth_kept demo_stream"
  by (simp add: depth_kept_def demo_stream_def at_gate_def SHALLOW_SOCKET_WRITE_GATE_BYTES_def)

definition demo_ops :: "nat stream_op list" where
  "demo_ops = [Op_enqueue (js ''c'') (js ''s'') (js ''x'') False None,
     Op_enqueue (js ''c'') (js ''b'') (js ''yz'') True None,
     Op_control (js ''c'') (js ''s'') (Other_control JNull), Op_flush (js ''c''),
     Op_environment (\<lambda>n. n + 200000), Op_enqueue (js ''c'') (js ''s'') (js ''w'') False None]"

theorem batcher_fifo_witness:
  "stream_of (js ''c'') (js ''s'') (fold (exec_op demo_stream) demo_ops (new_batcher 0)) =
     [Char 120, Event (Other_control JNull), Char 119]"
proof -
  have "en_alive demo_stream env (js ''c'')" "\<not> en_isSessionDroppable demo_stream env (js ''s'')" for env
    by (simp_all add: demo_stream_def)
  from batcher_fifo [OF demo_depth_kept this, of demo_ops 0] show ?thesis by (simp add: demo_ops_def)
qed

text \<open>
  C31. Positions are conserved, also for sessions that are thinned: the positions the receiver
  has counted, data and gaps, and those still queued add up to the characters that the session
  has put out (and the positions of the gap events it was given).
\<close>

theorem batcher_positions:
  assumes "depth_kept E" and "\<And>env. en_alive E env c"
  shows "stream_positions c s (fold (exec_op E) ops (new_batcher env)) =
    sum_list (map (op_positions c s) ops)"
  using effect_ops [where thin = True, OF assms new_batcher_effect(1)]
  by (simp add: effect_def new_batcher_effect)

theorem batcher_positions_witness:
  "stream_positions (js ''c'') (js ''b'') (fold (exec_op demo_stream) demo_ops (new_batcher 0)) = 2"
proof -
  have "en_alive demo_stream env (js ''c'')" for env by (simp add: demo_stream_def)
  from batcher_positions [OF demo_depth_kept this, of "js ''b''" demo_ops 0] show ?thesis
    by (simp add: demo_ops_def)
qed

end
