(* ===== verification/Batcher_Progress.thy ===== *)
theory Batcher_Progress
  imports Batcher_Order
begin

section \<open>The batcher does not hold output for ever\<close>

text \<open>
  A session with little queued passes the floods of the others at once, and whatever a flush
  has to hold back is flushed again: a timer is set or a sentinel line is under way, whose
  callback flushes.
\<close>

subsection \<open>Small sessions\<close>

definition held_back :: "jsstr \<Rightarrow> stream_entry list \<Rightarrow> stream_entry list" where
  "held_back s q = filter (\<lambda>e. se_sessionId e = s) q"

lemma flush_loop_small:
  assumes "s \<notin> set held" and "held_back s retained = []"
    and "held_chars batch s \<le> SMALL_SESSION_HOLD_BYPASS_CHARS"
    and "flush_loop E c batch held retained b = (batch', retained', b')"
  shows "held_back s retained' = []"
  using assms
proof (induction E c batch held retained b rule: flush_loop.induct)
  case (1 E c batch held retained b)
  note eq = flush_loop.simps [of E c batch held retained b]
  show ?case
  proof (cases "sb_queue batch")
    case Nil
    with "1.prems" show ?thesis by (simp add: eq)
  next
    case (Cons e rest)
    let ?sid = "se_sessionId e"
    show ?thesis
    proof (cases "se_control e")
      case (Some k)
      show ?thesis
      proof (cases "?sid \<in> set held")
        case True
        then have "held_back s (retained @ [e]) = []"
          using "1.prems"(1,2) by (auto simp: held_back_def)
        then show ?thesis
          using "1.IH"(3) [OF Cons Some True "1.prems"(1)] "1.prems"(3,4) Cons Some True by (simp add: eq)
      next
        case False
        then show ?thesis
          using "1.IH"(4) [OF Cons Some False "1.prems"(1,2)] "1.prems"(3,4) Cons Some by (simp add: eq)
      qed
    next
      case None
      show ?thesis
      proof (cases "hold_entry E c batch held ?sid b")
        case True
        then have ne: "?sid \<noteq> s" using "1.prems"(1,3) by (auto simp: hold_entry_def)
        then have "held_back s (retained @ [e]) = []" "s \<notin> set (?sid # held)"
          using "1.prems"(1,2) by (auto simp: held_back_def)
        then show ?thesis
          using "1.IH"(1) [OF Cons None True] "1.prems"(3,4) Cons None True by (simp add: eq)
      next
        case False
        have "held_chars (take_slice e rest batch) s \<le> SMALL_SESSION_HOLD_BYPASS_CHARS"
          using "1.prems"(3) by (auto simp: take_slice_held SMALL_SESSION_HOLD_BYPASS_CHARS_def)
        then show ?thesis
          using "1.IH"(2) [OF Cons None False "1.prems"(1,2)] "1.prems"(4) Cons None False by (simp add: eq)
      qed
    qed
  qed
qed

lemma refill_queue [simp]: "queue_of c (armHeldQueueRefill E c' sid b) = queue_of c b"
  by (simp add: armHeldQueueRefill_def queue_of_def)

text \<open>
  Small sessions are never held: when a flush starts, a session with at most 4K characters
  queued is written out completely, its control events with it, however deep the socket is
  and however much the other sessions have queued.
\<close>

theorem small_session_bypass:
  assumes "ba_pendingByClient b c = Some batch" and "en_alive E (ba_env b) c"
    and "held_chars batch s \<le> SMALL_SESSION_HOLD_BYPASS_CHARS"
  shows "held_back s (queue_of c (flush E c b)) = []"
proof -
  obtain batch' ret b' where fl: "flush_loop E c (batch\<lparr>sb_timer := False\<rparr>) [] [] b = (batch', ret, b')"
    using prod_cases3 by blast
  have "held_back s ret = []"
    by (rule flush_loop_small [OF _ _ _ fl]) (use assms(3) in \<open>simp_all add: held_back_def\<close>)
  moreover have "queue_of c (flush E c b) = ret"
    using assms(1,2) fl by (cases ret) (simp_all add: flush_def queue_of_set)
  ultimately show ?thesis by simp
qed

definition flooded_batch :: stream_batch where
  "flooded_batch = \<lparr>sb_timer = False,
     sb_queue = [\<lparr>se_sessionId = js ''f'', se_data = js ''ff'', se_sequenceChars = None, se_control = None\<rparr>,
       \<lparr>se_sessionId = js ''s'', se_data = js ''x'', se_sequenceChars = None, se_control = None\<rparr>],
     sb_queuedChars = 9999, sb_bySession = [(js ''f'', 9998), (js ''s'', 1)],
     sb_lastDroppable = None\<rparr>"

definition flooded :: "nat batcher" where
  "flooded = set_batch (js ''c'') (Some flooded_batch) (new_batcher 200000)"

theorem small_session_bypass_witness:
  "held_back (js ''s'') (queue_of (js ''c'') (flush demo_stream (js ''c'') flooded)) = []"
  by (rule small_session_bypass [of _ _ flooded_batch])
    (simp_all add: flooded_def flooded_batch_def demo_stream_def held_chars_def
      SMALL_SESSION_HOLD_BYPASS_CHARS_def)

subsection \<open>No stall\<close>

text \<open>Whenever something is pending for a client, a flush of it is under way: its timer is set, or
  the socket holds the callback of a sentinel that was written for it.\<close>

definition flush_due :: "jsstr \<Rightarrow> 'e batcher \<Rightarrow> bool" where
  "flush_due c b = (case ba_pendingByClient b c of None \<Rightarrow> True
     | Some batch \<Rightarrow> sb_timer batch \<or> c \<in> set (ba_sentinels b))"

lemma flush_due_cong:
  "ba_pendingByClient b' c = ba_pendingByClient b c \<Longrightarrow>
   (c \<in> set (ba_sentinels b) \<Longrightarrow> c \<in> set (ba_sentinels b')) \<Longrightarrow> flush_due c b \<Longrightarrow> flush_due c b'"
  by (auto simp: flush_due_def split: option.splits)

text \<open>The latch of a client is set exactly while one sentinel of it is under way.\<close>

definition latch_ok :: "jsstr \<Rightarrow> 'e batcher \<Rightarrow> bool" where
  "latch_ok c b = (count_list (ba_sentinels b) c = (if c \<in> set (ba_refillArmed b) then 1 else 0))"

lemma latch_ok_in: "latch_ok c b \<Longrightarrow> c \<in> set (ba_refillArmed b) \<Longrightarrow> c \<in> set (ba_sentinels b)"
  by (metis count_list_0_iff latch_ok_def zero_neq_one)

lemma latch_cong:
  "ba_sentinels b' = ba_sentinels b \<Longrightarrow> ba_refillArmed b' = ba_refillArmed b \<Longrightarrow> latch_ok c b' = latch_ok c b"
  by (simp add: latch_ok_def)

lemma latch_arm: "latch_ok c b \<Longrightarrow> latch_ok c (armHeldQueueRefill E c' sid b)"
  by (auto simp: latch_ok_def armHeldQueueRefill_def)

lemma count_remove1: "count_list (remove1 x xs) y = count_list xs y - (if x = y then 1 else 0)"
  by (induction xs) (auto simp: count_list_0_iff)

lemma flush_loop_rest:
  "flush_loop E c batch held retained b = (batch', retained', b') \<Longrightarrow>
   ba_pendingByClient b' = ba_pendingByClient b \<and> ba_refillArmed b' = ba_refillArmed b \<and> ba_sentinels b' = ba_sentinels b"
proof (induction E c batch held retained b rule: flush_loop.induct)
  case (1 E c batch held retained b)
  note eq = flush_loop.simps [of E c batch held retained b]
  show ?case
  proof (cases "sb_queue batch")
    case (Cons e rest)
    then show ?thesis
      using "1.IH" [OF Cons] "1.prems"
      by (cases "se_control e"; cases "se_sessionId e \<in> set held";
          cases "hold_entry E c batch held (se_sessionId e) b") (auto simp: eq)
  qed (use "1.prems" in \<open>simp add: eq\<close>)
qed

lemma latch_flush:
  assumes "latch_ok c b"
  shows "latch_ok c (flush E c' b)"
proof (cases "ba_pendingByClient b c'")
  case None
  with assms show ?thesis by (simp add: flush_def)
next
  case (Some batch)
  obtain batch' ret b' where fl: "flush_loop E c' (batch\<lparr>sb_timer := False\<rparr>) [] [] b = (batch', ret, b')"
    using prod_cases3 by blast
  note r = flush_loop_rest [OF fl]
  have "latch_ok c (set_batch c' x b')" "latch_ok c (set_batch c' x b)" for x
    using assms r by (simp_all add: latch_ok_def)
  with Some fl show ?thesis by (cases ret) (auto simp: flush_def latch_arm)
qed

lemma flush_due_flush:
  assumes "\<And>env. en_alive E env c" and "flush_due c b \<or> c' = c" and "latch_ok c b"
  shows "flush_due c (flush E c' b)"
proof (cases "ba_pendingByClient b c'")
  case None
  then show ?thesis using assms(2) by (auto simp: flush_def flush_due_def)
next
  case (Some batch)
  obtain batch' ret b' where fl: "flush_loop E c' (batch\<lparr>sb_timer := False\<rparr>) [] [] b = (batch', ret, b')"
    using prod_cases3 by blast
  note r = flush_loop_rest [OF fl]
  show ?thesis
  proof (cases "c' = c")
    case True
    with Some assms(1) fl r latch_ok_in [OF assms(3)] show ?thesis
      by (cases ret) (auto simp: flush_def flush_due_def armHeldQueueRefill_def)
  next
    case False
    have "ba_pendingByClient (flush E c' b) c = ba_pendingByClient b c"
      "set (ba_sentinels b) \<subseteq> set (ba_sentinels (flush E c' b))"
      using Some fl r False by (cases ret; auto simp: flush_def armHeldQueueRefill_def)+
    with assms(2) False show ?thesis by (intro flush_due_cong [of "flush E c' b" c b]) auto
  qed
qed

lemma sentinel_written_latch:
  assumes "latch_ok c b"
  shows "latch_ok c (sentinel_written E c' b)"
proof -
  have "latch_ok c (b\<lparr>ba_sentinels := remove1 c' (ba_sentinels b),
      ba_refillArmed := filter (\<lambda>x. x \<noteq> c') (ba_refillArmed b)\<rparr>)"
    using assms by (auto simp: latch_ok_def count_remove1 split: if_splits)
  from latch_flush [OF this] assms show ?thesis by (simp add: sentinel_written_def refill_written_def)
qed

lemma sentinel_written_due:
  assumes "\<And>env. en_alive E env c" and "flush_due c b" and "latch_ok c b"
  shows "flush_due c (sentinel_written E c' b)"
proof -
  let ?b = "b\<lparr>ba_sentinels := remove1 c' (ba_sentinels b),
      ba_refillArmed := filter (\<lambda>x. x \<noteq> c') (ba_refillArmed b)\<rparr>"
  have "latch_ok c ?b"
    using assms(3) by (auto simp: latch_ok_def count_remove1 split: if_splits)
  moreover have "flush_due c ?b \<or> c' = c"
    using assms(2) by (auto simp: flush_due_def split: option.splits)
  ultimately show ?thesis
    using flush_due_flush [OF assms(1)] assms(2) by (simp add: sentinel_written_def refill_written_def)
qed

text \<open>Thinning sets no timer, and when only one session has something queued it queues nothing
  for another one.\<close>

lemma drop_timer [simp]: "sb_timer (dropOldestQueuedForSession b sid keep salvage) = sb_timer b"
  by (simp add: dropOldestQueuedForSession_def Let_def split: prod.split)

lemma thin_timer: "sb_timer (thin_batch E env sid b) = sb_timer b"
proof -
  have "sb_timer (fold (thin_other E env sid cap keep) ps b) = sb_timer b" for ps b cap keep
    by (induction ps arbitrary: b) (simp_all add: thin_other_def)
  then show ?thesis by (simp add: thin_batch_def Let_def)
qed

definition only_session :: "jsstr \<Rightarrow> stream_batch \<Rightarrow> bool" where
  "only_session sid b = (list_all (\<lambda>e. se_sessionId e = sid) (sb_queue b)
     \<and> fst ` set (sb_bySession b) \<subseteq> {sid})"

lemma drop_oldest_keys:
  "fst ` set (sb_bySession (dropOldestQueuedForSession b sid keep salvage))
     \<subseteq> insert sid (fst ` set (sb_bySession b))"
  by (auto simp: dropOldestQueuedForSession_def Let_def add_held_def dom_update
      split: prod.split)

lemma only_session_drop:
  assumes "only_session sid b"
  shows "only_session sid (dropOldestQueuedForSession b sid keep salvage)"
proof -
  have "list_all (\<lambda>e. se_sessionId e = sid) (sb_queue (dropOldestQueuedForSession b sid keep salvage))"
  proof (rule drop_oldest_all)
    show "se_sessionId (grow_gap d n e) = sid" if "se_sessionId e = sid" for e d n
      using that by (auto simp: grow_gap_def split: option.splits stream_control.splits)
  qed (use assms in \<open>simp_all add: only_session_def cut_entry_def Let_def gap_entry_def salvage_entry_def\<close>)
  then show ?thesis
    using assms drop_oldest_keys [of b sid keep salvage] by (auto simp: only_session_def)
qed

lemma thin_only_session:
  assumes "only_session sid b"
  shows "only_session sid (thin_batch E env sid b)"
    and "held_chars b sid = 0 \<Longrightarrow> sb_queue (thin_batch E env sid b) = sb_queue b"
proof -
  let ?n = "countDroppable E env b"
  define b1 where "b1 = (if int (backgroundSessionDropCapChars ?n) < held_chars b sid
    then dropOldestQueuedForSession b sid (backgroundSessionKeepTailChars ?n) (en_salvageDroppedData E)
    else b)"
  have o: "only_session sid b1" using assms only_session_drop by (simp add: b1_def)
  have "fold (thin_other E env sid cap keep) ps b1 = b1" if "fst ` set ps \<subseteq> {sid}" for ps cap keep
    using that by (induction ps) (auto simp: thin_other_def)
  then have f: "fold (thin_other E env sid cap keep) (sb_bySession b1) b1 = b1" for cap keep
    using o by (simp add: only_session_def)
  have eq: "thin_batch E env sid b =
      (if en_isSessionDroppable E env sid then b1\<lparr>sb_lastDroppable := Some ?n\<rparr> else b)"
    unfolding thin_batch_def Let_def b1_def [symmetric] f by simp
  show "only_session sid (thin_batch E env sid b)"
    using o assms unfolding eq by (simp add: only_session_def)
  show "sb_queue (thin_batch E env sid b) = sb_queue b" if "held_chars b sid = 0"
    using that unfolding eq b1_def by simp
qed

lemma flush_due_flushSession:
  assumes "flush_due c (set_batch c' (Some batch) b)
    \<or> c = c' \<and> only_session sid batch \<and> sb_queue batch \<noteq> []"
  shows "flush_due c (flushSession E c' sid (set_batch c' (Some batch) b))"
proof -
  let ?b = "set_batch c' (Some batch) b"
  have pend: "ba_pendingByClient (fold (write_entry E c') q b1) = ba_pendingByClient b1
      \<and> ba_sentinels (fold (write_entry E c') q b1) = ba_sentinels b1" for q b1
    by (induction q arbitrary: b1) (simp_all add: write_entry_def split: option.split)
  have only: "filter (\<lambda>e. se_sessionId e \<noteq> sid) (sb_queue batch) = []
      \<and> filter (\<lambda>e. se_sessionId e = sid) (sb_queue batch) = sb_queue batch" if "only_session sid batch"
    using that by (auto simp: only_session_def list_all_iff filter_empty_conv filter_id_conv)
  show ?thesis
    using assms only pend
    by (cases "c = c'") (auto simp: flushSession_def flush_due_def Let_def split: option.splits)
qed

lemma flush_due_enqueue:
  assumes "flush_due c b" and "ba_inv b"
  shows "flush_due c (enqueue E c' sid d im mx b)"
proof (cases "en_alive E (ba_env b) c'")
  case False
  with assms(1) show ?thesis by (simp add: enqueue_def)
next
  case True
  let ?batch = "getOrCreateBatch c' b"
  define batch1 where "batch1 = add_held sid (int (length d))
      (?batch\<lparr>sb_queue := append_data sid d (sb_queue ?batch),
             sb_queuedChars := sb_queuedChars ?batch + int (length d)\<rparr>)"
  define batch2 where "batch2 = thin_batch E (ba_env b) sid batch1"
  have timer: "sb_timer batch2 = sb_timer ?batch" by (simp add: batch2_def thin_timer batch1_def)
  have fresh: "only_session sid batch2 \<and> sb_queue batch2 \<noteq> []" if "ba_pendingByClient b c' = None"
  proof -
    have b1: "only_session sid batch1" "sb_queue batch1 \<noteq> []" "held_chars batch1 sid = int (length d)"
        "positions_of sid (sb_queue batch1) = int (length d)" "batch_inv batch1"
      using that by (auto simp: batch1_def getOrCreateBatch_def new_batch_def append_data_def add_held_def
          only_session_def held_chars_def queue_inv_def queued plain_tail_def plain_entry_def
          entry_positions_def sequence_of_def)
    have "sb_queue batch2 \<noteq> []"
    proof (cases "d = []")
      case True
      with b1(2,3) thin_only_session(2) [OF b1(1), of E "ba_env b"] show ?thesis by (simp add: batch2_def)
    next
      case False
      have "positions_of sid (sb_queue batch2) = int (length d)"
        using thinned_batch [OF b1(5), of E "ba_env b" sid] b1(4) by (simp add: thinned_def batch2_def)
      with False show ?thesis by (auto simp: queued)
    qed
    with thin_only_session(1) [OF b1(1)] show ?thesis by (simp add: batch2_def)
  qed
  then have due: "flush_due c (set_batch c' (Some batch2) b)
      \<or> c = c' \<and> only_session sid batch2 \<and> sb_queue batch2 \<noteq> []"
    using assms(1) timer by (auto simp: flush_due_def getOrCreateBatch_def split: option.splits)
  have eq: "enqueue E c' sid d im mx b =
      (if im \<and> (case mx of None \<Rightarrow> True | Some n \<Rightarrow> queuedCharsForSession batch2 sid \<le> n)
       then flushSession E c' sid (set_batch c' (Some batch2) b)
       else set_batch c' (Some (batch2\<lparr>sb_timer := True\<rparr>)) b)"
    using True unfolding enqueue_def Let_def batch1_def batch2_def by simp
  have "flush_due c (set_batch c' (Some (batch2\<lparr>sb_timer := True\<rparr>)) b)"
    using assms(1) by (auto simp: flush_due_def split: option.splits)
  with flush_due_flushSession [OF due] show ?thesis unfolding eq by simp
qed

text \<open>A flush that begins while the socket is not deep writes the first entry or a slice of it.\<close>

definition queue_weight :: "stream_entry list \<Rightarrow> nat" where
  "queue_weight q = sum_list (map (\<lambda>e. Suc (length (se_data e))) q)"

lemma queue_weight_simps [simp]:
  "queue_weight [] = 0"
  "queue_weight (e # q) = Suc (length (se_data e)) + queue_weight q"
  "queue_weight (p @ q) = queue_weight p + queue_weight q"
  by (simp_all add: queue_weight_def)

lemma take_slice_weight:
  "queue_weight (sb_queue (take_slice e rest batch)) < Suc (length (se_data e)) + queue_weight rest"
proof -
  have "length (se_data e) - slice_end e + queue_weight rest < length (se_data e) + queue_weight rest"
    if "\<not> length (se_data e) \<le> slice_end e"
  proof -
    from that have "se_data e \<noteq> []" by auto
    then have "0 < slice_end e" by (rule slice_end_pos)
    with that show ?thesis by linarith
  qed
  then show ?thesis
    by (simp add: take_slice_def release_held_def Let_def)
qed

lemma flush_loop_weight:
  "flush_loop E c batch held retained b = (batch', retained', b') \<Longrightarrow>
   queue_weight retained' \<le> queue_weight retained + queue_weight (sb_queue batch)"
proof (induction E c batch held retained b rule: flush_loop.induct)
  case (1 E c batch held retained b)
  note eq = flush_loop.simps [of E c batch held retained b]
  show ?case
  proof (cases "sb_queue batch")
    case (Cons e rest)
    let ?sid = "se_sessionId e"
    show ?thesis
    proof (cases "se_control e")
      case (Some k)
      show ?thesis
      proof (cases "?sid \<in> set held")
        case True
        have "flush_loop E c (batch\<lparr>sb_queue := rest\<rparr>) held (retained @ [e]) b = (batch', retained', b')"
          using "1.prems" Cons Some True by (simp add: eq)
        from "1.IH"(3) [OF Cons Some True this] Cons show ?thesis by simp
      next
        case False
        have "flush_loop E c (batch\<lparr>sb_queue := rest\<rparr>) held retained (write_control E c ?sid k b)
            = (batch', retained', b')"
          using "1.prems" Cons Some False by (simp add: eq)
        from "1.IH"(4) [OF Cons Some False this] Cons show ?thesis by simp
      qed
    next
      case None
      show ?thesis
      proof (cases "hold_entry E c batch held ?sid b")
        case True
        have "flush_loop E c (batch\<lparr>sb_queue := rest\<rparr>) (?sid # held) (retained @ [e]) b
            = (batch', retained', b')"
          using "1.prems" Cons None True by (simp add: eq)
        from "1.IH"(1) [OF Cons None True this] Cons show ?thesis by simp
      next
        case False
        have "flush_loop E c (take_slice e rest batch) held retained
            (write_data E c ?sid (take (slice_end e) (se_data e))
              (taken_sequence e (length (take (slice_end e) (se_data e)))) b) = (batch', retained', b')"
          using "1.prems" Cons None False by (simp add: eq)
        from "1.IH"(2) [OF Cons None False this] take_slice_weight [of e rest batch] Cons
        show ?thesis by simp
      qed
    qed
  qed (use "1.prems" in \<open>simp add: eq\<close>)
qed

lemma flush_loop_progress:
  assumes "flush_loop E c batch [] [] b = (batch', ret, b')" and "\<not> socket_deep E c b" and "sb_queue batch \<noteq> []"
  shows "queue_weight ret < queue_weight (sb_queue batch)"
proof -
  obtain e rest where q: "sb_queue batch = e # rest" using assms(3) by (cases "sb_queue batch") auto
  have "\<not> hold_entry E c batch [] sid b" for sid using assms(2) by (simp add: hold_entry_def)
  note step = flush_loop.simps [of E c batch "[]" "[]" b] and free = this
  show ?thesis
  proof (cases "se_control e")
    case None
    then have "flush_loop E c (take_slice e rest batch) [] []
        (write_data E c (se_sessionId e) (take (slice_end e) (se_data e))
          (taken_sequence e (length (take (slice_end e) (se_data e)))) b) = (batch', ret, b')"
      using assms(1) q free by (simp add: step)
    from flush_loop_weight [OF this] take_slice_weight [of e rest batch] q show ?thesis by simp
  next
    case (Some k)
    then have "flush_loop E c (batch\<lparr>sb_queue := rest\<rparr>) [] [] (write_control E c (se_sessionId e) k b)
        = (batch', ret, b')"
      using assms(1) q by (simp add: step)
    from flush_loop_weight [OF this] q show ?thesis by simp
  qed
qed

lemma flush_progress:
  assumes "en_alive E (ba_env b) c" and "\<not> socket_deep E c b" and "queue_of c b \<noteq> []"
  shows "queue_weight (queue_of c (flush E c b)) < queue_weight (queue_of c b)"
proof -
  obtain batch where b: "ba_pendingByClient b c = Some batch" "sb_queue batch \<noteq> []"
    using assms(3) by (auto simp: queue_of_def split: option.splits)
  obtain batch' ret b' where fl: "flush_loop E c (batch\<lparr>sb_timer := False\<rparr>) [] [] b = (batch', ret, b')"
    using prod_cases3 by blast
  have "queue_weight ret < queue_weight (sb_queue batch)"
    using flush_loop_progress [OF fl assms(2)] b(2) by simp
  moreover have "queue_of c (flush E c b) = ret"
    using assms(1) b(1) fl by (cases ret) (simp_all add: flush_def queue_of_set)
  ultimately show ?thesis using b(1) by (simp add: queue_of_def)
qed

lemma flush_due_op:
  assumes "\<And>env. en_alive E env c" and "flush_due c b" and "latch_ok c b" and "ba_inv b"
  shows "flush_due c (exec_op E op b)"
proof (cases op)
  case (Op_enqueue c' sid d im mx)
  then show ?thesis using flush_due_enqueue [OF assms(2,4)] by simp
next
  case (Op_control c' sid k)
  then show ?thesis
    using assms(2) by (auto simp: enqueueControlEvent_def Let_def flush_due_def split: option.splits)
next
  case (Op_flush c')
  then show ?thesis using flush_due_flush [OF assms(1) _ assms(3)] assms(2) by simp
next
  case (Op_refill_written c')
  then show ?thesis using sentinel_written_due [OF assms(1-3)] by simp
next
  case (Op_environment f)
  then show ?thesis using assms(2) by (auto simp: flush_due_def split: option.splits)
qed

lemma latch_op:
  assumes "latch_ok c b"
  shows "latch_ok c (exec_op E op b)"
proof (cases op)
  case (Op_enqueue c' sid d im mx)
  have "ba_refillArmed (fold (write_entry E c') q b1) = ba_refillArmed b1
      \<and> ba_sentinels (fold (write_entry E c') q b1) = ba_sentinels b1" for q b1
    by (induction q arbitrary: b1) (simp_all add: write_entry_def split: option.split)
  then have "ba_refillArmed (flushSession E c' sid b1) = ba_refillArmed b1
      \<and> ba_sentinels (flushSession E c' sid b1) = ba_sentinels b1" for b1
    by (simp add: flushSession_def Let_def split: option.split)
  then show ?thesis
    using assms by (simp add: Op_enqueue enqueue_def Let_def latch_ok_def)
next
  case (Op_control c' sid k)
  then show ?thesis using assms by (simp add: enqueueControlEvent_def Let_def latch_ok_def)
next
  case (Op_refill_written c')
  then show ?thesis using sentinel_written_latch [OF assms] by simp
next
  case (Op_flush c')
  then show ?thesis using latch_flush [OF assms] by simp
next
  case (Op_environment f)
  then show ?thesis using assms by (simp add: latch_ok_def)
qed

text \<open>
  C32. No stall: after any sequence of calls, if something is pending for a client that stays
  connected, its timer is set or the socket holds the callback of a sentinel written for it; never
  more than one sentinel of a client is under way; when its callback is called, again a timer or a
  sentinel is there or nothing is pending; and a flush, by whichever of them, that begins while the
  socket is not deep leaves less in the queue than it found.
\<close>

theorem batcher_never_stalls:
  assumes "depth_kept E" and "\<And>env. en_alive E env c" and "b = fold (exec_op E) ops (new_batcher env)"
  shows "flush_due c b \<and> count_list (ba_sentinels b) c \<le> 1
    \<and> flush_due c (sentinel_written E c b)
    \<and> (if queue_of c b = [] \<or> socket_deep E c b then True
       else queue_weight (queue_of c (flush E c b)) < queue_weight (queue_of c b)
         \<and> (if c \<in> set (ba_sentinels b)
            then queue_weight (queue_of c (sentinel_written E c b)) < queue_weight (queue_of c b) else True))"
proof -
  have "flush_due c b \<Longrightarrow> latch_ok c b \<Longrightarrow> ba_inv b \<Longrightarrow>
      flush_due c (fold (exec_op E) ops b) \<and> latch_ok c (fold (exec_op E) ops b)" for b
  proof (induction ops arbitrary: b)
    case (Cons op ops)
    have "ba_inv (exec_op E op b)"
      using effect_op [where thin = True, OF assms(1,2) Cons.prems(3)] by (simp add: effect_def)
    with Cons show ?case by (simp add: flush_due_op [OF assms(2)] latch_op)
  qed simp
  then have b: "flush_due c b" "latch_ok c b"
    by (simp_all add: assms(3) flush_due_def new_batcher_def ba_inv_def latch_ok_def)
  let ?b = "b\<lparr>ba_sentinels := remove1 c (ba_sentinels b),
      ba_refillArmed := filter (\<lambda>x. x \<noteq> c) (ba_refillArmed b)\<rparr>"
  have "queue_weight (queue_of c (flush E c ?b)) < queue_weight (queue_of c b)"
    if "queue_of c b \<noteq> []" "\<not> socket_deep E c b"
    using flush_progress [of E ?b c] assms(2) that by (simp add: queue_of_def socket_deep_def)
  from this flush_progress [of E b c] b sentinel_written_due [OF assms(2) b] assms(2)
  show ?thesis
    by (auto simp: latch_ok_def sentinel_written_def refill_written_def)
qed

theorem batcher_never_stalls_witness:
  "flush_due (js ''c'') (fold (exec_op demo_stream) demo_ops (new_batcher 0))"
proof -
  have "en_alive demo_stream env (js ''c'')" for env by (simp add: demo_stream_def)
  from batcher_never_stalls [OF demo_depth_kept this refl] show ?thesis by blast
qed

end
