(* ===== verification/Ws_Queue.thy ===== *)
theory Ws_Queue
  imports Main
begin

section \<open>The outbound queue of a web socket\<close>

text \<open>
  \<open>src/src/shared/ws-outbound-backpressure-queue.ts\<close>: frames wait here while the socket's own
  buffer is over a soft cap, and a timer drains them. The socket (how much it buffers, whether it
  can be written to) is an environment \<open>'e\<close> that \<open>send\<close> changes and that may change by itself.
  \<open>wq_sent\<close> and \<open>wq_overflows\<close> record what was handed to \<open>send\<close> and how often \<open>onOverflow\<close> was
  called. Shown: nothing is lost or reordered while the socket is writable and the queue has not
  overflowed; the bytes held are counted right and bounded; what is parked has a timer.
\<close>

subsection \<open>State and operations\<close>

record ('e, 'f) ws_options =
  wo_send :: "'f \<Rightarrow> 'e \<Rightarrow> 'e"
  wo_byteLengthOf :: "'f \<Rightarrow> nat"
  wo_getBufferedAmount :: "'e \<Rightarrow> int option"
  wo_isWritable :: "'e \<Rightarrow> bool"
  wo_softCapBytes :: "int option"
  wo_maxQueuedBytes :: "nat option"

definition DEFAULT_SOFT_CAP_BYTES :: int where
  "DEFAULT_SOFT_CAP_BYTES = 8 * 1024 * 1024"

definition DEFAULT_MAX_QUEUED_BYTES :: nat where
  "DEFAULT_MAX_QUEUED_BYTES = 64 * 1024 * 1024"

record ('e, 'f) ws_queue =
  wq_env :: 'e
  wq_sent :: "'f list"
  wq_overflows :: nat
  wq_queue :: "('f \<times> nat) list"
  wq_queueHead :: nat
  wq_queued :: int
  wq_timer :: bool
  wq_overflowed :: bool
  wq_disposed :: bool

definition createWsOutboundBackpressureQueue :: "'e \<Rightarrow> ('e, 'f) ws_queue" where
  "createWsOutboundBackpressureQueue env =
     \<lparr>wq_env = env, wq_sent = [], wq_overflows = 0, wq_queue = [], wq_queueHead = 0, wq_queued = 0,
      wq_timer = False, wq_overflowed = False, wq_disposed = False\<rparr>"

definition soft_cap :: "('e, 'f) ws_options \<Rightarrow> int" where
  "soft_cap opts = (case wo_softCapBytes opts of None \<Rightarrow> DEFAULT_SOFT_CAP_BYTES | Some n \<Rightarrow> n)"

definition max_queued :: "('e, 'f) ws_options \<Rightarrow> nat" where
  "max_queued opts = (case wo_maxQueuedBytes opts of None \<Rightarrow> DEFAULT_MAX_QUEUED_BYTES | Some n \<Rightarrow> n)"

text \<open>An amount that is not a finite number counts as zero.\<close>

definition bufferedAmount :: "('e, 'f) ws_options \<Rightarrow> ('e, 'f) ws_queue \<Rightarrow> int" where
  "bufferedAmount opts q = (case wo_getBufferedAmount opts (wq_env q) of None \<Rightarrow> 0 | Some n \<Rightarrow> n)"

definition under_cap :: "('e, 'f) ws_options \<Rightarrow> ('e, 'f) ws_queue \<Rightarrow> bool" where
  "under_cap opts q = (bufferedAmount opts q \<le> soft_cap opts)"

definition send_frame :: "('e, 'f) ws_options \<Rightarrow> 'f \<Rightarrow> ('e, 'f) ws_queue \<Rightarrow> ('e, 'f) ws_queue" where
  "send_frame opts f q = q\<lparr>wq_env := wo_send opts f (wq_env q), wq_sent := wq_sent q @ [f]\<rparr>"

definition dropBacklog :: "('e, 'f) ws_queue \<Rightarrow> ('e, 'f) ws_queue" where
  "dropBacklog q = q\<lparr>wq_queue := [], wq_queueHead := 0, wq_queued := 0, wq_timer := False\<rparr>"

definition take_entry :: "('e, 'f) ws_options \<Rightarrow> ('e, 'f) ws_queue \<Rightarrow> ('e, 'f) ws_queue" where
  "take_entry opts q = (case wq_queue q ! wq_queueHead q of (f, bytes) \<Rightarrow>
     send_frame opts f (q\<lparr>wq_queueHead := Suc (wq_queueHead q),
                         wq_queued := wq_queued q - int bytes\<rparr>))"

lemma take_entry_fields [simp]:
  "wq_queue (take_entry opts q) = wq_queue q"
  "wq_queueHead (take_entry opts q) = Suc (wq_queueHead q)"
  "wq_queued (take_entry opts q) = wq_queued q - int (snd (wq_queue q ! wq_queueHead q))"
  "wq_sent (take_entry opts q) = wq_sent q @ [fst (wq_queue q ! wq_queueHead q)]"
  "wq_timer (take_entry opts q) = wq_timer q" "wq_overflows (take_entry opts q) = wq_overflows q"
  "wq_overflowed (take_entry opts q) = wq_overflowed q"
  "wq_disposed (take_entry opts q) = wq_disposed q"
  by (simp_all add: take_entry_def send_frame_def split: prod.split)

function drain_loop :: "('e, 'f) ws_options \<Rightarrow> ('e, 'f) ws_queue \<Rightarrow> ('e, 'f) ws_queue" where
  "drain_loop opts q =
     (if wq_queueHead q < length (wq_queue q) \<and> under_cap opts q
      then drain_loop opts (take_entry opts q) else q)"
  by pat_completeness auto
termination
  by (relation "measure (\<lambda>(_, q). length (wq_queue q) - wq_queueHead q)") auto

declare drain_loop.simps [simp del]

definition ws_drain :: "('e, 'f) ws_options \<Rightarrow> ('e, 'f) ws_queue \<Rightarrow> ('e, 'f) ws_queue" where
  "ws_drain opts q =
     (if wq_disposed q \<or> wq_overflowed q then q
      else if \<not> wo_isWritable opts (wq_env q) then dropBacklog q
      else (let r = drain_loop opts q
            in if wq_queueHead r < length (wq_queue r) then r\<lparr>wq_timer := True\<rparr>
               else r\<lparr>wq_queue := [], wq_queueHead := 0, wq_timer := False\<rparr>))"

definition park :: "('e, 'f) ws_options \<Rightarrow> 'f \<Rightarrow> ('e, 'f) ws_queue \<Rightarrow> ('e, 'f) ws_queue" where
  "park opts f q = q\<lparr>wq_queue := wq_queue q @ [(f, wo_byteLengthOf opts f)],
                      wq_queued := wq_queued q + int (wo_byteLengthOf opts f)\<rparr>"

definition enqueue_frame :: "('e, 'f) ws_options \<Rightarrow> 'f \<Rightarrow> ('e, 'f) ws_queue \<Rightarrow> ('e, 'f) ws_queue" where
  "enqueue_frame opts f q =
     (if wq_disposed q \<or> wq_overflowed q then q
      else if wq_queueHead q = length (wq_queue q) \<and> wo_isWritable opts (wq_env q)
              \<and> under_cap opts q
      then send_frame opts f q
      else (let q1 = park opts f q
            in if int (max_queued opts) < wq_queued q1
               then (dropBacklog (q1\<lparr>wq_overflowed := True\<rparr>))\<lparr>wq_overflows := Suc (wq_overflows q1)\<rparr>
               else q1\<lparr>wq_timer := True\<rparr>))"

definition dispose :: "('e, 'f) ws_queue \<Rightarrow> ('e, 'f) ws_queue" where
  "dispose q = dropBacklog (q\<lparr>wq_disposed := True\<rparr>)"

text \<open>What can happen: a call, the timer, a change of the socket.\<close>

datatype ('e, 'f) ws_event = Ws_enqueue 'f | Ws_timer | Ws_dispose | Ws_socket "'e \<Rightarrow> 'e"

fun ws_step :: "('e, 'f) ws_options \<Rightarrow> ('e, 'f) ws_event \<Rightarrow> ('e, 'f) ws_queue \<Rightarrow> ('e, 'f) ws_queue"
where
  "ws_step opts (Ws_enqueue f) q = enqueue_frame opts f q"
| "ws_step opts Ws_timer q = (if wq_timer q then ws_drain opts q else q)"
| "ws_step opts Ws_dispose q = dispose q"
| "ws_step opts (Ws_socket g) q = q\<lparr>wq_env := g (wq_env q)\<rparr>"

definition ws_run ::
  "('e, 'f) ws_options \<Rightarrow> ('e, 'f) ws_event list \<Rightarrow> 'e \<Rightarrow> ('e, 'f) ws_queue" where
  "ws_run opts events env = fold (ws_step opts) events (createWsOutboundBackpressureQueue env)"

fun enqueued :: "('e, 'f) ws_event \<Rightarrow> 'f list" where
  "enqueued (Ws_enqueue f) = [f]"
| "enqueued _ = []"

subsection \<open>Accounting and progress\<close>

definition parked :: "('e, 'f) ws_queue \<Rightarrow> ('f \<times> nat) list" where
  "parked q = drop (wq_queueHead q) (wq_queue q)"

definition ws_inv :: "('e, 'f) ws_options \<Rightarrow> ('e, 'f) ws_queue \<Rightarrow> bool" where
  "ws_inv opts q = (wq_queueHead q \<le> length (wq_queue q)
     \<and> wq_queued q = int (sum_list (map snd (parked q))) \<and> wq_queued q \<le> int (max_queued opts)
     \<and> (wq_overflowed q \<or> wq_disposed q \<longrightarrow> parked q = [])
     \<and> wq_overflows q = (if wq_overflowed q then 1 else 0)
     \<and> (parked q \<noteq> [] \<longrightarrow> wq_timer q))"

lemma parked_step:
  "wq_queueHead q < length (wq_queue q) \<Longrightarrow>
     parked q = wq_queue q ! wq_queueHead q # parked (take_entry opts q)"
  by (simp add: parked_def Cons_nth_drop_Suc)

text \<open>The loop moves the front of what is parked to the wire.\<close>

lemma drain_loop_moves:
  assumes "wq_queueHead q \<le> length (wq_queue q)"
    and "wq_queued q = int (sum_list (map snd (parked q)))"
  shows "wq_sent (drain_loop opts q) @ map fst (parked (drain_loop opts q)) = wq_sent q @ map fst (parked q)
    \<and> wq_queued (drain_loop opts q) = int (sum_list (map snd (parked (drain_loop opts q))))
    \<and> wq_queued (drain_loop opts q) \<le> wq_queued q
    \<and> wq_queueHead (drain_loop opts q) \<le> length (wq_queue (drain_loop opts q))
    \<and> wq_overflowed (drain_loop opts q) = wq_overflowed q
    \<and> wq_disposed (drain_loop opts q) = wq_disposed q
    \<and> wq_overflows (drain_loop opts q) = wq_overflows q"
  using assms
proof (induction opts q rule: drain_loop.induct)
  case (1 opts q)
  show ?case
  proof (cases "wq_queueHead q < length (wq_queue q) \<and> under_cap opts q")
    case True
    then have p: "parked q = wq_queue q ! wq_queueHead q # parked (take_entry opts q)"
      using parked_step by blast
    have "wq_queueHead (take_entry opts q) \<le> length (wq_queue (take_entry opts q))"
      "wq_queued (take_entry opts q) = int (sum_list (map snd (parked (take_entry opts q))))"
      using True "1.prems" p by simp_all
    from "1.IH" [OF True this] show ?thesis
      using True p by (simp add: drain_loop.simps [of opts q])
  next
    case False
    then have "drain_loop opts q = q" by (auto simp: drain_loop.simps [of opts q])
    with "1.prems" show ?thesis by simp
  qed
qed

lemma ws_inv_dropBacklog:
  "ws_inv opts (dropBacklog q) \<longleftrightarrow> wq_overflows q = (if wq_overflowed q then 1 else 0)"
  by (simp add: dropBacklog_def ws_inv_def parked_def)

lemma ws_inv_drain:
  assumes "ws_inv opts q"
  shows "ws_inv opts (ws_drain opts q)"
proof (cases "wq_disposed q \<or> wq_overflowed q \<or> \<not> wo_isWritable opts (wq_env q)")
  case True
  then show ?thesis
    using assms ws_inv_dropBacklog [of opts q] by (auto simp: ws_drain_def ws_inv_def)
next
  case False
  let ?r = "drain_loop opts q"
  have r: "wq_queued ?r = int (sum_list (map snd (parked ?r)))" "wq_queued ?r \<le> int (max_queued opts)"
    "wq_queueHead ?r \<le> length (wq_queue ?r)" "\<not> wq_overflowed ?r" "\<not> wq_disposed ?r"
    "wq_overflows ?r = 0"
    using drain_loop_moves [of q opts] assms False by (simp_all add: ws_inv_def)
  then show ?thesis
    using False by (simp add: ws_drain_def Let_def ws_inv_def parked_def)
qed

lemma ws_inv_enqueue: "ws_inv opts q \<Longrightarrow> ws_inv opts (enqueue_frame opts f q)"
  by (auto simp: enqueue_frame_def send_frame_def park_def dropBacklog_def ws_inv_def Let_def parked_def)

lemma ws_inv_step: "ws_inv opts q \<Longrightarrow> ws_inv opts (ws_step opts e q)"
proof (cases e)
  case (Ws_socket g)
  then show "ws_inv opts q \<Longrightarrow> ?thesis" by (simp add: ws_inv_def parked_def)
next
  case Ws_dispose
  then show "ws_inv opts q \<Longrightarrow> ?thesis"
    by (simp add: dispose_def ws_inv_dropBacklog) (simp add: ws_inv_def)
qed (simp_all add: ws_inv_drain ws_inv_enqueue)

lemma ws_inv_run: "ws_inv opts (ws_run opts events env)"
proof -
  have "ws_inv opts q \<Longrightarrow> ws_inv opts (fold (ws_step opts) events q)" for q
    by (induction events arbitrary: q) (simp_all add: ws_inv_step)
  moreover have "ws_inv opts (createWsOutboundBackpressureQueue env)"
    by (simp add: ws_inv_def parked_def createWsOutboundBackpressureQueue_def)
  ultimately show ?thesis unfolding ws_run_def .
qed

text \<open>
  After any calls, timer events and changes of the socket: the byte count of the queue is that
  of the frames it holds and never over its bound, whatever is parked has a timer that will
  drain it, and the overflow is signalled at most once, after which nothing is held.
\<close>

theorem ws_queue_bounded:
  "\<exists>q. q = ws_run opts events env
    \<and> wq_queued q = int (sum_list (map snd (parked q))) \<and> wq_queued q \<le> int (max_queued opts)
    \<and> (parked q = [] \<or> wq_timer q) \<and> wq_overflows q \<le> 1
    \<and> (wq_overflows q = 0 \<or> parked q = [])"
  using ws_inv_run [of opts events env] by (auto simp: ws_inv_def split: if_splits)

subsection \<open>Order\<close>

text \<open>Every frame is on the wire, parked, or lost behind them in the backlog of an overflow or a
  dispose.\<close>

definition ws_order :: "('e, 'f) ws_queue \<Rightarrow> 'f list \<Rightarrow> bool" where
  "ws_order q fs = (\<exists>lost. fs = wq_sent q @ map fst (parked q) @ lost
     \<and> (\<not> wq_overflowed q \<and> \<not> wq_disposed q \<longrightarrow> lost = []))"

lemma ws_order_drain:
  assumes "ws_inv opts q" and "ws_order q fs" and "wo_isWritable opts (wq_env q)"
  shows "ws_order (ws_drain opts q) fs"
proof -
  let ?r = "drain_loop opts q"
  have r: "wq_sent ?r @ map fst (parked ?r) = wq_sent q @ map fst (parked q)"
    "wq_overflowed ?r = wq_overflowed q" "wq_disposed ?r = wq_disposed q"
    using drain_loop_moves [of q opts] assms(1) by (simp_all add: ws_inv_def)
  have sent: "wq_sent ?r @ map fst (parked ?r) @ lost = wq_sent q @ map fst (parked q) @ lost" for lost
    using r(1) by (metis append_assoc)
  have "ws_order ?r fs"
    using assms(2) r(2,3) unfolding ws_order_def sent by simp
  then show ?thesis
    using assms(2,3) by (auto simp: ws_drain_def Let_def ws_order_def parked_def)
qed

lemma ws_order_enqueue:
  assumes "ws_inv opts q" and "ws_order q fs"
  shows "ws_order (enqueue_frame opts f q) (fs @ [f])"
  using assms
  by (auto simp: enqueue_frame_def send_frame_def park_def dropBacklog_def ws_inv_def ws_order_def
      Let_def parked_def)

lemma ws_order_step:
  assumes "ws_inv opts q" and "ws_order q fs" and "\<And>env. wo_isWritable opts env"
  shows "ws_order (ws_step opts e q) (fs @ enqueued e)"
  using assms ws_order_drain [OF assms] ws_order_enqueue [OF assms(1,2)]
  by (cases e) (auto simp: dispose_def dropBacklog_def ws_order_def parked_def)

text \<open>
  C35. On a socket that stays writable, what was sent, followed by what is parked, is the frames in
  the order they were given to the queue: none is dropped, doubled or overtaken; only an overflow
  or a dispose loses frames, and then the last ones.
\<close>

theorem ws_queue_order:
  assumes "\<And>env. wo_isWritable opts env"
  shows "\<exists>q lost. q = ws_run opts events env
    \<and> concat (map enqueued events) = wq_sent q @ map fst (parked q) @ lost
    \<and> (wq_overflowed q \<or> wq_disposed q \<or> lost = [])"
proof -
  have "ws_inv opts q \<Longrightarrow> ws_order q fs \<Longrightarrow>
      ws_order (fold (ws_step opts) events q) (fs @ concat (map enqueued events))" for q fs
  proof (induction events arbitrary: q fs)
    case (Cons e events)
    then show ?case
      using Cons.IH [OF ws_inv_step ws_order_step] assms by fastforce
  qed simp
  from this [of "createWsOutboundBackpressureQueue env" "[]"] show ?thesis
    by (auto simp: ws_run_def ws_order_def ws_inv_def parked_def createWsOutboundBackpressureQueue_def)
qed

text \<open>A socket that buffers what it is given, one byte per frame, over a soft cap of one.\<close>

definition demo_socket :: "(nat, nat) ws_options" where
  "demo_socket = \<lparr>wo_send = (\<lambda>_ n. Suc n), wo_byteLengthOf = (\<lambda>_. 1),
     wo_getBufferedAmount = (\<lambda>n. Some (int n)), wo_isWritable = (\<lambda>_. True),
     wo_softCapBytes = Some 0, wo_maxQueuedBytes = Some 10\<rparr>"

theorem ws_queue_order_witness:
  "\<exists>q lost. q = ws_run demo_socket [Ws_enqueue 1, Ws_enqueue 2, Ws_socket (\<lambda>_. 0), Ws_timer, Ws_enqueue 3] 0
     \<and> [1, 2, 3] = wq_sent q @ map fst (parked q) @ lost
     \<and> (wq_overflowed q \<or> wq_disposed q \<or> lost = [])"
  using ws_queue_order [of demo_socket
      "[Ws_enqueue 1, Ws_enqueue 2, Ws_socket (\<lambda>_. 0), Ws_timer, Ws_enqueue 3]" 0]
  by (simp add: demo_socket_def)

end
