(* ===== verification/Call_Queue.thy ===== *)
theory Call_Queue
  imports Prelude
begin

section \<open>The queue of remote runtime calls\<close>

text \<open>
  \<open>src/src/shared/runtime-rpc-call-queue.ts\<close>: calls to a remote runtime run with a bounded
  concurrency per selector, and background calls with a smaller one; foreground calls go first.
  A call is a method and what it runs; it ends at any later time (\<open>Call_ended\<close>). The pool keeps,
  beside its queues, the calls that were started and those that are running. Shown: the two
  limits, that a free slot means that nothing that may run is waiting, and that each class is
  started in the order in which it was enqueued.
\<close>

subsection \<open>State and operations\<close>

definition DEFAULT_REMOTE_RUNTIME_CALL_CONCURRENCY :: nat where
  "DEFAULT_REMOTE_RUNTIME_CALL_CONCURRENCY = 8"

definition DEFAULT_REMOTE_RUNTIME_BACKGROUND_CALL_CONCURRENCY :: nat where
  "DEFAULT_REMOTE_RUNTIME_BACKGROUND_CALL_CONCURRENCY = 2"

record 'c queued_call =
  qc_background :: bool
  qc_run :: 'c

record 'c call_queue =
  cq_active :: nat
  cq_backgroundActive :: nat
  cq_foreground :: "'c queued_call list"
  cq_foregroundHead :: nat
  cq_background :: "'c queued_call list"
  cq_backgroundHead :: nat

definition isBackgroundRuntimeMethod :: "jsstr \<Rightarrow> bool" where
  "isBackgroundRuntimeMethod m = (m \<in> set (map js
     [''hostedReview.forBranch'', ''github.prForBranch'', ''github.listWorkItems'',
      ''github.countWorkItems'', ''git.status'', ''git.history'', ''git.conflictOperation'',
      ''git.branchCompare'', ''git.upstreamStatus'', ''worktree.prefetchCreateBase'']))"

definition new_queue :: "'c call_queue" where
  "new_queue = \<lparr>cq_active = 0, cq_backgroundActive = 0, cq_foreground = [], cq_foregroundHead = 0,
     cq_background = [], cq_backgroundHead = 0\<rparr>"

text \<open>\<open>compactForeground\<close> and \<open>compactBackground\<close>: the same on the two lists.\<close>

definition compact :: "'a list \<Rightarrow> nat \<Rightarrow> 'a list \<times> nat" where
  "compact calls head = (if head \<le> 32 \<or> head * 2 < length calls then (calls, head)
     else (drop head calls, 0))"

definition takeForeground :: "'c call_queue \<Rightarrow> ('c queued_call \<times> 'c call_queue) option" where
  "takeForeground q =
     (if length (cq_foreground q) \<le> cq_foregroundHead q then None
      else (case compact (cq_foreground q) (Suc (cq_foregroundHead q)) of
        (calls, head) \<Rightarrow> Some (cq_foreground q ! cq_foregroundHead q,
          q\<lparr>cq_foreground := calls, cq_foregroundHead := head\<rparr>)))"

definition takeBackground :: "'c call_queue \<Rightarrow> ('c queued_call \<times> 'c call_queue) option" where
  "takeBackground q =
     (if length (cq_background q) \<le> cq_backgroundHead q then None
      else (case compact (cq_background q) (Suc (cq_backgroundHead q)) of
        (calls, head) \<Rightarrow> Some (cq_background q ! cq_backgroundHead q,
          q\<lparr>cq_background := calls, cq_backgroundHead := head\<rparr>)))"

definition next_call :: "nat \<Rightarrow> 'c call_queue \<Rightarrow> ('c queued_call \<times> 'c call_queue) option" where
  "next_call backgroundConcurrency q = (case takeForeground q of
     Some r \<Rightarrow> Some r
   | None \<Rightarrow> if cq_backgroundActive q < backgroundConcurrency then takeBackground q else None)"

definition count_active :: "'c queued_call \<Rightarrow> 'c call_queue \<Rightarrow> 'c call_queue" where
  "count_active call q = q\<lparr>cq_active := Suc (cq_active q),
     cq_backgroundActive := cq_backgroundActive q + (if qc_background call then 1 else 0)\<rparr>"

text \<open>\<open>pump\<close> gives the calls it began. A \<open>run\<close> that throws at once ends like one that rejects.\<close>

lemma next_call_active: "next_call n q = Some (c, q') \<Longrightarrow> cq_active q' = cq_active q"
  by (auto simp: next_call_def takeForeground_def takeBackground_def
      split: option.splits if_splits prod.splits)

function pump ::
  "nat \<Rightarrow> nat \<Rightarrow> 'c call_queue \<Rightarrow> 'c queued_call list \<times> 'c call_queue" where
  "pump concurrency backgroundConcurrency q =
     (if cq_active q < concurrency
      then (case next_call backgroundConcurrency q of
              None \<Rightarrow> ([], q)
            | Some (call, q') \<Rightarrow>
                (case pump concurrency backgroundConcurrency (count_active call q') of
                   (begun, q'') \<Rightarrow> (call # begun, q'')))
      else ([], q))"
  by pat_completeness auto
termination
  by (relation "measure (\<lambda>(n, _, q). n - cq_active q)")
    (auto simp: count_active_def dest!: next_call_active)

declare pump.simps [simp del]

definition queue_isEmpty :: "'c call_queue \<Rightarrow> bool" where
  "queue_isEmpty q = (length (cq_foreground q) \<le> cq_foregroundHead q
     \<and> length (cq_background q) \<le> cq_backgroundHead q)"

record 'c call_pool =
  po_queues :: "jsstr \<Rightarrow> 'c call_queue option"
  po_started :: "jsstr \<Rightarrow> 'c queued_call list"
  po_running :: "jsstr \<Rightarrow> 'c queued_call list"

definition new_pool :: "'c call_pool" where
  "new_pool = \<lparr>po_queues = (\<lambda>_. None), po_started = (\<lambda>_. []), po_running = (\<lambda>_. [])\<rparr>"

definition getQueue :: "'c call_pool \<Rightarrow> jsstr \<Rightarrow> 'c call_queue" where
  "getQueue p selector = (case po_queues p selector of None \<Rightarrow> new_queue | Some q \<Rightarrow> q)"

definition pump_pool :: "nat \<Rightarrow> nat \<Rightarrow> jsstr \<Rightarrow> 'c call_queue \<Rightarrow> 'c call_pool \<Rightarrow> 'c call_pool" where
  "pump_pool n b selector q p = (case pump n b q of (begun, q') \<Rightarrow>
     p\<lparr>po_queues := (po_queues p)(selector := Some q'),
       po_started := (po_started p)(selector := po_started p selector @ begun),
       po_running := (po_running p)(selector := po_running p selector @ begun)\<rparr>)"

definition push_call :: "'c queued_call \<Rightarrow> 'c call_queue \<Rightarrow> 'c call_queue" where
  "push_call call q =
     (if qc_background call then q\<lparr>cq_background := cq_background q @ [call]\<rparr>
      else q\<lparr>cq_foreground := cq_foreground q @ [call]\<rparr>)"

definition new_call :: "jsstr \<Rightarrow> 'c \<Rightarrow> 'c queued_call" where
  "new_call meth r = \<lparr>qc_background = isBackgroundRuntimeMethod meth, qc_run = r\<rparr>"

definition enqueue_call :: "nat \<Rightarrow> nat \<Rightarrow> jsstr \<Rightarrow> jsstr \<Rightarrow> 'c \<Rightarrow> 'c call_pool \<Rightarrow> 'c call_pool" where
  "enqueue_call n b selector meth r p =
     pump_pool n b selector (push_call (new_call meth r) (getQueue p selector)) p"

text \<open>The \<open>finally\<close> of a call; \<open>Math.max(0, x - 1)\<close> is the subtraction of natural numbers.\<close>

definition end_call :: "nat \<Rightarrow> nat \<Rightarrow> jsstr \<Rightarrow> 'c queued_call \<Rightarrow> 'c call_pool \<Rightarrow> 'c call_pool" where
  "end_call n b selector call p =
     (let q = getQueue p selector;
          q1 = q\<lparr>cq_active := cq_active q - 1,
                 cq_backgroundActive := cq_backgroundActive q - (if qc_background call then 1 else 0)\<rparr>;
          p1 = p\<lparr>po_running := (po_running p)(selector := remove1 call (po_running p selector))\<rparr>
      in if cq_active q1 = 0 \<and> queue_isEmpty q1
         then p1\<lparr>po_queues := (po_queues p1)(selector := None)\<rparr>
         else pump_pool n b selector q1 p1)"

datatype 'c pool_event = Call_enqueued jsstr jsstr 'c | Call_ended jsstr "'c queued_call"

text \<open>Only a call that is running can end.\<close>

definition pool_step :: "nat \<Rightarrow> nat \<Rightarrow> 'c pool_event \<Rightarrow> 'c call_pool \<Rightarrow> 'c call_pool" where
  "pool_step n b e p = (case e of
     Call_enqueued selector meth r \<Rightarrow> enqueue_call n b selector meth r p
   | Call_ended selector call \<Rightarrow>
       if call \<in> set (po_running p selector) then end_call n b selector call p else p)"

definition pool_run :: "nat \<Rightarrow> nat \<Rightarrow> 'c pool_event list \<Rightarrow> 'c call_pool" where
  "pool_run n b events = fold (pool_step n b) events new_pool"

fun enqueued_calls :: "jsstr \<Rightarrow> 'c pool_event \<Rightarrow> 'c queued_call list" where
  "enqueued_calls s (Call_enqueued selector meth r) = (if selector = s then [new_call meth r] else [])"
| "enqueued_calls s (Call_ended _ _) = []"

subsection \<open>The queue as two lists\<close>

text \<open>What waits, whatever the head indexes and the compaction.\<close>

definition waiting :: "bool \<Rightarrow> 'c call_queue \<Rightarrow> 'c queued_call list" where
  "waiting bg q = (if bg then drop (cq_backgroundHead q) (cq_background q)
     else drop (cq_foregroundHead q) (cq_foreground q))"

definition queue_ok :: "'c call_queue \<Rightarrow> bool" where
  "queue_ok q = (cq_foregroundHead q \<le> length (cq_foreground q)
     \<and> cq_backgroundHead q \<le> length (cq_background q)
     \<and> (\<forall>c \<in> set (waiting True q). qc_background c) \<and> (\<forall>c \<in> set (waiting False q). \<not> qc_background c))"

lemma compact_drop: "compact calls head = (calls', head') \<Longrightarrow> drop head' calls' = drop head calls"
  and compact_bound: "compact calls head = (calls', head') \<Longrightarrow> head \<le> length calls \<Longrightarrow> head' \<le> length calls'"
  by (auto simp: compact_def split: if_splits)

lemma takeForeground_waiting:
  assumes "takeForeground q = Some (c, q')" and "queue_ok q"
  shows "waiting False q = c # waiting False q'" and "waiting True q' = waiting True q"
    and "queue_ok q'" and "\<not> qc_background c"
    and "cq_active q' = cq_active q" and "cq_backgroundActive q' = cq_backgroundActive q"
proof -
  obtain calls head where k: "compact (cq_foreground q) (Suc (cq_foregroundHead q)) = (calls, head)"
    by fastforce
  have less: "cq_foregroundHead q < length (cq_foreground q)"
    and c: "c = cq_foreground q ! cq_foregroundHead q"
    and q': "q' = q\<lparr>cq_foreground := calls, cq_foregroundHead := head\<rparr>"
    using assms(1) k by (auto simp: takeForeground_def split: if_splits)
  show w: "waiting False q = c # waiting False q'"
    using less compact_drop [OF k] by (simp add: waiting_def q' c Cons_nth_drop_Suc)
  show "waiting True q' = waiting True q" by (simp add: waiting_def q')
  with w show "queue_ok q'" and "\<not> qc_background c"
    using assms(2) compact_bound [OF k] less by (simp_all add: queue_ok_def q')
qed (use assms(1) in \<open>auto simp: takeForeground_def split: if_splits prod.splits\<close>)

lemma takeBackground_waiting:
  assumes "takeBackground q = Some (c, q')" and "queue_ok q"
  shows "waiting True q = c # waiting True q'" and "waiting False q' = waiting False q"
    and "queue_ok q'" and "qc_background c"
    and "cq_active q' = cq_active q" and "cq_backgroundActive q' = cq_backgroundActive q"
proof -
  obtain calls head where k: "compact (cq_background q) (Suc (cq_backgroundHead q)) = (calls, head)"
    by fastforce
  have less: "cq_backgroundHead q < length (cq_background q)"
    and c: "c = cq_background q ! cq_backgroundHead q"
    and q': "q' = q\<lparr>cq_background := calls, cq_backgroundHead := head\<rparr>"
    using assms(1) k by (auto simp: takeBackground_def split: if_splits)
  show w: "waiting True q = c # waiting True q'"
    using less compact_drop [OF k] by (simp add: waiting_def q' c Cons_nth_drop_Suc)
  show "waiting False q' = waiting False q" by (simp add: waiting_def q')
  with w show "queue_ok q'" and "qc_background c"
    using assms(2) compact_bound [OF k] less by (simp_all add: queue_ok_def q')
qed (use assms(1) in \<open>auto simp: takeBackground_def split: if_splits prod.splits\<close>)

lemma take_None:
  "takeForeground q = None \<longleftrightarrow> waiting False q = []" "takeBackground q = None \<longleftrightarrow> waiting True q = []"
  by (auto simp: takeForeground_def takeBackground_def waiting_def split: prod.split)

lemma queue_isEmpty_iff: "queue_isEmpty q \<longleftrightarrow> waiting False q = [] \<and> waiting True q = []"
  by (simp add: queue_isEmpty_def waiting_def)

lemma next_call_waiting:
  assumes "next_call b q = Some (c, q')" and "queue_ok q"
  shows "queue_ok q'" and "waiting x q = filter (\<lambda>d. qc_background d = x) [c] @ waiting x q'"
    and "cq_active q' = cq_active q" and "cq_backgroundActive q' = cq_backgroundActive q"
    and "qc_background c \<Longrightarrow> cq_backgroundActive q < b"
proof -
  consider "takeForeground q = Some (c, q')"
    | "takeBackground q = Some (c, q')" "cq_backgroundActive q < b"
    using assms(1) by (auto simp: next_call_def split: option.splits if_splits)
  then have "queue_ok q' \<and> waiting x q = filter (\<lambda>d. qc_background d = x) [c] @ waiting x q'
    \<and> cq_active q' = cq_active q \<and> cq_backgroundActive q' = cq_backgroundActive q
    \<and> (qc_background c \<longrightarrow> cq_backgroundActive q < b)"
  proof cases
    case 1
    show ?thesis using takeForeground_waiting [OF 1 assms(2)] by (cases x) simp_all
  next
    case 2
    show ?thesis using takeBackground_waiting [OF 2(1) assms(2)] 2(2) by (cases x) simp_all
  qed
  then show "queue_ok q'" "waiting x q = filter (\<lambda>d. qc_background d = x) [c] @ waiting x q'"
    "cq_active q' = cq_active q" "cq_backgroundActive q' = cq_backgroundActive q"
    "qc_background c \<Longrightarrow> cq_backgroundActive q < b" by blast+
qed

lemma next_call_None:
  "next_call b q = None \<Longrightarrow> waiting False q = [] \<and> (waiting True q = [] \<or> b \<le> cq_backgroundActive q)"
  by (auto simp: next_call_def take_None split: option.splits if_splits)

lemma count_active_fields [simp]:
  "waiting x (count_active c q) = waiting x q" "queue_ok (count_active c q) = queue_ok q"
  "cq_active (count_active c q) = Suc (cq_active q)"
  "cq_backgroundActive (count_active c q) = cq_backgroundActive q + (if qc_background c then 1 else 0)"
  by (simp_all add: count_active_def waiting_def queue_ok_def)

definition saturated :: "nat \<Rightarrow> nat \<Rightarrow> 'c call_queue \<Rightarrow> bool" where
  "saturated n b q = (cq_active q < n \<longrightarrow>
     waiting False q = [] \<and> (waiting True q = [] \<or> b \<le> cq_backgroundActive q))"

lemma pump_effect:
  assumes "pump n b q = (begun, q')" and "queue_ok q"
  shows "queue_ok q' \<and> cq_active q' = cq_active q + length begun
    \<and> cq_backgroundActive q' = cq_backgroundActive q + length (filter qc_background begun)
    \<and> (\<forall>x. waiting x q = filter (\<lambda>d. qc_background d = x) begun @ waiting x q')
    \<and> (cq_active q \<le> n \<longrightarrow> cq_active q' \<le> n)
    \<and> (cq_backgroundActive q \<le> b \<longrightarrow> cq_backgroundActive q' \<le> b) \<and> saturated n b q'"
  using assms
proof (induction n b q arbitrary: begun q' rule: pump.induct)
  case (1 n b q)
  show ?case
  proof (cases "cq_active q < n")
    case False
    then show ?thesis using "1.prems" by (simp add: pump.simps [of n b q] saturated_def)
  next
    case less: True
    show ?thesis
    proof (cases "next_call b q")
      case None
      then show ?thesis
        using "1.prems" less next_call_None [OF None] by (simp add: pump.simps [of n b q] saturated_def)
    next
      case (Some r)
      then obtain c q1 where r: "next_call b q = Some (c, q1)" by (cases r) auto
      obtain more where p: "pump n b (count_active c q1) = (more, q')" "begun = c # more"
        using "1.prems"(1) less r by (auto simp: pump.simps [of n b q] split: prod.splits)
      note n = next_call_waiting [OF r "1.prems"(2)]
      from "1.IH" [OF less r _ p(1)] n(1) show ?thesis
        using n less p(2) by auto
    qed
  qed
qed

subsection \<open>The pool\<close>

definition line_ok :: "nat \<Rightarrow> nat \<Rightarrow> 'c call_queue \<Rightarrow> 'c queued_call list \<Rightarrow> bool" where
  "line_ok n b q running = (queue_ok q \<and> cq_active q = length running
     \<and> cq_backgroundActive q = length (filter qc_background running)
     \<and> cq_active q \<le> n \<and> cq_backgroundActive q \<le> b)"

definition pool_ok :: "nat \<Rightarrow> nat \<Rightarrow> 'c call_pool \<Rightarrow> bool" where
  "pool_ok n b p = (\<forall>s. line_ok n b (getQueue p s) (po_running p s) \<and> saturated n b (getQueue p s))"

definition class_order :: "bool \<Rightarrow> jsstr \<Rightarrow> 'c call_pool \<Rightarrow> 'c queued_call list" where
  "class_order bg s p = filter (\<lambda>c. qc_background c = bg) (po_started p s) @ waiting bg (getQueue p s)"

lemma pump_pool_ok:
  assumes "line_ok n b q (po_running p s)"
    and "\<And>t. t \<noteq> s \<Longrightarrow> line_ok n b (getQueue p t) (po_running p t) \<and> saturated n b (getQueue p t)"
  shows "pool_ok n b (pump_pool n b s q p)"
    and "class_order bg t (pump_pool n b s q p) =
      (if t = s then filter (\<lambda>c. qc_background c = bg) (po_started p s) @ waiting bg q
       else class_order bg t p)"
proof -
  obtain begun q' where r: "pump n b q = (begun, q')" by fastforce
  have e: "queue_ok q' \<and> cq_active q' = cq_active q + length begun
    \<and> cq_backgroundActive q' = cq_backgroundActive q + length (filter qc_background begun)
    \<and> (\<forall>x. waiting x q = filter (\<lambda>d. qc_background d = x) begun @ waiting x q')
    \<and> (cq_active q \<le> n \<longrightarrow> cq_active q' \<le> n)
    \<and> (cq_backgroundActive q \<le> b \<longrightarrow> cq_backgroundActive q' \<le> b) \<and> saturated n b q'"
    using pump_effect [OF r] assms(1) by (simp add: line_ok_def)
  have sel: "getQueue (pump_pool n b s q p) t = (if t = s then q' else getQueue p t)"
    "po_running (pump_pool n b s q p) t = (if t = s then po_running p s @ begun else po_running p t)"
    "po_started (pump_pool n b s q p) t = (if t = s then po_started p s @ begun else po_started p t)"
    for t using r by (simp_all add: pump_pool_def getQueue_def)
  have "line_ok n b q' (po_running p s @ begun)"
    using e assms(1) by (simp add: line_ok_def)
  then show "pool_ok n b (pump_pool n b s q p)"
    unfolding pool_ok_def sel using assms(2) e by simp
  show "class_order bg t (pump_pool n b s q p) =
      (if t = s then filter (\<lambda>c. qc_background c = bg) (po_started p s) @ waiting bg q
       else class_order bg t p)"
    unfolding class_order_def sel using e by simp
qed

lemma waiting_push:
  "queue_ok q \<Longrightarrow> waiting x (push_call c q) = waiting x q @ filter (\<lambda>d. qc_background d = x) [c]"
  by (cases x) (auto simp: waiting_def push_call_def queue_ok_def)

lemma line_ok_push: "line_ok n b q running \<Longrightarrow> line_ok n b (push_call c q) running"
  using waiting_push [of q True c] waiting_push [of q False c]
  by (auto simp: line_ok_def queue_ok_def push_call_def)

lemma enqueue_call_effect:
  assumes "pool_ok n b p"
  shows "pool_ok n b (enqueue_call n b s m r p)"
    and "class_order bg t (enqueue_call n b s m r p) =
      class_order bg t p @ filter (\<lambda>c. qc_background c = bg) (enqueued_calls t (Call_enqueued s m r))"
proof -
  have ok: "line_ok n b (getQueue p s) (po_running p s)" using assms by (simp add: pool_ok_def)
  then have line: "line_ok n b (push_call (new_call m r) (getQueue p s)) (po_running p s)"
    by (rule line_ok_push)
  note pumped = pump_pool_ok [OF line]
  show "pool_ok n b (enqueue_call n b s m r p)"
    unfolding enqueue_call_def by (rule pumped(1)) (use assms in \<open>simp add: pool_ok_def\<close>)
  have "class_order bg t (enqueue_call n b s m r p) =
      (if t = s then filter (\<lambda>c. qc_background c = bg) (po_started p s)
         @ waiting bg (push_call (new_call m r) (getQueue p s)) else class_order bg t p)"
    unfolding enqueue_call_def by (rule pumped(2)) (use assms in \<open>simp add: pool_ok_def\<close>)
  then show "class_order bg t (enqueue_call n b s m r p) =
      class_order bg t p @ filter (\<lambda>c. qc_background c = bg) (enqueued_calls t (Call_enqueued s m r))"
    using ok by (simp add: waiting_push line_ok_def class_order_def)
qed

lemma new_queue_simps [simp]:
  "waiting x new_queue = []" "queue_ok new_queue" "cq_active new_queue = 0"
  "cq_backgroundActive new_queue = 0"
  by (simp_all add: waiting_def new_queue_def queue_ok_def)

lemma length_filter_remove1:
  "c \<in> set xs \<Longrightarrow> length (filter P xs) = length (filter P (remove1 c xs)) + (if P c then 1 else 0)"
  by (induction xs) auto

lemma waiting_counts [simp]:
  "waiting x (cq_active_update f q) = waiting x q" "waiting x (cq_backgroundActive_update f q) = waiting x q"
  "queue_isEmpty (cq_active_update f q) = queue_isEmpty q"
  "queue_isEmpty (cq_backgroundActive_update f q) = queue_isEmpty q"
  by (simp_all add: waiting_def queue_isEmpty_def)

lemma end_call_effect:
  assumes "pool_ok n b p" and "c \<in> set (po_running p s)"
  shows "pool_ok n b (end_call n b s c p) \<and> class_order bg t (end_call n b s c p) = class_order bg t p"
proof -
  let ?q = "(getQueue p s)\<lparr>cq_active := cq_active (getQueue p s) - 1,
     cq_backgroundActive := cq_backgroundActive (getQueue p s) - (if qc_background c then 1 else 0)\<rparr>"
  let ?p = "p\<lparr>po_running := (po_running p)(s := remove1 c (po_running p s))\<rparr>"
  have ok: "line_ok n b (getQueue p s) (po_running p s)" using assms by (simp add: pool_ok_def)
  have w: "waiting x ?q = waiting x (getQueue p s)" for x by simp
  have line: "line_ok n b ?q (remove1 c (po_running p s))"
    using ok assms(2) length_filter_remove1 [OF assms(2), of qc_background]
    by (auto simp: line_ok_def queue_ok_def length_remove1)
  have others: "line_ok n b (getQueue ?p t) (po_running ?p t) \<and> saturated n b (getQueue ?p t)"
    if "t \<noteq> s" for t using assms(1) that by (simp add: pool_ok_def getQueue_def)
  show ?thesis
  proof (cases "cq_active ?q = 0 \<and> queue_isEmpty ?q")
    case True
    let ?r = "?p\<lparr>po_queues := (po_queues p)(s := None)\<rparr>"
    have eq: "end_call n b s c p = ?r" using True by (simp add: end_call_def Let_def)
    have none: "waiting x (getQueue p s) = []" for x
      using True w by (cases x) (simp_all add: queue_isEmpty_iff)
    have "remove1 c (po_running p s) = []" using line True by (simp add: line_ok_def)
    then have "line_ok n b (getQueue ?r s) (po_running ?r s) \<and> saturated n b (getQueue ?r s)"
      by (simp add: getQueue_def line_ok_def saturated_def)
    then have "pool_ok n b ?r"
      using others by (auto simp: pool_ok_def getQueue_def)
    moreover have "class_order bg t ?r = class_order bg t p"
      using none by (simp add: class_order_def getQueue_def)
    ultimately show ?thesis by (simp add: eq)
  next
    case False
    then have eq: "end_call n b s c p = pump_pool n b s ?q ?p" by (auto simp: end_call_def Let_def)
    have "line_ok n b ?q (po_running ?p s)" using line by simp
    note pumped = pump_pool_ok [OF this others]
    show ?thesis
      unfolding eq using pumped w by (simp add: class_order_def getQueue_def)
  qed
qed

lemma pool_run_effect:
  "pool_ok n b (pool_run n b events) \<and> class_order bg s (pool_run n b events) =
     filter (\<lambda>c. qc_background c = bg) (concat (map (enqueued_calls s) events))"
proof (induction events rule: rev_induct)
  case Nil
  show ?case
    by (simp add: pool_run_def pool_ok_def new_pool_def getQueue_def line_ok_def saturated_def
        queue_ok_def waiting_def new_queue_def class_order_def)
next
  case (snoc e events)
  let ?p = "pool_run n b events"
  have ok: "pool_ok n b ?p" using snoc.IH by blast
  have step: "pool_run n b (events @ [e]) = pool_step n b e ?p" by (simp add: pool_run_def)
  show ?case
  proof (cases e)
    case (Call_enqueued sel m r)
    then show ?thesis
      unfolding step using snoc.IH enqueue_call_effect [OF ok]
      by (simp add: pool_step_def del: enqueued_calls.simps)
  next
    case (Call_ended sel c)
    then show ?thesis
      unfolding step using snoc.IH end_call_effect [OF ok] by (simp add: pool_step_def)
  qed
qed

text \<open>
  C33. After any calls that were enqueued and any of the running ones that ended, for every
  selector: at most \<open>n\<close> calls run and at most \<open>b\<close> of them in the background; when a slot is free,
  no foreground call waits, and a background call only when \<open>b\<close> of them run; and the calls of
  either class were started in the order in which they were enqueued, none of them lost.
\<close>

theorem call_queue_fair:
  "\<exists>p running. p = pool_run n b events \<and> running = po_running p s
    \<and> length running \<le> n \<and> length (filter qc_background running) \<le> b
    \<and> (length running = n \<or> waiting False (getQueue p s) = []
        \<and> (waiting True (getQueue p s) = [] \<or> length (filter qc_background running) = b))
    \<and> filter (\<lambda>c. qc_background c = bg) (po_started p s) @ waiting bg (getQueue p s) =
        filter (\<lambda>c. qc_background c = bg) (concat (map (enqueued_calls s) events))"
proof -
  let ?p = "pool_run n b events"
  have "line_ok n b (getQueue ?p s) (po_running ?p s)" and "saturated n b (getQueue ?p s)"
    and "class_order bg s ?p = filter (\<lambda>c. qc_background c = bg) (concat (map (enqueued_calls s) events))"
    using pool_run_effect [of n b events bg s] by (simp_all add: pool_ok_def)
  then show ?thesis by (simp add: line_ok_def saturated_def class_order_def) linarith
qed

end
