(* ===== verification/Terminal_Frames.thy ===== *)
theory Terminal_Frames
  imports Byte_Stream
begin

section \<open>Frames of a terminal stream\<close>

text \<open>
  \<open>src/src/shared/terminal-stream-protocol.ts\<close>: the frames a client and a terminal exchange over
  a binary socket, one per message: a header of 16 bytes (kind, version, opcode, a zero, the
  stream, and a sequence number in two words) and the payload. Numbers are the integers the
  language represents exactly; the sequence of a frame may be negative and is sent as zero then.
  Shown: decoding inverts encoding.
\<close>

definition TERMINAL_STREAM_KIND :: byte where
  "TERMINAL_STREAM_KIND = 0x74"

definition TERMINAL_STREAM_VERSION :: byte where
  "TERMINAL_STREAM_VERSION = 1"

definition HEADER_BYTES :: nat where
  "HEADER_BYTES = 16"

datatype terminal_opcode =
    TO_Output | TO_SnapshotStart | TO_SnapshotChunk | TO_SnapshotEnd | TO_Resized | TO_Error
  | TO_Input | TO_Resize | TO_Subscribe | TO_Unsubscribe | TO_SnapshotRequest | TO_Metadata
  | TO_Ack | TO_ClaimViewport

fun opcode_value :: "terminal_opcode \<Rightarrow> nat" where
  "opcode_value TO_Output = 1"
| "opcode_value TO_SnapshotStart = 2"
| "opcode_value TO_SnapshotChunk = 3"
| "opcode_value TO_SnapshotEnd = 4"
| "opcode_value TO_Resized = 5"
| "opcode_value TO_Error = 6"
| "opcode_value TO_Input = 7"
| "opcode_value TO_Resize = 8"
| "opcode_value TO_Subscribe = 9"
| "opcode_value TO_Unsubscribe = 10"
| "opcode_value TO_SnapshotRequest = 11"
| "opcode_value TO_Metadata = 12"
| "opcode_value TO_Ack = 13"
| "opcode_value TO_ClaimViewport = 14"

definition all_opcodes :: "terminal_opcode list" where
  "all_opcodes = [TO_Output, TO_SnapshotStart, TO_SnapshotChunk, TO_SnapshotEnd, TO_Resized,
     TO_Error, TO_Input, TO_Resize, TO_Subscribe, TO_Unsubscribe, TO_SnapshotRequest, TO_Metadata,
     TO_Ack, TO_ClaimViewport]"

text \<open>\<open>isTerminalStreamOpcode\<close>, with the opcode it finds.\<close>

definition isTerminalStreamOpcode :: "nat \<Rightarrow> terminal_opcode option" where
  "isTerminalStreamOpcode v = find (\<lambda>c. opcode_value c = v) all_opcodes"

record terminal_frame =
  tf_opcode :: terminal_opcode
  tf_streamId :: nat
  tf_seq :: int
  tf_payload :: "byte list"

definition encodeTerminalStreamFrame :: "terminal_frame \<Rightarrow> byte list" where
  "encodeTerminalStreamFrame frame =
     (let seq = nat (max 0 (tf_seq frame))
      in [TERMINAL_STREAM_KIND, TERMINAL_STREAM_VERSION, word_of_nat (opcode_value (tf_opcode frame)), 0]
         @ le32 (tf_streamId frame) @ le32 (seq div 2 ^ 32) @ le32 (seq mod 2 ^ 32)
         @ tf_payload frame)"

definition decodeTerminalStreamFrame :: "byte list \<Rightarrow> terminal_frame option" where
  "decodeTerminalStreamFrame b =
     (if length b < HEADER_BYTES then None
      else if b ! 0 \<noteq> TERMINAL_STREAM_KIND \<or> b ! 1 \<noteq> TERMINAL_STREAM_VERSION then None
      else (case isTerminalStreamOpcode (unat (b ! 2)) of
              None \<Rightarrow> None
            | Some opcode \<Rightarrow>
                Some \<lparr>tf_opcode = opcode, tf_streamId = rd_le32 (drop 4 b),
                      tf_seq = int (rd_le32 (drop 8 b) * 2 ^ 32 + rd_le32 (drop 12 b)),
                      tf_payload = drop HEADER_BYTES b\<rparr>))"

lemma opcode_found: "isTerminalStreamOpcode (opcode_value c) = Some c"
  by (cases c) (simp_all add: isTerminalStreamOpcode_def all_opcodes_def)

lemma opcode_byte: "unat (word_of_nat (opcode_value c) :: byte) = opcode_value c"
  by (cases c) (simp_all add: unat_byte)

text \<open>
  Encoding and decoding a frame: the stream is an unsigned word and the sequence an exact
  integer, and the frame comes back with the same payload; a negative sequence comes back as zero.
\<close>

theorem terminal_frame_roundtrip:
  assumes "tf_streamId f < 2 ^ 32" and "tf_seq f < 2 ^ 53"
  shows "decodeTerminalStreamFrame (encodeTerminalStreamFrame f) =
    Some (f\<lparr>tf_seq := max 0 (tf_seq f)\<rparr>)"
proof -
  define seq where "seq = nat (max 0 (tf_seq f))"
  have "seq < 2 ^ 53" using assms(2) by (simp add: seq_def nat_less_iff)
  then have high: "seq div 2 ^ 32 < 2 ^ 32" and low: "seq mod 2 ^ 32 < 2 ^ 32"
    by (auto simp: div_less_iff_less_mult)
  have bytes: "encodeTerminalStreamFrame f =
     [TERMINAL_STREAM_KIND, TERMINAL_STREAM_VERSION, word_of_nat (opcode_value (tf_opcode f)), 0]
       @ le32 (tf_streamId f) @ le32 (seq div 2 ^ 32) @ le32 (seq mod 2 ^ 32) @ tf_payload f"
    by (simp add: encodeTerminalStreamFrame_def seq_def Let_def)
  have "rd_le32 (drop 4 (encodeTerminalStreamFrame f)) = tf_streamId f"
    and "rd_le32 (drop 8 (encodeTerminalStreamFrame f)) = seq div 2 ^ 32"
    and "rd_le32 (drop 12 (encodeTerminalStreamFrame f)) = seq mod 2 ^ 32"
    and "drop 16 (encodeTerminalStreamFrame f) = tf_payload f"
    using rd_le32_le32 [OF assms(1)] rd_le32_le32 [OF high] rd_le32_le32 [OF low]
    by (simp_all add: bytes)
  moreover have "seq div 2 ^ 32 * 2 ^ 32 + seq mod 2 ^ 32 = seq" by (rule div_mult_mod_eq)
  moreover have "int seq = max 0 (tf_seq f)" by (simp add: seq_def)
  moreover have "16 \<le> length (encodeTerminalStreamFrame f)"
    and "encodeTerminalStreamFrame f ! 0 = TERMINAL_STREAM_KIND"
    and "encodeTerminalStreamFrame f ! 1 = TERMINAL_STREAM_VERSION"
    and "unat (encodeTerminalStreamFrame f ! 2) = opcode_value (tf_opcode f)"
    by (simp_all add: bytes opcode_byte)
  ultimately show ?thesis
    by (simp add: decodeTerminalStreamFrame_def HEADER_BYTES_def opcode_found)
qed

definition demo_frame :: terminal_frame where
  "demo_frame = \<lparr>tf_opcode = TO_Ack, tf_streamId = 7, tf_seq = 5000000000, tf_payload = [1, 2]\<rparr>"

theorem terminal_frame_roundtrip_witness:
  "decodeTerminalStreamFrame (encodeTerminalStreamFrame demo_frame) = Some demo_frame"
  using terminal_frame_roundtrip [of demo_frame] by (simp add: demo_frame_def)

end
