(* ===== verification/Priority_Semaphore.thy ===== *)
theory Priority_Semaphore
  imports Prelude
begin

section \<open>The priority semaphore\<close>

text \<open>
  \<open>src/src/main/daemon/priority-semaphore.ts\<close>: a fixed number of slots; who finds none waits, and
  a slot that is released goes to the waiter with the lowest priority number, the first of equal
  ones. A caller is named by a number. The release function a holder gets works once: calling it
  again does nothing (\<open>released\<close>), so a caller is a holder until its first release.
  Shown: slots are neither lost nor doubled, at most as many callers hold one as there are, and
  somebody waits only when all are held.
\<close>

record waiter =
  sw_priority :: int
  sw_caller :: nat

record semaphore =
  sm_available :: nat
  sm_waiters :: "waiter list"
  sm_holders :: "nat list"

definition new_semaphore :: "nat \<Rightarrow> semaphore" where
  "new_semaphore concurrency = \<lparr>sm_available = concurrency, sm_waiters = [], sm_holders = []\<rparr>"

definition acquire :: "int \<Rightarrow> nat \<Rightarrow> semaphore \<Rightarrow> semaphore" where
  "acquire priority caller s =
     (if 0 < sm_available s
      then s\<lparr>sm_available := sm_available s - 1, sm_holders := sm_holders s @ [caller]\<rparr>
      else s\<lparr>sm_waiters := sm_waiters s @ [\<lparr>sw_priority = priority, sw_caller = caller\<rparr>]\<rparr>)"

text \<open>The loop over the waiters from index \<open>i\<close> on.\<close>

fun best_from :: "waiter list \<Rightarrow> nat \<Rightarrow> waiter list \<Rightarrow> nat \<Rightarrow> nat" where
  "best_from all i [] best = best"
| "best_from all i (w # ws) best =
     best_from all (Suc i) ws (if sw_priority w < sw_priority (all ! best) then i else best)"

definition best_index :: "waiter list \<Rightarrow> nat" where
  "best_index ws = best_from ws 1 (drop 1 ws) 0"

definition release_slot :: "semaphore \<Rightarrow> semaphore" where
  "release_slot s =
     (if sm_waiters s = [] then s\<lparr>sm_available := Suc (sm_available s)\<rparr>
      else (let i = best_index (sm_waiters s)
            in s\<lparr>sm_waiters := take i (sm_waiters s) @ drop (Suc i) (sm_waiters s),
                 sm_holders := sm_holders s @ [sw_caller (sm_waiters s ! i)]\<rparr>))"

text \<open>The function a holder was given: the first call of it releases the slot.\<close>

definition call_release :: "nat \<Rightarrow> semaphore \<Rightarrow> semaphore" where
  "call_release caller s =
     (if caller \<in> set (sm_holders s)
      then release_slot (s\<lparr>sm_holders := remove1 caller (sm_holders s)\<rparr>) else s)"

datatype semaphore_event = Acquire int nat | Release nat

fun semaphore_step :: "semaphore_event \<Rightarrow> semaphore \<Rightarrow> semaphore" where
  "semaphore_step (Acquire p c) s = acquire p c s"
| "semaphore_step (Release c) s = call_release c s"

subsection \<open>Who gets the slot\<close>

lemma best_from_min:
  assumes "all = pre @ ws" and "best < length pre"
    and "\<forall>j < length pre. sw_priority (all ! best) \<le> sw_priority (all ! j)
      \<and> (j < best \<longrightarrow> sw_priority (all ! best) < sw_priority (all ! j))"
  shows "best_from all (length pre) ws best < length all
    \<and> (\<forall>j < length all. sw_priority (all ! best_from all (length pre) ws best) \<le> sw_priority (all ! j)
      \<and> (j < best_from all (length pre) ws best \<longrightarrow>
          sw_priority (all ! best_from all (length pre) ws best) < sw_priority (all ! j)))"
  using assms
proof (induction ws arbitrary: pre best)
  case (Cons w ws)
  let ?b = "if sw_priority w < sw_priority (all ! best) then length pre else best"
  have w: "all ! length pre = w" using Cons.prems(1) by simp
  have split: "all = (pre @ [w]) @ ws" using Cons.prems(1) by simp
  have less: "?b < length (pre @ [w])" using Cons.prems(2) by simp
  have "\<forall>j < length (pre @ [w]). sw_priority (all ! ?b) \<le> sw_priority (all ! j)
      \<and> (j < ?b \<longrightarrow> sw_priority (all ! ?b) < sw_priority (all ! j))"
    using Cons.prems(2,3) w by (fastforce simp: less_Suc_eq)
  from Cons.IH [OF split less this] show ?case by simp
qed auto

lemma best_index_min:
  assumes "ws \<noteq> []"
  shows "best_index ws < length ws"
    and "j < length ws \<Longrightarrow> sw_priority (ws ! best_index ws) \<le> sw_priority (ws ! j)"
    and "j < best_index ws \<Longrightarrow> sw_priority (ws ! best_index ws) < sw_priority (ws ! j)"
  using best_from_min [of ws "[hd ws]" "tl ws" 0] assms
  by (cases ws; force simp: best_index_def)+

subsection \<open>Slots\<close>

definition semaphore_ok :: "nat \<Rightarrow> semaphore \<Rightarrow> bool" where
  "semaphore_ok n s = (sm_available s + length (sm_holders s) = n
     \<and> (sm_waiters s = [] \<or> sm_available s = 0))"

lemma semaphore_step_ok: "semaphore_ok n s \<Longrightarrow> semaphore_ok n (semaphore_step e s)"
  using length_pos_if_in_set
  by (cases e) (fastforce simp: semaphore_ok_def acquire_def call_release_def release_slot_def
      length_remove1 Let_def)+

text \<open>
  After any acquisitions and releases: the free slots and the held ones are all there are, nobody
  waits while one is free, and the next release hands its slot to a waiter of the lowest priority
  number, before whom nobody with that number waits.
\<close>

theorem semaphore_slots:
  "\<exists>s. s = fold semaphore_step events (new_semaphore n)
    \<and> sm_available s + length (sm_holders s) = n
    \<and> (sm_waiters s = [] \<or> sm_available s = 0
        \<and> sm_holders (release_slot s) =
            sm_holders s @ [sw_caller (sm_waiters s ! best_index (sm_waiters s))]
        \<and> list_all (\<lambda>w. sw_priority (sm_waiters s ! best_index (sm_waiters s)) \<le> sw_priority w)
            (sm_waiters s)
        \<and> list_all (\<lambda>w. sw_priority (sm_waiters s ! best_index (sm_waiters s)) < sw_priority w)
            (take (best_index (sm_waiters s)) (sm_waiters s)))"
proof -
  have "semaphore_ok n s \<Longrightarrow> semaphore_ok n (fold semaphore_step events s)" for s
    by (induction events arbitrary: s) (simp_all add: semaphore_step_ok)
  then have ok: "semaphore_ok n (fold semaphore_step events (new_semaphore n))"
    by (simp add: semaphore_ok_def new_semaphore_def)
  then show ?thesis
    using best_index_min [of "sm_waiters (fold semaphore_step events (new_semaphore n))"]
    by (auto simp: semaphore_ok_def release_slot_def Let_def list_all_length)
qed

end
