(* ===== verification/Utf8.thy ===== *)
theory Utf8
  imports Ndjson Byte_Stream
begin

section \<open>UTF-8 text in buffers\<close>

text \<open>
  \<open>Buffer.from(s, 'utf8')\<close> and \<open>buffer.toString('utf8')\<close>, the two conversions of the platform
  the program stores text with: a surrogate without its partner is written as the replacement
  character, and malformed bytes are read as one replacement character per maximal prefix of a
  sequence. What is read back is the text with its lone surrogates replaced
  (\<open>utf8_decode_encode\<close>).
\<close>

definition surrogate :: "nat \<Rightarrow> bool" where
  "surrogate u = (high_surrogate u \<or> low_surrogate u)"

definition join_surrogates :: "nat \<Rightarrow> nat \<Rightarrow> nat" where
  "join_surrogates u v = 0x10000 + (u - 0xD800) * 1024 + (v - 0xDC00)"

text \<open>The bytes of one scalar value.\<close>

definition utf8_scalar :: "nat \<Rightarrow> nat list" where
  "utf8_scalar c =
     (if c < 0x80 then [c]
      else if c < 0x800 then [192 + c div 64, 128 + c mod 64]
      else if c < 0x10000 then [224 + c div 4096, 128 + c div 64 mod 64, 128 + c mod 64]
      else [240 + c div 262144, 128 + c div 4096 mod 64, 128 + c div 64 mod 64, 128 + c mod 64])"

fun utf8_values :: "jsstr \<Rightarrow> nat list" where
  "utf8_values [] = []"
| "utf8_values [u] = utf8_scalar (if surrogate u then 0xFFFD else u)"
| "utf8_values (u # v # s) =
     (if high_surrogate u \<and> low_surrogate v
      then utf8_scalar (join_surrogates u v) @ utf8_values s
      else utf8_scalar (if surrogate u then 0xFFFD else u) @ utf8_values (v # s))"

definition utf8_encode :: "jsstr \<Rightarrow> byte list" where
  "utf8_encode s = map word_of_nat (utf8_values s)"

text \<open>
  The decoder: how many continuation bytes are awaited, the bits so far, and the range the next
  byte must be in. A byte out of range ends the sequence and is looked at again.
\<close>

definition units_of_scalar :: "nat \<Rightarrow> jsstr" where
  "units_of_scalar c =
     (if c < 0x10000 then [c]
      else [0xD800 + (c - 0x10000) div 1024, 0xDC00 + (c - 0x10000) mod 1024])"

fun utf8_read :: "nat \<Rightarrow> nat \<Rightarrow> nat \<Rightarrow> nat \<Rightarrow> nat list \<Rightarrow> jsstr" where
  "utf8_read 0 bits lo hi [] = []"
| "utf8_read 0 bits lo hi (b # bs) =
     (if b < 0x80 then b # utf8_read 0 0 128 191 bs
      else if 0xC2 \<le> b \<and> b \<le> 0xDF then utf8_read 1 (b - 0xC0) 128 191 bs
      else if 0xE0 \<le> b \<and> b \<le> 0xEF
        then utf8_read 2 (b - 0xE0) (if b = 0xE0 then 160 else 128) (if b = 0xED then 159 else 191) bs
      else if 0xF0 \<le> b \<and> b \<le> 0xF4
        then utf8_read 3 (b - 0xF0) (if b = 0xF0 then 144 else 128) (if b = 0xF4 then 143 else 191) bs
      else 0xFFFD # utf8_read 0 0 128 191 bs)"
| "utf8_read (Suc n) bits lo hi [] = [0xFFFD]"
| "utf8_read (Suc n) bits lo hi (b # bs) =
     (if lo \<le> b \<and> b \<le> hi
      then (let c = bits * 64 + (b - 128)
            in if n = 0 then units_of_scalar c @ utf8_read 0 0 128 191 bs
               else utf8_read n c 128 191 bs)
      else 0xFFFD # utf8_read 0 0 128 191 (b # bs))"

definition utf8_decode :: "byte list \<Rightarrow> jsstr" where
  "utf8_decode bs = utf8_read 0 0 128 191 (map unat bs)"

text \<open>\<open>toWellFormed\<close>: every surrogate without its partner replaced.\<close>

fun well_formed_text :: "jsstr \<Rightarrow> jsstr" where
  "well_formed_text [] = []"
| "well_formed_text [u] = [if surrogate u then 0xFFFD else u]"
| "well_formed_text (u # v # s) =
     (if high_surrogate u \<and> low_surrogate v then u # v # well_formed_text s
      else (if surrogate u then 0xFFFD else u) # well_formed_text (v # s))"

definition code_units :: "jsstr \<Rightarrow> bool" where
  "code_units s = (\<forall>u \<in> set s. u < 0x10000)"

subsection \<open>Round trip\<close>

text \<open>A number below the next plane in digits of base 64.\<close>

lemma six_bits: "128 + x mod 64 < 192" "128 \<le> 128 + x mod (64 :: nat)"
  using mod_less_divisor [of 64 x] by simp_all

lemma base64_digits:
  fixes c :: nat
  shows "c div 64 * 64 + c mod 64 = c"
    and "(c div 4096 * 64 + c div 64 mod 64) * 64 + c mod 64 = c"
    and "((c div 262144 * 64 + c div 4096 mod 64) * 64 + c div 64 mod 64) * 64 + c mod 64 = c"
proof -
  have a: "c div 64 * 64 + c mod 64 = c" by simp
  have b: "c div 4096 * 64 + c div 64 mod 64 = c div 64"
    using div_mult_mod_eq [of "c div 64" 64] by (simp add: div_mult2_eq [symmetric])
  have d: "c div 262144 * 64 + c div 4096 mod 64 = c div 4096"
    using div_mult_mod_eq [of "c div 4096" 64] by (simp add: div_mult2_eq [symmetric])
  show "c div 64 * 64 + c mod 64 = c" by (rule a)
  show "(c div 4096 * 64 + c div 64 mod 64) * 64 + c mod 64 = c" unfolding b by (rule a)
  show "((c div 262144 * 64 + c div 4096 mod 64) * 64 + c div 64 mod 64) * 64 + c mod 64 = c"
    unfolding d b by (rule a)
qed

lemma utf8_scalar_bytes:
  assumes "c < 0x110000" and "b \<in> set (utf8_scalar c)"
  shows "b < 256"
proof -
  have "128 + x mod 64 < 256" for x :: nat using six_bits(1) [of x] by linarith
  moreover have "c div 262144 < 16" "c < 0x10000 \<Longrightarrow> c div 4096 < 16" "c < 0x800 \<Longrightarrow> c div 64 < 32"
    using assms(1) by (simp_all add: less_mult_imp_div_less)
  ultimately show ?thesis using assms(2) by (auto simp: utf8_scalar_def split: if_splits)
qed

text \<open>What the decoder does in the middle of a sequence of the encoder.\<close>

lemma read_last:
  "lo \<le> 128 + m \<Longrightarrow> 128 + m \<le> hi \<Longrightarrow>
   utf8_read (Suc 0) bits lo hi ((128 + m) # r)
     = units_of_scalar (bits * 64 + m) @ utf8_read 0 0 128 191 r"
  by simp

lemma read_more:
  "lo \<le> 128 + m \<Longrightarrow> 128 + m \<le> hi \<Longrightarrow>
   utf8_read (Suc (Suc n)) bits lo hi ((128 + m) # r) = utf8_read (Suc n) (bits * 64 + m) 128 191 r"
  by simp

lemma read_scalar_2:
  assumes "128 \<le> c" "c < 0x800"
  shows "utf8_read 0 bits lo hi ([192 + c div 64, 128 + c mod 64] @ r)
    = units_of_scalar c @ utf8_read 0 0 128 191 r"
proof -
  have q: "2 \<le> c div 64" "c div 64 < 32" using assms by (simp_all add: less_mult_imp_div_less)
  have "utf8_read 0 bits lo hi ([192 + c div 64, 128 + c mod 64] @ r)
      = utf8_read (Suc 0) (c div 64) 128 191 ((128 + c mod 64) # r)"
    using q by simp
  also have "\<dots> = units_of_scalar c @ utf8_read 0 0 128 191 r"
    using six_bits [of c] by (subst read_last) (simp_all add: base64_digits)
  finally show ?thesis .
qed

lemma no_surrogate_digits:
  "c = (13 * 64 + a) * 64 + b \<Longrightarrow> a < 64 \<Longrightarrow> b < 64 \<Longrightarrow> \<not> surrogate c \<Longrightarrow> a < 32"
  by (rule ccontr) (simp add: surrogate_def high_surrogate_def low_surrogate_def)

lemma read_scalar_3:
  assumes "0x800 \<le> c" "c < 0x10000" "\<not> surrogate c"
  shows "utf8_read 0 bits lo hi ([224 + c div 4096, 128 + c div 64 mod 64, 128 + c mod 64] @ r)
    = units_of_scalar c @ utf8_read 0 0 128 191 r"
proof -
  have q: "c div 4096 < 16" using assms(2) by (simp add: less_mult_imp_div_less)
  have d: "c = (c div 4096 * 64 + c div 64 mod 64) * 64 + c mod 64"
    using base64_digits(2) [of c] by simp
  have m: "c div 64 mod 64 < 64" "c mod 64 < 64" by simp_all
  have lo: "(if c div 4096 = 0 then 160 else 128) \<le> 128 + c div 64 mod 64"
  proof (cases "c div 4096 = 0")
    case True
    then have "c div 64 mod 64 = c div 64" using div_mult2_eq [of c 64 64] by simp
    moreover have "32 \<le> c div 64" using assms(1) by simp
    ultimately show ?thesis using True by simp
  qed simp
  have hi: "128 + c div 64 mod 64 \<le> (if c div 4096 = 13 then 159 else 191)"
  proof (cases "c div 4096 = 13")
    case True
    then have "c = (13 * 64 + c div 64 mod 64) * 64 + c mod 64" using d by simp
    from no_surrogate_digits [OF this m assms(3)] True show ?thesis by simp
  next
    case False
    then show ?thesis using m by simp
  qed
  have "utf8_read 0 bits lo hi ([224 + c div 4096, 128 + c div 64 mod 64, 128 + c mod 64] @ r)
      = utf8_read (Suc (Suc 0)) (c div 4096) (if c div 4096 = 0 then 160 else 128)
          (if c div 4096 = 13 then 159 else 191) ((128 + c div 64 mod 64) # (128 + c mod 64) # r)"
    using q by (simp add: numeral_2_eq_2)
  also have "\<dots> = utf8_read (Suc 0) (c div 4096 * 64 + c div 64 mod 64) 128 191 ((128 + c mod 64) # r)"
    by (rule read_more) (rule lo, rule hi)
  also have "\<dots> = units_of_scalar ((c div 4096 * 64 + c div 64 mod 64) * 64 + c mod 64)
      @ utf8_read 0 0 128 191 r"
    using six_bits [of c] by (intro read_last) simp_all
  also have "\<dots> = units_of_scalar c @ utf8_read 0 0 128 191 r"
    by (simp only: base64_digits(2))
  finally show ?thesis .
qed

lemma read_scalar_4:
  assumes "0x10000 \<le> c" "c < 0x110000"
  shows "utf8_read 0 bits lo hi ([240 + c div 262144, 128 + c div 4096 mod 64,
      128 + c div 64 mod 64, 128 + c mod 64] @ r) = units_of_scalar c @ utf8_read 0 0 128 191 r"
proof -
  have q: "c div 262144 \<le> 4" using assms(2) by simp
  have d: "c div 4096 = c div 262144 * 64 + c div 4096 mod 64"
    using div_mult_mod_eq [of "c div 4096" 64] by (simp add: div_mult2_eq [symmetric])
  have e: "16 \<le> c div 4096" "c div 4096 \<le> 271" using assms by simp_all
  have m: "c div 4096 mod 64 < 64" by simp
  have lo: "(if c div 262144 = 0 then 144 else 128) \<le> 128 + c div 4096 mod 64"
    using d e by auto
  have hi: "128 + c div 4096 mod 64 \<le> (if c div 262144 = 4 then 143 else 191)"
    using d e m by auto
  have "utf8_read 0 bits lo hi ([240 + c div 262144, 128 + c div 4096 mod 64,
      128 + c div 64 mod 64, 128 + c mod 64] @ r)
      = utf8_read (Suc (Suc (Suc 0))) (c div 262144) (if c div 262144 = 0 then 144 else 128)
          (if c div 262144 = 4 then 143 else 191)
          ((128 + c div 4096 mod 64) # (128 + c div 64 mod 64) # (128 + c mod 64) # r)"
    using q by (simp add: numeral_3_eq_3)
  also have "\<dots> = utf8_read (Suc (Suc 0)) (c div 262144 * 64 + c div 4096 mod 64) 128 191
      ((128 + c div 64 mod 64) # (128 + c mod 64) # r)"
    by (rule read_more) (rule lo, rule hi)
  also have "\<dots> = utf8_read (Suc 0) ((c div 262144 * 64 + c div 4096 mod 64) * 64 + c div 64 mod 64)
      128 191 ((128 + c mod 64) # r)"
    using six_bits [of "c div 64"] by (intro read_more) simp_all
  also have "\<dots> = units_of_scalar
      (((c div 262144 * 64 + c div 4096 mod 64) * 64 + c div 64 mod 64) * 64 + c mod 64)
      @ utf8_read 0 0 128 191 r"
    using six_bits [of c] by (intro read_last) simp_all
  also have "\<dots> = units_of_scalar c @ utf8_read 0 0 128 191 r"
    by (simp only: base64_digits(3))
  finally show ?thesis .
qed

lemma read_scalar:
  assumes "c < 0x110000" "\<not> surrogate c"
  shows "utf8_read 0 bits lo hi (utf8_scalar c @ r) = units_of_scalar c @ utf8_read 0 0 128 191 r"
proof -
  consider "c < 0x80" | "0x80 \<le> c" "c < 0x800" | "0x800 \<le> c" "c < 0x10000" | "0x10000 \<le> c"
    by linarith
  then show ?thesis
  proof cases
    case 1
    then show ?thesis by (simp add: utf8_scalar_def units_of_scalar_def)
  next
    case 2
    then show ?thesis using read_scalar_2 [of c bits lo hi r] by (simp add: utf8_scalar_def)
  next
    case 3
    then show ?thesis using read_scalar_3 [of c bits lo hi r] assms
      by (simp add: utf8_scalar_def del: utf8_read.simps)
  next
    case 4
    then show ?thesis using read_scalar_4 [of c bits lo hi r] assms
      by (simp add: utf8_scalar_def del: utf8_read.simps)
  qed
qed

lemma join_surrogates_units:
  assumes "high_surrogate u" "low_surrogate v"
  shows "units_of_scalar (join_surrogates u v) = [u, v]" "join_surrogates u v < 0x110000"
    "\<not> surrogate (join_surrogates u v)"
proof -
  obtain a b where "u = 0xD800 + a" "v = 0xDC00 + b" "a < 1024" "b < 1024"
    using assms by (auto simp: high_surrogate_def low_surrogate_def le_iff_add)
  then show "units_of_scalar (join_surrogates u v) = [u, v]" "join_surrogates u v < 0x110000"
    "\<not> surrogate (join_surrogates u v)"
    by (auto simp: units_of_scalar_def join_surrogates_def surrogate_def high_surrogate_def
        low_surrogate_def)
qed

lemma read_values:
  "code_units s \<Longrightarrow> utf8_read 0 bits lo hi (utf8_values s) = well_formed_text s"
proof (induction s arbitrary: bits lo hi rule: utf8_values.induct)
  case (2 u)
  then show ?case
    using read_scalar [of "if surrogate u then 0xFFFD else u" bits lo hi "[]"]
    by (auto simp: code_units_def units_of_scalar_def surrogate_def high_surrogate_def
        low_surrogate_def split: if_splits)
next
  case (3 u v s)
  show ?case
  proof (cases "high_surrogate u \<and> low_surrogate v")
    case True
    then show ?thesis
      using 3 read_scalar [of "join_surrogates u v" bits lo hi "utf8_values s"]
        join_surrogates_units [of u v]
      by (simp add: code_units_def)
  next
    case False
    let ?c = "if surrogate u then 0xFFFD else u"
    have c: "?c < 0x10000" "\<not> surrogate ?c"
      using "3.prems" by (auto simp: code_units_def surrogate_def high_surrogate_def low_surrogate_def)
    have "utf8_read 0 0 128 191 (utf8_values (v # s)) = well_formed_text (v # s)"
      using 3 False by (simp add: code_units_def)
    moreover have "utf8_values (u # v # s) = utf8_scalar ?c @ utf8_values (v # s)"
      and "well_formed_text (u # v # s) = ?c # well_formed_text (v # s)" using False by auto
    ultimately show ?thesis
      using read_scalar [of ?c bits lo hi "utf8_values (v # s)"] c
      by (simp only:) (simp add: units_of_scalar_def)
  qed
qed simp

lemma utf8_values_bytes: "code_units s \<Longrightarrow> b \<in> set (utf8_values s) \<Longrightarrow> b < 256"
proof (induction s rule: utf8_values.induct)
  case (2 u)
  then show ?case
    using utf8_scalar_bytes [of u b] utf8_scalar_bytes [of 65533 b]
    by (auto simp: code_units_def split: if_splits)
next
  case (3 u v s)
  then show ?case
    using join_surrogates_units(2) [of u v] utf8_scalar_bytes [of u b]
      utf8_scalar_bytes [of 65533 b] utf8_scalar_bytes [of "join_surrogates u v" b]
    by (auto simp: code_units_def split: if_splits)
qed simp

lemma unat_byte_map: "(\<And>b. b \<in> set bs \<Longrightarrow> b < 256) \<Longrightarrow> map (unat \<circ> (word_of_nat :: nat \<Rightarrow> byte)) bs = bs"
  by (induction bs) (auto simp: unat_byte)

theorem utf8_decode_encode:
  assumes "code_units s"
  shows "utf8_decode (utf8_encode s) = well_formed_text s"
proof -
  have "map unat (utf8_encode s) = utf8_values s"
    using unat_byte_map [OF utf8_values_bytes [OF assms]] by (simp add: utf8_encode_def)
  then show ?thesis by (simp add: utf8_decode_def read_values [OF assms])
qed

text \<open>The number of bytes is the one the line limit of the NDJSON parser counts.\<close>

lemma length_utf8_values: "code_units s \<Longrightarrow> length (utf8_values s) = utf8_length s"
proof (induction s rule: utf8_values.induct)
  case (2 u)
  then show ?case
    by (auto simp: code_units_def utf8_scalar_def surrogate_def high_surrogate_def low_surrogate_def)
next
  case (3 u v s)
  then show ?case
    by (auto simp: code_units_def utf8_scalar_def surrogate_def high_surrogate_def low_surrogate_def
        join_surrogates_def)
qed simp

lemma length_utf8_encode: "code_units s \<Longrightarrow> length (utf8_encode s) = utf8_length s"
  by (simp add: utf8_encode_def length_utf8_values)

lemma replacement_plain: "\<not> surrogate 0xFFFD"
  by (simp add: surrogate_def high_surrogate_def low_surrogate_def)

lemma well_formed_plain: "\<not> surrogate u \<Longrightarrow> well_formed_text (u # b) = u # well_formed_text b"
  by (cases b) (auto simp: surrogate_def)

lemma well_formed_append:
  "well_formed_text a = a \<Longrightarrow> well_formed_text b = b \<Longrightarrow> well_formed_text (a @ b) = a @ b"
  by (induction a rule: well_formed_text.induct)
    (auto simp: well_formed_plain replacement_plain split: if_splits)

end
