(* ===== verification/History_Log.thy ===== *)
theory History_Log
  imports Utf8 "HOL-Library.Sublist"
begin

section \<open>The incremental terminal history log\<close>

text \<open>
  \<open>src/src/main/daemon/terminal-history-log.ts\<close>: the file a session's output is appended to
  between two checkpoints. A header with a generation, then frames; a batch frame starts each
  append with its sequence number. \<open>log_roundtrip\<close> says that a written log is read back,
  \<open>torn_append\<close> what is read when the last append was cut off anywhere by a crash.
\<close>

subsection \<open>Writing\<close>

datatype output_record = Rec_output jsstr | Rec_resize int int | Rec_clear

record log_batch =
  lb_seq :: nat
  lb_records :: "output_record list"

record log_contents =
  lc_generation :: nat
  lc_batches :: "log_batch list"
  lc_truncatedTail :: bool

definition LOG_MAGIC :: "byte list" where
  "LOG_MAGIC = map word_of_nat (js ''OCKL'')"

definition LOG_FORMAT_VERSION :: byte where "LOG_FORMAT_VERSION = 1"
definition LOG_HEADER_BYTES :: nat where "LOG_HEADER_BYTES = 9"
definition FRAME_BATCH :: byte where "FRAME_BATCH = 1"
definition FRAME_OUTPUT :: byte where "FRAME_OUTPUT = 2"
definition FRAME_RESIZE :: byte where "FRAME_RESIZE = 3"
definition FRAME_CLEAR :: byte where "FRAME_CLEAR = 4"

definition uint32 :: "nat \<Rightarrow> nat" where
  "uint32 n = n mod 2 ^ 32"

definition encodeLogHeader :: "nat \<Rightarrow> byte list" where
  "encodeLogHeader generation = LOG_MAGIC @ [LOG_FORMAT_VERSION] @ le32 (uint32 generation)"

definition encode_log_frame :: "byte \<Rightarrow> byte list \<Rightarrow> exn + byte list" where
  "encode_log_frame kind payload =
     (if 2 ^ 32 \<le> length payload then Inl RangeError
      else Inr ([kind] @ le32 (length payload) @ payload))"

definition encodeSeqPayload :: "nat \<Rightarrow> byte list" where
  "encodeSeqPayload seq = le32 (uint32 seq)"

definition clampU16 :: "int \<Rightarrow> nat" where
  "clampU16 v = nat (max 0 (min 0xFFFF v))"

definition le16 :: "nat \<Rightarrow> byte list" where
  "le16 n = [word_of_nat n, word_of_nat (n div 256)]"

definition rd_le16 :: "byte list \<Rightarrow> nat" where
  "rd_le16 b = (case b of b0 # b1 # _ \<Rightarrow> unat b0 + unat b1 * 256 | _ \<Rightarrow> 0)"

fun record_payload :: "output_record \<Rightarrow> byte \<times> byte list" where
  "record_payload (Rec_output data) = (FRAME_OUTPUT, utf8_encode data)"
| "record_payload (Rec_resize cols rows) =
     (FRAME_RESIZE, le16 (clampU16 cols) @ le16 (clampU16 rows))"
| "record_payload Rec_clear = (FRAME_CLEAR, [])"

fun encode_frames :: "(byte \<times> byte list) list \<Rightarrow> exn + byte list" where
  "encode_frames [] = Inr []"
| "encode_frames ((kind, payload) # fs) =
     (case encode_log_frame kind payload of
        Inl e \<Rightarrow> Inl e
      | Inr b \<Rightarrow> (case encode_frames fs of Inl e \<Rightarrow> Inl e | Inr r \<Rightarrow> Inr (b @ r)))"

definition batch_frames :: "nat \<Rightarrow> output_record list \<Rightarrow> (byte \<times> byte list) list" where
  "batch_frames seq records = (FRAME_BATCH, encodeSeqPayload seq) # map record_payload records"

definition encodeLogBatch :: "nat \<Rightarrow> output_record list \<Rightarrow> exn + byte list" where
  "encodeLogBatch seq records = encode_frames (batch_frames seq records)"

subsection \<open>Reading\<close>

text \<open>\<open>toString('ascii')\<close> reads the low seven bits of a byte.\<close>

definition ascii_text :: "byte list \<Rightarrow> jsstr" where
  "ascii_text bs = map (\<lambda>b. unat b mod 128) bs"

definition decodeLogHeader :: "byte list \<Rightarrow> nat option" where
  "decodeLogHeader buffer =
     (if length buffer < LOG_HEADER_BYTES then None
      else if ascii_text (take 4 buffer) \<noteq> js ''OCKL'' then None
      else if buffer ! 4 \<noteq> LOG_FORMAT_VERSION then None
      else Some (rd_le32 (drop 5 buffer)))"

text \<open>The effect of one complete frame on the batches; the current batch is the last of them.\<close>

definition push_record :: "output_record \<Rightarrow> log_batch list \<Rightarrow> log_batch list" where
  "push_record r batches =
     butlast batches @ [last batches\<lparr>lb_records := lb_records (last batches) @ [r]\<rparr>]"

definition log_frame :: "byte \<Rightarrow> byte list \<Rightarrow> log_batch list \<Rightarrow> log_batch list option" where
  "log_frame kind payload batches =
     (if kind = FRAME_BATCH then
        (if length payload \<noteq> 4 then None
         else (let seq = rd_le32 payload
               in if batches \<noteq> [] \<and> seq \<noteq> lb_seq (last batches) + 1 then None
                  else Some (batches @ [\<lparr>lb_seq = seq, lb_records = []\<rparr>])))
      else if batches = [] then None
      else if kind = FRAME_OUTPUT then Some (push_record (Rec_output (utf8_decode payload)) batches)
      else if kind = FRAME_RESIZE then
        (if length payload \<noteq> 4 then None
         else Some (push_record
                (Rec_resize (int (rd_le16 payload)) (int (rd_le16 (drop 2 payload)))) batches))
      else if kind = FRAME_CLEAR then Some (push_record Rec_clear batches)
      else None)"

text \<open>The loop, on the bytes from \<open>offset\<close> on.\<close>

function log_loop :: "byte list \<Rightarrow> log_batch list \<Rightarrow> (log_batch list \<times> bool) option" where
  "log_loop buffer batches =
     (if buffer = [] then Some (batches, False)
      else if length buffer < 5 then Some (batches, True)
      else (let payloadEnd = 5 + rd_le32 (drop 1 buffer)
            in if length buffer < payloadEnd then Some (batches, True)
               else (case log_frame (hd buffer) (drop 5 (take payloadEnd buffer)) batches of
                       None \<Rightarrow> None
                     | Some batches' \<Rightarrow> log_loop (drop payloadEnd buffer) batches')))"
  by pat_completeness auto
termination by (relation "measure (\<lambda>(buffer, _). length buffer)") auto

declare log_loop.simps [simp del]

definition decodeTerminalHistoryLog :: "byte list \<Rightarrow> log_contents option" where
  "decodeTerminalHistoryLog buffer =
     (case decodeLogHeader buffer of
        None \<Rightarrow> None
      | Some generation \<Rightarrow>
          (case log_loop (drop LOG_HEADER_BYTES buffer) [] of
             None \<Rightarrow> None
           | Some (batches, truncatedTail) \<Rightarrow>
               Some \<lparr>lc_generation = generation, lc_batches = batches,
                     lc_truncatedTail = truncatedTail\<rparr>))"

subsection \<open>Frames\<close>

definition frame_bytes :: "byte \<times> byte list \<Rightarrow> byte list" where
  "frame_bytes f = fst f # le32 (length (snd f)) @ snd f"

definition frame_fits :: "byte \<times> byte list \<Rightarrow> bool" where
  "frame_fits f = (length (snd f) < 2 ^ 32)"

lemma frame_bytes_Nil [simp]: "frame_bytes f \<noteq> []"
  by (simp add: frame_bytes_def)

lemma encode_frames_fit:
  "\<forall>f \<in> set fs. frame_fits f \<Longrightarrow> encode_frames fs = Inr (concat (map frame_bytes fs))"
  by (induction fs) (auto simp: encode_log_frame_def frame_fits_def frame_bytes_def)

lemma encode_frames_fitD: "encode_frames fs = Inr b \<Longrightarrow> f \<in> set fs \<Longrightarrow> frame_fits f"
  by (induction fs arbitrary: b)
    (auto simp: encode_log_frame_def frame_fits_def split: if_splits sum.splits)

lemma encode_frames_Inr:
  "encode_frames fs = Inr b \<longleftrightarrow> (\<forall>f \<in> set fs. frame_fits f) \<and> b = concat (map frame_bytes fs)"
  by (metis encode_frames_fit encode_frames_fitD sum.inject(2))

lemma length_frame_bytes: "length (frame_bytes f) = 5 + length (snd f)"
  by (simp add: frame_bytes_def)

lemma rd_le32_append: "4 \<le> length b \<Longrightarrow> rd_le32 (b @ c) = rd_le32 b"
  by (simp add: rd_le32_def)

lemma frame_length_read:
  "frame_fits f \<Longrightarrow> rd_le32 (drop 1 (frame_bytes f @ r)) = length (snd f)"
  by (simp add: frame_bytes_def frame_fits_def rd_le32_le32)

lemma log_loop_frame:
  assumes "frame_fits f"
  shows "log_loop (frame_bytes f @ r) batches =
    (case log_frame (fst f) (snd f) batches of None \<Rightarrow> None | Some batches' \<Rightarrow> log_loop r batches')"
proof -
  have n: "5 + rd_le32 (drop 1 (frame_bytes f @ r)) = length (frame_bytes f)"
    using frame_length_read [OF assms, of r] by (simp add: length_frame_bytes)
  have "frame_bytes f @ r \<noteq> []" "\<not> length (frame_bytes f @ r) < 5" "hd (frame_bytes f @ r) = fst f"
    "drop 5 (frame_bytes f) = snd f"
    by (simp_all add: frame_bytes_def)
  then show ?thesis
    by (subst log_loop.simps) (simp only: n Let_def, simp split: option.split)
qed

lemma drop_Suc_append: "1 \<le> length a \<Longrightarrow> drop 1 (a @ b) = drop 1 a @ b"
  by simp

text \<open>What is left when a frame is cut off: nothing, or a tail the loop stops at.\<close>

lemma log_loop_cut:
  assumes "frame_fits f" "k < length (frame_bytes f)"
  shows "log_loop (take k (frame_bytes f)) batches = Some (batches, k \<noteq> 0)"
proof (cases "k < 5")
  case True
  moreover have "5 \<le> length (frame_bytes f)" by (simp add: length_frame_bytes)
  ultimately show ?thesis by (subst log_loop.simps) auto
next
  case False
  let ?b = "take k (frame_bytes f)"
  have len: "length ?b = k" using assms(2) by simp
  have "drop 1 (frame_bytes f) = drop 1 ?b @ drop k (frame_bytes f)"
    using drop_Suc_append [of ?b "drop k (frame_bytes f)"] False len
    by (simp only: append_take_drop_id)
  moreover have "4 \<le> length (drop 1 ?b)" using False len by simp
  ultimately have "rd_le32 (drop 1 (frame_bytes f)) = rd_le32 (drop 1 ?b)"
    using rd_le32_append by metis
  then have n: "rd_le32 (drop 1 ?b) = length (snd f)"
    using frame_length_read [OF assms(1), of "[]"] by simp
  have "?b \<noteq> []" "\<not> length ?b < 5" "length ?b < 5 + length (snd f)"
    using False len assms(2) by (auto simp: length_frame_bytes)
  then show ?thesis by (subst log_loop.simps) (simp only: n Let_def, simp add: False)
qed

fun apply_frames :: "(byte \<times> byte list) list \<Rightarrow> log_batch list \<Rightarrow> log_batch list option" where
  "apply_frames [] batches = Some batches"
| "apply_frames (f # fs) batches =
     (case log_frame (fst f) (snd f) batches of None \<Rightarrow> None | Some b \<Rightarrow> apply_frames fs b)"

lemma apply_frames_append:
  "apply_frames (fs @ gs) batches =
     (case apply_frames fs batches of None \<Rightarrow> None | Some b \<Rightarrow> apply_frames gs b)"
  by (induction fs arbitrary: batches) (auto split: option.split)

lemma log_loop_frames:
  "\<forall>f \<in> set fs. frame_fits f \<Longrightarrow> log_loop (concat (map frame_bytes fs) @ r) batches =
     (case apply_frames fs batches of None \<Rightarrow> None | Some b \<Rightarrow> log_loop r b)"
  by (induction fs arbitrary: batches) (auto simp: log_loop_frame split: option.split)

text \<open>Any prefix of a list of frames is some of them and a piece of the next.\<close>

lemma take_frames:
  "\<exists>n j. take k (concat (map frame_bytes fs)) =
       concat (map frame_bytes (take n fs)) @ (if n < length fs then take j (frame_bytes (fs ! n)) else [])
     \<and> n \<le> length fs \<and> (n < length fs \<longrightarrow> j < length (frame_bytes (fs ! n)))
     \<and> (length (concat (map frame_bytes fs)) \<le> k \<longrightarrow> n = length fs)"
proof (induction fs arbitrary: k)
  case (Cons f fs)
  show ?case
  proof (cases "k < length (frame_bytes f)")
    case True
    then show ?thesis by (intro exI [of _ 0] exI [of _ k]) simp
  next
    case False
    obtain n j where "take (k - length (frame_bytes f)) (concat (map frame_bytes fs)) =
       concat (map frame_bytes (take n fs)) @ (if n < length fs then take j (frame_bytes (fs ! n)) else [])"
      "n \<le> length fs" "n < length fs \<longrightarrow> j < length (frame_bytes (fs ! n))"
      "length (concat (map frame_bytes fs)) \<le> k - length (frame_bytes f) \<longrightarrow> n = length fs"
      using Cons.IH by blast
    with False show ?thesis by (intro exI [of _ "Suc n"] exI [of _ j]) auto
  qed
qed simp

subsection \<open>What a written record is read as\<close>

fun norm_record :: "output_record \<Rightarrow> output_record" where
  "norm_record (Rec_output data) = Rec_output (well_formed_text data)"
| "norm_record (Rec_resize cols rows) = Rec_resize (int (clampU16 cols)) (int (clampU16 rows))"
| "norm_record Rec_clear = Rec_clear"

fun record_units :: "output_record \<Rightarrow> bool" where
  "record_units (Rec_output data) = code_units data"
| "record_units r = True"

lemma length_le16 [simp]: "length (le16 n) = 2"
  by (simp add: le16_def)

lemma rd_le16_le16: "n < 65536 \<Longrightarrow> rd_le16 (le16 n @ r) = n"
  by (simp add: rd_le16_def le16_def unat_byte less_mult_imp_div_less)

lemma clampU16_bound: "clampU16 v < 65536"
  by (simp add: clampU16_def)

lemma frame_kinds [simp]:
  "FRAME_OUTPUT \<noteq> FRAME_BATCH" "FRAME_RESIZE \<noteq> FRAME_BATCH" "FRAME_CLEAR \<noteq> FRAME_BATCH"
  "FRAME_RESIZE \<noteq> FRAME_OUTPUT" "FRAME_CLEAR \<noteq> FRAME_OUTPUT" "FRAME_CLEAR \<noteq> FRAME_RESIZE"
  by (simp_all add: FRAME_BATCH_def FRAME_OUTPUT_def FRAME_RESIZE_def FRAME_CLEAR_def)

lemma log_frame_record:
  assumes "record_units r" "batches \<noteq> []"
  shows "log_frame (fst (record_payload r)) (snd (record_payload r)) batches
    = Some (push_record (norm_record r) batches)"
proof (cases r)
  case (Rec_output data)
  with assms show ?thesis by (simp add: log_frame_def utf8_decode_encode)
next
  case (Rec_resize cols rows)
  have "rd_le16 (drop 2 (le16 (clampU16 cols) @ le16 (clampU16 rows))) = clampU16 rows"
    using rd_le16_le16 [of "clampU16 rows" "[]"] clampU16_bound by simp
  with Rec_resize assms show ?thesis
    by (simp add: log_frame_def rd_le16_le16 clampU16_bound)
qed (use assms in \<open>simp add: log_frame_def\<close>)

lemma push_record_last:
  "push_record r (bs @ [b]) = bs @ [b\<lparr>lb_records := lb_records b @ [r]\<rparr>]"
  by (simp add: push_record_def)

lemma apply_records:
  "\<forall>r \<in> set rs. record_units r \<Longrightarrow> apply_frames (map record_payload rs) (bs @ [b])
     = Some (bs @ [b\<lparr>lb_records := lb_records b @ map norm_record rs\<rparr>])"
  by (induction rs arbitrary: b) (auto simp: log_frame_record push_record_last)

lemma rd_seq: "rd_le32 (encodeSeqPayload seq) = uint32 seq"
  using rd_le32_le32 [of "uint32 seq" "[]"] by (simp add: encodeSeqPayload_def uint32_def)

lemma log_frame_batch: "log_frame FRAME_BATCH (encodeSeqPayload seq) batches =
   (if batches \<noteq> [] \<and> uint32 seq \<noteq> lb_seq (last batches) + 1 then None
    else Some (batches @ [\<lparr>lb_seq = uint32 seq, lb_records = []\<rparr>]))"
  using rd_seq [of seq] by (simp add: log_frame_def) (simp add: encodeSeqPayload_def)

text \<open>Batches as they were taken, as they are stored, and the check on their numbers.\<close>

type_synonym taken_batch = "nat \<times> output_record list"

definition batch_units :: "taken_batch list \<Rightarrow> bool" where
  "batch_units bs = (\<forall>(seq, rs) \<in> set bs. \<forall>r \<in> set rs. record_units r)"

definition stored_batches :: "taken_batch list \<Rightarrow> log_batch list" where
  "stored_batches bs = map (\<lambda>(seq, rs). \<lparr>lb_seq = uint32 seq, lb_records = map norm_record rs\<rparr>) bs"

fun contiguous :: "nat list \<Rightarrow> bool" where
  "contiguous [] = True"
| "contiguous [n] = True"
| "contiguous (n # m # ns) = (m = n + 1 \<and> contiguous (m # ns))"

definition contiguous_batches :: "taken_batch list \<Rightarrow> bool" where
  "contiguous_batches bs = contiguous (map (uint32 \<circ> fst) bs)"

definition frames_of :: "taken_batch list \<Rightarrow> (byte \<times> byte list) list" where
  "frames_of bs = concat (map (\<lambda>(seq, rs). batch_frames seq rs) bs)"

lemma contiguous_snoc:
  "contiguous (ns @ [n]) = (contiguous ns \<and> (ns = [] \<or> n = last ns + 1))"
  by (induction ns rule: contiguous.induct) auto

lemma contiguous_batches_snoc: "contiguous_batches (bs @ [(seq, rs)]) =
   (contiguous_batches bs \<and> (bs = [] \<or> uint32 seq = uint32 (fst (last bs)) + 1))"
  by (cases "bs = []") (simp_all add: contiguous_batches_def contiguous_snoc last_map)

lemma last_stored: "bs \<noteq> [] \<Longrightarrow> lb_seq (last (stored_batches bs)) = uint32 (fst (last bs))"
  by (simp add: stored_batches_def last_map split: prod.split)

lemma stored_batches_Nil [simp]: "stored_batches bs = [] \<longleftrightarrow> bs = []"
  by (simp add: stored_batches_def)

lemma stored_batches_append [simp]:
  "stored_batches (bs @ cs) = stored_batches bs @ stored_batches cs"
  by (simp add: stored_batches_def)

lemma batch_units_append [simp]: "batch_units (bs @ cs) = (batch_units bs \<and> batch_units cs)"
  by (auto simp: batch_units_def)

lemma frames_of_append [simp]: "frames_of (bs @ cs) = frames_of bs @ frames_of cs"
  by (simp add: frames_of_def)

lemma frames_of_single [simp]: "frames_of [(seq, rs)] = batch_frames seq rs"
  by (simp add: frames_of_def)

text \<open>The first \<open>n\<close> frames of a batch: none, or the batch with all but the last records.\<close>

definition torn_batch :: "nat \<Rightarrow> taken_batch \<Rightarrow> taken_batch list" where
  "torn_batch n b = (if n = 0 then [] else [(fst b, take (n - 1) (snd b))])"

lemma apply_torn_batch:
  assumes "\<forall>r \<in> set rs. record_units r"
  shows "apply_frames (take n (batch_frames seq rs)) (stored_batches bs) =
    (if n \<noteq> 0 \<and> bs \<noteq> [] \<and> uint32 seq \<noteq> uint32 (fst (last bs)) + 1 then None
     else Some (stored_batches (bs @ torn_batch n (seq, rs))))"
proof (cases n)
  case (Suc m)
  have "\<forall>r \<in> set (take m rs). record_units r" using assms by (auto dest: in_set_takeD)
  from apply_records [OF this, of "stored_batches bs" "\<lparr>lb_seq = uint32 seq, lb_records = []\<rparr>"]
  have "apply_frames (map record_payload (take m rs))
      (stored_batches bs @ [\<lparr>lb_seq = uint32 seq, lb_records = []\<rparr>])
    = Some (stored_batches (bs @ [(seq, take m rs)]))"
    by (simp add: stored_batches_def)
  then show ?thesis
    by (cases "bs = []")
      (auto simp: Suc batch_frames_def log_frame_batch last_stored torn_batch_def take_map)
qed (simp add: torn_batch_def)

lemma apply_batches: "batch_units bs \<Longrightarrow> apply_frames (frames_of bs) [] =
    (if contiguous_batches bs then Some (stored_batches bs) else None)"
proof (induction bs rule: rev_induct)
  case Nil
  then show ?case by (simp add: frames_of_def contiguous_batches_def stored_batches_def)
next
  case (snoc b bs)
  obtain seq rs where b: "b = (seq, rs)" by (cases b)
  have u: "\<forall>r \<in> set rs. record_units r" using snoc.prems by (simp add: b batch_units_def)
  have "apply_frames (batch_frames seq rs) (stored_batches bs) =
    (if bs \<noteq> [] \<and> uint32 seq \<noteq> uint32 (fst (last bs)) + 1 then None
     else Some (stored_batches (bs @ [(seq, rs)])))"
    using apply_torn_batch [OF u, of "length (batch_frames seq rs)" seq bs]
    by (simp add: torn_batch_def batch_frames_def)
  with snoc show ?case
    by (simp add: b apply_frames_append contiguous_batches_snoc)
qed

subsection \<open>The file\<close>

definition log_file :: "nat \<Rightarrow> taken_batch list \<Rightarrow> byte list" where
  "log_file generation bs = encodeLogHeader generation @ concat (map frame_bytes (frames_of bs))"

lemma length_header: "length (encodeLogHeader g) = 9"
  by (simp add: encodeLogHeader_def LOG_MAGIC_def)

lemma decode_header: "decodeLogHeader (encodeLogHeader g @ r) = Some (uint32 g)"
proof -
  have "rd_le32 (drop 5 (encodeLogHeader g @ r)) = uint32 g"
    using rd_le32_le32 [of "uint32 g" r]
    by (simp add: encodeLogHeader_def LOG_MAGIC_def uint32_def)
  moreover have "ascii_text (take 4 (encodeLogHeader g @ r)) = js ''OCKL''"
    by (simp add: encodeLogHeader_def LOG_MAGIC_def ascii_text_def unat_byte)
  ultimately show ?thesis
    by (simp add: decodeLogHeader_def length_header LOG_HEADER_BYTES_def)
      (simp add: encodeLogHeader_def LOG_MAGIC_def nth_append)
qed

lemma decode_log_tail:
  assumes "batch_units bs" "\<forall>f \<in> set (frames_of bs). frame_fits f"
  shows "decodeTerminalHistoryLog (log_file g bs @ r) =
    (if contiguous_batches bs
     then map_option (\<lambda>(batches, torn). \<lparr>lc_generation = uint32 g, lc_batches = batches,
            lc_truncatedTail = torn\<rparr>) (log_loop r (stored_batches bs))
     else None)"
proof -
  have "drop LOG_HEADER_BYTES (log_file g bs @ r) = concat (map frame_bytes (frames_of bs)) @ r"
    by (simp add: log_file_def LOG_HEADER_BYTES_def length_header)
  moreover have "decodeLogHeader (log_file g bs @ r) = Some (uint32 g)"
    by (simp add: log_file_def decode_header)
  ultimately show ?thesis
    by (simp add: decodeTerminalHistoryLog_def log_loop_frames [OF assms(2)] apply_batches [OF assms(1)]
        split: option.split)
qed

lemma decode_log_torn:
  assumes "batch_units (bs @ [(seq, rs)])" "\<forall>f \<in> set (frames_of (bs @ [(seq, rs)])). frame_fits f"
  shows "\<exists>n \<le> Suc (length rs).
    decodeTerminalHistoryLog (log_file g bs @ take k (concat (map frame_bytes (batch_frames seq rs)))) =
      (if contiguous_batches (bs @ torn_batch n (seq, rs))
       then Some \<lparr>lc_generation = uint32 g, lc_batches = stored_batches (bs @ torn_batch n (seq, rs)),
              lc_truncatedTail = (length (concat (map frame_bytes (take n (batch_frames seq rs))))
                \<noteq> min k (length (concat (map frame_bytes (batch_frames seq rs)))))\<rparr>
       else None)
    \<and> (k < length (concat (map frame_bytes (batch_frames seq rs))) \<or> n = Suc (length rs))"
proof -
  let ?fs = "batch_frames seq rs"
  have u: "batch_units bs" "\<forall>r \<in> set rs. record_units r" and f: "\<forall>f \<in> set (frames_of bs). frame_fits f"
    "\<forall>f \<in> set ?fs. frame_fits f"
    using assms by (auto simp: batch_units_def)
  obtain n j where t: "take k (concat (map frame_bytes ?fs)) =
       concat (map frame_bytes (take n ?fs)) @ (if n < length ?fs then take j (frame_bytes (?fs ! n)) else [])"
    and n: "n \<le> length ?fs" and j: "n < length ?fs \<longrightarrow> j < length (frame_bytes (?fs ! n))"
    and all: "length (concat (map frame_bytes ?fs)) \<le> k \<longrightarrow> n = length ?fs"
    using take_frames by blast
  define R where "R = (if n < length ?fs then take j (frame_bytes (?fs ! n)) else [])"
  note t = t [folded R_def]
  have "length (take k (concat (map frame_bytes ?fs))) =
      length (concat (map frame_bytes (take n ?fs))) + length R"
    unfolding t by simp
  then have torn: "R \<noteq> [] \<longleftrightarrow> length (concat (map frame_bytes (take n ?fs)))
      \<noteq> min k (length (concat (map frame_bytes ?fs)))"
    by (simp only: length_take) (auto simp: min.commute)
  have "\<forall>f \<in> set (take n ?fs). frame_fits f" using f(2) by (auto dest: in_set_takeD)
  note loop = log_loop_frames [OF this, of R "stored_batches bs"]
  have rest: "log_loop R b = Some (b, R \<noteq> [])" for b
  proof (cases "n < length ?fs")
    case True
    then have "frame_fits (?fs ! n)" using f(2) by simp
    from log_loop_cut [OF this, of j b] j True show ?thesis by (simp add: R_def length_frame_bytes)
  next
    case False
    then show ?thesis by (subst log_loop.simps) (simp add: R_def)
  qed
  have gap: "contiguous_batches (bs @ torn_batch n (seq, rs)) =
      (contiguous_batches bs \<and> \<not> (n \<noteq> 0 \<and> bs \<noteq> [] \<and> uint32 seq \<noteq> uint32 (fst (last bs)) + 1))"
    by (auto simp: torn_batch_def contiguous_batches_snoc)
  show ?thesis
  proof (intro exI [of _ n] conjI)
    show "n \<le> Suc (length rs)" using n by (simp add: batch_frames_def)
    show "k < length (concat (map frame_bytes ?fs)) \<or> n = Suc (length rs)"
      using all by (auto simp: batch_frames_def)
    show "decodeTerminalHistoryLog (log_file g bs @ take k (concat (map frame_bytes ?fs))) =
      (if contiguous_batches (bs @ torn_batch n (seq, rs))
       then Some \<lparr>lc_generation = uint32 g, lc_batches = stored_batches (bs @ torn_batch n (seq, rs)),
              lc_truncatedTail = (length (concat (map frame_bytes (take n ?fs)))
                \<noteq> min k (length (concat (map frame_bytes ?fs))))\<rparr>
       else None)"
      unfolding t decode_log_tail [OF u(1) f(1)] loop apply_torn_batch [OF u(2)] gap
      using torn rest by simp
  qed
qed

subsection \<open>Round trip and crash safety of the file\<close>

text \<open>What successive appends of \<open>encodeLogBatch\<close> put behind the header.\<close>

fun append_batches :: "taken_batch list \<Rightarrow> exn + byte list" where
  "append_batches [] = Inr []"
| "append_batches ((seq, records) # bs) =
     (case encodeLogBatch seq records of
        Inl e \<Rightarrow> Inl e
      | Inr b \<Rightarrow> (case append_batches bs of Inl e \<Rightarrow> Inl e | Inr r \<Rightarrow> Inr (b @ r)))"

lemma append_batches_Inr: "append_batches bs = Inr b \<Longrightarrow>
   (\<forall>f \<in> set (frames_of bs). frame_fits f) \<and> b = concat (map frame_bytes (frames_of bs))"
proof (induction bs arbitrary: b)
  case (Cons x bs)
  obtain seq rs where x: "x = (seq, rs)" by (cases x)
  obtain p q where "encodeLogBatch seq rs = Inr p" "append_batches bs = Inr q" "b = p @ q"
    using Cons.prems by (auto simp: x split: sum.splits)
  then show ?case
    using Cons.IH [of q] by (auto simp: x frames_of_def encodeLogBatch_def encode_frames_Inr)
qed (simp add: frames_of_def)

lemma encodeLogBatch_frames: "encodeLogBatch seq rs = Inr c \<longleftrightarrow>
   (\<forall>f \<in> set (batch_frames seq rs). frame_fits f)
   \<and> c = concat (map frame_bytes (batch_frames seq rs))"
  by (simp add: encodeLogBatch_def encode_frames_Inr)

text \<open>
  C20. A log is read back as it was written, its generation and sequence numbers in 32 bits and
  its records as the file can hold them, if the numbers of its batches follow each other; any
  gap between two of them makes the whole log unreadable.
\<close>

theorem log_roundtrip:
  assumes "append_batches bs = Inr b" and "batch_units bs"
  shows "decodeTerminalHistoryLog (encodeLogHeader g @ b) =
    (if contiguous_batches bs
     then Some \<lparr>lc_generation = uint32 g, lc_batches = stored_batches bs, lc_truncatedTail = False\<rparr>
     else None)"
proof -
  have f: "\<forall>f \<in> set (frames_of bs). frame_fits f" and b: "encodeLogHeader g @ b = log_file g bs @ []"
    using append_batches_Inr [OF assms(1)] by (simp_all add: log_file_def)
  have "log_loop [] c = Some (c, False)" for c by (subst log_loop.simps) simp
  then show ?thesis unfolding b decode_log_tail [OF assms(2) f] by simp
qed

definition sample_log :: "taken_batch list" where
  "sample_log = [(7, [Rec_output [104, 0xD83D, 0xDE00], Rec_resize 80 70000]), (8, [Rec_clear])]"

theorem log_roundtrip_witness:
  "\<exists>b. append_batches sample_log = Inr b \<and> decodeTerminalHistoryLog (encodeLogHeader 3 @ b) =
     Some \<lparr>lc_generation = 3, lc_batches =
       [\<lparr>lb_seq = 7, lb_records = [Rec_output [104, 0xD83D, 0xDE00], Rec_resize 80 65535]\<rparr>,
        \<lparr>lb_seq = 8, lb_records = [Rec_clear]\<rparr>], lc_truncatedTail = False\<rparr>"
proof -
  have "append_batches sample_log = Inr (concat (map frame_bytes (frames_of sample_log)))"
    by (simp add: sample_log_def encodeLogBatch_def batch_frames_def encode_log_frame_def
        frames_of_def frame_bytes_def encodeSeqPayload_def le16_def utf8_encode_def
        high_surrogate_def low_surrogate_def surrogate_def utf8_scalar_def join_surrogates_def)
  moreover have "batch_units sample_log"
    by (simp add: sample_log_def batch_units_def code_units_def)
  moreover have "contiguous_batches sample_log" "uint32 3 = 3"
    by (simp_all add: sample_log_def contiguous_batches_def uint32_def)
  moreover have "stored_batches sample_log =
      [\<lparr>lb_seq = 7, lb_records = [Rec_output [104, 0xD83D, 0xDE00], Rec_resize 80 65535]\<rparr>,
        \<lparr>lb_seq = 8, lb_records = [Rec_clear]\<rparr>]"
    by (simp add: sample_log_def stored_batches_def uint32_def clampU16_def surrogate_def
        high_surrogate_def low_surrogate_def)
  ultimately show ?thesis using log_roundtrip [of sample_log _ 3] by auto
qed

text \<open>
  C19. When the last append of a log is cut off after any number of bytes, reading the file gives
  every batch before it and a prefix of the records of the last one, all of them if nothing was
  cut; the torn tail is reported unless the cut fell between two frames.
\<close>

theorem torn_append:
  assumes "append_batches bs = Inr b" and "encodeLogBatch seq rs = Inr c"
    and "batch_units (bs @ [(seq, rs)])" and "contiguous_batches (bs @ [(seq, rs)])"
  shows "\<exists>n \<le> Suc (length rs). decodeTerminalHistoryLog (encodeLogHeader g @ b @ take k c) =
      Some \<lparr>lc_generation = uint32 g, lc_batches = stored_batches (bs @ torn_batch n (seq, rs)),
        lc_truncatedTail = (length (concat (map frame_bytes (take n (batch_frames seq rs))))
          \<noteq> min k (length c))\<rparr>
    \<and> (k < length c \<or> n = Suc (length rs))"
proof -
  have c: "c = concat (map frame_bytes (batch_frames seq rs))"
    and f: "\<forall>f \<in> set (frames_of (bs @ [(seq, rs)])). frame_fits f"
    using assms(2) append_batches_Inr [OF assms(1)] by (auto simp: encodeLogBatch_frames)
  have bytes: "encodeLogHeader g @ b @ take k c = log_file g bs @ take k c"
    using append_batches_Inr [OF assms(1)] by (simp add: log_file_def)
  have "contiguous_batches (bs @ torn_batch n (seq, rs))" for n
    using assms(4) by (auto simp: torn_batch_def contiguous_batches_snoc)
  with decode_log_torn [OF assms(3) f, of g k] show ?thesis unfolding bytes unfolding c by simp
qed

theorem torn_append_witness:
  "\<exists>n \<le> 2. map_option lc_batches (decodeTerminalHistoryLog (encodeLogHeader 0 @ [] @
       take 12 ([1, 4, 0, 0, 0, 1, 0, 0, 0] @ [2, 1, 0, 0, 0, 65]))) =
     Some (stored_batches ([] @ torn_batch n (1, [Rec_output [65]])))"
proof -
  have "append_batches [] = Inr []" by simp
  moreover have "encodeLogBatch 1 [Rec_output [65]]
      = Inr ([1, 4, 0, 0, 0, 1, 0, 0, 0] @ [2, 1, 0, 0, 0, 65])"
    by (simp add: encodeLogBatch_def batch_frames_def encode_log_frame_def encodeSeqPayload_def
        le32_def be32_def uint32_def utf8_encode_def surrogate_def high_surrogate_def
        low_surrogate_def utf8_scalar_def FRAME_BATCH_def FRAME_OUTPUT_def)
  moreover have "batch_units ([] @ [(1, [Rec_output [65]])])"
    by (simp add: batch_units_def code_units_def)
  moreover have "contiguous_batches ([] @ [(1, [Rec_output [65]])])"
    by (simp add: contiguous_batches_def)
  ultimately obtain n where "n \<le> Suc (length [Rec_output [65]])"
    and "decodeTerminalHistoryLog (encodeLogHeader 0 @ [] @
       take 12 ([1, 4, 0, 0, 0, 1, 0, 0, 0] @ [2, 1, 0, 0, 0, 65])) =
      Some \<lparr>lc_generation = uint32 0,
        lc_batches = stored_batches ([] @ torn_batch n (1, [Rec_output [65]])),
        lc_truncatedTail = (length (concat (map frame_bytes (take n (batch_frames 1 [Rec_output [65]]))))
          \<noteq> min 12 (length ([1, 4, 0, 0, 0, 1, 0, 0, 0] @ [2, 1, 0, 0, 0, 65 :: byte])))\<rparr>"
    using torn_append [of "[]" "[]" 1 "[Rec_output [65]]" _ 0 12] by blast
  then show ?thesis by (intro exI [of _ n]) (simp only: option.map, simp)
qed

text \<open>
  The tail of a torn append must be gone before the next one: a batch appended behind it is
  read as its payload. Here \<open>ab\<close> was cut off after \<open>a\<close> and a batch with \<open>Z\<close> is appended; what
  is read is a text nobody wrote, and the appended batch is lost.
\<close>

lemma append_behind_torn_tail:
  "append_batches [(1, [Rec_output [97, 98]])]
     = Inr ([1, 4, 0, 0, 0, 1, 0, 0, 0] @ [2, 2, 0, 0, 0, 97, 98])"
  "append_batches [(2, [Rec_output [90]])]
     = Inr ([1, 4, 0, 0, 0, 2, 0, 0, 0] @ [2, 1, 0, 0, 0, 90])"
  by (simp_all add: encodeLogBatch_def batch_frames_def encode_log_frame_def encodeSeqPayload_def
      le32_def be32_def uint32_def utf8_encode_def surrogate_def high_surrogate_def
      low_surrogate_def utf8_scalar_def FRAME_BATCH_def FRAME_OUTPUT_def)

lemma read_behind_torn_tail:
  "log_loop (take 15 ([1, 4, 0, 0, 0, 1, 0, 0, 0] @ [2, 2, 0, 0, 0, 97, 98])
      @ [1, 4, 0, 0, 0, 2, 0, 0, 0] @ [2, 1, 0, 0, 0, 90]) []
    = Some ([\<lparr>lb_seq = 1, lb_records = [Rec_output [97, 1]]\<rparr>], True)"
  by (subst log_loop.simps, simp add: log_frame_def rd_le32_def rd_be32_def FRAME_BATCH_def,
      subst log_loop.simps, simp add: log_frame_def rd_le32_def rd_be32_def FRAME_BATCH_def
        FRAME_OUTPUT_def push_record_def utf8_decode_def,
      subst log_loop.simps, simp add: rd_le32_def rd_be32_def)

end
