(* ===== verification/Mouse_Mirror.thy ===== *)
theory Mouse_Mirror
  imports Prelude "HOL-Library.Sublist"
begin

section \<open>Mouse modes mirrored from the output\<close>

text \<open>
  \<open>src/src/main/daemon/terminal-mouse-mode-mirror.ts\<close>: xterm does not tell which mouse protocol a
  program has switched on, so the emulator follows the private modes in the output itself, beside
  xterm; an unfinished sequence at the end of a chunk is kept and put before the next.
\<close>

definition PRIVATE_MODE_SCAN_TAIL_LIMIT :: nat where
  "PRIVATE_MODE_SCAN_TAIL_LIMIT = 4096"

datatype mouse_tracking = Track_none | Track_x10 | Track_vt200 | Track_drag | Track_any

record mouse_mirror =
  mm_scanTail :: jsstr
  mm_tracking :: mouse_tracking
  mm_sgrMouse :: bool
  mm_sgrPixels :: bool

definition new_mouse_mirror :: mouse_mirror where
  "new_mouse_mirror = \<lparr>mm_scanTail = [], mm_tracking = Track_none, mm_sgrMouse = False,
     mm_sgrPixels = False\<rparr>"

subsection \<open>What a sequence does\<close>

definition decimal_value :: "jsstr \<Rightarrow> nat" where
  "decimal_value ds = foldl (\<lambda>n d. 10 * n + (d - 48)) 0 ds"

definition set_private_mode :: "bool \<Rightarrow> nat \<Rightarrow> mouse_mirror \<Rightarrow> mouse_mirror" where
  "set_private_mode enabled param m =
     (if param = 9 then m\<lparr>mm_tracking := if enabled then Track_x10 else Track_none\<rparr>
      else if param = 1000 then m\<lparr>mm_tracking := if enabled then Track_vt200 else Track_none\<rparr>
      else if param = 1002 then m\<lparr>mm_tracking := if enabled then Track_drag else Track_none\<rparr>
      else if param = 1003 then m\<lparr>mm_tracking := if enabled then Track_any else Track_none\<rparr>
      else if param = 1006 then m\<lparr>mm_sgrMouse := enabled, mm_sgrPixels := False\<rparr>
      else if param = 1016 then m\<lparr>mm_sgrMouse := False, mm_sgrPixels := enabled\<rparr>
      else m)"

datatype mouse_op = Full_reset | Private_modes jsstr bool

primrec apply_mouse_op :: "mouse_op \<Rightarrow> mouse_mirror \<Rightarrow> mouse_mirror" where
  "apply_mouse_op Full_reset m =
     m\<lparr>mm_tracking := Track_none, mm_sgrMouse := False, mm_sgrPixels := False\<rparr>"
| "apply_mouse_op (Private_modes params enabled) m =
     fold (\<lambda>rawParam m. if rawParam = [] then m else set_private_mode enabled (decimal_value rawParam) m)
       (split_on 59 params) m"

subsection \<open>The scan\<close>

definition mode_param_unit :: "nat \<Rightarrow> bool" where
  "mode_param_unit u = (48 \<le> u \<and> u \<le> 57 \<or> u = 59)"

text \<open>The regular expression \<open>privateModeRe\<close> at the front of a text: after the introducer, and whole.\<close>

definition private_match :: "jsstr \<Rightarrow> (mouse_op \<times> jsstr) option" where
  "private_match r = (case r of [] \<Rightarrow> None
     | c # r1 \<Rightarrow>
         (let params = takeWhile mode_param_unit r1
          in case dropWhile mode_param_unit r1 of [] \<Rightarrow> None
             | f # rest \<Rightarrow>
                 if c = 63 \<and> params \<noteq> [] \<and> (f = 104 \<or> f = 108)
                 then Some (Private_modes params (f = 104), rest) else None))"

definition mouse_match :: "jsstr \<Rightarrow> (mouse_op \<times> jsstr) option" where
  "mouse_match b = (case b of [] \<Rightarrow> None
     | e # r \<Rightarrow>
         if e = 0x9B then private_match r
         else if e = 0x1B then (case r of [] \<Rightarrow> None
           | k # r1 \<Rightarrow> if k = 99 then Some (Full_reset, r1)
                       else if k = 91 then private_match r1 else None)
         else None)"

lemma private_match_shrinks: "private_match r = Some (op, q) \<Longrightarrow> length q < length r"
proof (cases r)
  case (Cons c r1)
  assume "private_match r = Some (op, q)"
  with Cons obtain f where "dropWhile mode_param_unit r1 = f # q"
    by (auto simp: private_match_def Let_def split: list.splits if_splits)
  with length_dropWhile_le [of mode_param_unit r1] Cons show ?thesis by simp
qed (simp add: private_match_def)

lemma mouse_match_shrinks: "mouse_match b = Some (op, q) \<Longrightarrow> length q < length b"
  by (auto simp: mouse_match_def dest!: private_match_shrinks split: list.splits if_splits)

text \<open>The matches of the whole text, from the left.\<close>

function mouse_ops :: "jsstr \<Rightarrow> mouse_op list" where
  "mouse_ops b = (if b = [] then []
     else (case mouse_match b of
             Some (op, rest) \<Rightarrow> op # mouse_ops rest
           | None \<Rightarrow> mouse_ops (tl b)))"
  by pat_completeness auto
termination
  by (relation "measure length") (auto dest: mouse_match_shrinks)

declare mouse_ops.simps [simp del]

text \<open>\<open>extractScanTail\<close>: the text from the last introducer on, if it may be continued.\<close>

fun last_introducer :: "jsstr \<Rightarrow> jsstr option" where
  "last_introducer [] = None"
| "last_introducer (u # s) = (case last_introducer s of
     Some t \<Rightarrow> Some t
   | None \<Rightarrow> if u = 0x1B \<or> u = 0x9B then Some (u # s) else None)"

definition isIncompleteParams :: "jsstr \<Rightarrow> bool" where
  "isIncompleteParams params = list_all mode_param_unit params"

definition extractMouseScanTail :: "jsstr \<Rightarrow> jsstr" where
  "extractMouseScanTail input = (case last_introducer input of
     None \<Rightarrow> []
   | Some t \<Rightarrow>
       if PRIVATE_MODE_SCAN_TAIL_LIMIT < length t then []
       else if t = [0x1B] \<or> t = [0x1B, 91] \<or> t = [0x9B] then t
       else if take 3 t = [0x1B, 91, 63] then (if isIncompleteParams (drop 3 t) then t else [])
       else if take 2 t = [0x9B, 63] then (if isIncompleteParams (drop 2 t) then t else [])
       else [])"

definition mouse_scan :: "jsstr \<Rightarrow> mouse_mirror \<Rightarrow> mouse_mirror" where
  "mouse_scan data m =
     (if mm_scanTail m = [] \<and> \<not> sublist [0x1B, 91, 63] data \<and> \<not> sublist [0x1B, 99] data
         \<and> 0x9B \<notin> set data
      then m\<lparr>mm_scanTail := extractMouseScanTail data\<rparr>
      else (let input = mm_scanTail m @ data
            in fold apply_mouse_op (mouse_ops input)
                 (m\<lparr>mm_scanTail := extractMouseScanTail input\<rparr>)))"

text \<open>The test before the scan saves time only: a text it turns away has no sequence.\<close>

lemma mouse_match_needs:
  "mouse_match b = Some x \<Longrightarrow> sublist [0x1B, 91, 63] b \<or> sublist [0x1B, 99] b \<or> 0x9B \<in> set b"
  by (auto simp: mouse_match_def private_match_def sublist_Cons_right Let_def
      split: list.splits if_splits)

lemma mouse_ops_none:
  "\<not> sublist [0x1B, 91, 63] b \<Longrightarrow> \<not> sublist [0x1B, 99] b \<Longrightarrow> 0x9B \<notin> set b \<Longrightarrow> mouse_ops b = []"
proof (induction b)
  case (Cons u b)
  have "mouse_match (u # b) = None"
    using mouse_match_needs [of "u # b"] Cons.prems by (cases "mouse_match (u # b)") auto
  moreover have "mouse_ops b = []"
    using Cons.prems by (intro Cons.IH) (auto simp: sublist_Cons_right)
  ultimately show ?case by (simp add: mouse_ops.simps [of "u # b"])
qed (simp add: mouse_ops.simps)

lemma mouse_scan_eq:
  "mouse_scan data m = fold apply_mouse_op (mouse_ops (mm_scanTail m @ data))
     (m\<lparr>mm_scanTail := extractMouseScanTail (mm_scanTail m @ data)\<rparr>)"
  by (auto simp: mouse_scan_def mouse_ops_none Let_def)

end
