(* ===== verification/History_Store.thy ===== *)
theory History_Store
  imports History_Log Mouse_Mirror
begin

section \<open>The history manager and its files\<close>

text \<open>
  \<open>src/src/main/daemon/history-manager.ts\<close>: per session a directory with the meta data, a
  checkpoint and the incremental log. The class keeps its writers and the disabled sessions in
  maps keyed by session; every operation reads and writes the entries of one session, which is
  the record \<open>session_history\<close> with its directory. JSON files are the values they parse to; one
  that was cut off is \<open>Unreadable\<close>.

  A write is a \<open>disk_action\<close>. The argument \<open>fault\<close> of an operation says which of its writes
  fails and how far it got: with \<open>Some (n, k)\<close> the first \<open>n\<close> writes succeed and the next one
  stops, before it began if \<open>k = 0\<close>, else after \<open>k - 1\<close> bytes. What a crash in the middle of an
  operation leaves on disk is what the corresponding fault leaves.
\<close>

subsection \<open>Files\<close>

datatype 'a stored = Missing | Unreadable | Content 'a

record terminal_modes =
  md_bracketedPaste :: bool
  md_mouseTracking :: bool
  md_mouseTrackingMode :: "mouse_tracking option"
  md_sgrMouseMode :: "bool option"
  md_sgrMousePixelsMode :: "bool option"
  md_applicationCursor :: bool
  md_alternateScreen :: bool
  md_kittyKeyboardFlags :: "int option"

record term_screen =
  sc_snapshotAnsi :: jsstr
  sc_scrollbackAnsi :: jsstr
  sc_rehydrateSequences :: jsstr
  sc_cols :: int
  sc_rows :: int
  sc_modes :: terminal_modes

record terminal_snapshot = term_screen +
  ts_pendingEscapeTailAnsi :: "jsstr option"
  ts_oscLinks :: json
  ts_cwd :: "jsstr option"
  ts_scrollbackLines :: int
  ts_lastTitle :: "jsstr option"

record checkpoint_file = term_screen +
  cf_oscLinks :: json
  cf_cwd :: "jsstr option"
  cf_scrollbackLines :: int
  cf_generation :: "nat option"
  cf_checkpointedAt :: jsstr

record session_meta =
  sm_cwd :: jsstr
  sm_cols :: int
  sm_rows :: int
  sm_startedAt :: jsstr
  sm_endedAt :: "jsstr option"
  sm_exitCode :: "int option"

record session_dir =
  sd_meta :: "session_meta stored"
  sd_checkpoint :: "checkpoint_file stored"
  sd_log :: "byte list option"
  sd_scrollback :: "byte list option"

record session_writer =
  sw_logGeneration :: "nat option"
  sw_logBytes :: "nat option"

record session_history =
  sh_writer :: "session_writer option"
  sh_disabled :: bool
  sh_dir :: session_dir

datatype disk_action =
    Write_meta session_meta
  | Replace_checkpoint checkpoint_file   \<comment> \<open>write of the temporary file, then rename\<close>
  | Write_log "byte list"
  | Append_log "byte list"

type_synonym fault = "(nat \<times> nat) option"

fun performed :: "disk_action \<Rightarrow> session_dir \<Rightarrow> session_dir" where
  "performed (Write_meta m) d = d\<lparr>sd_meta := Content m\<rparr>"
| "performed (Replace_checkpoint c) d = d\<lparr>sd_checkpoint := Content c\<rparr>"
| "performed (Write_log bytes) d = d\<lparr>sd_log := Some bytes\<rparr>"
| "performed (Append_log bytes) d =
     d\<lparr>sd_log := Some ((case sd_log d of None \<Rightarrow> [] | Some b \<Rightarrow> b) @ bytes)\<rparr>"

fun interrupted :: "nat \<Rightarrow> disk_action \<Rightarrow> session_dir \<Rightarrow> session_dir" where
  "interrupted 0 a d = d"
| "interrupted (Suc k) (Write_meta m) d = d\<lparr>sd_meta := Unreadable\<rparr>"
| "interrupted (Suc k) (Replace_checkpoint c) d = d"
| "interrupted (Suc k) (Write_log bytes) d = performed (Write_log (take k bytes)) d"
| "interrupted (Suc k) (Append_log bytes) d = performed (Append_log (take k bytes)) d"

text \<open>Whether the write succeeded, the fault still to come, and the directory.\<close>

definition disk_do :: "disk_action \<Rightarrow> fault \<Rightarrow> session_dir \<Rightarrow> bool \<times> fault \<times> session_dir" where
  "disk_do a io d = (case io of
     None \<Rightarrow> (True, None, performed a d)
   | Some (0, k) \<Rightarrow> (False, None, interrupted k a d)
   | Some (Suc n, k) \<Rightarrow> (True, Some (n, k), performed a d))"

subsection \<open>Sessions\<close>

definition LOG_MAX_BYTES :: nat where
  "LOG_MAX_BYTES = 5 * 1024 * 1024"

definition handleWriteError :: "session_history \<Rightarrow> session_history" where
  "handleWriteError h = h\<lparr>sh_disabled := True\<rparr>"

text \<open>\<open>Object.assign\<close> of \<open>endedAt\<close> and \<open>exitCode\<close> to the stored meta data, if it can be read.\<close>

definition updateMeta ::
  "jsstr option \<Rightarrow> int option \<Rightarrow> fault \<Rightarrow> session_dir \<Rightarrow> bool \<times> fault \<times> session_dir" where
  "updateMeta endedAt exitCode io d = (case sd_meta d of
     Content m \<Rightarrow> disk_do (Write_meta (m\<lparr>sm_endedAt := endedAt, sm_exitCode := exitCode\<rparr>)) io d
   | _ \<Rightarrow> (True, io, d))"

text \<open>
  \<open>openSession\<close>: the failure to remove a stale file is ignored; the model removes them, the
  only failing write is the meta data.
\<close>

definition openSession ::
  "fault \<Rightarrow> jsstr \<Rightarrow> jsstr \<Rightarrow> int \<Rightarrow> int \<Rightarrow> session_history \<Rightarrow> session_history" where
  "openSession io now cwd cols rows h =
     (let h1 = h\<lparr>sh_disabled := False\<rparr>
      in case disk_do (Write_meta \<lparr>sm_cwd = cwd, sm_cols = cols, sm_rows = rows,
             sm_startedAt = now, sm_endedAt = None, sm_exitCode = None\<rparr>) io (sh_dir h1) of
           (False, _, d) \<Rightarrow> handleWriteError (h1\<lparr>sh_dir := d\<rparr>)
         | (True, _, d) \<Rightarrow>
             h1\<lparr>sh_dir := d\<lparr>sd_checkpoint := Missing, sd_scrollback := None, sd_log := None\<rparr>,
                sh_writer := Some \<lparr>sw_logGeneration = Some 0, sw_logBytes = Some 0\<rparr>\<rparr>)"

definition registerWriter :: "session_history \<Rightarrow> session_history" where
  "registerWriter h =
     (if sh_writer h \<noteq> None then h
      else h\<lparr>sh_writer := Some \<lparr>sw_logGeneration = None, sw_logBytes = None\<rparr>\<rparr>)"

definition reopenSession :: "fault \<Rightarrow> session_history \<Rightarrow> session_history" where
  "reopenSession io h =
     (let h1 = registerWriter (h\<lparr>sh_disabled := False\<rparr>)
      in case updateMeta None None io (sh_dir h1) of
           (ok, _, d) \<Rightarrow> if ok then h1\<lparr>sh_dir := d\<rparr> else handleWriteError (h1\<lparr>sh_dir := d\<rparr>))"

definition suspendSession :: "session_history \<Rightarrow> session_history" where
  "suspendSession h = h\<lparr>sh_writer := None, sh_disabled := False\<rparr>"

definition closeSession ::
  "fault \<Rightarrow> jsstr \<Rightarrow> int \<Rightarrow> session_history \<Rightarrow> session_history" where
  "closeSession io now exitCode h = (case sh_writer h of
     None \<Rightarrow> h
   | Some _ \<Rightarrow>
       (let h1 = h\<lparr>sh_writer := None, sh_disabled := False\<rparr>
        in case updateMeta (Some now) (Some exitCode) io (sh_dir h1) of
             (ok, _, d) \<Rightarrow>
               if ok then h1\<lparr>sh_dir := d\<rparr> else handleWriteError (h1\<lparr>sh_dir := d\<rparr>)))"

definition removeSession :: "session_history \<Rightarrow> session_history" where
  "removeSession h = \<lparr>sh_writer = None, sh_disabled = False, sh_dir =
     \<lparr>sd_meta = Missing, sd_checkpoint = Missing, sd_log = None, sd_scrollback = None\<rparr>\<rparr>"

text \<open>\<open>dispose\<close>, what it does for one session.\<close>

definition dispose_history :: "fault \<Rightarrow> jsstr \<Rightarrow> session_history \<Rightarrow> session_history" where
  "dispose_history io now h = (case sh_writer h of
     None \<Rightarrow> h
   | Some _ \<Rightarrow>
       (case updateMeta (Some now) None io (sh_dir h) of
          (ok, _, d) \<Rightarrow> h\<lparr>sh_writer := None, sh_disabled := sh_disabled h \<or> \<not> ok, sh_dir := d\<rparr>))"

definition hasHistory :: "session_history \<Rightarrow> bool" where
  "hasHistory h = (sd_meta (sh_dir h) \<noteq> Missing)"

definition readMeta :: "session_history \<Rightarrow> session_meta option" where
  "readMeta h = (case sd_meta (sh_dir h) of Content m \<Rightarrow> Some m | _ \<Rightarrow> None)"

definition readCheckpointGeneration :: "session_dir \<Rightarrow> nat option" where
  "readCheckpointGeneration d = (case sd_checkpoint d of
     Content c \<Rightarrow> cf_generation c | _ \<Rightarrow> None)"

definition or_zero :: "nat option \<Rightarrow> nat" where
  "or_zero v = (case v of None \<Rightarrow> 0 | Some n \<Rightarrow> n)"

definition resolveLogState :: "session_dir \<Rightarrow> session_writer \<Rightarrow> session_writer" where
  "resolveLogState d w =
     (if sw_logBytes w \<noteq> None \<and> sw_logGeneration w \<noteq> None then w
      else (case (case sd_log d of
                    None \<Rightarrow> None
                  | Some b \<Rightarrow> if LOG_HEADER_BYTES \<le> length b
                              then decodeLogHeader (take LOG_HEADER_BYTES b) else None) of
              Some g \<Rightarrow> w\<lparr>sw_logGeneration := Some g,
                          sw_logBytes := map_option length (sd_log d)\<rparr>
            | None \<Rightarrow> w\<lparr>sw_logBytes := Some 0,
                        sw_logGeneration := Some (or_zero (readCheckpointGeneration d))\<rparr>))"

datatype append_result = Append_ok | Needs_checkpoint

text \<open>The header of a log that has no bytes yet.\<close>

definition ensure_header ::
  "fault \<Rightarrow> session_writer \<Rightarrow> session_dir \<Rightarrow> bool \<times> fault \<times> session_writer \<times> session_dir" where
  "ensure_header io w d =
     (if sw_logBytes w = Some 0
      then (case disk_do (Write_log (encodeLogHeader (or_zero (sw_logGeneration w)))) io d of
              (ok, io', d') \<Rightarrow>
                (ok, io', if ok then w\<lparr>sw_logBytes := Some LOG_HEADER_BYTES\<rparr> else w, d'))
      else (True, io, w, d))"

definition appendIncrements ::
  "fault \<Rightarrow> nat \<Rightarrow> output_record list \<Rightarrow> session_history \<Rightarrow> append_result \<times> session_history" where
  "appendIncrements io seq records h =
     (if sh_disabled h \<or> records = [] then (Append_ok, h)
      else (case sh_writer h of
          None \<Rightarrow> (Append_ok, h)
        | Some w0 \<Rightarrow>
            (let w = resolveLogState (sh_dir h) w0; h1 = h\<lparr>sh_writer := Some w\<rparr>
             in case encodeLogBatch seq records of
                  Inl _ \<Rightarrow> (Append_ok, handleWriteError h1)
                | Inr batch \<Rightarrow>
                    if LOG_MAX_BYTES
                         < max (or_zero (sw_logBytes w)) LOG_HEADER_BYTES + length batch
                    then (Needs_checkpoint, h1)
                    else (case ensure_header io w (sh_dir h1) of (ok, io1, w1, d1) \<Rightarrow>
                      (let h2 = h1\<lparr>sh_writer := Some w1, sh_dir := d1\<rparr>
                       in if \<not> ok then (Append_ok, handleWriteError h2)
                          else (case disk_do (Append_log batch) io1 d1 of (ok2, _, d2) \<Rightarrow>
                            if ok2
                            then (Append_ok, h2\<lparr>sh_dir := d2, sh_writer := Some (w1\<lparr>sw_logBytes :=
                                   Some (or_zero (sw_logBytes w1) + length batch)\<rparr>)\<rparr>)
                            else (Append_ok, handleWriteError (h2\<lparr>sh_dir := d2\<rparr>))))))))"

text \<open>The file a snapshot is stored as; the working directory falls back to the meta data.\<close>

definition checkpoint_of :: "session_dir \<Rightarrow> terminal_snapshot \<Rightarrow> nat \<Rightarrow> jsstr \<Rightarrow> checkpoint_file" where
  "checkpoint_of d snapshot generation now =
     \<lparr>sc_snapshotAnsi = sc_snapshotAnsi snapshot, sc_scrollbackAnsi = sc_scrollbackAnsi snapshot,
      sc_rehydrateSequences = sc_rehydrateSequences snapshot, sc_cols = sc_cols snapshot,
      sc_rows = sc_rows snapshot, sc_modes = sc_modes snapshot,
      cf_oscLinks = ts_oscLinks snapshot,
      cf_cwd = (case ts_cwd snapshot of
          Some c \<Rightarrow> Some c
        | None \<Rightarrow> (case sd_meta d of Content m \<Rightarrow> Some (sm_cwd m) | _ \<Rightarrow> None)),
      cf_scrollbackLines = ts_scrollbackLines snapshot,
      cf_generation = Some generation, cf_checkpointedAt = now\<rparr>"

definition checkpoint ::
  "fault \<Rightarrow> jsstr \<Rightarrow> terminal_snapshot \<Rightarrow> session_history \<Rightarrow> session_history" where
  "checkpoint io now snapshot h =
     (if sh_disabled h then h
      else (case sh_writer h of
          None \<Rightarrow> h
        | Some w0 \<Rightarrow>
            (let w = resolveLogState (sh_dir h) w0; h1 = h\<lparr>sh_writer := Some w\<rparr>;
                 generation = or_zero (sw_logGeneration w) + 1
             in case disk_do (Replace_checkpoint
                       (checkpoint_of (sh_dir h1) snapshot generation now)) io (sh_dir h1) of
                  (False, _, d) \<Rightarrow> handleWriteError (h1\<lparr>sh_dir := d\<rparr>)
                | (True, io1, d) \<Rightarrow>
                    (case disk_do (Write_log (encodeLogHeader generation)) io1 d of
                       (False, _, d2) \<Rightarrow> handleWriteError (h1\<lparr>sh_dir := d2\<rparr>)
                     | (True, _, d2) \<Rightarrow>
                         h1\<lparr>sh_dir := d2,
                            sh_writer := Some (w\<lparr>sw_logGeneration := Some generation,
                                                sw_logBytes := Some LOG_HEADER_BYTES\<rparr>)\<rparr>))))"

text \<open>
  What another process with fresh memory finds: the directory. A manager made for it registers
  a writer before anything else.
\<close>

definition relaunched :: "session_history \<Rightarrow> session_history" where
  "relaunched h = registerWriter (h\<lparr>sh_writer := None, sh_disabled := False\<rparr>)"

end
