(* ===== verification/Snapshot_Ansi.thy ===== *)
theory Snapshot_Ansi
  imports History_Store
begin

section \<open>The text of a snapshot\<close>

text \<open>
  What the repository adds to the text xterm serializes a screen to, so that another terminal
  that is given the text shows the screen: the cursor, its saved register and the modes
  (\<open>src/src/shared/terminal-serialize-absolute-cursor.ts\<close>,
  \<open>src/src/main/daemon/terminal-mode-rehydrate-sequences.ts\<close>,
  \<open>src/src/main/daemon/terminal-snapshot-ansi-buffers.ts\<close>). The terminal of xterm and the scanner
  that finds the working directory and the title are parameters: the record \<open>xterm\<close> of the
  operations and fields the repository uses, on states of their own. Nothing is assumed of them.
\<close>

record ('x, 'c) xterm =
  xt_new :: "int \<Rightarrow> int \<Rightarrow> 'x"
  xt_write :: "jsstr \<Rightarrow> 'x \<Rightarrow> 'x"
  xt_resize :: "int \<Rightarrow> int \<Rightarrow> 'x \<Rightarrow> 'x"
  xt_clear :: "'x \<Rightarrow> 'x"
  xt_cols :: "'x \<Rightarrow> int"
  xt_rows :: "'x \<Rightarrow> int"
  xt_serialize :: "'x \<Rightarrow> jsstr"   \<comment> \<open>of the serialize addon\<close>
  xt_cursor :: "'x \<Rightarrow> int \<times> int"   \<comment> \<open>\<open>cursorX\<close>, \<open>cursorY\<close> of the active buffer\<close>
  xt_savedCursor :: "'x \<Rightarrow> (int \<times> int \<times> int) option"   \<comment> \<open>\<open>savedX\<close>, \<open>savedY\<close>, \<open>ybase\<close>, if numbers\<close>
  xt_bracketedPasteMode :: "'x \<Rightarrow> bool"
  xt_applicationCursorKeysMode :: "'x \<Rightarrow> bool"
  xt_alternate :: "'x \<Rightarrow> bool"   \<comment> \<open>\<open>buffer.active.type === 'alternate'\<close>\<close>
  xt_kittyFlags :: "'x \<Rightarrow> int option"
  xt_normalLength :: "'x \<Rightarrow> int"
  xt_links :: "'x \<Rightarrow> json \<Rightarrow> json"
  osc_new :: 'c
  osc_scan :: "jsstr \<Rightarrow> 'c \<Rightarrow> 'c"
  osc_cwd :: "'c \<Rightarrow> jsstr option"
  osc_lastTitle :: "'c \<Rightarrow> jsstr option"

subsection \<open>The cursor\<close>

text \<open>The column and the row of the saved cursor in the viewport, from 0; home counts as not saved.\<close>

definition readSavedCursorRegister :: "('x, 'c) xterm \<Rightarrow> 'x \<Rightarrow> (int \<times> int) option" where
  "readSavedCursorRegister X t = (case xt_savedCursor X t of
     None \<Rightarrow> None
   | Some (savedX, savedY, ybase) \<Rightarrow>
       (let y = min (max (savedY - ybase) 0) (xt_rows X t - 1);
            x = min (max savedX 0) (xt_cols X t - 1)
        in if x = 0 \<and> y = 0 then None else Some (x, y)))"

text \<open>The sequence that moves the cursor, \<open>ESC [ row ; column H\<close>.\<close>

definition move_cursor :: "int \<Rightarrow> int \<Rightarrow> jsstr" where
  "move_cursor x y = [0x1B, 91] @ js_int (y + 1) @ [59] @ js_int (x + 1) @ [72]"

definition serializeWithAbsoluteCursor ::
  "('x, 'c) xterm \<Rightarrow> 'x \<Rightarrow> (int \<times> int) option \<Rightarrow> jsstr" where
  "serializeWithAbsoluteCursor X t savedCursor =
     (let serialized = xt_serialize X t
      in if serialized = [] then serialized
         else (case xt_cursor X t of (cursorX, cursorY) \<Rightarrow>
           if cursorX < 0 \<or> xt_cols X t \<le> cursorX \<or> cursorY < 0 \<or> xt_rows X t \<le> cursorY
           then serialized
           else serialized
             @ (case savedCursor of
                  None \<Rightarrow> []
                | Some (x, y) \<Rightarrow> move_cursor x y @ [0x1B, 55])
             @ move_cursor cursorX cursorY))"

subsection \<open>The two buffers\<close>

text \<open>\<open>s.lastIndexOf(p)\<close>: what is before and behind the last occurrence.\<close>

fun split_last :: "jsstr \<Rightarrow> jsstr \<Rightarrow> (jsstr \<times> jsstr) option" where
  "split_last p [] = None"
| "split_last p (u # s) = (case split_last p s of
     Some (a, b) \<Rightarrow> Some (u # a, b)
   | None \<Rightarrow> if take (length p) (u # s) = p then Some ([], drop (length p) (u # s)) else None)"

definition alternateScreenMarker :: jsstr where
  "alternateScreenMarker = 27 # js ''[?1049h''"

text \<open>The pair of \<open>snapshotAnsi\<close> and \<open>scrollbackAnsi\<close>.\<close>

definition splitTerminalSnapshotAnsi :: "jsstr \<Rightarrow> terminal_modes \<Rightarrow> jsstr \<times> jsstr" where
  "splitTerminalSnapshotAnsi snapshotAnsi modes =
     (if \<not> md_alternateScreen modes then (snapshotAnsi, [])
      else (case split_last alternateScreenMarker snapshotAnsi of
          None \<Rightarrow> (snapshotAnsi, [])
        | Some (before, behind) \<Rightarrow> (behind, before)))"

subsection \<open>The modes\<close>

text \<open>\<open>ESC [ ? params h\<close>.\<close>

definition set_mode_sequence :: "string \<Rightarrow> jsstr" where
  "set_mode_sequence params = [0x1B, 91, 63] @ js params @ [104]"

definition buildRehydrateSequences :: "terminal_modes \<Rightarrow> jsstr" where
  "buildRehydrateSequences modes =
     (if md_alternateScreen modes
      then [0x1B, 91, 48, 109] @ set_mode_sequence ''1049'' else [])
   @ (if md_bracketedPaste modes then set_mode_sequence ''2004'' else [])
   @ (if md_applicationCursor modes then set_mode_sequence ''1'' else [])
   @ (case (if md_mouseTracking modes
            then (case md_mouseTrackingMode modes of Some t \<Rightarrow> t | None \<Rightarrow> Track_vt200)
            else Track_none) of
        Track_x10 \<Rightarrow> set_mode_sequence ''9''
      | Track_vt200 \<Rightarrow> set_mode_sequence ''1000''
      | Track_drag \<Rightarrow> set_mode_sequence ''1002''
      | Track_any \<Rightarrow> set_mode_sequence ''1003''
      | Track_none \<Rightarrow> [])
   @ (if md_sgrMousePixelsMode modes = Some True then set_mode_sequence ''1016''
      else if md_sgrMouseMode modes = Some True then set_mode_sequence ''1006''
      else [])"

subsection \<open>Nothing is lost between the buffers\<close>

lemma split_last_joins: "split_last p s = Some (a, b) \<Longrightarrow> s = a @ p @ b"
proof (induction s arbitrary: a)
  case (Cons u s)
  show ?case
  proof (cases "split_last p s")
    case None
    with Cons.prems have "take (length p) (u # s) = p" "a = []" "b = drop (length p) (u # s)"
      by (auto split: if_splits)
    then show ?thesis using append_take_drop_id [of "length p" "u # s"] by simp
  next
    case (Some ab)
    with Cons show ?thesis by (cases ab) auto
  qed
qed simp

lemma split_snapshot_joins:
  assumes "splitTerminalSnapshotAnsi s modes = (snap, scroll)"
  shows "s = snap \<and> scroll = [] \<or> md_alternateScreen modes \<and> s = scroll @ alternateScreenMarker @ snap"
  using assms
  by (auto simp: splitTerminalSnapshotAnsi_def split: if_splits option.splits dest: split_last_joins)

subsection \<open>The mouse modes come back\<close>

lemma mouse_ops_mode:
  assumes "list_all mode_param_unit (js p)" "p \<noteq> []"
  shows "mouse_ops (set_mode_sequence p @ s) = Private_modes (js p) True # mouse_ops s"
proof -
  have "takeWhile mode_param_unit (js p @ 104 # s) = js p"
    "dropWhile mode_param_unit (js p @ 104 # s) = 104 # s"
    using assms by (simp_all add: takeWhile_append2 dropWhile_append2 list_all_iff mode_param_unit_def)
  then have "mouse_match (set_mode_sequence p @ s) = Some (Private_modes (js p) True, s)"
    using assms(2) by (simp add: mouse_match_def private_match_def set_mode_sequence_def Let_def)
  then show ?thesis
    by (simp add: mouse_ops.simps [of "set_mode_sequence p @ s"], simp add: set_mode_sequence_def)
qed

lemma mouse_ops_reset_pen: "mouse_ops ([0x1B, 91, 48, 109] @ s) = mouse_ops s"
proof -
  have "mouse_match (0x1B # 91 # 48 # 109 # s) = None" for s
    by (simp add: mouse_match_def private_match_def Let_def mode_param_unit_def)
  moreover have "mouse_match (u # s) = None" if "u \<noteq> 0x1B" "u \<noteq> 0x9B" for u s
    using that by (simp add: mouse_match_def)
  ultimately show ?thesis by (simp add: mouse_ops.simps [of "_ # _"])
qed

definition set_modes :: "string list \<Rightarrow> jsstr" where
  "set_modes ps = concat (map set_mode_sequence ps)"

definition mode_params_ok :: "string \<Rightarrow> bool" where
  "mode_params_ok p = (list_all mode_param_unit (js p) \<and> p \<noteq> [])"

lemma mouse_ops_modes:
  "list_all mode_params_ok ps \<Longrightarrow> mouse_ops (set_modes ps) = map (\<lambda>p. Private_modes (js p) True) ps"
  by (induction ps)
    (simp_all add: set_modes_def mouse_ops_mode mode_params_ok_def, simp add: mouse_ops.simps)

lemma no_introducer: "0x1B \<notin> set q \<Longrightarrow> 0x9B \<notin> set q \<Longrightarrow> last_introducer (q @ s) = last_introducer s"
  by (induction q) (auto split: option.split)

lemma param_units_no_introducer: "list_all mode_param_unit q \<Longrightarrow> 0x1B \<notin> set q \<and> 0x9B \<notin> set q"
  by (auto simp: list_all_iff mode_param_unit_def)

lemma last_introducer_modes:
  "list_all mode_params_ok ps \<Longrightarrow> last_introducer (set_modes ps) =
     (if ps = [] then None else Some (set_mode_sequence (last ps)))"
proof (induction ps)
  case (Cons p ps)
  have q: "last_introducer (([91, 63] @ js p @ [104]) @ set_modes ps) = last_introducer (set_modes ps)"
    using Cons.prems param_units_no_introducer [of "js p"]
    by (intro no_introducer) (auto simp: mode_params_ok_def)
  with Cons show ?case by (simp add: set_modes_def set_mode_sequence_def)
qed (simp add: set_modes_def)

lemma modes_leave_no_tail: "list_all mode_params_ok ps \<Longrightarrow> extractMouseScanTail (set_modes ps) = []"
  by (simp add: extractMouseScanTail_def last_introducer_modes, cases "ps = []")
    (simp_all add: set_mode_sequence_def isIncompleteParams_def mode_param_unit_def)

lemma mouse_scan_modes:
  assumes "list_all mode_params_ok ps" "mm_scanTail m = []" "pen = [] \<or> pen = [0x1B, 91, 48, 109]"
  shows "mouse_scan (pen @ set_modes ps) m =
    fold (\<lambda>p. apply_mouse_op (Private_modes (js p) True)) ps m"
proof -
  have "extractMouseScanTail (pen @ set_modes ps) = []"
  proof (cases "ps = []")
    case True
    then show ?thesis using assms(3) by (auto simp: extractMouseScanTail_def set_modes_def)
  next
    case False
    then have "last_introducer (pen @ set_modes ps) = last_introducer (set_modes ps)"
      using assms(3) last_introducer_modes [OF assms(1)] by auto
    then show ?thesis
      using modes_leave_no_tail [OF assms(1)] unfolding extractMouseScanTail_def by simp
  qed
  moreover have "mouse_ops (pen @ set_modes ps) = map (\<lambda>p. Private_modes (js p) True) ps"
    using assms(3) mouse_ops_modes [OF assms(1)] mouse_ops_reset_pen by (elim disjE) simp_all
  ultimately show ?thesis
    using assms(2) by (cases m) (simp add: mouse_scan_eq fold_map comp_def)
qed

lemma apply_single_mode:
  "apply_mouse_op (Private_modes (js ''1049'') e) m = m"
  "apply_mouse_op (Private_modes (js ''2004'') e) m = m"
  "apply_mouse_op (Private_modes (js ''1'') e) m = m"
  "apply_mouse_op (Private_modes (js ''9'') e) m = m\<lparr>mm_tracking := if e then Track_x10 else Track_none\<rparr>"
  "apply_mouse_op (Private_modes (js ''1000'') e) m = m\<lparr>mm_tracking := if e then Track_vt200 else Track_none\<rparr>"
  "apply_mouse_op (Private_modes (js ''1002'') e) m = m\<lparr>mm_tracking := if e then Track_drag else Track_none\<rparr>"
  "apply_mouse_op (Private_modes (js ''1003'') e) m = m\<lparr>mm_tracking := if e then Track_any else Track_none\<rparr>"
  "apply_mouse_op (Private_modes (js ''1006'') e) m = m\<lparr>mm_sgrMouse := e, mm_sgrPixels := False\<rparr>"
  "apply_mouse_op (Private_modes (js ''1016'') e) m = m\<lparr>mm_sgrMouse := False, mm_sgrPixels := e\<rparr>"
  by (simp_all add: decimal_value_def set_private_mode_def)

definition rehydrate_params :: "terminal_modes \<Rightarrow> string list" where
  "rehydrate_params modes =
     (if md_alternateScreen modes then [''1049''] else [])
   @ (if md_bracketedPaste modes then [''2004''] else [])
   @ (if md_applicationCursor modes then [''1''] else [])
   @ (if md_mouseTracking modes then (case md_mouseTrackingMode modes of
        Some Track_x10 \<Rightarrow> [''9''] | Some Track_vt200 \<Rightarrow> [''1000''] | Some Track_drag \<Rightarrow> [''1002'']
      | Some Track_any \<Rightarrow> [''1003''] | Some Track_none \<Rightarrow> [] | None \<Rightarrow> [''1000'']) else [])
   @ (if md_sgrMousePixelsMode modes = Some True then [''1016'']
      else if md_sgrMouseMode modes = Some True then [''1006''] else [])"

lemma rehydrate_set_modes: "buildRehydrateSequences modes =
  (if md_alternateScreen modes then [0x1B, 91, 48, 109] else []) @ set_modes (rehydrate_params modes)"
  unfolding buildRehydrateSequences_def rehydrate_params_def set_modes_def
  by (simp split: option.split mouse_tracking.split)

lemma rehydrate_params_ok: "list_all mode_params_ok (rehydrate_params modes)"
  unfolding rehydrate_params_def
  by (simp add: mode_params_ok_def mode_param_unit_def split: option.split mouse_tracking.split)

text \<open>A terminal given the sequences reports the mouse as the modes say.\<close>

lemma rehydrated_mouse:
  assumes "md_mouseTracking modes = (t \<noteq> Track_none)" "md_mouseTrackingMode modes = Some t"
    "md_sgrMouseMode modes = Some s" "md_sgrMousePixelsMode modes = Some p" "\<not> (s \<and> p)"
  shows "mouse_scan (buildRehydrateSequences modes) new_mouse_mirror =
    \<lparr>mm_scanTail = [], mm_tracking = t, mm_sgrMouse = s, mm_sgrPixels = p\<rparr>"
proof -
  have "mouse_scan (buildRehydrateSequences modes) new_mouse_mirror =
    fold (\<lambda>p. apply_mouse_op (Private_modes (js p) True)) (rehydrate_params modes) new_mouse_mirror"
    unfolding rehydrate_set_modes
    by (intro mouse_scan_modes rehydrate_params_ok) (simp_all add: new_mouse_mirror_def)
  also have "\<dots> = \<lparr>mm_scanTail = [], mm_tracking = t, mm_sgrMouse = s, mm_sgrPixels = p\<rparr>"
    using assms unfolding rehydrate_params_def new_mouse_mirror_def
    by (cases t) (simp_all add: apply_single_mode del: apply_mouse_op.simps js.simps)
  finally show ?thesis .
qed

text \<open>The two encodings are never on together.\<close>

lemma one_encoding:
  "\<not> (mm_sgrMouse m \<and> mm_sgrPixels m) \<Longrightarrow>
   \<not> (mm_sgrMouse (apply_mouse_op op m) \<and> mm_sgrPixels (apply_mouse_op op m))"
proof (cases op)
  case (Private_modes params e)
  have "\<not> (mm_sgrMouse m \<and> mm_sgrPixels m) \<Longrightarrow>
    (let m' = fold (\<lambda>q m. if q = [] then m else set_private_mode e (decimal_value q) m) qs m
     in \<not> (mm_sgrMouse m' \<and> mm_sgrPixels m'))" for qs
    by (induction qs arbitrary: m) (simp_all add: Let_def set_private_mode_def)
  then show "\<not> (mm_sgrMouse m \<and> mm_sgrPixels m) \<Longrightarrow> ?thesis"
    by (simp add: Private_modes Let_def)
qed simp

lemma one_encoding_scan:
  "\<not> (mm_sgrMouse m \<and> mm_sgrPixels m) \<Longrightarrow>
   \<not> (mm_sgrMouse (mouse_scan data m) \<and> mm_sgrPixels (mouse_scan data m))"
proof -
  have "\<not> (mm_sgrMouse m \<and> mm_sgrPixels m) \<Longrightarrow>
    \<not> (mm_sgrMouse (fold apply_mouse_op ops m) \<and> mm_sgrPixels (fold apply_mouse_op ops m))" for ops m
  proof (induction ops arbitrary: m)
    case (Cons op ops)
    show ?case using Cons.IH [OF one_encoding [OF Cons.prems]] by simp
  qed simp
  from this [of "m\<lparr>mm_scanTail := _\<rparr>"] show "\<not> (mm_sgrMouse m \<and> mm_sgrPixels m) \<Longrightarrow> ?thesis"
    by (simp add: mouse_scan_eq)
qed

end
