(* ===== verification/Escape_Tail.thy ===== *)
theory Escape_Tail
  imports Prelude
begin

section \<open>The unfinished escape sequence at the end of a terminal stream\<close>

text \<open>
  \<open>src/src/shared/terminal-partial-escape-tail.ts\<close>: a scanner over the states a VT500 parser
  can be in between two chunks finds the escape sequence a stream ends in, and a tracker
  advances it chunk by chunk. The file states a fold law, that the tail of a stream followed by
  more can be computed from the tail alone; \<open>partial_tail_fold_law\<close> says for which streams it
  holds, \<open>tracked_tail\<close> what the tracker computes when it does.
\<close>

subsection \<open>The scanner\<close>

datatype scan_state =
    Ground | Esc | Esc_intermediate | Csi | Osc | Osc_esc | In_string | String_esc

definition ESC :: nat where "ESC = 27"
definition CAN :: nat where "CAN = 24"
definition SUB :: nat where "SUB = 26"
definition BEL :: nat where "BEL = 7"

definition MAX_PARTIAL_ESCAPE_TAIL_LENGTH :: nat where
  "MAX_PARTIAL_ESCAPE_TAIL_LENGTH = 4096"

definition stateAfterEscByte :: "nat \<Rightarrow> scan_state" where
  "stateAfterEscByte code =
     (if code = 0x5B then Csi
      else if code = 0x5D then Osc
      else if code = 0x50 \<or> code = 0x58 \<or> code = 0x5E \<or> code = 0x5F then In_string
      else if 0x20 \<le> code \<and> code \<le> 0x2F then Esc_intermediate
      else if code < 0x20 \<or> code = 0x7F then Esc
      else Ground)"

text \<open>One turn of the loop, at index \<open>i\<close>, on the variables \<open>state\<close> and \<open>start\<close>.\<close>

definition scan_unit :: "nat \<Rightarrow> nat \<Rightarrow> scan_state \<times> nat \<Rightarrow> scan_state \<times> nat" where
  "scan_unit code i v = (case v of (state, start) \<Rightarrow>
     if state = Ground then (if code = ESC then (Esc, i) else (Ground, start))
     else if code = ESC \<and> state \<noteq> Osc \<and> state \<noteq> In_string \<and> state \<noteq> Osc_esc
             \<and> state \<noteq> String_esc then (Esc, i)
     else if (code = CAN \<or> code = SUB) \<and> (state = Esc \<or> state = Esc_intermediate)
       then (Ground, start)
     else (case state of
         Ground \<Rightarrow> (Ground, start)
       | Esc \<Rightarrow> (stateAfterEscByte code, start)
       | Esc_intermediate \<Rightarrow>
           (if 0x30 \<le> code \<and> code \<le> 0x7E then Ground else Esc_intermediate, start)
       | Csi \<Rightarrow>
           (if code = CAN \<or> code = SUB then Ground
            else if 0x40 \<le> code \<and> code \<le> 0x7E then Ground else Csi, start)
       | Osc \<Rightarrow>
           (if code = BEL \<or> code = CAN \<or> code = SUB then Ground
            else if code = ESC then Osc_esc else Osc, start)
       | Osc_esc \<Rightarrow>
           (if code = 0x5C then (Ground, start)
            else (if code = ESC then Esc else stateAfterEscByte code, i - 1))
       | In_string \<Rightarrow>
           (if code = CAN \<or> code = SUB then Ground
            else if code = ESC then String_esc else In_string, start)
       | String_esc \<Rightarrow>
           (if code = 0x5C then (Ground, start)
            else (if code = ESC then Esc else stateAfterEscByte code, i - 1))))"

fun scan_units :: "jsstr \<Rightarrow> nat \<Rightarrow> scan_state \<times> nat \<Rightarrow> scan_state \<times> nat" where
  "scan_units [] i v = v"
| "scan_units (code # stream) i v = scan_units stream (i + 1) (scan_unit code i v)"

definition extractPartialEscapeTail :: "jsstr \<Rightarrow> jsstr" where
  "extractPartialEscapeTail stream = (case scan_units stream 0 (Ground, 0) of
     (state, start) \<Rightarrow> if state = Ground then [] else drop start stream)"

definition advancePartialEscapeTail :: "jsstr \<Rightarrow> jsstr \<Rightarrow> jsstr" where
  "advancePartialEscapeTail pendingTail chunk =
     (let tail = extractPartialEscapeTail (pendingTail @ chunk)
      in if MAX_PARTIAL_ESCAPE_TAIL_LENGTH < length tail then [] else tail)"

subsection \<open>The scanner without indices\<close>

text \<open>
  The same machine carrying the pending text itself. An escape that ends an OSC or a string is
  the unit before the current one, so the restart at \<open>i - 1\<close> makes the pending text the two.
\<close>

definition pending_unit :: "nat \<Rightarrow> scan_state \<times> jsstr \<Rightarrow> scan_state \<times> jsstr" where
  "pending_unit code v = (case v of (state, t) \<Rightarrow>
     (case fst (scan_unit code 0 (state, 0)) of
        Ground \<Rightarrow> (Ground, [])
      | state' \<Rightarrow>
          (state',
           if state = Ground \<or> code = ESC \<and> (state = Esc \<or> state = Esc_intermediate \<or> state = Csi)
           then [code]
           else if state = Osc_esc \<or> state = String_esc then [ESC, code]
           else t @ [code])))"

definition pending_units :: "jsstr \<Rightarrow> scan_state \<times> jsstr \<Rightarrow> scan_state \<times> jsstr" where
  "pending_units stream v = foldl (\<lambda>v code. pending_unit code v) v stream"

lemma pending_units_simps [simp]:
  "pending_units [] v = v"
  "pending_units (code # s) v = pending_units s (pending_unit code v)"
  "pending_units (s @ s') v = pending_units s' (pending_units s v)"
  by (simp_all add: pending_units_def)

definition pending_ok :: "scan_state \<times> jsstr \<Rightarrow> bool" where
  "pending_ok v = (case v of (state, t) \<Rightarrow>
     (state = Ground) = (t = []) \<and>
     (state = Osc_esc \<or> state = String_esc \<longrightarrow> t \<noteq> [] \<and> last t = ESC))"

lemma stateAfterEscByte_cases:
  "stateAfterEscByte code \<in> {Ground, Esc, Esc_intermediate, Csi, Osc, In_string}"
  by (simp add: stateAfterEscByte_def)

lemma after_esc_not [simp]:
  "stateAfterEscByte code \<noteq> Osc_esc" "stateAfterEscByte code \<noteq> String_esc"
  "Osc_esc \<noteq> stateAfterEscByte code" "String_esc \<noteq> stateAfterEscByte code"
  by (simp_all add: stateAfterEscByte_def)

text \<open>The loop at index \<open>length s\<close> against the pending text of \<open>s\<close>.\<close>

definition same_scan :: "jsstr \<Rightarrow> scan_state \<times> nat \<Rightarrow> scan_state \<times> jsstr \<Rightarrow> bool" where
  "same_scan s v p = (fst v = fst p \<and> snd v \<le> length s
     \<and> (fst v = Ground \<or> drop (snd v) s = snd p) \<and> pending_ok p)"

lemma fst_scan_unit: "fst (scan_unit code i (state, start)) = fst (scan_unit code 0 (state, 0))"
  by (cases state) (auto simp: scan_unit_def)

lemma drop_before_last: "s \<noteq> [] \<Longrightarrow> drop (length s - Suc 0) s = [last s]"
  by (cases s rule: rev_cases) auto

lemma same_scan_unit:
  assumes "same_scan s v p"
  shows "same_scan (s @ [code]) (scan_unit code (length s) v) (pending_unit code p)"
proof -
  obtain st a where v: "v = (st, a)" by (cases v)
  obtain t where p: "p = (st, t)" using assms v by (cases p) (auto simp: same_scan_def)
  have a: "a \<le> length s" and t: "st = Ground \<or> drop a s = t"
    and ok: "(st = Ground) = (t = [])" "st = Osc_esc \<or> st = String_esc \<Longrightarrow> t \<noteq> [] \<and> last t = ESC"
    using assms by (auto simp: same_scan_def pending_ok_def v p)
  have ne: "st \<noteq> Ground \<Longrightarrow> s \<noteq> []" using t ok(1) by auto
  have le: "st \<noteq> Ground \<Longrightarrow> last s = last t" using t ok(1) by (metis last_drop drop_eq_Nil not_le)
  have prev: "st = Osc_esc \<or> st = String_esc \<Longrightarrow> drop (length s - 1) (s @ [code]) = [ESC, code]"
    using ne ok(2) le by (auto simp: drop_before_last)
  show ?thesis
    using a t ok prev ne unfolding v p same_scan_def
    by (cases st) (auto simp: scan_unit_def pending_unit_def pending_ok_def
        drop_before_last split: scan_state.splits if_splits)
qed

lemma same_scan_units:
  "same_scan s v p \<Longrightarrow> same_scan (s @ r) (scan_units r (length s) v) (pending_units r p)"
proof (induction r arbitrary: s v p)
  case (Cons code r)
  from Cons.IH [OF same_scan_unit [OF Cons.prems, of code]] show ?case by simp
qed simp

lemma scan_pending: "same_scan s (scan_units s 0 (Ground, 0)) (pending_units s (Ground, []))"
proof -
  have "same_scan [] (Ground, 0) (Ground, [])" by (simp add: same_scan_def pending_ok_def)
  from same_scan_units [OF this, of s] show ?thesis by simp
qed

lemma pending_units_ok: "pending_ok (pending_units s (Ground, []))"
  using scan_pending [of s] by (simp add: same_scan_def)

lemma extract_pending: "extractPartialEscapeTail s = snd (pending_units s (Ground, []))"
  using scan_pending [of s]
  by (auto simp: extractPartialEscapeTail_def same_scan_def pending_ok_def split: prod.splits)

subsection \<open>The fold law\<close>

text \<open>
  The tail that does not scan to itself: an escape that aborted an OSC or a string and is
  followed by one of the units a fresh escape sequence treats in another way.
\<close>

definition aborted_tail :: "jsstr \<Rightarrow> bool" where
  "aborted_tail t = (case t of
     a # c # _ \<Rightarrow> a = ESC \<and> (c = ESC \<or> c = CAN \<or> c = SUB) | _ \<Rightarrow> False)"

lemma aborted_tail_simps [simp]:
  "\<not> aborted_tail []" "\<not> aborted_tail [a]"
  "aborted_tail (a # c # r) = (a = ESC \<and> (c = ESC \<or> c = CAN \<or> c = SUB))"
  by (simp_all add: aborted_tail_def)

lemma aborted_tail_append: "aborted_tail t \<Longrightarrow> aborted_tail (t @ r)"
  by (auto simp: aborted_tail_def split: list.splits)

lemma pending_unit_ok: "pending_ok v \<Longrightarrow> pending_ok (pending_unit code v)"
  by (cases v; cases "fst v")
    (auto simp: scan_unit_def pending_unit_def pending_ok_def split: scan_state.splits if_splits)

lemma pending_unit_length: "pending_ok v \<Longrightarrow> length (snd (pending_unit code v)) \<le> Suc (length (snd v))"
  by (cases v; cases "fst v"; cases "snd v")
    (auto simp: scan_unit_def pending_unit_def pending_ok_def split: scan_state.splits if_splits)

lemma pending_units_length:
  "pending_ok v \<Longrightarrow> length (snd (pending_units r v)) \<le> length r + length (snd v)"
proof (induction r arbitrary: v)
  case (Cons code r)
  from Cons.IH [OF pending_unit_ok [OF Cons.prems, of code]]
    pending_unit_length [OF Cons.prems, of code] show ?case by simp
qed simp

text \<open>A step keeps the pending text, starts it anew, or restarts it at the escape before.\<close>

lemma pending_unit_text:
  "pending_unit code (st, t) = (st', t') \<Longrightarrow> st' = Ground \<and> t' = []
   \<or> t' = [ESC] \<and> st' = Esc \<and> code = ESC
   \<or> t' = [ESC, code] \<and> (st' = Esc \<and> code = ESC \<or> st' = stateAfterEscByte code)
       \<and> st' \<noteq> Ground
   \<or> t' = t @ [code] \<and> st \<noteq> Ground"
  by (cases st) (auto simp: scan_unit_def pending_unit_def split: scan_state.splits if_splits)

lemma esc_codes [simp]: "stateAfterEscByte ESC = Esc" "CAN \<noteq> ESC" "SUB \<noteq> ESC"
  by (simp_all add: stateAfterEscByte_def ESC_def CAN_def SUB_def)

lemma pending_fresh:
  "pending_unit ESC (Ground, []) = (Esc, [ESC])"
  "code \<noteq> ESC \<Longrightarrow> code \<noteq> CAN \<Longrightarrow> code \<noteq> SUB \<Longrightarrow> stateAfterEscByte code \<noteq> Ground \<Longrightarrow>
     pending_unit code (Esc, [ESC]) = (stateAfterEscByte code, [ESC, code])"
  by (auto simp: pending_unit_def scan_unit_def split: scan_state.split)

text \<open>Otherwise the tail, scanned from the ground state, leads to the state the stream led to.\<close>

lemma pending_rescan:
  assumes "pending_units s (Ground, []) = (st, t)" and "\<not> aborted_tail t"
  shows "pending_units t (Ground, []) = (st, t)"
  using assms
proof (induction s arbitrary: st t rule: rev_induct)
  case (snoc code s)
  obtain st0 t0 where s0: "pending_units s (Ground, []) = (st0, t0)"
    by (cases "pending_units s (Ground, [])")
  have u: "pending_unit code (st0, t0) = (st, t)" using snoc.prems(1) s0 by simp
  from pending_unit_text [OF u] consider "st = Ground" "t = []" | "t = [ESC]" "st = Esc"
    | "t = [ESC, code]" "st = stateAfterEscByte code" "st \<noteq> Ground" "code \<noteq> ESC"
    | "t = t0 @ [code]"
    using snoc.prems(2) by auto
  then show ?case
  proof cases
    case 3
    with snoc.prems(2) show ?thesis by (simp add: pending_fresh)
  next
    case 4
    with snoc.prems(2) have "\<not> aborted_tail t0" using aborted_tail_append by blast
    from snoc.IH [OF s0 this] u 4 show ?thesis by simp
  qed (simp_all add: pending_fresh)
qed simp

lemma aborted_shrinks:
  assumes "aborted_tail t"
  shows "length (extractPartialEscapeTail t) < length t"
proof -
  obtain c r where t: "t = ESC # c # r" and c: "c = ESC \<or> c = CAN \<or> c = SUB"
    using assms by (auto simp: aborted_tail_def split: list.splits)
  have "\<exists>v. pending_units t (Ground, []) = pending_units r v \<and> pending_ok v \<and> length (snd v) \<le> 1"
  proof (cases "c = ESC")
    case True
    then show ?thesis
      by (intro exI [of _ "(Esc, [ESC])"])
        (simp add: t pending_fresh pending_ok_def, simp add: pending_unit_def scan_unit_def)
  next
    case False
    with c have "pending_unit c (Esc, [ESC]) = (Ground, [])"
      by (auto simp: pending_unit_def scan_unit_def)
    then show ?thesis
      by (intro exI [of _ "(Ground, [])"]) (simp add: t pending_fresh pending_ok_def)
  qed
  then obtain v where "pending_units t (Ground, []) = pending_units r v" "pending_ok v"
      "length (snd v) \<le> 1" by blast
  with pending_units_length [of v r] show ?thesis by (simp add: extract_pending) (simp add: t)
qed

lemma fold_from_tail:
  assumes "\<not> aborted_tail (extractPartialEscapeTail a)"
  shows "extractPartialEscapeTail (extractPartialEscapeTail a @ b) = extractPartialEscapeTail (a @ b)"
proof -
  obtain st t where a: "pending_units a (Ground, []) = (st, t)"
    by (cases "pending_units a (Ground, [])")
  with assms have "pending_units t (Ground, []) = (st, t)"
    by (intro pending_rescan) (simp_all add: extract_pending)
  with a show ?thesis by (simp add: extract_pending)
qed

text \<open>
  C37. The documented fold law: the tail of a stream followed by more is the tail of its tail
  followed by more. It holds for all continuations exactly of the streams whose tail is not an
  escape followed by a second escape, CAN or SUB; such a tail arises when the escape aborts an
  OSC or a string.
\<close>

theorem partial_tail_fold_law:
  "(\<forall>b. extractPartialEscapeTail (a @ b)
        = extractPartialEscapeTail (extractPartialEscapeTail a @ b))
     = (\<not> aborted_tail (extractPartialEscapeTail a))"
proof
  assume "\<forall>b. extractPartialEscapeTail (a @ b)
        = extractPartialEscapeTail (extractPartialEscapeTail a @ b)"
  then have "extractPartialEscapeTail (a @ []) = extractPartialEscapeTail (extractPartialEscapeTail a @ [])"
    by blast
  with aborted_shrinks [of "extractPartialEscapeTail a"]
  show "\<not> aborted_tail (extractPartialEscapeTail a)" by auto
qed (simp add: fold_from_tail)

text \<open>The law fails: after \<open>ESC ] ESC CAN\<close> a chunk that starts with a bracket.\<close>

lemma fold_law_fails:
  "extractPartialEscapeTail ([27, 93, 27, 24] @ [91]) = [27, 24, 91]"
  "extractPartialEscapeTail (extractPartialEscapeTail [27, 93, 27, 24] @ [91]) = []"
  by (simp_all add: extractPartialEscapeTail_def scan_unit_def stateAfterEscByte_def
      ESC_def CAN_def SUB_def BEL_def)

text \<open>A stream cut where its tail scans to itself and fits under the cap.\<close>

definition clean_cut :: "jsstr \<Rightarrow> bool" where
  "clean_cut s = (\<not> aborted_tail (extractPartialEscapeTail s)
     \<and> length (extractPartialEscapeTail s) \<le> MAX_PARTIAL_ESCAPE_TAIL_LENGTH)"

text \<open>
  The tracker that keeps only the tail and advances it chunk by chunk holds, after any
  chunks whose ends are clean cuts, the tail of the whole stream; its state never exceeds the cap.
\<close>

theorem tracked_tail:
  assumes "\<forall>n \<le> length chunks. clean_cut (concat (take n chunks))"
  shows "foldl advancePartialEscapeTail [] chunks = extractPartialEscapeTail (concat chunks)
    \<and> length (foldl advancePartialEscapeTail [] chunks) \<le> MAX_PARTIAL_ESCAPE_TAIL_LENGTH"
  using assms
proof (induction chunks rule: rev_induct)
  case Nil
  then show ?case by (simp add: extractPartialEscapeTail_def)
next
  case (snoc c cs)
  have pre: "clean_cut (concat (take n cs))" if "n \<le> length cs" for n
    using snoc.prems that by (auto dest: spec [of _ n])
  then have IH: "foldl advancePartialEscapeTail [] cs = extractPartialEscapeTail (concat cs)"
    using snoc.IH by blast
  have "clean_cut (concat cs)" using pre [of "length cs"] by simp
  then have law: "extractPartialEscapeTail (extractPartialEscapeTail (concat cs) @ c)
      = extractPartialEscapeTail (concat cs @ c)"
    by (simp add: fold_from_tail clean_cut_def)
  have "clean_cut (concat (take (length (cs @ [c])) (cs @ [c])))" using snoc.prems by blast
  then have "clean_cut (concat cs @ c)" by simp
  then have "advancePartialEscapeTail (extractPartialEscapeTail (concat cs)) c
      = extractPartialEscapeTail (concat cs @ c)"
    and "length (extractPartialEscapeTail (concat cs @ c)) \<le> MAX_PARTIAL_ESCAPE_TAIL_LENGTH"
    by (simp_all add: advancePartialEscapeTail_def law clean_cut_def)
  then show ?case by (simp add: IH)
qed

theorem tracked_tail_witness:
  "foldl advancePartialEscapeTail [] [[65, 27], [91, 51], [49, 109, 27, 93], [48]] = [27, 93, 48]"
proof -
  let ?cs = "[[65, 27], [91, 51], [49, 109, 27, 93], [48]] :: jsstr list"
  have "clean_cut (concat (take n ?cs))" if "n \<le> length ?cs" for n
  proof -
    from that consider "n = 0" | "n = 1" | "n = 2" | "n = 3" | "n = 4" by fastforce
    then show ?thesis
      by cases (simp_all add: clean_cut_def extractPartialEscapeTail_def scan_unit_def
          stateAfterEscByte_def aborted_tail_def ESC_def CAN_def SUB_def BEL_def
          MAX_PARTIAL_ESCAPE_TAIL_LENGTH_def)
  qed
  with tracked_tail [of ?cs] show ?thesis
    by (simp add: extractPartialEscapeTail_def scan_unit_def stateAfterEscByte_def
        ESC_def CAN_def SUB_def BEL_def)
qed

end
