(* ===== verification/Headless.thy ===== *)
theory Headless
  imports Snapshot_Ansi Escape_Tail
begin

section \<open>The headless emulator and the output a session has pending\<close>

text \<open>
  \<open>src/src/main/daemon/headless-emulator.ts\<close> wraps the terminal of the xterm library: it writes
  to it, mirrors the mouse modes and the unfinished escape sequence from the same data, and makes
  snapshots. \<open>src/src/main/daemon/session.ts\<close> feeds the emulator and records what it fed, for the
  next checkpoint.
\<close>

subsection \<open>The emulator\<close>

record ('x, 'c) headless =
  he_terminal :: 'x
  he_oscText :: 'c
  he_mouseModes :: mouse_mirror
  he_restoredOscLinks :: json
  he_disposed :: bool
  he_partialEscapeTail :: jsstr

definition new_headless :: "('x, 'c) xterm \<Rightarrow> int \<Rightarrow> int \<Rightarrow> ('x, 'c) headless" where
  "new_headless X cols rows =
     \<lparr>he_terminal = xt_new X cols rows, he_oscText = osc_new X,
      he_mouseModes = new_mouse_mirror, he_restoredOscLinks = JArr [],
      he_disposed = False, he_partialEscapeTail = []\<rparr>"

text \<open>Whether the data was taken, and the emulator; xterm has its synchronous write.\<close>

definition writeSync ::
  "('x, 'c) xterm \<Rightarrow> jsstr \<Rightarrow> ('x, 'c) headless \<Rightarrow> bool \<times> ('x, 'c) headless" where
  "writeSync X data e =
     (if he_disposed e then (False, e)
      else (True, e\<lparr>he_oscText := osc_scan X data (he_oscText e),
                    he_terminal := xt_write X data (he_terminal e),
                    he_mouseModes := mouse_scan data (he_mouseModes e),
                    he_partialEscapeTail := advancePartialEscapeTail (he_partialEscapeTail e) data\<rparr>))"

definition headless_resize ::
  "('x, 'c) xterm \<Rightarrow> int \<Rightarrow> int \<Rightarrow> ('x, 'c) headless \<Rightarrow> ('x, 'c) headless" where
  "headless_resize X cols rows e =
     (if he_disposed e then e
      else e\<lparr>he_restoredOscLinks := JArr [], he_terminal := xt_resize X cols rows (he_terminal e)\<rparr>)"

definition headless_clear :: "('x, 'c) xterm \<Rightarrow> ('x, 'c) headless \<Rightarrow> ('x, 'c) headless" where
  "headless_clear X e =
     e\<lparr>he_restoredOscLinks := JArr [], he_terminal := xt_clear X (he_terminal e)\<rparr>"

definition getModes :: "('x, 'c) xterm \<Rightarrow> 'x \<Rightarrow> mouse_mirror \<Rightarrow> terminal_modes" where
  "getModes X t m =
     \<lparr>md_bracketedPaste = xt_bracketedPasteMode X t,
      md_mouseTracking = (mm_tracking m \<noteq> Track_none), md_mouseTrackingMode = Some (mm_tracking m),
      md_sgrMouseMode = Some (mm_sgrMouse m), md_sgrMousePixelsMode = Some (mm_sgrPixels m),
      md_applicationCursor = (\<not> xt_alternate X t \<and> xt_applicationCursorKeysMode X t),
      md_alternateScreen = xt_alternate X t,
      md_kittyKeyboardFlags = Some (case xt_kittyFlags X t of Some f \<Rightarrow> f | None \<Rightarrow> 0)\<rparr>"

text \<open>The part of a snapshot that shows the screen, with no limit on the scrollback.\<close>

definition snapshot_screen :: "('x, 'c) xterm \<Rightarrow> 'x \<Rightarrow> mouse_mirror \<Rightarrow> term_screen" where
  "snapshot_screen X t m =
     (let modes = getModes X t m;
          serializedAnsi = serializeWithAbsoluteCursor X t (readSavedCursorRegister X t)
      in case splitTerminalSnapshotAnsi serializedAnsi modes of (snapshotAnsi, scrollbackAnsi) \<Rightarrow>
           \<lparr>sc_snapshotAnsi = snapshotAnsi, sc_scrollbackAnsi = scrollbackAnsi,
            sc_rehydrateSequences = buildRehydrateSequences modes,
            sc_cols = xt_cols X t, sc_rows = xt_rows X t, sc_modes = modes\<rparr>)"

definition getSnapshot :: "('x, 'c) xterm \<Rightarrow> ('x, 'c) headless \<Rightarrow> terminal_snapshot" where
  "getSnapshot X e =
     (let s = snapshot_screen X (he_terminal e) (he_mouseModes e)
      in \<lparr>sc_snapshotAnsi = sc_snapshotAnsi s, sc_scrollbackAnsi = sc_scrollbackAnsi s,
          sc_rehydrateSequences = sc_rehydrateSequences s, sc_cols = sc_cols s,
          sc_rows = sc_rows s, sc_modes = sc_modes s,
          ts_pendingEscapeTailAnsi =
            (if he_partialEscapeTail e = [] then None else Some (he_partialEscapeTail e)),
          ts_oscLinks = xt_links X (he_terminal e) (he_restoredOscLinks e),
          ts_cwd = osc_cwd X (he_oscText e),
          ts_scrollbackLines = xt_normalLength X (he_terminal e) - xt_rows X (he_terminal e),
          ts_lastTitle = osc_lastTitle X (he_oscText e)\<rparr>)"

text \<open>
  Whatever was written to an emulator, the sequences of its snapshot switch on, in another
  emulator, the mouse modes it has.
\<close>

lemma snapshot_mouse_modes:
  assumes "m = fold mouse_scan chunks new_mouse_mirror"
  shows "mouse_scan (sc_rehydrateSequences (snapshot_screen X t m)) new_mouse_mirror =
    m\<lparr>mm_scanTail := []\<rparr>"
proof -
  have "\<not> (mm_sgrMouse m0 \<and> mm_sgrPixels m0) \<Longrightarrow>
    \<not> (mm_sgrMouse (fold mouse_scan cs m0) \<and> mm_sgrPixels (fold mouse_scan cs m0))" for cs m0
  proof (induction cs arbitrary: m0)
    case (Cons c cs)
    show ?case using Cons.IH [OF one_encoding_scan [OF Cons.prems]] by simp
  qed simp
  from this [of new_mouse_mirror chunks] have "\<not> (mm_sgrMouse m \<and> mm_sgrPixels m)"
    by (simp add: assms new_mouse_mirror_def)
  then have "mouse_scan (buildRehydrateSequences (getModes X t m)) new_mouse_mirror =
    \<lparr>mm_scanTail = [], mm_tracking = mm_tracking m, mm_sgrMouse = mm_sgrMouse m,
     mm_sgrPixels = mm_sgrPixels m\<rparr>"
    by (intro rehydrated_mouse) (simp_all add: getModes_def)
  then show ?thesis by (simp add: snapshot_screen_def Let_def split: prod.split)
qed

subsection \<open>Pending output of a session\<close>

definition PENDING_OUTPUT_MAX_BYTES :: nat where
  "PENDING_OUTPUT_MAX_BYTES = 2 * 1024 * 1024"

record ('x, 'c) session =
  ss_emulator :: "('x, 'c) headless"
  ss_records :: "output_record list"
  ss_bytes :: nat
  ss_overflowed :: bool
  ss_seq :: nat
  ss_outputSequence :: nat
  ss_exited :: bool
  ss_disposed :: bool

definition record_bytes :: "output_record \<Rightarrow> nat" where
  "record_bytes r = (case r of Rec_output data \<Rightarrow> length data | _ \<Rightarrow> 8)"

text \<open>Appending a record, an output joined to the output before it if that is short.\<close>

definition coalesce_record :: "output_record \<Rightarrow> output_record list \<Rightarrow> output_record list" where
  "coalesce_record r records = (case (r, records) of
     (Rec_output data, _ # _) \<Rightarrow>
       (case last records of
          Rec_output before \<Rightarrow>
            if length before < 64 * 1024 then butlast records @ [Rec_output (before @ data)]
            else records @ [r]
        | _ \<Rightarrow> records @ [r])
   | _ \<Rightarrow> records @ [r])"

definition recordPendingOutput ::
  "output_record \<Rightarrow> ('x, 'c) session \<Rightarrow> ('x, 'c) session" where
  "recordPendingOutput r s =
     (if ss_overflowed s then s
      else if PENDING_OUTPUT_MAX_BYTES < ss_bytes s + record_bytes r
      then s\<lparr>ss_records := [], ss_bytes := 0, ss_overflowed := True\<rparr>
      else s\<lparr>ss_records := coalesce_record r (ss_records s), ss_bytes := ss_bytes s + record_bytes r\<rparr>)"

text \<open>\<open>emitSubprocessOutput\<close>, without the clients it broadcasts to.\<close>

definition emitSubprocessOutput ::
  "('x, 'c) xterm \<Rightarrow> jsstr \<Rightarrow> ('x, 'c) session \<Rightarrow> ('x, 'c) session" where
  "emitSubprocessOutput X data s =
     (if data = [] then s
      else recordPendingOutput (Rec_output data)
             (s\<lparr>ss_outputSequence := ss_outputSequence s + length data,
                ss_emulator := snd (writeSync X data (ss_emulator s))\<rparr>))"

definition isValidPtySize :: "int \<Rightarrow> int \<Rightarrow> bool" where
  "isValidPtySize cols rows = (1 \<le> cols \<and> 1 \<le> rows)"

definition session_resize ::
  "('x, 'c) xterm \<Rightarrow> int \<Rightarrow> int \<Rightarrow> ('x, 'c) session \<Rightarrow> ('x, 'c) session" where
  "session_resize X cols rows s =
     (if ss_exited s \<or> ss_disposed s then s
      else if \<not> isValidPtySize cols rows then s
      else recordPendingOutput (Rec_resize cols rows)
             (s\<lparr>ss_emulator := headless_resize X cols rows (ss_emulator s)\<rparr>))"

definition session_clear :: "('x, 'c) xterm \<Rightarrow> ('x, 'c) session \<Rightarrow> ('x, 'c) session" where
  "session_clear X s =
     (if ss_disposed s then s
      else recordPendingOutput Rec_clear
             (s\<lparr>ss_emulator := headless_clear X (ss_emulator s)\<rparr>))"

record take_result =
  tk_records :: "output_record list"
  tk_seq :: nat
  tk_overflowed :: bool
  tk_snapshot :: "terminal_snapshot option"

text \<open>\<open>takePendingOutput\<close>, outside of a teardown, which alone releases bytes held back.\<close>

definition takePendingOutput ::
  "('x, 'c) xterm \<Rightarrow> bool \<Rightarrow> ('x, 'c) session \<Rightarrow> take_result option \<times> ('x, 'c) session" where
  "takePendingOutput X includeSnapshot s =
     (if ss_disposed s then (None, s)
      else (Some \<lparr>tk_records = (if includeSnapshot then [] else ss_records s),
                  tk_seq = ss_seq s + 1, tk_overflowed = ss_overflowed s,
                  tk_snapshot = (if includeSnapshot then Some (getSnapshot X (ss_emulator s))
                                 else None)\<rparr>,
            s\<lparr>ss_records := [], ss_bytes := 0, ss_overflowed := False, ss_seq := ss_seq s + 1\<rparr>))"

end
