(* ===== verification/History_Reader.thy ===== *)
theory History_Reader
  imports Headless
begin

section \<open>Cold restore\<close>

text \<open>
  \<open>src/src/main/daemon/history-reader.ts\<close>: what is shown of a session whose daemon is gone. The
  checkpoint is written to a scratch emulator and the log that continues it is replayed on top;
  without a usable log the checkpoint alone is shown, without a checkpoint the scrollback of
  older versions.
\<close>

record cold_restore = term_screen +
  cr_oscLinks :: "json option"
  cr_cwd :: jsstr

definition ALT_SCREEN_ON :: jsstr where "ALT_SCREEN_ON = 27 # js ''[?1049h''"
definition ALT_SCREEN_OFF :: jsstr where "ALT_SCREEN_OFF = 27 # js ''[?1049l''"

subsection \<open>Scrollback of older versions\<close>

text \<open>
  The scan for switches of the alternate screen: depth, index of the outermost switch that is
  still open, and the rest from \<open>searchFrom\<close>. Neither switch is a prefix of the other and they
  cannot overlap, so the next occurrence of either is the first position one of them starts at.
\<close>

fun scan_alt :: "jsstr \<Rightarrow> nat \<Rightarrow> nat \<Rightarrow> nat \<Rightarrow> nat option \<Rightarrow> nat \<times> nat option" where
  "scan_alt [] skip i depth open_at = (depth, open_at)"
| "scan_alt (u # s) (Suc skip) i depth open_at = scan_alt s skip (i + 1) depth open_at"
| "scan_alt (u # s) 0 i depth open_at =
     (if take (length ALT_SCREEN_ON) (u # s) = ALT_SCREEN_ON
      then scan_alt s (length ALT_SCREEN_ON - 1) (i + 1) (depth + 1)
             (if depth = 0 then Some i else open_at)
      else if take (length ALT_SCREEN_OFF) (u # s) = ALT_SCREEN_OFF
      then scan_alt s (length ALT_SCREEN_OFF - 1) (i + 1) (depth - 1) open_at
      else scan_alt s 0 (i + 1) depth open_at)"

definition truncateAltScreen :: "jsstr \<Rightarrow> jsstr" where
  "truncateAltScreen data = (case scan_alt data 0 0 0 None of
     (depth, open_at) \<Rightarrow>
       (case open_at of
          Some i \<Rightarrow> if 0 < depth then take i data else data
        | None \<Rightarrow> data))"

definition no_modes :: terminal_modes where
  "no_modes = \<lparr>md_bracketedPaste = False, md_mouseTracking = False, md_mouseTrackingMode = None,
     md_sgrMouseMode = None, md_sgrMousePixelsMode = None, md_applicationCursor = False,
     md_alternateScreen = False, md_kittyKeyboardFlags = None\<rparr>"

definition detectColdRestoreFromScrollback ::
  "session_dir \<Rightarrow> session_meta \<Rightarrow> cold_restore option" where
  "detectColdRestoreFromScrollback d meta = map_option (\<lambda>bytes.
     (let truncated = truncateAltScreen (utf8_decode bytes)
      in \<lparr>sc_snapshotAnsi = truncated, sc_scrollbackAnsi = truncated, sc_rehydrateSequences = [],
          sc_cols = sm_cols meta, sc_rows = sm_rows meta, sc_modes = no_modes,
          cr_oscLinks = None, cr_cwd = sm_cwd meta\<rparr>)) (sd_scrollback d)"

subsection \<open>Checkpoint and log\<close>

definition coldRestoreInfoFromSnapshot ::
  "term_screen \<Rightarrow> json \<Rightarrow> jsstr option \<Rightarrow> session_meta \<Rightarrow> cold_restore" where
  "coldRestoreInfoFromSnapshot s links cwd meta =
     \<lparr>sc_snapshotAnsi = sc_snapshotAnsi s,
      sc_scrollbackAnsi = (if sc_scrollbackAnsi s \<noteq> [] then sc_scrollbackAnsi s
        else if md_alternateScreen (sc_modes s) then [] else sc_snapshotAnsi s),
      sc_rehydrateSequences = sc_rehydrateSequences s, sc_cols = sc_cols s, sc_rows = sc_rows s,
      sc_modes = sc_modes s, cr_oscLinks = Some links,
      cr_cwd = (case cwd of Some c \<Rightarrow> c | None \<Rightarrow> sm_cwd meta)\<rparr>"

fun replay_record ::
  "('x, 'c) xterm \<Rightarrow> output_record \<Rightarrow> ('x, 'c) headless \<Rightarrow> ('x, 'c) headless option" where
  "replay_record X (Rec_output data) e =
     (case writeSync X data e of (ok, e') \<Rightarrow> if ok then Some e' else None)"
| "replay_record X (Rec_resize cols rows) e = Some (headless_resize X cols rows e)"
| "replay_record X Rec_clear e = Some (headless_clear X e)"

fun replay_records ::
  "('x, 'c) xterm \<Rightarrow> output_record list \<Rightarrow> ('x, 'c) headless \<Rightarrow> ('x, 'c) headless option" where
  "replay_records X [] e = Some e"
| "replay_records X (r # rs) e =
     (case replay_record X r e of None \<Rightarrow> None | Some e' \<Rightarrow> replay_records X rs e')"

text \<open>The scratch emulator with the checkpoint, if there is one, written to it.\<close>

definition base_emulator ::
  "('x, 'c) xterm \<Rightarrow> session_meta \<Rightarrow> checkpoint_file option \<Rightarrow> ('x, 'c) headless option" where
  "base_emulator X meta ck = (case ck of
     None \<Rightarrow> Some (new_headless X (sm_cols meta) (sm_rows meta))
   | Some c \<Rightarrow>
       (case writeSync X (sc_scrollbackAnsi c @ sc_rehydrateSequences c @ sc_snapshotAnsi c)
               (new_headless X (sc_cols c) (sc_rows c)) of
          (ok, e) \<Rightarrow> if ok then Some (e\<lparr>he_restoredOscLinks := cf_oscLinks c\<rparr>) else None))"

text \<open>Whether the log continues the checkpoint.\<close>

definition log_continues :: "checkpoint_file option \<Rightarrow> nat \<Rightarrow> bool" where
  "log_continues ck generation = (case ck of
     Some c \<Rightarrow> cf_generation c = Some generation | None \<Rightarrow> generation = 0)"

definition restoreFromIncrementalLog ::
  "('x, 'c) xterm \<Rightarrow> session_dir \<Rightarrow> session_meta \<Rightarrow> checkpoint_file option \<Rightarrow> cold_restore option" where
  "restoreFromIncrementalLog X d meta ck = (case sd_log d of
     None \<Rightarrow> None
   | Some logBuffer \<Rightarrow>
       (case decodeTerminalHistoryLog logBuffer of
          None \<Rightarrow> None
        | Some log_c \<Rightarrow>
            if lc_batches log_c = [] then None
            else if \<not> log_continues ck (lc_generation log_c) then None
            else (case base_emulator X meta ck of
                None \<Rightarrow> None
              | Some e0 \<Rightarrow>
                  (case replay_records X (concat (map lb_records (lc_batches log_c))) e0 of
                     None \<Rightarrow> None
                   | Some e \<Rightarrow>
                       (let s = getSnapshot X e
                        in Some (coldRestoreInfoFromSnapshot (term_screen.truncate s) (ts_oscLinks s)
                             (case ts_cwd s of Some c \<Rightarrow> Some c
                              | None \<Rightarrow> (case ck of Some c \<Rightarrow>
                                   (case cf_cwd c of Some p \<Rightarrow> Some p | None \<Rightarrow> Some (sm_cwd meta))
                                 | None \<Rightarrow> Some (sm_cwd meta))) meta))))))"

definition read_checkpoint :: "session_dir \<Rightarrow> checkpoint_file option" where
  "read_checkpoint d = (case sd_checkpoint d of Content c \<Rightarrow> Some c | _ \<Rightarrow> None)"

definition detectColdRestore ::
  "('x, 'c) xterm \<Rightarrow> bool \<Rightarrow> session_dir \<Rightarrow> cold_restore option" where
  "detectColdRestore X ignoreCleanEnd d = (case sd_meta d of
     Content meta \<Rightarrow>
       if sm_endedAt meta \<noteq> None \<and> \<not> ignoreCleanEnd then None
       else (let ck = read_checkpoint d
             in case restoreFromIncrementalLog X d meta ck of
                  Some info \<Rightarrow> Some info
                | None \<Rightarrow>
                    (case ck of
                       None \<Rightarrow> detectColdRestoreFromScrollback d meta
                     | Some c \<Rightarrow> Some (coldRestoreInfoFromSnapshot (term_screen.truncate c)
                         (cf_oscLinks c) (cf_cwd c) meta)))
   | _ \<Rightarrow> None)"

definition hasRestorableHistory :: "session_dir \<Rightarrow> bool" where
  "hasRestorableHistory d = (case sd_meta d of Content m \<Rightarrow> sm_endedAt m = None | _ \<Rightarrow> False)"

end
