(* ===== verification/Checkpointing.thy ===== *)
theory Checkpointing
  imports History_Reader
begin

section \<open>Checkpoints, crashes and recovery\<close>

text \<open>
  The checkpoint tick of \<open>src/src/main/daemon/daemon-pty-adapter.ts\<close> ties the parts together: it
  takes what a session has pending and appends it to the log, or takes a snapshot and makes it
  the checkpoint. The system of a session, its manager, its files and the tick is a step
  relation in which writes may fail and the process that writes may be killed and started
  again; \<open>recovery_consistent\<close> says what a cold restore may show. Nothing is assumed of xterm: what
  is shown is described by the texts an emulator was given, not by what xterm makes of them.
\<close>

subsection \<open>The tick\<close>

definition FULL_CHECKPOINT_COOLDOWN_MS :: int where
  "FULL_CHECKPOINT_COOLDOWN_MS = 45000"

text \<open>\<open>sessionsNeedingFullCheckpoint\<close> and \<open>lastFullCheckpointAt\<close> of one session.\<close>

record checkpointer =
  cp_needsFull :: bool
  cp_lastFull :: "int option"

datatype tick_result = Tick_done | Tick_deferred

definition isFullCheckpointCoolingDown :: "checkpointer \<Rightarrow> int \<Rightarrow> bool" where
  "isFullCheckpointCoolingDown cp now = (case cp_lastFull cp of
     None \<Rightarrow> False
   | Some before \<Rightarrow> 0 \<le> now - before \<and> now - before < FULL_CHECKPOINT_COOLDOWN_MS)"

record ('x, 'c) recovery =
  rc_session :: "('x, 'c) session"
  rc_history :: session_history
  rc_checkpointer :: checkpointer

text \<open>What a tick is given: the fault, the time, and its text for the checkpoint file.\<close>

record tick_env =
  te_fault :: fault
  te_now :: int
  te_iso :: jsstr

definition takeSnapshotAndCheckpoint ::
  "('x, 'c) xterm \<Rightarrow> tick_env \<Rightarrow> ('x, 'c) recovery \<Rightarrow> ('x, 'c) recovery" where
  "takeSnapshotAndCheckpoint X env s =
     (case takePendingOutput X True (rc_session s) of
        (None, ss) \<Rightarrow> s\<lparr>rc_session := ss\<rparr>
      | (Some tk, ss) \<Rightarrow>
          (case tk_snapshot tk of
             None \<Rightarrow> s\<lparr>rc_session := ss\<rparr>
           | Some snapshot \<Rightarrow>
               (let h = checkpoint (te_fault env) (te_iso env) snapshot (rc_history s);
                    h' = (if tk_records tk \<noteq> []
                          then snd (appendIncrements None (tk_seq tk) (tk_records tk) h) else h)
                in s\<lparr>rc_session := ss, rc_history := h',
                     rc_checkpointer := (rc_checkpointer s)\<lparr>cp_lastFull := Some (te_now env)\<rparr>\<rparr>)))"

definition need_full :: "bool \<Rightarrow> ('x, 'c) recovery \<Rightarrow> ('x, 'c) recovery" where
  "need_full b s = s\<lparr>rc_checkpointer := (rc_checkpointer s)\<lparr>cp_needsFull := b\<rparr>\<rparr>"

text \<open>\<open>checkpointSession\<close>; \<open>incremental\<close> says whether the daemon knows \<open>takePendingOutput\<close>.\<close>

definition checkpointSession ::
  "('x, 'c) xterm \<Rightarrow> bool \<Rightarrow> bool \<Rightarrow> tick_env \<Rightarrow> ('x, 'c) recovery
     \<Rightarrow> tick_result \<times> ('x, 'c) recovery" where
  "checkpointSession X incremental final env s =
     (let cooling = isFullCheckpointCoolingDown (rc_checkpointer s) (te_now env)
      in if \<not> incremental then
           (Tick_done,
            if ss_disposed (rc_session s) then s
            else s\<lparr>rc_history := checkpoint (te_fault env) (te_iso env)
                     (getSnapshot X (ss_emulator (rc_session s))) (rc_history s)\<rparr>)
         else if final \<or> cp_needsFull (rc_checkpointer s) then
           (if \<not> final \<and> cooling then (Tick_deferred, s)
            else (Tick_done, need_full False (takeSnapshotAndCheckpoint X env s)))
         else (case takePendingOutput X False (rc_session s) of
             (None, ss) \<Rightarrow> (Tick_done, s\<lparr>rc_session := ss\<rparr>)
           | (Some tk, ss) \<Rightarrow>
               (let s1 = s\<lparr>rc_session := ss\<rparr>
                in if tk_overflowed tk then
                     (if cooling then (Tick_deferred, need_full True s1)
                      else (Tick_done, takeSnapshotAndCheckpoint X env s1))
                   else if tk_records tk = [] then (Tick_done, s1)
                   else (case appendIncrements (te_fault env) (tk_seq tk) (tk_records tk)
                                (rc_history s1) of
                       (Append_ok, h) \<Rightarrow> (Tick_done, s1\<lparr>rc_history := h\<rparr>)
                     | (Needs_checkpoint, h) \<Rightarrow>
                         (let s2 = s1\<lparr>rc_history := h\<rparr>
                          in if cooling then (Tick_deferred, need_full True s2)
                             else (Tick_done, takeSnapshotAndCheckpoint X env s2))))))"

subsection \<open>The system\<close>

text \<open>A session that was just opened on a fresh directory.\<close>

definition new_session :: "('x, 'c) xterm \<Rightarrow> int \<Rightarrow> int \<Rightarrow> ('x, 'c) session" where
  "new_session X cols rows =
     \<lparr>ss_emulator = new_headless X cols rows, ss_records = [], ss_bytes = 0,
      ss_overflowed = False, ss_seq = 0, ss_outputSequence = 0, ss_exited = False,
      ss_disposed = False\<rparr>"

definition empty_dir :: session_dir where
  "empty_dir = \<lparr>sd_meta = Missing, sd_checkpoint = Missing, sd_log = None, sd_scrollback = None\<rparr>"

definition opened ::
  "('x, 'c) xterm \<Rightarrow> jsstr \<Rightarrow> jsstr \<Rightarrow> int \<Rightarrow> int \<Rightarrow> ('x, 'c) recovery" where
  "opened X now cwd cols rows =
     \<lparr>rc_session = new_session X cols rows,
      rc_history = openSession None now cwd cols rows
        \<lparr>sh_writer = None, sh_disabled = False, sh_dir = empty_dir\<rparr>,
      rc_checkpointer = \<lparr>cp_needsFull = False, cp_lastFull = None\<rparr>\<rparr>"

text \<open>
  The steps, with the records applied to the terminal since it was opened. The terminal puts
  out well-formed text and is resized within what the file can hold. \<open>Crash\<close> is the end of the
  process that writes, in the middle of a tick if the tick before it had a fault, and its
  restart; it attaches to the session, which lives on in the daemon.
\<close>

type_synonym ('x, 'c) recovery_run = "output_record list \<times> ('x, 'c) recovery"

inductive recovery_step ::
  "('x, 'c) xterm \<Rightarrow> ('x, 'c) recovery_run \<Rightarrow> ('x, 'c) recovery_run \<Rightarrow> bool" for X where
  Output: "data \<noteq> [] \<Longrightarrow> code_units data \<Longrightarrow> well_formed_text data = data \<Longrightarrow>
     recovery_step X (applied, s) (applied @ [Rec_output data],
       s\<lparr>rc_session := emitSubprocessOutput X data (rc_session s)\<rparr>)"
| Resize: "isValidPtySize cols rows \<Longrightarrow> cols \<le> 65535 \<Longrightarrow> rows \<le> 65535 \<Longrightarrow>
     recovery_step X (applied, s) (applied @ [Rec_resize cols rows],
       s\<lparr>rc_session := session_resize X cols rows (rc_session s)\<rparr>)"
| Clear: "recovery_step X (applied, s) (applied @ [Rec_clear],
       s\<lparr>rc_session := session_clear X (rc_session s)\<rparr>)"
| Tick: "s' = snd (checkpointSession X True final env s) \<Longrightarrow>
     recovery_step X (applied, s) (applied, s')"
| Crash: "recovery_step X (applied, s) (applied,
     s\<lparr>rc_history := relaunched (rc_history s),
       rc_checkpointer := \<lparr>cp_needsFull = True, cp_lastFull = None\<rparr>\<rparr>)"

inductive recovery_reach ::
  "('x, 'c) xterm \<Rightarrow> int \<Rightarrow> int \<Rightarrow> ('x, 'c) recovery_run \<Rightarrow> bool" for X cols rows where
  Opened: "isValidPtySize cols rows \<Longrightarrow>
     recovery_reach X cols rows ([], opened X now cwd cols rows)"
| Step: "recovery_reach X cols rows p \<Longrightarrow> recovery_step X p q \<Longrightarrow> recovery_reach X cols rows q"

inductive_cases recovery_stepE: "recovery_step X p q"

subsection \<open>What an emulator shows after some records\<close>

text \<open>The part of an emulator that its screen is made of: the terminal and the mouse modes.\<close>

type_synonym 'x display = "'x \<times> mouse_mirror"

definition display_of :: "('x, 'c) headless \<Rightarrow> 'x display" where
  "display_of e = (he_terminal e, he_mouseModes e)"

definition new_display :: "('x, 'c) xterm \<Rightarrow> int \<Rightarrow> int \<Rightarrow> 'x display" where
  "new_display X cols rows = (xt_new X cols rows, new_mouse_mirror)"

fun run_record :: "('x, 'c) xterm \<Rightarrow> output_record \<Rightarrow> 'x display \<Rightarrow> 'x display" where
  "run_record X (Rec_output data) (t, m) = (xt_write X data t, mouse_scan data m)"
| "run_record X (Rec_resize cols rows) (t, m) = (xt_resize X cols rows t, m)"
| "run_record X Rec_clear (t, m) = (xt_clear X t, m)"

definition run_records :: "('x, 'c) xterm \<Rightarrow> output_record list \<Rightarrow> 'x display \<Rightarrow> 'x display" where
  "run_records X rs x = foldl (\<lambda>x r. run_record X r x) x rs"

lemma run_records_simps [simp]:
  "run_records X [] x = x"
  "run_records X (r # rs) x = run_records X rs (run_record X r x)"
  "run_records X (rs @ qs) x = run_records X qs (run_records X rs x)"
  by (simp_all add: run_records_def)

definition screen_of :: "('x, 'c) xterm \<Rightarrow> 'x display \<Rightarrow> term_screen" where
  "screen_of X x = snapshot_screen X (fst x) (snd x)"

text \<open>The screen of the session after the first \<open>a\<close> of the records applied to it.\<close>

definition screen_after ::
  "('x, 'c) xterm \<Rightarrow> int \<Rightarrow> int \<Rightarrow> output_record list \<Rightarrow> nat \<Rightarrow> term_screen" where
  "screen_after X cols rows applied a =
     screen_of X (run_records X (take a applied) (new_display X cols rows))"

text \<open>A new emulator to which the text of a screen was written, as the reader does.\<close>

definition reloaded :: "('x, 'c) xterm \<Rightarrow> term_screen \<Rightarrow> 'x display" where
  "reloaded X s = run_record X
     (Rec_output (sc_scrollbackAnsi s @ sc_rehydrateSequences s @ sc_snapshotAnsi s))
     (new_display X (sc_cols s) (sc_rows s))"

subsection \<open>Joined records\<close>

text \<open>
  The session joins an output to the output before it, so that the records of a log are those
  applied to the terminal but for the cuts between outputs that follow each other: \<open>joins rs qs\<close>
  says that \<open>rs\<close> is \<open>qs\<close> with some of these cuts closed.
\<close>

inductive joins :: "output_record list \<Rightarrow> output_record list \<Rightarrow> bool" where
  Joins_Nil: "joins [] []"
| Joins_same: "joins rs qs \<Longrightarrow> joins (rs @ [r]) (qs @ [r])"
| Joins_more: "joins (rs @ [Rec_output a]) qs \<Longrightarrow>
     joins (rs @ [Rec_output (a @ b)]) (qs @ [Rec_output b])"

inductive_cases joins_snocE: "joins (rs @ [r]) qs"

subsection \<open>What a restore may show\<close>

text \<open>
  Some moment of the session's life, seen from its files. Without a checkpoint it is a new
  terminal given the first \<open>q\<close> records; with one, which was made after the first \<open>a\<close> records, it
  is the checkpoint itself or the terminal reloaded from it, given the records from \<open>a\<close> to \<open>q\<close>.
\<close>

definition shown_screen :: "term_screen \<Rightarrow> term_screen" where
  "shown_screen s = s\<lparr>sc_scrollbackAnsi :=
     (if sc_scrollbackAnsi s \<noteq> [] then sc_scrollbackAnsi s
      else if md_alternateScreen (sc_modes s) then [] else sc_snapshotAnsi s)\<rparr>"

definition shows_up_to ::
  "('x, 'c) xterm \<Rightarrow> int \<Rightarrow> int \<Rightarrow> output_record list \<Rightarrow> session_dir \<Rightarrow> nat \<Rightarrow> term_screen \<Rightarrow> bool" where
  "shows_up_to X cols rows applied d q shown = (case sd_checkpoint d of
     Missing \<Rightarrow> (\<exists>rs. joins rs (take q applied)
       \<and> shown = shown_screen (screen_of X (run_records X rs (new_display X cols rows))))
   | Unreadable \<Rightarrow> False
   | Content c \<Rightarrow> (\<exists>a \<le> q. term_screen.truncate c = screen_after X cols rows applied a
       \<and> (a = q \<and> shown = shown_screen (screen_after X cols rows applied a)
          \<or> (\<exists>rs. joins rs (drop a (take q applied))
              \<and> shown = shown_screen (screen_of X (run_records X rs
                  (reloaded X (screen_after X cols rows applied a))))))))"

definition restored_past ::
  "('x, 'c) xterm \<Rightarrow> int \<Rightarrow> int \<Rightarrow> output_record list \<Rightarrow> session_dir \<Rightarrow> bool" where
  "restored_past X cols rows applied d = (case detectColdRestore X False d of
     None \<Rightarrow> sd_checkpoint d = Missing
   | Some info \<Rightarrow> (\<exists>q \<le> length applied.
       shows_up_to X cols rows applied d q (term_screen.truncate info)))"

definition restored_now ::
  "('x, 'c) xterm \<Rightarrow> int \<Rightarrow> int \<Rightarrow> output_record list \<Rightarrow> session_dir \<Rightarrow> bool" where
  "restored_now X cols rows applied d = (case detectColdRestore X False d of
     None \<Rightarrow> sd_checkpoint d = Missing \<and> applied = []
   | Some info \<Rightarrow>
       shows_up_to X cols rows applied d (length applied) (term_screen.truncate info))"

end
