(* ===== verification/Recovery.thy ===== *)
theory Recovery
  imports Checkpointing
begin

section \<open>Consistency of recovery\<close>

text \<open>
  The invariant behind \<open>recovery_consistent\<close>. On disk, the checkpoint is the screen after the
  first \<open>a\<close> records applied to the terminal, and the log, if it continues the checkpoint and its
  numbers are contiguous, holds the records from there up to some later one. While the manager
  may append, the log holds all of them up to the one from which the pending records start;
  after a failed write or a restart it may not append until the next full checkpoint.
\<close>

subsection \<open>Joined records\<close>

lemma joins_Nil_left: "joins [] qs = (qs = [])"
  by (auto elim: joins.cases intro: joins.intros)

lemma joins_take: "joins rs qs \<Longrightarrow> \<exists>p \<le> length qs. joins (take m rs) (take p qs)"
proof (induction rs qs rule: joins.induct)
  case Joins_Nil
  then show ?case by (auto intro: joins.intros)
next
  case (Joins_same rs qs r)
  show ?case
  proof (cases "m \<le> length rs")
    case True
    with Joins_same.IH obtain p where "p \<le> length qs" "joins (take m rs) (take p qs)" by blast
    with True show ?thesis by (intro exI [of _ p]) simp
  next
    case False
    with Joins_same.hyps show ?thesis
      by (intro exI [of _ "Suc (length qs)"]) (simp add: joins.Joins_same)
  qed
next
  case (Joins_more rs a qs b)
  show ?case
  proof (cases "m \<le> length rs")
    case True
    with Joins_more.IH obtain p where "p \<le> length qs" "joins (take m rs) (take p qs)" by auto
    with True show ?thesis by (intro exI [of _ p]) simp
  next
    case False
    with Joins_more.hyps show ?thesis
      by (intro exI [of _ "Suc (length qs)"]) (simp add: joins.Joins_more)
  qed
qed

lemma joins_append:
  assumes "joins rs qs" shows "joins rs' qs' \<Longrightarrow> joins (rs @ rs') (qs @ qs')"
proof (induction rs' qs' rule: joins.induct)
  case (Joins_same rs' qs' r)
  from joins.Joins_same [OF Joins_same.IH, of r] show ?case by simp
next
  case (Joins_more rs' a qs' b)
  from joins.Joins_more [of "rs @ rs'" a "qs @ qs'" b] Joins_more.IH show ?case by simp
qed (simp add: assms)

text \<open>A terminal for which the cuts of its input do not matter cannot tell joined records.\<close>

lemma joins_terminal:
  assumes cut: "\<And>a b t. xt_write X (a @ b) t = xt_write X b (xt_write X a t)"
  shows "joins rs qs \<Longrightarrow> fst (run_records X rs x) = fst (run_records X qs x)"
proof (induction rs qs rule: joins.induct)
  case (Joins_same rs qs r)
  then show ?case by (cases "run_records X rs x"; cases "run_records X qs x"; cases r) simp_all
next
  case (Joins_more rs a qs b)
  then show ?case by (cases "run_records X rs x"; cases "run_records X qs x") (simp add: cut)
qed simp

subsection \<open>Pending records\<close>

lemma coalesce_last: "coalesce_record (Rec_output data) (rs @ [z]) = (case z of
     Rec_output before \<Rightarrow>
       if length before < 64 * 1024 then rs @ [Rec_output (before @ data)] else rs @ [z, Rec_output data]
   | _ \<Rightarrow> rs @ [z, Rec_output data])"
  by (cases rs) (simp_all add: coalesce_record_def split: output_record.split)

lemma coalesce_cases:
  obtains "coalesce_record r rs = rs @ [r]"
  | rs0 a b where "r = Rec_output b" "rs = rs0 @ [Rec_output a]" "coalesce_record r rs = rs0 @ [Rec_output (a @ b)]"
proof (cases r)
  case (Rec_output b)
  show ?thesis
  proof (cases rs rule: rev_cases)
    case Nil
    then show ?thesis using that(1) by (simp add: coalesce_record_def Rec_output)
  next
    case (snoc rs0 z)
    show ?thesis
    proof (cases "\<exists>a. z = Rec_output a \<and> length a < 64 * 1024")
      case True
      then show ?thesis using that(2) snoc Rec_output by (auto simp: coalesce_last)
    next
      case False
      then have "coalesce_record r rs = rs @ [r]"
        by (cases z) (simp_all add: snoc Rec_output coalesce_last)
      then show ?thesis by (rule that(1))
    qed
  qed
qed (use that(1) in \<open>simp_all add: coalesce_record_def\<close>)

text \<open>Records the file can hold as they are.\<close>

definition storable :: "output_record \<Rightarrow> bool" where
  "storable r = (norm_record r = r \<and> record_units r)"

lemma storable_simps:
  "storable (Rec_output d) = (well_formed_text d = d \<and> code_units d)"
  "storable Rec_clear"
  "0 \<le> c \<Longrightarrow> c \<le> 65535 \<Longrightarrow> 0 \<le> r \<Longrightarrow> r \<le> 65535 \<Longrightarrow> storable (Rec_resize c r)"
  by (auto simp: storable_def clampU16_def)

lemma coalesce_storable:
  assumes "storable r" "\<forall>q \<in> set rs. storable q"
  shows "\<forall>q \<in> set (coalesce_record r rs). storable q"
  by (cases rule: coalesce_cases [of r rs])
    (use assms in \<open>auto simp: storable_simps code_units_def intro!: well_formed_append\<close>)

lemma coalesce_joins: "joins rs qs \<Longrightarrow> joins (coalesce_record r rs) (qs @ [r])"
  by (cases rule: coalesce_cases [of r rs]) (auto intro: joins.intros)

lemma map_norm_storable: "\<forall>r \<in> set rs. storable r \<Longrightarrow> map norm_record rs = rs"
  by (simp add: storable_def map_idI)

subsection \<open>Replay\<close>

lemma replay_record_runs:
  "\<not> he_disposed e \<Longrightarrow> \<exists>e'. replay_record X r e = Some e'
     \<and> display_of e' = run_record X r (display_of e) \<and> \<not> he_disposed e'"
  by (cases r) (auto simp: writeSync_def headless_resize_def headless_clear_def display_of_def)

lemma replay_runs:
  "\<not> he_disposed e \<Longrightarrow> \<exists>e'. replay_records X rs e = Some e'
     \<and> display_of e' = run_records X rs (display_of e) \<and> \<not> he_disposed e'"
proof (induction rs arbitrary: e)
  case (Cons r rs)
  obtain e1 where "replay_record X r e = Some e1" "display_of e1 = run_record X r (display_of e)"
    "\<not> he_disposed e1"
    using replay_record_runs [OF Cons.prems] by blast
  with Cons.IH [of e1] show ?case by simp
qed simp

lemma truncate_restored:
  "term_screen.truncate (coldRestoreInfoFromSnapshot s links cwd meta) = shown_screen s"
  by (simp add: coldRestoreInfoFromSnapshot_def term_screen.truncate_def shown_screen_def)

lemma truncate_snapshot: "term_screen.truncate (getSnapshot X e) = screen_of X (display_of e)"
  by (simp add: getSnapshot_def Let_def term_screen.truncate_def screen_of_def display_of_def)

lemma truncate_checkpoint_of:
  "term_screen.truncate (checkpoint_of d (getSnapshot X e) g now) = screen_of X (display_of e)"
  by (simp add: checkpoint_of_def getSnapshot_def Let_def term_screen.truncate_def screen_of_def
      display_of_def)

subsection \<open>The disk\<close>

lemma screen_after_more:
  "a \<le> length applied \<Longrightarrow> screen_after X cols rows (applied @ rs) a = screen_after X cols rows applied a"
  by (simp add: screen_after_def)

lemma drop_take_more: "a \<le> q \<Longrightarrow> q \<le> length applied \<Longrightarrow>
  drop a (take q (applied @ rs)) = drop a (take q applied)"
  by simp

text \<open>The checkpoint is the screen after \<open>a\<close> records.\<close>

definition checkpoint_at ::
  "('x, 'c) xterm \<Rightarrow> int \<Rightarrow> int \<Rightarrow> output_record list \<Rightarrow> nat \<Rightarrow> session_dir \<Rightarrow> bool" where
  "checkpoint_at X cols rows applied a d = (case sd_checkpoint d of
     Missing \<Rightarrow> a = 0
   | Unreadable \<Rightarrow> False
   | Content c \<Rightarrow> a \<le> length applied \<and> term_screen.truncate c = screen_after X cols rows applied a
       \<and> cf_generation c \<noteq> None)"

lemma checkpoint_at_le: "checkpoint_at X cols rows applied a d \<Longrightarrow> a \<le> length applied"
  by (auto simp: checkpoint_at_def split: stored.splits)

lemma checkpoint_at_more:
  "checkpoint_at X cols rows applied a d \<Longrightarrow> checkpoint_at X cols rows (applied @ rs) a d"
  by (auto simp: checkpoint_at_def screen_after_more split: stored.splits)

definition log_records :: "log_contents \<Rightarrow> output_record list" where
  "log_records c = concat (map lb_records (lc_batches c))"

definition log_leads :: "output_record list \<Rightarrow> nat \<Rightarrow> session_dir \<Rightarrow> bool" where
  "log_leads applied a d = (\<forall>b c. sd_log d = Some b \<longrightarrow> decodeTerminalHistoryLog b = Some c \<longrightarrow>
     log_continues (read_checkpoint d) (lc_generation c) \<longrightarrow>
     (\<exists>q. a \<le> q \<and> q \<le> length applied \<and> joins (log_records c) (drop a (take q applied))))"

lemma log_leads_more:
  assumes "log_leads applied a d" shows "log_leads (applied @ rs) a d"
  unfolding log_leads_def
proof (intro allI impI)
  fix b c
  assume "sd_log d = Some b" "decodeTerminalHistoryLog b = Some c"
    "log_continues (read_checkpoint d) (lc_generation c)"
  with assms obtain q where "a \<le> q" "q \<le> length applied" "joins (log_records c) (drop a (take q applied))"
    by (auto simp: log_leads_def)
  then show "\<exists>q. a \<le> q \<and> q \<le> length (applied @ rs)
      \<and> joins (log_records c) (drop a (take q (applied @ rs)))"
    by (intro exI [of _ q]) simp
qed

definition fresh_meta :: "int \<Rightarrow> int \<Rightarrow> session_dir \<Rightarrow> bool" where
  "fresh_meta cols rows d = ((\<exists>m. sd_meta d = Content m \<and> sm_endedAt m = None
      \<and> sm_cols m = cols \<and> sm_rows m = rows) \<and> sd_scrollback d = None)"

definition disk_consistent ::
  "('x, 'c) xterm \<Rightarrow> int \<Rightarrow> int \<Rightarrow> output_record list \<Rightarrow> nat \<Rightarrow> session_dir \<Rightarrow> bool" where
  "disk_consistent X cols rows applied a d =
     (fresh_meta cols rows d \<and> checkpoint_at X cols rows applied a d \<and> log_leads applied a d)"

lemma disk_consistent_more:
  "disk_consistent X cols rows applied a d \<Longrightarrow> disk_consistent X cols rows (applied @ rs) a d"
  by (simp add: disk_consistent_def checkpoint_at_more log_leads_more)

text \<open>What is restored from such a directory.\<close>

definition base_display ::
  "('x, 'c) xterm \<Rightarrow> int \<Rightarrow> int \<Rightarrow> output_record list \<Rightarrow> nat \<Rightarrow> session_dir \<Rightarrow> 'x display" where
  "base_display X cols rows applied a d = (case sd_checkpoint d of
     Content c \<Rightarrow> reloaded X (screen_after X cols rows applied a)
   | _ \<Rightarrow> new_display X cols rows)"

lemma base_emulator_display:
  assumes "checkpoint_at X cols rows applied a d" "sm_cols m = cols" "sm_rows m = rows"
  shows "\<exists>e. base_emulator X m (read_checkpoint d) = Some e
    \<and> display_of e = base_display X cols rows applied a d \<and> \<not> he_disposed e"
proof (cases "sd_checkpoint d")
  case Missing
  with assms show ?thesis
    by (simp add: base_display_def read_checkpoint_def base_emulator_def new_headless_def
        display_of_def new_display_def)
next
  case (Content c)
  then have s: "term_screen.truncate c = screen_after X cols rows applied a"
    using assms(1) by (simp add: checkpoint_at_def)
  have "sc_scrollbackAnsi c = sc_scrollbackAnsi (screen_after X cols rows applied a)"
    "sc_rehydrateSequences c = sc_rehydrateSequences (screen_after X cols rows applied a)"
    "sc_snapshotAnsi c = sc_snapshotAnsi (screen_after X cols rows applied a)"
    "sc_cols c = sc_cols (screen_after X cols rows applied a)"
    "sc_rows c = sc_rows (screen_after X cols rows applied a)"
    unfolding s [symmetric] by (simp_all add: term_screen.truncate_def)
  then show ?thesis
    by (simp add: Content read_checkpoint_def base_emulator_def writeSync_def new_headless_def
        base_display_def reloaded_def display_of_def new_display_def)
qed (use assms(1) in \<open>simp add: checkpoint_at_def\<close>)

lemma shows_replayed:
  assumes "checkpoint_at X cols rows applied a d" "a \<le> q" "joins rs (drop a (take q applied))"
    "shown = shown_screen (screen_of X (run_records X rs (base_display X cols rows applied a d)))"
  shows "shows_up_to X cols rows applied d q shown"
proof (cases "sd_checkpoint d")
  case Missing
  with assms show ?thesis by (auto simp: shows_up_to_def checkpoint_at_def base_display_def)
next
  case (Content c)
  with assms have "term_screen.truncate c = screen_after X cols rows applied a"
    by (simp add: checkpoint_at_def)
  with Content assms(2-) show ?thesis by (auto simp: shows_up_to_def base_display_def)
qed (use assms(1) in \<open>simp add: checkpoint_at_def\<close>)

lemma replayed_log:
  assumes "disk_consistent X cols rows applied a d" "sd_meta d = Content m"
    "sd_log d = Some b" "decodeTerminalHistoryLog b = Some c" "lc_batches c \<noteq> []"
    "log_continues (read_checkpoint d) (lc_generation c)"
  obtains info where "detectColdRestore X False d = Some info"
    "term_screen.truncate info = shown_screen (screen_of X
       (run_records X (log_records c) (base_display X cols rows applied a d)))"
proof -
  have m: "sm_endedAt m = None" "sm_cols m = cols" "sm_rows m = rows"
    using assms(1,2) by (auto simp: disk_consistent_def fresh_meta_def)
  obtain e where e: "base_emulator X m (read_checkpoint d) = Some e"
    "display_of e = base_display X cols rows applied a d" "\<not> he_disposed e"
    using base_emulator_display m(2,3) assms(1) unfolding disk_consistent_def by blast
  obtain e' where e': "replay_records X (log_records c) e = Some e'"
    "display_of e' = run_records X (log_records c) (display_of e)"
    using replay_runs [OF e(3)] by blast
  then obtain info where "restoreFromIncrementalLog X d m (read_checkpoint d) = Some info"
    "term_screen.truncate info = shown_screen (screen_of X (display_of e'))"
    using assms(3-) e(1)
    by (simp add: restoreFromIncrementalLog_def log_records_def Let_def truncate_restored
        truncate_snapshot)
  then show ?thesis
    using e(2) e'(2) m(1) assms(2)
    by (intro that [of info]) (simp_all add: detectColdRestore_def Let_def)
qed

text \<open>Without a log that continues it, the checkpoint is shown.\<close>

lemma restored_checkpoint:
  assumes "disk_consistent X cols rows applied a d"
    "\<And>m. restoreFromIncrementalLog X d m (read_checkpoint d) = None"
  shows "case detectColdRestore X False d of None \<Rightarrow> sd_checkpoint d = Missing
    | Some info \<Rightarrow> shows_up_to X cols rows applied d a (term_screen.truncate info)"
proof -
  obtain m where m: "sd_meta d = Content m" "sm_endedAt m = None" and sb: "sd_scrollback d = None"
    and ca: "checkpoint_at X cols rows applied a d"
    using assms(1) by (auto simp: disk_consistent_def fresh_meta_def)
  show ?thesis
  proof (cases "sd_checkpoint d")
    case Missing
    with assms(2) m sb show ?thesis
      by (simp add: detectColdRestore_def detectColdRestoreFromScrollback_def read_checkpoint_def)
  next
    case (Content c)
    with ca have "term_screen.truncate c = screen_after X cols rows applied a"
      by (simp add: checkpoint_at_def)
    with assms(2) m Content show ?thesis
      by (auto simp: detectColdRestore_def read_checkpoint_def truncate_restored shows_up_to_def)
  qed (use ca in \<open>simp add: checkpoint_at_def\<close>)
qed

lemma unreplayed_log:
  assumes "restoreFromIncrementalLog X d m (read_checkpoint d) = None" "disk_consistent X cols rows applied a d"
    "sd_meta d = Content m"
  shows "restoreFromIncrementalLog X d m' (read_checkpoint d) = None"
proof (rule ccontr)
  assume "restoreFromIncrementalLog X d m' (read_checkpoint d) \<noteq> None"
  then obtain b c where "sd_log d = Some b" "decodeTerminalHistoryLog b = Some c" "lc_batches c \<noteq> []"
    "log_continues (read_checkpoint d) (lc_generation c)"
    by (auto simp: restoreFromIncrementalLog_def split: option.splits if_splits)
  moreover obtain e where "base_emulator X m (read_checkpoint d) = Some e" "\<not> he_disposed e"
    using base_emulator_display [of X cols rows applied a d m] assms(2,3)
    by (auto simp: disk_consistent_def fresh_meta_def)
  moreover obtain e' where "replay_records X (log_records c) e = Some e'"
    using replay_runs \<open>\<not> he_disposed e\<close> by blast
  ultimately show False
    using assms(1) by (simp add: restoreFromIncrementalLog_def log_records_def Let_def)
qed

lemma consistent_restores:
  assumes dc: "disk_consistent X cols rows applied a d"
  shows "restored_past X cols rows applied d"
proof -
  obtain m where m: "sd_meta d = Content m"
    and ca: "checkpoint_at X cols rows applied a d" and ll: "log_leads applied a d"
    using dc by (auto simp: disk_consistent_def fresh_meta_def)
  show ?thesis
  proof (cases "restoreFromIncrementalLog X d m (read_checkpoint d)")
    case None
    have "restored_past X cols rows applied d = (case detectColdRestore X False d of
        None \<Rightarrow> sd_checkpoint d = Missing
      | Some info \<Rightarrow> \<exists>q \<le> length applied. shows_up_to X cols rows applied d q (term_screen.truncate info))"
      by (simp add: restored_past_def)
    with restored_checkpoint [OF dc unreplayed_log [OF None dc m]] checkpoint_at_le [OF ca]
    show ?thesis by (auto split: option.splits)
  next
    case (Some info)
    then obtain b c where b: "sd_log d = Some b" and c: "decodeTerminalHistoryLog b = Some c"
        "lc_batches c \<noteq> []" and g: "log_continues (read_checkpoint d) (lc_generation c)"
      by (auto simp: restoreFromIncrementalLog_def split: option.splits if_splits)
    then obtain q where q: "a \<le> q" "q \<le> length applied" "joins (log_records c) (drop a (take q applied))"
      using ll by (auto simp: log_leads_def)
    obtain info' where "detectColdRestore X False d = Some info'"
      "term_screen.truncate info' = shown_screen (screen_of X
         (run_records X (log_records c) (base_display X cols rows applied a d)))"
      using replayed_log [OF dc m b c g] by blast
    with shows_replayed [OF ca q(1,3)] q(2) show ?thesis by (auto simp: restored_past_def)
  qed
qed

subsection \<open>Headers\<close>

lemma decodeLogHeader_take: "9 \<le> length b \<Longrightarrow> decodeLogHeader (take 9 b) = decodeLogHeader b"
  by (simp add: decodeLogHeader_def LOG_HEADER_BYTES_def rd_le32_def min_def drop_take)

lemma decodeLogHeader_bound: "decodeLogHeader b = Some g \<Longrightarrow> uint32 g = g"
  using rd_be32_bound [of "rev (take 4 (drop 5 b))"]
  by (auto simp: decodeLogHeader_def rd_le32_def uint32_def split: if_splits)

lemma decode_generation:
  "decodeTerminalHistoryLog b = Some c \<Longrightarrow> decodeLogHeader b = Some (lc_generation c)"
  by (auto simp: decodeTerminalHistoryLog_def split: option.splits)

lemma log_file_header: "decodeLogHeader (log_file g bs @ r) = Some (uint32 g)"
  by (simp add: log_file_def decode_header)

lemma decode_take_header:
  "decodeTerminalHistoryLog (take k (encodeLogHeader g)) = (if k < 9 then None
     else Some \<lparr>lc_generation = uint32 g, lc_batches = [], lc_truncatedTail = False\<rparr>)"
proof (cases "k < 9")
  case True
  then show ?thesis
    by (simp add: decodeTerminalHistoryLog_def decodeLogHeader_def LOG_HEADER_BYTES_def length_header)
next
  case False
  then have "take k (encodeLogHeader g) = encodeLogHeader g @ []" by (simp add: length_header)
  moreover have "log_loop [] [] = Some ([], False)" by (subst log_loop.simps) simp
  ultimately show ?thesis
    using False decode_header [of g "[]"]
    by (simp add: decodeTerminalHistoryLog_def length_header LOG_HEADER_BYTES_def)
qed

lemma uint32_less: "uint32 g \<noteq> g + 1"
  using mod_less_eq_dividend [of g "2 ^ 32"] unfolding uint32_def by linarith

lemma or_zero_Some [simp]: "or_zero (Some n) = n"
  by (simp add: or_zero_def)

subsection \<open>Writers\<close>

text \<open>A writer that has looked at the log knows the generation in its header.\<close>

definition writer_knows :: "session_dir \<Rightarrow> nat \<Rightarrow> bool" where
  "writer_knows d g = (\<forall>b. sd_log d = Some b \<longrightarrow>
     decodeLogHeader b = None \<or> decodeLogHeader b = Some (uint32 g))"

definition writer_ok :: "session_history \<Rightarrow> bool" where
  "writer_ok h = (\<exists>w. sh_writer h = Some w
     \<and> (w = \<lparr>sw_logGeneration = None, sw_logBytes = None\<rparr>
        \<or> (\<exists>g n. w = \<lparr>sw_logGeneration = Some g, sw_logBytes = Some n\<rparr> \<and> writer_knows (sh_dir h) g)))"

lemma resolved_writer:
  assumes "writer_ok h"
  obtains w0 g n where "sh_writer h = Some w0"
    and "resolveLogState (sh_dir h) w0 = \<lparr>sw_logGeneration = Some g, sw_logBytes = Some n\<rparr>"
    and "writer_knows (sh_dir h) g"
proof -
  obtain w where w: "sh_writer h = Some w"
    and c: "w = \<lparr>sw_logGeneration = None, sw_logBytes = None\<rparr>
        \<or> (\<exists>g n. w = \<lparr>sw_logGeneration = Some g, sw_logBytes = Some n\<rparr> \<and> writer_knows (sh_dir h) g)"
    using assms by (auto simp: writer_ok_def)
  let ?d = "sh_dir h"
  from c show ?thesis
  proof (elim disjE exE conjE)
    assume u: "w = \<lparr>sw_logGeneration = None, sw_logBytes = None\<rparr>"
    define v where "v = (case sd_log ?d of None \<Rightarrow> None
        | Some b \<Rightarrow> if LOG_HEADER_BYTES \<le> length b then decodeLogHeader (take LOG_HEADER_BYTES b) else None)"
    have known: "sd_log ?d = Some b \<Longrightarrow> decodeLogHeader b = v" for b
      by (cases "9 \<le> length b")
        (simp_all add: v_def LOG_HEADER_BYTES_def decodeLogHeader_take, simp add: decodeLogHeader_def
          LOG_HEADER_BYTES_def)
    have r: "resolveLogState ?d w = (case v of
        Some g \<Rightarrow> w\<lparr>sw_logGeneration := Some g, sw_logBytes := map_option length (sd_log ?d)\<rparr>
      | None \<Rightarrow> w\<lparr>sw_logBytes := Some 0,
          sw_logGeneration := Some (or_zero (readCheckpointGeneration ?d))\<rparr>)"
      unfolding resolveLogState_def v_def [symmetric] by (simp add: u split: option.split)
    show ?thesis
    proof (cases v)
      case None
      then show ?thesis
        using known by (intro that [OF w, of "or_zero (readCheckpointGeneration ?d)" 0])
          (auto simp: r [unfolded u] u writer_knows_def)
    next
      case (Some g)
      then obtain b where b: "sd_log ?d = Some b" by (auto simp: v_def split: option.splits)
      with Some known have "uint32 g = g" by (auto intro: decodeLogHeader_bound)
      with Some b known show ?thesis
        by (intro that [OF w, of g "length b"])
          (auto simp: r [unfolded u] u writer_knows_def)
    qed
  next
    fix g n assume "w = \<lparr>sw_logGeneration = Some g, sw_logBytes = Some n\<rparr>" "writer_knows ?d g"
    then show ?thesis by (intro that [OF w, of g n]) (simp_all add: resolveLogState_def)
  qed
qed

text \<open>
  A writer that may append: the log is whole and holds the records \<open>P\<close>, of batches that were
  taken with numbers up to \<open>n\<close>.
\<close>

definition log_ready ::
  "session_dir \<Rightarrow> session_writer \<Rightarrow> nat \<Rightarrow> output_record list \<Rightarrow> bool" where
  "log_ready d w seq P =
     (w = \<lparr>sw_logGeneration = Some 0, sw_logBytes = Some 0\<rparr> \<and> sd_log d = None
        \<and> sd_checkpoint d = Missing \<and> P = []
      \<or> (\<exists>g n bs. w = \<lparr>sw_logGeneration = Some g, sw_logBytes = Some n\<rparr> \<and> n \<noteq> 0
           \<and> sd_log d = Some (log_file g bs)
           \<and> (g < 2 ^ 32 \<longrightarrow> log_continues (read_checkpoint d) g)
           \<and> (\<forall>b \<in> set bs. \<forall>r \<in> set (snd b). storable r)
           \<and> (\<forall>f \<in> set (frames_of bs). frame_fits f)
           \<and> (\<forall>b \<in> set bs. fst b \<le> seq)
           \<and> (contiguous_batches bs \<longrightarrow> log_continues (read_checkpoint d) (uint32 g)
              \<longrightarrow> joins (concat (map snd bs)) P)))"

definition may_append :: "session_history \<Rightarrow> nat \<Rightarrow> output_record list \<Rightarrow> bool" where
  "may_append h seq P = (\<exists>w. sh_writer h = Some w \<and> log_ready (sh_dir h) w seq P)"

lemma log_ready_later: "log_ready d w seq P \<Longrightarrow> seq \<le> seq' \<Longrightarrow> log_ready d w seq' P"
  unfolding log_ready_def by (elim disjE exE conjE) (simp, fastforce)

lemma may_append_later: "may_append h seq P \<Longrightarrow> seq \<le> seq' \<Longrightarrow> may_append h seq' P"
  unfolding may_append_def by (blast intro: log_ready_later)

lemma may_append_writer_ok: "may_append h seq P \<Longrightarrow> writer_ok h"
  using log_file_header [of _ _ "[]"]
  by (auto simp: may_append_def log_ready_def writer_ok_def writer_knows_def)

subsection \<open>A full checkpoint\<close>

text \<open>A write fails, or it is done.\<close>

lemma disk_do_cases:
  "(\<exists>m. io = Some (0, m) \<and> disk_do a io d = (False, None, interrupted m a d))
   \<or> (\<exists>io'. disk_do a io d = (True, io', performed a d))"
proof (cases io)
  case (Some p)
  then show ?thesis by (cases p; cases "fst p") (auto simp: disk_do_def)
qed (simp add: disk_do_def)

lemma log_leads_other_generation:
  assumes "writer_knows d g" "sd_log d' = sd_log d" "read_checkpoint d' = Some c"
    "cf_generation c = Some (g + 1)"
  shows "log_leads applied a d'"
proof -
  have "\<not> log_continues (read_checkpoint d') (lc_generation l)"
    if "sd_log d' = Some b" "decodeTerminalHistoryLog b = Some l" for b l
  proof -
    have "lc_generation l = uint32 g"
      using decode_generation [OF that(2)] assms(1,2) that(1)
      by (metis option.distinct(1) option.inject writer_knows_def)
    then show ?thesis using assms(3,4) uint32_less [of g] by (simp add: log_continues_def)
  qed
  then show ?thesis by (auto simp: log_leads_def)
qed

lemma log_leads_header:
  "a \<le> length applied \<Longrightarrow> sd_log d = Some (take k (encodeLogHeader g)) \<Longrightarrow> log_leads applied a d"
  by (auto simp: log_leads_def decode_take_header log_records_def joins_Nil_left split: if_splits
      intro!: exI [of _ a])

lemma checkpoint_consistent:
  assumes dc: "disk_consistent X cols rows applied a (sh_dir h)"
    and w: "\<not> sh_disabled h \<Longrightarrow> writer_ok h"
    and t: "display_of e = run_records X applied (new_display X cols rows)"
    and h': "h' = checkpoint io now (getSnapshot X e) h"
  shows "\<exists>a'. disk_consistent X cols rows applied a' (sh_dir h')
    \<and> (\<not> sh_disabled h' \<longrightarrow> may_append h' seq (drop a' applied))"
proof (cases "sh_disabled h")
  case True
  then show ?thesis using dc h' by (auto simp: checkpoint_def)
next
  case False
  let ?a = "length applied"
  obtain w0 g n where w0: "sh_writer h = Some w0"
    and r: "resolveLogState (sh_dir h) w0 = \<lparr>sw_logGeneration = Some g, sw_logBytes = Some n\<rparr>"
    and k: "writer_knows (sh_dir h) g"
    using resolved_writer [OF w [OF False]] by blast
  define ck where "ck = checkpoint_of (sh_dir h) (getSnapshot X e) (g + 1) now"
  define d1 where "d1 = (sh_dir h)\<lparr>sd_checkpoint := Content ck\<rparr>"
  have ck: "cf_generation ck = Some (g + 1)" "term_screen.truncate ck = screen_after X cols rows applied ?a"
    unfolding ck_def truncate_checkpoint_of t by (simp_all add: checkpoint_of_def screen_after_def)
  have base: "checkpoint_at X cols rows applied ?a d" if "sd_checkpoint d = Content ck" for d
    using that by (simp add: checkpoint_at_def ck)
  have fresh: "fresh_meta cols rows d" if "sd_meta d = sd_meta (sh_dir h)"
    "sd_scrollback d = sd_scrollback (sh_dir h)" for d
    using dc that by (simp add: disk_consistent_def fresh_meta_def)
  have d1: "disk_consistent X cols rows applied ?a d1"
    using base [of d1] fresh [of d1] log_leads_other_generation [OF k, of d1 ck] ck
    by (simp add: disk_consistent_def d1_def read_checkpoint_def)
  have hd: "disk_consistent X cols rows applied ?a
      (d1\<lparr>sd_log := Some (take j (encodeLogHeader (g + 1)))\<rparr>)" for j
    using base fresh log_leads_header
      [OF le_refl, of "d1\<lparr>sd_log := Some (take j (encodeLogHeader (g + 1)))\<rparr>" j "g + 1"]
    by (simp add: disk_consistent_def d1_def)
  show ?thesis
  proof (cases "\<exists>m. io = Some (0, m)")
    case True
    then obtain m where m: "io = Some (0, m)" by blast
    have "interrupted m (Replace_checkpoint ck') d = d" for ck' d by (cases m) simp_all
    then have "sh_dir h' = sh_dir h" "sh_disabled h'"
      using False w0 r m h' by (simp_all add: checkpoint_def disk_do_def Let_def handleWriteError_def)
    with dc show ?thesis by auto
  next
    case False
    then obtain io1 where io1: "disk_do (Replace_checkpoint ck) io (sh_dir h) = (True, io1, d1)"
      using disk_do_cases [of io "Replace_checkpoint ck" "sh_dir h"] by (auto simp: d1_def)
    show ?thesis
    proof (cases "\<exists>m. io1 = Some (0, m)")
      case True
      then obtain m where m: "io1 = Some (0, m)" by blast
      then have "sh_dir h' = interrupted m (Write_log (encodeLogHeader (g + 1))) d1" "sh_disabled h'"
        using \<open>\<not> sh_disabled h\<close> w0 r io1 [unfolded ck_def] h'
        by (simp_all add: checkpoint_def disk_do_def [of "Write_log _"] Let_def handleWriteError_def)
      with d1 hd show ?thesis by (cases m) auto
    next
      case False
      let ?d2 = "d1\<lparr>sd_log := Some (encodeLogHeader (g + 1))\<rparr>"
      obtain io2 where io2: "disk_do (Write_log (encodeLogHeader (g + 1))) io1 d1 = (True, io2, ?d2)"
        using False disk_do_cases [of io1 "Write_log (encodeLogHeader (g + 1))" d1] by auto
      have "sh_dir h' = ?d2" "\<not> sh_disabled h'"
        "sh_writer h' = Some \<lparr>sw_logGeneration = Some (g + 1), sw_logBytes = Some LOG_HEADER_BYTES\<rparr>"
        using \<open>\<not> sh_disabled h\<close> w0 r io1 [unfolded ck_def] io2 h'
        by (simp_all add: checkpoint_def Let_def)
      moreover have "disk_consistent X cols rows applied ?a ?d2"
        using hd [of 9] by (simp add: length_header)
      moreover have "encodeLogHeader (g + 1) = log_file (g + 1) []"
        by (simp add: log_file_def frames_of_def)
      ultimately show ?thesis
        by (intro exI [of _ ?a])
          (auto simp: may_append_def log_ready_def LOG_HEADER_BYTES_def frames_of_def d1_def
            read_checkpoint_def log_continues_def ck(1) joins_Nil_left intro!: exI [of _ "[]"])
    qed
  qed
qed

subsection \<open>An append\<close>

lemma stored_records:
  "\<forall>b \<in> set bs. \<forall>r \<in> set (snd b). storable r \<Longrightarrow>
   concat (map lb_records (stored_batches bs)) = concat (map snd bs)"
  by (induction bs) (auto simp: stored_batches_def map_norm_storable)

lemma batch_units_storable: "\<forall>b \<in> set bs. \<forall>r \<in> set (snd b). storable r \<Longrightarrow> batch_units bs"
  by (fastforce simp: batch_units_def storable_def)

lemma disk_consistent_log:
  assumes "disk_consistent X cols rows applied a d" "log_leads applied a (d\<lparr>sd_log := l\<rparr>)"
  shows "disk_consistent X cols rows applied a (d\<lparr>sd_log := l\<rparr>)"
  using assms by (simp add: disk_consistent_def fresh_meta_def checkpoint_at_def)

lemma torn_leads:
  assumes bs: "\<forall>b \<in> set bs. \<forall>r \<in> set (snd b). storable r" "\<forall>f \<in> set (frames_of bs). frame_fits f"
    and recs: "\<forall>r \<in> set recs. storable r" "\<forall>f \<in> set (batch_frames seq recs). frame_fits f"
    and leads: "contiguous_batches bs \<longrightarrow> log_continues (read_checkpoint d) (uint32 g) \<longrightarrow>
      joins (concat (map snd bs)) (drop a A)" and a: "a \<le> length A"
    and rep: "joins recs B"
  shows "log_leads (A @ B) a (d\<lparr>sd_log := Some (log_file g bs
     @ take k (concat (map frame_bytes (batch_frames seq recs))))\<rparr>)"
  unfolding log_leads_def
proof (intro allI impI)
  let ?log = "log_file g bs @ take k (concat (map frame_bytes (batch_frames seq recs)))"
  fix b c
  assume "sd_log (d\<lparr>sd_log := Some ?log\<rparr>) = Some b" and "decodeTerminalHistoryLog b = Some c"
    and lc: "log_continues (read_checkpoint (d\<lparr>sd_log := Some ?log\<rparr>)) (lc_generation c)"
  then have dec: "decodeTerminalHistoryLog ?log = Some c" by simp
  have u: "batch_units (bs @ [(seq, recs)])" "\<forall>f \<in> set (frames_of (bs @ [(seq, recs)])). frame_fits f"
    using bs recs by (auto intro!: batch_units_storable simp: storable_def batch_units_def)
  obtain n where "decodeTerminalHistoryLog ?log =
      (if contiguous_batches (bs @ torn_batch n (seq, recs))
       then Some \<lparr>lc_generation = uint32 g, lc_batches = stored_batches (bs @ torn_batch n (seq, recs)),
              lc_truncatedTail = (length (concat (map frame_bytes (take n (batch_frames seq recs))))
                \<noteq> min k (length (concat (map frame_bytes (batch_frames seq recs)))))\<rparr>
       else None)"
    using decode_log_torn [OF u, of g k] by blast
  with dec have cont: "contiguous_batches (bs @ torn_batch n (seq, recs))"
    and c: "lc_generation c = uint32 g" "lc_batches c = stored_batches (bs @ torn_batch n (seq, recs))"
    by (auto split: if_splits)
  define m where "m = (if n = 0 then 0 else n - 1)"
  have torn: "concat (map snd (torn_batch n (seq, recs))) = take m recs"
    by (simp add: torn_batch_def m_def)
  have st: "\<forall>b \<in> set (bs @ torn_batch n (seq, recs)). \<forall>r \<in> set (snd b). storable r"
    using bs(1) recs(1) by (auto simp: torn_batch_def dest: in_set_takeD)
  have "contiguous_batches bs" using cont by (auto simp: torn_batch_def contiguous_batches_snoc split: if_splits)
  moreover have "log_continues (read_checkpoint d) (uint32 g)"
    using lc by (simp add: c read_checkpoint_def)
  ultimately have "joins (concat (map snd bs)) (drop a A)" using leads by blast
  moreover obtain p where p: "p \<le> length B" "joins (take m recs) (take p B)"
    using joins_take [OF rep] by blast
  moreover have "log_records c = concat (map snd bs) @ take m recs"
    using stored_records [OF st] by (simp add: log_records_def c(2) torn)
  ultimately show "\<exists>q. a \<le> q \<and> q \<le> length (A @ B) \<and> joins (log_records c) (drop a (take q (A @ B)))"
    using a by (intro exI [of _ "length A + p"]) (simp add: joins_append)
qed

text \<open>The second write of an append, onto a log that is whole.\<close>

lemma append_frames_consistent:
  assumes dc: "disk_consistent X cols rows (A @ B) a d"
    and d: "sd_log d = Some (log_file g bs)"
    and bs: "\<forall>b \<in> set bs. \<forall>r \<in> set (snd b). storable r" "\<forall>f \<in> set (frames_of bs). frame_fits f"
    and recs: "\<forall>r \<in> set recs. storable r" "encodeLogBatch seq recs = Inr batch"
    and leads: "contiguous_batches bs \<longrightarrow> log_continues (read_checkpoint d) (uint32 g) \<longrightarrow>
      joins (concat (map snd bs)) (drop a A)" and a: "a \<le> length A"
    and rep: "joins recs B" and gen: "g < 2 ^ 32 \<longrightarrow> log_continues (read_checkpoint d) g"
    and sq: "\<forall>b \<in> set bs. fst b \<le> seq"
  shows "disk_consistent X cols rows (A @ B) a (interrupted m (Append_log batch) d)"
    and "n \<noteq> 0 \<Longrightarrow> disk_consistent X cols rows (A @ B) a (performed (Append_log batch) d)
      \<and> log_ready (performed (Append_log batch) d)
          \<lparr>sw_logGeneration = Some g, sw_logBytes = Some n\<rparr> seq (drop a (A @ B))"
proof -
  have fr: "\<forall>f \<in> set (batch_frames seq recs). frame_fits f"
    and batch: "batch = concat (map frame_bytes (batch_frames seq recs))"
    using recs(2) by (simp_all add: encodeLogBatch_frames)
  have torn: "disk_consistent X cols rows (A @ B) a
      (d\<lparr>sd_log := Some (log_file g bs @ take k batch)\<rparr>)" for k
    unfolding batch by (intro disk_consistent_log [OF dc] torn_leads bs recs fr leads rep a)
  then show "disk_consistent X cols rows (A @ B) a (interrupted m (Append_log batch) d)"
    using dc by (cases m) (simp_all add: d)
  assume n: "n \<noteq> 0"
  have "joins (concat (map snd (bs @ [(seq, recs)]))) (drop a (A @ B))"
    if "contiguous_batches (bs @ [(seq, recs)])" "log_continues (read_checkpoint d) (uint32 g)"
    using leads that rep a by (auto simp: contiguous_batches_snoc intro: joins_append)
  then have "log_ready (d\<lparr>sd_log := Some (log_file g (bs @ [(seq, recs)]))\<rparr>)
      \<lparr>sw_logGeneration = Some g, sw_logBytes = Some n\<rparr> seq (drop a (A @ B))"
    unfolding log_ready_def
    using n bs recs(1) fr gen sq
    by (intro disjI2 exI [of _ g] exI [of _ n] exI [of _ "bs @ [(seq, recs)]"])
      (auto simp: read_checkpoint_def)
  moreover have "performed (Append_log batch) d = d\<lparr>sd_log := Some (log_file g (bs @ [(seq, recs)]))\<rparr>"
    by (simp add: d batch log_file_def)
  ultimately show "disk_consistent X cols rows (A @ B) a (performed (Append_log batch) d)
      \<and> log_ready (performed (Append_log batch) d)
          \<lparr>sw_logGeneration = Some g, sw_logBytes = Some n\<rparr> seq (drop a (A @ B))"
    using torn [of "length batch"] by (simp add: d)
qed

lemma append_write_consistent:
  assumes dc: "disk_consistent X cols rows (A @ B) a d"
    and ready: "sd_log d = Some (log_file g bs)" "n \<noteq> 0"
    and bs: "\<forall>b \<in> set bs. \<forall>r \<in> set (snd b). storable r" "\<forall>f \<in> set (frames_of bs). frame_fits f"
    and recs: "\<forall>r \<in> set recs. storable r" "encodeLogBatch seq recs = Inr batch"
    and leads: "contiguous_batches bs \<longrightarrow> log_continues (read_checkpoint d) (uint32 g) \<longrightarrow>
      joins (concat (map snd bs)) (drop a A)" and a: "a \<le> length A"
    and rep: "joins recs B" and gen: "g < 2 ^ 32 \<longrightarrow> log_continues (read_checkpoint d) g"
    and sq: "\<forall>b \<in> set bs. fst b \<le> seq"
    and h: "h = h0\<lparr>sh_writer := Some w, sh_dir := d\<rparr>"
      "w = \<lparr>sw_logGeneration = Some g, sw_logBytes = Some n\<rparr>"
  shows "\<exists>h'. (case disk_do (Append_log batch) io d of (ok2, _, d2) \<Rightarrow>
        if ok2
        then (Append_ok, h\<lparr>sh_dir := d2, sh_writer := Some (w\<lparr>sw_logBytes :=
               Some (or_zero (sw_logBytes w) + length batch)\<rparr>)\<rparr>)
        else (Append_ok, handleWriteError (h\<lparr>sh_dir := d2\<rparr>))) = (Append_ok, h')
      \<and> disk_consistent X cols rows (A @ B) a (sh_dir h')
      \<and> (\<not> sh_disabled h' \<longrightarrow> may_append h' seq (drop a (A @ B)))"
proof -
  note fin = append_frames_consistent [OF dc ready(1) bs recs leads a rep gen sq]
  consider m where "disk_do (Append_log batch) io d = (False, None, interrupted m (Append_log batch) d)"
    | io' where "disk_do (Append_log batch) io d = (True, io', performed (Append_log batch) d)"
    using disk_do_cases [of io "Append_log batch" d] by blast
  then show ?thesis
  proof cases
    case (1 m)
    then show ?thesis using fin(1) [of m] by (simp add: handleWriteError_def)
  next
    case (2 io')
    have "n + length batch \<noteq> 0" using ready(2) by simp
    from 2 fin(2) [OF this] show ?thesis by (simp add: h may_append_def del: drop_append)
  qed
qed

lemma append_consistent:
  assumes dc: "disk_consistent X cols rows (A @ B) a (sh_dir h)" and a: "a \<le> length A"
    and w: "may_append h seq0 (drop a A)" and sq: "seq0 \<le> seq"
    and rep: "joins recs B" and recs: "\<forall>r \<in> set recs. storable r"
    and en: "\<not> sh_disabled h" "recs \<noteq> []"
  shows "appendIncrements io seq recs h = (Needs_checkpoint, h)
    \<or> (\<exists>h'. appendIncrements io seq recs h = (Append_ok, h')
        \<and> disk_consistent X cols rows (A @ B) a (sh_dir h')
        \<and> (\<not> sh_disabled h' \<longrightarrow> may_append h' seq (drop a (A @ B))))"
proof -
  obtain w0 where w0: "sh_writer h = Some w0" and ready: "log_ready (sh_dir h) w0 seq (drop a A)"
    using may_append_later [OF w sq] by (auto simp: may_append_def)
  have res: "resolveLogState (sh_dir h) w0 = w0"
    using ready by (auto simp: log_ready_def resolveLogState_def)
  have h: "h\<lparr>sh_writer := Some w0\<rparr> = h" using w0 by simp
  consider e where "encodeLogBatch seq recs = Inl e"
    | batch where "encodeLogBatch seq recs = Inr batch"
        "LOG_MAX_BYTES < max (or_zero (sw_logBytes w0)) LOG_HEADER_BYTES + length batch"
    | (go) batch where "encodeLogBatch seq recs = Inr batch"
        "\<not> LOG_MAX_BYTES < max (or_zero (sw_logBytes w0)) LOG_HEADER_BYTES + length batch"
    by (cases "encodeLogBatch seq recs") auto
  then show ?thesis
  proof cases
    case 1
    then show ?thesis using dc en w0 by (simp add: appendIncrements_def res h handleWriteError_def)
  next
    case 2
    then show ?thesis using en w0 by (simp add: appendIncrements_def res h)
  next
    case go
    note app = appendIncrements_def res h go(1) w0 Let_def ensure_header_def
    show ?thesis
    proof (cases "sw_logBytes w0 = Some 0")
      case True
      then have f: "w0 = \<lparr>sw_logGeneration = Some 0, sw_logBytes = Some 0\<rparr>" "drop a A = []"
          "read_checkpoint (sh_dir h) = None"
        using ready by (auto simp: log_ready_def read_checkpoint_def)
      let ?hd = "Write_log (encodeLogHeader 0)" and ?d = "sh_dir h"
      have hdr: "disk_consistent X cols rows (A @ B) a
          (?d\<lparr>sd_log := Some (take k (encodeLogHeader 0))\<rparr>)" for k
        using a by (intro disk_consistent_log [OF dc log_leads_header]) simp_all
      consider m where "disk_do ?hd io ?d = (False, None, interrupted m ?hd ?d)"
        | io' where "disk_do ?hd io ?d = (True, io', performed ?hd ?d)"
        using disk_do_cases [of io ?hd ?d] by blast
      then show ?thesis
      proof cases
        case (1 m)
        have "disk_consistent X cols rows (A @ B) a (interrupted m ?hd ?d)"
          using hdr dc by (cases m) simp_all
        with 1 show ?thesis using go(2) en by (simp add: app [unfolded f(1)] f(1) handleWriteError_def)
      next
        case (2 io')
        let ?d1 = "?d\<lparr>sd_log := Some (encodeLogHeader 0)\<rparr>"
        have d1: "disk_consistent X cols rows (A @ B) a ?d1"
          using hdr [of 9] by (simp add: length_header)
        have l: "sd_log ?d1 = Some (log_file 0 [])" "LOG_HEADER_BYTES \<noteq> 0"
          by (simp_all add: log_file_def frames_of_def LOG_HEADER_BYTES_def)
        from append_write_consistent [OF d1 l _ _ recs go(1) _ a rep _ _ refl refl, of h io'] f(2,3)
        show ?thesis using 2 go(2) en
          by (simp add: app [unfolded f(1)] f(1) frames_of_def joins_Nil_left log_continues_def
              read_checkpoint_def)
      qed
    next
      case False
      then obtain g n bs where l: "w0 = \<lparr>sw_logGeneration = Some g, sw_logBytes = Some n\<rparr>" "n \<noteq> 0"
          "sd_log (sh_dir h) = Some (log_file g bs)"
          "\<forall>b \<in> set bs. \<forall>r \<in> set (snd b). storable r" "\<forall>f \<in> set (frames_of bs). frame_fits f"
          "contiguous_batches bs \<longrightarrow> log_continues (read_checkpoint (sh_dir h)) (uint32 g) \<longrightarrow>
             joins (concat (map snd bs)) (drop a A)"
          "g < 2 ^ 32 \<longrightarrow> log_continues (read_checkpoint (sh_dir h)) g" "\<forall>b \<in> set bs. fst b \<le> seq"
        using ready by (auto simp: log_ready_def)
      from append_write_consistent [OF dc l(3,2,4,5) recs go(1) l(6) a rep l(7,8) refl l(1), of h io]
      show ?thesis using False go(2) en w0 by (simp add: app)
    qed
  qed
qed

subsection \<open>The invariant of the system\<close>

definition session_ok ::
  "('x, 'c) xterm \<Rightarrow> int \<Rightarrow> int \<Rightarrow> output_record list \<Rightarrow> ('x, 'c) session \<Rightarrow> bool" where
  "session_ok X cols rows applied ss =
     (display_of (ss_emulator ss) = run_records X applied (new_display X cols rows)
      \<and> \<not> he_disposed (ss_emulator ss) \<and> \<not> ss_exited ss \<and> \<not> ss_disposed ss)"

definition pending_records_ok :: "output_record list \<Rightarrow> ('x, 'c) session \<Rightarrow> bool" where
  "pending_records_ok B ss =
     ((ss_overflowed ss \<or> joins (ss_records ss) B) \<and> (\<forall>r \<in> set (ss_records ss). storable r))"

text \<open>The manager, when the log has to hold the records up to the end of \<open>A\<close>.\<close>

definition manager_ok ::
  "('x, 'c) xterm \<Rightarrow> int \<Rightarrow> int \<Rightarrow> output_record list \<Rightarrow> output_record list \<Rightarrow> bool \<Rightarrow> nat
     \<Rightarrow> session_history \<Rightarrow> bool" where
  "manager_ok X cols rows applied A frozen seq h =
     (\<exists>a \<le> length A. disk_consistent X cols rows applied a (sh_dir h)
        \<and> (\<not> sh_disabled h \<longrightarrow> writer_ok h \<and> (frozen \<or> may_append h seq (drop a A))))"

definition recovery_inv ::
  "('x, 'c) xterm \<Rightarrow> int \<Rightarrow> int \<Rightarrow> ('x, 'c) recovery_run \<Rightarrow> bool" where
  "recovery_inv X cols rows p = (case p of (applied, s) \<Rightarrow>
     session_ok X cols rows applied (rc_session s) \<and>
     (\<exists>A B. applied = A @ B \<and> pending_records_ok B (rc_session s)
        \<and> manager_ok X cols rows applied A (cp_needsFull (rc_checkpointer s))
             (ss_seq (rc_session s)) (rc_history s)))"

lemma manager_ok_more:
  "manager_ok X cols rows applied A frozen seq h \<Longrightarrow> manager_ok X cols rows (applied @ rs) A frozen seq h"
  unfolding manager_ok_def by (blast intro: disk_consistent_more)

lemma manager_ok_later:
  "manager_ok X cols rows applied A frozen seq h \<Longrightarrow> seq \<le> seq' \<Longrightarrow>
   manager_ok X cols rows applied A frozen seq' h"
  unfolding manager_ok_def by (blast intro: may_append_later)

lemma manager_ok_frozen:
  "manager_ok X cols rows applied A frozen seq h \<Longrightarrow> manager_ok X cols rows applied applied True seq' h"
  unfolding manager_ok_def disk_consistent_def by (blast intro: checkpoint_at_le)

lemma record_pending_emulator [simp]:
  "ss_emulator (recordPendingOutput r s) = ss_emulator s"
  "ss_exited (recordPendingOutput r s) = ss_exited s"
  "ss_disposed (recordPendingOutput r s) = ss_disposed s"
  "ss_seq (recordPendingOutput r s) = ss_seq s"
  by (simp_all add: recordPendingOutput_def)

lemma record_pending_ok:
  assumes "pending_records_ok B s" "storable r"
  shows "pending_records_ok (B @ [r]) (recordPendingOutput r s)"
  using assms coalesce_storable [of r "ss_records s"] coalesce_joins [of "ss_records s" B r]
  by (auto simp: pending_records_ok_def recordPendingOutput_def)

lemma pending_emulator [simp]:
  "pending_records_ok B (s\<lparr>ss_emulator := e\<rparr>) = pending_records_ok B s"
  "pending_records_ok B (s\<lparr>ss_outputSequence := n\<rparr>) = pending_records_ok B s"
  by (simp_all add: pending_records_ok_def)

lemma session_ok_record:
  assumes "session_ok X cols rows applied s"
    "display_of e = run_record X r (display_of (ss_emulator s))" "\<not> he_disposed e"
    "ss_emulator s' = e" "ss_exited s' = ss_exited s" "ss_disposed s' = ss_disposed s"
  shows "session_ok X cols rows (applied @ [r]) s'"
  using assms by (simp add: session_ok_def)

text \<open>The three session steps.\<close>

lemma inv_session_step:
  assumes inv: "recovery_inv X cols rows (applied, s)"
    and s': "session_ok X cols rows (applied @ [r]) ss" "ss_seq ss = ss_seq (rc_session s)"
      "\<And>B. pending_records_ok B (rc_session s) \<Longrightarrow> pending_records_ok (B @ [r]) ss"
  shows "recovery_inv X cols rows (applied @ [r], s\<lparr>rc_session := ss\<rparr>)"
proof -
  obtain A B where ab: "applied = A @ B" "pending_records_ok B (rc_session s)"
    and m: "manager_ok X cols rows applied A (cp_needsFull (rc_checkpointer s))
        (ss_seq (rc_session s)) (rc_history s)"
    using inv by (auto simp: recovery_inv_def)
  have "\<exists>A' B'. applied @ [r] = A' @ B' \<and> pending_records_ok B' ss
      \<and> manager_ok X cols rows (applied @ [r]) A' (cp_needsFull (rc_checkpointer s))
          (ss_seq ss) (rc_history s)"
    by (intro exI [of _ A] exI [of _ "B @ [r]"] conjI)
      (use ab(1) s'(2,3) ab(2) manager_ok_more [OF m] in \<open>simp_all\<close>)
  then show ?thesis using s'(1) by (simp add: recovery_inv_def)
qed

lemma inv_output:
  assumes "recovery_inv X cols rows (applied, s)"
    and d: "data \<noteq> []" "code_units data" "well_formed_text data = data"
  shows "recovery_inv X cols rows (applied @ [Rec_output data],
    s\<lparr>rc_session := emitSubprocessOutput X data (rc_session s)\<rparr>)"
proof (rule inv_session_step [OF assms(1)])
  have ok: "session_ok X cols rows applied (rc_session s)"
    using assms(1) by (simp add: recovery_inv_def)
  then have nd: "\<not> he_disposed (ss_emulator (rc_session s))" by (simp add: session_ok_def)
  show "session_ok X cols rows (applied @ [Rec_output data]) (emitSubprocessOutput X data (rc_session s))"
    using nd d(1)
    by (intro session_ok_record [OF ok, where e = "snd (writeSync X data (ss_emulator (rc_session s)))"])
      (simp_all add: writeSync_def emitSubprocessOutput_def display_of_def)
  show "pending_records_ok (B @ [Rec_output data]) (emitSubprocessOutput X data (rc_session s))"
    if "pending_records_ok B (rc_session s)" for B
    using that d by (simp add: emitSubprocessOutput_def storable_simps record_pending_ok)
qed (simp add: emitSubprocessOutput_def)

lemma inv_resize:
  assumes "recovery_inv X cols rows (applied, s)"
    and d: "isValidPtySize c r" "c \<le> 65535" "r \<le> 65535"
  shows "recovery_inv X cols rows (applied @ [Rec_resize c r],
    s\<lparr>rc_session := session_resize X c r (rc_session s)\<rparr>)"
proof (rule inv_session_step [OF assms(1)])
  have ok: "session_ok X cols rows applied (rc_session s)"
    using assms(1) by (simp add: recovery_inv_def)
  then have nd: "\<not> he_disposed (ss_emulator (rc_session s))" "\<not> ss_exited (rc_session s)"
    "\<not> ss_disposed (rc_session s)" by (simp_all add: session_ok_def)
  show "session_ok X cols rows (applied @ [Rec_resize c r]) (session_resize X c r (rc_session s))"
    using nd d(1)
    by (intro session_ok_record [OF ok, where e = "headless_resize X c r (ss_emulator (rc_session s))"])
      (simp_all add: headless_resize_def session_resize_def display_of_def)
  show "pending_records_ok (B @ [Rec_resize c r]) (session_resize X c r (rc_session s))"
    if "pending_records_ok B (rc_session s)" for B
    using that d nd
    by (simp add: session_resize_def storable_simps isValidPtySize_def record_pending_ok)
qed (simp add: session_resize_def)

lemma inv_clear:
  assumes "recovery_inv X cols rows (applied, s)"
  shows "recovery_inv X cols rows (applied @ [Rec_clear],
    s\<lparr>rc_session := session_clear X (rc_session s)\<rparr>)"
proof (rule inv_session_step [OF assms(1)])
  have ok: "session_ok X cols rows applied (rc_session s)"
    using assms(1) by (simp add: recovery_inv_def)
  then have nd: "\<not> he_disposed (ss_emulator (rc_session s))" "\<not> ss_disposed (rc_session s)"
    by (simp_all add: session_ok_def)
  show "session_ok X cols rows (applied @ [Rec_clear]) (session_clear X (rc_session s))"
    using nd
    by (intro session_ok_record [OF ok, where e = "headless_clear X (ss_emulator (rc_session s))"])
      (simp_all add: headless_clear_def session_clear_def display_of_def)
  show "pending_records_ok (B @ [Rec_clear]) (session_clear X (rc_session s))"
    if "pending_records_ok B (rc_session s)" for B
    using that nd by (simp add: session_clear_def storable_simps record_pending_ok)
qed (simp add: session_clear_def)

text \<open>A snapshot and the checkpoint made of it, from any state of the manager.\<close>

lemma inv_intro:
  assumes "session_ok X cols rows applied (rc_session s)"
    "pending_records_ok B (rc_session s)" "applied = A @ B"
    "manager_ok X cols rows applied A (cp_needsFull (rc_checkpointer s)) (ss_seq (rc_session s))
       (rc_history s)"
  shows "recovery_inv X cols rows (applied, s)"
  using assms by (auto simp: recovery_inv_def)

lemma inv_full_checkpoint:
  assumes ok: "session_ok X cols rows applied (rc_session s)"
    and m: "manager_ok X cols rows applied applied True seq (rc_history s)"
  shows "session_ok X cols rows applied (rc_session (takeSnapshotAndCheckpoint X env s))"
    and "pending_records_ok [] (rc_session (takeSnapshotAndCheckpoint X env s))"
    and "manager_ok X cols rows applied applied frozen seq'
      (rc_history (takeSnapshotAndCheckpoint X env s))"
proof -
  let ?e = "ss_emulator (rc_session s)"
  let ?h = "checkpoint (te_fault env) (te_iso env) (getSnapshot X ?e) (rc_history s)"
  obtain a where a: "disk_consistent X cols rows applied a (sh_dir (rc_history s))"
    and w: "\<not> sh_disabled (rc_history s) \<Longrightarrow> writer_ok (rc_history s)"
    using m by (auto simp: manager_ok_def)
  have t: "display_of ?e = run_records X applied (new_display X cols rows)"
    and nd: "\<not> ss_disposed (rc_session s)"
    using ok by (simp_all add: session_ok_def)
  obtain a' where "disk_consistent X cols rows applied a' (sh_dir ?h)"
    "\<not> sh_disabled ?h \<Longrightarrow> may_append ?h seq' (drop a' applied)"
    using checkpoint_consistent [OF a w t refl] by blast
  then have "manager_ok X cols rows applied applied frozen seq' ?h"
    unfolding manager_ok_def
    by (blast intro: may_append_writer_ok checkpoint_at_le dest: disk_consistent_def [THEN iffD1])
  then show "manager_ok X cols rows applied applied frozen seq'
      (rc_history (takeSnapshotAndCheckpoint X env s))"
    using nd by (simp add: takeSnapshotAndCheckpoint_def takePendingOutput_def Let_def)
  show "session_ok X cols rows applied (rc_session (takeSnapshotAndCheckpoint X env s))"
    "pending_records_ok [] (rc_session (takeSnapshotAndCheckpoint X env s))"
    using nd ok
    by (simp_all add: takeSnapshotAndCheckpoint_def takePendingOutput_def session_ok_def
        pending_records_ok_def joins_Nil_left Let_def)
qed

lemma inv_after_full:
  assumes "session_ok X cols rows applied (rc_session s)"
    "manager_ok X cols rows applied applied True seq (rc_history s)"
  shows "recovery_inv X cols rows (applied, takeSnapshotAndCheckpoint X env s)"
    and "recovery_inv X cols rows (applied, need_full b (takeSnapshotAndCheckpoint X env s))"
  using inv_full_checkpoint [OF assms]
  by (auto simp: need_full_def intro!: inv_intro [where A = applied and B = "[]"])

text \<open>The tick.\<close>

lemma inv_tick:
  assumes inv: "recovery_inv X cols rows (applied, s)"
    and s': "s' = snd (checkpointSession X True final env s)"
  shows "recovery_inv X cols rows (applied, s')"
proof -
  let ?cool = "isFullCheckpointCoolingDown (rc_checkpointer s) (te_now env)"
  let ?ss = "rc_session s" and ?h = "rc_history s"
  obtain A B where ok: "session_ok X cols rows applied ?ss" and ab: "applied = A @ B"
    and p: "pending_records_ok B ?ss"
    and m: "manager_ok X cols rows applied A (cp_needsFull (rc_checkpointer s)) (ss_seq ?ss) ?h"
    using inv by (auto simp: recovery_inv_def)
  note frozen = manager_ok_frozen [OF m]
  show ?thesis
  proof (cases "final \<or> cp_needsFull (rc_checkpointer s)")
    case True
    then have "s' = s \<or> s' = need_full False (takeSnapshotAndCheckpoint X env s)"
      by (auto simp: s' checkpointSession_def Let_def)
    with inv inv_after_full(2) [OF ok frozen] show ?thesis by auto
  next
    case nofull: False
    define ss1 where "ss1 = ?ss\<lparr>ss_records := [], ss_bytes := 0, ss_overflowed := False,
      ss_seq := ss_seq ?ss + 1\<rparr>"
    let ?s1 = "s\<lparr>rc_session := ss1\<rparr>"
    have tk: "takePendingOutput X False ?ss = (Some \<lparr>tk_records = ss_records ?ss, tk_seq = ss_seq ?ss + 1,
        tk_overflowed = ss_overflowed ?ss, tk_snapshot = None\<rparr>, ss1)"
      using ok by (simp add: takePendingOutput_def session_ok_def ss1_def)
    have ok1: "session_ok X cols rows applied (rc_session ?s1)" and p1: "pending_records_ok [] (rc_session ?s1)"
      and q1: "ss_seq ss1 = ss_seq ?ss + 1"
      using ok by (simp_all add: ss1_def session_ok_def pending_records_ok_def joins_Nil_left)
    have full: "recovery_inv X cols rows
        (applied, if ?cool then need_full True ?s1 else takeSnapshotAndCheckpoint X env ?s1)"
      using inv_after_full(1) [OF ok1, of "ss_seq ?ss"] ok1 p1 frozen
      by (auto simp: need_full_def intro!: inv_intro [where A = applied and B = "[]"])
    show ?thesis
    proof (cases "ss_overflowed ?ss")
      case True
      with nofull full show ?thesis by (simp add: s' checkpointSession_def Let_def tk split: if_splits)
    next
      case False
      then have rep: "joins (ss_records ?ss) B" and st: "\<forall>r \<in> set (ss_records ?ss). storable r"
        using p by (simp_all add: pending_records_ok_def)
      have appended: "recovery_inv X cols rows (applied, ?s1\<lparr>rc_history := h\<rparr>)"
        if "manager_ok X cols rows applied applied False (ss_seq ?ss + 1) h" for h
        using that ok1 p1 nofull q1 by (intro inv_intro [where A = applied and B = "[]"]) simp_all
      show ?thesis
      proof (cases "ss_records ?ss = []")
        case True
        with rep have "A = applied" by (simp add: joins_Nil_left ab)
        with m nofull have "manager_ok X cols rows applied applied False (ss_seq ?ss + 1) ?h"
          by (auto intro: manager_ok_later)
        moreover have "s' = ?s1\<lparr>rc_history := ?h\<rparr>"
          using nofull False True by (simp add: s' checkpointSession_def Let_def tk)
        ultimately show ?thesis using appended by metis
      next
        case ne: False
        have run: "s' = (case appendIncrements (te_fault env) (ss_seq ?ss + 1) (ss_records ?ss) ?h of
             (Append_ok, h) \<Rightarrow> ?s1\<lparr>rc_history := h\<rparr>
           | (Needs_checkpoint, h) \<Rightarrow>
               (if ?cool then need_full True (?s1\<lparr>rc_history := h\<rparr>)
                else takeSnapshotAndCheckpoint X env (?s1\<lparr>rc_history := h\<rparr>)))"
          using nofull False ne
          by (simp add: s' checkpointSession_def Let_def tk split: prod.split append_result.split)
        show ?thesis
        proof (cases "sh_disabled ?h")
          case True
          then have "s' = ?s1\<lparr>rc_history := ?h\<rparr>" by (simp add: run appendIncrements_def)
          moreover have "manager_ok X cols rows applied applied False (ss_seq ?ss + 1) ?h"
            using frozen True by (auto simp: manager_ok_def)
          ultimately show ?thesis using appended by metis
        next
          case False
          then obtain a where a: "disk_consistent X cols rows (A @ B) a (sh_dir ?h)" "a \<le> length A"
            "may_append ?h (ss_seq ?ss) (drop a A)"
            using m nofull by (auto simp: manager_ok_def ab)
          have "ss_seq ?ss \<le> ss_seq ?ss + 1" by simp
          from append_consistent [OF a this rep st False ne, of "te_fault env"]
          show ?thesis
          proof (elim disjE exE conjE)
            assume "appendIncrements (te_fault env) (ss_seq ?ss + 1) (ss_records ?ss) ?h
              = (Needs_checkpoint, ?h)"
            with full show ?thesis unfolding run by (simp split: if_splits)
          next
            fix h'
            assume h': "appendIncrements (te_fault env) (ss_seq ?ss + 1) (ss_records ?ss) ?h = (Append_ok, h')"
              "disk_consistent X cols rows (A @ B) a (sh_dir h')"
              "\<not> sh_disabled h' \<longrightarrow> may_append h' (ss_seq ?ss + 1) (drop a (A @ B))"
            then have "manager_ok X cols rows applied applied False (ss_seq ?ss + 1) h'"
              using a(2) unfolding manager_ok_def ab by (intro exI [of _ a]) (auto intro: may_append_writer_ok)
            with appended [of h'] h'(1) show ?thesis unfolding run by simp
          qed
        qed
      qed
    qed
  qed
qed

end
