(* ===== verification/Recovery_Props.thy ===== *)
theory Recovery_Props
  imports Recovery
begin

section \<open>What is recovered\<close>

text \<open>
  Consistency of recovery at every moment, and what completeness after a tick rests on.
\<close>

subsection \<open>Reachable systems satisfy the invariant\<close>

lemma inv_opened: "recovery_inv X cols rows ([], opened X now cwd cols rows)"
proof -
  let ?h = "rc_history (opened X now cwd cols rows)"
  have d: "disk_consistent X cols rows [] 0 (sh_dir ?h)" and a: "may_append ?h 0 []"
    by (auto simp: disk_consistent_def fresh_meta_def checkpoint_at_def log_leads_def opened_def
        openSession_def disk_do_def empty_dir_def Let_def may_append_def log_ready_def)
  show ?thesis
  proof (rule inv_intro [where A = "[]" and B = "[]"])
    show "session_ok X cols rows [] (rc_session (opened X now cwd cols rows))"
      by (simp add: session_ok_def opened_def new_session_def new_headless_def display_of_def
          new_display_def)
    show "pending_records_ok [] (rc_session (opened X now cwd cols rows))"
      by (simp add: pending_records_ok_def opened_def new_session_def joins_Nil_left)
    have "ss_seq (rc_session (opened X now cwd cols rows)) = 0"
      by (simp add: opened_def new_session_def)
    then show "manager_ok X cols rows [] []
        (cp_needsFull (rc_checkpointer (opened X now cwd cols rows)))
        (ss_seq (rc_session (opened X now cwd cols rows))) ?h"
      using d a may_append_writer_ok [OF a] by (auto simp: manager_ok_def)
  qed simp
qed

lemma inv_crash:
  assumes "recovery_inv X cols rows (applied, s)"
  shows "recovery_inv X cols rows (applied,
    s\<lparr>rc_history := relaunched (rc_history s),
      rc_checkpointer := \<lparr>cp_needsFull = True, cp_lastFull = None\<rparr>\<rparr>)"
  using assms
  by (auto simp: recovery_inv_def manager_ok_def relaunched_def registerWriter_def writer_ok_def)

lemma inv_reach: "recovery_reach X cols rows p \<Longrightarrow> recovery_inv X cols rows p"
proof (induction rule: recovery_reach.induct)
  case (Step p q)
  from Step.hyps(2) Step.IH show ?case
    by (cases rule: recovery_step.cases)
      (auto intro: inv_output inv_resize inv_clear inv_tick inv_crash)
qed (rule inv_opened)

text \<open>
  C4. Recovery is consistent. Whatever output, resizes and clears a session had, whichever
  writes of its checkpoint ticks failed or were cut short, and however often the process that
  writes them was killed and restarted: if its files are read at that moment, nothing is
  restored only if there is no checkpoint, and what is restored belongs to one moment of the
  session's life. Without a checkpoint it is the snapshot of a new emulator that was given a
  prefix of the session's records, each once and in order; with one, the checkpoint is the
  snapshot of the session's emulator after some prefix, and what is restored is the checkpoint
  itself or the snapshot of an emulator that was given the checkpoint's text and then the
  records that directly follow that prefix, again each once and in order. Records are the same
  but for cuts between successive outputs. Nothing is assumed of xterm.
\<close>

theorem recovery_consistent:
  assumes "recovery_reach X cols rows (applied, s)"
  shows "restored_past X cols rows applied (sh_dir (rc_history s))"
proof -
  obtain a where "disk_consistent X cols rows applied a (sh_dir (rc_history s))"
    using inv_reach [OF assms] by (auto simp: recovery_inv_def manager_ok_def)
  then show ?thesis by (rule consistent_restores)
qed

text \<open>A terminal that only keeps its text, for concrete runs.\<close>

definition text_terminal :: "(jsstr \<times> int \<times> int, unit) xterm" where
  "text_terminal = \<lparr>xt_new = (\<lambda>cols rows. ([], cols, rows)),
     xt_write = (\<lambda>data (t, size). (t @ data, size)),
     xt_resize = (\<lambda>cols rows (t, size). (t, cols, rows)),
     xt_clear = (\<lambda>(t, size). ([], size)),
     xt_cols = (\<lambda>(t, cols, rows). cols), xt_rows = (\<lambda>(t, cols, rows). rows),
     xt_serialize = fst, xt_cursor = (\<lambda>(t, size). (int (length t), 0)),
     xt_savedCursor = (\<lambda>_. None), xt_bracketedPasteMode = (\<lambda>_. False),
     xt_applicationCursorKeysMode = (\<lambda>_. False), xt_alternate = (\<lambda>_. False),
     xt_kittyFlags = (\<lambda>_. None), xt_normalLength = (\<lambda>(t, cols, rows). rows),
     xt_links = (\<lambda>_ links. links),
     osc_new = (), osc_scan = (\<lambda>_ c. c), osc_cwd = (\<lambda>_. None), osc_lastTitle = (\<lambda>_. None)\<rparr>"

text \<open>Output, a tick whose append is cut after its header and eight bytes, a restart, more output.\<close>

definition torn_tick :: tick_env where
  "torn_tick = \<lparr>te_fault = Some (1, 9), te_now = 5000, te_iso = []\<rparr>"

definition torn_run :: "(jsstr \<times> int \<times> int, unit) recovery" where
  "torn_run =
     (let s0 = opened text_terminal [] [] 80 24;
          s1 = s0\<lparr>rc_session := emitSubprocessOutput text_terminal [97, 98] (rc_session s0)\<rparr>;
          s2 = snd (checkpointSession text_terminal True False torn_tick s1);
          s3 = s2\<lparr>rc_history := relaunched (rc_history s2),
                  rc_checkpointer := \<lparr>cp_needsFull = True, cp_lastFull = None\<rparr>\<rparr>
      in s3\<lparr>rc_session := emitSubprocessOutput text_terminal [99] (rc_session s3)\<rparr>)"

lemma plain_text: "code_units [97, 98]" "well_formed_text [97, 98] = [97, 98]"
  "code_units [99]" "well_formed_text [99] = [99]"
  by (simp_all add: code_units_def surrogate_def high_surrogate_def low_surrogate_def)

text \<open>Steps of a concrete run.\<close>

lemma reach_output:
  "recovery_reach X cols rows (applied, s) \<Longrightarrow> data \<noteq> [] \<Longrightarrow> code_units data \<Longrightarrow>
   well_formed_text data = data \<Longrightarrow> recovery_reach X cols rows (applied @ [Rec_output data],
     s\<lparr>rc_session := emitSubprocessOutput X data (rc_session s)\<rparr>)"
  by (rule recovery_reach.Step) (assumption, rule recovery_step.Output)

lemma reach_tick:
  "recovery_reach X cols rows (applied, s) \<Longrightarrow>
   recovery_reach X cols rows (applied, snd (checkpointSession X True final env s))"
  by (rule recovery_reach.Step) (assumption, rule recovery_step.Tick, rule refl)

lemma reach_crash:
  "recovery_reach X cols rows (applied, s) \<Longrightarrow> recovery_reach X cols rows (applied,
     s\<lparr>rc_history := relaunched (rc_history s),
       rc_checkpointer := \<lparr>cp_needsFull = True, cp_lastFull = None\<rparr>\<rparr>)"
  by (rule recovery_reach.Step) (assumption, rule recovery_step.Crash)

lemma torn_run_reach:
  "recovery_reach text_terminal 80 24 ([Rec_output [97, 98], Rec_output [99]], torn_run)"
proof -
  let ?X = text_terminal
  let ?s0 = "opened ?X [] [] 80 24"
  let ?s1 = "?s0\<lparr>rc_session := emitSubprocessOutput ?X [97, 98] (rc_session ?s0)\<rparr>"
  have "recovery_reach ?X 80 24 ([], ?s0)"
    by (rule recovery_reach.Opened) (simp add: isValidPtySize_def)
  from reach_output [OF this _ plain_text(1,2)]
  have r: "recovery_reach ?X 80 24 ([Rec_output [97, 98]], ?s1)" by simp
  from reach_output [OF reach_crash [OF reach_tick [OF r, of False torn_tick]] _ plain_text(3,4)]
  show ?thesis by (simp add: torn_run_def Let_def)
qed

theorem recovery_consistent_witness:
  "restored_past text_terminal 80 24 [Rec_output [97, 98], Rec_output [99]]
     (sh_dir (rc_history torn_run))"
  by (rule recovery_consistent [OF torn_run_reach])

subsection \<open>Completeness after a tick\<close>

lemma full_takes:
  assumes "\<not> ss_disposed (rc_session s)"
  shows "ss_records (rc_session (takeSnapshotAndCheckpoint X env s)) = []"
    "\<not> ss_overflowed (rc_session (takeSnapshotAndCheckpoint X env s))"
  using assms by (simp_all add: takeSnapshotAndCheckpoint_def takePendingOutput_def Let_def)

lemma need_full_session [simp]:
  "rc_session (need_full b s) = rc_session s" "cp_needsFull (rc_checkpointer (need_full b s)) = b"
  by (simp_all add: need_full_def)

lemma tick_takes:
  assumes nd: "\<not> ss_disposed (rc_session s)" and s': "s' = snd (checkpointSession X True final env s)"
    and n: "\<not> cp_needsFull (rc_checkpointer s')"
  shows "ss_records (rc_session s') = [] \<and> \<not> ss_overflowed (rc_session s')"
proof (cases "final \<or> cp_needsFull (rc_checkpointer s)")
  case True
  then have "s' = s \<and> cp_needsFull (rc_checkpointer s) \<or> s' = need_full False (takeSnapshotAndCheckpoint X env s)"
    by (auto simp: s' checkpointSession_def Let_def)
  with n full_takes [OF nd] show ?thesis by auto
next
  case False
  obtain r h where a: "appendIncrements (te_fault env) (Suc (ss_seq (rc_session s)))
      (ss_records (rc_session s)) (rc_history s) = (r, h)" by force
  show ?thesis
    using nd n False unfolding s' checkpointSession_def takePendingOutput_def
    by (cases r) (simp_all add: Let_def a full_takes split: if_splits)
qed

lemma decode_whole_log:
  assumes "\<forall>b \<in> set bs. \<forall>r \<in> set (snd b). storable r" "\<forall>f \<in> set (frames_of bs). frame_fits f"
  shows "decodeTerminalHistoryLog (log_file g bs) = (if contiguous_batches bs
    then Some \<lparr>lc_generation = uint32 g, lc_batches = stored_batches bs, lc_truncatedTail = False\<rparr>
    else None)"
proof -
  have "log_loop [] b = Some (b, False)" for b by (subst log_loop.simps) simp
  with decode_log_tail [OF batch_units_storable [OF assms(1)] assms(2), of g "[]"]
  show ?thesis by simp
qed

text \<open>A log that may be appended to, and that can be read, restores what it has to hold.\<close>

lemma whole_log:
  assumes "log_ready d w seq P" "sd_log d = Some b" "decodeTerminalHistoryLog b = Some c"
  obtains g bs where "sw_logGeneration w = Some g" "b = log_file g bs" "contiguous_batches bs"
    "\<forall>b \<in> set bs. fst b \<le> seq" "lc_generation c = uint32 g" "lc_batches c = stored_batches bs"
    "g < 2 ^ 32 \<longrightarrow> log_continues (read_checkpoint d) g"
    "log_continues (read_checkpoint d) (uint32 g) \<longrightarrow> joins (log_records c) P"
proof -
  obtain g n bs where w: "w = \<lparr>sw_logGeneration = Some g, sw_logBytes = Some n\<rparr>"
      "sd_log d = Some (log_file g bs)" "g < 2 ^ 32 \<longrightarrow> log_continues (read_checkpoint d) g"
      "\<forall>b \<in> set bs. \<forall>r \<in> set (snd b). storable r" "\<forall>f \<in> set (frames_of bs). frame_fits f"
      "\<forall>b \<in> set bs. fst b \<le> seq"
      "contiguous_batches bs \<longrightarrow> log_continues (read_checkpoint d) (uint32 g)
         \<longrightarrow> joins (concat (map snd bs)) P"
    using assms(1,2) by (auto simp: log_ready_def)
  have b: "b = log_file g bs" using w(2) assms(2) by simp
  have "contiguous_batches bs" "lc_generation c = uint32 g" "lc_batches c = stored_batches bs"
    using decode_whole_log [OF w(4,5), of g] assms(3) b by (auto split: if_splits)
  moreover from this have "log_records c = concat (map snd bs)"
    using stored_records [OF w(4)] by (simp add: log_records_def)
  ultimately show ?thesis
    using w b by (intro that [of g bs]) simp_all
qed

lemma ready_restores:
  assumes dc: "disk_consistent X cols rows applied a d"
    and ready: "log_ready d w seq (drop a applied)"
    and gen: "or_zero (sw_logGeneration w) < 2 ^ 32"
    and dec: "sd_log d = None \<or> (\<exists>b c. sd_log d = Some b \<and> decodeTerminalHistoryLog b = Some c)"
  shows "restored_now X cols rows applied d"
proof -
  obtain m where m: "sd_meta d = Content m" and ca: "checkpoint_at X cols rows applied a d"
    using dc by (auto simp: disk_consistent_def fresh_meta_def)
  note le = checkpoint_at_le [OF ca]
  have alone: "restored_now X cols rows applied d"
    if n: "\<And>m. restoreFromIncrementalLog X d m (read_checkpoint d) = None" and e: "drop a applied = []"
  proof -
    have "a = length applied" using e le by simp
    moreover from this have "sd_checkpoint d = Missing \<longrightarrow> applied = []"
      using ca by (auto simp: checkpoint_at_def)
    ultimately show ?thesis
      using restored_checkpoint [OF dc n] by (auto simp: restored_now_def split: option.splits)
  qed
  show ?thesis
  proof (cases "sd_log d")
    case None
    with ready show ?thesis
      by (intro alone) (auto simp: restoreFromIncrementalLog_def log_ready_def)
  next
    case (Some b)
    with dec obtain c where c: "decodeTerminalHistoryLog b = Some c" by auto
    obtain g where w: "sw_logGeneration w = Some g"
        "lc_generation c = uint32 g" "g < 2 ^ 32 \<longrightarrow> log_continues (read_checkpoint d) g"
        "log_continues (read_checkpoint d) (uint32 g) \<longrightarrow> joins (log_records c) (drop a applied)"
      by (rule whole_log [OF ready Some c]) (rule that)
    then have lc: "log_continues (read_checkpoint d) (lc_generation c)"
      and j: "joins (log_records c) (drop a (take (length applied) applied))"
      using gen by (simp_all add: uint32_def)
    show ?thesis
    proof (cases "lc_batches c = []")
      case True
      then have "drop a applied = []" using j by (simp add: log_records_def joins_Nil_left)
      then show ?thesis using True Some c by (intro alone) (simp_all add: restoreFromIncrementalLog_def)
    next
      case False
      from replayed_log [OF dc m Some c False lc] obtain info where
        "detectColdRestore X False d = Some info" "term_screen.truncate info = shown_screen (screen_of X
           (run_records X (log_records c) (base_display X cols rows applied a d)))" by blast
      with shows_replayed [OF ca le j] show ?thesis by (simp add: restored_now_def)
    qed
  qed
qed

end
