(* ===== verification/Recovery_Ticks.thy ===== *)
theory Recovery_Ticks
  imports Recovery_Props
begin

section \<open>Ticks: complete recovery, and an unreadable log\<close>

text \<open>
  \<open>tick_durable\<close>: after a tick that wrote what it took, nothing is lost. \<open>empty_take_loses_log\<close>:
  every take consumes a sequence number, but one that brings no records appends nothing; the
  next append then leaves a gap in the numbers of the log, and the reader, which takes a gap for
  lost output, rejects the whole log. What is then left is the checkpoint, if there is one.
\<close>

definition quiet :: tick_env where
  "quiet = \<lparr>te_fault = None, te_now = 5000, te_iso = []\<rparr>"

text \<open>A tick that appends, and one that finds nothing to append.\<close>

lemma appending_tick:
  assumes "\<not> ss_disposed (rc_session s)" "\<not> cp_needsFull (rc_checkpointer s)"
    "\<not> ss_overflowed (rc_session s)" "ss_records (rc_session s) \<noteq> []"
    "appendIncrements None (ss_seq (rc_session s) + 1) (ss_records (rc_session s)) (rc_history s)
       = (Append_ok, h)"
  shows "snd (checkpointSession X True False quiet s) = s\<lparr>rc_session := (rc_session s)
      \<lparr>ss_records := [], ss_bytes := 0, ss_overflowed := False, ss_seq := ss_seq (rc_session s) + 1\<rparr>,
    rc_history := h\<rparr>"
  using assms by (simp add: checkpointSession_def quiet_def takePendingOutput_def Let_def)

lemma empty_tick:
  assumes "\<not> ss_disposed (rc_session s)" "\<not> cp_needsFull (rc_checkpointer s)"
    "\<not> ss_overflowed (rc_session s)" "ss_records (rc_session s) = []"
  shows "snd (checkpointSession X True False quiet s) = s\<lparr>rc_session := (rc_session s)
      \<lparr>ss_records := [], ss_bytes := 0, ss_overflowed := False, ss_seq := ss_seq (rc_session s) + 1\<rparr>\<rparr>"
  using assms by (simp add: checkpointSession_def quiet_def takePendingOutput_def Let_def)

text \<open>The batch of a single character.\<close>

definition letter_batch :: "nat \<Rightarrow> nat \<Rightarrow> byte list" where
  "letter_batch seq u = concat (map frame_bytes (batch_frames seq [Rec_output [u]]))"

lemma letter_frames: "u < 128 \<Longrightarrow> \<forall>f \<in> set (batch_frames seq [Rec_output [u]]). frame_fits f"
  by (simp add: batch_frames_def frame_fits_def encodeSeqPayload_def utf8_encode_def
      high_surrogate_def low_surrogate_def surrogate_def utf8_scalar_def)

lemma letter_encoded: "u < 128 \<Longrightarrow> encodeLogBatch seq [Rec_output [u]] = Inr (letter_batch seq u)"
  by (simp add: encodeLogBatch_frames letter_frames letter_batch_def)

lemma length_letter: "u < 128 \<Longrightarrow> length (letter_batch seq u) = 15"
  by (simp add: letter_batch_def batch_frames_def length_frame_bytes encodeSeqPayload_def
      utf8_encode_def high_surrogate_def low_surrogate_def surrogate_def utf8_scalar_def)

text \<open>An append to a log that does not exist yet, and to one that does.\<close>

lemma append_letter_fresh:
  assumes "u < 128" "\<not> sh_disabled h"
    "sh_writer h = Some \<lparr>sw_logGeneration = Some 0, sw_logBytes = Some 0\<rparr>"
  shows "appendIncrements None seq [Rec_output [u]] h = (Append_ok,
    h\<lparr>sh_writer := Some \<lparr>sw_logGeneration = Some 0, sw_logBytes = Some 24\<rparr>,
      sh_dir := (sh_dir h)\<lparr>sd_log := Some (encodeLogHeader 0 @ letter_batch seq u)\<rparr>\<rparr>)"
  using assms
  by (simp add: appendIncrements_def resolveLogState_def letter_encoded length_letter ensure_header_def
      disk_do_def Let_def LOG_MAX_BYTES_def LOG_HEADER_BYTES_def)

lemma append_letter:
  assumes "u < 128" "\<not> sh_disabled h" "sd_log (sh_dir h) = Some b" "0 < n" "n < 1000"
    "sh_writer h = Some \<lparr>sw_logGeneration = Some 0, sw_logBytes = Some n\<rparr>"
  shows "appendIncrements None seq [Rec_output [u]] h = (Append_ok,
    h\<lparr>sh_writer := Some \<lparr>sw_logGeneration = Some 0, sw_logBytes = Some (n + 15)\<rparr>,
      sh_dir := (sh_dir h)\<lparr>sd_log := Some (b @ letter_batch seq u)\<rparr>\<rparr>)"
  using assms
  by (simp add: appendIncrements_def resolveLogState_def letter_encoded length_letter ensure_header_def
      disk_do_def Let_def LOG_MAX_BYTES_def LOG_HEADER_BYTES_def)

lemma letter_readable: "\<exists>c. decodeTerminalHistoryLog (encodeLogHeader 0 @ letter_batch 1 97) = Some c
  \<and> lc_batches c \<noteq> []"
proof -
  let ?bs = "[(1, [Rec_output [97]])] :: taken_batch list"
  have "\<forall>b \<in> set ?bs. \<forall>r \<in> set (snd b). storable r"
    by (simp add: storable_simps code_units_def surrogate_def high_surrogate_def low_surrogate_def)
  moreover have "\<forall>f \<in> set (frames_of ?bs). frame_fits f"
    using letter_frames [of 97 1] by (auto simp: frames_of_def)
  moreover have "contiguous_batches ?bs" by (simp add: contiguous_batches_def)
  ultimately have "decodeTerminalHistoryLog (log_file 0 ?bs) =
      Some \<lparr>lc_generation = uint32 0, lc_batches = stored_batches ?bs, lc_truncatedTail = False\<rparr>"
    by (simp only: decode_whole_log if_True)
  then show ?thesis by (simp add: log_file_def frames_of_def letter_batch_def)
qed

text \<open>A concrete run: a character, a tick, a tick with nothing to take, a character, a tick.\<close>

definition put_letter :: "('x, 'c) xterm \<Rightarrow> nat \<Rightarrow> ('x, 'c) recovery \<Rightarrow> ('x, 'c) recovery" where
  "put_letter X u s = s\<lparr>rc_session := emitSubprocessOutput X [u] (rc_session s)\<rparr>"

definition quiet_tick :: "('x, 'c) xterm \<Rightarrow> ('x, 'c) recovery \<Rightarrow> ('x, 'c) recovery" where
  "quiet_tick X s = snd (checkpointSession X True False quiet s)"

text \<open>What the run keeps of the system: the session takes, the log grows.\<close>

definition log_system :: "nat \<Rightarrow> byte list option \<Rightarrow> nat \<Rightarrow> ('x, 'c) recovery \<Rightarrow> bool" where
  "log_system seq b n s =
     (\<not> ss_disposed (rc_session s) \<and> \<not> ss_overflowed (rc_session s) \<and> ss_seq (rc_session s) = seq
      \<and> ss_bytes (rc_session s) = 0
      \<and> rc_checkpointer s = \<lparr>cp_needsFull = False, cp_lastFull = None\<rparr>
      \<and> \<not> sh_disabled (rc_history s)
      \<and> sh_writer (rc_history s) = Some \<lparr>sw_logGeneration = Some 0, sw_logBytes = Some n\<rparr>
      \<and> ss_records (rc_session s) = [] \<and> sd_log (sh_dir (rc_history s)) = b
      \<and> sd_checkpoint (sh_dir (rc_history s)) = Missing \<and> sd_scrollback (sh_dir (rc_history s)) = None)"

lemma log_system_opened: "log_system 0 None 0 (opened X now cwd cols rows)"
  by (simp add: log_system_def opened_def new_session_def openSession_def disk_do_def empty_dir_def
      Let_def)

lemma log_system_empty_tick: "log_system seq b n s \<Longrightarrow> log_system (seq + 1) b n (quiet_tick X s)"
  by (simp add: log_system_def quiet_tick_def empty_tick)

lemma put_letter_takes:
  assumes "log_system seq b n s"
  shows "\<not> ss_disposed (rc_session (put_letter X u s))"
    "\<not> ss_overflowed (rc_session (put_letter X u s))"
    "ss_records (rc_session (put_letter X u s)) = [Rec_output [u]]"
    "ss_seq (rc_session (put_letter X u s)) = seq"
    "rc_checkpointer (put_letter X u s) = \<lparr>cp_needsFull = False, cp_lastFull = None\<rparr>"
    "rc_history (put_letter X u s) = rc_history s"
  using assms
  by (simp_all add: log_system_def put_letter_def emitSubprocessOutput_def recordPendingOutput_def
      record_bytes_def PENDING_OUTPUT_MAX_BYTES_def coalesce_record_def)

lemma log_system_append:
  assumes "log_system seq b n s"
    "appendIncrements None (seq + 1) [Rec_output [u]] (rc_history s) = (Append_ok, h)"
    "h = (rc_history s)\<lparr>sh_writer := Some \<lparr>sw_logGeneration = Some 0, sw_logBytes = Some n'\<rparr>,
       sh_dir := (sh_dir (rc_history s))\<lparr>sd_log := b'\<rparr>\<rparr>"
  shows "log_system (seq + 1) b' n' (quiet_tick X (put_letter X u s))"
proof -
  note p = put_letter_takes [OF assms(1), of X u]
  have "snd (checkpointSession X True False quiet (put_letter X u s)) = (put_letter X u s)
    \<lparr>rc_session := (rc_session (put_letter X u s))\<lparr>ss_records := [], ss_bytes := 0,
       ss_overflowed := False, ss_seq := ss_seq (rc_session (put_letter X u s)) + 1\<rparr>, rc_history := h\<rparr>"
    by (rule appending_tick) (use assms(2) p in simp_all)
  with assms(1) p show ?thesis by (simp add: quiet_tick_def log_system_def assms(3))
qed

lemma log_system_first:
  assumes "log_system seq None 0 s" "u < 128"
  shows "log_system (seq + 1) (Some (encodeLogHeader 0 @ letter_batch (seq + 1) u)) 24
    (quiet_tick X (put_letter X u s))"
  using assms
  by (intro log_system_append [OF assms(1) append_letter_fresh refl]) (simp_all add: log_system_def)

lemma log_system_next:
  assumes "log_system seq (Some b) n s" "u < 128" "0 < n" "n < 1000"
  shows "log_system (seq + 1) (Some (b @ letter_batch (seq + 1) u)) (n + 15)
    (quiet_tick X (put_letter X u s))"
  using assms
  by (intro log_system_append [OF assms(1) append_letter refl]) (simp_all add: log_system_def)

text \<open>The steps are steps of the system.\<close>

lemma reach_letter:
  assumes "recovery_reach X cols rows (applied, s)" "u < 128"
  shows "recovery_reach X cols rows (applied @ [Rec_output [u]], put_letter X u s)"
proof -
  have "code_units [u]" "well_formed_text [u] = [u]"
    using assms(2) by (simp_all add: code_units_def surrogate_def high_surrogate_def low_surrogate_def)
  with reach_output [OF assms(1)] show ?thesis by (simp add: put_letter_def)
qed

lemma reach_quiet:
  "recovery_reach X cols rows (applied, s) \<Longrightarrow> recovery_reach X cols rows (applied, quiet_tick X s)"
  unfolding quiet_tick_def by (rule reach_tick)

lemma reach_first_letter:
  "recovery_reach X 80 24 ([Rec_output [97]], put_letter X 97 (opened X [] [] 80 24))"
proof -
  have "recovery_reach X 80 24 ([], opened X [] [] 80 24)"
    by (rule recovery_reach.Opened) (simp add: isValidPtySize_def)
  from reach_letter [OF this, of 97] show ?thesis by simp
qed

text \<open>
  C14. Recovery is complete after a tick. When a checkpoint tick has run, no write of the session
  has failed and no full checkpoint is owed, then what is restored belongs to this moment:
  nothing of what happened to the session is missing from it and nothing is in it twice, and
  nothing is restored only of a session to which nothing happened. The exception is a log that
  cannot be read because of a gap in its numbers (generations up to 32 bits).
\<close>

theorem tick_durable:
  assumes "recovery_reach X cols rows (applied, s)"
    and "s' = snd (checkpointSession X True final env s)"
    and "\<not> sh_disabled (rc_history s')" and "\<not> cp_needsFull (rc_checkpointer s')"
    and "sh_writer (rc_history s') = Some w" and "or_zero (sw_logGeneration w) < 2 ^ 32"
    and "sd_log (sh_dir (rc_history s')) = None
      \<or> (\<exists>b c. sd_log (sh_dir (rc_history s')) = Some b \<and> decodeTerminalHistoryLog b = Some c)"
  shows "restored_now X cols rows applied (sh_dir (rc_history s'))"
proof -
  have inv: "recovery_inv X cols rows (applied, s')"
    using inv_tick [OF inv_reach [OF assms(1)] assms(2)] .
  have "\<not> ss_disposed (rc_session s)"
    using inv_reach [OF assms(1)] by (simp add: recovery_inv_def session_ok_def)
  note taken = tick_takes [OF this assms(2,4)]
  obtain A B a where ab: "applied = A @ B" and p: "pending_records_ok B (rc_session s')"
    and dc: "disk_consistent X cols rows applied a (sh_dir (rc_history s'))"
    and m: "may_append (rc_history s') (ss_seq (rc_session s')) (drop a A)"
    using inv assms(3,4) by (auto simp: recovery_inv_def manager_ok_def)
  have "A = applied"
    using p taken by (simp add: pending_records_ok_def joins_Nil_left ab)
  with m assms(5) have "log_ready (sh_dir (rc_history s')) w (ss_seq (rc_session s')) (drop a applied)"
    by (simp add: may_append_def)
  then show ?thesis by (rule ready_restores [OF dc _ assms(6,7)])
qed

theorem tick_durable_witness:
  "restored_now text_terminal 80 24 [Rec_output [97]]
     (sh_dir (rc_history (quiet_tick text_terminal
       (put_letter text_terminal 97 (opened text_terminal [] [] 80 24)))))"
proof -
  let ?s1 = "quiet_tick text_terminal (put_letter text_terminal 97 (opened text_terminal [] [] 80 24))"
  have l: "log_system 1 (Some (encodeLogHeader 0 @ letter_batch 1 97)) 24 ?s1"
    using log_system_first [OF log_system_opened, of 97] by simp
  obtain c where "decodeTerminalHistoryLog (encodeLogHeader 0 @ letter_batch 1 97) = Some c"
    using letter_readable by blast
  with l show ?thesis
    by (intro tick_durable [OF reach_first_letter quiet_tick_def,
          where w = "\<lparr>sw_logGeneration = Some 0, sw_logBytes = Some 24\<rparr>"])
      (simp_all add: log_system_def)
qed

subsection \<open>A take that finds nothing\<close>

text \<open>A batch whose number does not follow: the log is not read.\<close>

lemma gap_unreadable:
  assumes "\<forall>b \<in> set (bs @ [(seq + 2, recs)]). \<forall>r \<in> set (snd b). storable r"
    "\<forall>f \<in> set (frames_of (bs @ [(seq + 2, recs)])). frame_fits f"
    "bs \<noteq> []" "\<forall>b \<in> set bs. fst b \<le> seq" "seq + 2 < 2 ^ 32"
  shows "decodeTerminalHistoryLog (log_file g (bs @ [(seq + 2, recs)])) = None"
proof -
  have "fst (last bs) \<le> seq" using assms(3,4) last_in_set by blast
  then have "\<not> contiguous_batches (bs @ [(seq + 2, recs)])"
    using assms(3,5) by (simp add: contiguous_batches_snoc uint32_def)
  then show ?thesis by (simp only: decode_whole_log [OF assms(1,2)] if_False)
qed

text \<open>An append that is not refused, to a log that is there.\<close>

lemma append_done:
  assumes "appendIncrements io seq recs h = (r, h')" "r = Append_ok" "\<not> sh_disabled h'" "recs \<noteq> []"
    "sh_writer h = Some \<lparr>sw_logGeneration = Some g, sw_logBytes = Some n\<rparr>" "n \<noteq> 0"
    "\<not> sh_disabled h" "sd_log (sh_dir h) = Some b"
  obtains batch where "encodeLogBatch seq recs = Inr batch"
    "sh_dir h' = (sh_dir h)\<lparr>sd_log := Some (b @ batch)\<rparr>"
proof (cases "encodeLogBatch seq recs")
  case (Inl e)
  then show ?thesis
    using assms by (auto simp: appendIncrements_def resolveLogState_def Let_def handleWriteError_def)
next
  case (Inr batch)
  from disk_do_cases [of io "Append_log batch" "sh_dir h"] show ?thesis
    using assms Inr that [of batch]
    by (auto simp: appendIncrements_def resolveLogState_def Let_def ensure_header_def
        handleWriteError_def split: if_splits)
qed

text \<open>The appending tick after an empty one, in a system whose log is there.\<close>

lemma gap_appended:
  assumes m: "may_append h seq P" "\<not> sh_disabled h" "\<not> sh_disabled h'"
    and b: "sd_log (sh_dir h) = Some b" "decodeTerminalHistoryLog b = Some c" "lc_batches c \<noteq> []"
    and recs: "recs \<noteq> []" "\<forall>r \<in> set recs. storable r" and seq: "seq + 2 < 2 ^ 32"
    and app: "appendIncrements io (seq + 2) recs h = (Append_ok, h')"
  shows "\<exists>batch. sh_dir h' = (sh_dir h)\<lparr>sd_log := Some (b @ batch)\<rparr>
    \<and> decodeTerminalHistoryLog (b @ batch) = None"
proof -
  obtain w where w: "sh_writer h = Some w" "log_ready (sh_dir h) w seq P"
    using m(1) by (auto simp: may_append_def)
  with b(1) obtain g n bs where l: "w = \<lparr>sw_logGeneration = Some g, sw_logBytes = Some n\<rparr>" "n \<noteq> 0"
      "b = log_file g bs" "\<forall>b \<in> set bs. \<forall>r \<in> set (snd b). storable r"
      "\<forall>f \<in> set (frames_of bs). frame_fits f" "\<forall>b \<in> set bs. fst b \<le> seq"
    by (auto simp: log_ready_def)
  obtain batch where batch: "encodeLogBatch (seq + 2) recs = Inr batch"
    "sh_dir h' = (sh_dir h)\<lparr>sd_log := Some (b @ batch)\<rparr>"
    using append_done [OF app refl m(3) recs(1) _ l(2) m(2) b(1)] w(1) l(1) by blast
  have fr: "\<forall>f \<in> set (batch_frames (seq + 2) recs). frame_fits f"
    "batch = concat (map frame_bytes (batch_frames (seq + 2) recs))"
    using batch(1) by (simp_all add: encodeLogBatch_frames)
  have f: "b @ batch = log_file g (bs @ [(seq + 2, recs)])"
    by (simp add: l(3) fr(2) log_file_def frames_of_def)
  have "bs \<noteq> []"
    using b(2,3) l(3) by (auto simp: decode_whole_log [OF l(4,5)] split: if_splits)
  moreover have "\<forall>f \<in> set (frames_of (bs @ [(seq + 2, recs)])). frame_fits f"
    using l(5) fr(1) by (auto simp: frames_of_def)
  ultimately have "decodeTerminalHistoryLog (b @ batch) = None"
    unfolding f using l(4,6) recs(2) seq by (intro gap_unreadable) auto
  with batch(2) show ?thesis by blast
qed

lemma only_checkpoint:
  assumes "fresh_meta cols rows d" "sd_log d = Some b" "decodeTerminalHistoryLog b = None"
    "sd_checkpoint d \<noteq> Unreadable"
  shows "case detectColdRestore X False d of None \<Rightarrow> sd_checkpoint d = Missing
    | Some info \<Rightarrow> \<exists>ck. sd_checkpoint d = Content ck
        \<and> term_screen.truncate info = shown_screen (term_screen.truncate ck)"
proof -
  have "restoreFromIncrementalLog X d m ck = None" for m ck
    using assms(2,3) by (simp add: restoreFromIncrementalLog_def)
  with assms(1,4) show ?thesis
    by (auto simp: detectColdRestore_def fresh_meta_def read_checkpoint_def truncate_restored
        detectColdRestoreFromScrollback_def split: stored.splits)
qed

text \<open>A tick after which the checkpointer is as before appended what it took.\<close>

lemma not_cooling_marks:
  "\<not> isFullCheckpointCoolingDown cp now \<Longrightarrow> cp\<lparr>cp_lastFull := Some now\<rparr> \<noteq> cp"
  by (cases cp) (auto simp: isFullCheckpointCoolingDown_def FULL_CHECKPOINT_COOLDOWN_MS_def)

lemma tick_appends:
  assumes nd: "\<not> ss_disposed (rc_session s)" "\<not> cp_needsFull (rc_checkpointer s)"
    and s': "s' = snd (checkpointSession X True False env s)" "rc_checkpointer s' = rc_checkpointer s"
    and some: "ss_overflowed (rc_session s) \<or> ss_records (rc_session s) \<noteq> []"
  shows "\<not> ss_overflowed (rc_session s) \<and> (\<exists>h. appendIncrements (te_fault env)
      (Suc (ss_seq (rc_session s))) (ss_records (rc_session s)) (rc_history s) = (Append_ok, h)
    \<and> rc_history s' = h)"
proof -
  have full: "rc_checkpointer (takeSnapshotAndCheckpoint X env r)
      = (rc_checkpointer r)\<lparr>cp_lastFull := Some (te_now env)\<rparr>" if "\<not> ss_disposed (rc_session r)" for r
    using that by (simp add: takeSnapshotAndCheckpoint_def takePendingOutput_def Let_def)
  note marks = not_cooling_marks [of "rc_checkpointer s" "te_now env"]
  have owed: "rc_checkpointer (need_full True r) \<noteq> rc_checkpointer s" for r
    using nd(2) need_full_session(2) by metis
  obtain q h where a: "appendIncrements (te_fault env) (Suc (ss_seq (rc_session s)))
      (ss_records (rc_session s)) (rc_history s) = (q, h)" by force
  show ?thesis
    using nd s' some marks owed unfolding checkpointSession_def takePendingOutput_def
    by (cases q) (auto simp add: Let_def a full split: if_splits)
qed

text \<open>
  C38. A tick that finds nothing between two that append loses the log. Take any moment at which
  everything was taken and the log holds something; let a tick find nothing to take, let the
  session put out something and let the next tick append it, no write failing and no full
  checkpoint being made or owed. Then the log cannot be read at all, neither what was appended
  before nor what was appended now: only the checkpoint is restored, and nothing without one.
\<close>

theorem empty_take_loses_log:
  assumes "recovery_reach X cols rows (applied, s)"
    and "ss_records (rc_session s) = []" and "\<not> ss_overflowed (rc_session s)"
    and "sd_log (sh_dir (rc_history s)) = Some b" and "decodeTerminalHistoryLog b = Some c"
    and "lc_batches c \<noteq> []" and "ss_seq (rc_session s) + 2 < 2 ^ 32"
    and "s1 = snd (checkpointSession X True False env s)"
    and "data \<noteq> []" and "code_units data" and "well_formed_text data = data"
    and "s2 = s1\<lparr>rc_session := emitSubprocessOutput X data (rc_session s1)\<rparr>"
    and "s3 = snd (checkpointSession X True False env' s2)"
    and "\<not> cp_needsFull (rc_checkpointer s)" and "rc_checkpointer s3 = rc_checkpointer s"
    and "\<not> sh_disabled (rc_history s)" and "\<not> sh_disabled (rc_history s3)"
  shows "ss_records (rc_session s3) = []
    \<and> (\<exists>batch. sd_log (sh_dir (rc_history s3)) = Some (b @ batch)
        \<and> decodeTerminalHistoryLog (b @ batch) = None)
    \<and> sd_checkpoint (sh_dir (rc_history s3)) = sd_checkpoint (sh_dir (rc_history s))
    \<and> (case detectColdRestore X False (sh_dir (rc_history s3)) of
         None \<Rightarrow> sd_checkpoint (sh_dir (rc_history s3)) = Missing
       | Some info \<Rightarrow> \<exists>ck. sd_checkpoint (sh_dir (rc_history s3)) = Content ck
           \<and> term_screen.truncate info = shown_screen (term_screen.truncate ck))"
proof -
  let ?ss = "rc_session s" and ?h = "rc_history s"
  obtain A a where nd: "\<not> ss_disposed ?ss" and ma: "may_append ?h (ss_seq ?ss) (drop a A)"
    and dc: "disk_consistent X cols rows applied a (sh_dir ?h)"
    using inv_reach [OF assms(1)] assms(14,16)
    by (auto simp: recovery_inv_def manager_ok_def session_ok_def)
  have s1: "s1 = s\<lparr>rc_session := ?ss\<lparr>ss_records := [], ss_bytes := 0, ss_overflowed := False,
      ss_seq := ss_seq ?ss + 1\<rparr>\<rparr>"
    using nd assms(2,3,14) by (simp add: assms(8) checkpointSession_def takePendingOutput_def Let_def)
  have s2: "rc_history s2 = ?h" "rc_checkpointer s2 = rc_checkpointer s" "ss_seq (rc_session s2) = ss_seq ?ss + 1"
    "\<not> ss_disposed (rc_session s2)"
    "ss_overflowed (rc_session s2) \<or> ss_records (rc_session s2) = [Rec_output data]"
    using nd assms(9)
    by (simp_all add: assms(12) s1 emitSubprocessOutput_def recordPendingOutput_def coalesce_record_def)
  have "\<not> cp_needsFull (rc_checkpointer s3)" using assms(14,15) by simp
  note taken = tick_takes [OF s2(4) assms(13) this]
  obtain h3 where h3: "appendIncrements (te_fault env') (ss_seq ?ss + 2) [Rec_output data] ?h = (Append_ok, h3)"
    "rc_history s3 = h3" and r2: "ss_records (rc_session s2) = [Rec_output data]"
  proof -
    have "\<not> cp_needsFull (rc_checkpointer s2)" "rc_checkpointer s3 = rc_checkpointer s2"
      "ss_overflowed (rc_session s2) \<or> ss_records (rc_session s2) \<noteq> []"
      using assms(14,15) s2(2,5) by auto
    from tick_appends [OF s2(4) this(1) assms(13) this(2,3)] show ?thesis
      using s2(1,3,5) by (auto intro: that)
  qed
  have "storable (Rec_output data)" using assms(10,11) by (simp add: storable_simps)
  then obtain batch where b: "sh_dir h3 = (sh_dir ?h)\<lparr>sd_log := Some (b @ batch)\<rparr>"
      "decodeTerminalHistoryLog (b @ batch) = None"
    using gap_appended [OF ma assms(16) _ assms(4-6) _ _ assms(7) h3(1)] assms(17) h3(2) by auto
  have "fresh_meta cols rows (sh_dir h3)" "sd_checkpoint (sh_dir h3) \<noteq> Unreadable"
    using dc by (auto simp: b(1) disk_consistent_def fresh_meta_def checkpoint_at_def)
  note left = only_checkpoint [OF this(1) _ b(2) this(2), of X]
  have "\<exists>batch. sd_log (sh_dir h3) = Some (b @ batch) \<and> decodeTerminalHistoryLog (b @ batch) = None"
    "sd_checkpoint (sh_dir h3) = sd_checkpoint (sh_dir ?h)"
    using b by auto
  with taken left show ?thesis unfolding h3(2) by (intro conjI) (simp_all add: b(1))
qed

theorem empty_take_loses_log_witness:
  "detectColdRestore text_terminal False (sh_dir (rc_history
     (quiet_tick text_terminal (put_letter text_terminal 98 (quiet_tick text_terminal
       (quiet_tick text_terminal (put_letter text_terminal 97
         (opened text_terminal [] [] 80 24)))))))) = None"
proof -
  let ?X = text_terminal
  define s1 where "s1 = quiet_tick ?X (put_letter ?X 97 (opened ?X [] [] 80 24))"
  define s2 where "s2 = quiet_tick ?X s1"
  define s3 where "s3 = quiet_tick ?X (put_letter ?X 98 s2)"
  have l1: "log_system 1 (Some (encodeLogHeader 0 @ letter_batch 1 97)) 24 s1"
    using log_system_first [OF log_system_opened, of 97] by (simp add: s1_def)
  have l2: "log_system 2 (Some (encodeLogHeader 0 @ letter_batch 1 97)) 24 s2"
    using log_system_empty_tick [OF l1] by (simp add: s2_def numeral_2_eq_2)
  have l3: "log_system 3 (Some (encodeLogHeader 0 @ letter_batch 1 97 @ letter_batch 3 98)) 39 s3"
    using log_system_next [OF l2, of 98] by (simp add: s3_def numeral_3_eq_3)
  have r: "recovery_reach ?X 80 24 ([Rec_output [97]], s1)"
    unfolding s1_def by (rule reach_quiet [OF reach_first_letter])
  obtain c where c: "decodeTerminalHistoryLog (encodeLogHeader 0 @ letter_batch 1 97) = Some c"
    "lc_batches c \<noteq> []" using letter_readable by blast
  have p: "code_units [98]" "well_formed_text [98] = [98]"
    by (simp_all add: code_units_def surrogate_def high_surrogate_def low_surrogate_def)
  have "case detectColdRestore ?X False (sh_dir (rc_history s3)) of
      None \<Rightarrow> sd_checkpoint (sh_dir (rc_history s3)) = Missing
    | Some info \<Rightarrow> \<exists>ck. sd_checkpoint (sh_dir (rc_history s3)) = Content ck
        \<and> term_screen.truncate info = shown_screen (term_screen.truncate ck)"
    using l1 l2 l3
    by (intro empty_take_loses_log [OF r _ _ _ c _ s2_def [unfolded quiet_tick_def] _ p refl
          s3_def [unfolded quiet_tick_def put_letter_def], THEN conjunct2, THEN conjunct2, THEN conjunct2])
      (simp_all add: log_system_def)
  with l3 show ?thesis
    unfolding s1_def [symmetric] s2_def [symmetric] s3_def [symmetric]
    by (auto simp: log_system_def split: option.splits)
qed

end
