(* ===== verification/History_Lifecycle.thy ===== *)
theory History_Lifecycle
  imports Recovery_Props
begin

section \<open>Sleep, wake and a clean end\<close>

text \<open>
  How the operations that end and reopen a session's history act on what is restored of it.
\<close>

lemma detect_meta_end:
  assumes "sd_meta d = Content m"
  shows "detectColdRestore X ignore (d\<lparr>sd_meta := Content (m\<lparr>sm_endedAt := e, sm_exitCode := c\<rparr>)\<rparr>) =
    (if e \<noteq> None \<and> \<not> ignore then None else detectColdRestore X True d)"
proof -
  let ?m = "m\<lparr>sm_endedAt := e, sm_exitCode := c\<rparr>" and ?d = "d\<lparr>sd_meta := Content (m\<lparr>sm_endedAt := e, sm_exitCode := c\<rparr>)\<rparr>"
  have r: "read_checkpoint ?d = read_checkpoint d" by (simp add: read_checkpoint_def)
  have same: "sm_cwd ?m = sm_cwd m" "sm_cols ?m = sm_cols m" "sm_rows ?m = sm_rows m" by simp_all
  have l: "sd_log ?d = sd_log d" "sd_scrollback ?d = sd_scrollback d" by simp_all
  have s: "coldRestoreInfoFromSnapshot t l w ?m = coldRestoreInfoFromSnapshot t l w m" for t l w
    unfolding coldRestoreInfoFromSnapshot_def same ..
  have e: "base_emulator X ?m ck = base_emulator X m ck" for ck unfolding base_emulator_def same ..
  have i: "restoreFromIncrementalLog X ?d ?m ck = restoreFromIncrementalLog X d m ck" for ck
    unfolding restoreFromIncrementalLog_def l same s e ..
  have b: "detectColdRestoreFromScrollback ?d ?m = detectColdRestoreFromScrollback d m"
    unfolding detectColdRestoreFromScrollback_def l same ..
  have m: "sd_meta ?d = Content ?m" "sm_endedAt ?m = e" by simp_all
  show ?thesis unfolding detectColdRestore_def m assms stored.case r i s b by simp
qed

lemma update_meta_done:
  "sd_meta d = Content m \<Longrightarrow> updateMeta e c None d =
     (True, None, d\<lparr>sd_meta := Content (m\<lparr>sm_endedAt := e, sm_exitCode := c\<rparr>)\<rparr>)"
  by (simp add: updateMeta_def disk_do_def)

text \<open>
  Sleep and wake. Closing a session's history ends it cleanly: it is not restored on its own,
  but who ignores the clean end restores what was there before; and reopening it makes it
  restorable again with the same content, without writing or removing any of it. Disposing of
  the manager ends it the same way.
\<close>

theorem sleep_wake:
  assumes "sh_writer h = Some w" and "sd_meta (sh_dir h) = Content m"
    and "asleep = closeSession None now code h \<or> asleep = dispose_history None now h"
  shows "detectColdRestore X False (sh_dir asleep) = None
    \<and> detectColdRestore X True (sh_dir asleep) = detectColdRestore X True (sh_dir h)
    \<and> detectColdRestore X False (sh_dir (reopenSession None asleep)) = detectColdRestore X True (sh_dir h)
    \<and> sh_writer asleep = None
    \<and> sh_writer (reopenSession None asleep) = Some \<lparr>sw_logGeneration = None, sw_logBytes = None\<rparr>
    \<and> sd_checkpoint (sh_dir (reopenSession None asleep)) = sd_checkpoint (sh_dir h)
    \<and> sd_log (sh_dir (reopenSession None asleep)) = sd_log (sh_dir h)"
proof -
  obtain c where a: "sh_writer asleep = None" "sh_dir asleep = (sh_dir h)\<lparr>sd_meta :=
      Content (m\<lparr>sm_endedAt := Some now, sm_exitCode := c\<rparr>)\<rparr>"
    using assms by (auto simp: closeSession_def dispose_history_def update_meta_done Let_def)
  let ?m = "m\<lparr>sm_endedAt := Some now, sm_exitCode := c\<rparr>"
  have r: "sh_writer (reopenSession None asleep) = Some \<lparr>sw_logGeneration = None, sw_logBytes = None\<rparr>"
    "sh_dir (reopenSession None asleep) =
       (sh_dir h)\<lparr>sd_meta := Content (m\<lparr>sm_endedAt := None, sm_exitCode := None\<rparr>)\<rparr>"
    using a by (simp_all add: reopenSession_def registerWriter_def update_meta_done Let_def)
  have "detectColdRestore X False (sh_dir asleep) = None"
    "detectColdRestore X True (sh_dir asleep) = detectColdRestore X True (sh_dir h)"
    "detectColdRestore X False (sh_dir (reopenSession None asleep)) = detectColdRestore X True (sh_dir h)"
    unfolding a r detect_meta_end [OF assms(2)] by simp_all
  then show ?thesis by (simp add: a(1) r)
qed

theorem sleep_wake_witness:
  "detectColdRestore text_terminal False
     (sh_dir (closeSession None [50] 0 (rc_history (opened text_terminal [] [] 80 24)))) = None"
proof -
  let ?h = "rc_history (opened text_terminal [] [] 80 24)"
  have "\<exists>w m. sh_writer ?h = Some w \<and> sd_meta (sh_dir ?h) = Content m"
    by (simp add: opened_def openSession_def disk_do_def empty_dir_def Let_def)
  then obtain w m where "sh_writer ?h = Some w" "sd_meta (sh_dir ?h) = Content m" by blast
  then show ?thesis by (rule sleep_wake [THEN conjunct1]) (rule disjI1, rule refl)
qed

end
