(* ===== verification/Base64.thy ===== *)
theory Base64
  imports Byte_Stream
begin

section \<open>Base64\<close>

text \<open>
  \<open>toString('base64')\<close> and \<open>Buffer.from(s, 'base64')\<close> of the platform: three bytes are four
  digits, the last group is filled with \<open>=\<close>; the decoder skips whatever is not a digit and
  also reads the digits of the URL alphabet. \<open>base64_decode_encode\<close> is the round trip.
\<close>

definition base64_char :: "nat \<Rightarrow> nat" where
  "base64_char d =
     (if d < 26 then 65 + d else if d < 52 then 71 + d else if d < 62 then d - 4
      else if d = 62 then 43 else 47)"

definition base64_value :: "nat \<Rightarrow> nat option" where
  "base64_value u =
     (if 65 \<le> u \<and> u \<le> 90 then Some (u - 65)
      else if 97 \<le> u \<and> u \<le> 122 then Some (u - 71)
      else if 48 \<le> u \<and> u \<le> 57 then Some (u + 4)
      else if u = 43 \<or> u = 45 then Some 62
      else if u = 47 \<or> u = 95 then Some 63
      else None)"

fun base64_digits_of :: "nat list \<Rightarrow> nat list" where
  "base64_digits_of [] = []"
| "base64_digits_of [a] = [a div 4, a mod 4 * 16]"
| "base64_digits_of [a, b] = [a div 4, a mod 4 * 16 + b div 16, b mod 16 * 4]"
| "base64_digits_of (a # b # c # bs) =
     [a div 4, a mod 4 * 16 + b div 16, b mod 16 * 4 + c div 64, c mod 64] @ base64_digits_of bs"

fun base64_bytes_of :: "nat list \<Rightarrow> nat list" where
  "base64_bytes_of (p # q # r # s # ds) =
     [p * 4 + q div 16, q mod 16 * 16 + r div 4, r mod 4 * 64 + s] @ base64_bytes_of ds"
| "base64_bytes_of [p, q, r] = [p * 4 + q div 16, q mod 16 * 16 + r div 4]"
| "base64_bytes_of [p, q] = [p * 4 + q div 16]"
| "base64_bytes_of _ = []"

definition base64_encode :: "byte list \<Rightarrow> jsstr" where
  "base64_encode bs = map base64_char (base64_digits_of (map unat bs))
     @ replicate ((3 - length bs mod 3) mod 3) 61"

definition base64_decode :: "jsstr \<Rightarrow> byte list" where
  "base64_decode s = map word_of_nat (base64_bytes_of (List.map_filter base64_value s))"

lemma base64_value_char: "d < 64 \<Longrightarrow> base64_value (base64_char d) = Some d"
proof -
  assume "d < 64"
  then consider "d < 26" | "26 \<le> d" "d < 52" | "52 \<le> d" "d < 62" | "d = 62" | "d = 63" by linarith
  then show ?thesis by cases (auto simp: base64_value_def base64_char_def)
qed

lemma base64_digits_bound:
  "\<forall>b \<in> set bs. b < 256 \<Longrightarrow> \<forall>d \<in> set (base64_digits_of bs). d < 64"
  by (induction bs rule: base64_digits_of.induct) (auto simp: less_mult_imp_div_less)

lemma base64_bytes_digits: "\<forall>b \<in> set bs. b < 256 \<Longrightarrow> base64_bytes_of (base64_digits_of bs) = bs"
  by (induction bs rule: base64_digits_of.induct) auto

lemma filter_base64_digits:
  "\<forall>d \<in> set ds. d < 64 \<Longrightarrow> List.map_filter base64_value (map base64_char ds) = ds"
  by (induction ds) (simp_all add: base64_value_char)

lemma filter_base64_append:
  "List.map_filter f (xs @ ys) = List.map_filter f xs @ List.map_filter f ys"
  by (simp add: List.map_filter_def)

lemma filter_base64_pad: "List.map_filter base64_value (replicate n 61) = []"
  by (induction n) (simp_all add: base64_value_def)

theorem base64_decode_encode: "base64_decode (base64_encode bs) = bs"
proof -
  have b: "\<forall>b \<in> set (map unat bs). b < 256" by (auto intro: byte_bound)
  show ?thesis
    unfolding base64_decode_def base64_encode_def filter_base64_append filter_base64_pad
      filter_base64_digits [OF base64_digits_bound [OF b]] append_Nil2 base64_bytes_digits [OF b]
    by (simp add: comp_def)
qed

end
