(* ===== verification/Json_Bytes.thy ===== *)
theory Json_Bytes
  imports Js_Json Utf8
begin

section \<open>JSON as bytes\<close>

text \<open>
  \<open>Buffer.from(JSON.stringify(v), 'utf-8')\<close> and back. \<open>JSON.stringify\<close> escapes every surrogate
  without a partner, so its text survives UTF-8 whatever the strings are; \<open>json_bytes\<close> is the
  round trip.
\<close>

fun json_units :: "json \<Rightarrow> bool" where
  "json_units (JNum l) = code_units l"
| "json_units (JStr s) = code_units s"
| "json_units (JArr vs) = list_all json_units vs"
| "json_units (JObj ms) = list_all (\<lambda>m. code_units (fst m) \<and> json_units (snd m)) ms"
| "json_units _ = True"

definition portable :: "jsstr \<Rightarrow> bool" where
  "portable s = (code_units s \<and> well_formed_text s = s)"

lemma portable_append: "portable a \<Longrightarrow> portable b \<Longrightarrow> portable (a @ b)"
  by (auto simp: portable_def code_units_def well_formed_append)

lemma portable_Cons: "u < 0xD800 \<Longrightarrow> portable s \<Longrightarrow> portable (u # s)"
  by (simp add: portable_def code_units_def well_formed_plain surrogate_def high_surrogate_def
      low_surrogate_def)

lemma portable_Nil: "portable []"
  by (simp add: portable_def code_units_def)

lemma portable_ascii: "\<forall>u \<in> set s. u < 0xD800 \<Longrightarrow> portable s"
  by (induction s) (simp_all add: portable_Nil portable_Cons)

lemma hex_digit_bound: "hex_digit d < 0xD800 \<longleftrightarrow> d < 0xD800 - 87"
  by (simp add: hex_digit_def)

lemma portable_escape: "portable (unicode_escape u)"
proof -
  have "hex_digit (n mod 16) < 0xD800" for n
    using mod_less_divisor [of 16 n] by (simp add: hex_digit_bound)
  then show ?thesis by (intro portable_ascii) (simp add: unicode_escape_def)
qed

lemma portable_unit: "u < 0x10000 \<Longrightarrow> \<not> surrogate u \<Longrightarrow> portable [u]"
  by (simp add: portable_def code_units_def)

lemma portable_quote_unit: "u < 0x10000 \<Longrightarrow> \<not> surrogate u \<Longrightarrow> portable (quote_unit u)"
  by (auto simp: quote_unit_def portable_escape portable_unit portable_Nil intro!: portable_Cons)

lemma portable_pair:
  "high_surrogate u \<Longrightarrow> low_surrogate v \<Longrightarrow> u < 0x10000 \<Longrightarrow> v < 0x10000 \<Longrightarrow> portable [u, v]"
  by (simp add: portable_def code_units_def)

lemma portable_quote_units: "code_units s \<Longrightarrow> portable (quote_units s)"
proof (induction s rule: quote_units.induct)
  case (2 u)
  then show ?case
    by (auto simp: portable_escape code_units_def surrogate_def intro: portable_quote_unit)
next
  case (3 u v s)
  show ?case
  proof (cases "high_surrogate u \<and> low_surrogate v")
    case True
    with 3 have "portable ([u, v] @ quote_units s)"
      by (intro portable_append portable_pair) (simp_all add: code_units_def)
    with True show ?thesis by simp
  next
    case False
    with 3 show ?thesis
      by (auto simp: code_units_def surrogate_def
          intro!: portable_append portable_escape portable_quote_unit)
  qed
qed (simp add: portable_Nil)

lemma portable_quote: "code_units s \<Longrightarrow> portable (json_quote s)"
  unfolding json_quote_def
  by (intro portable_Cons portable_append portable_quote_units portable_ascii) simp_all

lemma portable_number: "num_ok l \<Longrightarrow> portable l"
  by (intro portable_ascii) (cases l; auto simp: num_ok_def digits_ok_def list_all_iff is_digit_def)

lemma portable_stringify:
  "json_ok v \<Longrightarrow> json_units v \<Longrightarrow> portable (json_stringify v)"
  "list_all json_ok vs \<Longrightarrow> list_all json_units vs \<Longrightarrow> portable (stringify_elems vs)"
  "list_all (\<lambda>m. json_ok (snd m)) ms \<Longrightarrow>
     list_all (\<lambda>m. code_units (fst m) \<and> json_units (snd m)) ms \<Longrightarrow> portable (stringify_members ms)"
  by (induction v and vs and ms rule: json_stringify_stringify_elems_stringify_members.induct)
    (auto intro!: portable_Cons portable_append simp: portable_Nil portable_quote portable_number)

theorem json_bytes:
  assumes "json_ok v" "json_units v"
  shows "json_parse (utf8_decode (utf8_encode (json_stringify v))) = Some v"
  using portable_stringify(1) [OF assms] json_parse_stringify [OF assms(1)]
  by (simp add: portable_def utf8_decode_encode)

end
