(* ===== verification/Git_Stream.thy ===== *)
theory Git_Stream
  imports Base64 Json_Bytes
begin

section \<open>Streaming a large git response\<close>

text \<open>
  \<open>src/src/relay/git-response-stream.ts\<close> cuts a large response into chunks on the bulk lane of the
  relay, with at most four of them unacknowledged; \<open>src/src/main/ssh/ssh-git-response-stream-reader.ts\<close>
  puts them together again. A pump is an asynchronous function: a \<open>pump_phase\<close> says at which
  \<open>await\<close> it stands, and each definition is what runs from there to the next one.
\<close>

subsection \<open>The relay: one stream\<close>

definition GIT_RESPONSE_CHUNK_SIZE :: nat where "GIT_RESPONSE_CHUNK_SIZE = 128 * 1024"
definition STREAM_ACK_WINDOW_CHUNKS :: int where "STREAM_ACK_WINDOW_CHUNKS = 4"
definition GIT_RESPONSE_STREAM_THRESHOLD :: nat where "GIT_RESPONSE_STREAM_THRESHOLD = 256 * 1024"

text \<open>
  A chunk carries its number and data as they are received: \<open>None\<close> is a value of another type.
\<close>

datatype git_notif =
    Response_chunk nat "int option" "jsstr option"
  | Response_end nat
  | Response_error nat jsstr

datatype pump_phase =
    Pump_start                \<comment> \<open>\<open>setImmediate\<close>\<close>
  | Pump_waiting nat bool     \<comment> \<open>\<open>waitForAck\<close>, and whether its waiter was called\<close>
  | Pump_sending nat          \<comment> \<open>a chunk on the bulk lane, not yet written\<close>
  | Pump_sent nat             \<comment> \<open>written, the sink may be saturated\<close>
  | Pump_ending
  | Pump_failing jsstr
  | Pump_closing              \<comment> \<open>the last frame is written\<close>
  | Pump_over

record git_stream =
  gs_id :: nat
  gs_ownerClientId :: nat
  gs_aborted :: bool
  gs_ackedThroughSeq :: int
  gs_registered :: bool
  gs_stale :: bool
  gs_chunks :: "jsstr list"
  gs_phase :: pump_phase

function encodeChunks :: "byte list \<Rightarrow> jsstr list" where
  "encodeChunks payload =
     (if payload = [] then []
      else base64_encode (take GIT_RESPONSE_CHUNK_SIZE payload)
        # encodeChunks (drop GIT_RESPONSE_CHUNK_SIZE payload))"
  by pat_completeness auto
termination by (relation "measure length") (auto simp: GIT_RESPONSE_CHUNK_SIZE_def)

declare encodeChunks.simps [simp del]

text \<open>\<open>wake\<close> calls the waiter of a pump that is parked.\<close>

definition wake :: "git_stream \<Rightarrow> git_stream" where
  "wake s = (case gs_phase s of
     Pump_waiting seq _ \<Rightarrow> s\<lparr>gs_phase := Pump_waiting seq True\<rparr> | _ \<Rightarrow> s)"

definition ack_stream :: "int \<Rightarrow> nat \<Rightarrow> git_stream \<Rightarrow> git_stream" where
  "ack_stream seq clientId s =
     (if gs_ownerClientId s \<noteq> clientId then s
      else wake (s\<lparr>gs_ackedThroughSeq := max seq (gs_ackedThroughSeq s)\<rparr>))"

definition abort_stream :: "nat \<Rightarrow> git_stream \<Rightarrow> git_stream" where
  "abort_stream clientId s =
     (if gs_ownerClientId s = clientId then wake (s\<lparr>gs_aborted := True\<rparr>) else s)"

definition dispose_stream :: "git_stream \<Rightarrow> git_stream" where
  "dispose_stream s = (wake (s\<lparr>gs_aborted := True\<rparr>))\<lparr>gs_registered := False\<rparr>"

text \<open>The inner loop: wait for credit, then give up or send.\<close>

definition pump_window :: "nat \<Rightarrow> git_stream \<Rightarrow> pump_phase" where
  "pump_window seq s =
     (if int seq - gs_ackedThroughSeq s > STREAM_ACK_WINDOW_CHUNKS \<and> \<not> gs_stale s \<and> \<not> gs_aborted s
      then Pump_waiting seq False
      else if gs_stale s \<or> gs_aborted s then Pump_over
      else Pump_sending seq)"

definition pump_turn :: "nat \<Rightarrow> git_stream \<Rightarrow> pump_phase" where
  "pump_turn seq s =
     (if length (gs_chunks s) \<le> seq then Pump_ending
      else if gs_stale s \<or> gs_aborted s then Pump_over
      else pump_window seq s)"

text \<open>The \<open>finally\<close> block deletes the stream.\<close>

definition pump_to :: "pump_phase \<Rightarrow> git_stream \<Rightarrow> git_stream" where
  "pump_to phase s = s\<lparr>gs_phase := phase, gs_registered := gs_registered s \<and> phase \<noteq> Pump_over\<rparr>"

definition pump_begin :: "git_stream \<Rightarrow> git_stream" where
  "pump_begin s = (case gs_phase s of
     Pump_start \<Rightarrow> if gs_registered s then pump_to (pump_turn 0 s) s else pump_to Pump_over s
   | _ \<Rightarrow> s)"

definition pump_resume :: "git_stream \<Rightarrow> git_stream" where
  "pump_resume s = (case gs_phase s of
     Pump_waiting seq True \<Rightarrow> pump_to (pump_window seq s) s | _ \<Rightarrow> s)"

text \<open>A write of the bulk lane; nothing is written to a client that is gone.\<close>

definition pump_write :: "bool \<Rightarrow> git_stream \<Rightarrow> git_stream \<times> git_notif list" where
  "pump_write writable s = (case gs_phase s of
     Pump_sending seq \<Rightarrow>
       (pump_to (Pump_sent seq) s,
        if writable then [Response_chunk (gs_id s) (Some (int seq)) (Some (gs_chunks s ! seq))] else [])
   | Pump_ending \<Rightarrow> (pump_to Pump_closing s, if writable then [Response_end (gs_id s)] else [])
   | Pump_failing message \<Rightarrow>
       (pump_to Pump_closing s, if writable then [Response_error (gs_id s) message] else [])
   | _ \<Rightarrow> (s, []))"

definition pump_drained :: "git_stream \<Rightarrow> git_stream" where
  "pump_drained s = (case gs_phase s of
     Pump_sent seq \<Rightarrow> pump_to (pump_turn (seq + 1) s) s
   | Pump_closing \<Rightarrow> pump_to Pump_over s
   | _ \<Rightarrow> s)"

definition pump_throws :: "jsstr \<Rightarrow> git_stream \<Rightarrow> git_stream" where
  "pump_throws message s =
     (if (\<exists>seq. gs_phase s = Pump_sending seq) \<or> gs_phase s = Pump_ending
      then pump_to (if gs_stale s \<or> gs_aborted s then Pump_over else Pump_failing message) s
      else (case gs_phase s of Pump_failing _ \<Rightarrow> pump_to Pump_over s | _ \<Rightarrow> s))"

subsection \<open>The registry\<close>

record git_streams =
  gr_streams :: "git_stream list"
  gr_nextId :: nat

definition on_stream :: "nat \<Rightarrow> (git_stream \<Rightarrow> git_stream) \<Rightarrow> git_streams \<Rightarrow> git_streams" where
  "on_stream i f r = r\<lparr>gr_streams :=
     map (\<lambda>s. if gs_id s = i \<and> gs_registered s then f s else s) (gr_streams r)\<rparr>"

definition recordAck :: "nat \<Rightarrow> int \<Rightarrow> nat \<Rightarrow> git_streams \<Rightarrow> git_streams" where
  "recordAck i seq clientId = on_stream i (ack_stream seq clientId)"

definition abort_response :: "nat \<Rightarrow> nat \<Rightarrow> git_streams \<Rightarrow> git_streams" where
  "abort_response i clientId = on_stream i (abort_stream clientId)"

definition wakeAll :: "git_streams \<Rightarrow> git_streams" where
  "wakeAll r = r\<lparr>gr_streams := map (\<lambda>s. if gs_registered s then wake s else s) (gr_streams r)\<rparr>"

definition disposeAll :: "git_streams \<Rightarrow> git_streams" where
  "disposeAll r = r\<lparr>gr_streams :=
     map (\<lambda>s. if gs_registered s then dispose_stream s else s) (gr_streams r)\<rparr>"

definition new_stream :: "nat \<Rightarrow> nat \<Rightarrow> byte list \<Rightarrow> git_stream" where
  "new_stream i clientId payload =
     \<lparr>gs_id = i, gs_ownerClientId = clientId, gs_aborted = False, gs_ackedThroughSeq = - 1,
      gs_registered = True, gs_stale = False, gs_chunks = encodeChunks payload,
      gs_phase = Pump_start\<rparr>"

text \<open>What a git request is answered with: its result, or the announcement of a stream.\<close>

datatype git_response = Plain_result json | Stream_marker nat nat nat

definition startStream ::
  "byte list \<Rightarrow> nat \<Rightarrow> git_streams \<Rightarrow> git_response \<times> git_streams" where
  "startStream payload clientId r =
     (let s = new_stream (gr_nextId r) clientId payload
      in (Stream_marker (gs_id s) (length payload) (length (gs_chunks s)),
          r\<lparr>gr_streams := gr_streams r @ [s], gr_nextId := gr_nextId r + 1\<rparr>))"

definition maybeStreamResponse ::
  "json \<Rightarrow> bool \<Rightarrow> nat \<Rightarrow> git_streams \<Rightarrow> git_response \<times> git_streams" where
  "maybeStreamResponse result streamResponse clientId r =
     (let payload = utf8_encode (json_stringify result)
      in if \<not> streamResponse \<or> length payload \<le> GIT_RESPONSE_STREAM_THRESHOLD
         then (Plain_result result, r)
         else startStream payload clientId r)"

subsection \<open>The reader\<close>

datatype git_error =
    Malformed_chunk nat | Out_of_order nat nat int | Incomplete_stream nat nat nat nat nat
  | Parse_failed nat | Stream_failed jsstr | Stalled | Connection_lost | Mux_disposed
  | Cancelled | Request_failed

datatype git_outcome = Resolved json | Rejected git_error

datatype git_reply = Response_ack nat nat | Cancel_stream nat

record git_reader =
  rd_streamId :: "nat option"     \<comment> \<open>\<open>None\<close> before the response, \<open>SENTINEL_STREAM_ID\<close>\<close>
  rd_parts :: "byte list list"
  rd_expectedSeq :: nat
  rd_receivedBytes :: nat
  rd_totalBytes :: nat
  rd_chunkCount :: nat
  rd_settled :: "git_outcome option"
  rd_metadataReady :: bool
  rd_pending :: "git_notif list"
  rd_muxDisposed :: bool

definition MAX_PENDING_FRAMES :: nat where "MAX_PENDING_FRAMES = 64"

definition requestGitStreamable :: git_reader where
  "requestGitStreamable =
     \<lparr>rd_streamId = None, rd_parts = [], rd_expectedSeq = 0, rd_receivedBytes = 0,
      rd_totalBytes = 0, rd_chunkCount = 0, rd_settled = None, rd_metadataReady = False,
      rd_pending = [], rd_muxDisposed = False\<rparr>"

definition git_cancel :: "git_reader \<Rightarrow> git_reply list" where
  "git_cancel r = (case rd_streamId r of
     Some i \<Rightarrow> if rd_muxDisposed r then [] else [Cancel_stream i] | None \<Rightarrow> [])"

definition git_fail :: "git_error \<Rightarrow> git_reader \<Rightarrow> git_reader \<times> git_reply list" where
  "git_fail err r =
     (if rd_settled r \<noteq> None then (r, [])
      else (r\<lparr>rd_settled := Some (Rejected err)\<rparr>, git_cancel r))"

definition git_succeed :: "json \<Rightarrow> git_reader \<Rightarrow> git_reader" where
  "git_succeed v r = (if rd_settled r \<noteq> None then r else r\<lparr>rd_settled := Some (Resolved v)\<rparr>)"

definition handleChunk ::
  "nat \<Rightarrow> int option \<Rightarrow> jsstr option \<Rightarrow> git_reader \<Rightarrow> git_reader \<times> git_reply list" where
  "handleChunk i seq data r =
     (if rd_settled r \<noteq> None \<or> Some i \<noteq> rd_streamId r then (r, [])
      else (case (seq, data) of
          (Some n, Some d) \<Rightarrow>
            if n \<noteq> int (rd_expectedSeq r) then git_fail (Out_of_order i (rd_expectedSeq r) n) r
            else (let decoded = base64_decode d
                  in (r\<lparr>rd_parts := rd_parts r @ [decoded],
                        rd_receivedBytes := rd_receivedBytes r + length decoded,
                        rd_expectedSeq := rd_expectedSeq r + 1\<rparr>,
                      if rd_muxDisposed r then [] else [Response_ack i (rd_expectedSeq r)]))
        | _ \<Rightarrow> git_fail (Malformed_chunk i) r))"

definition handleEnd :: "nat \<Rightarrow> git_reader \<Rightarrow> git_reader \<times> git_reply list" where
  "handleEnd i r =
     (if rd_settled r \<noteq> None \<or> Some i \<noteq> rd_streamId r then (r, [])
      else if rd_expectedSeq r \<noteq> rd_chunkCount r \<or> rd_receivedBytes r \<noteq> rd_totalBytes r
      then git_fail (Incomplete_stream i (rd_expectedSeq r) (rd_chunkCount r)
             (rd_receivedBytes r) (rd_totalBytes r)) r
      else (case json_parse (utf8_decode (concat (rd_parts r))) of
              Some v \<Rightarrow> (git_succeed v r, [])
            | None \<Rightarrow> git_fail (Parse_failed i) r))"

definition handleStreamError :: "nat \<Rightarrow> jsstr \<Rightarrow> git_reader \<Rightarrow> git_reader \<times> git_reply list" where
  "handleStreamError i message r =
     (if rd_settled r \<noteq> None \<or> Some i \<noteq> rd_streamId r then (r, [])
      else git_fail (Stream_failed message) r)"

fun handle_notif :: "git_notif \<Rightarrow> git_reader \<Rightarrow> git_reader \<times> git_reply list" where
  "handle_notif (Response_chunk i seq data) r = handleChunk i seq data r"
| "handle_notif (Response_end i) r = handleEnd i r"
| "handle_notif (Response_error i message) r = handleStreamError i message r"

fun drainPending :: "git_notif list \<Rightarrow> git_reader \<Rightarrow> git_reader \<times> git_reply list" where
  "drainPending [] r = (r, [])"
| "drainPending (f # fs) r =
     (if rd_settled r \<noteq> None then (r, [])
      else (case handle_notif f r of (r1, out1) \<Rightarrow>
             (case drainPending fs r1 of (r2, out2) \<Rightarrow> (r2, out1 @ out2))))"

definition pushPending :: "git_notif \<Rightarrow> git_notif list \<Rightarrow> git_notif list" where
  "pushPending f pending =
     (let p = pending @ [f] in if MAX_PENDING_FRAMES < length p then tl p else p)"

text \<open>The events of a reader; once it is settled it is no longer subscribed to anything.\<close>

definition reader_notif :: "git_notif \<Rightarrow> git_reader \<Rightarrow> git_reader \<times> git_reply list" where
  "reader_notif f r =
     (if rd_settled r \<noteq> None then (r, [])
      else if \<not> rd_metadataReady r then (r\<lparr>rd_pending := pushPending f (rd_pending r)\<rparr>, [])
      else handle_notif f r)"

definition reader_response :: "git_response \<Rightarrow> git_reader \<Rightarrow> git_reader \<times> git_reply list" where
  "reader_response res r =
     (if rd_settled r \<noteq> None then (r, [])
      else (case res of
          Plain_result v \<Rightarrow> (git_succeed v r, [])
        | Stream_marker i nbytes count \<Rightarrow>
            drainPending (rd_pending r)
              (r\<lparr>rd_totalBytes := nbytes, rd_chunkCount := count, rd_streamId := Some i,
                 rd_metadataReady := True, rd_pending := []\<rparr>)))"

definition reader_stalls :: "git_reader \<Rightarrow> git_reader \<times> git_reply list" where
  "reader_stalls r = (if rd_metadataReady r then git_fail Stalled r else (r, []))"

definition reader_disposed :: "bool \<Rightarrow> git_reader \<Rightarrow> git_reader \<times> git_reply list" where
  "reader_disposed lost r =
     git_fail (if lost then Connection_lost else Mux_disposed) (r\<lparr>rd_muxDisposed := True\<rparr>)"

end
