(* ===== verification/Git_Stream_System.thy ===== *)
theory Git_Stream_System
  imports Git_Stream
begin

section \<open>The stream as a system\<close>

text \<open>
  A request that was answered with a stream: the pump of the relay, the reader, and between them
  the channel, which keeps the order in each direction. \<open>git_move\<close> are the steps of the protocol,
  \<open>git_noise\<close> what may happen besides (frames of other streams, the recheck timer of a parked
  pump), \<open>git_fault\<close> what may go wrong.
\<close>

datatype git_down = Down_response git_response | Down_notif git_notif

record git_system =
  gy_stream :: git_stream
  gy_reader :: git_reader
  gy_down :: "git_down list"
  gy_up :: "git_reply list"
  gy_writable :: bool

definition receive :: "git_down \<Rightarrow> git_reader \<Rightarrow> git_reader \<times> git_reply list" where
  "receive m = (case m of Down_response res \<Rightarrow> reader_response res | Down_notif f \<Rightarrow> reader_notif f)"

text \<open>The handlers of the two notifications a client sends, for the stream they name.\<close>

definition on_reply :: "nat \<Rightarrow> git_reply \<Rightarrow> git_stream \<Rightarrow> git_stream" where
  "on_reply clientId m s = (case m of
     Response_ack i seq \<Rightarrow>
       if gs_id s = i \<and> gs_registered s then ack_stream (int seq) clientId s else s
   | Cancel_stream i \<Rightarrow>
       if gs_id s = i \<and> gs_registered s then abort_stream clientId s else s)"

definition of_reader :: "git_system \<Rightarrow> git_reader \<times> git_reply list \<Rightarrow> git_system" where
  "of_reader g q = g\<lparr>gy_reader := fst q, gy_up := gy_up g @ snd q\<rparr>"

definition of_pump :: "git_system \<Rightarrow> git_stream \<times> git_notif list \<Rightarrow> git_system" where
  "of_pump g q = g\<lparr>gy_stream := fst q, gy_down := gy_down g @ map Down_notif (snd q)\<rparr>"

definition pump_can_write :: "git_stream \<Rightarrow> bool" where
  "pump_can_write s = (case gs_phase s of
     Pump_sending _ \<Rightarrow> True | Pump_ending \<Rightarrow> True | Pump_failing _ \<Rightarrow> True | _ \<Rightarrow> False)"

inductive git_move :: "git_system \<Rightarrow> git_system \<Rightarrow> bool" where
  Begin: "gs_phase (gy_stream g) = Pump_start \<Longrightarrow>
    git_move g (g\<lparr>gy_stream := pump_begin (gy_stream g)\<rparr>)"
| Resume: "gs_phase (gy_stream g) = Pump_waiting seq True \<Longrightarrow>
    git_move g (g\<lparr>gy_stream := pump_resume (gy_stream g)\<rparr>)"
| Write: "pump_can_write (gy_stream g) \<Longrightarrow>
    git_move g (of_pump g (pump_write (gy_writable g) (gy_stream g)))"
| Drained: "gs_phase (gy_stream g) = Pump_sent seq \<or> gs_phase (gy_stream g) = Pump_closing \<Longrightarrow>
    git_move g (g\<lparr>gy_stream := pump_drained (gy_stream g)\<rparr>)"
| Receive: "gy_down g = m # down \<Longrightarrow>
    git_move g (of_reader (g\<lparr>gy_down := down\<rparr>) (receive m (gy_reader g)))"
| Reply: "gy_up g = m # up \<Longrightarrow>
    git_move g (g\<lparr>gy_stream := on_reply (gs_ownerClientId (gy_stream g)) m (gy_stream g),
      gy_up := up\<rparr>)"

fun notif_stream :: "git_notif \<Rightarrow> nat" where
  "notif_stream (Response_chunk i _ _) = i"
| "notif_stream (Response_end i) = i"
| "notif_stream (Response_error i _) = i"

inductive git_noise :: "git_system \<Rightarrow> git_system \<Rightarrow> bool" where
  Foreign: "notif_stream f \<noteq> gs_id (gy_stream g) \<Longrightarrow>
    git_noise g (of_reader g (reader_notif f (gy_reader g)))"
| Foreign_ack: "clientId \<noteq> gs_ownerClientId (gy_stream g) \<or> i \<noteq> gs_id (gy_stream g) \<Longrightarrow>
    git_noise g (g\<lparr>gy_stream := on_reply clientId (Response_ack i seq) (gy_stream g)\<rparr>)"
| Timer: "git_noise g (g\<lparr>gy_stream := wake (gy_stream g)\<rparr>)"

inductive git_fault :: "git_system \<Rightarrow> git_system \<Rightarrow> bool" where
  Detached: "git_fault g (g\<lparr>gy_stream := wake ((gy_stream g)\<lparr>gs_stale := True\<rparr>),
    gy_writable := False\<rparr>)"
| Send_throws: "git_fault g (g\<lparr>gy_stream := pump_throws message (gy_stream g)\<rparr>)"
| Relay_disposed: "gs_registered (gy_stream g) \<Longrightarrow>
    git_fault g (g\<lparr>gy_stream := dispose_stream (gy_stream g)\<rparr>)"
| Cancels: "git_fault g (of_reader g (git_fail Cancelled (gy_reader g)))"
| Request_fails: "git_fault g (of_reader g (git_fail Request_failed (gy_reader g)))"
| Stalls: "git_fault g (of_reader g (reader_stalls (gy_reader g)))"
| Disposed: "git_fault g (of_reader g (reader_disposed lost (gy_reader g)))"

definition git_start :: "byte list \<Rightarrow> nat \<Rightarrow> git_streams \<Rightarrow> git_system" where
  "git_start payload clientId r = (case startStream payload clientId r of (res, r') \<Rightarrow>
     \<lparr>gy_stream = last (gr_streams r'), gy_reader = requestGitStreamable,
      gy_down = [Down_response res], gy_up = [], gy_writable = True\<rparr>)"

text \<open>The systems that are reached, and whether without a fault.\<close>

inductive git_reach :: "byte list \<Rightarrow> bool \<Rightarrow> git_system \<Rightarrow> bool" for payload where
  Start: "git_reach payload True (git_start payload clientId r)"
| Move: "git_reach payload sound g \<Longrightarrow> git_move g g' \<Longrightarrow> git_reach payload sound g'"
| Noise: "git_reach payload sound g \<Longrightarrow> git_noise g g' \<Longrightarrow> git_reach payload sound g'"
| Fault: "git_reach payload sound g \<Longrightarrow> git_fault g g' \<Longrightarrow> git_reach payload False g'"

subsection \<open>Chunks\<close>

lemma chunks_payload: "concat (map base64_decode (encodeChunks payload)) = payload"
proof (induction payload rule: encodeChunks.induct)
  case (1 payload)
  then show ?case
    by (subst encodeChunks.simps) (simp add: base64_decode_encode)
qed

text \<open>The frames of the chunks from \<open>i\<close> to before \<open>j\<close>.\<close>

definition chunk_frames :: "nat \<Rightarrow> jsstr list \<Rightarrow> nat \<Rightarrow> nat \<Rightarrow> git_notif list" where
  "chunk_frames i cs a b = map (\<lambda>n. Response_chunk i (Some (int n)) (Some (cs ! n))) [a..<b]"

lemma chunk_frames_Cons: "a < b \<Longrightarrow>
  chunk_frames i cs a b = Response_chunk i (Some (int a)) (Some (cs ! a)) # chunk_frames i cs (a + 1) b"
  by (simp add: chunk_frames_def upt_conv_Cons)

lemma chunk_frames_empty [simp]: "chunk_frames i cs a a = []"
  by (simp add: chunk_frames_def)

lemma chunk_frames_snoc: "a \<le> b \<Longrightarrow>
  chunk_frames i cs a (b + 1) = chunk_frames i cs a b @ [Response_chunk i (Some (int b)) (Some (cs ! b))]"
  by (simp add: chunk_frames_def)

lemma length_chunk_frames [simp]: "length (chunk_frames i cs a b) = b - a"
  by (simp add: chunk_frames_def)

subsection \<open>The invariant\<close>

text \<open>How many chunks the pump has put on the bulk lane.\<close>

fun pump_position :: "pump_phase \<Rightarrow> nat \<Rightarrow> nat option" where
  "pump_position Pump_start n = Some 0"
| "pump_position (Pump_waiting seq _) n = Some seq"
| "pump_position (Pump_sending seq) n = Some seq"
| "pump_position (Pump_sent seq) n = Some (seq + 1)"
| "pump_position Pump_ending n = Some n"
| "pump_position _ n = None"

fun pump_inside :: "pump_phase \<Rightarrow> nat \<Rightarrow> bool" where
  "pump_inside (Pump_waiting seq _) n = (seq < n)"
| "pump_inside (Pump_sending seq) n = (seq < n)"
| "pump_inside (Pump_sent seq) n = (seq < n)"
| "pump_inside _ n = True"

definition pump_ended :: "pump_phase \<Rightarrow> bool" where
  "pump_ended p = (p = Pump_closing \<or> p = Pump_over)"

text \<open>The relay: \<open>m\<close> chunks were written, four of them at most unacknowledged.\<close>

definition relay_ok :: "nat \<Rightarrow> bool \<Rightarrow> nat \<Rightarrow> git_stream \<Rightarrow> bool" where
  "relay_ok n writable m s =
     (length (gs_chunks s) = n \<and> pump_inside (gs_phase s) n \<and> m \<le> n
      \<and> (case pump_position (gs_phase s) n of Some k \<Rightarrow> if writable then m = k else m \<le> k | None \<Rightarrow> True)
      \<and> int m \<le> gs_ackedThroughSeq s + 5
      \<and> (case gs_phase s of Pump_sending seq \<Rightarrow> int seq \<le> gs_ackedThroughSeq s + 4
         | Pump_waiting seq False \<Rightarrow> gs_ackedThroughSeq s + 4 < int seq | _ \<Rightarrow> True))"

text \<open>The reader before and after the response.\<close>

definition reader_fresh :: "nat \<Rightarrow> git_reader \<Rightarrow> bool" where
  "reader_fresh i r = (rd_streamId r = None \<and> \<not> rd_metadataReady r \<and> rd_parts r = []
     \<and> rd_expectedSeq r = 0 \<and> rd_receivedBytes r = 0 \<and> (\<forall>f \<in> set (rd_pending r). notif_stream f \<noteq> i))"

definition reader_ready :: "nat \<Rightarrow> jsstr list \<Rightarrow> nat \<Rightarrow> git_reader \<Rightarrow> bool" where
  "reader_ready i cs nbytes r = (rd_streamId r = Some i \<and> rd_metadataReady r
     \<and> rd_chunkCount r = length cs \<and> rd_totalBytes r = nbytes
     \<and> rd_parts r = map base64_decode (take (rd_expectedSeq r) cs)
     \<and> rd_receivedBytes r = length (concat (rd_parts r)))"
text \<open>The frames on their way: chunks from \<open>j\<close> on, and what ends the stream.\<close>

definition tail_ok :: "nat \<Rightarrow> nat \<Rightarrow> nat \<Rightarrow> pump_phase \<Rightarrow> git_notif list \<Rightarrow> bool" where
  "tail_ok i n m phase T = (T = [] \<or> pump_ended phase
     \<and> (T = [Response_end i] \<and> m = n \<or> (\<exists>message. T = [Response_error i message])))"

definition flow_ok ::
  "nat \<Rightarrow> jsstr list \<Rightarrow> nat \<Rightarrow> nat \<Rightarrow> nat \<Rightarrow> git_notif list \<Rightarrow> git_down list \<Rightarrow> git_reader \<Rightarrow> bool" where
  "flow_ok i cs nbytes m j T down r =
     (j \<le> m \<and> rd_expectedSeq r \<le> j \<and> (rd_settled r = None \<longrightarrow> rd_expectedSeq r = j)
      \<and> (down = Down_response (Stream_marker i nbytes (length cs))
                 # map Down_notif (chunk_frames i cs j m @ T) \<and> reader_fresh i r
         \<or> down = map Down_notif (chunk_frames i cs j m @ T)
           \<and> (rd_settled r = None \<longrightarrow> reader_ready i cs nbytes r)))"

definition acks_ok :: "nat \<Rightarrow> git_reply list \<Rightarrow> git_stream \<Rightarrow> git_reader \<Rightarrow> bool" where
  "acks_ok i up s r = (gs_ackedThroughSeq s < int (rd_expectedSeq r)
     \<and> (\<forall>q. Response_ack i q \<in> set up \<longrightarrow> q < rd_expectedSeq r))"

text \<open>Without a fault so far.\<close>

definition sound_ok ::
  "json \<Rightarrow> nat \<Rightarrow> git_system \<Rightarrow> nat \<Rightarrow> git_notif list \<Rightarrow> bool" where
  "sound_ok v n g m T = (let s = gy_stream g; r = gy_reader g in
     gy_writable g \<and> \<not> gs_stale s \<and> \<not> gs_aborted s \<and> gs_registered s = (gs_phase s \<noteq> Pump_over)
     \<and> (\<forall>message. gs_phase s \<noteq> Pump_failing message) \<and> \<not> rd_muxDisposed r
     \<and> (rd_settled r = None \<or> rd_settled r = Some (Resolved v) \<and> rd_expectedSeq r = n
          \<and> gy_down g = [] \<and> pump_ended (gs_phase s))
     \<and> (\<exists>a. (gs_registered s \<longrightarrow> gs_ackedThroughSeq s = int a - 1) \<and> a \<le> rd_expectedSeq r
          \<and> gy_up g = map (Response_ack (gs_id s)) [a..<rd_expectedSeq r])
     \<and> (pump_ended (gs_phase s) \<longrightarrow> m = n \<and> (T = [Response_end (gs_id s)] \<or> rd_settled r \<noteq> None))
     \<and> (\<forall>message. T \<noteq> [Response_error (gs_id s) message]))"

definition git_inv :: "byte list \<Rightarrow> json \<Rightarrow> bool \<Rightarrow> git_system \<Rightarrow> bool" where
  "git_inv payload v sound g = (\<exists>m j T. let s = gy_stream g; r = gy_reader g; cs = encodeChunks payload in
     gs_chunks s = cs \<and> relay_ok (length cs) (gy_writable g) m s
     \<and> tail_ok (gs_id s) (length cs) m (gs_phase s) T
     \<and> flow_ok (gs_id s) cs (length payload) m j T (gy_down g) r
     \<and> acks_ok (gs_id s) (gy_up g) s r
     \<and> (\<forall>w. rd_settled r = Some (Resolved w) \<longrightarrow> w = v)
     \<and> (sound \<longrightarrow> sound_ok v (length cs) g m T))"

lemma git_inv_start: "git_inv payload v True (git_start payload clientId r)"
proof -
  have "reader_fresh (gr_nextId r) requestGitStreamable"
    by (simp add: reader_fresh_def requestGitStreamable_def)
  then show ?thesis
    unfolding git_inv_def Let_def
    by (intro exI [of _ 0] exI [of _ "[]"])
      (simp add: git_start_def startStream_def new_stream_def Let_def relay_ok_def tail_ok_def
        flow_ok_def acks_ok_def sound_ok_def requestGitStreamable_def pump_ended_def)
qed

subsection \<open>Steps of the pump\<close>

lemma relay_window:
  assumes "length (gs_chunks s) = n" "seq < n" "m \<le> n" "int m \<le> gs_ackedThroughSeq s + 5"
    "if writable then m = seq else m \<le> seq"
  shows "relay_ok n writable m (pump_to (pump_window seq s) s)"
  using assms by (auto simp: relay_ok_def pump_to_def pump_window_def STREAM_ACK_WINDOW_CHUNKS_def)

lemma relay_turn:
  assumes "length (gs_chunks s) = n" "seq \<le> n" "m \<le> n" "int m \<le> gs_ackedThroughSeq s + 5"
    "if writable then m = seq else m \<le> seq"
  shows "relay_ok n writable m (pump_to (pump_turn seq s) s)"
proof -
  consider "n \<le> seq" | "seq < n" "gs_stale s \<or> gs_aborted s" | "seq < n" "\<not> (gs_stale s \<or> gs_aborted s)"
    by linarith
  then show ?thesis
  proof cases
    case 3
    then show ?thesis using relay_window [OF assms(1) _ assms(3-5)] assms(1) by (simp add: pump_turn_def)
  qed (use assms in \<open>auto simp: relay_ok_def pump_turn_def pump_to_def\<close>)
qed

lemma relay_begin: "relay_ok n writable m s \<Longrightarrow> relay_ok n writable m (pump_begin s)"
proof (cases "gs_phase s = Pump_start \<and> gs_registered s")
  case True
  assume "relay_ok n writable m s"
  with True have "relay_ok n writable m (pump_to (pump_turn 0 s) s)"
    by (intro relay_turn) (auto simp: relay_ok_def split: if_splits)
  with True show ?thesis by (simp add: pump_begin_def)
next
  case False
  assume "relay_ok n writable m s"
  with False show ?thesis
    by (auto simp: pump_begin_def relay_ok_def pump_to_def split: pump_phase.splits if_splits)
qed

lemma relay_resume:
  assumes "relay_ok n writable m s" "gs_phase s = Pump_waiting seq True"
  shows "relay_ok n writable m (pump_resume s)"
proof -
  have "relay_ok n writable m (pump_to (pump_window seq s) s)"
    using assms by (intro relay_window) (auto simp: relay_ok_def)
  with assms(2) show ?thesis by (simp add: pump_resume_def)
qed

lemma relay_drained: "relay_ok n writable m s \<Longrightarrow> relay_ok n writable m (pump_drained s)"
proof (cases "gs_phase s")
  case (Pump_sent seq)
  assume "relay_ok n writable m s"
  with Pump_sent have "relay_ok n writable m (pump_to (pump_turn (seq + 1) s) s)"
    by (intro relay_turn) (auto simp: relay_ok_def split: if_splits)
  with Pump_sent show ?thesis by (simp add: pump_drained_def)
qed (auto simp: pump_drained_def relay_ok_def pump_to_def)

lemma relay_wake: "relay_ok n writable m s \<Longrightarrow> relay_ok n writable m (wake s)"
  by (auto simp: wake_def relay_ok_def split: pump_phase.splits bool.splits if_splits)

lemma relay_closed: "relay_ok n writable m s \<Longrightarrow> relay_ok n False m s"
  by (auto simp: relay_ok_def split: option.splits if_splits)

lemma relay_flags:
  "relay_ok n writable m s \<Longrightarrow> relay_ok n writable m (s\<lparr>gs_aborted := a\<rparr>)"
  "relay_ok n writable m s \<Longrightarrow> relay_ok n writable m (s\<lparr>gs_stale := b\<rparr>)"
  "relay_ok n writable m s \<Longrightarrow> relay_ok n writable m (s\<lparr>gs_registered := c\<rparr>)"
  by (auto simp: relay_ok_def split: pump_phase.splits bool.splits if_splits)

lemma relay_ack: "relay_ok n writable m s \<Longrightarrow> relay_ok n writable m (ack_stream seq clientId s)"
  by (auto simp: ack_stream_def wake_def relay_ok_def split: pump_phase.splits bool.splits if_splits)

lemma relay_throws: "relay_ok n writable m s \<Longrightarrow> relay_ok n writable m (pump_throws message s)"
  by (auto simp: pump_throws_def pump_to_def relay_ok_def split: pump_phase.splits if_splits)
subsection \<open>Every step keeps the invariant\<close>

lemma pump_same [simp]:
  "gs_id (wake s) = gs_id s" "gs_chunks (wake s) = gs_chunks s" "gs_stale (wake s) = gs_stale s"
  "gs_aborted (wake s) = gs_aborted s" "gs_registered (wake s) = gs_registered s"
  "gs_ackedThroughSeq (wake s) = gs_ackedThroughSeq s" "gs_ownerClientId (wake s) = gs_ownerClientId s"
  "gs_id (pump_to p s) = gs_id s" "gs_chunks (pump_to p s) = gs_chunks s"
  "gs_stale (pump_to p s) = gs_stale s" "gs_aborted (pump_to p s) = gs_aborted s"
  "gs_ackedThroughSeq (pump_to p s) = gs_ackedThroughSeq s" "gs_phase (pump_to p s) = p"
  "gs_registered (pump_to p s) = (gs_registered s \<and> p \<noteq> Pump_over)"
  "gs_ownerClientId (pump_to p s) = gs_ownerClientId s"
  by (auto simp: wake_def pump_to_def split: pump_phase.split)

lemma wake_ended [simp]:
  "pump_ended (gs_phase (wake s)) = pump_ended (gs_phase s)"
  "(gs_phase (wake s) = Pump_over) = (gs_phase s = Pump_over)"
  "(gs_phase (wake s) = Pump_failing message) = (gs_phase s = Pump_failing message)"
  by (auto simp: wake_def pump_ended_def split: pump_phase.splits)

lemma inv_stream:
  assumes "git_inv payload v sound g"
    and "gs_id s' = gs_id (gy_stream g)" "gs_chunks s' = gs_chunks (gy_stream g)"
      "gs_ackedThroughSeq s' = gs_ackedThroughSeq (gy_stream g)"
    and "\<And>m. relay_ok (length (encodeChunks payload)) (gy_writable g) m (gy_stream g) \<Longrightarrow>
      relay_ok (length (encodeChunks payload)) w m s'"
    and "pump_ended (gs_phase (gy_stream g)) \<Longrightarrow> pump_ended (gs_phase s')"
    and "sound' \<Longrightarrow> sound \<and> w = gy_writable g \<and> gs_stale s' = gs_stale (gy_stream g)
      \<and> gs_aborted s' = gs_aborted (gy_stream g) \<and> gs_registered s' = (gs_phase s' \<noteq> Pump_over)
      \<and> (gs_registered s' \<longrightarrow> gs_registered (gy_stream g))
      \<and> (\<forall>message. gs_phase s' \<noteq> Pump_failing message)
      \<and> pump_ended (gs_phase s') = pump_ended (gs_phase (gy_stream g))"
  shows "git_inv payload v sound' (g\<lparr>gy_stream := s', gy_writable := w\<rparr>)"
proof -
  obtain m j T where
    i: "gs_chunks (gy_stream g) = encodeChunks payload"
      "relay_ok (length (encodeChunks payload)) (gy_writable g) m (gy_stream g)"
      "tail_ok (gs_id (gy_stream g)) (length (encodeChunks payload)) m (gs_phase (gy_stream g)) T"
      "flow_ok (gs_id (gy_stream g)) (encodeChunks payload) (length payload) m j T (gy_down g) (gy_reader g)"
      "acks_ok (gs_id (gy_stream g)) (gy_up g) (gy_stream g) (gy_reader g)"
      "\<forall>w. rd_settled (gy_reader g) = Some (Resolved w) \<longrightarrow> w = v"
      "sound \<longrightarrow> sound_ok v (length (encodeChunks payload)) g m T"
    using assms(1) unfolding git_inv_def Let_def by blast
  have "tail_ok (gs_id s') (length (encodeChunks payload)) m (gs_phase s') T"
    using i(3) assms(2,6) by (auto simp: tail_ok_def)
  moreover have "acks_ok (gs_id s') (gy_up g) s' (gy_reader g)"
    using i(5) assms(2,4) by (simp add: acks_ok_def)
  moreover have "sound' \<longrightarrow>
      sound_ok v (length (encodeChunks payload)) (g\<lparr>gy_stream := s', gy_writable := w\<rparr>) m T"
  proof
    assume s': sound'
    then have so: "sound_ok v (length (encodeChunks payload)) g m T" using i(7) assms(7) by blast
    then obtain a where "gs_registered (gy_stream g) \<longrightarrow> gs_ackedThroughSeq (gy_stream g) = int a - 1"
      "a \<le> rd_expectedSeq (gy_reader g)"
      "gy_up g = map (Response_ack (gs_id (gy_stream g))) [a..<rd_expectedSeq (gy_reader g)]"
      by (auto simp: sound_ok_def Let_def)
    then have "\<exists>a. (gs_registered s' \<longrightarrow> gs_ackedThroughSeq s' = int a - 1)
        \<and> a \<le> rd_expectedSeq (gy_reader g)
        \<and> gy_up g = map (Response_ack (gs_id s')) [a..<rd_expectedSeq (gy_reader g)]"
      using assms(2,4) assms(7) [OF s'] by (intro exI [of _ a]) simp
    with so assms(2) assms(7) [OF s']
    show "sound_ok v (length (encodeChunks payload)) (g\<lparr>gy_stream := s', gy_writable := w\<rparr>) m T"
      unfolding sound_ok_def Let_def by simp
  qed
  ultimately show ?thesis
    using i assms(2,3) assms(5) [OF i(2)] unfolding git_inv_def Let_def
    by (intro exI [of _ m] exI [of _ j] exI [of _ T]) simp
qed

lemma git_inv_weaken: "git_inv payload v sound g \<Longrightarrow> git_inv payload v False g"
  unfolding git_inv_def Let_def by blast

lemma sound_flags:
  "git_inv payload v True g \<Longrightarrow> \<not> gs_stale (gy_stream g) \<and> \<not> gs_aborted (gy_stream g)
     \<and> gs_registered (gy_stream g) = (gs_phase (gy_stream g) \<noteq> Pump_over)
     \<and> (\<forall>message. gs_phase (gy_stream g) \<noteq> Pump_failing message)"
  unfolding git_inv_def sound_ok_def Let_def by blast

lemma turn_going:
  "\<not> gs_stale s \<Longrightarrow> \<not> gs_aborted s \<Longrightarrow> pump_window seq s \<noteq> Pump_over \<and> \<not> pump_ended (pump_window seq s)
     \<and> pump_window seq s \<noteq> Pump_failing message"
  "\<not> gs_stale s \<Longrightarrow> \<not> gs_aborted s \<Longrightarrow> pump_turn seq s \<noteq> Pump_over \<and> \<not> pump_ended (pump_turn seq s)
     \<and> pump_turn seq s \<noteq> Pump_failing message"
  by (auto simp: pump_window_def pump_turn_def pump_ended_def)

lemma inv_pump:
  assumes "git_inv payload v sound g"
    and "\<And>m. relay_ok (length (encodeChunks payload)) (gy_writable g) m (gy_stream g) \<Longrightarrow>
      relay_ok (length (encodeChunks payload)) (gy_writable g) m s'"
    and "gs_id s' = gs_id (gy_stream g)" "gs_chunks s' = gs_chunks (gy_stream g)"
      "gs_ackedThroughSeq s' = gs_ackedThroughSeq (gy_stream g)"
    and "pump_ended (gs_phase (gy_stream g)) \<Longrightarrow> pump_ended (gs_phase s')"
    and "sound \<Longrightarrow> gs_stale s' = gs_stale (gy_stream g)
      \<and> gs_aborted s' = gs_aborted (gy_stream g) \<and> gs_registered s' = (gs_phase s' \<noteq> Pump_over)
      \<and> (gs_registered s' \<longrightarrow> gs_registered (gy_stream g))
      \<and> (\<forall>message. gs_phase s' \<noteq> Pump_failing message)
      \<and> pump_ended (gs_phase s') = pump_ended (gs_phase (gy_stream g))"
  shows "git_inv payload v sound (g\<lparr>gy_stream := s'\<rparr>)"
  using inv_stream [OF assms(1,3,4,5,2,6), of sound] assms(7) by simp

lemma inv_begin:
  assumes "git_inv payload v sound g" "gs_phase (gy_stream g) = Pump_start"
  shows "git_inv payload v sound (g\<lparr>gy_stream := pump_begin (gy_stream g)\<rparr>)"
  using assms turn_going(2) [of "gy_stream g" 0]
  by (intro inv_pump [OF assms(1)] relay_begin)
    (auto simp: pump_begin_def pump_ended_def dest!: sound_flags)

lemma inv_resume:
  assumes "git_inv payload v sound g" "gs_phase (gy_stream g) = Pump_waiting seq True"
  shows "git_inv payload v sound (g\<lparr>gy_stream := pump_resume (gy_stream g)\<rparr>)"
  using assms turn_going(1) [of "gy_stream g" seq]
  by (intro inv_pump [OF assms(1)] relay_resume [OF _ assms(2)])
    (auto simp: pump_resume_def pump_ended_def dest!: sound_flags)

lemma inv_drained:
  assumes "git_inv payload v sound g"
    "gs_phase (gy_stream g) = Pump_sent seq \<or> gs_phase (gy_stream g) = Pump_closing"
  shows "git_inv payload v sound (g\<lparr>gy_stream := pump_drained (gy_stream g)\<rparr>)"
  using assms turn_going(2) [of "gy_stream g" "seq + 1"]
  by (intro inv_pump [OF assms(1)] relay_drained)
    (auto simp: pump_drained_def pump_ended_def dest!: sound_flags)

lemma inv_timer: "git_inv payload v sound g \<Longrightarrow> git_inv payload v sound (g\<lparr>gy_stream := wake (gy_stream g)\<rparr>)"
  by (rule inv_pump) (auto intro: relay_wake dest!: sound_flags)
text \<open>Writing a frame.\<close>

lemma flow_chunk:
  assumes "flow_ok i cs nbytes m j [] down r"
  shows "flow_ok i cs nbytes (m + 1) j []
    (down @ [Down_notif (Response_chunk i (Some (int m)) (Some (cs ! m)))]) r"
  using assms chunk_frames_snoc [of j m i cs] by (auto simp: flow_ok_def)

lemma flow_tail:
  "flow_ok i cs nbytes m j [] down r \<Longrightarrow> flow_ok i cs nbytes m j [f] (down @ [Down_notif f]) r"
  by (auto simp: flow_ok_def)

lemma git_invE:
  assumes "git_inv payload v sound g"
  obtains m j T where "gs_chunks (gy_stream g) = encodeChunks payload"
    "relay_ok (length (encodeChunks payload)) (gy_writable g) m (gy_stream g)"
    "tail_ok (gs_id (gy_stream g)) (length (encodeChunks payload)) m (gs_phase (gy_stream g)) T"
    "flow_ok (gs_id (gy_stream g)) (encodeChunks payload) (length payload) m j T (gy_down g) (gy_reader g)"
    "acks_ok (gs_id (gy_stream g)) (gy_up g) (gy_stream g) (gy_reader g)"
    "\<forall>w. rd_settled (gy_reader g) = Some (Resolved w) \<longrightarrow> w = v"
    "sound \<longrightarrow> sound_ok v (length (encodeChunks payload)) g m T"
  using assms unfolding git_inv_def Let_def by blast

lemma git_invI:
  assumes "gs_chunks (gy_stream g) = encodeChunks payload"
    "relay_ok (length (encodeChunks payload)) (gy_writable g) m (gy_stream g)"
    "tail_ok (gs_id (gy_stream g)) (length (encodeChunks payload)) m (gs_phase (gy_stream g)) T"
    "flow_ok (gs_id (gy_stream g)) (encodeChunks payload) (length payload) m j T (gy_down g) (gy_reader g)"
    "acks_ok (gs_id (gy_stream g)) (gy_up g) (gy_stream g) (gy_reader g)"
    "\<forall>w. rd_settled (gy_reader g) = Some (Resolved w) \<longrightarrow> w = v"
    "sound \<longrightarrow> sound_ok v (length (encodeChunks payload)) g m T"
  shows "git_inv payload v sound g"
  using assms unfolding git_inv_def Let_def by blast

lemma inv_write:
  assumes "git_inv payload v sound g" "pump_can_write (gy_stream g)"
  shows "git_inv payload v sound (of_pump g (pump_write (gy_writable g) (gy_stream g)))"
proof -
  let ?s = "gy_stream g" and ?cs = "encodeChunks payload" and ?i = "gs_id (gy_stream g)"
  from assms(1) show ?thesis
  proof (rule git_invE)
    fix m j T
    assume c: "gs_chunks ?s = ?cs" and r: "relay_ok (length ?cs) (gy_writable g) m ?s"
      and t: "tail_ok ?i (length ?cs) m (gs_phase ?s) T"
      and f: "flow_ok ?i ?cs (length payload) m j T (gy_down g) (gy_reader g)"
      and a: "acks_ok ?i (gy_up g) ?s (gy_reader g)"
      and o: "\<forall>w. rd_settled (gy_reader g) = Some (Resolved w) \<longrightarrow> w = v"
      and so: "sound \<longrightarrow> sound_ok v (length ?cs) g m T"
    have ne: "\<not> pump_ended (gs_phase ?s)" using assms(2)
      by (auto simp: pump_ended_def pump_can_write_def)
    then have T: "T = []" and no: "gs_phase ?s \<noteq> Pump_over"
      using t by (auto simp: tail_ok_def pump_ended_def)
    have emit: "git_inv payload v sound (of_pump g (pump_to p ?s, fs))"
      if "relay_ok (length ?cs) (gy_writable g) m' (pump_to p ?s)" "tail_ok ?i (length ?cs) m' p T'"
        "flow_ok ?i ?cs (length payload) m' j T' (gy_down g @ map Down_notif fs) (gy_reader g)"
        "sound \<Longrightarrow> gy_writable g \<Longrightarrow> (\<forall>message. p \<noteq> Pump_failing message) \<and> p \<noteq> Pump_over
           \<and> (pump_ended p \<longrightarrow> m' = length ?cs \<and> T' = [Response_end ?i])
           \<and> (\<forall>message. T' \<noteq> [Response_error ?i message])" for p fs m' T'
      using that c a o so ne no
      by (intro git_invI [where m = m' and j = j and T = T'])
        (auto simp: of_pump_def acks_ok_def sound_ok_def Let_def)
    show ?thesis
    proof (cases "gs_phase ?s")
      case (Pump_sending seq)
      have m: "gy_writable g \<Longrightarrow> m = seq" and b: "seq < length ?cs" "m \<le> seq" "int m \<le> gs_ackedThroughSeq ?s + 5"
          "int seq \<le> gs_ackedThroughSeq ?s + 4"
        using r by (auto simp: relay_ok_def Pump_sending split: if_splits)
      show ?thesis
      proof (cases "gy_writable g")
        case True
        have "git_inv payload v sound (of_pump g (pump_to (Pump_sent seq) ?s,
            [Response_chunk ?i (Some (int seq)) (Some (?cs ! seq))]))"
          using m b c True flow_chunk [OF f [unfolded T]]
          by (intro emit [where m' = "m + 1" and T' = "[]"])
            (auto simp: relay_ok_def tail_ok_def pump_ended_def)
        then show ?thesis by (simp add: pump_write_def Pump_sending c True)
      next
        case False
        have "git_inv payload v sound (of_pump g (pump_to (Pump_sent seq) ?s, []))"
          using m b c False f T
          by (intro emit [where m' = m and T' = "[]"]) (auto simp: relay_ok_def tail_ok_def pump_ended_def)
        then show ?thesis by (simp add: pump_write_def Pump_sending False)
      qed
    next
      case Pump_ending
      have m: "gy_writable g \<Longrightarrow> m = length ?cs" and b: "m \<le> length ?cs" "int m \<le> gs_ackedThroughSeq ?s + 5"
        using r by (auto simp: relay_ok_def Pump_ending split: if_splits)
      show ?thesis
      proof (cases "gy_writable g")
        case True
        have "git_inv payload v sound (of_pump g (pump_to Pump_closing ?s, [Response_end ?i]))"
          using m b c True flow_tail [OF f [unfolded T]]
          by (intro emit [where m' = m and T' = "[Response_end ?i]"])
            (auto simp: relay_ok_def tail_ok_def pump_ended_def)
        then show ?thesis by (simp add: pump_write_def Pump_ending True)
      next
        case False
        have "git_inv payload v sound (of_pump g (pump_to Pump_closing ?s, []))"
          using b c False f T
          by (intro emit [where m' = m and T' = "[]"]) (auto simp: relay_ok_def tail_ok_def pump_ended_def)
        then show ?thesis by (simp add: pump_write_def Pump_ending False)
      qed
    next
      case (Pump_failing message)
      have b: "m \<le> length ?cs" "int m \<le> gs_ackedThroughSeq ?s + 5" and ns: "\<not> sound"
        using r so by (auto simp: relay_ok_def Pump_failing sound_ok_def Let_def)
      show ?thesis
      proof (cases "gy_writable g")
        case True
        have "git_inv payload v sound (of_pump g (pump_to Pump_closing ?s, [Response_error ?i message]))"
          using b c ns flow_tail [OF f [unfolded T]]
          by (intro emit [where m' = m and T' = "[Response_error ?i message]"])
            (auto simp: relay_ok_def tail_ok_def pump_ended_def)
        then show ?thesis by (simp add: pump_write_def Pump_failing True)
      next
        case False
        have "git_inv payload v sound (of_pump g (pump_to Pump_closing ?s, []))"
          using b c ns f T
          by (intro emit [where m' = m and T' = "[]"]) (auto simp: relay_ok_def tail_ok_def pump_ended_def)
        then show ?thesis by (simp add: pump_write_def Pump_failing False)
      qed
    qed (use assms(2) in \<open>simp_all add: pump_can_write_def\<close>)
  qed
qed
text \<open>Frames of other streams.\<close>

lemma handle_foreign: "notif_stream f \<noteq> i \<Longrightarrow> rd_streamId r = Some i \<Longrightarrow> handle_notif f r = (r, [])"
  by (cases f) (simp_all add: handleChunk_def handleEnd_def handleStreamError_def)

lemma drain_foreign:
  "\<forall>f \<in> set fs. notif_stream f \<noteq> i \<Longrightarrow> rd_streamId r = Some i \<Longrightarrow> drainPending fs r = (r, [])"
proof (induction fs)
  case (Cons a fs)
  then show ?case using handle_foreign [of a i r] by simp
qed simp

lemma push_foreign:
  "notif_stream f \<noteq> i \<Longrightarrow> \<forall>f \<in> set p. notif_stream f \<noteq> i \<Longrightarrow> \<forall>f \<in> set (pushPending f p). notif_stream f \<noteq> i"
  using list.set_sel(2) [of "p @ [f]"] by (auto simp: pushPending_def Let_def split: if_splits)

lemma reader_foreign:
  assumes "notif_stream f \<noteq> i" "rd_settled r = None \<longrightarrow> reader_fresh i r \<or> reader_ready i cs n r"
  obtains p where "reader_notif f r = (r\<lparr>rd_pending := p\<rparr>, [])"
    "reader_fresh i r \<Longrightarrow> reader_fresh i (r\<lparr>rd_pending := p\<rparr>)"
proof (cases "rd_settled r = None \<and> reader_fresh i r")
  case True
  then show ?thesis
    using push_foreign [OF assms(1), of "rd_pending r"]
    by (intro that [of "pushPending f (rd_pending r)"]) (simp_all add: reader_notif_def reader_fresh_def)
next
  case False
  with assms have "reader_notif f r = (r, [])"
    by (auto simp: reader_notif_def reader_ready_def handle_foreign)
  then show ?thesis by (intro that [of "rd_pending r"]) simp_all
qed

lemma inv_foreign:
  assumes "git_inv payload v sound g" "notif_stream f \<noteq> gs_id (gy_stream g)"
  shows "git_inv payload v sound (of_reader g (reader_notif f (gy_reader g)))"
  using assms(1)
proof (rule git_invE)
  fix m j T
  assume c: "gs_chunks (gy_stream g) = encodeChunks payload"
    and r: "relay_ok (length (encodeChunks payload)) (gy_writable g) m (gy_stream g)"
    and t: "tail_ok (gs_id (gy_stream g)) (length (encodeChunks payload)) m (gs_phase (gy_stream g)) T"
    and f: "flow_ok (gs_id (gy_stream g)) (encodeChunks payload) (length payload) m j T (gy_down g) (gy_reader g)"
    and a: "acks_ok (gs_id (gy_stream g)) (gy_up g) (gy_stream g) (gy_reader g)"
    and o: "\<forall>w. rd_settled (gy_reader g) = Some (Resolved w) \<longrightarrow> w = v"
    and so: "sound \<longrightarrow> sound_ok v (length (encodeChunks payload)) g m T"
  obtain p where p: "reader_notif f (gy_reader g) = ((gy_reader g)\<lparr>rd_pending := p\<rparr>, [])"
    "reader_fresh (gs_id (gy_stream g)) (gy_reader g) \<Longrightarrow>
     reader_fresh (gs_id (gy_stream g)) ((gy_reader g)\<lparr>rd_pending := p\<rparr>)"
    by (rule reader_foreign [OF assms(2), of "gy_reader g" "encodeChunks payload" "length payload"])
      (use f in \<open>auto simp: flow_ok_def\<close>)
  show ?thesis
    using c r t f a o so p(2) unfolding p(1)
    by (intro git_invI [where m = m and j = j and T = T])
      (auto simp: of_reader_def flow_ok_def reader_ready_def acks_ok_def sound_ok_def Let_def)
qed

text \<open>The reader gives up.\<close>

lemma inv_reader_fails:
  assumes "git_inv payload v sound g" "r = gy_reader g \<or> r = (gy_reader g)\<lparr>rd_muxDisposed := True\<rparr>"
  shows "git_inv payload v False (of_reader g (git_fail err r))"
  using assms(1)
proof (rule git_invE)
  fix m j T
  assume i: "gs_chunks (gy_stream g) = encodeChunks payload"
    "relay_ok (length (encodeChunks payload)) (gy_writable g) m (gy_stream g)"
    "tail_ok (gs_id (gy_stream g)) (length (encodeChunks payload)) m (gs_phase (gy_stream g)) T"
    "flow_ok (gs_id (gy_stream g)) (encodeChunks payload) (length payload) m j T (gy_down g) (gy_reader g)"
    "acks_ok (gs_id (gy_stream g)) (gy_up g) (gy_stream g) (gy_reader g)"
    "\<forall>w. rd_settled (gy_reader g) = Some (Resolved w) \<longrightarrow> w = v"
  have s: "rd_settled r = rd_settled (gy_reader g)" "rd_expectedSeq r = rd_expectedSeq (gy_reader g)"
    "\<And>k. reader_fresh k r = reader_fresh k (gy_reader g)"
    using assms(2) by (auto simp: reader_fresh_def)
  have q: "Response_ack k n \<notin> set (git_cancel r)" for k n
    by (auto simp: git_cancel_def split: option.splits if_splits)
  show ?thesis
  proof (cases "rd_settled (gy_reader g) = None")
    case True
    then have f: "git_fail err r = (r\<lparr>rd_settled := Some (Rejected err)\<rparr>, git_cancel r)"
      using s(1) by (simp add: git_fail_def)
    have "acks_ok (gs_id (gy_stream g)) (gy_up g @ git_cancel r) (gy_stream g)
        (r\<lparr>rd_settled := Some (Rejected err)\<rparr>)"
      using i(5) s(2) q by (auto simp: acks_ok_def)
    moreover have "flow_ok (gs_id (gy_stream g)) (encodeChunks payload) (length payload) m j T
        (gy_down g) (r\<lparr>rd_settled := Some (Rejected err)\<rparr>)"
      using i(4) s(2,3) by (auto simp: flow_ok_def reader_fresh_def)
    ultimately show ?thesis
      using i(1-3) unfolding f
      by (intro git_invI [where m = m and j = j and T = T]) (simp_all add: of_reader_def)
  next
    case False
    then show ?thesis
      using i s
      by (intro git_invI [where m = m and j = j and T = T])
        (auto simp: of_reader_def git_fail_def flow_ok_def acks_ok_def)
  qed
qed
text \<open>A chunk that is expected, and the end.\<close>

lemma handle_expected:
  assumes "reader_ready i cs nbytes r" "rd_settled r = None" "rd_expectedSeq r = k" "k < length cs"
  obtains r' where
    "reader_notif (Response_chunk i (Some (int k)) (Some (cs ! k))) r =
       (r', if rd_muxDisposed r then [] else [Response_ack i k])"
    "reader_ready i cs nbytes r'" "rd_settled r' = None" "rd_expectedSeq r' = k + 1"
    "rd_muxDisposed r' = rd_muxDisposed r"
proof -
  define r' where "r' = r\<lparr>rd_parts := rd_parts r @ [base64_decode (cs ! k)],
      rd_receivedBytes := rd_receivedBytes r + length (base64_decode (cs ! k)), rd_expectedSeq := k + 1\<rparr>"
  show ?thesis
    by (rule that [of r'])
      (use assms in \<open>simp_all add: r'_def reader_notif_def reader_ready_def handleChunk_def Let_def
         take_Suc_conv_app_nth\<close>)
qed

lemma handle_end:
  assumes "reader_ready i (encodeChunks payload) (length payload) r" "rd_settled r = None"
    "rd_expectedSeq r = length (encodeChunks payload)" "json_parse (utf8_decode payload) = Some v"
  shows "reader_notif (Response_end i) r = (r\<lparr>rd_settled := Some (Resolved v)\<rparr>, [])"
  using assms chunks_payload [of payload]
  by (simp add: reader_notif_def reader_ready_def handleEnd_def git_succeed_def)

lemma receive_marker:
  assumes "reader_fresh i r"
  shows "reader_response (Stream_marker i nbytes (length cs)) r =
    (if rd_settled r = None
     then (r\<lparr>rd_totalBytes := nbytes, rd_chunkCount := length cs, rd_streamId := Some i,
             rd_metadataReady := True, rd_pending := []\<rparr>, []) else (r, []))"
  using assms by (simp add: reader_response_def reader_fresh_def drain_foreign [of _ i])

lemma flow_cases:
  assumes "flow_ok i cs nbytes m j T (x # down) r"
  obtains (marker) "x = Down_response (Stream_marker i nbytes (length cs))"
      "down = map Down_notif (chunk_frames i cs j m @ T)" "reader_fresh i r"
  | (chunk) "j < m" "x = Down_notif (Response_chunk i (Some (int j)) (Some (cs ! j)))"
      "down = map Down_notif (chunk_frames i cs (j + 1) m @ T)"
      "rd_settled r = None \<longrightarrow> reader_ready i cs nbytes r"
  | (tail) f T' where "j = m" "T = f # T'" "x = Down_notif f" "down = map Down_notif T'"
      "rd_settled r = None \<longrightarrow> reader_ready i cs nbytes r"
proof -
  from assms have jm: "j \<le> m" by (simp add: flow_ok_def)
  from assms consider "x # down = Down_response (Stream_marker i nbytes (length cs))
        # map Down_notif (chunk_frames i cs j m @ T)" "reader_fresh i r"
    | "x # down = map Down_notif (chunk_frames i cs j m @ T)" "rd_settled r = None \<longrightarrow> reader_ready i cs nbytes r"
    unfolding flow_ok_def by blast
  then show ?thesis
  proof cases
    case 1
    then show ?thesis using marker by simp
  next
    case 2
    show ?thesis
    proof (cases "j < m")
      case True
      then show ?thesis using chunk 2 by (simp add: chunk_frames_Cons)
    next
      case False
      then show ?thesis using tail 2 jm by (cases T) auto
    qed
  qed
qed

lemma inv_receive:
  assumes "git_inv payload v sound g" "gy_down g = x # down" "json_parse (utf8_decode payload) = Some v"
  shows "git_inv payload v sound (of_reader (g\<lparr>gy_down := down\<rparr>) (receive x (gy_reader g)))"
  using assms(1)
proof (rule git_invE)
  let ?s = "gy_stream g" and ?r = "gy_reader g" and ?cs = "encodeChunks payload"
    and ?i = "gs_id (gy_stream g)"
  fix m j T
  assume c: "gs_chunks ?s = ?cs" and r: "relay_ok (length ?cs) (gy_writable g) m ?s"
    and t: "tail_ok ?i (length ?cs) m (gs_phase ?s) T"
    and f: "flow_ok ?i ?cs (length payload) m j T (gy_down g) ?r"
    and a: "acks_ok ?i (gy_up g) ?s ?r"
    and o: "\<forall>w. rd_settled ?r = Some (Resolved w) \<longrightarrow> w = v"
    and so: "sound \<longrightarrow> sound_ok v (length ?cs) g m T"
  have mn: "m \<le> length ?cs" using r by (simp add: relay_ok_def)
  from f have "flow_ok ?i ?cs (length payload) m j T (x # down) ?r" by (simp only: assms(2))
  then consider
    (marker) "x = Down_response (Stream_marker ?i (length payload) (length ?cs))"
      "down = map Down_notif (chunk_frames ?i ?cs j m @ T)" "reader_fresh ?i ?r"
  | (chunk) "j < m" "x = Down_notif (Response_chunk ?i (Some (int j)) (Some (?cs ! j)))"
      "down = map Down_notif (chunk_frames ?i ?cs (j + 1) m @ T)"
      "rd_settled ?r = None \<longrightarrow> reader_ready ?i ?cs (length payload) ?r"
  | (tail) f T' where "j = m" "T = f # T'" "x = Down_notif f" "down = map Down_notif T'"
      "rd_settled ?r = None \<longrightarrow> reader_ready ?i ?cs (length payload) ?r"
    by (rule flow_cases)
  then show ?thesis
  proof cases
    case marker
    show ?thesis
      using c r t f a o so marker(3)
      unfolding marker(1) receive_def git_down.case receive_marker [OF marker(3)]
      by (intro git_invI [where m = m and j = j and T = T])
        (auto simp: of_reader_def flow_ok_def reader_ready_def reader_fresh_def acks_ok_def sound_ok_def
          Let_def marker(2) assms(2))
  next
    case chunk
    show ?thesis
    proof (cases "rd_settled ?r = None")
      case True
      then have k: "rd_expectedSeq ?r = j" using f by (simp add: flow_ok_def)
      obtain r' where q: "reader_notif (Response_chunk ?i (Some (int j)) (Some (?cs ! j))) ?r =
          (r', if rd_muxDisposed ?r then [] else [Response_ack ?i j])"
        "reader_ready ?i ?cs (length payload) r'" "rd_settled r' = None" "rd_expectedSeq r' = j + 1"
        "rd_muxDisposed r' = rd_muxDisposed ?r"
        using handle_expected [of ?i ?cs "length payload" ?r j] chunk(1,4) True k mn by auto
      have so': "sound \<Longrightarrow> sound_ok v (length ?cs)
          (of_reader (g\<lparr>gy_down := down\<rparr>) (r', if rd_muxDisposed ?r then [] else [Response_ack ?i j])) m T"
        using so k q(3-5) True by (auto simp: sound_ok_def Let_def of_reader_def upt_Suc_append)
      show ?thesis
        using c r t f a so' q k chunk
        unfolding chunk(2) receive_def git_down.case q(1)
        by (intro git_invI [where m = m and j = "j + 1" and T = T])
          (auto simp: of_reader_def flow_ok_def acks_ok_def)
    next
      case False
      then have "\<not> sound" using so assms(2) by (auto simp: sound_ok_def Let_def)
      with False show ?thesis
        using c r t f a o chunk
        by (intro git_invI [where m = m and j = "j + 1" and T = T])
          (auto simp: of_reader_def flow_ok_def acks_ok_def receive_def reader_notif_def)
    qed
  next
    case tail
    then have T: "T' = []" using t by (auto simp: tail_ok_def)
    show ?thesis
    proof (cases "rd_settled ?r = None")
      case True
      then have k: "rd_expectedSeq ?r = m" and rr: "reader_ready ?i ?cs (length payload) ?r"
        using f tail(1,5) by (simp_all add: flow_ok_def)
      from t tail(2) consider "f = Response_end ?i" "m = length ?cs" "pump_ended (gs_phase ?s)"
        | message where "f = Response_error ?i message"
        by (auto simp: tail_ok_def)
      then show ?thesis
      proof cases
        case 1
        have e: "reader_notif f ?r = (?r\<lparr>rd_settled := Some (Resolved v)\<rparr>, [])"
          using handle_end [OF rr True] k 1 assms(3) by simp
        show ?thesis
          using c r f a so k 1 tail(1,4) T
          unfolding tail(3) receive_def git_down.case e
          by (intro git_invI [where m = m and j = m and T = "[]"])
            (auto simp: of_reader_def tail_ok_def flow_ok_def acks_ok_def sound_ok_def Let_def)
      next
        case 2
        have e: "reader_notif f ?r = git_fail (Stream_failed message) ?r"
          using rr True 2 by (simp add: reader_notif_def reader_ready_def handleStreamError_def)
        have q: "Response_ack k n \<notin> set (git_cancel ?r)" for k n
          by (auto simp: git_cancel_def split: option.splits if_splits)
        have "\<not> sound" using so tail(2) T 2 by (auto simp: sound_ok_def Let_def)
        then show ?thesis
          using c r f a k tail(1,4) T True q
          unfolding tail(3) receive_def git_down.case e
          by (intro git_invI [where m = m and j = m and T = "[]"])
            (auto simp: of_reader_def tail_ok_def flow_ok_def acks_ok_def git_fail_def)
      qed
    next
      case False
      then have "\<not> sound" using so assms(2) by (auto simp: sound_ok_def Let_def)
      with False show ?thesis
        using c r t f a o tail T
        by (intro git_invI [where m = m and j = m and T = "[]"])
          (auto simp: of_reader_def flow_ok_def acks_ok_def receive_def reader_notif_def tail_ok_def)
    qed
  qed
qed
text \<open>A reply of the reader reaches the relay.\<close>

lemma ack_same [simp]:
  "gs_id (ack_stream q c s) = gs_id s" "gs_chunks (ack_stream q c s) = gs_chunks s"
  "gs_stale (ack_stream q c s) = gs_stale s" "gs_aborted (ack_stream q c s) = gs_aborted s"
  "gs_registered (ack_stream q c s) = gs_registered s"
  "pump_ended (gs_phase (ack_stream q c s)) = pump_ended (gs_phase s)"
  "(gs_phase (ack_stream q c s) = Pump_over) = (gs_phase s = Pump_over)"
  "(gs_phase (ack_stream q c s) = Pump_failing message) = (gs_phase s = Pump_failing message)"
  "gs_ackedThroughSeq (ack_stream q (gs_ownerClientId s) s) = max q (gs_ackedThroughSeq s)"
  by (simp_all add: ack_stream_def)

lemma relay_abort: "relay_ok n writable m s \<Longrightarrow> relay_ok n writable m (abort_stream c s)"
  by (simp add: abort_stream_def relay_wake relay_flags)

lemma inv_reply:
  assumes "git_inv payload v sound g" "gy_up g = x # up"
  shows "git_inv payload v sound
    (g\<lparr>gy_stream := on_reply (gs_ownerClientId (gy_stream g)) x (gy_stream g), gy_up := up\<rparr>)"
  using assms(1)
proof (rule git_invE)
  let ?s = "gy_stream g" and ?r = "gy_reader g" and ?cs = "encodeChunks payload"
    and ?i = "gs_id (gy_stream g)"
  fix m j T
  assume c: "gs_chunks ?s = ?cs" and r: "relay_ok (length ?cs) (gy_writable g) m ?s"
    and t: "tail_ok ?i (length ?cs) m (gs_phase ?s) T"
    and f: "flow_ok ?i ?cs (length payload) m j T (gy_down g) ?r"
    and a: "acks_ok ?i (gy_up g) ?s ?r"
    and o: "\<forall>w. rd_settled ?r = Some (Resolved w) \<longrightarrow> w = v"
    and so: "sound \<longrightarrow> sound_ok v (length ?cs) g m T"
  have sx: "\<exists>q k. x = Response_ack ?i q \<and> up = map (Response_ack ?i) [Suc q..<rd_expectedSeq ?r]
      \<and> q < rd_expectedSeq ?r \<and> (gs_registered ?s \<longrightarrow> gs_ackedThroughSeq ?s = int q - 1)" if s: sound
  proof -
    obtain b where b: "x # up = map (Response_ack ?i) [b..<rd_expectedSeq ?r]"
      "gs_registered ?s \<longrightarrow> gs_ackedThroughSeq ?s = int b - 1"
      using so s assms(2) unfolding sound_ok_def Let_def by metis
    then have lt: "b < rd_expectedSeq ?r" by (cases "b < rd_expectedSeq ?r") auto
    then show ?thesis using b by (simp add: upt_conv_Cons)
  qed
  show ?thesis
  proof (cases "\<exists>q. x = Response_ack ?i q \<and> gs_registered ?s")
    case True
    then obtain q where q: "x = Response_ack ?i q" "gs_registered ?s" by blast
    have "acks_ok ?i up (ack_stream (int q) (gs_ownerClientId ?s) ?s) ?r"
      using a assms(2) q(1) by (simp add: acks_ok_def)
    moreover have "sound_ok v (length ?cs)
        (g\<lparr>gy_stream := ack_stream (int q) (gs_ownerClientId ?s) ?s, gy_up := up\<rparr>) m T" if sound
    proof -
      have u: "up = map (Response_ack ?i) [Suc q..<rd_expectedSeq ?r]" "q < rd_expectedSeq ?r"
        "gs_ackedThroughSeq ?s = int q - 1"
        using sx [OF that] q by auto
      have "\<exists>a. (gs_registered ?s \<longrightarrow> max (int q) (gs_ackedThroughSeq ?s) = int a - 1)
          \<and> a \<le> rd_expectedSeq ?r \<and> up = map (Response_ack ?i) [a..<rd_expectedSeq ?r]"
        using u by (intro exI [of _ "Suc q"]) simp
      then show ?thesis using so that by (simp add: sound_ok_def Let_def)
    qed
    ultimately show ?thesis
      using c r t f o q
      by (intro git_invI [where m = m and j = j and T = T])
        (auto simp: on_reply_def relay_ack tail_ok_def)
  next
    case False
    have u: "sound_ok v (length ?cs) (g\<lparr>gy_up := up\<rparr>) m T" if s: sound
    proof -
      obtain q where q: "up = map (Response_ack ?i) [Suc q..<rd_expectedSeq ?r]" "q < rd_expectedSeq ?r"
        "\<not> gs_registered ?s"
        using sx [OF s] False by auto
      then have "\<exists>a. (gs_registered ?s \<longrightarrow> gs_ackedThroughSeq ?s = int a - 1)
          \<and> a \<le> rd_expectedSeq ?r \<and> up = map (Response_ack ?i) [a..<rd_expectedSeq ?r]"
        by (intro exI [of _ "Suc q"]) simp
      then show ?thesis using so s by (simp add: sound_ok_def Let_def)
    qed
    have a': "acks_ok ?i up ?s ?r" using a assms(2) by (auto simp: acks_ok_def)
    show ?thesis
    proof (cases "on_reply (gs_ownerClientId ?s) x ?s = ?s")
      case True
      then show ?thesis
        using c r t f a' o u by (intro git_invI [where m = m and j = j and T = T]) simp_all
    next
      case aborted: False
      then have n: "on_reply (gs_ownerClientId ?s) x ?s = abort_stream (gs_ownerClientId ?s) ?s"
        using False by (auto simp: on_reply_def split: git_reply.splits if_splits)
      have ns: "\<not> sound" using sx False aborted by (auto simp: on_reply_def split: git_reply.splits if_splits)
      have "acks_ok ?i up (abort_stream (gs_ownerClientId ?s) ?s) ?r"
        using a' by (simp add: acks_ok_def abort_stream_def)
      then show ?thesis
        using c t f o ns relay_abort [OF r, of "gs_ownerClientId ?s"] unfolding n
        by (intro git_invI [where m = m and j = j and T = T])
          (auto simp: abort_stream_def tail_ok_def)
    qed
  qed
qed
text \<open>All steps.\<close>

lemma inv_move:
  assumes "git_inv payload v sound g" "git_move g g'" "json_parse (utf8_decode payload) = Some v"
  shows "git_inv payload v sound g'"
  using assms(2)
proof (cases rule: git_move.cases)
  case (Drained seq)
  with assms(1) show ?thesis by (auto intro: inv_drained)
qed (use assms(1,3) in \<open>auto intro: inv_begin inv_resume inv_write inv_receive inv_reply\<close>)

lemma foreign_ack_ignored:
  "clientId \<noteq> gs_ownerClientId s \<or> i \<noteq> gs_id s \<Longrightarrow> on_reply clientId (Response_ack i seq) s = s"
  by (auto simp: on_reply_def ack_stream_def)

lemma inv_noise:
  assumes "git_inv payload v sound g" "git_noise g g'"
  shows "git_inv payload v sound g'"
  using assms(2)
proof (cases rule: git_noise.cases)
  case (Foreign_ack clientId i seq)
  with assms(1) show ?thesis by (simp add: foreign_ack_ignored)
qed (use assms(1) in \<open>auto intro: inv_foreign inv_timer\<close>)

lemma inv_fault:
  assumes "git_inv payload v sound g" "git_fault g g'"
  shows "git_inv payload v False g'"
  using assms(2)
proof (cases rule: git_fault.cases)
  case Detached
  then show ?thesis
    using assms(1) by (auto intro!: inv_stream intro: relay_wake relay_flags relay_closed)
next
  case (Send_throws message)
  show ?thesis unfolding Send_throws
    by (rule inv_pump [OF git_inv_weaken [OF assms(1)]])
      (auto simp: pump_throws_def pump_ended_def relay_throws [unfolded pump_throws_def]
        split: pump_phase.splits)
next
  case Relay_disposed
  show ?thesis unfolding Relay_disposed(1)
    by (rule inv_pump [OF git_inv_weaken [OF assms(1)]])
      (auto simp: dispose_stream_def intro: relay_wake relay_flags)
next
  case Stalls
  then show ?thesis
    using inv_reader_fails [OF assms(1), of "gy_reader g" Stalled] git_inv_weaken [OF assms(1)]
    by (auto simp: reader_stalls_def of_reader_def)
next
  case (Disposed lost)
  then show ?thesis
    using inv_reader_fails [OF assms(1)] by (simp add: reader_disposed_def)
qed (use inv_reader_fails [OF assms(1)] in simp_all)

lemma inv_git_reach:
  assumes "git_reach payload sound g" "json_parse (utf8_decode payload) = Some v"
  shows "git_inv payload v sound g"
  using assms(1)
proof (induction rule: git_reach.induct)
  case (Start clientId r)
  show ?case by (rule git_inv_start)
qed (use assms(2) in \<open>auto intro: inv_move inv_noise inv_fault\<close>)
subsection \<open>Safety\<close>

fun carries_chunk :: "git_down \<Rightarrow> bool" where
  "carries_chunk (Down_notif (Response_chunk _ _ _)) = True"
| "carries_chunk _ = False"

lemma filter_chunk_frames: "filter carries_chunk (map Down_notif (chunk_frames i cs a b)) =
    map Down_notif (chunk_frames i cs a b)"
  by (auto simp: chunk_frames_def)

text \<open>
  C6. A streamed response is never wrong and never floods the channel. Whatever happens besides
  (frames of other streams, foreign acknowledgements, failing writes, a client that goes away,
  cancellation, disposal, timeouts, at any moment): if the request is resolved, then with the
  result the relay had; and at most four of its chunks are on their way.
\<close>

theorem git_stream_safe:
  assumes "json_ok v" and "json_units v"
    and "git_reach (utf8_encode (json_stringify v)) sound g"
  shows "(\<forall>w. rd_settled (gy_reader g) = Some (Resolved w) \<longrightarrow> w = v)
    \<and> length (filter carries_chunk (gy_down g)) \<le> 4"
  using inv_git_reach [OF assms(3) json_bytes [OF assms(1,2)]]
proof (rule git_invE)
  let ?payload = "utf8_encode (json_stringify v)" and ?i = "gs_id (gy_stream g)"
  fix m j T
  assume r: "relay_ok (length (encodeChunks ?payload)) (gy_writable g) m (gy_stream g)"
    and t: "tail_ok ?i (length (encodeChunks ?payload)) m (gs_phase (gy_stream g)) T"
    and f: "flow_ok ?i (encodeChunks ?payload) (length ?payload) m j T (gy_down g) (gy_reader g)"
    and a: "acks_ok ?i (gy_up g) (gy_stream g) (gy_reader g)"
    and o: "\<forall>w. rd_settled (gy_reader g) = Some (Resolved w) \<longrightarrow> w = v"
  have "filter carries_chunk (map Down_notif T) = []" using t by (auto simp: tail_ok_def)
  then have "length (filter carries_chunk (gy_down g)) = m - j"
    using f by (auto simp: flow_ok_def filter_chunk_frames simp del: filter_map)
  moreover have "m \<le> j + 4" using r a f by (auto simp: relay_ok_def acks_ok_def flow_ok_def)
  ultimately show ?thesis using o by simp
qed

subsection \<open>Progress\<close>

fun pump_work :: "pump_phase \<Rightarrow> nat \<Rightarrow> nat" where
  "pump_work Pump_start n = 10 * n + 10"
| "pump_work (Pump_waiting seq woken) n = 10 * (n - seq) + (if woken then 6 else 5)"
| "pump_work (Pump_sending seq) n = 10 * (n - seq) + 4"
| "pump_work (Pump_sent seq) n = 10 * (n - seq - 1) + 9"
| "pump_work Pump_ending n = 5"
| "pump_work (Pump_failing _) n = 5"
| "pump_work Pump_closing n = 1"
| "pump_work Pump_over n = 0"

definition git_measure :: "git_system \<Rightarrow> nat" where
  "git_measure g = pump_work (gs_phase (gy_stream g)) (length (gs_chunks (gy_stream g)))
     + sum_list (map (\<lambda>x. case x of Down_response _ \<Rightarrow> 1 | Down_notif _ \<Rightarrow> 3) (gy_down g))
     + 2 * length (gy_up g)"

lemma window_work: "pump_work (pump_window seq s) n < 10 * (n - seq) + 6"
  by (simp add: pump_window_def)

lemma turn_work: "length (gs_chunks s) = n \<Longrightarrow> pump_work (pump_turn seq s) n < 10 * (n - seq) + 9"
  using window_work [of seq s n] by (auto simp: pump_turn_def)

lemma wake_work: "pump_work (gs_phase (wake s)) n \<le> pump_work (gs_phase s) n + 1"
  by (auto simp: wake_def split: pump_phase.split)

lemma reply_work: "pump_work (gs_phase (on_reply c x s)) n \<le> pump_work (gs_phase s) n + 1"
  "gs_chunks (on_reply c x s) = gs_chunks s"
  using wake_work [of "s\<lparr>gs_aborted := True\<rparr>" n] wake_work [of "s\<lparr>gs_ackedThroughSeq := q\<rparr>" n for q]
  by (auto simp: on_reply_def ack_stream_def abort_stream_def split: git_reply.split)

lemma notif_replies: "length (snd (reader_notif f r)) \<le> 1"
  by (cases f) (auto simp: reader_notif_def handleChunk_def handleEnd_def handleStreamError_def
      git_fail_def git_cancel_def git_succeed_def Let_def split: option.split)

lemma move_decreases:
  assumes "git_inv payload v sound g" "git_move g g'"
  shows "git_measure g' < git_measure g"
  using assms(2)
proof (cases rule: git_move.cases)
  case Begin
  then show ?thesis
    using turn_work [of "gy_stream g" "length (gs_chunks (gy_stream g))" 0]
    by (simp add: git_measure_def pump_begin_def)
next
  case (Resume seq)
  then show ?thesis
    using window_work [of seq "gy_stream g" "length (gs_chunks (gy_stream g))"]
    by (simp add: git_measure_def pump_resume_def)
next
  case Write
  have "gs_phase (gy_stream g) = Pump_sending seq \<Longrightarrow> seq < length (gs_chunks (gy_stream g))" for seq
    using assms(1) by (auto simp: relay_ok_def elim!: git_invE)
  with Write show ?thesis
    by (auto simp: git_measure_def of_pump_def pump_write_def pump_can_write_def split: pump_phase.splits)
next
  case (Drained seq)
  then show ?thesis
    using turn_work [of "gy_stream g" "length (gs_chunks (gy_stream g))" "seq + 1"]
    by (auto simp: git_measure_def pump_drained_def)
next
  case (Receive x down)
  show ?thesis
  proof (cases x)
    case (Down_response res)
    from assms(1) obtain m j T where "flow_ok (gs_id (gy_stream g)) (encodeChunks payload)
        (length payload) m j T (x # down) (gy_reader g)"
      by (rule git_invE) (use Receive(2) in simp)
    then have "snd (receive x (gy_reader g)) = []"
      by (rule flow_cases) (simp_all add: Down_response receive_def receive_marker)
    with Receive Down_response show ?thesis by (simp add: git_measure_def of_reader_def)
  next
    case (Down_notif f)
    with Receive notif_replies [of f "gy_reader g"] show ?thesis
      by (simp add: git_measure_def of_reader_def receive_def)
  qed
next
  case (Reply x up)
  then show ?thesis
    using reply_work(1) [of "gs_ownerClientId (gy_stream g)" x "gy_stream g"
        "length (gs_chunks (gy_stream g))"]
    by (simp add: git_measure_def reply_work(2))
qed
text \<open>A system in which nothing can move.\<close>

lemma stuck_system:
  assumes "\<nexists>g'. git_move g g'"
  shows "gy_down g = []" "gy_up g = []"
    "gs_phase (gy_stream g) = Pump_over \<or> (\<exists>seq. gs_phase (gy_stream g) = Pump_waiting seq False)"
proof -
  show "gy_down g = []" using assms git_move.Receive by (cases "gy_down g") blast+
  show "gy_up g = []" using assms git_move.Reply by (cases "gy_up g") blast+
  show "gs_phase (gy_stream g) = Pump_over \<or> (\<exists>seq. gs_phase (gy_stream g) = Pump_waiting seq False)"
  proof (cases "gs_phase (gy_stream g)")
    case Pump_start
    then show ?thesis using assms git_move.Begin by blast
  next
    case (Pump_waiting seq woken)
    then show ?thesis using assms git_move.Resume [of g seq] by (cases woken) auto
  next
    case (Pump_sent seq)
    then show ?thesis using assms git_move.Drained by blast
  next
    case Pump_closing
    then show ?thesis using assms git_move.Drained by blast
  qed (use assms git_move.Write [of g] in \<open>auto simp: pump_can_write_def\<close>)
qed

lemma stuck_resolved:
  assumes "git_inv payload v True g" "\<nexists>g'. git_move g g'"
  shows "rd_settled (gy_reader g) = Some (Resolved v)"
  using assms(1)
proof (rule git_invE)
  let ?cs = "encodeChunks payload" and ?i = "gs_id (gy_stream g)"
  fix m j T
  assume c: "gs_chunks (gy_stream g) = ?cs" and r: "relay_ok (length ?cs) (gy_writable g) m (gy_stream g)"
    and f: "flow_ok ?i ?cs (length payload) m j T (gy_down g) (gy_reader g)"
    and so: "True \<longrightarrow> sound_ok v (length ?cs) g m T"
  note stuck = stuck_system [OF assms(2)]
  have "chunk_frames ?i ?cs j m @ T = []" and jm: "j \<le> m"
    using f stuck(1) by (auto simp: flow_ok_def)
  then have T: "T = []" and "length (chunk_frames ?i ?cs j m) = 0" by simp_all
  with jm have jm: "j = m" by simp
  show ?thesis
  proof (cases "rd_settled (gy_reader g) = None")
    case True
    then have k: "rd_expectedSeq (gy_reader g) = m" using f jm by (simp add: flow_ok_def)
    have "\<not> pump_ended (gs_phase (gy_stream g))"
      using so True T by (auto simp: sound_ok_def Let_def)
    with stuck(3) obtain seq where p: "gs_phase (gy_stream g) = Pump_waiting seq False"
      by (auto simp: pump_ended_def)
    have w: "gy_writable g" and g: "gs_registered (gy_stream g)"
      using so p by (auto simp: sound_ok_def Let_def)
    obtain a where "gs_registered (gy_stream g) \<longrightarrow> gs_ackedThroughSeq (gy_stream g) = int a - 1"
      "a \<le> rd_expectedSeq (gy_reader g)" "gy_up g = map (Response_ack ?i) [a..<rd_expectedSeq (gy_reader g)]"
      using so unfolding sound_ok_def Let_def by blast
    with g k stuck(2) have "gs_ackedThroughSeq (gy_stream g) = int m - 1" by auto
    with r p w show ?thesis by (auto simp: relay_ok_def)
  next
    case False
    with so show ?thesis by (auto simp: sound_ok_def Let_def)
  qed
qed

text \<open>
  C5. A streamed response always arrives. While nothing has failed, every step of the protocol
  uses up a bounded amount of work, whatever other frames and timers come between, and when no
  step is left the request is resolved with the result: the credit window cannot deadlock, and
  no step waits for the recheck timer.
\<close>

theorem git_stream_completes:
  assumes "json_ok v" and "json_units v"
    and "git_reach (utf8_encode (json_stringify v)) True g"
  shows "(\<forall>g'. git_move g g' \<longrightarrow> git_measure g' < git_measure g)
    \<and> ((\<nexists>g'. git_move g g') \<longrightarrow> rd_settled (gy_reader g) = Some (Resolved v))"
  using inv_git_reach [OF assms(3) json_bytes [OF assms(1,2)]] move_decreases stuck_resolved by blast

text \<open>The first steps of a response, its announcement lost in time behind a frame of another stream.\<close>

definition git_sample :: json where
  "git_sample = JObj [(js ''diff'', JStr (js ''+1''))]"

lemma git_sample_ok: "json_ok git_sample" "json_units git_sample"
  by (simp_all add: git_sample_def code_units_def)

definition git_early :: "git_system \<Rightarrow> git_system" where
  "git_early g = of_reader g (reader_notif (Response_end 7) (gy_reader g))"

definition no_streams :: git_streams where
  "no_streams = \<lparr>gr_streams = [], gr_nextId = 1\<rparr>"

lemma git_early_reach:
  "git_reach payload True (git_early (git_start payload 0 no_streams))"
  unfolding git_early_def
  by (rule git_reach.Noise [OF git_reach.Start git_noise.Foreign])
    (simp add: git_start_def startStream_def new_stream_def no_streams_def Let_def)

theorem git_stream_safe_witness:
  "length (filter carries_chunk (gy_down (git_early
     (git_start (utf8_encode (json_stringify git_sample)) 0 no_streams)))) \<le> 4"
  using git_stream_safe [OF git_sample_ok git_early_reach] by blast

theorem git_stream_completes_witness:
  "\<exists>g. git_reach (utf8_encode (json_stringify git_sample)) True g
     \<and> rd_settled (gy_reader g) = Some (Resolved git_sample)"
proof -
  have "\<exists>g'. git_reach (utf8_encode (json_stringify git_sample)) True g'
      \<and> rd_settled (gy_reader g') = Some (Resolved git_sample)"
    if "git_reach (utf8_encode (json_stringify git_sample)) True g" for g
    using that
  proof (induction "git_measure g" arbitrary: g rule: less_induct)
    case less
    note c = git_stream_completes [OF git_sample_ok less.prems]
    show ?case
    proof (cases "\<exists>g'. git_move g g'")
      case True
      with c less git_reach.Move show ?thesis by blast
    qed (use c less.prems in blast)
  qed
  from this [OF git_early_reach] show ?thesis .
qed

end
