(* ===== verification/Request_Table.thy ===== *)
theory Request_Table
  imports Js_Json
begin

section \<open>Tables of pending requests\<close>

text \<open>
  Both ends of the relay number their requests and keep a map of those that wait for a response.
  The table, with the outcomes so far as its history, and JSON-RPC messages and frames as values.
\<close>

record 'o request_table =
  rt_next :: nat
  rt_pending :: "nat list"
  rt_settled :: "(nat \<times> 'o) list"

definition new_table :: "'o request_table" where
  "new_table = \<lparr>rt_next = 1, rt_pending = [], rt_settled = []\<rparr>"

definition issue :: "'o request_table \<Rightarrow> 'o request_table" where
  "issue t = t\<lparr>rt_next := rt_next t + 1, rt_pending := rt_pending t @ [rt_next t]\<rparr>"

definition settle :: "nat \<Rightarrow> 'o \<Rightarrow> 'o request_table \<Rightarrow> 'o request_table" where
  "settle i v t =
     (if i \<in> set (rt_pending t)
      then t\<lparr>rt_pending := remove1 i (rt_pending t), rt_settled := rt_settled t @ [(i, v)]\<rparr>
      else t)"

definition settle_all :: "'o \<Rightarrow> 'o request_table \<Rightarrow> 'o request_table" where
  "settle_all v t = t\<lparr>rt_pending := [],
     rt_settled := rt_settled t @ map (\<lambda>i. (i, v)) (rt_pending t)\<rparr>"

text \<open>Every request that was made waits or was settled, once.\<close>

definition table_ok :: "'o request_table \<Rightarrow> bool" where
  "table_ok t = (distinct (rt_pending t @ map fst (rt_settled t))
     \<and> set (rt_pending t @ map fst (rt_settled t)) = {1..<rt_next t} \<and> 1 \<le> rt_next t)"

named_theorems table_simps

lemma table_new [intro]: "table_ok new_table"
  by (simp add: table_ok_def new_table_def)

lemma table_issue [intro]: "table_ok t \<Longrightarrow> table_ok (issue t)"
  unfolding table_ok_def issue_def
  by (force simp: atLeastLessThanSuc)

lemma table_settle [intro]: "table_ok t \<Longrightarrow> table_ok (settle i v t)"
  unfolding table_ok_def settle_def
  by (auto simp: set_remove1_eq)

lemma table_settle_all [intro]: "table_ok t \<Longrightarrow> table_ok (settle_all v t)"
  unfolding table_ok_def settle_all_def
  by (auto simp: comp_def)

lemma settle_pending [table_simps]:
  "table_ok t \<Longrightarrow> set (rt_pending (settle i v t)) = set (rt_pending t) - {i}"
  by (auto simp: settle_def table_ok_def set_remove1_eq)

lemma settle_all_pending [table_simps]: "rt_pending (settle_all v t) = []"
  by (simp add: settle_all_def)

lemma settle_grows: "set (rt_settled t) \<subseteq> set (rt_settled (settle i v t))"
  by (auto simp: settle_def)

subsection \<open>Messages\<close>

datatype rpc_outcome = Rpc_ok json | Rpc_error int jsstr

datatype rpc_message =
    Rpc_request nat jsstr "json option"
  | Rpc_response nat rpc_outcome
  | Rpc_notification jsstr "json option"

text \<open>The parameters a handler is given, \<open>msg.params ?? {}\<close>; \<open>null\<close> counts as none.\<close>

definition handler_params :: "json option \<Rightarrow> json" where
  "handler_params params = (case params of None \<Rightarrow> JObj [] | Some v \<Rightarrow> if v = JNull then JObj [] else v)"

text \<open>A frame with its sequence number and acknowledgement; a message may not be parsable.\<close>

datatype frame_content = Keep_alive | Carries rpc_message | Garbage

record rpc_frame =
  rf_seq :: nat
  rf_ack :: nat
  rf_content :: frame_content

definition cancel_params :: "nat \<Rightarrow> json option" where
  "cancel_params i = Some (JObj [(js ''id'', JNum (js_dec i))])"

text \<open>What a write to a sink says.\<close>

datatype write_result = Accepted | Saturated | Write_throws

end
