(* ===== verification/Rpc_Frames.thy ===== *)
theory Rpc_Frames
  imports Request_Table Json_Bytes Relay_Frames
begin

section \<open>JSON-RPC messages as frames\<close>

text \<open>
  \<open>encodeJsonRpcFrame\<close> of \<open>src/src/relay/protocol.ts\<close> and its copy in
  \<open>src/src/main/ssh/relay-protocol.ts\<close>, and that messages written to one end come out at the other
  whatever the chunks of the transport.
\<close>

definition optional_member :: "string \<Rightarrow> json option \<Rightarrow> (jsstr \<times> json) list" where
  "optional_member name v = (case v of None \<Rightarrow> [] | Some x \<Rightarrow> [(js name, x)])"

definition jsonrpc_member :: "jsstr \<times> json" where
  "jsonrpc_member = (js ''jsonrpc'', JStr (js ''2.0''))"

fun message_json :: "rpc_message \<Rightarrow> json" where
  "message_json (Rpc_request i method params) =
     JObj ([jsonrpc_member, (js ''id'', JNum (js_dec i)), (js ''method'', JStr method)]
           @ optional_member ''params'' params)"
| "message_json (Rpc_response i (Rpc_ok v)) =
     JObj [jsonrpc_member, (js ''id'', JNum (js_dec i)), (js ''result'', v)]"
| "message_json (Rpc_response i (Rpc_error code m)) =
     JObj [jsonrpc_member, (js ''id'', JNum (js_dec i)),
           (js ''error'', JObj [(js ''code'', JNum (js_int code)), (js ''message'', JStr m)])]"
| "message_json (Rpc_notification method params) =
     JObj ([jsonrpc_member, (js ''method'', JStr method)] @ optional_member ''params'' params)"

definition message_bytes :: "rpc_message \<Rightarrow> byte list" where
  "message_bytes msg = utf8_encode (json_stringify (message_json msg))"

definition too_large :: "rpc_message \<Rightarrow> bool" where
  "too_large msg = (MAX_MESSAGE_SIZE < length (message_bytes msg))"

definition message_too_large :: "rpc_message \<Rightarrow> jsstr" where
  "message_too_large msg = js ''Message too large: '' @ js_dec (length (message_bytes msg)) @ js '' bytes''"

definition encodeJsonRpcFrame :: "rpc_message \<Rightarrow> nat \<Rightarrow> nat \<Rightarrow> exn + byte list" where
  "encodeJsonRpcFrame msg seqId ack =
     (if too_large msg then Inl (Error (message_too_large msg))
      else encodeFrame MT_Regular seqId ack (message_bytes msg))"

text \<open>The answer to a request whose method has no handler.\<close>

definition method_not_found :: "jsstr \<Rightarrow> rpc_outcome" where
  "method_not_found method = Rpc_error (- 32601) (js ''Method not found: '' @ method)"

text \<open>What a frame of the model is on the wire, and what the decoder says of it.\<close>

definition rpc_frame_bytes :: "rpc_frame \<Rightarrow> exn + byte list" where
  "rpc_frame_bytes f = (case rf_content f of
     Carries msg \<Rightarrow> encodeJsonRpcFrame msg (rf_seq f) (rf_ack f)
   | Keep_alive \<Rightarrow> encodeKeepAliveFrame (rf_seq f) (rf_ack f)
   | Garbage \<Rightarrow> Inl TypeError)"

fun message_ok :: "rpc_message \<Rightarrow> bool" where
  "message_ok (Rpc_request i method params) =
     (code_units method \<and> pred_option (\<lambda>v. json_ok v \<and> json_units v) params)"
| "message_ok (Rpc_response i (Rpc_ok v)) = (json_ok v \<and> json_units v)"
| "message_ok (Rpc_response i (Rpc_error code m)) = code_units m"
| "message_ok (Rpc_notification method params) =
     (code_units method \<and> pred_option (\<lambda>v. json_ok v \<and> json_units v) params)"

lemma code_units_digits: "code_units (js_dec n)" "code_units (js_int z)"
  using js_dec_digits [of n] js_dec_digits [of "nat z"] js_dec_digits [of "nat (- z)"]
  by (force simp: code_units_def js_int_def)+

lemma code_units_literal: "code_units [] " "code_units (u # us) \<longleftrightarrow> u < 0x10000 \<and> code_units us"
  by (simp_all add: code_units_def)

lemma message_json_ok: "message_ok msg \<Longrightarrow> json_ok (message_json msg) \<and> json_units (message_json msg)"
  by (induction msg rule: message_json.induct)
     (auto simp: jsonrpc_member_def optional_member_def num_ok_dec num_ok_int code_units_digits
       code_units_literal split: option.splits)

text \<open>A frame delivered: its numbers, its type and the JSON value of its payload.\<close>

definition delivers :: "rpc_frame \<Rightarrow> decoder_event \<Rightarrow> bool" where
  "delivers f e = (case e of
     Oversized n \<Rightarrow> False
   | Frame d \<Rightarrow> fr_id d = rf_seq f \<and> fr_ack d = rf_ack f \<and> (case rf_content f of
       Keep_alive \<Rightarrow> fr_type d = word_of_nat MT_KeepAlive
     | Carries msg \<Rightarrow> fr_type d = word_of_nat MT_Regular
         \<and> json_parse (utf8_decode (fr_payload d)) = Some (message_json msg)
     | Garbage \<Rightarrow> False))"

definition frame_parts :: "rpc_frame \<Rightarrow> nat \<times> nat \<times> nat \<times> byte list" where
  "frame_parts f = (case rf_content f of
     Carries msg \<Rightarrow> (MT_Regular, rf_seq f, rf_ack f, message_bytes msg)
   | _ \<Rightarrow> (MT_KeepAlive, rf_seq f, rf_ack f, []))"

lemma rpc_frame_bytes_parts:
  assumes "rpc_frame_bytes f = Inr b"
  shows "(case frame_parts f of (ty, i, a, p) \<Rightarrow> encodeFrame ty i a p) = Inr b"
    and "encode_ok (frame_parts f) = b"
  using assms
  by (auto simp: rpc_frame_bytes_def encodeJsonRpcFrame_def encodeKeepAliveFrame_def encode_ok_def
      frame_parts_def split: frame_content.splits if_splits)

lemma delivers_parts:
  assumes "rpc_frame_bytes f = Inr b" "\<And>msg. rf_content f = Carries msg \<Longrightarrow> message_ok msg"
  shows "delivers f (frame_event (frame_parts f))"
proof (cases "rf_content f")
  case (Carries msg)
  then have "json_parse (utf8_decode (message_bytes msg)) = Some (message_json msg)"
    using json_bytes message_json_ok [OF assms(2)] by (simp add: message_bytes_def)
  with Carries assms(1) show ?thesis
    by (simp add: delivers_def frame_parts_def frame_event_def rpc_frame_bytes_def encodeJsonRpcFrame_def too_large_def
        split: if_splits)
qed (use assms(1) in \<open>simp_all add: delivers_def frame_parts_def frame_event_def rpc_frame_bytes_def MAX_MESSAGE_SIZE_def\<close>)

text \<open>
  C28. Whatever messages an end of the relay connection sends, each in a frame that it could
  encode, and however the transport cuts the bytes: the decoder of the other end gets one frame for
  each, in order, with its sequence number and acknowledgement, and parses its payload to the very
  JSON value that was sent; nothing is left over.
\<close>

theorem rpc_frames_roundtrip:
  assumes "list_all2 (\<lambda>f b. rpc_frame_bytes f = Inr b) fs bs"
    and "\<And>f msg. f \<in> set fs \<Longrightarrow> rf_content f = Carries msg \<Longrightarrow> message_ok msg"
    and "concat cs = concat bs"
  shows "list_all2 delivers fs (fst (feed_all cs new_decoder))
    \<and> fst (drain (snd (feed_all cs new_decoder))) = []"
proof -
  have bs: "bs = map encode_ok (map frame_parts fs)"
    using assms(1) by (induction fs bs rule: list_all2_induct) (simp_all add: rpc_frame_bytes_parts(2))
  have enc: "\<exists>b. rpc_frame_bytes f = Inr b" if "f \<in> set fs" for f
    using assms(1) that by (auto simp: list_all2_conv_all_nth in_set_conv_nth)
  have "fst (feed_all cs new_decoder) = map frame_event (map frame_parts fs)
      \<and> fst (drain (snd (feed_all cs new_decoder))) = []"
  proof -
    obtain es d where f: "feed_all cs new_decoder = (es, d)" by (meson surj_pair)
    have "drain_all frame_step (concat cs) = (map frame_event (map frame_parts fs), [])"
      unfolding assms(3) bs
    proof (rule drain_frames)
      fix x assume "x \<in> set (map frame_parts fs)"
      then obtain f where f: "f \<in> set fs" "x = frame_parts f" by auto
      from enc [OF f(1)] obtain b where "rpc_frame_bytes f = Inr b" ..
      with f(2) show "\<exists>b. (case x of (ty, i, a, p) \<Rightarrow> encodeFrame ty i a p) = Inr b"
        using rpc_frame_bytes_parts(1) by blast
    qed
    with feed_all_stream [OF f] f show ?thesis by (simp add: drain_bytes)
  qed
  moreover have "delivers f (frame_event (frame_parts f))" if "f \<in> set fs" for f
    using enc [OF that] assms(2) [OF that] delivers_parts by blast
  then have "list_all2 delivers fs (map frame_event (map frame_parts fs))"
    by (simp add: list.rel_map list.rel_refl_strong)
  ultimately show ?thesis by simp
qed

text \<open>Text of plain characters is its own literal and its own UTF-8.\<close>

definition plain_ascii :: "jsstr \<Rightarrow> bool" where
  "plain_ascii s = list_all (\<lambda>u. 32 \<le> u \<and> u < 128 \<and> u \<noteq> 34 \<and> u \<noteq> 92) s"

lemma quote_plain: "plain_ascii s \<Longrightarrow> json_quote s = 34 # s @ [34]"
proof -
  have "plain_ascii s \<Longrightarrow> quote_units s = s"
    by (induction s rule: quote_units.induct)
       (auto simp: plain_ascii_def quote_unit_def high_surrogate_def low_surrogate_def)
  then show "plain_ascii s \<Longrightarrow> json_quote s = 34 # s @ [34]" by (simp add: json_quote_def)
qed

lemma utf8_values_ascii: "list_all (\<lambda>u. u < 128) s \<Longrightarrow> utf8_values s = s"
  by (induction s rule: utf8_values.induct)
     (auto simp: utf8_scalar_def surrogate_def high_surrogate_def low_surrogate_def)

lemma length_ascii: "list_all (\<lambda>u. u < 128) s \<Longrightarrow> length (utf8_encode s) = length s"
  by (simp add: utf8_encode_def utf8_values_ascii)

lemma null_response: "length (message_bytes (Rpc_response 7 (Rpc_ok JNull))) = 38"
proof -
  let ?s = "json_stringify (message_json (Rpc_response 7 (Rpc_ok JNull)))"
  have "?s = 123 # 34 # js ''jsonrpc'' @ 34 # 58 # 34 # js ''2.0'' @ 34 # 44 # 34 # js ''id'' @ 34 # 58 # 55
      # 44 # 34 # js ''result'' @ 34 # 58 # js ''null'' @ [125]"
    by (simp add: jsonrpc_member_def quote_plain plain_ascii_def js_dec_small)
  then have "list_all (\<lambda>u. u < 128) ?s" "length ?s = 38" by simp_all
  then show ?thesis by (simp add: message_bytes_def length_ascii)
qed

theorem rpc_frames_roundtrip_witness:
  "\<exists>fs bs. length fs = 2 \<and> list_all2 (\<lambda>f b. rpc_frame_bytes f = Inr b) fs bs
     \<and> list_all2 delivers fs (fst (feed_all (map (\<lambda>b. [b]) (concat bs)) new_decoder))"
proof -
  let ?k = "\<lparr>rf_seq = 3, rf_ack = 1, rf_content = Keep_alive\<rparr>"
  let ?r = "\<lparr>rf_seq = 4, rf_ack = 1, rf_content = Carries (Rpc_response 7 (Rpc_ok JNull))\<rparr>"
  have "\<exists>b. rpc_frame_bytes ?k = Inr b"
    by (simp add: rpc_frame_bytes_def encodeKeepAliveFrame_def encodeFrame_def)
  moreover have "\<exists>b. rpc_frame_bytes ?r = Inr b"
    by (simp add: rpc_frame_bytes_def encodeJsonRpcFrame_def encodeFrame_def too_large_def null_response
        MAX_MESSAGE_SIZE_def)
  ultimately obtain b c where bs: "list_all2 (\<lambda>f b. rpc_frame_bytes f = Inr b) [?k, ?r] [b, c]" by auto
  moreover have "list_all2 delivers [?k, ?r] (fst (feed_all (map (\<lambda>b. [b]) (concat [b, c])) new_decoder))"
    by (rule conjunct1, rule rpc_frames_roundtrip [OF bs]) (auto simp: code_units_def)
  ultimately show ?thesis by (intro exI [of _ "[?k, ?r]"] exI [of _ "[b, c]"]) simp
qed

end
