(* ===== verification/Relay_Dispatcher.thy ===== *)
theory Relay_Dispatcher
  imports Rpc_Frames
begin

section \<open>The relay's end of the connections\<close>

text \<open>
  \<open>src/src/relay/dispatcher.ts\<close> and \<open>client-request-aborts.ts\<close>: clients that come and go, their
  requests with abort controllers, the bulk lane, and the requests of the relay to its clients.
  A client object outlives its entry in the map, so \<open>dp_client\<close> is total and \<open>dp_clients\<close> lists the
  ids of the map in order. Each sink a client writes to has a number of its own; \<open>dp_wire\<close>,
  \<open>dp_received\<close> and the like are histories.
\<close>

subsection \<open>State\<close>

record relay_client =
  rc_sink :: nat
  rc_drainWaiters :: "nat list"
  rc_bulkChain :: "(nat \<times> rpc_message) list"
  rc_nextOutgoingSeq :: nat
  rc_highestReceivedSeq :: nat
  rc_generation :: nat
  rc_closed :: bool

text \<open>A request in its handler; the number of its controller stands for the controller.\<close>

record handling =
  h_controller :: nat
  h_client :: nat
  h_id :: nat
  h_gen :: nat
  h_sink :: nat

datatype relay_outcome = Client_answered rpc_outcome | Client_timed_out | Dispatcher_disposed

record dispatcher =
  dp_client :: "nat \<Rightarrow> relay_client"
  dp_clients :: "nat list"
  dp_nextClientId :: nat
  dp_sinks :: nat
  dp_controllers :: "((nat \<times> nat) \<times> nat) list"
  dp_aborted :: "nat list"
  dp_nextController :: nat
  dp_handling :: "handling list"
  dp_requests :: "relay_outcome request_table"
  dp_unsent :: "nat list"
  dp_nextBulk :: nat
  dp_bulkDone :: "nat list"
  dp_received :: "(nat \<times> nat) list"
  dp_wire :: "(nat \<times> rpc_frame) list"
  dp_detached :: "nat list"
  dp_notified :: "(nat \<times> jsstr \<times> json) list"
  dp_disposed :: bool

text \<open>
  The sinks: what the write of a frame with a number says, and whether a sink has a
  \<open>waitWriteDrain\<close> that does not throw.
\<close>

record sinks =
  sk_write :: "nat \<Rightarrow> nat \<Rightarrow> write_result"
  sk_drains :: "nat \<Rightarrow> bool"

abbreviation primary :: nat where "primary \<equiv> 1"

definition new_client :: "nat \<Rightarrow> relay_client" where
  "new_client sink = \<lparr>rc_sink = sink, rc_drainWaiters = [], rc_bulkChain = [],
     rc_nextOutgoingSeq = 1, rc_highestReceivedSeq = 0, rc_generation = 0, rc_closed = False\<rparr>"

definition new_dispatcher :: dispatcher where
  "new_dispatcher =
     \<lparr>dp_client = \<lambda>c. new_client 1, dp_clients = [primary], dp_nextClientId = 2, dp_sinks = 1,
      dp_controllers = [], dp_aborted = [], dp_nextController = 0, dp_handling = [],
      dp_requests = new_table, dp_unsent = [], dp_nextBulk = 0, dp_bulkDone = [], dp_received = [],
      dp_wire = [], dp_detached = [], dp_notified = [], dp_disposed = False\<rparr>"

definition on_client :: "nat \<Rightarrow> (relay_client \<Rightarrow> relay_client) \<Rightarrow> dispatcher \<Rightarrow> dispatcher" where
  "on_client c g d = d\<lparr>dp_client := (dp_client d)(c := g (dp_client d c))\<rparr>"

subsection \<open>\<open>ClientRequestAborts\<close>\<close>

definition create_controller :: "nat \<Rightarrow> nat \<Rightarrow> dispatcher \<Rightarrow> dispatcher" where
  "create_controller c i d = d\<lparr>dp_nextController := dp_nextController d + 1,
     dp_controllers := filter (\<lambda>p. fst p \<noteq> (c, i)) (dp_controllers d) @ [((c, i), dp_nextController d)]\<rparr>"

definition delete_controller :: "nat \<Rightarrow> nat \<Rightarrow> dispatcher \<Rightarrow> dispatcher" where
  "delete_controller c i d = d\<lparr>dp_controllers := filter (\<lambda>p. fst p \<noteq> (c, i)) (dp_controllers d)\<rparr>"

definition abortClient :: "nat \<Rightarrow> dispatcher \<Rightarrow> dispatcher" where
  "abortClient c d = d\<lparr>
     dp_aborted := dp_aborted d @ map snd (filter (\<lambda>p. fst (fst p) = c) (dp_controllers d)),
     dp_controllers := filter (\<lambda>p. fst (fst p) \<noteq> c) (dp_controllers d)\<rparr>"

definition abortAll :: "dispatcher \<Rightarrow> dispatcher" where
  "abortAll d = d\<lparr>dp_aborted := dp_aborted d @ map snd (dp_controllers d), dp_controllers := []\<rparr>"

subsection \<open>Writing\<close>

text \<open>The steps of bulk sends that were parked on a saturated sink go on.\<close>

definition flushDrainWaiters :: "nat \<Rightarrow> dispatcher \<Rightarrow> dispatcher" where
  "flushDrainWaiters c d = (on_client c (\<lambda>k. k\<lparr>rc_drainWaiters := []\<rparr>) d)
     \<lparr>dp_bulkDone := dp_bulkDone d @ rc_drainWaiters (dp_client d c)\<rparr>"

definition notifyClientDetached :: "nat \<Rightarrow> dispatcher \<Rightarrow> dispatcher" where
  "notifyClientDetached c d = d\<lparr>dp_detached := dp_detached d @ [c]\<rparr>"

definition close_client :: "nat \<Rightarrow> dispatcher \<Rightarrow> dispatcher" where
  "close_client c d = on_client c (\<lambda>k. k\<lparr>rc_closed := True, rc_generation := rc_generation k + 1\<rparr>) d"

definition forget_client :: "nat \<Rightarrow> dispatcher \<Rightarrow> dispatcher" where
  "forget_client c d = (if c = primary then d else d\<lparr>dp_clients := removeAll c (dp_clients d)\<rparr>)"

definition writeFrame :: "sinks \<Rightarrow> nat \<Rightarrow> rpc_frame \<Rightarrow> dispatcher \<Rightarrow> bool \<times> dispatcher" where
  "writeFrame P c f d =
     (case sk_write P (rc_sink (dp_client d c)) (rf_seq f) of
        Write_throws \<Rightarrow> (False, notifyClientDetached c (forget_client c (flushDrainWaiters c
                                  (abortClient c (close_client c d)))))
      | Saturated \<Rightarrow> (True, d\<lparr>dp_wire := dp_wire d @ [(rc_sink (dp_client d c), f)]\<rparr>)
      | Accepted \<Rightarrow> (False, d\<lparr>dp_wire := dp_wire d @ [(rc_sink (dp_client d c), f)]\<rparr>))"

datatype frame_result = Frame_skipped | Frame_written | Frame_saturated | Frame_too_large

definition put_frame :: "sinks \<Rightarrow> nat \<Rightarrow> frame_content \<Rightarrow> dispatcher \<Rightarrow> bool \<times> dispatcher" where
  "put_frame P c content d =
     (let k = dp_client d c
      in writeFrame P c \<lparr>rf_seq = rc_nextOutgoingSeq k, rf_ack = rc_highestReceivedSeq k,
                         rf_content = content\<rparr>
           (on_client c (\<lambda>k. k\<lparr>rc_nextOutgoingSeq := rc_nextOutgoingSeq k + 1\<rparr>) d))"

definition sendFrame :: "sinks \<Rightarrow> nat \<Rightarrow> rpc_message \<Rightarrow> dispatcher \<Rightarrow> frame_result \<times> dispatcher" where
  "sendFrame P c msg d =
     (if dp_disposed d \<or> rc_closed (dp_client d c) then (Frame_skipped, d)
      else if too_large msg
      then (Frame_too_large, on_client c (\<lambda>k. k\<lparr>rc_nextOutgoingSeq := rc_nextOutgoingSeq k + 1\<rparr>) d)
      else (case put_frame P c (Carries msg) d of
              (saturated, d') \<Rightarrow> (if saturated then Frame_saturated else Frame_written, d')))"

text \<open>\<open>notify\<close> throws at a message that is too large, at the first client it sends it to.\<close>

fun notify_loop :: "sinks \<Rightarrow> rpc_message \<Rightarrow> nat list \<Rightarrow> dispatcher \<Rightarrow> dispatcher" where
  "notify_loop P msg [] d = d"
| "notify_loop P msg (c # cs) d = (case sendFrame P c msg d of
     (r, d') \<Rightarrow> if r = Frame_too_large then d' else notify_loop P msg cs d')"

definition dp_notify :: "sinks \<Rightarrow> jsstr \<Rightarrow> json option \<Rightarrow> dispatcher \<Rightarrow> dispatcher" where
  "dp_notify P method params d =
     (if dp_disposed d then d
      else notify_loop P (Rpc_notification method params) (dp_clients d) d)"

fun keepalive_loop :: "sinks \<Rightarrow> nat list \<Rightarrow> dispatcher \<Rightarrow> dispatcher" where
  "keepalive_loop P [] d = d"
| "keepalive_loop P (c # cs) d =
     keepalive_loop P cs (if rc_closed (dp_client d c) then d else snd (put_frame P c Keep_alive d))"

definition keepalive_tick :: "sinks \<Rightarrow> dispatcher \<Rightarrow> dispatcher" where
  "keepalive_tick P d = (if dp_disposed d then d else keepalive_loop P (dp_clients d) d)"

subsection \<open>The bulk lane\<close>

definition bulk_done :: "nat \<Rightarrow> dispatcher \<Rightarrow> dispatcher" where
  "bulk_done t d = d\<lparr>dp_bulkDone := dp_bulkDone d @ [t]\<rparr>"

definition waitForClientDrain :: "sinks \<Rightarrow> nat \<Rightarrow> nat \<Rightarrow> dispatcher \<Rightarrow> dispatcher" where
  "waitForClientDrain P c t d =
     (if dp_disposed d \<or> rc_closed (dp_client d c) \<or> \<not> sk_drains P (rc_sink (dp_client d c))
      then bulk_done t d
      else on_client c (\<lambda>k. k\<lparr>rc_drainWaiters := rc_drainWaiters k @ [t]\<rparr>) d)"

text \<open>The callback of a sink, for the step it was given with; late calls find it settled.\<close>

definition sink_drained :: "nat \<Rightarrow> nat \<Rightarrow> dispatcher \<Rightarrow> dispatcher" where
  "sink_drained c t d =
     (if t \<in> set (rc_drainWaiters (dp_client d c))
      then bulk_done t (on_client c (\<lambda>k. k\<lparr>rc_drainWaiters := remove1 t (rc_drainWaiters k)\<rparr>) d)
      else d)"

text \<open>\<open>notifyBulk\<close>: the steps its promise waits for, one for each client, put behind their chains.\<close>

fun bulk_loop :: "rpc_message \<Rightarrow> nat list \<Rightarrow> dispatcher \<Rightarrow> nat list \<times> dispatcher" where
  "bulk_loop msg [] d = ([], d)"
| "bulk_loop msg (c # cs) d =
     (if rc_closed (dp_client d c) then bulk_loop msg cs d
      else (let t = dp_nextBulk d;
                d1 = (on_client c (\<lambda>k. k\<lparr>rc_bulkChain := rc_bulkChain k @ [(t, msg)]\<rparr>) d)\<lparr>dp_nextBulk := t + 1\<rparr>
            in (case bulk_loop msg cs d1 of (ts, d2) \<Rightarrow> (t # ts, d2))))"

definition notifyBulk ::
  "jsstr \<Rightarrow> json option \<Rightarrow> nat option \<Rightarrow> dispatcher \<Rightarrow> nat list \<times> dispatcher" where
  "notifyBulk method params clientId d =
     (if dp_disposed d then ([], d)
      else bulk_loop (Rpc_notification method params)
             (case clientId of
                None \<Rightarrow> dp_clients d
              | Some c \<Rightarrow> if c \<in> set (dp_clients d) then [c] else []) d)"

text \<open>The next step of a client's chain, which runs when the one before has ended.\<close>

definition bulk_step :: "sinks \<Rightarrow> nat \<Rightarrow> dispatcher \<Rightarrow> dispatcher" where
  "bulk_step P c d =
     (case rc_bulkChain (dp_client d c) of
        [] \<Rightarrow> d
      | (t, msg) # rest \<Rightarrow>
          if rc_drainWaiters (dp_client d c) \<noteq> [] then d
          else (let d1 = on_client c (\<lambda>k. k\<lparr>rc_bulkChain := rest\<rparr>) d
                in if dp_disposed d1 \<or> rc_closed (dp_client d1 c) then bulk_done t d1
                   else (case sendFrame P c msg d1 of (r, d2) \<Rightarrow>
                           if r = Frame_saturated then waitForClientDrain P c t d2
                           else bulk_done t d2)))"

subsection \<open>Clients\<close>

definition resetClient :: "nat \<Rightarrow> dispatcher \<Rightarrow> dispatcher" where
  "resetClient c d = on_client c (\<lambda>k. k\<lparr>rc_nextOutgoingSeq := 1, rc_highestReceivedSeq := 0,
     rc_generation := rc_generation k + 1, rc_closed := False\<rparr>) d"

definition setWrite :: "dispatcher \<Rightarrow> dispatcher" where
  "setWrite d0 =
     (let d = abortClient primary d0;
          d1 = (on_client primary (\<lambda>k. k\<lparr>rc_sink := dp_sinks d + 1, rc_closed := False\<rparr>) d)
                 \<lparr>dp_sinks := dp_sinks d + 1\<rparr>
      in resetClient primary (flushDrainWaiters primary d1))"

definition invalidateClient :: "dispatcher \<Rightarrow> dispatcher" where
  "invalidateClient d = notifyClientDetached primary (flushDrainWaiters primary
     (close_client primary (abortClient primary d)))"

definition attachClient :: "dispatcher \<Rightarrow> nat \<times> dispatcher" where
  "attachClient d =
     (let c = dp_nextClientId d
      in (c, (on_client c (\<lambda>k. new_client (dp_sinks d + 1)) d)
               \<lparr>dp_nextClientId := c + 1, dp_sinks := dp_sinks d + 1, dp_clients := dp_clients d @ [c]\<rparr>))"

definition detachClient :: "nat \<Rightarrow> dispatcher \<Rightarrow> dispatcher" where
  "detachClient c d =
     (if c \<notin> set (dp_clients d) \<or> c = primary then d
      else notifyClientDetached c (forget_client c (flushDrainWaiters c
             (close_client c (abortClient c d)))))"

definition dp_dispose :: "dispatcher \<Rightarrow> dispatcher" where
  "dp_dispose d =
     (if dp_disposed d then d
      else fold flushDrainWaiters (dp_clients d)
             (abortAll (d\<lparr>dp_disposed := True,
                          dp_requests := settle_all Dispatcher_disposed (dp_requests d)\<rparr>)))"

subsection \<open>Requests to a client\<close>

definition requestClient ::
  "sinks \<Rightarrow> nat \<Rightarrow> jsstr \<Rightarrow> json option \<Rightarrow> dispatcher \<Rightarrow> nat option \<times> dispatcher" where
  "requestClient P c method params d =
     (if dp_disposed d \<or> c \<notin> set (dp_clients d) \<or> rc_closed (dp_client d c) then (None, d)
      else (let i = rt_next (dp_requests d);
                d1 = d\<lparr>dp_requests := issue (dp_requests d)\<rparr>
            in (Some i, case sendFrame P c (Rpc_request i method params) d1 of (r, d2) \<Rightarrow>
                  if r = Frame_too_large then d2\<lparr>dp_unsent := dp_unsent d2 @ [i]\<rparr> else d2)))"

definition requestAnyClient ::
  "sinks \<Rightarrow> nat option \<Rightarrow> jsstr \<Rightarrow> json option \<Rightarrow> dispatcher \<Rightarrow> nat option \<times> dispatcher" where
  "requestAnyClient P excludeClientId method params d =
     (let candidates = filter (\<lambda>c. \<not> rc_closed (dp_client d c) \<and> Some c \<noteq> excludeClientId) (dp_clients d)
      in case candidates of
           [] \<Rightarrow> (None, d)
         | first # _ \<Rightarrow> requestClient P (case find (\<lambda>c. c \<noteq> primary) candidates of
                          Some c \<Rightarrow> c | None \<Rightarrow> first) method params d)"

definition relay_request_timer :: "nat \<Rightarrow> dispatcher \<Rightarrow> dispatcher" where
  "relay_request_timer i d = d\<lparr>dp_requests := settle i Client_timed_out (dp_requests d)\<rparr>"

definition dp_handleResponse :: "nat \<Rightarrow> rpc_outcome \<Rightarrow> dispatcher \<Rightarrow> dispatcher" where
  "dp_handleResponse i res d = d\<lparr>dp_requests := settle i (Client_answered res) (dp_requests d)\<rparr>"

subsection \<open>Requests of a client\<close>

text \<open>
  Which methods have a handler at a time: \<open>known True\<close> for requests, \<open>known False\<close> for
  notifications. What a handler does besides is up to it; its end is an event of its own.
\<close>

definition dp_handleRequest ::
  "sinks \<Rightarrow> (bool \<Rightarrow> jsstr \<Rightarrow> bool) \<Rightarrow> nat \<Rightarrow> nat \<Rightarrow> jsstr \<Rightarrow> dispatcher \<Rightarrow> dispatcher" where
  "dp_handleRequest P known c i method d0 =
     (let d = d0\<lparr>dp_received := dp_received d0 @ [(rc_sink (dp_client d0 c), i)]\<rparr>
      in if \<not> known True method then snd (sendFrame P c (Rpc_response i (method_not_found method)) d)
         else create_controller c i (d\<lparr>dp_handling := dp_handling d @
                [\<lparr>h_controller = dp_nextController d, h_client = c, h_id = i,
                  h_gen = rc_generation (dp_client d c), h_sink = rc_sink (dp_client d c)\<rparr>]\<rparr>))"

definition isStale :: "handling \<Rightarrow> dispatcher \<Rightarrow> bool" where
  "isStale h d = (rc_generation (dp_client d (h_client h)) \<noteq> h_gen h
     \<or> h_client h \<notin> set (dp_clients d) \<or> h_controller h \<in> set (dp_aborted d))"

definition answer :: "sinks \<Rightarrow> handling \<Rightarrow> rpc_outcome \<Rightarrow> dispatcher \<Rightarrow> dispatcher" where
  "answer P h res d =
     (if isStale h d then d
      else (case sendFrame P (h_client h) (Rpc_response (h_id h) res) d of (r, d1) \<Rightarrow>
              (case res of
                 Rpc_error code text \<Rightarrow> d1
               | Rpc_ok v \<Rightarrow>
                   if r = Frame_too_large \<and> \<not> isStale h d1
                   then snd (sendFrame P (h_client h) (Rpc_response (h_id h) (Rpc_error (- 32000)
                               (message_too_large (Rpc_response (h_id h) res)))) d1)
                   else d1)))"

text \<open>The end of a handler; its \<open>finally\<close> deletes what is stored under its key by then.\<close>

definition handler_done :: "sinks \<Rightarrow> nat \<Rightarrow> rpc_outcome \<Rightarrow> dispatcher \<Rightarrow> dispatcher" where
  "handler_done P t res d =
     (case find (\<lambda>h. h_controller h = t) (dp_handling d) of
        None \<Rightarrow> d
      | Some h \<Rightarrow> delete_controller (h_client h) (h_id h)
          (answer P h res (d\<lparr>dp_handling := filter (\<lambda>h. h_controller h \<noteq> t) (dp_handling d)\<rparr>)))"

text \<open>\<open>Number(params.id)\<close> is \<open>i\<close>, for the number and its literal as a string.\<close>

definition cancels :: "json option \<Rightarrow> nat \<Rightarrow> bool" where
  "cancels params i = (case handler_params params of
     JObj ms \<Rightarrow> jget (js ''id'') ms = Some (JNum (js_dec i)) \<or> jget (js ''id'') ms = Some (JStr (js_dec i))
   | _ \<Rightarrow> False)"

definition dp_handleNotification ::
  "(bool \<Rightarrow> jsstr \<Rightarrow> bool) \<Rightarrow> nat \<Rightarrow> jsstr \<Rightarrow> json option \<Rightarrow> dispatcher \<Rightarrow> dispatcher" where
  "dp_handleNotification known c method params d =
     (if method = js ''rpc.cancel''
      then (case find (\<lambda>p. fst (fst p) = c \<and> cancels params (snd (fst p))) (dp_controllers d) of
              None \<Rightarrow> d
            | Some p \<Rightarrow> d\<lparr>dp_aborted := dp_aborted d @ [snd p]\<rparr>)
      else if known False method then d\<lparr>dp_notified := dp_notified d @ [(c, method, handler_params params)]\<rparr>
      else d)"

definition dp_handleFrame ::
  "sinks \<Rightarrow> (bool \<Rightarrow> jsstr \<Rightarrow> bool) \<Rightarrow> nat \<Rightarrow> rpc_frame \<Rightarrow> dispatcher \<Rightarrow> dispatcher" where
  "dp_handleFrame P known c f d0 =
     (let d = on_client c (\<lambda>k. k\<lparr>rc_highestReceivedSeq := max (rf_seq f) (rc_highestReceivedSeq k)\<rparr>) d0
      in case rf_content f of
           Carries (Rpc_request i method params) \<Rightarrow> dp_handleRequest P known c i method d
         | Carries (Rpc_response i res) \<Rightarrow> dp_handleResponse i res d
         | Carries (Rpc_notification method params) \<Rightarrow> dp_handleNotification known c method params d
         | Keep_alive \<Rightarrow> d
         | Garbage \<Rightarrow> d)"

text \<open>\<open>feed\<close> and \<open>feedClient\<close> with the frames a chunk completes.\<close>

definition feedForClient ::
  "sinks \<Rightarrow> (bool \<Rightarrow> jsstr \<Rightarrow> bool) \<Rightarrow> nat \<Rightarrow> rpc_frame list \<Rightarrow> dispatcher \<Rightarrow> dispatcher" where
  "feedForClient P known c fs d =
     (if dp_disposed d then d else fold (dp_handleFrame P known c) fs d)"

definition feedClient ::
  "sinks \<Rightarrow> (bool \<Rightarrow> jsstr \<Rightarrow> bool) \<Rightarrow> nat \<Rightarrow> rpc_frame list \<Rightarrow> dispatcher \<Rightarrow> dispatcher" where
  "feedClient P known c fs d = (if c \<notin> set (dp_clients d) then d else feedForClient P known c fs d)"

subsection \<open>Runs\<close>

datatype dp_event =
    Dp_attach | Dp_detach nat | Dp_setWrite | Dp_invalidate
  | Dp_feed nat "bool \<Rightarrow> jsstr \<Rightarrow> bool" "rpc_frame list"
  | Dp_handled nat rpc_outcome
  | Dp_notify jsstr "json option"
  | Dp_notifyBulk jsstr "json option" "nat option"
  | Dp_bulk_step nat | Dp_drained nat nat
  | Dp_request nat jsstr "json option"
  | Dp_requestAny "nat option" jsstr "json option"
  | Dp_request_timer nat
  | Dp_keepalive | Dp_dispose

fun dp_step :: "sinks \<Rightarrow> dp_event \<Rightarrow> dispatcher \<Rightarrow> dispatcher" where
  "dp_step P Dp_attach d = snd (attachClient d)"
| "dp_step P (Dp_detach c) d = detachClient c d"
| "dp_step P Dp_setWrite d = setWrite d"
| "dp_step P Dp_invalidate d = invalidateClient d"
| "dp_step P (Dp_feed c known fs) d = feedClient P known c fs d"
| "dp_step P (Dp_handled t res) d = handler_done P t res d"
| "dp_step P (Dp_notify method params) d = dp_notify P method params d"
| "dp_step P (Dp_notifyBulk method params c) d = snd (notifyBulk method params c d)"
| "dp_step P (Dp_bulk_step c) d = bulk_step P c d"
| "dp_step P (Dp_drained c t) d = sink_drained c t d"
| "dp_step P (Dp_request c method params) d = snd (requestClient P c method params d)"
| "dp_step P (Dp_requestAny c method params) d = snd (requestAnyClient P c method params d)"
| "dp_step P (Dp_request_timer i) d = relay_request_timer i d"
| "dp_step P Dp_keepalive d = keepalive_tick P d"
| "dp_step P Dp_dispose d = dp_dispose d"

definition dp_run :: "sinks \<Rightarrow> dp_event list \<Rightarrow> dispatcher \<Rightarrow> dispatcher" where
  "dp_run P evs d = fold (dp_step P) evs d"

end
