(* ===== verification/Relay_Dispatcher_Inv.thy ===== *)
theory Relay_Dispatcher_Inv
  imports Relay_Dispatcher
begin

section \<open>Invariants of the dispatcher\<close>

text \<open>
  \<open>dispatcher_invariant\<close> states what an invariant owes to the parts the operations are made of;
  every step of a run keeps it then. It is interpreted on the invariant of the connections
  (\<open>wire_inv\<close>: responses and numbers) and on that of the bulk lane (\<open>bulk_inv\<close>).
\<close>

subsection \<open>The parts of the operations\<close>

definition dp_valid :: "nat \<Rightarrow> dispatcher \<Rightarrow> bool" where
  "dp_valid c d = (1 \<le> c \<and> c < dp_nextClientId d)"

definition skip_number :: "nat \<Rightarrow> dispatcher \<Rightarrow> dispatcher" where
  "skip_number c d = on_client c (\<lambda>k. k\<lparr>rc_nextOutgoingSeq := rc_nextOutgoingSeq k + 1\<rparr>) d"

definition wrote :: "nat \<Rightarrow> frame_content \<Rightarrow> dispatcher \<Rightarrow> dispatcher" where
  "wrote c content d = (skip_number c d)\<lparr>dp_wire := dp_wire d @ [(rc_sink (dp_client d c),
     \<lparr>rf_seq = rc_nextOutgoingSeq (dp_client d c), rf_ack = rc_highestReceivedSeq (dp_client d c),
      rf_content = content\<rparr>)]\<rparr>"

definition lose_client :: "nat \<Rightarrow> dispatcher \<Rightarrow> dispatcher" where
  "lose_client c d = notifyClientDetached c (forget_client c (flushDrainWaiters c
     (close_client c (abortClient c d))))"

definition without_handler :: "nat \<Rightarrow> dispatcher \<Rightarrow> dispatcher" where
  "without_handler t d = d\<lparr>dp_handling := filter (\<lambda>h. h_controller h \<noteq> t) (dp_handling d)\<rparr>"

definition received :: "nat \<Rightarrow> nat \<Rightarrow> dispatcher \<Rightarrow> dispatcher" where
  "received c i d = d\<lparr>dp_received := dp_received d @ [(rc_sink (dp_client d c), i)]\<rparr>"

definition accepted :: "nat \<Rightarrow> nat \<Rightarrow> dispatcher \<Rightarrow> dispatcher" where
  "accepted c i d = create_controller c i ((received c i d)\<lparr>dp_handling := dp_handling d @
     [\<lparr>h_controller = dp_nextController d, h_client = c, h_id = i,
       h_gen = rc_generation (dp_client d c), h_sink = rc_sink (dp_client d c)\<rparr>]\<rparr>)"

definition bulk_added :: "nat \<Rightarrow> rpc_message \<Rightarrow> dispatcher \<Rightarrow> dispatcher" where
  "bulk_added c msg d = (on_client c (\<lambda>k. k\<lparr>rc_bulkChain := rc_bulkChain k @ [(dp_nextBulk d, msg)]\<rparr>) d)
     \<lparr>dp_nextBulk := dp_nextBulk d + 1\<rparr>"

definition bulk_popped :: "nat \<Rightarrow> dispatcher \<Rightarrow> dispatcher" where
  "bulk_popped c d = on_client c (\<lambda>k. k\<lparr>rc_bulkChain := tl (rc_bulkChain k)\<rparr>) d"

definition bulk_parked :: "nat \<Rightarrow> nat \<Rightarrow> dispatcher \<Rightarrow> dispatcher" where
  "bulk_parked c t d = on_client c (\<lambda>k. k\<lparr>rc_drainWaiters := rc_drainWaiters k @ [t]\<rparr>) d"

definition saw_number :: "nat \<Rightarrow> nat \<Rightarrow> dispatcher \<Rightarrow> dispatcher" where
  "saw_number c n d = on_client c (\<lambda>k. k\<lparr>rc_highestReceivedSeq := max n (rc_highestReceivedSeq k)\<rparr>) d"

lemmas part_defs = skip_number_def wrote_def lose_client_def without_handler_def received_def
  accepted_def bulk_added_def bulk_popped_def bulk_parked_def saw_number_def

lemmas dp_defs = on_client_def create_controller_def delete_controller_def abortClient_def
  abortAll_def flushDrainWaiters_def notifyClientDetached_def close_client_def forget_client_def
  bulk_done_def resetClient_def

lemma put_frame_parts:
  "put_frame P c content d =
     (case sk_write P (rc_sink (dp_client d c)) (rc_nextOutgoingSeq (dp_client d c)) of
        Write_throws \<Rightarrow> (False, lose_client c (skip_number c d))
      | Saturated \<Rightarrow> (True, wrote c content d)
      | Accepted \<Rightarrow> (False, wrote c content d))"
  by (cases "sk_write P (rc_sink (dp_client d c)) (rc_nextOutgoingSeq (dp_client d c))")
     (simp_all add: put_frame_def writeFrame_def part_defs dp_defs Let_def)

lemma detachClient_parts:
  "detachClient c d = (if c \<in> set (dp_clients d) \<and> c \<noteq> primary then lose_client c d else d)"
  by (simp add: detachClient_def lose_client_def)

lemma invalidateClient_parts: "invalidateClient d = lose_client primary d"
  by (simp add: invalidateClient_def lose_client_def forget_client_def)

lemma part_valid [simp]:
  "dp_valid c (skip_number c' d) = dp_valid c d" "dp_valid c (wrote c' content d) = dp_valid c d"
  "dp_valid c (lose_client c' d) = dp_valid c d" "dp_valid c (without_handler t d) = dp_valid c d"
  "dp_valid c (received c' i d) = dp_valid c d" "dp_valid c (accepted c' i d) = dp_valid c d"
  "dp_valid c (bulk_added c' msg d) = dp_valid c d" "dp_valid c (bulk_popped c' d) = dp_valid c d"
  "dp_valid c (bulk_parked c' t d) = dp_valid c d" "dp_valid c (saw_number c' n d) = dp_valid c d"
  "dp_valid c (bulk_done t d) = dp_valid c d"
  by (simp_all add: dp_valid_def part_defs dp_defs)

lemma wrote_parked:
  "wrote c content (bulk_parked c t d) = bulk_parked c t (wrote c content d)"
  by (rule dispatcher.equality)
     (auto simp: wrote_def skip_number_def bulk_parked_def on_client_def fun_eq_iff intro!: relay_client.equality)

lemma bulk_step_parts:
  assumes "rc_bulkChain (dp_client d c) = (t, msg) # rest" "rc_drainWaiters (dp_client d c) = []"
  defines "e \<equiv> bulk_done t (bulk_popped c d)"
  shows "bulk_step P c d =
     (if dp_disposed d \<or> rc_closed (dp_client d c) then e
      else if too_large msg then skip_number c e
      else (case sk_write P (rc_sink (dp_client d c)) (rc_nextOutgoingSeq (dp_client d c)) of
              Write_throws \<Rightarrow> lose_client c (skip_number c e)
            | Accepted \<Rightarrow> wrote c (Carries msg) e
            | Saturated \<Rightarrow> wrote c (Carries msg)
                (if sk_drains P (rc_sink (dp_client d c)) then bulk_parked c t (bulk_popped c d) else e)))"
proof -
  have "wrote c (Carries msg) (if sk_drains P s then bulk_parked c t (bulk_popped c d) else e) =
      (if sk_drains P s then bulk_parked c t (wrote c (Carries msg) (bulk_popped c d))
       else wrote c (Carries msg) e)" for s by (simp add: wrote_parked)
  with assms(1,2) show ?thesis unfolding e_def
  by (cases "sk_write P (rc_sink (dp_client d c)) (rc_nextOutgoingSeq (dp_client d c))")
     (simp_all add: bulk_step_def sendFrame_def put_frame_parts waitForClientDrain_def part_defs dp_defs
       Let_def)
qed

text \<open>What a frame answers.\<close>

fun answers :: "frame_content \<Rightarrow> nat option" where
  "answers (Carries (Rpc_response i res)) = Some i"
| "answers content = None"

lemma put_frame_valid [simp]: "dp_valid c (snd (put_frame P c' content d)) = dp_valid c d"
  by (simp add: put_frame_parts split: write_result.split)

lemma sendFrame_cases:
  "sendFrame P c msg d =
     (if dp_disposed d \<or> rc_closed (dp_client d c) then (Frame_skipped, d)
      else if too_large msg then (Frame_too_large, skip_number c d)
      else (case put_frame P c (Carries msg) d of
              (saturated, d') \<Rightarrow> (if saturated then Frame_saturated else Frame_written, d')))"
  by (simp add: sendFrame_def skip_number_def)

lemma sendFrame_valid: "dp_valid c (snd (sendFrame P c' msg d)) = dp_valid c d"
  using put_frame_valid [of c P c' "Carries msg" d]
  by (auto simp: sendFrame_cases simp del: put_frame_valid split: prod.splits)

lemma part_stale [simp]:
  "isStale h (skip_number c d) = isStale h d" "isStale h (without_handler t d) = isStale h d"
  by (simp_all add: isStale_def part_defs dp_defs)

lemma part_handling [simp]:
  "dp_handling (skip_number c d) = dp_handling d"
  "skip_number c (without_handler t d) = without_handler t (skip_number c d)"
  by (simp_all add: part_defs dp_defs)

subsection \<open>What an invariant owes\<close>

locale dispatcher_invariant =
  fixes I :: "dispatcher \<Rightarrow> bool" and P :: sinks
  assumes start: "I new_dispatcher"
    and primary_valid: "I d \<Longrightarrow> dp_valid primary d"
    and valid: "I d \<Longrightarrow> c \<in> set (dp_clients d) \<Longrightarrow> dp_valid c d"
    and chain_valid: "I d \<Longrightarrow> (t, msg) \<in> set (rc_bulkChain (dp_client d c)) \<Longrightarrow>
      dp_valid c d \<and> answers (Carries msg) = None"
    and lose: "I d \<Longrightarrow> dp_valid c d \<Longrightarrow> I (lose_client c d)"
    and skip: "I d \<Longrightarrow> I (skip_number c d)"
    and wrote: "I d \<Longrightarrow> dp_valid c d \<Longrightarrow> answers content = None \<Longrightarrow> I (wrote c content d)"
    and wrote_unknown: "I d \<Longrightarrow> dp_valid c d \<Longrightarrow> I (wrote c (Carries (Rpc_response i res)) (received c i d))"
    and wrote_answer: "I d \<Longrightarrow> h \<in> set (dp_handling d) \<Longrightarrow> \<not> isStale h d \<Longrightarrow>
      I (wrote (h_client h) (Carries (Rpc_response (h_id h) res)) (without_handler (h_controller h) d))"
    and without: "I d \<Longrightarrow> I (without_handler t d)"
    and received: "I d \<Longrightarrow> I (received c i d)"
    and accepted: "I d \<Longrightarrow> dp_valid c d \<Longrightarrow> I (accepted c i d)"
    and controllers: "I d \<Longrightarrow> I (delete_controller c i d)"
    and added: "I d \<Longrightarrow> c \<in> set (dp_clients d) \<Longrightarrow> \<not> rc_closed (dp_client d c) \<Longrightarrow>
      \<not> dp_disposed d \<Longrightarrow> answers (Carries msg) = None \<Longrightarrow> I (bulk_added c msg d)"
    and popped_done: "I d \<Longrightarrow> rc_bulkChain (dp_client d c) = (t, msg) # rest \<Longrightarrow>
      rc_drainWaiters (dp_client d c) = [] \<Longrightarrow> I (bulk_done t (bulk_popped c d))"
    and popped_parked: "I d \<Longrightarrow> rc_bulkChain (dp_client d c) = (t, msg) # rest \<Longrightarrow>
      rc_drainWaiters (dp_client d c) = [] \<Longrightarrow> \<not> rc_closed (dp_client d c) \<Longrightarrow> \<not> dp_disposed d \<Longrightarrow>
      sk_drains P (rc_sink (dp_client d c)) \<Longrightarrow> I (bulk_parked c t (bulk_popped c d))"
    and drained: "I d \<Longrightarrow> I (sink_drained c t d)"
    and saw: "I d \<Longrightarrow> I (saw_number c n d)"
    and attach: "I d \<Longrightarrow> I (snd (attachClient d))"
    and set_write: "I d \<Longrightarrow> I (setWrite d)"
    and dispose: "I d \<Longrightarrow> I (dp_dispose d)"
    and neutral: "I d \<Longrightarrow>
      I (d\<lparr>dp_requests := rs, dp_unsent := us, dp_notified := ns, dp_aborted := as\<rparr>)"
begin

lemma neutral_one:
  assumes "I d"
  shows "I (d\<lparr>dp_requests := rs\<rparr>)" "I (d\<lparr>dp_unsent := us\<rparr>)" "I (d\<lparr>dp_notified := ns\<rparr>)"
    "I (d\<lparr>dp_aborted := as\<rparr>)"
  using neutral [OF assms, where rs = rs and us = "dp_unsent d" and ns = "dp_notified d" and as = "dp_aborted d"]
    neutral [OF assms, where rs = "dp_requests d" and us = us and ns = "dp_notified d" and as = "dp_aborted d"]
    neutral [OF assms, where rs = "dp_requests d" and us = "dp_unsent d" and ns = ns and as = "dp_aborted d"]
    neutral [OF assms, where rs = "dp_requests d" and us = "dp_unsent d" and ns = "dp_notified d" and as = as]
  by simp_all

lemma put_frame_kept:
  "I d \<Longrightarrow> dp_valid c d \<Longrightarrow> answers content = None \<Longrightarrow> I (snd (put_frame P c content d))"
  by (simp add: put_frame_parts lose skip wrote split: write_result.split)

lemma sendFrame_kept:
  assumes "I d" "dp_valid c d" "answers (Carries msg) = None"
  shows "I (snd (sendFrame P c msg d))"
  using put_frame_kept [OF assms] skip [OF assms(1), of c]
  by (auto simp: sendFrame_def skip_number_def assms(1) split: prod.splits)

lemma send_answer_kept:
  assumes d: "I d" and h: "h \<in> set (dp_handling d)" "\<not> isStale h d"
  shows "I (snd (sendFrame P (h_client h) (Rpc_response (h_id h) res) (without_handler (h_controller h) d)))"
proof -
  have v: "dp_valid (h_client h) d" using h(2) by (intro valid [OF d]) (simp add: isStale_def)
  have "I (snd (put_frame P (h_client h) (Carries (Rpc_response (h_id h) res)) (without_handler (h_controller h) d)))"
    using wrote_answer [OF d h] v by (simp add: put_frame_parts lose skip without d split: write_result.split)
  then show ?thesis
    by (auto simp: sendFrame_cases without skip d split: prod.splits)
qed

lemma answer_kept:
  assumes d: "I d" and h: "h \<in> set (dp_handling d)"
  shows "I (answer P h res (without_handler (h_controller h) d))"
proof (cases "isStale h d")
  case False
  let ?d = "without_handler (h_controller h) d"
  obtain r d1 where s: "sendFrame P (h_client h) (Rpc_response (h_id h) res) ?d = (r, d1)" by fastforce
  have d1: "I d1" using send_answer_kept [OF d h False, of res] s by simp
  have "r = Frame_too_large \<Longrightarrow> d1 = without_handler (h_controller h) (skip_number (h_client h) d)"
    using s by (auto simp: sendFrame_cases split: if_splits prod.splits)
  then have "r = Frame_too_large \<Longrightarrow> I (snd (sendFrame P (h_client h) (Rpc_response (h_id h) res') d1))" for res'
    using send_answer_kept [of "skip_number (h_client h) d" h res'] skip [OF d, of "h_client h"] h False by simp
  with d1 s False show ?thesis by (simp add: answer_def split: rpc_outcome.split)
qed (simp add: answer_def without d)

lemma notify_loop_kept:
  "I d \<Longrightarrow> \<forall>c\<in>set cs. dp_valid c d \<Longrightarrow> answers (Carries msg) = None \<Longrightarrow> I (notify_loop P msg cs d)"
proof (induction cs arbitrary: d)
  case (Cons c cs)
  obtain r d' where s: "sendFrame P c msg d = (r, d')" by (cases "sendFrame P c msg d")
  moreover have "I d'" using sendFrame_kept [where c = c and d = d and msg = msg] Cons.prems s by simp
  moreover have "\<forall>c\<in>set cs. dp_valid c d'"
    using Cons.prems(2) sendFrame_valid [where c' = c and P = P and msg = msg and d = d] s by simp
  ultimately show ?case using Cons by simp
qed simp

lemma keepalive_loop_kept:
  "I d \<Longrightarrow> \<forall>c\<in>set cs. dp_valid c d \<Longrightarrow> I (keepalive_loop P cs d)"
  by (induction cs arbitrary: d) (simp_all add: put_frame_kept put_frame_valid)

lemma bulk_loop_kept:
  "I d \<Longrightarrow> set cs \<subseteq> set (dp_clients d) \<Longrightarrow> \<not> dp_disposed d \<Longrightarrow> answers (Carries msg) = None \<Longrightarrow>
   I (snd (bulk_loop msg cs d))"
proof (induction cs arbitrary: d)
  case (Cons c cs)
  then have "I (bulk_added c msg d)" if "\<not> rc_closed (dp_client d c)"
    using that by (intro added) auto
  moreover have "set cs \<subseteq> set (dp_clients (bulk_added c msg d))" "\<not> dp_disposed (bulk_added c msg d)"
    using Cons.prems by (auto simp: part_defs dp_defs)
  moreover have "snd (bulk_loop msg (c # cs) d) = (if rc_closed (dp_client d c) then snd (bulk_loop msg cs d)
      else snd (bulk_loop msg cs (bulk_added c msg d)))"
    by (simp add: bulk_added_def Let_def split: prod.splits)
  ultimately show ?case using Cons by auto
qed simp

lemma notifyBulk_kept: "I d \<Longrightarrow> I (snd (notifyBulk method params c d))"
  by (auto simp: notifyBulk_def simp del: bulk_loop.simps split: option.split intro!: bulk_loop_kept)

lemma bulk_step_kept:
  assumes "I d" shows "I (bulk_step P c d)"
proof (cases "rc_bulkChain (dp_client d c) = [] \<or> rc_drainWaiters (dp_client d c) \<noteq> []")
  case False
  then obtain t msg rest where c: "rc_bulkChain (dp_client d c) = (t, msg) # rest"
      "rc_drainWaiters (dp_client d c) = []" by (cases "rc_bulkChain (dp_client d c)") auto
  then have v: "dp_valid c d" "answers (Carries msg) = None"
    using chain_valid [OF assms, where t = t and msg = msg and c = c] by auto
  have ended: "I (bulk_done t (bulk_popped c d))" by (rule popped_done [OF assms c])
  have parked: "\<not> rc_closed (dp_client d c) \<Longrightarrow> \<not> dp_disposed d \<Longrightarrow> sk_drains P (rc_sink (dp_client d c)) \<Longrightarrow>
      I (bulk_parked c t (bulk_popped c d))" by (rule popped_parked [OF assms c])
  show ?thesis
    unfolding bulk_step_parts [OF c]
    using ended parked v by (simp add: lose skip wrote split: write_result.split)
qed (auto simp: bulk_step_def assms split: list.split)

lemma requestClient_kept: "I d \<Longrightarrow> I (snd (requestClient P c method params d))"
proof -
  assume d: "I d"
  let ?msg = "Rpc_request (rt_next (dp_requests d)) method params"
  let ?d = "d\<lparr>dp_requests := issue (dp_requests d)\<rparr>"
  have "I (snd (sendFrame P c ?msg ?d))" if "c \<in> set (dp_clients d)"
    using valid [OF d that] neutral_one(1) [OF d, of "issue (dp_requests d)"]
    by (intro sendFrame_kept) (simp_all add: dp_valid_def)
  with d show ?thesis
    by (auto simp: requestClient_def Let_def split: prod.splits intro!: neutral_one(2))
qed

lemma requestAnyClient_kept: "I d \<Longrightarrow> I (snd (requestAnyClient P c method params d))"
  by (simp add: requestAnyClient_def Let_def requestClient_kept split: list.split)

lemma handler_done_kept:
  assumes d: "I d" shows "I (handler_done P t res d)"
proof (cases "find (\<lambda>h. h_controller h = t) (dp_handling d)")
  case (Some h)
  then have h: "h \<in> set (dp_handling d)" "h_controller h = t" by (auto simp: find_Some_iff)
  have w: "I (answer P h res (without_handler t d))"
    using answer_kept [OF d h(1)] h(2) by simp
  show ?thesis using Some controllers [OF w] by (simp add: handler_done_def without_handler_def)
qed (simp add: handler_done_def d)

lemma handleRequest_kept:
  assumes d: "I d" "dp_valid c d" shows "I (dp_handleRequest P known c i method d)"
proof -
  let ?r = "received c i d"
  have "I (snd (put_frame P c (Carries (Rpc_response i res)) ?r))" for res
    using received [OF d(1), of c i] wrote_unknown [OF d, of i res] d(2)
    by (simp add: put_frame_parts lose skip split: write_result.split)
  then have "I (snd (sendFrame P c (Rpc_response i res) ?r))" for res
    using received [OF d(1), of c i] skip [OF received [OF d(1)], of c c i]
    by (auto simp: sendFrame_cases split: prod.splits) (metis snd_conv)
  with accepted [OF d, of i] show ?thesis
    by (simp add: dp_handleRequest_def accepted_def received_def Let_def)
qed

lemma handleFrame_kept:
  assumes d: "I d" "dp_valid c d" shows "I (dp_handleFrame P known c f d)"
proof -
  let ?d = "saw_number c (rf_seq f) d"
  have s: "I ?d" "dp_valid c ?d" using d saw by simp_all
  note [simp] = handleRequest_kept [OF s] neutral_one [OF s(1)] s(1)
  show ?thesis
    unfolding dp_handleFrame_def saw_number_def [symmetric] Let_def
    by (simp add: dp_handleResponse_def dp_handleNotification_def split: frame_content.split
        rpc_message.split option.split)
qed

lemma handleFrame_valid: "dp_valid c' (dp_handleFrame P known c f d) = dp_valid c' d"
  using sendFrame_valid [of c' P c]
  by (simp add: dp_handleFrame_def dp_handleResponse_def dp_handleNotification_def dp_handleRequest_def
      create_controller_def Let_def sendFrame_valid split: frame_content.split rpc_message.split option.split)
     (simp add: dp_valid_def on_client_def)

lemma feed_kept: "I d \<Longrightarrow> dp_valid c d \<Longrightarrow> I (fold (dp_handleFrame P known c) fs d)"
  by (induction fs arbitrary: d) (simp_all add: handleFrame_kept handleFrame_valid)

lemma step_kept: "I d \<Longrightarrow> I (dp_step P e d)"
  by (cases e)
     (simp_all add: attach set_write dispose lose valid detachClient_parts invalidateClient_parts
       feedClient_def feedForClient_def feed_kept handler_done_kept dp_notify_def notify_loop_kept
       notifyBulk_kept primary_valid [simplified] bulk_step_kept drained requestClient_kept requestAnyClient_kept
       relay_request_timer_def neutral_one keepalive_tick_def keepalive_loop_kept split: option.split)

lemma run_kept: "I (dp_run P evs new_dispatcher)"
proof -
  have "I d \<Longrightarrow> I (dp_run P evs d)" for d
    unfolding dp_run_def by (induction evs arbitrary: d) (simp_all add: step_kept)
  with start show ?thesis by blast
qed

end

end
