(* ===== verification/Relay_Dispatcher_Props.thy ===== *)
theory Relay_Dispatcher_Props
  imports Relay_Dispatcher_Inv
begin

section \<open>What the dispatcher promises\<close>

text \<open>
  The invariants of the connections and of the bulk lane, each an interpretation of
  \<open>dispatcher_invariant\<close>, and the properties that rest on them.
\<close>

subsection \<open>Clients and their sinks\<close>

definition clients_ok :: "dispatcher \<Rightarrow> bool" where
  "clients_ok d = (2 \<le> dp_nextClientId d \<and> (\<forall>c\<in>set (dp_clients d). dp_valid c d)
     \<and> (\<forall>c t msg. (t, msg) \<in> set (rc_bulkChain (dp_client d c)) \<longrightarrow>
           dp_valid c d \<and> answers (Carries msg) = None)
     \<and> (\<forall>c. dp_valid c d \<longrightarrow> rc_sink (dp_client d c) \<le> dp_sinks d)
     \<and> (\<forall>c c'. dp_valid c d \<longrightarrow> dp_valid c' d \<longrightarrow>
           rc_sink (dp_client d c) = rc_sink (dp_client d c') \<longrightarrow> c = c'))"

text \<open>Where only the numbers, the state or the bulk lane of a client change.\<close>

definition same_clients :: "dispatcher \<Rightarrow> dispatcher \<Rightarrow> bool" where
  "same_clients d' d = (dp_nextClientId d' = dp_nextClientId d \<and> dp_sinks d' = dp_sinks d
     \<and> set (dp_clients d') \<subseteq> set (dp_clients d)
     \<and> (\<forall>c. rc_sink (dp_client d' c) = rc_sink (dp_client d c)
           \<and> set (rc_bulkChain (dp_client d' c)) \<subseteq> set (rc_bulkChain (dp_client d c))))"

lemma same_clients_ok: "clients_ok d \<Longrightarrow> same_clients d' d \<Longrightarrow> clients_ok d'"
  unfolding clients_ok_def same_clients_def dp_valid_def by (simp, blast)

lemma same_clients_trans: "same_clients a b \<Longrightarrow> same_clients b c \<Longrightarrow> same_clients a c"
  unfolding same_clients_def by (auto; blast)

lemma set_tl: "x \<in> set (tl xs) \<Longrightarrow> x \<in> set xs"
  by (cases xs) auto

lemma same_clients_parts:
  "same_clients (lose_client c d) d" "same_clients (skip_number c d) d"
  "same_clients (wrote c content d) d" "same_clients (without_handler t d) d"
  "same_clients (received c i d) d" "same_clients (accepted c i d) d"
  "same_clients (delete_controller c i d) d" "same_clients (bulk_popped c d) d"
  "same_clients (bulk_done t d) d" "same_clients (bulk_parked c t d) d"
  "same_clients (sink_drained c t d) d" "same_clients (saw_number c n d) d"
  "same_clients (d\<lparr>dp_requests := rs, dp_unsent := us, dp_notified := ns, dp_aborted := as\<rparr>) d"
  by (auto simp: same_clients_def part_defs dp_defs sink_drained_def dest: set_tl)

lemma same_clients_flush: "same_clients (fold flushDrainWaiters cs d) d"
proof (induction cs arbitrary: d)
  case (Cons c cs)
  have "same_clients (flushDrainWaiters c d) d" by (simp add: same_clients_def dp_defs)
  with Cons show ?case using same_clients_trans by fastforce
qed (simp add: same_clients_def)

lemma same_clients_dispose: "same_clients (dp_dispose d) d"
proof -
  have "same_clients (abortAll (d\<lparr>dp_disposed := True, dp_requests := rs\<rparr>)) d" for rs
    by (simp add: same_clients_def dp_defs)
  then show ?thesis
    using same_clients_trans [OF same_clients_flush] by (simp add: dp_dispose_def same_clients_def)
qed

lemma clients_added:
  assumes d: "clients_ok d" "c \<in> set (dp_clients d)" "answers (Carries msg) = None"
  shows "clients_ok (bulk_added c msg d)"
proof -
  let ?d = "bulk_added c msg d"
  have same: "dp_nextClientId ?d = dp_nextClientId d" "dp_sinks ?d = dp_sinks d" "dp_clients ?d = dp_clients d"
      "rc_sink (dp_client ?d c') = rc_sink (dp_client d c')" for c'
    by (simp_all add: bulk_added_def on_client_def)
  have v: "dp_valid c' ?d = dp_valid c' d" for c' by (simp add: dp_valid_def same)
  have old: "dp_valid c d"
    "\<forall>c t msg. (t, msg) \<in> set (rc_bulkChain (dp_client d c)) \<longrightarrow> dp_valid c d \<and> answers (Carries msg) = None"
    using d(1,2) unfolding clients_ok_def by simp_all
  have "\<forall>c t msg. (t, msg) \<in> set (rc_bulkChain (dp_client ?d c)) \<longrightarrow> dp_valid c d \<and> answers (Carries msg) = None"
    using old d(3) unfolding bulk_added_def on_client_def by (simp add: all_conj_distrib)
  with d(1) show ?thesis unfolding clients_ok_def same v by simp
qed

lemma clients_attach: "clients_ok d \<Longrightarrow> clients_ok (snd (attachClient d))"
  unfolding clients_ok_def attachClient_def on_client_def dp_valid_def new_client_def
  by (auto simp: Let_def less_Suc_eq le_Suc_eq)

lemma clients_setWrite: "clients_ok d \<Longrightarrow> clients_ok (setWrite d)"
  unfolding clients_ok_def setWrite_def dp_defs dp_valid_def
  by (auto simp: Let_def le_Suc_eq)

interpretation clients: dispatcher_invariant clients_ok P
proof unfold_locales
  show "clients_ok new_dispatcher"
    by (auto simp: clients_ok_def new_dispatcher_def new_client_def dp_valid_def)
  fix d assume d: "clients_ok d"
  show "dp_valid primary d" "c \<in> set (dp_clients d) \<Longrightarrow> dp_valid c d"
    "(t, msg) \<in> set (rc_bulkChain (dp_client d c)) \<Longrightarrow> dp_valid c d \<and> answers (Carries msg) = None" for c t msg
    using d by (auto simp: clients_ok_def dp_valid_def)
  show "clients_ok (lose_client c d)" "clients_ok (skip_number c d)" "clients_ok (wrote c content d)"
    "clients_ok (without_handler t d)" "clients_ok (received c i d)" "clients_ok (accepted c i d)"
    "clients_ok (delete_controller c i d)" "clients_ok (sink_drained c t d)"
    "clients_ok (saw_number c n d)" "clients_ok (dp_dispose d)"
    "clients_ok (d\<lparr>dp_requests := rs, dp_unsent := us, dp_notified := ns, dp_aborted := as\<rparr>)"
    for c i t n content rs us ns as
    by (rule same_clients_ok [OF d], rule same_clients_parts same_clients_dispose)+
  show "clients_ok (wrote c content (received c i d))" "clients_ok (wrote c content (without_handler t d))"
    "clients_ok (bulk_done t (bulk_popped c d))" "clients_ok (bulk_parked c t (bulk_popped c d))"
    for c i t content
    by (rule same_clients_ok [OF d], rule same_clients_trans, rule same_clients_parts,
        rule same_clients_parts)+
qed (simp_all add: clients_added clients_attach clients_setWrite)

subsection \<open>Numbers\<close>

definition seqs_on :: "nat \<Rightarrow> (nat \<times> rpc_frame) list \<Rightarrow> nat list" where
  "seqs_on s w = map (\<lambda>p. rf_seq (snd p)) (filter (\<lambda>p. fst p = s) w)"

definition numbers_ok :: "dispatcher \<Rightarrow> bool" where
  "numbers_ok d = ((\<forall>p\<in>set (dp_wire d). fst p \<le> dp_sinks d)
     \<and> (\<forall>c. dp_valid c d \<longrightarrow>
          (\<forall>n\<in>set (seqs_on (rc_sink (dp_client d c)) (dp_wire d)). n < rc_nextOutgoingSeq (dp_client d c)))
     \<and> (\<forall>s. sorted_wrt (<) (seqs_on s (dp_wire d))))"

definition same_wire :: "dispatcher \<Rightarrow> dispatcher \<Rightarrow> bool" where
  "same_wire d' d = (dp_wire d' = dp_wire d \<and> dp_sinks d' = dp_sinks d
     \<and> dp_nextClientId d' = dp_nextClientId d
     \<and> (\<forall>c. rc_sink (dp_client d' c) = rc_sink (dp_client d c)
           \<and> rc_nextOutgoingSeq (dp_client d c) \<le> rc_nextOutgoingSeq (dp_client d' c)))"

lemma same_wire_ok: "numbers_ok d \<Longrightarrow> same_wire d' d \<Longrightarrow> numbers_ok d'"
  unfolding numbers_ok_def same_wire_def dp_valid_def by (simp, meson less_le_trans)

lemma same_wire_trans: "same_wire a b \<Longrightarrow> same_wire b c \<Longrightarrow> same_wire a c"
  unfolding same_wire_def by (auto intro: order_trans)

lemma same_wire_parts:
  "same_wire (lose_client c d) d" "same_wire (skip_number c d) d" "same_wire (without_handler t d) d"
  "same_wire (received c i d) d" "same_wire (accepted c i d) d" "same_wire (delete_controller c i d) d"
  "same_wire (bulk_popped c d) d" "same_wire (bulk_done t d) d" "same_wire (bulk_parked c t d) d"
  "same_wire (sink_drained c t d) d" "same_wire (saw_number c n d) d" "same_wire (bulk_added c msg d) d"
  "same_wire (d\<lparr>dp_requests := rs, dp_unsent := us, dp_notified := ns, dp_aborted := as\<rparr>) d"
  by (auto simp: same_wire_def part_defs dp_defs sink_drained_def)

lemma same_wire_dispose: "same_wire (dp_dispose d) d"
proof -
  have f: "same_wire (fold flushDrainWaiters cs d) d" for cs d
  proof (induction cs arbitrary: d)
    case (Cons c cs)
    have "same_wire (flushDrainWaiters c d) d" by (simp add: same_wire_def dp_defs)
    with Cons show ?case using same_wire_trans by fastforce
  qed (simp add: same_wire_def)
  have "same_wire (abortAll (d\<lparr>dp_disposed := True, dp_requests := rs\<rparr>)) d" for rs
    by (simp add: same_wire_def dp_defs)
  then show ?thesis using same_wire_trans [OF f] by (simp add: dp_dispose_def same_wire_def)
qed

lemma seqs_on_snoc: "seqs_on s (w @ [(s', f)]) = seqs_on s w @ (if s' = s then [rf_seq f] else [])"
  by (simp add: seqs_on_def)

lemma numbers_wrote:
  assumes d: "clients_ok d" "numbers_ok d" "dp_valid c d"
  shows "numbers_ok (wrote c content d)"
proof -
  let ?d = "wrote c content d"
  let ?s = "rc_sink (dp_client d c)"
  obtain f where w: "dp_wire ?d = dp_wire d @ [(?s, f)]" and f: "rf_seq f = rc_nextOutgoingSeq (dp_client d c)"
    by (simp add: wrote_def)
  have same: "dp_sinks ?d = dp_sinks d" "rc_sink (dp_client ?d c') = rc_sink (dp_client d c')"
    "rc_nextOutgoingSeq (dp_client ?d c') = rc_nextOutgoingSeq (dp_client d c') + (if c' = c then 1 else 0)" for c'
    by (simp_all add: wrote_def skip_number_def on_client_def)
  have s: "?s \<le> dp_sinks d" and inj: "\<And>c'. dp_valid c' d \<Longrightarrow> rc_sink (dp_client d c') = ?s \<Longrightarrow> c' = c"
    using d(1,3) unfolding clients_ok_def by blast+
  have old: "\<forall>p\<in>set (dp_wire d). fst p \<le> dp_sinks d"
    "\<And>c' n. dp_valid c' d \<Longrightarrow> n \<in> set (seqs_on (rc_sink (dp_client d c')) (dp_wire d)) \<Longrightarrow>
       n < rc_nextOutgoingSeq (dp_client d c')"
    "\<And>s. sorted_wrt (<) (seqs_on s (dp_wire d))"
    using d(2) unfolding numbers_ok_def by blast+
  have below: "n < rc_nextOutgoingSeq (dp_client ?d c')"
    if v: "dp_valid c' d" and n: "n \<in> set (seqs_on (rc_sink (dp_client d c')) (dp_wire ?d))" for c' n
  proof (cases "c' = c")
    case True
    then show ?thesis using n old(2) [OF v] f unfolding w seqs_on_snoc same
      by (auto simp: less_Suc_eq)
  next
    case False
    then have "rc_sink (dp_client d c') \<noteq> ?s" using inj [OF v] by blast
    then show ?thesis using n old(2) [OF v] False unfolding w seqs_on_snoc same by auto
  qed
  have "sorted_wrt (<) (seqs_on s (dp_wire ?d))" for s
    using old(3) old(2) [OF d(3)] f unfolding w seqs_on_snoc by (auto simp: sorted_wrt_append)
  with below s old(1) show ?thesis unfolding numbers_ok_def part_valid same w by auto
qed

lemma numbers_attach:
  assumes d: "clients_ok d" "numbers_ok d" shows "numbers_ok (snd (attachClient d))"
proof -
  have "seqs_on (Suc (dp_sinks d)) (dp_wire d) = []"
    using d(2) unfolding numbers_ok_def seqs_on_def by (auto simp: filter_empty_conv)
  with d(2) show ?thesis
    unfolding numbers_ok_def attachClient_def on_client_def dp_valid_def
    by (auto simp: Let_def less_Suc_eq new_client_def)
qed

lemma numbers_setWrite:
  assumes d: "clients_ok d" "numbers_ok d" shows "numbers_ok (setWrite d)"
proof -
  have "seqs_on (Suc (dp_sinks d)) (dp_wire d) = []"
    using d(2) unfolding numbers_ok_def seqs_on_def by (auto simp: filter_empty_conv)
  with d(2) show ?thesis
    unfolding numbers_ok_def setWrite_def dp_defs dp_valid_def by (auto simp: Let_def)
qed

definition wire_inv :: "dispatcher \<Rightarrow> bool" where
  "wire_inv d = (clients_ok d \<and> numbers_ok d)"

lemma wire_inv_same: "wire_inv d \<Longrightarrow> clients_ok d' \<Longrightarrow> same_wire d' d \<Longrightarrow> wire_inv d'"
  unfolding wire_inv_def using same_wire_ok by blast

lemma wire_inv_wrote: "wire_inv d \<Longrightarrow> dp_valid c d \<Longrightarrow> wire_inv (wrote c content d)"
  unfolding wire_inv_def using same_clients_ok same_clients_parts(3) numbers_wrote by blast

interpretation numbers: dispatcher_invariant wire_inv P
proof unfold_locales
  show "wire_inv new_dispatcher"
    using clients.start by (simp add: wire_inv_def numbers_ok_def new_dispatcher_def seqs_on_def)
  fix d assume d: "wire_inv d"
  note c = d [unfolded wire_inv_def, THEN conjunct1] and n = d [unfolded wire_inv_def, THEN conjunct2]
  show "dp_valid primary d" "c \<in> set (dp_clients d) \<Longrightarrow> dp_valid c d"
    "(t, msg) \<in> set (rc_bulkChain (dp_client d c)) \<Longrightarrow> dp_valid c d \<and> answers (Carries msg) = None" for c t msg
    using clients.primary_valid [OF c] clients.valid [OF c] clients.chain_valid [OF c] by blast+
  show "dp_valid c d \<Longrightarrow> wire_inv (lose_client c d)" "wire_inv (skip_number c d)"
    "wire_inv (without_handler t d)" "wire_inv (received c i d)" "dp_valid c d \<Longrightarrow> wire_inv (accepted c i d)"
    "wire_inv (delete_controller c i d)" "wire_inv (sink_drained c t d)" "wire_inv (saw_number c n d)"
    "wire_inv (dp_dispose d)"
    "wire_inv (d\<lparr>dp_requests := rs, dp_unsent := us, dp_notified := ns, dp_aborted := as\<rparr>)"
    for c i t n rs us ns as
    using clients.lose clients.skip clients.without clients.received clients.accepted
      clients.controllers clients.drained clients.saw clients.dispose clients.neutral c
    by (metis wire_inv_same [OF d] same_wire_parts same_wire_dispose)+
  show "dp_valid c d \<Longrightarrow> wire_inv (wrote c content d)" for c content
    by (rule wire_inv_wrote [OF d])
  show "dp_valid c d \<Longrightarrow> wire_inv (wrote c content (received c i d))" for c i content
    by (rule wire_inv_wrote) (simp_all add: wire_inv_same [OF d] clients.received c same_wire_parts)
  show "\<not> isStale h d \<Longrightarrow> wire_inv (wrote (h_client h) content (without_handler t d))" for h t content
    by (rule wire_inv_wrote) (simp_all add: wire_inv_same [OF d] clients.without c same_wire_parts
        clients.valid isStale_def)
  show "c \<in> set (dp_clients d) \<Longrightarrow> answers (Carries msg) = None \<Longrightarrow> wire_inv (bulk_added c msg d)" for c msg
    by (simp add: wire_inv_same [OF d] clients_added c same_wire_parts)
  show "wire_inv (bulk_done t (bulk_popped c d))" "wire_inv (bulk_parked c t (bulk_popped c d))" for c t
    by (rule wire_inv_same [OF d], rule same_clients_ok [OF c], rule same_clients_trans,
        rule same_clients_parts, rule same_clients_parts, rule same_wire_trans,
        rule same_wire_parts, rule same_wire_parts)+
qed (simp_all add: wire_inv_def clients_attach clients_setWrite numbers_attach numbers_setWrite)

subsection \<open>Answers\<close>

definition answer_count :: "nat \<Rightarrow> nat \<Rightarrow> (nat \<times> rpc_frame) list \<Rightarrow> nat" where
  "answer_count s i w = length (filter (\<lambda>p. fst p = s \<and> answers (rf_content (snd p)) = Some i) w)"

definition handling_count :: "nat \<Rightarrow> nat \<Rightarrow> handling list \<Rightarrow> nat" where
  "handling_count s i hs = length (filter (\<lambda>h. h_sink h = s \<and> h_id h = i) hs)"

definition request_count :: "nat \<Rightarrow> nat \<Rightarrow> (nat \<times> nat) list \<Rightarrow> nat" where
  "request_count s i rs = length (filter (\<lambda>p. p = (s, i)) rs)"

definition owed_ok :: "dispatcher \<Rightarrow> bool" where
  "owed_ok d = ((\<forall>s i. answer_count s i (dp_wire d) + handling_count s i (dp_handling d)
        \<le> request_count s i (dp_received d))
     \<and> (\<forall>h\<in>set (dp_handling d). dp_valid (h_client h) d
          \<and> h_gen h \<le> rc_generation (dp_client d (h_client h))
          \<and> (rc_generation (dp_client d (h_client h)) = h_gen h \<longrightarrow> rc_sink (dp_client d (h_client h)) = h_sink h)))"

definition same_owed :: "dispatcher \<Rightarrow> dispatcher \<Rightarrow> bool" where
  "same_owed d' d = ((\<forall>s i. answer_count s i (dp_wire d') \<le> answer_count s i (dp_wire d)
        \<and> request_count s i (dp_received d) \<le> request_count s i (dp_received d'))
     \<and> (\<exists>Q. dp_handling d' = filter Q (dp_handling d))
     \<and> (\<forall>c. dp_valid c d \<longrightarrow> dp_valid c d' \<and> rc_generation (dp_client d c) \<le> rc_generation (dp_client d' c)
          \<and> (rc_generation (dp_client d' c) = rc_generation (dp_client d c) \<longrightarrow>
               rc_sink (dp_client d' c) = rc_sink (dp_client d c))))"

lemma handling_count_filter: "handling_count s i (filter Q hs) \<le> handling_count s i hs"
  by (induction hs) (simp_all add: handling_count_def)

lemma same_owed_ok:
  assumes d: "owed_ok d" "same_owed d' d" shows "owed_ok d'"
proof -
  obtain Q where Q: "dp_handling d' = filter Q (dp_handling d)"
    using d(2) unfolding same_owed_def by blast
  have "answer_count s i (dp_wire d') + handling_count s i (dp_handling d') \<le> request_count s i (dp_received d')" for s i
  proof -
    have "answer_count s i (dp_wire d') \<le> answer_count s i (dp_wire d)"
      "request_count s i (dp_received d) \<le> request_count s i (dp_received d')"
      "answer_count s i (dp_wire d) + handling_count s i (dp_handling d) \<le> request_count s i (dp_received d)"
      using d unfolding same_owed_def owed_ok_def by blast+
    with handling_count_filter [of s i Q "dp_handling d"] Q show ?thesis by simp
  qed
  moreover have "dp_valid (h_client h) d' \<and> h_gen h \<le> rc_generation (dp_client d' (h_client h))
      \<and> (rc_generation (dp_client d' (h_client h)) = h_gen h \<longrightarrow> rc_sink (dp_client d' (h_client h)) = h_sink h)"
    if "h \<in> set (dp_handling d')" for h
  proof -
    have h: "h \<in> set (dp_handling d)" using that Q by simp
    have "dp_valid (h_client h) d" "h_gen h \<le> rc_generation (dp_client d (h_client h))"
      "rc_generation (dp_client d (h_client h)) = h_gen h \<Longrightarrow> rc_sink (dp_client d (h_client h)) = h_sink h"
      using d(1) h unfolding owed_ok_def by blast+
    with d(2) show ?thesis unfolding same_owed_def by (metis le_antisym le_trans)
  qed
  ultimately show ?thesis unfolding owed_ok_def by blast
qed

lemma same_owed_trans:
  assumes "same_owed a b" "same_owed b c" shows "same_owed a c"
proof -
  obtain Q R where "dp_handling a = filter Q (dp_handling b)" "dp_handling b = filter R (dp_handling c)"
    using assms unfolding same_owed_def by blast
  then have "\<exists>Q. dp_handling a = filter Q (dp_handling c)" by (metis filter_filter)
  with assms show ?thesis unfolding same_owed_def by (metis le_antisym le_trans)
qed

lemma filter_same: "\<exists>Q. xs = filter Q xs"
  by (rule exI [of _ "\<lambda>x. True"]) simp

lemma same_owed_refl: "same_owed d d"
  by (simp add: same_owed_def filter_same)

lemma answer_count_snoc:
  "answer_count s i (w @ [(s', f)]) =
     answer_count s i w + (if s' = s \<and> answers (rf_content f) = Some i then 1 else 0)"
  by (simp add: answer_count_def)

lemma request_count_snoc:
  "request_count s i (rs @ [(s', i')]) = request_count s i rs + (if s' = s \<and> i' = i then 1 else 0)"
  by (simp add: request_count_def)

lemma same_owed_parts:
  "same_owed (lose_client c d) d" "same_owed (skip_number c d) d" "same_owed (without_handler t d) d"
  "same_owed (received c i d) d" "same_owed (delete_controller c i d) d"
  "same_owed (bulk_popped c d) d" "same_owed (bulk_done t d) d" "same_owed (bulk_parked c t d) d"
  "same_owed (sink_drained c t d) d" "same_owed (saw_number c n d) d" "same_owed (bulk_added c msg d) d"
  "same_owed (d\<lparr>dp_requests := rs, dp_unsent := us, dp_notified := ns, dp_aborted := as\<rparr>) d"
  "same_owed (snd (attachClient d)) d" "same_owed (setWrite d) d"
  "answers content = None \<Longrightarrow> same_owed (wrote c content d) d"
  by (auto simp: same_owed_def part_defs dp_defs sink_drained_def attachClient_def setWrite_def Let_def
      dp_valid_def filter_same answer_count_snoc request_count_snoc)

lemma same_owed_dispose: "same_owed (dp_dispose d) d"
proof -
  have f: "same_owed (fold flushDrainWaiters cs d) d" for cs d
  proof (induction cs arbitrary: d)
    case (Cons c cs)
    have "same_owed (flushDrainWaiters c d) d"
      by (simp add: same_owed_def dp_defs filter_same dp_valid_def)
    with Cons show ?case using same_owed_trans by fastforce
  qed (simp add: same_owed_def filter_same)
  have "same_owed (abortAll (d\<lparr>dp_disposed := True, dp_requests := rs\<rparr>)) d" for rs
    by (simp add: same_owed_def dp_defs filter_same dp_valid_def)
  then show ?thesis using same_owed_trans [OF f] by (simp add: dp_dispose_def same_owed_refl)
qed

lemma owed_wrote_unknown:
  assumes "owed_ok d" shows "owed_ok (wrote c (Carries (Rpc_response i res)) (received c i d))"
  using assms unfolding owed_ok_def
  by (simp add: wrote_def received_def skip_number_def on_client_def dp_valid_def
      answer_count_snoc request_count_snoc) (auto simp: Suc_le_eq le_Suc_eq)

lemma handling_count_without:
  "h \<in> set hs \<Longrightarrow> Suc (handling_count (h_sink h) (h_id h) (filter (\<lambda>h'. h_controller h' \<noteq> h_controller h) hs))
     \<le> handling_count (h_sink h) (h_id h) hs"
proof (induction hs)
  case (Cons h' hs)
  show ?case
  proof (cases "h' = h")
    case True
    then show ?thesis
      using handling_count_filter [of "h_sink h" "h_id h" _ hs] by (simp add: handling_count_def)
  next
    case False
    with Cons show ?thesis by (auto simp: handling_count_def)
  qed
qed simp

lemma owed_wrote_answer:
  assumes d: "owed_ok d" "h \<in> set (dp_handling d)" "\<not> isStale h d"
  shows "owed_ok (wrote (h_client h) (Carries (Rpc_response (h_id h) res)) (without_handler (h_controller h) d))"
proof -
  let ?d = "without_handler (h_controller h) d"
  let ?w = "wrote (h_client h) (Carries (Rpc_response (h_id h) res)) ?d"
  have sink: "rc_sink (dp_client d (h_client h)) = h_sink h"
    using d unfolding owed_ok_def isStale_def by blast
  have c: "answer_count s i (dp_wire ?w) + handling_count s i (dp_handling ?w) \<le> request_count s i (dp_received ?w)"
    for s i
  proof -
    have old: "answer_count s i (dp_wire d) + handling_count s i (dp_handling d) \<le> request_count s i (dp_received d)"
      using d(1) unfolding owed_ok_def by blast
    show ?thesis
    proof (cases "s = h_sink h \<and> i = h_id h")
      case True
      with old handling_count_without [OF d(2)] sink show ?thesis
        by (simp add: wrote_def without_handler_def skip_number_def on_client_def answer_count_snoc)
    next
      case False
      with old handling_count_filter [of s i _ "dp_handling d"] sink show ?thesis
        by (auto simp: wrote_def without_handler_def skip_number_def on_client_def answer_count_snoc
            intro: order_trans [OF add_left_mono])
    qed
  qed
  have "owed_ok ?d" using same_owed_ok [OF d(1)] same_owed_parts by blast
  with c show ?thesis unfolding owed_ok_def part_valid
    by (simp add: wrote_def skip_number_def on_client_def) metis
qed

lemma owed_accepted:
  assumes d: "owed_ok d" "dp_valid c d" shows "owed_ok (accepted c i d)"
  using d unfolding owed_ok_def
  by (simp add: accepted_def received_def create_controller_def dp_valid_def request_count_snoc)
     (auto simp: handling_count_def Suc_le_eq le_Suc_eq intro: le_neq_implies_less)

definition answer_inv :: "dispatcher \<Rightarrow> bool" where
  "answer_inv d = (clients_ok d \<and> owed_ok d)"

lemma answer_inv_same: "answer_inv d \<Longrightarrow> clients_ok d' \<Longrightarrow> same_owed d' d \<Longrightarrow> answer_inv d'"
  unfolding answer_inv_def using same_owed_ok by blast

interpretation replies: dispatcher_invariant answer_inv P
proof unfold_locales
  show "answer_inv new_dispatcher"
    using clients.start
    by (simp add: answer_inv_def owed_ok_def new_dispatcher_def answer_count_def handling_count_def)
  fix d assume d: "answer_inv d"
  note c = d [unfolded answer_inv_def, THEN conjunct1] and n = d [unfolded answer_inv_def, THEN conjunct2]
  show "dp_valid primary d" "c \<in> set (dp_clients d) \<Longrightarrow> dp_valid c d"
    "(t, msg) \<in> set (rc_bulkChain (dp_client d c)) \<Longrightarrow> dp_valid c d \<and> answers (Carries msg) = None" for c t msg
    using clients.primary_valid [OF c] clients.valid [OF c] clients.chain_valid [OF c] by blast+
  show "dp_valid c d \<Longrightarrow> answer_inv (lose_client c d)" "answer_inv (skip_number c d)"
    "answer_inv (without_handler t d)" "answer_inv (received c i d)"
    "answer_inv (delete_controller c i d)" "answer_inv (sink_drained c t d)" "answer_inv (saw_number c n d)"
    "answer_inv (dp_dispose d)" "answer_inv (snd (attachClient d))" "answer_inv (setWrite d)"
    "answer_inv (d\<lparr>dp_requests := rs, dp_unsent := us, dp_notified := ns, dp_aborted := as\<rparr>)"
    for c i t n rs us ns as
    using clients.lose clients.skip clients.without clients.received clients.attach clients.set_write
      clients.controllers clients.drained clients.saw clients.dispose clients.neutral c
    by (metis answer_inv_same [OF d] same_owed_parts same_owed_dispose)+
  show "dp_valid c d \<Longrightarrow> answers content = None \<Longrightarrow> answer_inv (wrote c content d)" for c content
    by (rule answer_inv_same [OF d]) (simp_all add: clients.wrote c same_owed_parts)
  show "c \<in> set (dp_clients d) \<Longrightarrow> answers (Carries msg) = None \<Longrightarrow> answer_inv (bulk_added c msg d)" for c msg
    by (simp add: answer_inv_same [OF d] clients_added c same_owed_parts)
  show "answer_inv (bulk_done t (bulk_popped c d))" "answer_inv (bulk_parked c t (bulk_popped c d))" for c t
    by (rule answer_inv_same [OF d], rule same_clients_ok [OF c], rule same_clients_trans,
        rule same_clients_parts, rule same_clients_parts, rule same_owed_trans,
        rule same_owed_parts, rule same_owed_parts)+
  show "dp_valid c d \<Longrightarrow> answer_inv (wrote c (Carries (Rpc_response i res)) (received c i d))" for c i res
    using clients.wrote_unknown [OF c] owed_wrote_unknown [OF n] by (simp add: answer_inv_def)
  show "h \<in> set (dp_handling d) \<Longrightarrow> \<not> isStale h d \<Longrightarrow>
      answer_inv (wrote (h_client h) (Carries (Rpc_response (h_id h) res)) (without_handler (h_controller h) d))"
    for h res
    using clients.wrote_answer [OF c] owed_wrote_answer [OF n] by (simp add: answer_inv_def)
  show "dp_valid c d \<Longrightarrow> answer_inv (accepted c i d)" for c i
    using clients.accepted [OF c] owed_accepted [OF n] by (simp add: answer_inv_def)
qed

subsection \<open>Connections do not mix\<close>

text \<open>
  C8. Whatever clients come, go, reconnect or stop taking frames, and in whatever order handlers
  end: on each connection each request id is answered at most as often as a request with it was
  received on that same connection, so no answer crosses to another client or to the connection
  after a reconnect; and the frames of each connection are numbered upwards.
\<close>

theorem dispatcher_connections:
  "answer_count s i (dp_wire (dp_run P evs new_dispatcher))
      \<le> request_count s i (dp_received (dp_run P evs new_dispatcher))
   \<and> sorted_wrt (<) (seqs_on s (dp_wire (dp_run P evs new_dispatcher)))"
proof -
  let ?d = "dp_run P evs new_dispatcher"
  have "owed_ok ?d" using replies.run_kept by (simp add: answer_inv_def)
  then have "answer_count s i (dp_wire ?d) + handling_count s i (dp_handling ?d)
      \<le> request_count s i (dp_received ?d)" unfolding owed_ok_def by blast
  moreover have "numbers_ok ?d" using numbers.run_kept by (simp add: wire_inv_def)
  ultimately show ?thesis unfolding numbers_ok_def by simp
qed

text \<open>
  Nobody checks who answers a request of the relay: here a request to the client 2 is
  settled by a response that the client 3 sent.
\<close>

theorem any_client_answers:
  "rt_settled (dp_requests (dp_run \<lparr>sk_write = \<lambda>s n. Accepted, sk_drains = \<lambda>s. False\<rparr>
     [Dp_attach, Dp_attach, Dp_request 2 (js ''orca'') None,
      Dp_feed 3 (\<lambda>r m. False) [\<lparr>rf_seq = 1, rf_ack = 0, rf_content = Carries (Rpc_response 1 (Rpc_ok JNull))\<rparr>]]
     new_dispatcher)) = [(1, Client_answered (Rpc_ok JNull))]"
  by (simp add: dp_run_def attachClient_def requestClient_def feedClient_def feedForClient_def
      dp_handleFrame_def dp_handleResponse_def sendFrame_def put_frame_def writeFrame_def
      on_client_def new_dispatcher_def new_client_def new_table_def issue_def settle_def Let_def)

end
