(* ===== verification/Relay_Bulk_Lane.thy ===== *)
theory Relay_Bulk_Lane
  imports Relay_Dispatcher_Props
begin

section \<open>The bulk lane\<close>

text \<open>
  The steps of bulk sends: each is queued, parked on a sink or over, and the sink one is parked
  on is the one its client writes to now.
\<close>

subsection \<open>Where a step is\<close>

definition lane_count :: "nat \<Rightarrow> relay_client \<Rightarrow> nat" where
  "lane_count t k = count_list (map fst (rc_bulkChain k)) t + count_list (rc_drainWaiters k) t"

definition step_count :: "nat \<Rightarrow> dispatcher \<Rightarrow> nat" where
  "step_count t d = (\<Sum>c<dp_nextClientId d. lane_count t (dp_client d c)) + count_list (dp_bulkDone d) t"

definition steps_ok :: "dispatcher \<Rightarrow> bool" where
  "steps_ok d = (\<forall>t. step_count t d = (if t < dp_nextBulk d then 1 else 0))"

definition lane_ok :: "sinks \<Rightarrow> dispatcher \<Rightarrow> bool" where
  "lane_ok P d = ((\<forall>c. dp_valid c d \<longrightarrow> \<not> rc_closed (dp_client d c) \<longrightarrow> c \<in> set (dp_clients d))
     \<and> (\<forall>c. rc_drainWaiters (dp_client d c) \<noteq> [] \<longrightarrow> dp_valid c d \<and> \<not> rc_closed (dp_client d c)
          \<and> \<not> dp_disposed d \<and> sk_drains P (rc_sink (dp_client d c))
          \<and> length (rc_drainWaiters (dp_client d c)) = 1)
     \<and> primary \<in> set (dp_clients d))"

lemma sum_one_client:
  fixes g :: "nat \<Rightarrow> nat"
  assumes "c < n" and "\<And>k. k \<noteq> c \<Longrightarrow> f k = g k"
  shows "(\<Sum>k<n. f k) + g c = (\<Sum>k<n. g k) + f c"
proof -
  have "(\<Sum>k<n. f k) = f c + (\<Sum>k\<in>{..<n} - {c}. f k)" "(\<Sum>k<n. g k) = g c + (\<Sum>k\<in>{..<n} - {c}. g k)"
    using assms(1) by (simp_all add: sum.remove)
  moreover have "(\<Sum>k\<in>{..<n} - {c}. f k) = (\<Sum>k\<in>{..<n} - {c}. g k)"
    using assms(2) by (intro sum.cong) auto
  ultimately show ?thesis by simp
qed

text \<open>The count of a step after a change of one client.\<close>

lemma step_count_client:
  assumes "dp_valid c d" and "dp_nextClientId d' = dp_nextClientId d"
    and "\<And>c'. c' \<noteq> c \<Longrightarrow> lane_count t (dp_client d' c') = lane_count t (dp_client d c')"
  shows "step_count t d' + lane_count t (dp_client d c) + count_list (dp_bulkDone d) t
       = step_count t d + lane_count t (dp_client d' c) + count_list (dp_bulkDone d') t"
  using sum_one_client [of c "dp_nextClientId d" "\<lambda>k. lane_count t (dp_client d' k)"
      "\<lambda>k. lane_count t (dp_client d k)"] assms
  by (simp add: step_count_def dp_valid_def)

lemma step_count_same:
  assumes "dp_nextClientId d' = dp_nextClientId d" "dp_bulkDone d' = dp_bulkDone d"
    and "\<And>c. lane_count t (dp_client d' c) = lane_count t (dp_client d c)"
  shows "step_count t d' = step_count t d"
  using assms by (simp add: step_count_def)

lemma count_list_append: "count_list (xs @ ys) x = count_list xs x + count_list ys x"
  by (induction xs) simp_all

lemma step_count_quiet:
  "step_count t (skip_number c d) = step_count t d"
  "step_count t (wrote c content d) = step_count t d"
  "step_count t (without_handler n d) = step_count t d"
  "step_count t (received c i d) = step_count t d" "step_count t (accepted c i d) = step_count t d"
  "step_count t (delete_controller c i d) = step_count t d" "step_count t (saw_number c n d) = step_count t d"
  "step_count t (d\<lparr>dp_requests := rs, dp_unsent := us, dp_notified := ns, dp_aborted := as\<rparr>) = step_count t d"
  by (rule step_count_same; simp add: part_defs dp_defs lane_count_def)+

lemma step_count_flush: "dp_valid c d \<Longrightarrow> step_count t (flushDrainWaiters c d) = step_count t d"
  using step_count_client [of c d "flushDrainWaiters c d" t]
  by (simp add: flushDrainWaiters_def on_client_def lane_count_def count_list_append)

lemma step_count_state:
  assumes "dp_valid c d"
  shows "step_count t (lose_client c d) = step_count t d"
    and "c = primary \<Longrightarrow> step_count t (setWrite d) = step_count t d"
proof -
  show "step_count t (lose_client c d) = step_count t d"
    using step_count_client [of c d "lose_client c d" t] assms
    by (cases "c = primary") (simp_all add: lose_client_def dp_defs lane_count_def count_list_append)
  show "c = primary \<Longrightarrow> step_count t (setWrite d) = step_count t d"
    using step_count_client [of primary d "setWrite d" t] assms
    by (simp add: setWrite_def dp_defs lane_count_def count_list_append Let_def)
qed

lemma step_count_lane:
  assumes "dp_valid c d"
  shows "step_count t (bulk_added c msg d) = step_count t d + (if t = dp_nextBulk d then 1 else 0)"
    and "rc_bulkChain (dp_client d c) = (s, m) # rest \<Longrightarrow>
      step_count t (bulk_done s (bulk_popped c d)) = step_count t d"
    and "rc_bulkChain (dp_client d c) = (s, m) # rest \<Longrightarrow>
      step_count t (bulk_parked c s (bulk_popped c d)) = step_count t d"
    and "step_count t (sink_drained c s d) = step_count t d"
proof -
  show "step_count t (bulk_added c msg d) = step_count t d + (if t = dp_nextBulk d then 1 else 0)"
    using step_count_client [of c d "bulk_added c msg d" t] assms
    by (simp add: bulk_added_def on_client_def lane_count_def count_list_append)
  show "rc_bulkChain (dp_client d c) = (s, m) # rest \<Longrightarrow>
      step_count t (bulk_done s (bulk_popped c d)) = step_count t d"
    using step_count_client [of c d "bulk_done s (bulk_popped c d)" t] assms
    by (simp add: bulk_popped_def dp_defs lane_count_def count_list_append split: if_splits)
  show "rc_bulkChain (dp_client d c) = (s, m) # rest \<Longrightarrow>
      step_count t (bulk_parked c s (bulk_popped c d)) = step_count t d"
    using step_count_client [of c d "bulk_parked c s (bulk_popped c d)" t] assms
    by (simp add: bulk_popped_def bulk_parked_def dp_defs lane_count_def count_list_append split: if_splits)
  show "step_count t (sink_drained c s d) = step_count t d"
  proof (cases "s \<in> set (rc_drainWaiters (dp_client d c))")
    case True
    have "count_list (remove1 s xs) t + (if s = t then 1 else 0) = count_list xs t" if "s \<in> set xs" for xs :: "nat list"
      using that by (induction xs) auto
    from this [OF True] step_count_client [of c d "sink_drained c s d" t] assms True show ?thesis
      by (simp add: sink_drained_def dp_defs lane_count_def count_list_append split: if_splits)
  qed (simp add: sink_drained_def)
qed


subsection \<open>The invariant\<close>

definition bulk_inv :: "sinks \<Rightarrow> dispatcher \<Rightarrow> bool" where
  "bulk_inv P d = (clients_ok d \<and> steps_ok d \<and> lane_ok P d)"

text \<open>Where the clients, their sinks and their lanes stay.\<close>

definition same_lane :: "dispatcher \<Rightarrow> dispatcher \<Rightarrow> bool" where
  "same_lane d' d = (dp_nextClientId d' = dp_nextClientId d \<and> dp_clients d' = dp_clients d
     \<and> dp_disposed d' = dp_disposed d
     \<and> (\<forall>c. rc_sink (dp_client d' c) = rc_sink (dp_client d c)
           \<and> rc_closed (dp_client d' c) = rc_closed (dp_client d c)
           \<and> rc_drainWaiters (dp_client d' c) = rc_drainWaiters (dp_client d c)))"

lemma same_lane_ok: "lane_ok P d \<Longrightarrow> same_lane d' d \<Longrightarrow> lane_ok P d'"
  unfolding lane_ok_def same_lane_def dp_valid_def by simp

lemma same_lane_trans: "same_lane a b \<Longrightarrow> same_lane b c \<Longrightarrow> same_lane a c"
  unfolding same_lane_def by simp

lemma same_lane_parts:
  "same_lane (skip_number c d) d" "same_lane (wrote c content d) d" "same_lane (without_handler t d) d"
  "same_lane (received c i d) d" "same_lane (accepted c i d) d" "same_lane (delete_controller c i d) d"
  "same_lane (bulk_popped c d) d" "same_lane (bulk_done t d) d" "same_lane (saw_number c n d) d"
  "same_lane (bulk_added c msg d) d"
  "same_lane (d\<lparr>dp_requests := rs, dp_unsent := us, dp_notified := ns, dp_aborted := as\<rparr>) d"
  by (auto simp: same_lane_def part_defs dp_defs)

lemma lane_lose: "lane_ok P d \<Longrightarrow> lane_ok P (lose_client c d)"
  unfolding lane_ok_def by (auto simp: lose_client_def dp_defs dp_valid_def)

lemma lane_attach: "lane_ok P d \<Longrightarrow> lane_ok P (snd (attachClient d))"
  unfolding lane_ok_def
  by (auto simp: attachClient_def on_client_def new_client_def dp_valid_def Let_def less_Suc_eq)

lemma lane_setWrite: "lane_ok P d \<Longrightarrow> lane_ok P (setWrite d)"
  unfolding lane_ok_def by (auto simp: setWrite_def dp_defs dp_valid_def Let_def)

lemma lane_waiter:
  assumes "lane_ok P d" "t \<in> set (rc_drainWaiters (dp_client d c))"
  shows "rc_drainWaiters (dp_client d c) = [t]"
proof -
  have "rc_drainWaiters (dp_client d c) \<noteq> []" using assms(2) by auto
  then have "length (rc_drainWaiters (dp_client d c)) = 1" using assms(1) unfolding lane_ok_def by blast
  with assms(2) show ?thesis by (auto simp: length_Suc_conv)
qed

lemma lane_drained: "lane_ok P d \<Longrightarrow> lane_ok P (sink_drained c t d)"
  using lane_waiter [of P d t c] unfolding lane_ok_def
  by (auto simp: sink_drained_def dp_defs dp_valid_def)

lemma lane_parked:
  "lane_ok P d \<Longrightarrow> dp_valid c d \<Longrightarrow> rc_drainWaiters (dp_client d c) = [] \<Longrightarrow> \<not> rc_closed (dp_client d c) \<Longrightarrow>
   \<not> dp_disposed d \<Longrightarrow> sk_drains P (rc_sink (dp_client d c)) \<Longrightarrow> lane_ok P (bulk_parked c t d)"
  unfolding lane_ok_def by (auto simp: bulk_parked_def on_client_def dp_valid_def)

text \<open>Disposing flushes every client of the map, and the others have nobody waiting.\<close>

lemma flush_all:
  "set cs \<subseteq> {c. dp_valid c d} \<Longrightarrow>
     step_count t (fold flushDrainWaiters cs d) = step_count t d
     \<and> dp_nextClientId (fold flushDrainWaiters cs d) = dp_nextClientId d
     \<and> dp_clients (fold flushDrainWaiters cs d) = dp_clients d
     \<and> dp_nextBulk (fold flushDrainWaiters cs d) = dp_nextBulk d
     \<and> (\<forall>c. rc_closed (dp_client (fold flushDrainWaiters cs d) c) = rc_closed (dp_client d c)
           \<and> rc_drainWaiters (dp_client (fold flushDrainWaiters cs d) c) =
               (if c \<in> set cs then [] else rc_drainWaiters (dp_client d c)))"
proof (induction cs arbitrary: d)
  case (Cons c cs)
  let ?d = "flushDrainWaiters c d"
  have "set cs \<subseteq> {c. dp_valid c ?d}" "dp_valid c d"
    using Cons.prems by (auto simp: dp_valid_def flushDrainWaiters_def on_client_def)
  from Cons.IH [OF this(1)] step_count_flush [OF this(2), of t] show ?case
    by (auto simp: flushDrainWaiters_def on_client_def)
qed simp

lemma bulk_dispose:
  assumes d: "bulk_inv P d" shows "steps_ok (dp_dispose d) \<and> lane_ok P (dp_dispose d)"
proof (cases "dp_disposed d")
  case False
  define e where "e = abortAll (d\<lparr>dp_disposed := True,
    dp_requests := settle_all Dispatcher_disposed (dp_requests d)\<rparr>)"
  have e: "dp_nextClientId e = dp_nextClientId d" "dp_clients e = dp_clients d" "dp_nextBulk e = dp_nextBulk d"
    "dp_client e = dp_client d" by (simp_all add: e_def abortAll_def)
  have s: "step_count t e = step_count t d" for t
    by (rule step_count_same) (simp_all add: e_def abortAll_def)
  have v: "set (dp_clients d) \<subseteq> {c. dp_valid c e}"
    using clients.valid [of d] d by (auto simp: bulk_inv_def dp_valid_def e)
  have disp: "dp_dispose d = fold flushDrainWaiters (dp_clients d) e"
    using False by (simp add: dp_dispose_def e_def)
  have "rc_drainWaiters (dp_client (dp_dispose d) c) = []" for c
  proof (cases "c \<in> set (dp_clients d)")
    case False
    then have "rc_drainWaiters (dp_client d c) = []" using d unfolding bulk_inv_def lane_ok_def by blast
    with flush_all [OF v] show ?thesis by (simp add: disp e)
  qed (use flush_all [OF v] disp in simp)
  with flush_all [OF v] d s show ?thesis
    unfolding disp bulk_inv_def steps_ok_def lane_ok_def dp_valid_def e by simp
qed (use d in \<open>simp add: dp_dispose_def bulk_inv_def\<close>)

lemma steps_same: "steps_ok d \<Longrightarrow> (\<And>t. step_count t d' = step_count t d) \<Longrightarrow>
   dp_nextBulk d' = dp_nextBulk d \<Longrightarrow> steps_ok d'"
  by (simp add: steps_ok_def)

lemma next_bulk:
  "dp_nextBulk (skip_number c d) = dp_nextBulk d" "dp_nextBulk (wrote c content d) = dp_nextBulk d"
  "dp_nextBulk (without_handler n d) = dp_nextBulk d" "dp_nextBulk (received c i d) = dp_nextBulk d"
  "dp_nextBulk (accepted c i d) = dp_nextBulk d" "dp_nextBulk (delete_controller c i d) = dp_nextBulk d"
  "dp_nextBulk (saw_number c n d) = dp_nextBulk d" "dp_nextBulk (lose_client c d) = dp_nextBulk d"
  "dp_nextBulk (setWrite d) = dp_nextBulk d" "dp_nextBulk (bulk_done t d) = dp_nextBulk d"
  "dp_nextBulk (bulk_popped c d) = dp_nextBulk d" "dp_nextBulk (bulk_parked c t d) = dp_nextBulk d"
  "dp_nextBulk (sink_drained c t d) = dp_nextBulk d"
  by (simp_all add: part_defs dp_defs setWrite_def sink_drained_def Let_def)
lemma steps_attach: "steps_ok d \<Longrightarrow> steps_ok (snd (attachClient d))"
proof -
  let ?d = "snd (attachClient d)"
  have "(\<Sum>c<dp_nextClientId d. lane_count t (dp_client ?d c)) = (\<Sum>c<dp_nextClientId d. lane_count t (dp_client d c))" for t
    by (rule sum.cong) (simp_all add: attachClient_def on_client_def Let_def)
  then have "step_count t ?d = step_count t d" for t
    by (simp add: step_count_def attachClient_def Let_def on_client_def lane_count_def new_client_def)
  then show "steps_ok d \<Longrightarrow> steps_ok ?d"
    by (simp add: steps_ok_def attachClient_def Let_def on_client_def)
qed

lemma steps_added: "steps_ok d \<Longrightarrow> dp_valid c d \<Longrightarrow> steps_ok (bulk_added c msg d)"
  unfolding steps_ok_def by (auto simp: step_count_lane(1)) (simp_all add: bulk_added_def less_Suc_eq)

lemma bulk_inv_quiet:
  "bulk_inv P d \<Longrightarrow> clients_ok d' \<Longrightarrow> same_lane d' d \<Longrightarrow> (\<And>t. step_count t d' = step_count t d) \<Longrightarrow>
   dp_nextBulk d' = dp_nextBulk d \<Longrightarrow> bulk_inv P d'"
  unfolding bulk_inv_def using same_lane_ok steps_same by blast

interpretation lane: dispatcher_invariant "bulk_inv P" P
proof unfold_locales
  have "lane_count t (new_client s) = 0" for t s by (simp add: lane_count_def new_client_def)
  then show "bulk_inv P new_dispatcher"
    using clients.start
    by (simp add: bulk_inv_def steps_ok_def step_count_def lane_ok_def new_dispatcher_def dp_valid_def)
       (simp add: new_client_def)
  fix d assume d: "bulk_inv P d"
  then have c: "clients_ok d" and s: "steps_ok d" and l: "lane_ok P d" by (simp_all add: bulk_inv_def)
  show pv: "dp_valid primary d"
    and "c \<in> set (dp_clients d) \<Longrightarrow> dp_valid c d"
    and cv: "(t, msg) \<in> set (rc_bulkChain (dp_client d c)) \<Longrightarrow> dp_valid c d \<and> answers (Carries msg) = None" for c t msg
    using clients.primary_valid [OF c] clients.valid [OF c] clients.chain_valid [OF c] by blast+
  show "bulk_inv P (skip_number c d)" "bulk_inv P (without_handler t d)" "bulk_inv P (received c i d)"
    "bulk_inv P (delete_controller c i d)" "bulk_inv P (saw_number c n d)"
    "bulk_inv P (d\<lparr>dp_requests := rs, dp_unsent := us, dp_notified := ns, dp_aborted := as\<rparr>)" for c i t n rs us ns as
    by (rule bulk_inv_quiet [OF d]; simp add: c same_lane_parts step_count_quiet next_bulk clients.skip
        clients.without clients.received clients.controllers clients.saw clients.neutral)+
  show "dp_valid c d \<Longrightarrow> bulk_inv P (accepted c i d)" for c i
    by (rule bulk_inv_quiet [OF d]; simp add: c same_lane_parts step_count_quiet next_bulk clients.accepted)
  show "dp_valid c d \<Longrightarrow> answers content = None \<Longrightarrow> bulk_inv P (wrote c content d)" for c content
    by (rule bulk_inv_quiet [OF d]; simp add: c same_lane_parts step_count_quiet next_bulk clients.wrote)
  show "dp_valid c d \<Longrightarrow> bulk_inv P (wrote c (Carries (Rpc_response i res)) (received c i d))" for c i res
    by (rule bulk_inv_quiet [OF d]; simp add: c step_count_quiet next_bulk clients.wrote_unknown
        same_lane_trans [OF same_lane_parts(2) same_lane_parts(4)])
  show "h \<in> set (dp_handling d) \<Longrightarrow> \<not> isStale h d \<Longrightarrow>
      bulk_inv P (wrote (h_client h) (Carries (Rpc_response (h_id h) res)) (without_handler (h_controller h) d))"
    for h res
    by (rule bulk_inv_quiet [OF d]; simp add: c step_count_quiet next_bulk clients.wrote_answer
        same_lane_trans [OF same_lane_parts(2) same_lane_parts(3)])
  show "dp_valid c d \<Longrightarrow> bulk_inv P (lose_client c d)" for c
    using clients.lose [OF c] lane_lose [OF l] steps_same [OF s step_count_state(1)]
    by (simp add: bulk_inv_def next_bulk)
  show "bulk_inv P (setWrite d)"
    using clients.set_write [OF c] lane_setWrite [OF l] steps_same [OF s step_count_state(2) [OF pv refl]]
    by (simp add: bulk_inv_def next_bulk)
  show "bulk_inv P (snd (attachClient d))"
    using clients.attach [OF c] lane_attach [OF l] steps_attach [OF s] by (simp add: bulk_inv_def)
  show "bulk_inv P (dp_dispose d)"
    using clients.dispose [OF c] bulk_dispose [OF d] by (simp add: bulk_inv_def)
  show "c \<in> set (dp_clients d) \<Longrightarrow> answers (Carries msg) = None \<Longrightarrow> bulk_inv P (bulk_added c msg d)" for c msg
    using clients_added [OF c] same_lane_ok [OF l same_lane_parts(10)] steps_added [OF s] clients.valid [OF c]
    by (simp add: bulk_inv_def)
  show "bulk_inv P (sink_drained c t d)" for c t
  proof (cases "t \<in> set (rc_drainWaiters (dp_client d c))")
    case True
    then have "rc_drainWaiters (dp_client d c) \<noteq> []" by auto
    then have "dp_valid c d" using l unfolding lane_ok_def by blast
    then show ?thesis
      using clients.drained [OF c] lane_drained [OF l] steps_same [OF s step_count_lane(4)]
      by (simp add: bulk_inv_def next_bulk)
  qed (simp add: sink_drained_def d)
  fix c t msg rest assume chain: "rc_bulkChain (dp_client d c) = (t, msg) # rest"
    and free: "rc_drainWaiters (dp_client d c) = []"
  have v: "dp_valid c d" using cv [of t msg c] chain by simp
  show "bulk_inv P (bulk_done t (bulk_popped c d))"
    using clients.popped_done [OF c chain free] steps_same [OF s step_count_lane(2) [OF v chain]]
      same_lane_ok [OF l same_lane_trans [OF same_lane_parts(8) same_lane_parts(7)]]
    by (simp add: bulk_inv_def next_bulk)
  show "\<not> rc_closed (dp_client d c) \<Longrightarrow> \<not> dp_disposed d \<Longrightarrow> sk_drains P (rc_sink (dp_client d c)) \<Longrightarrow>
      bulk_inv P (bulk_parked c t (bulk_popped c d))"
  proof -
    assume o: "\<not> rc_closed (dp_client d c)" "\<not> dp_disposed d" "sk_drains P (rc_sink (dp_client d c))"
    have "lane_ok P (bulk_popped c d)" by (rule same_lane_ok [OF l same_lane_parts(7)])
    then have "lane_ok P (bulk_parked c t (bulk_popped c d))"
      using o free v by (intro lane_parked) (simp_all add: bulk_popped_def on_client_def dp_valid_def)
    then show ?thesis
      using clients.popped_parked [OF c chain free o] steps_same [OF s step_count_lane(3) [OF v chain]]
      by (simp add: bulk_inv_def next_bulk)
  qed
qed

subsection \<open>No bulk sender is left behind\<close>

text \<open>
  C15. After any events each step of a bulk send is in exactly one place: in the chain of one client,
  parked on a sink, or over. One that is parked is the only one of its client, the client is
  attached and open, the dispatcher is not disposed, and the sink is the one the client writes to
  now and one that calls back: a reconnect, a failed write, a detach or dispose has let the others go.
\<close>

theorem dispatcher_bulk_lane:
  "step_count t (dp_run P evs new_dispatcher) = (if t < dp_nextBulk (dp_run P evs new_dispatcher) then 1 else 0)
   \<and> (if rc_drainWaiters (dp_client (dp_run P evs new_dispatcher) c) = [] then True
      else length (rc_drainWaiters (dp_client (dp_run P evs new_dispatcher) c)) = 1
           \<and> c \<in> set (dp_clients (dp_run P evs new_dispatcher))
           \<and> \<not> rc_closed (dp_client (dp_run P evs new_dispatcher) c)
           \<and> \<not> dp_disposed (dp_run P evs new_dispatcher)
           \<and> sk_drains P (rc_sink (dp_client (dp_run P evs new_dispatcher) c)))"
  using lane.run_kept [of P evs] unfolding bulk_inv_def steps_ok_def lane_ok_def by auto

lemma bulk_gone:
  assumes "rc_closed (dp_client d c) \<or> dp_disposed d" and "rc_drainWaiters (dp_client d c) = []"
    and "n = length (rc_bulkChain (dp_client d c))"
  shows "dp_bulkDone ((bulk_step P c ^^ n) d) = dp_bulkDone d @ map fst (rc_bulkChain (dp_client d c))
    \<and> dp_wire ((bulk_step P c ^^ n) d) = dp_wire d"
  using assms
proof (induction n arbitrary: d)
  case (Suc n)
  then obtain t msg rest where chain: "rc_bulkChain (dp_client d c) = (t, msg) # rest"
    by (cases "rc_bulkChain (dp_client d c)") auto
  have e: "bulk_step P c d = bulk_done t (bulk_popped c d)"
    using bulk_step_parts [OF chain Suc.prems(2), of P] Suc.prems(1) by auto
  let ?e = "bulk_done t (bulk_popped c d)"
  have "rc_closed (dp_client ?e c) \<or> dp_disposed ?e" "rc_drainWaiters (dp_client ?e c) = []"
    "rc_bulkChain (dp_client ?e c) = rest"
    using Suc.prems chain by (simp_all add: bulk_done_def bulk_popped_def on_client_def)
  with Suc.IH [of ?e] Suc.prems(3) chain show ?case
    by (simp add: funpow_Suc_right e bulk_done_def bulk_popped_def on_client_def
        del: funpow.simps)
qed simp

lemma put_frame_chain:
  "rc_bulkChain (dp_client (skip_number c d) c) = rc_bulkChain (dp_client d c)"
  "rc_bulkChain (dp_client (wrote c content d) c) = rc_bulkChain (dp_client d c)"
  "rc_bulkChain (dp_client (lose_client c d) c) = rc_bulkChain (dp_client d c)"
  "rc_bulkChain (dp_client (bulk_done t d) c) = rc_bulkChain (dp_client d c)"
  "rc_bulkChain (dp_client (bulk_parked c t d) c) = rc_bulkChain (dp_client d c)"
  "rc_bulkChain (dp_client (bulk_popped c d) c) = tl (rc_bulkChain (dp_client d c))"
  by (auto simp: part_defs dp_defs)

text \<open>
  C12. The bulk lane of a client always moves. When the client is gone or the dispatcher disposed,
  every step that is queued ends in as many turns, without a frame; when a step is parked, its sink
  is one that calls back and that callback frees the lane; otherwise the next turn takes a step
  off the chain.
\<close>

theorem bulk_lane_moves:
  "let d = dp_run P evs new_dispatcher; k = dp_client d c
   in if rc_closed k \<or> dp_disposed d
      then dp_bulkDone ((bulk_step P c ^^ length (rc_bulkChain k)) d) = dp_bulkDone d @ map fst (rc_bulkChain k)
        \<and> dp_wire ((bulk_step P c ^^ length (rc_bulkChain k)) d) = dp_wire d
      else if rc_drainWaiters k \<noteq> []
      then sk_drains P (rc_sink k) \<and> rc_drainWaiters (dp_client (sink_drained c (hd (rc_drainWaiters k)) d) c) = []
      else length (rc_bulkChain (dp_client (bulk_step P c d) c)) = length (rc_bulkChain k) - 1"
proof -
  let ?d = "dp_run P evs new_dispatcher"
  have l: "lane_ok P ?d" using lane.run_kept [of P evs] by (simp add: bulk_inv_def)
  have gone: "rc_drainWaiters (dp_client ?d c) = []" if "rc_closed (dp_client ?d c) \<or> dp_disposed ?d"
    using l that unfolding lane_ok_def by blast
  have parked: "sk_drains P (rc_sink (dp_client ?d c))
      \<and> rc_drainWaiters (dp_client (sink_drained c (hd (rc_drainWaiters (dp_client ?d c))) ?d) c) = []"
    if w: "rc_drainWaiters (dp_client ?d c) \<noteq> []"
  proof -
    have "rc_drainWaiters (dp_client ?d c) = [hd (rc_drainWaiters (dp_client ?d c))]"
      using lane_waiter [OF l hd_in_set [OF w]] .
    then obtain t where "rc_drainWaiters (dp_client ?d c) = [t]" by blast
    moreover have "sk_drains P (rc_sink (dp_client ?d c))" using l w unfolding lane_ok_def by blast
    ultimately show ?thesis by (simp add: sink_drained_def bulk_done_def on_client_def)
  qed
  have free: "length (rc_bulkChain (dp_client (bulk_step P c ?d) c)) = length (rc_bulkChain (dp_client ?d c)) - 1"
    if w: "rc_drainWaiters (dp_client ?d c) = []"
  proof (cases "rc_bulkChain (dp_client ?d c)")
    case (Cons p rest)
    then obtain t msg where chain: "rc_bulkChain (dp_client ?d c) = (t, msg) # rest" by (cases p) auto
    show ?thesis
      unfolding bulk_step_parts [OF chain w]
      by (simp add: put_frame_chain chain split: write_result.split)
  qed (simp add: bulk_step_def)
  show ?thesis
    unfolding Let_def using bulk_gone [OF _ gone refl] gone parked free by (simp split: if_split)
qed

end
