(* ===== verification/Ssh_Mux.thy ===== *)
theory Ssh_Mux
  imports Rpc_Frames
begin

section \<open>The client's end of the relay\<close>

text \<open>
  \<open>src/src/main/ssh/ssh-channel-multiplexer.ts\<close>: requests, notifications, keepalives and
  liveness over one SSH channel. The transport either takes a frame or throws
  (\<open>taken\<close>, by the number of the frame); the frames it took are \<open>mx_wire\<close>. Time is given to
  each event.
\<close>

definition KEEPALIVE_SEND_MS :: int where "KEEPALIVE_SEND_MS = 5000"
definition TIMEOUT_MS :: int where "TIMEOUT_MS = 20000"
definition WAKE_GAP_MS :: int where "WAKE_GAP_MS = KEEPALIVE_SEND_MS * 3"

datatype mux_outcome =
    Answered rpc_outcome | Request_cancelled | Request_timed_out | Channel_lost | Channel_disposed

record mux =
  mx_requests :: "mux_outcome request_table"
  mx_nextOutgoingSeq :: nat
  mx_highestReceivedSeq :: nat
  mx_highestAckedBySelf :: nat
  mx_lastReceivedAt :: int
  mx_unackedTimestamps :: "(nat \<times> int) list"
  mx_probes :: "nat list"
  mx_probeResults :: "(nat \<times> bool) list"
  mx_handling :: "nat list"
  mx_notified :: "(jsstr \<times> json) list"
  mx_unsent :: "nat list"
  mx_lastTickAt :: int
  mx_disposed :: bool
  mx_wire :: "rpc_frame list"

definition new_mux :: "int \<Rightarrow> mux" where
  "new_mux now =
     \<lparr>mx_requests = new_table, mx_nextOutgoingSeq = 1, mx_highestReceivedSeq = 0,
      mx_highestAckedBySelf = 0, mx_lastReceivedAt = now, mx_unackedTimestamps = [],
      mx_probes = [], mx_probeResults = [], mx_handling = [], mx_notified = [], mx_unsent = [],
      mx_lastTickAt = now, mx_disposed = False, mx_wire = []\<rparr>"

definition settle_probes :: "bool \<Rightarrow> mux \<Rightarrow> mux" where
  "settle_probes alive m = m\<lparr>mx_probes := [],
     mx_probeResults := mx_probeResults m @ map (\<lambda>p. (p, alive)) (mx_probes m)\<rparr>"

definition mux_dispose :: "bool \<Rightarrow> mux \<Rightarrow> mux" where
  "mux_dispose lost m =
     (if mx_disposed m then m
      else (settle_probes False m)\<lparr>mx_disposed := True,
             mx_requests := settle_all (if lost then Channel_lost else Channel_disposed) (mx_requests m),
             mx_unackedTimestamps := []\<rparr>)"

definition handleProtocolError :: "mux \<Rightarrow> mux" where
  "handleProtocolError = mux_dispose True"

definition put_timestamp :: "nat \<Rightarrow> int \<Rightarrow> (nat \<times> int) list \<Rightarrow> (nat \<times> int) list" where
  "put_timestamp s now ts = filter (\<lambda>p. fst p \<noteq> s) ts @ [(s, now)]"

text \<open>
  \<open>sendMessage\<close>, which does not ask whether the multiplexer is disposed, and \<open>sendKeepAlive\<close>. The
  encoder throws at a message that is too large, after its sequence number was taken and outside
  the \<open>try\<close>: nothing else happens here, and the caller gets the error.
\<close>

definition unsendable :: "frame_content \<Rightarrow> bool" where
  "unsendable content = (case content of Carries msg \<Rightarrow> too_large msg | _ \<Rightarrow> False)"

definition send_content :: "(nat \<Rightarrow> bool) \<Rightarrow> int \<Rightarrow> frame_content \<Rightarrow> mux \<Rightarrow> mux" where
  "send_content taken now content m =
     (let s = mx_nextOutgoingSeq m; m1 = m\<lparr>mx_nextOutgoingSeq := s + 1\<rparr>
      in if unsendable content then m1
         else (let m2 = m1\<lparr>mx_unackedTimestamps := put_timestamp s now (mx_unackedTimestamps m)\<rparr>
               in if taken s
                  then m2\<lparr>mx_wire := mx_wire m @
                         [\<lparr>rf_seq = s, rf_ack = mx_highestReceivedSeq m, rf_content = content\<rparr>]\<rparr>
                  else handleProtocolError m2))"

definition sendMessage :: "(nat \<Rightarrow> bool) \<Rightarrow> int \<Rightarrow> rpc_message \<Rightarrow> mux \<Rightarrow> mux" where
  "sendMessage taken now msg = send_content taken now (Carries msg)"

definition sendKeepAlive :: "(nat \<Rightarrow> bool) \<Rightarrow> int \<Rightarrow> mux \<Rightarrow> mux" where
  "sendKeepAlive taken now m = (if mx_disposed m then m else send_content taken now Keep_alive m)"

definition mux_notify :: "(nat \<Rightarrow> bool) \<Rightarrow> int \<Rightarrow> jsstr \<Rightarrow> json option \<Rightarrow> mux \<Rightarrow> mux" where
  "mux_notify taken now method params m =
     (if mx_disposed m then m else sendMessage taken now (Rpc_notification method params) m)"

text \<open>
  \<open>request\<close>: the number of the request, or \<open>None\<close> where it throws. The promise of a request that
  is too large is rejected at once (\<open>mx_unsent\<close>), but its entry waits for the timer.
\<close>

definition mux_request ::
  "(nat \<Rightarrow> bool) \<Rightarrow> int \<Rightarrow> bool \<Rightarrow> jsstr \<Rightarrow> json option \<Rightarrow> mux \<Rightarrow> nat option \<times> mux" where
  "mux_request taken now cancelled method params m =
     (if mx_disposed m \<or> cancelled then (None, m)
      else (let i = rt_next (mx_requests m);
                msg = Rpc_request i method params;
                m1 = sendMessage taken now msg (m\<lparr>mx_requests := issue (mx_requests m)\<rparr>)
            in (Some i, if too_large msg then m1\<lparr>mx_unsent := mx_unsent m1 @ [i]\<rparr> else m1)))"

definition onAbort :: "(nat \<Rightarrow> bool) \<Rightarrow> int \<Rightarrow> nat \<Rightarrow> mux \<Rightarrow> mux" where
  "onAbort taken now i m =
     (if i \<notin> set (rt_pending (mx_requests m)) then m
      else mux_notify taken now (js ''rpc.cancel'') (cancel_params i)
             (m\<lparr>mx_requests := settle i Request_cancelled (mx_requests m)\<rparr>))"

text \<open>
  The timer of a request, which is cleared when the request is settled: the relay is told first,
  and a transport that throws at that settles the request as lost.
\<close>

definition request_timer :: "(nat \<Rightarrow> bool) \<Rightarrow> int \<Rightarrow> nat \<Rightarrow> mux \<Rightarrow> mux" where
  "request_timer taken now i m =
     (if i \<notin> set (rt_pending (mx_requests m)) then m
      else (let m1 = mux_notify taken now (js ''rpc.cancel'') (cancel_params i) m
            in m1\<lparr>mx_requests := settle i Request_timed_out (mx_requests m1)\<rparr>))"

definition probeLiveness :: "(nat \<Rightarrow> bool) \<Rightarrow> int \<Rightarrow> nat \<Rightarrow> mux \<Rightarrow> mux" where
  "probeLiveness taken now p m =
     (if mx_disposed m then m\<lparr>mx_probeResults := mx_probeResults m @ [(p, False)]\<rparr>
      else sendKeepAlive taken now (m\<lparr>mx_probes := mx_probes m @ [p]\<rparr>))"

definition probe_timer :: "nat \<Rightarrow> mux \<Rightarrow> mux" where
  "probe_timer p m =
     (if p \<in> set (mx_probes m)
      then m\<lparr>mx_probes := removeAll p (mx_probes m),
             mx_probeResults := mx_probeResults m @ [(p, False)]\<rparr> else m)"

definition handleResponse :: "nat \<Rightarrow> rpc_outcome \<Rightarrow> mux \<Rightarrow> mux" where
  "handleResponse i res m = m\<lparr>mx_requests := settle i (Answered res) (mx_requests m)\<rparr>"

text \<open>A request of the relay; the handler's result is an event of its own.\<close>

definition mux_handleRequest :: "(nat \<Rightarrow> bool) \<Rightarrow> int \<Rightarrow> bool \<Rightarrow> nat \<Rightarrow> jsstr \<Rightarrow> mux \<Rightarrow> mux" where
  "mux_handleRequest taken now known i method m =
     (if known then m\<lparr>mx_handling := mx_handling m @ [i]\<rparr>
      else sendMessage taken now (Rpc_response i (method_not_found method)) m)"

text \<open>A result that is too large is answered with the error of the encoder.\<close>

definition too_large_answer :: "rpc_message \<Rightarrow> rpc_outcome" where
  "too_large_answer msg =
     Rpc_error (- 32000) (message_too_large msg @ js '' (max '' @ js_dec MAX_MESSAGE_SIZE @ js '')'')"

definition request_handled :: "(nat \<Rightarrow> bool) \<Rightarrow> int \<Rightarrow> nat \<Rightarrow> rpc_outcome \<Rightarrow> mux \<Rightarrow> mux" where
  "request_handled taken now i res m =
     (if i \<in> set (mx_handling m)
      then (let msg = Rpc_response i res;
                m1 = sendMessage taken now msg (m\<lparr>mx_handling := remove1 i (mx_handling m)\<rparr>)
            in case res of
                 Rpc_ok v \<Rightarrow> if too_large msg
                             then sendMessage taken now (Rpc_response i (too_large_answer msg)) m1
                             else m1
               | Rpc_error code text \<Rightarrow> m1)
      else m)"

definition handleFrame :: "(nat \<Rightarrow> bool) \<Rightarrow> (jsstr \<Rightarrow> bool) \<Rightarrow> int \<Rightarrow> rpc_frame \<Rightarrow> mux \<Rightarrow> mux" where
  "handleFrame taken known now f m0 =
     (let m1 = settle_probes True m0;
          m2 = (if mx_highestReceivedSeq m1 < rf_seq f then m1\<lparr>mx_highestReceivedSeq := rf_seq f\<rparr> else m1);
          m = (if mx_highestAckedBySelf m2 < rf_ack f
               then m2\<lparr>mx_unackedTimestamps := filter (\<lambda>p. \<not> (mx_highestAckedBySelf m2 < fst p
                                                       \<and> fst p \<le> rf_ack f)) (mx_unackedTimestamps m2),
                      mx_highestAckedBySelf := rf_ack f\<rparr> else m2)
      in case rf_content f of
           Keep_alive \<Rightarrow> m
         | Garbage \<Rightarrow> handleProtocolError m
         | Carries msg \<Rightarrow>
             (case msg of
                Rpc_response i res \<Rightarrow> handleResponse i res m
              | Rpc_request i method params \<Rightarrow> mux_handleRequest taken now (known method) i method m
              | Rpc_notification method params \<Rightarrow>
                  m\<lparr>mx_notified := mx_notified m @ [(method, handler_params params)]\<rparr>))"

text \<open>\<open>onData\<close> with the frames a chunk completes; a dispose resets the decoder and ends the chunk.\<close>

fun handle_frames ::
  "(nat \<Rightarrow> bool) \<Rightarrow> (jsstr \<Rightarrow> bool) \<Rightarrow> int \<Rightarrow> rpc_frame list \<Rightarrow> mux \<Rightarrow> mux" where
  "handle_frames taken known now [] m = m"
| "handle_frames taken known now (f # fs) m =
     (if mx_disposed m then m
      else handle_frames taken known now fs (handleFrame taken known now f m))"

definition mux_onData ::
  "(nat \<Rightarrow> bool) \<Rightarrow> (jsstr \<Rightarrow> bool) \<Rightarrow> int \<Rightarrow> rpc_frame list \<Rightarrow> mux \<Rightarrow> mux" where
  "mux_onData taken known now fs m =
     (if mx_disposed m then m
      else handle_frames taken known now fs (m\<lparr>mx_lastReceivedAt := now\<rparr>))"

text \<open>A tick of \<open>startTimeoutCheck\<close>.\<close>

definition timeout_tick :: "(nat \<Rightarrow> bool) \<Rightarrow> int \<Rightarrow> mux \<Rightarrow> mux" where
  "timeout_tick taken now m =
     (if mx_disposed m then m
      else (let gap = now - mx_lastTickAt m; m1 = m\<lparr>mx_lastTickAt := now\<rparr>
            in if WAKE_GAP_MS < gap
               then sendKeepAlive taken now (m1\<lparr>mx_lastReceivedAt := now,
                      mx_unackedTimestamps := map (\<lambda>p. (fst p, now)) (mx_unackedTimestamps m1)\<rparr>)
               else if TIMEOUT_MS < now - mx_lastReceivedAt m1
                       \<and> list_ex (\<lambda>p. TIMEOUT_MS < now - snd p) (mx_unackedTimestamps m1)
               then handleProtocolError m1 else m1))"
subsection \<open>Runs\<close>

text \<open>
  Everything that can happen to a multiplexer: the calls of its client, timers, a chunk with the
  frames it completes and the methods that have a handler then, the answer of a handler, a chunk
  that ends in an oversized frame, the close of the transport.
\<close>

datatype mux_event =
    Mux_request int bool jsstr "json option"
  | Mux_notify int jsstr "json option"
  | Mux_abort int nat
  | Mux_request_timer int nat
  | Mux_probe int nat
  | Mux_probe_timer nat
  | Mux_data int "jsstr \<Rightarrow> bool" "rpc_frame list"
  | Mux_oversized
  | Mux_handled int nat rpc_outcome
  | Mux_keepalive int
  | Mux_tick int
  | Mux_close
  | Mux_shutdown

fun mux_step :: "(nat \<Rightarrow> bool) \<Rightarrow> mux_event \<Rightarrow> mux \<Rightarrow> mux" where
  "mux_step taken (Mux_request now cancelled method params) m =
     snd (mux_request taken now cancelled method params m)"
| "mux_step taken (Mux_notify now method params) m = mux_notify taken now method params m"
| "mux_step taken (Mux_abort now i) m = onAbort taken now i m"
| "mux_step taken (Mux_request_timer now i) m = request_timer taken now i m"
| "mux_step taken (Mux_probe now p) m = probeLiveness taken now p m"
| "mux_step taken (Mux_probe_timer p) m = probe_timer p m"
| "mux_step taken (Mux_data now known fs) m = mux_onData taken known now fs m"
| "mux_step taken Mux_oversized m = handleProtocolError m"
| "mux_step taken (Mux_handled now i res) m = request_handled taken now i res m"
| "mux_step taken (Mux_keepalive now) m = sendKeepAlive taken now m"
| "mux_step taken (Mux_tick now) m = timeout_tick taken now m"
| "mux_step taken Mux_close m = mux_dispose True m"
| "mux_step taken Mux_shutdown m = mux_dispose False m"

definition mux_run :: "(nat \<Rightarrow> bool) \<Rightarrow> mux_event list \<Rightarrow> mux \<Rightarrow> mux" where
  "mux_run taken evs m = fold (mux_step taken) evs m"

end
