(* ===== verification/Ssh_Mux_System.thy ===== *)
theory Ssh_Mux_System
  imports Ssh_Mux
begin

section \<open>Runs of the multiplexer\<close>

text \<open>
  What holds after any calls, chunks, timers and failed writes: each request is sent once and
  settled at most once, frames are numbered upwards, a disposed multiplexer has nobody waiting;
  when a silent link is given up and that a link that is heard is not.
\<close>

subsection \<open>The invariant\<close>

fun request_id :: "frame_content \<Rightarrow> nat option" where
  "request_id (Carries (Rpc_request i method params)) = Some i"
| "request_id c = None"

definition sent_requests :: "mux \<Rightarrow> nat list" where
  "sent_requests m = List.map_filter (\<lambda>f. request_id (rf_content f)) (mx_wire m)"

definition wire_ok :: "mux \<Rightarrow> bool" where
  "wire_ok m = (sorted_wrt (<) (map rf_seq (mx_wire m))
     \<and> (\<forall>s\<in>set (map rf_seq (mx_wire m)) \<union> fst ` set (mx_unackedTimestamps m). s < mx_nextOutgoingSeq m)
     \<and> distinct (sent_requests m) \<and> set (sent_requests m) \<subseteq> {1..<rt_next (mx_requests m)})"

definition mux_waiters_ok :: "mux \<Rightarrow> bool" where
  "mux_waiters_ok m = (table_ok (mx_requests m)
     \<and> (mx_disposed m \<longrightarrow> rt_pending (mx_requests m) = [] \<and> mx_probes m = []))"

definition all_sent :: "mux \<Rightarrow> bool" where
  "all_sent m = (set (rt_pending (mx_requests m)) \<subseteq> set (sent_requests m) \<union> set (mx_unsent m))"

definition mux_ok :: "mux \<Rightarrow> bool" where
  "mux_ok m = (wire_ok m \<and> mux_waiters_ok m \<and> all_sent m)"

lemmas mux_ok_defs = mux_ok_def wire_ok_def mux_waiters_ok_def all_sent_def sent_requests_def

lemma mux_new_ok: "mux_ok (new_mux now)"
  by (auto simp: mux_ok_defs new_mux_def new_table_def table_ok_def map_filter_def)

lemma sent_requests_snoc:
  "mx_wire m' = mx_wire m @ [f] \<Longrightarrow> sent_requests m'
   = sent_requests m @ (case request_id (rf_content f) of None \<Rightarrow> [] | Some i \<Rightarrow> [i])"
  by (simp add: sent_requests_def map_filter_def split: option.splits)

lemma settle_next [simp]: "rt_next (settle i v t) = rt_next t"
  "rt_next (settle_all v t) = rt_next t"
  by (simp_all add: settle_def settle_all_def)

lemma settle_pending_sub: "set (rt_pending (settle i v t)) \<subseteq> set (rt_pending t)"
  using set_remove1_subset [of i "rt_pending t"] by (simp add: settle_def)

lemma settle_empty: "rt_pending t = [] \<Longrightarrow> settle i v t = t"
  by (simp add: settle_def)

text \<open>Updates that leave the wire and the waiting requests as they are, or settle some.\<close>

definition calmer :: "mux \<Rightarrow> mux \<Rightarrow> bool" where
  "calmer m' m = (mx_wire m' = mx_wire m \<and> mx_unsent m' = mx_unsent m \<and> mx_nextOutgoingSeq m' = mx_nextOutgoingSeq m
     \<and> fst ` set (mx_unackedTimestamps m') \<subseteq> fst ` set (mx_unackedTimestamps m)
     \<and> rt_next (mx_requests m') = rt_next (mx_requests m)
     \<and> set (rt_pending (mx_requests m')) \<subseteq> set (rt_pending (mx_requests m)))"

lemma calmer_ok:
  "calmer m' m \<Longrightarrow> wire_ok m \<Longrightarrow> wire_ok m'" "calmer m' m \<Longrightarrow> all_sent m \<Longrightarrow> all_sent m'"
proof -
  assume c: "calmer m' m"
  then have "sent_requests m' = sent_requests m" by (simp add: calmer_def sent_requests_def)
  with c show "wire_ok m \<Longrightarrow> wire_ok m'" "all_sent m \<Longrightarrow> all_sent m'"
    unfolding calmer_def wire_ok_def all_sent_def by (metis UnE UnI1 UnI2 subsetD, metis subset_trans)
qed

lemma calmer_dispose: "calmer (mux_dispose lost m) m"
  by (auto simp: calmer_def mux_dispose_def settle_probes_def settle_all_pending)

lemma waiters_dispose: "mux_waiters_ok m \<Longrightarrow> mux_waiters_ok (mux_dispose lost m)"
  by (auto simp: mux_waiters_ok_def mux_dispose_def settle_probes_def settle_all_pending)

lemma disposed_dispose: "mx_disposed (mux_dispose lost m)"
  by (simp add: mux_dispose_def)

lemma mux_ok_dispose: "mux_ok m \<Longrightarrow> mux_ok (mux_dispose lost m)"
  unfolding mux_ok_def using calmer_dispose waiters_dispose calmer_ok by blast

text \<open>Sending: what is sent must be a request that was issued and not sent before.\<close>

definition sendable :: "frame_content \<Rightarrow> mux \<Rightarrow> bool" where
  "sendable c m = (\<forall>i. request_id c = Some i \<longrightarrow> i \<notin> set (sent_requests m) \<and> 1 \<le> i \<and> i < rt_next (mx_requests m))"

lemma put_timestamp_keys: "fst ` set (put_timestamp s now ts) = insert s (fst ` set ts)"
  by (auto simp: put_timestamp_def image_iff)

lemma send_wire_ok: "wire_ok m \<Longrightarrow> sendable c m \<Longrightarrow> wire_ok (send_content taken now c m)"
proof -
  assume w: "wire_ok m" and c: "sendable c m"
  define m1 where "m1 = m\<lparr>mx_nextOutgoingSeq := mx_nextOutgoingSeq m + 1,
    mx_unackedTimestamps := put_timestamp (mx_nextOutgoingSeq m) now (mx_unackedTimestamps m)\<rparr>"
  have m1: "wire_ok m1"
    using w by (auto simp: m1_def wire_ok_def put_timestamp_keys sent_requests_def less_Suc_eq)
  consider "unsendable c" | "\<not> unsendable c" "\<not> taken (mx_nextOutgoingSeq m)"
    | "\<not> unsendable c" "taken (mx_nextOutgoingSeq m)" by blast
  then show ?thesis
  proof cases
    case 1
    then have "send_content taken now c m = m\<lparr>mx_nextOutgoingSeq := mx_nextOutgoingSeq m + 1\<rparr>"
      by (simp add: send_content_def Let_def)
    with w show ?thesis by (auto simp: wire_ok_def sent_requests_def less_Suc_eq)
  next
    case 2
    then have "send_content taken now c m = mux_dispose True m1"
      by (simp add: send_content_def handleProtocolError_def m1_def Let_def)
    with m1 calmer_dispose calmer_ok(1) show ?thesis by metis
  next
    case 3
    then have "send_content taken now c m = m1\<lparr>mx_wire := mx_wire m1 @
        [\<lparr>rf_seq = mx_nextOutgoingSeq m, rf_ack = mx_highestReceivedSeq m, rf_content = c\<rparr>]\<rparr>"
      by (simp add: send_content_def m1_def Let_def)
    then have "mx_nextOutgoingSeq (send_content taken now c m) = Suc (mx_nextOutgoingSeq m)"
        "mx_requests (send_content taken now c m) = mx_requests m"
        "mx_unackedTimestamps (send_content taken now c m) = mx_unackedTimestamps m1"
        "mx_wire (send_content taken now c m) = mx_wire m @
         [\<lparr>rf_seq = mx_nextOutgoingSeq m, rf_ack = mx_highestReceivedSeq m, rf_content = c\<rparr>]"
      by (simp_all add: m1_def)
    with w c show ?thesis
      by (cases "request_id c")
         (auto simp: wire_ok_def sent_requests_snoc sorted_wrt_append sendable_def m1_def
            put_timestamp_keys less_Suc_eq)
  qed
qed

lemma send_waiters_ok: "mux_waiters_ok m \<Longrightarrow> mux_waiters_ok (send_content taken now c m)"
  by (auto simp: send_content_def Let_def handleProtocolError_def intro!: waiters_dispose)
     (auto simp: mux_waiters_ok_def)

text \<open>A frame is sent, or the multiplexer is disposed.\<close>

lemma send_outcome:
  "mx_disposed (send_content taken now c m)
   \<or> (set (sent_requests (send_content taken now c m)) =
         set (sent_requests m) \<union> (if unsendable c then {} else set_option (request_id c))
      \<and> mx_requests (send_content taken now c m) = mx_requests m)"
proof (cases "unsendable c")
  case True
  then show ?thesis by (simp add: send_content_def Let_def sent_requests_def)
next
  case sendable: False
  show ?thesis
  proof (cases "taken (mx_nextOutgoingSeq m)")
    case True
    let ?f = "\<lparr>rf_seq = mx_nextOutgoingSeq m, rf_ack = mx_highestReceivedSeq m, rf_content = c\<rparr>"
    have "mx_wire (send_content taken now c m) = mx_wire m @ [?f]"
        "mx_requests (send_content taken now c m) = mx_requests m"
      using True sendable by (simp_all add: send_content_def Let_def)
    with sendable show ?thesis
      by (cases "request_id c") (simp_all add: sent_requests_snoc)
  qed (simp add: send_content_def Let_def handleProtocolError_def disposed_dispose sendable)
qed

lemma send_unsent [simp]: "mx_unsent (send_content taken now c m) = mx_unsent m"
  by (simp add: send_content_def Let_def handleProtocolError_def mux_dispose_def settle_probes_def)

lemma send_all_sent:
  "mux_waiters_ok m \<Longrightarrow> set (rt_pending (mx_requests m)) \<subseteq>
     set (sent_requests m) \<union> set (mx_unsent m) \<union> (if unsendable c then {} else set_option (request_id c)) \<Longrightarrow>
   all_sent (send_content taken now c m)"
  using send_outcome [of taken now c m] send_waiters_ok [of m taken now c]
  by (auto simp: all_sent_def mux_waiters_ok_def)

lemma mux_ok_send: "mux_ok m \<Longrightarrow> request_id c = None \<Longrightarrow> mux_ok (send_content taken now c m)"
  unfolding mux_ok_def
  by (intro conjI send_wire_ok send_waiters_ok send_all_sent) (auto simp: sendable_def all_sent_def)

subsection \<open>Each operation\<close>

lemma mux_ok_calmer: "mux_ok m \<Longrightarrow> calmer m' m \<Longrightarrow> mux_waiters_ok m' \<Longrightarrow> mux_ok m'"
  unfolding mux_ok_def using calmer_ok by blast

lemma mux_ok_settle: assumes m: "mux_ok m" shows "mux_ok (m\<lparr>mx_requests := settle i v (mx_requests m)\<rparr>)"
proof (rule mux_ok_calmer [OF m])
  show "calmer (m\<lparr>mx_requests := settle i v (mx_requests m)\<rparr>) m"
    by (simp add: calmer_def settle_pending_sub)
  show "mux_waiters_ok (m\<lparr>mx_requests := settle i v (mx_requests m)\<rparr>)"
    using m by (simp add: mux_ok_def mux_waiters_ok_def table_settle settle_empty)
qed

lemma mux_ok_notify: "mux_ok m \<Longrightarrow> mux_ok (mux_notify taken now method params m)"
  by (simp add: mux_notify_def sendMessage_def mux_ok_send)

lemma mux_ok_keepalive: "mux_ok m \<Longrightarrow> mux_ok (sendKeepAlive taken now m)"
  by (simp add: sendKeepAlive_def mux_ok_send)

lemma mux_ok_abort: "mux_ok m \<Longrightarrow> mux_ok (onAbort taken now i m)"
  by (simp add: onAbort_def mux_ok_notify mux_ok_settle)

lemma mux_ok_timer: "mux_ok m \<Longrightarrow> mux_ok (request_timer taken now i m)"
  by (simp add: request_timer_def Let_def mux_ok_notify mux_ok_settle)

lemma mux_ok_request: "mux_ok m \<Longrightarrow> mux_ok (snd (mux_request taken now cancelled method params m))"
proof -
  assume m: "mux_ok m"
  let ?c = "Carries (Rpc_request (rt_next (mx_requests m)) method params)"
  let ?m = "m\<lparr>mx_requests := issue (mx_requests m)\<rparr>"
  let ?s = "send_content taken now ?c ?m"
  show ?thesis
  proof (cases "mx_disposed m \<or> cancelled")
    case True
    then show ?thesis using m by (simp add: mux_request_def)
  next
    case False
    have n: "1 \<le> rt_next (mx_requests m)" using m by (auto simp: mux_ok_def mux_waiters_ok_def table_ok_def)
    have ok: "wire_ok ?m" "sendable ?c ?m" "mux_waiters_ok ?m"
      using m n False
      by (auto simp: mux_ok_def wire_ok_def mux_waiters_ok_def sendable_def
          sent_requests_def issue_def [of "mx_requests m"] dest: table_issue)
    have pend: "set (rt_pending (mx_requests ?m)) \<subseteq>
        set (sent_requests ?m) \<union> set (mx_unsent m) \<union> {rt_next (mx_requests m)}"
      using m by (auto simp: mux_ok_def all_sent_def issue_def sent_requests_def)
    have w: "wire_ok ?s" "mux_waiters_ok ?s" using ok by (simp_all add: send_wire_ok send_waiters_ok)
    show ?thesis
    proof (cases "unsendable ?c")
      case True
      have "set (rt_pending (mx_requests ?s)) \<subseteq>
          set (sent_requests ?s) \<union> set (mx_unsent ?s) \<union> {rt_next (mx_requests m)}"
        using True pend by (simp add: send_content_def Let_def sent_requests_def)
      then have "mux_ok (?s\<lparr>mx_unsent := mx_unsent ?s @ [rt_next (mx_requests m)]\<rparr>)"
        using w by (auto simp: mux_ok_def wire_ok_def mux_waiters_ok_def all_sent_def sent_requests_def)
      with True False show ?thesis
        by (simp add: mux_request_def Let_def sendMessage_def unsendable_def)
    next
      case sendable: False
      have "all_sent ?s" using pend sendable by (intro send_all_sent ok) auto
      with w sendable False show ?thesis
        by (simp add: mux_request_def Let_def sendMessage_def mux_ok_def unsendable_def)
    qed
  qed
qed

lemma mux_ok_quiet:
  "mux_ok m \<Longrightarrow> calmer m' m \<Longrightarrow> mx_requests m' = mx_requests m \<Longrightarrow> mx_disposed m' = mx_disposed m \<Longrightarrow>
   (mx_disposed m \<Longrightarrow> mx_probes m' = []) \<Longrightarrow> mux_ok m'"
  by (rule mux_ok_calmer, assumption+, unfold mux_ok_def mux_waiters_ok_def) auto

lemma mux_ok_fields:
  "mux_ok (m\<lparr>mx_probeResults := pr\<rparr>) = mux_ok m" "mux_ok (m\<lparr>mx_handling := hs\<rparr>) = mux_ok m"
  "mux_ok (m\<lparr>mx_notified := ns\<rparr>) = mux_ok m"
  "\<not> mx_disposed m \<Longrightarrow> mux_ok (m\<lparr>mx_probes := ps\<rparr>) = mux_ok m"
  by (simp_all add: mux_ok_defs)

lemma mux_ok_probe: "mux_ok m \<Longrightarrow> mux_ok (probeLiveness taken now p m)"
  by (simp add: probeLiveness_def mux_ok_keepalive mux_ok_fields)

lemma mux_ok_probe_timer: "mux_ok m \<Longrightarrow> mux_ok (probe_timer p m)"
proof -
  assume m: "mux_ok m"
  then have "mx_disposed m \<Longrightarrow> probe_timer p m = m"
    by (simp add: probe_timer_def mux_ok_def mux_waiters_ok_def)
  with m show ?thesis
    by (cases "mx_disposed m") (simp_all add: probe_timer_def mux_ok_fields)
qed

lemma mux_ok_handleRequest: "mux_ok m \<Longrightarrow> mux_ok (mux_handleRequest taken now known i method m)"
  by (simp add: mux_handleRequest_def sendMessage_def mux_ok_send mux_ok_fields)

lemma mux_ok_handled: "mux_ok m \<Longrightarrow> mux_ok (request_handled taken now i res m)"
  by (cases res) (simp_all add: request_handled_def sendMessage_def Let_def mux_ok_send mux_ok_fields)

text \<open>\<open>handleFrame\<close> before the message: probes, the sequence number and the acknowledgement.\<close>

definition take_frame :: "rpc_frame \<Rightarrow> mux \<Rightarrow> mux" where
  "take_frame f m0 =
     (let m1 = settle_probes True m0;
          m2 = (if mx_highestReceivedSeq m1 < rf_seq f then m1\<lparr>mx_highestReceivedSeq := rf_seq f\<rparr> else m1)
      in if mx_highestAckedBySelf m2 < rf_ack f
         then m2\<lparr>mx_unackedTimestamps := filter (\<lambda>p. \<not> (mx_highestAckedBySelf m2 < fst p
                                                    \<and> fst p \<le> rf_ack f)) (mx_unackedTimestamps m2),
                mx_highestAckedBySelf := rf_ack f\<rparr> else m2)"

lemma handleFrame_take:
  "handleFrame taken known now f m =
     (case rf_content f of
        Keep_alive \<Rightarrow> take_frame f m
      | Garbage \<Rightarrow> handleProtocolError (take_frame f m)
      | Carries (Rpc_response i res) \<Rightarrow> handleResponse i res (take_frame f m)
      | Carries (Rpc_request i method params) \<Rightarrow>
          mux_handleRequest taken now (known method) i method (take_frame f m)
      | Carries (Rpc_notification method params) \<Rightarrow>
          (take_frame f m)\<lparr>mx_notified := mx_notified (take_frame f m) @ [(method, handler_params params)]\<rparr>)"
  unfolding handleFrame_def take_frame_def Let_def ..

lemma take_frame_calm:
  "calmer (take_frame f m) m" "mx_requests (take_frame f m) = mx_requests m"
  "mx_disposed (take_frame f m) = mx_disposed m" "mx_probes (take_frame f m) = []"
  "mx_lastReceivedAt (take_frame f m) = mx_lastReceivedAt m"
  by (auto simp: take_frame_def calmer_def settle_probes_def Let_def)

lemma mux_ok_take_frame: "mux_ok m \<Longrightarrow> mux_ok (take_frame f m)"
  by (erule mux_ok_quiet) (simp_all add: take_frame_calm)

lemma mux_ok_handleFrame: "mux_ok m \<Longrightarrow> mux_ok (handleFrame taken known now f m)"
  unfolding handleFrame_take
  by (simp add: mux_ok_take_frame mux_ok_fields mux_ok_handleRequest handleProtocolError_def
      handleResponse_def mux_ok_settle mux_ok_dispose split: frame_content.split rpc_message.split)

lemma mux_ok_frames: "mux_ok m \<Longrightarrow> mux_ok (handle_frames taken known now fs m)"
  by (induction fs arbitrary: m) (auto intro: mux_ok_handleFrame)

lemma mux_ok_times:
  "mux_ok (m\<lparr>mx_lastTickAt := t\<rparr>) = mux_ok m" "mux_ok (m\<lparr>mx_lastReceivedAt := t\<rparr>) = mux_ok m"
  by (simp_all add: mux_ok_defs)

lemma mux_ok_stamps: "fst ` set ts = fst ` set (mx_unackedTimestamps m) \<Longrightarrow>
   mux_ok (m\<lparr>mx_unackedTimestamps := ts\<rparr>) = mux_ok m"
  by (simp add: mux_ok_defs)

lemma mux_ok_onData: "mux_ok m \<Longrightarrow> mux_ok (mux_onData taken known now fs m)"
  by (simp add: mux_onData_def mux_ok_frames mux_ok_times)

lemma mux_ok_tick: "mux_ok m \<Longrightarrow> mux_ok (timeout_tick taken now m)"
  by (simp add: timeout_tick_def Let_def handleProtocolError_def mux_ok_keepalive mux_ok_dispose
      mux_ok_times mux_ok_stamps image_image)

lemma mux_ok_step: "mux_ok m \<Longrightarrow> mux_ok (mux_step taken e m)"
  by (cases e) (simp_all add: mux_ok_request mux_ok_notify mux_ok_abort mux_ok_timer mux_ok_probe
      mux_ok_probe_timer mux_ok_onData mux_ok_handled mux_ok_keepalive mux_ok_tick mux_ok_dispose
      handleProtocolError_def)

lemma mux_ok_run: "mux_ok m \<Longrightarrow> mux_ok (mux_run taken evs m)"
  unfolding mux_run_def by (induction evs arbitrary: m) (auto intro: mux_ok_step)

subsection \<open>Every request ends once\<close>

text \<open>
  C13. After any events and whichever writes fail, every request made so far either waits and was
  put on the wire, unless it was too large to be, or was settled exactly once; no request is sent twice, the frames on the wire
  are numbered upwards, and once the multiplexer is disposed no request and no probe waits.
\<close>

theorem mux_requests_end:
  "let m = mux_run taken evs (new_mux now)
   in set (rt_pending (mx_requests m)) \<union> fst ` set (rt_settled (mx_requests m)) = {1..<rt_next (mx_requests m)}
      \<and> distinct (rt_pending (mx_requests m) @ map fst (rt_settled (mx_requests m)))
      \<and> set (rt_pending (mx_requests m)) \<subseteq> set (sent_requests m) \<union> set (mx_unsent m)
      \<and> distinct (sent_requests m)
      \<and> sorted_wrt (<) (map rf_seq (mx_wire m))
      \<and> (if mx_disposed m then rt_pending (mx_requests m) = [] \<and> mx_probes m = [] else True)"
  using mux_ok_run [OF mux_new_ok [of now], of taken evs] unfolding Let_def
  by (simp add: mux_ok_def wire_ok_def mux_waiters_ok_def all_sent_def table_ok_def)

subsection \<open>What is a live link\<close>

text \<open>Disposed is for ever.\<close>

lemma dispose_stays: "mx_disposed m \<Longrightarrow> mx_disposed (mux_dispose lost m)"
  by (simp add: mux_dispose_def)

lemma send_stays: "mx_disposed m \<Longrightarrow> mx_disposed (send_content taken now c m)"
  by (simp add: send_content_def Let_def handleProtocolError_def disposed_dispose)

lemma step_stays: "mx_disposed m \<Longrightarrow> mx_disposed (mux_step taken e m)"
  by (cases e) (simp_all add: mux_request_def mux_notify_def onAbort_def request_timer_def
      probeLiveness_def probe_timer_def mux_onData_def request_handled_def sendKeepAlive_def
      timeout_tick_def handleProtocolError_def dispose_stays send_stays sendMessage_def Let_def
      split: rpc_outcome.split)

lemma run_stays: "mx_disposed m \<Longrightarrow> mx_disposed (mux_run taken evs m)"
  unfolding mux_run_def by (induction evs arbitrary: m) (auto intro: step_stays)

text \<open>
  A link is heard: data was last received at \<open>l\<close> and the last tick was at \<open>t\<close>. Each tick comes at
  most \<open>TIMEOUT_MS\<close> after data, or after a pause of the process, which counts as data.
\<close>

fun heard :: "int \<Rightarrow> int \<Rightarrow> mux_event list \<Rightarrow> bool" where
  "heard l t [] = True"
| "heard l t (Mux_data now known fs # es) = (Garbage \<notin> rf_content ` set fs \<and> heard now t es)"
| "heard l t (Mux_tick now # es) =
     (if WAKE_GAP_MS < now - t then heard now now es else now - l \<le> TIMEOUT_MS \<and> heard l now es)"
| "heard l t (Mux_oversized # es) = False"
| "heard l t (Mux_close # es) = False"
| "heard l t (Mux_shutdown # es) = False"
| "heard l t (e # es) = heard l t es"

definition alive_at :: "int \<Rightarrow> int \<Rightarrow> mux \<Rightarrow> bool" where
  "alive_at l t m = (\<not> mx_disposed m \<and> mx_lastReceivedAt m = l \<and> mx_lastTickAt m = t)"

lemma alive_send: "\<forall>s. taken s \<Longrightarrow> alive_at l t m \<Longrightarrow> alive_at l t (send_content taken now c m)"
  by (simp add: alive_at_def send_content_def Let_def)

lemma take_frame_tick: "mx_lastTickAt (take_frame f m) = mx_lastTickAt m"
  by (simp add: take_frame_def settle_probes_def Let_def)

lemma alive_handleFrame:
  "\<forall>s. taken s \<Longrightarrow> alive_at l t m \<Longrightarrow> rf_content f \<noteq> Garbage \<Longrightarrow>
   alive_at l t (handleFrame taken known now f m)"
proof -
  assume a: "\<forall>s. taken s" "alive_at l t m" "rf_content f \<noteq> Garbage"
  then have "alive_at l t (take_frame f m)"
    by (simp add: alive_at_def take_frame_calm take_frame_tick)
  with a show ?thesis unfolding handleFrame_take
    by (auto simp: handleResponse_def mux_handleRequest_def sendMessage_def alive_send
        split: frame_content.split rpc_message.split) (simp_all add: alive_at_def)
qed

lemma alive_frames:
  "\<forall>s. taken s \<Longrightarrow> alive_at l t m \<Longrightarrow> Garbage \<notin> rf_content ` set fs \<Longrightarrow>
   alive_at l t (handle_frames taken known now fs m)"
proof (induction fs arbitrary: m)
  case (Cons f fs)
  then have "rf_content f \<noteq> Garbage" by auto
  with Cons show ?case by (simp add: alive_handleFrame)
qed simp

lemma alive_onData:
  "\<forall>s. taken s \<Longrightarrow> alive_at l t m \<Longrightarrow> Garbage \<notin> rf_content ` set fs \<Longrightarrow>
   alive_at now t (mux_onData taken known now fs m)"
  by (simp add: mux_onData_def alive_frames [of taken now t "m\<lparr>mx_lastReceivedAt := now\<rparr>"] alive_at_def)
     (auto dest!: alive_frames [of taken now t "m\<lparr>mx_lastReceivedAt := now\<rparr>" fs known now] simp: alive_at_def)

lemma alive_fields:
  "alive_at l t (m\<lparr>mx_probeResults := pr\<rparr>) = alive_at l t m"
  "alive_at l t (m\<lparr>mx_handling := hs\<rparr>) = alive_at l t m"
  "alive_at l t (m\<lparr>mx_probes := ps\<rparr>) = alive_at l t m"
  "alive_at l t (m\<lparr>mx_requests := rs\<rparr>) = alive_at l t m"
  "alive_at l t (m\<lparr>mx_unsent := us\<rparr>) = alive_at l t m"
  by (simp_all add: alive_at_def)

lemma alive_other:
  assumes "\<forall>s. taken s" "alive_at l t m"
  shows "alive_at l t (snd (mux_request taken now cancelled method params m))"
    "alive_at l t (mux_notify taken now method params m)" "alive_at l t (onAbort taken now i m)"
    "alive_at l t (request_timer taken now i m)" "alive_at l t (probeLiveness taken now p m)"
    "alive_at l t (probe_timer p m)" "alive_at l t (request_handled taken now i res m)"
    "alive_at l t (sendKeepAlive taken now m)"
  using assms
  by (simp_all add: mux_request_def mux_notify_def onAbort_def request_timer_def probeLiveness_def
      probe_timer_def request_handled_def sendKeepAlive_def sendMessage_def Let_def alive_send
      alive_fields split: rpc_outcome.split)

lemma alive_run:
  assumes "\<forall>s. taken s"
  shows "heard l t evs \<Longrightarrow> alive_at l t m \<Longrightarrow> \<not> mx_disposed (mux_run taken evs m)"
proof (induction l t evs arbitrary: m rule: heard.induct)
  case (2 l t now known fs es)
  have "alive_at now t (mux_onData taken known now fs m)"
    using 2(2,3) assms by (auto intro!: alive_onData)
  with 2 show ?case by (simp add: mux_run_def)
next
  case (3 l t now es)
  then show ?case
    using assms by (auto simp: mux_run_def timeout_tick_def alive_at_def sendKeepAlive_def Let_def
        send_content_def split: if_splits)
qed (simp_all add: mux_run_def alive_at_def alive_other [OF assms, unfolded alive_at_def])

text \<open>
  C16. A multiplexer whose transport takes every frame, which is not shut down and which gets some
  whole chunk at most 20 s before each tick of its check, pauses of the process not counted, is
  never given up, whatever its client and the relay do.
\<close>

theorem mux_live_link_kept:
  "\<forall>s. taken s \<Longrightarrow> heard now now evs \<Longrightarrow> \<not> mx_disposed (mux_run taken evs (new_mux now))"
  by (erule alive_run) (simp_all add: alive_at_def new_mux_def)

theorem mux_live_link_kept_witness:
  "\<not> mx_disposed (mux_run (\<lambda>s. True)
     [Mux_request 0 False (js ''git.status'') None, Mux_keepalive 5000, Mux_tick 5000,
      Mux_data 9000 (\<lambda>n. False) [\<lparr>rf_seq = 1, rf_ack = 1, rf_content = Keep_alive\<rparr>],
      Mux_tick 15000, Mux_tick 90000, Mux_tick 95000] (new_mux 0))"
  by (rule mux_live_link_kept) (simp_all add: WAKE_GAP_MS_def KEEPALIVE_SEND_MS_def TIMEOUT_MS_def)

subsection \<open>What is a dead link\<close>

text \<open>Nothing is received and the process is not paused; the last tick was at \<open>t\<close>.\<close>

fun silent :: "int \<Rightarrow> mux_event list \<Rightarrow> bool" where
  "silent t [] = True"
| "silent t (Mux_data now known fs # es) = False"
| "silent t (Mux_tick now # es) = (now - t \<le> WAKE_GAP_MS \<and> silent now es)"
| "silent t (e # es) = silent t es"

text \<open>Given up, or still without data since \<open>l\<close> and with \<open>u\<close> not acknowledged.\<close>

definition stale_at :: "int \<Rightarrow> int \<Rightarrow> nat \<times> int \<Rightarrow> mux \<Rightarrow> bool" where
  "stale_at l t u m = (mx_disposed m \<or> mx_lastReceivedAt m = l \<and> mx_lastTickAt m = t
     \<and> u \<in> set (mx_unackedTimestamps m) \<and> fst u < mx_nextOutgoingSeq m)"

lemma stale_send: "stale_at l t u m \<Longrightarrow> stale_at l t u (send_content taken now c m)"
  by (auto simp: stale_at_def send_content_def Let_def handleProtocolError_def disposed_dispose
      put_timestamp_def)

lemma stale_fields:
  "stale_at l t u (m\<lparr>mx_probeResults := pr\<rparr>) = stale_at l t u m"
  "stale_at l t u (m\<lparr>mx_handling := hs\<rparr>) = stale_at l t u m"
  "stale_at l t u (m\<lparr>mx_probes := ps\<rparr>) = stale_at l t u m"
  "stale_at l t u (m\<lparr>mx_requests := rs\<rparr>) = stale_at l t u m"
  "stale_at l t u (m\<lparr>mx_unsent := us\<rparr>) = stale_at l t u m"
  by (simp_all add: stale_at_def)

lemma stale_other:
  assumes "stale_at l t u m"
  shows "stale_at l t u (snd (mux_request taken now cancelled method params m))"
    "stale_at l t u (mux_notify taken now method params m)" "stale_at l t u (onAbort taken now i m)"
    "stale_at l t u (request_timer taken now i m)" "stale_at l t u (probeLiveness taken now p m)"
    "stale_at l t u (probe_timer p m)" "stale_at l t u (request_handled taken now i res m)"
    "stale_at l t u (sendKeepAlive taken now m)" "stale_at l t u (mux_dispose lost m)"
  using assms
  by (simp_all add: mux_request_def mux_notify_def onAbort_def request_timer_def probeLiveness_def
      probe_timer_def request_handled_def sendKeepAlive_def sendMessage_def Let_def
      stale_send stale_fields split: rpc_outcome.split) (simp add: stale_at_def disposed_dispose)

lemma stale_keepalive:
  "stale_at (mx_lastReceivedAt m) (mx_lastTickAt m) (mx_nextOutgoingSeq m, k) (sendKeepAlive taken k m)"
  by (auto simp: sendKeepAlive_def stale_at_def send_content_def Let_def handleProtocolError_def
      disposed_dispose put_timestamp_def unsendable_def)

lemma stale_tick:
  "stale_at l t u m \<Longrightarrow> now - t \<le> WAKE_GAP_MS \<Longrightarrow> stale_at l now u (timeout_tick taken now m)"
  by (auto simp: timeout_tick_def Let_def handleProtocolError_def stale_at_def disposed_dispose)

lemma stale_run:
  "silent t (evs @ [Mux_tick T]) \<Longrightarrow> stale_at l t u m \<Longrightarrow> TIMEOUT_MS < T - l \<Longrightarrow> TIMEOUT_MS < T - snd u \<Longrightarrow>
   mx_disposed (mux_run taken (evs @ [Mux_tick T]) m)"
proof (induction t evs arbitrary: m rule: silent.induct)
  case (1 t)
  then show ?case
    by (auto simp: mux_run_def timeout_tick_def stale_at_def handleProtocolError_def disposed_dispose
        Let_def list_ex_iff)
qed (simp_all add: mux_run_def stale_other stale_tick handleProtocolError_def)

text \<open>
  C10. Whatever state a multiplexer has reached: if after a keepalive at \<open>k\<close> no chunk arrives, the
  process is not paused, and a tick comes more than 20 s after that keepalive and after the last
  chunk, then the multiplexer is disposed at the latest by that tick and every request made so far
  has its one outcome, so that nobody waits for a dead link.
\<close>

theorem mux_dead_link_ends:
  assumes "silent (mx_lastTickAt (mux_run taken evs0 (new_mux now0))) (evs @ [Mux_tick T])"
    and "TIMEOUT_MS < T - mx_lastReceivedAt (mux_run taken evs0 (new_mux now0))"
    and "TIMEOUT_MS < T - k"
  shows "let m = mux_run taken (evs0 @ [Mux_keepalive k] @ evs @ [Mux_tick T]) (new_mux now0)
         in mx_disposed m \<and> rt_pending (mx_requests m) = []
            \<and> fst ` set (rt_settled (mx_requests m)) = {1..<rt_next (mx_requests m)}
            \<and> distinct (map fst (rt_settled (mx_requests m)))"
proof -
  let ?m0 = "mux_run taken evs0 (new_mux now0)"
  let ?m1 = "sendKeepAlive taken k ?m0"
  let ?m = "mux_run taken (evs0 @ [Mux_keepalive k] @ evs @ [Mux_tick T]) (new_mux now0)"
  have "mx_disposed (mux_run taken (evs @ [Mux_tick T]) ?m1)"
    using assms by (intro stale_run [OF _ stale_keepalive]) auto
  moreover have "?m = mux_run taken (evs @ [Mux_tick T]) ?m1" by (simp add: mux_run_def)
  ultimately have d: "mx_disposed ?m" by simp
  have "mux_ok ?m" by (rule mux_ok_run [OF mux_new_ok])
  with d have "rt_pending (mx_requests ?m) = []" "table_ok (mx_requests ?m)"
    by (auto simp: mux_ok_def mux_waiters_ok_def)
  with d show ?thesis
    by (simp add: Let_def table_ok_def)
qed

theorem mux_dead_link_ends_witness:
  "let m = mux_run (\<lambda>s. True) ([Mux_request 0 False (js ''git.status'') None] @ [Mux_keepalive 5000] @
      [Mux_tick 5000, Mux_tick 15000, Mux_request 16000 False (js ''fs.read'') None] @ [Mux_tick 25001])
      (new_mux 0)
   in mx_disposed m \<and> rt_pending (mx_requests m) = []
      \<and> fst ` set (rt_settled (mx_requests m)) = {1..<rt_next (mx_requests m)}
            \<and> distinct (map fst (rt_settled (mx_requests m)))"
  by (rule mux_dead_link_ends)
     (simp_all add: WAKE_GAP_MS_def KEEPALIVE_SEND_MS_def TIMEOUT_MS_def mux_run_def mux_request_def
       sendMessage_def send_content_def new_mux_def Let_def)

text \<open>A disposed multiplexer.\<close>

lemma disposed_send:
  assumes "mx_disposed m" and "m' = send_content taken now c m"
  shows "mx_disposed m'" "mx_requests m' = mx_requests m" "mx_notified m' = mx_notified m"
    "mx_handling m' = mx_handling m" "unsendable c \<Longrightarrow> mx_wire m' = mx_wire m"
    "mx_wire m' = mx_wire m \<or> (\<exists>f. mx_wire m' = mx_wire m @ [f] \<and> rf_content f = c
       \<and> (rf_seq f, now) \<in> set (mx_unackedTimestamps m'))"
  using assms
  by (auto simp: send_content_def Let_def handleProtocolError_def mux_dispose_def put_timestamp_def)

lemma disposed_handled:
  assumes m: "mx_disposed m" and "i \<in> set (mx_handling m)"
    and m'_def: "m' = request_handled taken now i res m"
  shows "mx_disposed m' \<and> mx_requests m' = mx_requests m \<and> mx_notified m' = mx_notified m
    \<and> mx_handling m' = remove1 i (mx_handling m)
    \<and> (mx_wire m' = mx_wire m \<or> (\<exists>f. mx_wire m' = mx_wire m @ [f]
         \<and> rf_content f \<in> {Carries (Rpc_response i res),
                           Carries (Rpc_response i (too_large_answer (Rpc_response i res)))}
         \<and> (rf_seq f, now) \<in> set (mx_unackedTimestamps m')))"
proof -
  define m0 where "m0 = m\<lparr>mx_handling := remove1 i (mx_handling m)\<rparr>"
  define m1 where "m1 = send_content taken now (Carries (Rpc_response i res)) m0"
  define m2 where "m2 = send_content taken now
    (Carries (Rpc_response i (too_large_answer (Rpc_response i res)))) m1"
  have m0: "mx_disposed m0" "mx_requests m0 = mx_requests m" "mx_notified m0 = mx_notified m"
      "mx_handling m0 = remove1 i (mx_handling m)" "mx_wire m0 = mx_wire m"
    using m by (simp_all add: m0_def)
  note d1 = disposed_send [OF m0(1) m1_def]
  note d2 = disposed_send [OF d1(1) m2_def]
  have "m' = (if too_large (Rpc_response i res) \<and> (\<exists>v. res = Rpc_ok v) then m2 else m1)"
    using assms(2) by (cases res)
      (simp_all add: m'_def request_handled_def Let_def sendMessage_def m0_def m1_def m2_def)
  then show ?thesis
    using d1 d2 m0 by (auto simp: unsendable_def)
qed

lemma disposed_other:
  assumes "mx_disposed m" "rt_pending (mx_requests m) = []" "mx_probes m = []"
    and "\<And>t i res. e \<noteq> Mux_handled t i res \<or> i \<notin> set (mx_handling m)"
    and m'_def: "m' = mux_step taken e m"
  shows "mx_disposed m' \<and> mx_requests m' = mx_requests m \<and> mx_notified m' = mx_notified m
    \<and> mx_wire m' = mx_wire m"
  using assms
  by (cases e) (auto simp: mux_request_def mux_notify_def onAbort_def request_timer_def
      probeLiveness_def probe_timer_def mux_onData_def request_handled_def sendKeepAlive_def
      timeout_tick_def handleProtocolError_def mux_dispose_def)

text \<open>
  Nothing asks a disposed multiplexer's transport for anything but one answer to each request
  the relay had made before: it is still written to the closed transport, with a time stamp that
  is never removed.
\<close>

theorem mux_answers_after_dispose:
  "let m = mux_run taken evs (new_mux now); m' = mux_step taken e m
   in if mx_disposed m then mx_disposed m' \<and> mx_requests m' = mx_requests m \<and> mx_notified m' = mx_notified m
        \<and> (mx_wire m' = mx_wire m \<or> (\<exists>t i res f. e = Mux_handled t i res \<and> i \<in> set (mx_handling m)
             \<and> mx_handling m' = remove1 i (mx_handling m)
             \<and> mx_wire m' = mx_wire m @ [f]
             \<and> rf_content f \<in> {Carries (Rpc_response i res),
                               Carries (Rpc_response i (too_large_answer (Rpc_response i res)))}
             \<and> (rf_seq f, t) \<in> set (mx_unackedTimestamps m')))
      else True"
proof -
  let ?m = "mux_run taken evs (new_mux now)"
  have "rt_pending (mx_requests ?m) = []" "mx_probes ?m = []" if "mx_disposed ?m"
    using mux_ok_run [OF mux_new_ok [of now], of taken evs] that by (auto simp: mux_ok_def mux_waiters_ok_def)
  then show ?thesis
  proof (cases "\<exists>t i res. e = Mux_handled t i res \<and> i \<in> set (mx_handling ?m)")
    case True
    then obtain t i res where "e = Mux_handled t i res" "i \<in> set (mx_handling ?m)" by blast
    with disposed_handled [of ?m i "mux_step taken e ?m" taken t res] show ?thesis
      by (auto simp: Let_def)
  next
    case False
    with \<open>mx_disposed ?m \<Longrightarrow> rt_pending (mx_requests ?m) = []\<close> \<open>mx_disposed ?m \<Longrightarrow> mx_probes ?m = []\<close>
      disposed_other [of ?m e "mux_step taken e ?m" taken] show ?thesis by (auto simp: Let_def)
  qed
qed

end
