(* ===== verification/Relay_System.thy ===== *)
theory Relay_System
  imports Relay_Bulk_Lane Ssh_Mux_System
begin

section \<open>The two ends together\<close>

text \<open>
  The multiplexer of the main process and the dispatcher of the relay: what a cancelled request
  does at the other end.
\<close>

lemma dec_value: "foldl (\<lambda>n u. 10 * n + (u - 48)) 0 (js_dec n) = n"
proof (induction n rule: js_dec.induct)
  case (1 n)
  show ?case
  proof (cases "n < 10")
    case False
    then have "js_dec n = js_dec (n div 10) @ [48 + n mod 10]" by (subst js_dec.simps) (simp add: Let_def)
    with 1 False show ?thesis by simp
  qed (simp add: js_dec_small)
qed

lemma js_dec_inj: "js_dec m = js_dec n \<longleftrightarrow> m = n"
  using dec_value by metis

lemma cancels_id: "cancels (cancel_params i) j \<longleftrightarrow> j = i"
  by (auto simp: cancels_def cancel_params_def handler_params_def jget_def js_dec_inj)

lemma find_controller:
  assumes "map_of cs (c, i) = Some t"
  shows "find (\<lambda>p. fst (fst p) = c \<and> cancels (cancel_params i) (snd (fst p))) cs = Some ((c, i), t)"
  using assms by (induction cs) (auto simp: cancels_id split: if_splits)

lemma aborted_silent:
  assumes "t \<in> set (dp_aborted d)" shows "dp_wire (handler_done P t res d) = dp_wire d"
proof (cases "find (\<lambda>h. h_controller h = t) (dp_handling d)")
  case (Some h)
  then have "h_controller h = t" by (auto simp: find_Some_iff)
  with assms Some show ?thesis
    by (simp add: handler_done_def answer_def isStale_def delete_controller_def)
qed (simp add: handler_done_def)

text \<open>
  C22. Cancellation across the connection: when the caller aborts a request that waits, the
  multiplexer settles it and puts one frame on the wire; when the relay takes that frame from the
  client whose request it is, the handler's signal is aborted, and whatever the handler ends with,
  no answer is written.
\<close>

theorem cancel_reaches_handler:
  assumes "\<not> mx_disposed m" "i \<in> set (rt_pending (mx_requests m))" "taken (mx_nextOutgoingSeq m)"
    and "\<not> too_large (Rpc_notification (js ''rpc.cancel'') (cancel_params i))"
    and "\<not> dp_disposed d" "c \<in> set (dp_clients d)" "map_of (dp_controllers d) (c, i) = Some t"
  shows "\<exists>f. mx_wire (onAbort taken now i m) = mx_wire m @ [f]
    \<and> (i, Request_cancelled) \<in> set (rt_settled (mx_requests (onAbort taken now i m)))
    \<and> t \<in> set (dp_aborted (feedClient P known c [f] d))
    \<and> dp_wire (handler_done P t res (feedClient P known c [f] d)) = dp_wire d"
proof -
  let ?f = "\<lparr>rf_seq = mx_nextOutgoingSeq m, rf_ack = mx_highestReceivedSeq m,
     rf_content = Carries (Rpc_notification (js ''rpc.cancel'') (cancel_params i))\<rparr>"
  have mux: "mx_wire (onAbort taken now i m) = mx_wire m @ [?f]"
    "(i, Request_cancelled) \<in> set (rt_settled (mx_requests (onAbort taken now i m)))"
    using assms(1-4)
    by (simp_all add: onAbort_def mux_notify_def sendMessage_def send_content_def unsendable_def
        settle_def Let_def)
  define d' where "d' = feedClient P known c [?f] d"
  have "t \<in> set (dp_aborted d')" "dp_wire d' = dp_wire d"
    using assms(5-7) find_controller [of "dp_controllers d" c i t]
    by (simp_all add: d'_def feedClient_def feedForClient_def dp_handleFrame_def dp_handleNotification_def
        on_client_def)
  with aborted_silent [of t d' P res] mux show ?thesis
    unfolding d'_def by (intro exI [of _ ?f]) simp
qed

lemma small_cancel: "\<not> too_large (Rpc_notification (js ''rpc.cancel'') (cancel_params 1))"
proof -
  let ?s = "json_stringify (message_json (Rpc_notification (js ''rpc.cancel'') (cancel_params 1)))"
  have "?s = 123 # 34 # js ''jsonrpc'' @ 34 # 58 # 34 # js ''2.0'' @ 34 # 44 # 34 # js ''method'' @ 34 # 58
      # 34 # js ''rpc.cancel'' @ 34 # 44 # 34 # js ''params'' @ 34 # 58 # 123 # 34 # js ''id'' @ 34 # 58 # 49
      # [125, 125]"
    by (simp add: jsonrpc_member_def optional_member_def cancel_params_def quote_plain plain_ascii_def
        js_dec_small)
  then have "list_all (\<lambda>u. u < 128) ?s" "length ?s \<le> MAX_MESSAGE_SIZE"
    by (simp_all add: MAX_MESSAGE_SIZE_def)
  then show ?thesis by (simp add: too_large_def message_bytes_def length_ascii)
qed

definition sample_mux :: mux where
  "sample_mux = mux_run (\<lambda>s. True) [Mux_request 0 False (js ''m'') None] (new_mux 0)"

definition sample_sinks :: sinks where
  "sample_sinks = \<lparr>sk_write = \<lambda>s n. Accepted, sk_drains = \<lambda>s. True\<rparr>"

definition sample_dispatcher :: dispatcher where
  "sample_dispatcher = dp_run sample_sinks [Dp_attach, Dp_feed 2 (\<lambda>r n. True)
     [\<lparr>rf_seq = 1, rf_ack = 0, rf_content = Carries (Rpc_request 1 (js ''m'') None)\<rparr>]] new_dispatcher"

theorem cancel_reaches_handler_witness:
  "\<exists>f. mx_wire (onAbort (\<lambda>s. True) 5 1 sample_mux) = mx_wire sample_mux @ [f]
    \<and> (1, Request_cancelled) \<in> set (rt_settled (mx_requests (onAbort (\<lambda>s. True) 5 1 sample_mux)))
    \<and> 0 \<in> set (dp_aborted (feedClient sample_sinks (\<lambda>r n. True) 2 [f] sample_dispatcher))
    \<and> dp_wire (handler_done sample_sinks 0 (Rpc_ok JNull)
        (feedClient sample_sinks (\<lambda>r n. True) 2 [f] sample_dispatcher)) = dp_wire sample_dispatcher"
proof (rule cancel_reaches_handler)
  show "\<not> mx_disposed sample_mux" "1 \<in> set (rt_pending (mx_requests sample_mux))"
    by (simp_all add: sample_mux_def mux_run_def mux_request_def sendMessage_def send_content_def
        new_mux_def new_table_def issue_def Let_def)
  show "\<not> dp_disposed sample_dispatcher" "2 \<in> set (dp_clients sample_dispatcher)"
    "map_of (dp_controllers sample_dispatcher) (2, 1) = Some 0"
    by (simp_all add: sample_dispatcher_def dp_run_def attachClient_def feedClient_def feedForClient_def
        dp_handleFrame_def dp_handleRequest_def create_controller_def on_client_def new_dispatcher_def
        new_client_def Let_def)
qed (simp_all add: small_cancel [simplified])

end
