(* ===== verification/Flow_Control.thy ===== *)
theory Flow_Control
  imports Prelude
begin

section \<open>Producer flow control\<close>

text \<open>
  \<open>src/src/main/ipc/pty-producer-flow-control.ts\<close>: the main process watches how much output of
  each terminal waits for the window and asks the provider to pause and resume the process that
  writes it; and the part of \<open>src/src/main/daemon/session.ts\<close> that does so, with its failsafe for a
  resume that is lost. What the transport does with a signal, or that it throws, is ignored by the
  code; the signals are a history.
\<close>

subsection \<open>The controller\<close>

definition PRODUCER_FLOW_HIGH_WATERMARK_CHARS :: int where
  "PRODUCER_FLOW_HIGH_WATERMARK_CHARS = 256 * 1024"

definition PRODUCER_FLOW_LOW_WATERMARK_CHARS :: int where
  "PRODUCER_FLOW_LOW_WATERMARK_CHARS = 32 * 1024"

definition PRODUCER_PAUSE_REASSERT_INTERVAL_MS :: int where
  "PRODUCER_PAUSE_REASSERT_INTERVAL_MS = 5000"

record flow_signal =
  sg_pty :: jsstr
  sg_pause :: bool
  sg_at :: int

record flow_controller =
  fc_pausedAt :: "(jsstr \<times> int) list"
  fc_signals :: "flow_signal list"

definition new_flow :: flow_controller where
  "new_flow = \<lparr>fc_pausedAt = [], fc_signals = []\<rparr>"

definition signal :: "int \<Rightarrow> jsstr \<Rightarrow> bool \<Rightarrow> flow_controller \<Rightarrow> flow_controller" where
  "signal now i pause s =
     s\<lparr>fc_signals := \<lparr>sg_pty = i, sg_pause = pause, sg_at = now\<rparr> # fc_signals s\<rparr>"

definition set_pausedAt :: "int \<Rightarrow> jsstr \<Rightarrow> flow_controller \<Rightarrow> flow_controller" where
  "set_pausedAt now i s = s\<lparr>fc_pausedAt :=
     (if i \<in> fst ` set (fc_pausedAt s)
      then map (\<lambda>p. if fst p = i then (i, now) else p) (fc_pausedAt s)
      else fc_pausedAt s @ [(i, now)])\<rparr>"

definition delete_pausedAt :: "jsstr \<Rightarrow> flow_controller \<Rightarrow> flow_controller" where
  "delete_pausedAt i s = s\<lparr>fc_pausedAt := filter (\<lambda>p. fst p \<noteq> i) (fc_pausedAt s)\<rparr>"

definition update_flow :: "int \<Rightarrow> jsstr \<Rightarrow> int \<Rightarrow> flow_controller \<Rightarrow> flow_controller" where
  "update_flow now i pendingChars s =
     (case map_of (fc_pausedAt s) i of
        None \<Rightarrow>
          if pendingChars > PRODUCER_FLOW_HIGH_WATERMARK_CHARS
          then signal now i True (set_pausedAt now i s) else s
      | Some pausedAt \<Rightarrow>
          if pendingChars < PRODUCER_FLOW_LOW_WATERMARK_CHARS
          then signal now i False (delete_pausedAt i s)
          else if pendingChars > PRODUCER_FLOW_HIGH_WATERMARK_CHARS
                  \<and> now - pausedAt \<ge> PRODUCER_PAUSE_REASSERT_INTERVAL_MS
          then signal now i True (set_pausedAt now i s) else s)"

definition isPaused :: "jsstr \<Rightarrow> flow_controller \<Rightarrow> bool" where
  "isPaused i s = (i \<in> fst ` set (fc_pausedAt s))"

definition release :: "int \<Rightarrow> jsstr \<Rightarrow> flow_controller \<Rightarrow> flow_controller" where
  "release now i s = (if isPaused i s then signal now i False (delete_pausedAt i s) else s)"

definition releaseAll :: "int \<Rightarrow> flow_controller \<Rightarrow> flow_controller" where
  "releaseAll now s = fold (release now) (map fst (fc_pausedAt s)) s"

datatype flow_event =
    Flow_update int jsstr int
  | Flow_release int jsstr
  | Flow_releaseAll int

fun flow_step :: "flow_event \<Rightarrow> flow_controller \<Rightarrow> flow_controller" where
  "flow_step (Flow_update now i pendingChars) s = update_flow now i pendingChars s"
| "flow_step (Flow_release now i) s = release now i s"
| "flow_step (Flow_releaseAll now) s = releaseAll now s"

definition flow_run :: "flow_event list \<Rightarrow> flow_controller" where
  "flow_run evs = fold flow_step evs new_flow"

subsection \<open>Hysteresis\<close>

text \<open>
  The reference: a terminal should be paused if of its reports, the latest first, one above HIGH
  comes before one below LOW and before a release.
\<close>

fun wants_pause :: "jsstr \<Rightarrow> flow_event list \<Rightarrow> bool" where
  "wants_pause i [] = False"
| "wants_pause i (Flow_update now j n # older) =
     (if j \<noteq> i then wants_pause i older
      else if n > PRODUCER_FLOW_HIGH_WATERMARK_CHARS then True
      else if n < PRODUCER_FLOW_LOW_WATERMARK_CHARS then False
      else wants_pause i older)"
| "wants_pause i (Flow_release now j # older) = (if j = i then False else wants_pause i older)"
| "wants_pause i (Flow_releaseAll now # older) = False"

lemma watermarks: "PRODUCER_FLOW_LOW_WATERMARK_CHARS < PRODUCER_FLOW_HIGH_WATERMARK_CHARS"
  by (simp add: PRODUCER_FLOW_LOW_WATERMARK_CHARS_def PRODUCER_FLOW_HIGH_WATERMARK_CHARS_def)

lemma set_pausedAt_keys:
  "map fst (map (\<lambda>p. if fst p = i then (i, now) else p) xs) = map fst xs"
  by (induction xs) auto

lemma paused_parts:
  "isPaused i (signal now j b s) = isPaused i s"
  "isPaused i (set_pausedAt now j s) = (i = j \<or> isPaused i s)"
  "isPaused i (delete_pausedAt j s) = (i \<noteq> j \<and> isPaused i s)"
proof -
  have "fst ` set (map (\<lambda>p. if fst p = j then (j, now) else p) (fc_pausedAt s)) = fst ` set (fc_pausedAt s)"
    using set_pausedAt_keys [of j now "fc_pausedAt s"] by (metis set_map)
  then show "isPaused i (set_pausedAt now j s) = (i = j \<or> isPaused i s)"
    by (auto simp: isPaused_def set_pausedAt_def simp del: set_map)
qed (force simp: isPaused_def signal_def delete_pausedAt_def)+

lemma isPaused_map_of: "isPaused i s \<longleftrightarrow> map_of (fc_pausedAt s) i \<noteq> None"
  by (simp add: isPaused_def map_of_eq_None_iff)

lemma paused_release: "isPaused i (release now j s) = (i \<noteq> j \<and> isPaused i s)"
  by (auto simp: release_def paused_parts)

lemma paused_releaseAll: "\<not> isPaused i (releaseAll now s)"
proof -
  have "isPaused i (fold (release now) js s) = (i \<notin> set js \<and> isPaused i s)" for js
    by (induction js arbitrary: s) (auto simp: paused_release)
  then show ?thesis by (auto simp: releaseAll_def isPaused_def)
qed

lemma paused_update:
  "isPaused i (update_flow now j n s) =
     (if j \<noteq> i then isPaused i s
      else if n > PRODUCER_FLOW_HIGH_WATERMARK_CHARS then True
      else if n < PRODUCER_FLOW_LOW_WATERMARK_CHARS then False
      else isPaused i s)"
  using watermarks
  by (auto simp: update_flow_def paused_parts isPaused_map_of [of i s] split: option.splits)

text \<open>
  C25. For any reports and releases of any terminals, a terminal is held paused exactly if the
  latest of its reports outside the band between the watermarks was above HIGH and nothing released
  it since: no other terminal and no time has an influence.
\<close>

theorem flow_hysteresis: "isPaused i (flow_run evs) = wants_pause i (rev evs)"
proof (induction evs rule: rev_induct)
  case Nil
  then show ?case by (simp add: flow_run_def new_flow_def isPaused_def)
next
  case (snoc e evs)
  then show ?case
    by (cases e) (simp_all add: flow_run_def paused_update paused_release paused_releaseAll)
qed

subsection \<open>Signals\<close>

text \<open>The signals of one terminal, the latest first.\<close>

definition signals_of :: "jsstr \<Rightarrow> flow_controller \<Rightarrow> (bool \<times> int) list" where
  "signals_of i s = map (\<lambda>g. (sg_pause g, sg_at g)) (filter (\<lambda>g. sg_pty g = i) (fc_signals s))"

text \<open>
  A resume comes after a pause, the first signal is a pause, and one pause follows another only
  after the interval.
\<close>

fun alternates :: "(bool \<times> int) list \<Rightarrow> bool" where
  "alternates [] = True"
| "alternates [(pause, t)] = pause"
| "alternates ((pause, t) # (pause', t') # older) =
     ((if pause \<and> pause' then PRODUCER_PAUSE_REASSERT_INTERVAL_MS \<le> t - t' else pause \<or> pause')
      \<and> alternates ((pause', t') # older))"

text \<open>What the map says of a terminal is its latest signal.\<close>

definition latest_pause :: "(bool \<times> int) list \<Rightarrow> int option" where
  "latest_pause sigs = (case sigs of (pause, t) # older \<Rightarrow> if pause then Some t else None | [] \<Rightarrow> None)"

definition flow_inv :: "flow_controller \<Rightarrow> bool" where
  "flow_inv s = (\<forall>i. alternates (signals_of i s) \<and> map_of (fc_pausedAt s) i = latest_pause (signals_of i s))"

lemma signals_parts:
  "signals_of i (signal now j b s) = (if j = i then (b, now) # signals_of i s else signals_of i s)"
  "signals_of i (set_pausedAt now j s) = signals_of i s" "signals_of i (delete_pausedAt j s) = signals_of i s"
  "map_of (fc_pausedAt (signal now j b s)) i = map_of (fc_pausedAt s) i"
  by (simp_all add: signals_of_def signal_def set_pausedAt_def delete_pausedAt_def)

lemma map_of_delete:
  "map_of (fc_pausedAt (delete_pausedAt j s)) i = (if i = j then None else map_of (fc_pausedAt s) i)"
proof -
  have "map_of (filter (\<lambda>p. fst p \<noteq> j) xs) i = (if i = j then None else map_of xs i)" for xs :: "(jsstr \<times> int) list"
    by (induction xs) auto
  then show ?thesis by (simp add: delete_pausedAt_def)
qed

lemma map_of_set:
  "map_of (fc_pausedAt (set_pausedAt now j s)) i = (if i = j then Some now else map_of (fc_pausedAt s) i)"
proof -
  have old: "map_of (map (\<lambda>p. if fst p = j then (j, now) else p) xs) i =
      (if i = j \<and> j \<in> fst ` set xs then Some now else map_of xs i)" for xs :: "(jsstr \<times> int) list"
    by (induction xs) (auto, force)
  have new: "j \<notin> fst ` set xs \<Longrightarrow> map_of (xs @ [(j, now)]) i = (if i = j then Some now else map_of xs i)"
    for xs :: "(jsstr \<times> int) list"
    by (induction xs) auto
  show ?thesis
    using old [of "fc_pausedAt s"] new [of "fc_pausedAt s"]
    by (cases "j \<in> fst ` set (fc_pausedAt s)") (simp_all add: set_pausedAt_def del: map_of_append)
qed

lemma alternates_Cons:
  "alternates ((b, t) # sigs) \<longleftrightarrow> alternates sigs \<and>
     (case latest_pause sigs of None \<Rightarrow> b | Some t' \<Rightarrow> b \<longrightarrow> PRODUCER_PAUSE_REASSERT_INTERVAL_MS \<le> t - t')"
  by (cases sigs) (auto simp: latest_pause_def)

lemma latest_Cons: "latest_pause ((b, t) # sigs) = (if b then Some t else None)"
  by (simp add: latest_pause_def)

lemma flow_inv_update: "flow_inv s \<Longrightarrow> flow_inv (update_flow now j n s)"
  unfolding flow_inv_def update_flow_def
  by (auto simp: signals_parts map_of_delete map_of_set alternates_Cons latest_Cons split: option.splits)

lemma flow_inv_release: "flow_inv s \<Longrightarrow> flow_inv (release now j s)"
  unfolding flow_inv_def release_def isPaused_map_of
  by (auto simp: signals_parts map_of_delete alternates_Cons latest_Cons split: option.splits)

lemma flow_inv_run: "flow_inv (flow_run evs)"
proof -
  have "flow_inv s \<Longrightarrow> flow_inv (fold (release now) js s)" for now js s
    by (induction js arbitrary: s) (auto intro: flow_inv_release)
  then have "flow_inv s \<Longrightarrow> flow_inv (flow_step e s)" for e s
    by (cases e) (auto simp: flow_inv_update flow_inv_release releaseAll_def)
  moreover have "flow_inv new_flow"
    by (simp add: flow_inv_def new_flow_def signals_of_def latest_pause_def)
  ultimately have "flow_inv (fold flow_step evs new_flow)"
    by (induction evs rule: rev_induct) auto
  then show ?thesis by (simp add: flow_run_def)
qed

subsection \<open>The session\<close>

text \<open>
  The state of a session that decides about the pause: \<open>ps_reading\<close> is whether its terminal is
  read, \<open>ps_failsafe\<close> when the failsafe timer fires.
\<close>

definition PRODUCER_PAUSE_FAILSAFE_MS :: int where
  "PRODUCER_PAUSE_FAILSAFE_MS = 5000"

record producer =
  ps_exited :: bool
  ps_disposed :: bool
  ps_terminating :: bool
  ps_clients :: "nat list"
  ps_producerPaused :: bool
  ps_failsafe :: "int option"
  ps_reading :: bool

definition new_producer :: producer where
  "new_producer = \<lparr>ps_exited = False, ps_disposed = False, ps_terminating = False, ps_clients = [],
     ps_producerPaused = False, ps_failsafe = None, ps_reading = True\<rparr>"

definition pauseProducer :: "int \<Rightarrow> producer \<Rightarrow> producer" where
  "pauseProducer now s =
     (if ps_exited s \<or> ps_disposed s then s
      else s\<lparr>ps_producerPaused := True, ps_reading := False,
             ps_failsafe := Some (now + PRODUCER_PAUSE_FAILSAFE_MS)\<rparr>)"

definition failsafe_fires :: "producer \<Rightarrow> producer" where
  "failsafe_fires s = s\<lparr>ps_failsafe := None, ps_producerPaused := False, ps_reading := True\<rparr>"

definition releaseProducerPause :: "bool \<Rightarrow> producer \<Rightarrow> producer" where
  "releaseProducerPause resume s0 =
     (let s = s0\<lparr>ps_failsafe := None\<rparr>
      in if \<not> ps_producerPaused s then s
         else (let s1 = s\<lparr>ps_producerPaused := False\<rparr>
               in if resume then s1\<lparr>ps_reading := True\<rparr> else s1))"

definition resumeProducer :: "producer \<Rightarrow> producer" where
  "resumeProducer = releaseProducerPause True"

definition ps_kill :: "producer \<Rightarrow> producer" where
  "ps_kill s = (if ps_exited s \<or> ps_terminating s then s
     else releaseProducerPause True (s\<lparr>ps_terminating := True\<rparr>))"

definition ps_attachClient :: "nat \<Rightarrow> producer \<Rightarrow> producer" where
  "ps_attachClient token s = s\<lparr>ps_clients := ps_clients s @ [token]\<rparr>"

definition ps_detachClient :: "nat \<Rightarrow> producer \<Rightarrow> producer" where
  "ps_detachClient token s0 =
     (let s = s0\<lparr>ps_clients := remove1 token (ps_clients s0)\<rparr>
      in if ps_clients s = [] then releaseProducerPause True s else s)"

definition ps_detachAllClients :: "producer \<Rightarrow> producer" where
  "ps_detachAllClients s = releaseProducerPause True (s\<lparr>ps_clients := []\<rparr>)"

definition ps_teardown :: "producer \<Rightarrow> producer" where
  "ps_teardown s = (if ps_disposed s then s
     else releaseProducerPause True (s\<lparr>ps_disposed := True\<rparr>))"

definition ps_exit :: "producer \<Rightarrow> producer" where
  "ps_exit s = (if ps_disposed s then s
     else releaseProducerPause False (s\<lparr>ps_exited := True\<rparr>))"

datatype producer_event =
    Ps_pause int | Ps_resume | Ps_failsafe int | Ps_kill | Ps_attach nat | Ps_detach nat
  | Ps_detach_all | Ps_teardown | Ps_exit

text \<open>The timer fires only when it is due.\<close>

fun producer_step :: "producer_event \<Rightarrow> producer \<Rightarrow> producer" where
  "producer_step (Ps_pause now) s = pauseProducer now s"
| "producer_step Ps_resume s = resumeProducer s"
| "producer_step (Ps_failsafe now) s =
     (case ps_failsafe s of Some due \<Rightarrow> if due \<le> now then failsafe_fires s else s | None \<Rightarrow> s)"
| "producer_step Ps_kill s = ps_kill s"
| "producer_step (Ps_attach token) s = ps_attachClient token s"
| "producer_step (Ps_detach token) s = ps_detachClient token s"
| "producer_step Ps_detach_all s = ps_detachAllClients s"
| "producer_step Ps_teardown s = ps_teardown s"
| "producer_step Ps_exit s = ps_exit s"

definition producer_run :: "producer_event list \<Rightarrow> producer" where
  "producer_run evs = fold producer_step evs new_producer"

text \<open>A terminal that is not read has a timer from a pause, unless its process is gone.\<close>

definition armed :: "int set \<Rightarrow> producer \<Rightarrow> bool" where
  "armed T s = ((\<not> ps_reading s \<longrightarrow> ps_exited s \<or> ps_producerPaused s)
     \<and> (ps_producerPaused s \<longrightarrow> (\<exists>t\<in>T. ps_failsafe s = Some (t + PRODUCER_PAUSE_FAILSAFE_MS))))"

lemma armed_step:
  "armed T s \<Longrightarrow> (\<And>t. e = Ps_pause t \<Longrightarrow> t \<in> T) \<Longrightarrow> armed T (producer_step e s)"
  by (cases e)
     (auto simp: armed_def pauseProducer_def failsafe_fires_def releaseProducerPause_def
       resumeProducer_def ps_kill_def ps_attachClient_def ps_detachClient_def ps_detachAllClients_def
       ps_teardown_def ps_exit_def Let_def split: option.splits)

lemma armed_new: "armed T new_producer"
  by (simp add: armed_def new_producer_def)

lemma armed_run: "armed {t. Ps_pause t \<in> set evs} (producer_run evs)"
proof -
  have "set evs' \<subseteq> set evs \<Longrightarrow> armed {t. Ps_pause t \<in> set evs} (fold producer_step evs' new_producer)" for evs'
    by (induction evs' rule: rev_induct)
       (auto intro: armed_step armed_new)
  then show ?thesis by (simp add: producer_run_def)
qed

subsection \<open>End to end\<close>

text \<open>A pause is signalled at a time only for a report above HIGH at that time.\<close>

lemma pause_update:
  "(True, t) \<in> set (signals_of i (update_flow now j n s)) \<Longrightarrow>
   (True, t) \<in> set (signals_of i s) \<or> j = i \<and> now = t \<and> n > PRODUCER_FLOW_HIGH_WATERMARK_CHARS"
  by (simp add: update_flow_def signals_parts split: option.splits if_splits) blast+

lemma pause_release:
  "(True, t) \<in> set (signals_of i (release now j s)) \<Longrightarrow> (True, t) \<in> set (signals_of i s)"
  by (auto simp: release_def signals_parts split: if_splits)

lemma pause_releaseAll:
  "(True, t) \<in> set (signals_of i (releaseAll now s)) \<Longrightarrow> (True, t) \<in> set (signals_of i s)"
proof -
  have "(True, t) \<in> set (signals_of i (fold (release now) js s)) \<Longrightarrow> (True, t) \<in> set (signals_of i s)" for js
    by (induction js arbitrary: s) (auto dest: pause_release)
  then show "(True, t) \<in> set (signals_of i (releaseAll now s)) \<Longrightarrow> (True, t) \<in> set (signals_of i s)"
    unfolding releaseAll_def by blast
qed

lemma pause_reported:
  "(True, t) \<in> set (signals_of i (flow_run evs)) \<Longrightarrow>
   \<exists>n. Flow_update t i n \<in> set evs \<and> n > PRODUCER_FLOW_HIGH_WATERMARK_CHARS"
proof (induction evs rule: rev_induct)
  case Nil
  then show ?case by (simp add: flow_run_def new_flow_def signals_of_def)
next
  case (snoc e evs)
  have "(True, t) \<in> set (signals_of i (flow_step e (flow_run evs)))"
    using snoc.prems by (simp add: flow_run_def)
  then have "(True, t) \<in> set (signals_of i (flow_run evs))
      \<or> (\<exists>n. e = Flow_update t i n \<and> n > PRODUCER_FLOW_HIGH_WATERMARK_CHARS)"
  proof (cases e)
    case (Flow_update now j n)
    with \<open>(True, t) \<in> set (signals_of i (flow_step e (flow_run evs)))\<close> show ?thesis
      using pause_update [of t i now j n "flow_run evs"] by auto
  qed (auto dest: pause_release pause_releaseAll)
  with snoc.IH show ?case by auto
qed

text \<open>
  C18. Whatever signals of the controller reach the session, in whatever order and however many are
  lost, and whatever else happens to it: when the terminal of a live process is not being read,
  the main process had reported more than HIGH for it at the time \<open>t\<close> of a pause, and the
  failsafe timer is armed for exactly five seconds after \<open>t\<close> and makes it be read again.
\<close>

theorem producer_not_wedged:
  assumes "\<And>t. Ps_pause t \<in> set pevs \<Longrightarrow> (True, t) \<in> set (signals_of i (flow_run evs))"
    and "\<not> ps_reading (producer_run pevs)" and "\<not> ps_exited (producer_run pevs)"
  shows "\<exists>t n. Flow_update t i n \<in> set evs \<and> n > PRODUCER_FLOW_HIGH_WATERMARK_CHARS
    \<and> ps_failsafe (producer_run pevs) = Some (t + PRODUCER_PAUSE_FAILSAFE_MS)
    \<and> ps_reading (producer_step (Ps_failsafe (t + PRODUCER_PAUSE_FAILSAFE_MS)) (producer_run pevs))"
proof -
  have "armed {t. Ps_pause t \<in> set pevs} (producer_run pevs)" by (rule armed_run)
  with assms(2,3) obtain t where t: "Ps_pause t \<in> set pevs"
      "ps_failsafe (producer_run pevs) = Some (t + PRODUCER_PAUSE_FAILSAFE_MS)"
    unfolding armed_def by auto
  with pause_reported [OF assms(1)] show ?thesis by (force simp: failsafe_fires_def)
qed

definition flood :: "flow_event list" where
  "flood = [Flow_update 100 (js ''pty'') 300000, Flow_update 5200 (js ''pty'') 400000]"

theorem producer_not_wedged_witness:
  "\<exists>t n. Flow_update t (js ''pty'') n \<in> set flood \<and> n > PRODUCER_FLOW_HIGH_WATERMARK_CHARS
    \<and> ps_failsafe (producer_run [Ps_attach 1, Ps_pause 5200]) = Some (t + PRODUCER_PAUSE_FAILSAFE_MS)
    \<and> ps_reading (producer_step (Ps_failsafe (t + PRODUCER_PAUSE_FAILSAFE_MS))
        (producer_run [Ps_attach 1, Ps_pause 5200]))"
proof (rule producer_not_wedged)
  show "(True, t) \<in> set (signals_of (js ''pty'') (flow_run flood))"
    if "Ps_pause t \<in> set [Ps_attach 1, Ps_pause 5200]" for t
    using that
    by (simp add: flood_def flow_run_def update_flow_def new_flow_def signals_of_def signal_def
        set_pausedAt_def PRODUCER_FLOW_HIGH_WATERMARK_CHARS_def PRODUCER_FLOW_LOW_WATERMARK_CHARS_def
        PRODUCER_PAUSE_REASSERT_INTERVAL_MS_def)
qed (simp_all add: producer_run_def pauseProducer_def ps_attachClient_def new_producer_def)

text \<open>
  The signals of each terminal alternate: the first is a pause, a resume is sent exactly once
  for a pause, a pause is repeated only five seconds or more after the last, and a terminal counts
  as paused exactly while its latest signal is a pause.
\<close>

lemma flow_signals:
  "alternates (signals_of i (flow_run evs))
   \<and> isPaused i (flow_run evs) = (latest_pause (signals_of i (flow_run evs)) \<noteq> None)"
  using flow_inv_run [of evs] unfolding flow_inv_def isPaused_map_of by simp

end
