(* ===== verification/Git_Exec.thy ===== *)
theory Git_Exec
  imports Prelude
begin

section \<open>Which git commands a client may run\<close>

text \<open>
  \<open>src/src/relay/git-exec-validator.ts\<close>: the check of the relay's \<open>git.exec\<close> handler. The
  properties say what every accepted command line looks like, for any arguments.
\<close>

definition ALLOWED_GIT_SUBCOMMANDS :: "jsstr list" where
  "ALLOWED_GIT_SUBCOMMANDS = map js [''rev-parse'', ''branch'', ''log'', ''show-ref'', ''ls-remote'',
     ''remote'', ''symbolic-ref'', ''merge-base'', ''diff'', ''ls-files'', ''clone'', ''init'', ''commit'',
     ''for-each-ref'', ''check-ref-format'', ''config'']"

definition CONFIG_READ_ONLY_FLAGS :: "jsstr list" where
  "CONFIG_READ_ONLY_FLAGS = map js [''--get'', ''--get-all'', ''--list'', ''--get-regexp'', ''-l'']"

definition CONFIG_WRITE_FLAGS :: "jsstr list" where
  "CONFIG_WRITE_FLAGS = map js [''--add'', ''--unset'', ''--unset-all'', ''--replace-all'',
     ''--rename-section'', ''--remove-section'', ''--edit'', ''-e'', ''--file'', ''-f'', ''--global'', ''--system'']"

definition BRANCH_DESTRUCTIVE_FLAGS :: "jsstr list" where
  "BRANCH_DESTRUCTIVE_FLAGS = map js [''-d'', ''-D'', ''--delete'', ''-m'', ''-M'', ''--move'', ''-c'', ''-C'', ''--copy'']"

definition GLOBAL_DENIED_FLAGS :: "jsstr list" where
  "GLOBAL_DENIED_FLAGS = map js [''--output'', ''-o'', ''--exec-path'', ''--work-tree'', ''--git-dir'']"

definition REMOTE_WRITE_SUBCOMMANDS :: "jsstr list" where
  "REMOTE_WRITE_SUBCOMMANDS = map js [''add'', ''remove'', ''rm'', ''rename'', ''set-head'', ''set-branches'',
     ''set-url'', ''prune'', ''update'']"

definition SYMBOLIC_REF_WRITE_FLAGS :: "jsstr list" where
  "SYMBOLIC_REF_WRITE_FLAGS = map js [''-d'', ''--delete'', ''-m'']"

definition DIFF_ALLOWED_FLAGS :: "jsstr list" where
  "DIFF_ALLOWED_FLAGS = map js [''--cached'', ''--staged'', ''--name-status'', ''--patch'', ''--minimal'',
     ''--no-color'', ''--no-ext-diff'']"

datatype exec_error =
    Clone_shape | Clone_target | Init_shape | Commit_shape | Flags_before_subcommand
  | Subcommand_not_allowed "jsstr option" | Dangerous_flags | Config_not_read_only | Config_write
  | Branch_destructive | Remote_destructive | Symbolic_ref_write | Diff_not_staged | Diff_flag jsstr

definition dash_first :: "jsstr \<Rightarrow> bool" where
  "dash_first a = (case a of u # _ \<Rightarrow> u = 45 | [] \<Rightarrow> False)"

definition validateCloneArgs :: "jsstr list \<Rightarrow> exec_error option" where
  "validateCloneArgs args =
     (let allowed = (if 1 < length args \<and> args ! 1 = js ''--progress'' then drop 2 args else drop 1 args)
      in case allowed of
           [dashes, url, targetDir] \<Rightarrow>
             if dashes \<noteq> js ''--'' then Some Clone_shape
             else if targetDir = [] \<or> targetDir = js ''.'' \<or> targetDir = js ''..''
                  \<or> 47 \<in> set targetDir \<or> 92 \<in> set targetDir \<or> 0 \<in> set targetDir
             then Some Clone_target else None
         | _ \<Rightarrow> Some Clone_shape)"

definition validateInitArgs :: "jsstr list \<Rightarrow> exec_error option" where
  "validateInitArgs args = (if length args \<noteq> 1 then Some Init_shape else None)"

definition validateCommitArgs :: "jsstr list \<Rightarrow> exec_error option" where
  "validateCommitArgs args = (case args of
     [c, flag, m, message] \<Rightarrow>
       if flag \<noteq> js ''--allow-empty'' \<or> m \<noteq> js ''-m'' \<or> message = [] then Some Commit_shape else None
   | _ \<Rightarrow> Some Commit_shape)"

text \<open>\<open>arg.slice(0, arg.indexOf('='))\<close>, when there is a \<open>=\<close> that is not first.\<close>

definition matchesDeniedFlag :: "jsstr \<Rightarrow> jsstr list \<Rightarrow> bool" where
  "matchesDeniedFlag arg denySet =
     (if arg \<in> set denySet then True
      else if 61 \<in> set arg \<and> 0 < length (takeWhile (\<lambda>u. u \<noteq> 61) arg)
      then takeWhile (\<lambda>u. u \<noteq> 61) arg \<in> set denySet
      else False)"

text \<open>The checks after the subcommand is known, one for each subcommand that has one.\<close>

definition validateConfig :: "jsstr list \<Rightarrow> exec_error option" where
  "validateConfig rest =
     (if \<not> list_ex (\<lambda>a. a \<in> set CONFIG_READ_ONLY_FLAGS) rest then Some Config_not_read_only
      else if list_ex (\<lambda>a. matchesDeniedFlag a CONFIG_WRITE_FLAGS) rest then Some Config_write
      else None)"

definition validateBranch :: "jsstr list \<Rightarrow> exec_error option" where
  "validateBranch rest =
     (if list_ex (\<lambda>a. matchesDeniedFlag a BRANCH_DESTRUCTIVE_FLAGS) rest then Some Branch_destructive else None)"

definition validateRemote :: "jsstr list \<Rightarrow> exec_error option" where
  "validateRemote rest = (case find (\<lambda>a. \<not> dash_first a) rest of
     None \<Rightarrow> None
   | Some remoteSubcmd \<Rightarrow>
       if remoteSubcmd \<noteq> [] \<and> remoteSubcmd \<in> set REMOTE_WRITE_SUBCOMMANDS then Some Remote_destructive
       else None)"

definition validateSymbolicRef :: "jsstr list \<Rightarrow> exec_error option" where
  "validateSymbolicRef rest =
     (if list_ex (\<lambda>a. matchesDeniedFlag a SYMBOLIC_REF_WRITE_FLAGS) rest then Some Symbolic_ref_write
      else if 2 \<le> length (filter (\<lambda>a. \<not> dash_first a) rest) then Some Symbolic_ref_write
      else None)"

text \<open>An unsupported argument that is the empty string is not reported, since it is falsy.\<close>

definition validateDiff :: "jsstr list \<Rightarrow> exec_error option" where
  "validateDiff rest =
     (if \<not> list_ex (\<lambda>a. a = js ''--cached'' \<or> a = js ''--staged'') rest then Some Diff_not_staged
      else (case find (\<lambda>a. a \<notin> set DIFF_ALLOWED_FLAGS) rest of
              None \<Rightarrow> None
            | Some unsupportedArg \<Rightarrow> if unsupportedArg = [] then None else Some (Diff_flag unsupportedArg)))"

definition validateGitExecArgs :: "jsstr list \<Rightarrow> exec_error option" where
  "validateGitExecArgs args =
     (if takeWhile dash_first args \<noteq> [] then Some Flags_before_subcommand
      else (case args of
              [] \<Rightarrow> Some (Subcommand_not_allowed None)
            | subcommand # restArgs \<Rightarrow>
                if subcommand = [] \<or> subcommand \<notin> set ALLOWED_GIT_SUBCOMMANDS
                then Some (Subcommand_not_allowed (Some subcommand))
                else if list_ex (\<lambda>a. matchesDeniedFlag a GLOBAL_DENIED_FLAGS) restArgs
                then Some Dangerous_flags
                else if subcommand = js ''config'' then validateConfig restArgs
                else if subcommand = js ''init'' then validateInitArgs args
                else if subcommand = js ''commit'' then validateCommitArgs args
                else if subcommand = js ''branch'' then validateBranch restArgs
                else if subcommand = js ''remote'' then validateRemote restArgs
                else if subcommand = js ''symbolic-ref'' then validateSymbolicRef restArgs
                else if subcommand = js ''diff'' then validateDiff restArgs
                else if subcommand = js ''clone'' then validateCloneArgs args
                else None))"
subsection \<open>What is accepted\<close>

text \<open>\<open>flag_or_value f a\<close>: the argument is the flag, or the flag with a value after \<open>=\<close>.\<close>

definition flag_or_value :: "jsstr \<Rightarrow> jsstr \<Rightarrow> bool" where
  "flag_or_value f a = (a = f \<or> (\<exists>v. a = f @ 61 # v))"

lemma takeWhile_value: "61 \<notin> set f \<Longrightarrow> takeWhile (\<lambda>u. u \<noteq> 61) (f @ 61 # v) = f"
  by (induction f) auto

lemma matchesDeniedFlag_iff:
  assumes "\<And>f. f \<in> set denySet \<Longrightarrow> f \<noteq> [] \<and> 61 \<notin> set f"
  shows "matchesDeniedFlag a denySet \<longleftrightarrow> (\<exists>f\<in>set denySet. flag_or_value f a)"
proof
  assume m: "matchesDeniedFlag a denySet"
  show "\<exists>f\<in>set denySet. flag_or_value f a"
  proof (cases "a \<in> set denySet")
    case False
    with m have "takeWhile (\<lambda>u. u \<noteq> 61) a \<in> set denySet" and "61 \<in> set a"
      by (auto simp: matchesDeniedFlag_def split: if_splits)
    moreover from \<open>61 \<in> set a\<close> obtain f v where "a = f @ 61 # v" "61 \<notin> set f"
      by (meson split_list_first)
    ultimately show ?thesis by (auto simp: flag_or_value_def takeWhile_value)
  qed (auto simp: flag_or_value_def)
next
  assume "\<exists>f\<in>set denySet. flag_or_value f a"
  then obtain f where "f \<in> set denySet" "flag_or_value f a" by blast
  with assms [of f] show "matchesDeniedFlag a denySet"
    by (auto simp: matchesDeniedFlag_def flag_or_value_def takeWhile_value)
qed

lemma deny_sets_plain:
  "f \<in> set GLOBAL_DENIED_FLAGS \<Longrightarrow> f \<noteq> [] \<and> 61 \<notin> set f"
  "f \<in> set CONFIG_WRITE_FLAGS \<Longrightarrow> f \<noteq> [] \<and> 61 \<notin> set f"
  "f \<in> set BRANCH_DESTRUCTIVE_FLAGS \<Longrightarrow> f \<noteq> [] \<and> 61 \<notin> set f"
  "f \<in> set SYMBOLIC_REF_WRITE_FLAGS \<Longrightarrow> f \<noteq> [] \<and> 61 \<notin> set f"
proof -
  have "list_all (\<lambda>f. f \<noteq> [] \<and> 61 \<notin> set f)
      (GLOBAL_DENIED_FLAGS @ CONFIG_WRITE_FLAGS @ BRANCH_DESTRUCTIVE_FLAGS @ SYMBOLIC_REF_WRITE_FLAGS)"
    by code_simp
  then show
    "f \<in> set GLOBAL_DENIED_FLAGS \<Longrightarrow> f \<noteq> [] \<and> 61 \<notin> set f"
    "f \<in> set CONFIG_WRITE_FLAGS \<Longrightarrow> f \<noteq> [] \<and> 61 \<notin> set f"
    "f \<in> set BRANCH_DESTRUCTIVE_FLAGS \<Longrightarrow> f \<noteq> [] \<and> 61 \<notin> set f"
    "f \<in> set SYMBOLIC_REF_WRITE_FLAGS \<Longrightarrow> f \<noteq> [] \<and> 61 \<notin> set f"
    by (auto simp: list_all_iff)
qed

lemmas denied_iff = deny_sets_plain [THEN matchesDeniedFlag_iff]

lemma allowed_not_dash: "sub \<in> set ALLOWED_GIT_SUBCOMMANDS \<Longrightarrow> sub \<noteq> [] \<and> \<not> dash_first sub"
proof -
  have "list_all (\<lambda>sub. sub \<noteq> [] \<and> \<not> dash_first sub) ALLOWED_GIT_SUBCOMMANDS" by code_simp
  then show "sub \<in> set ALLOWED_GIT_SUBCOMMANDS \<Longrightarrow> sub \<noteq> [] \<and> \<not> dash_first sub"
    by (auto simp: list_all_iff)
qed

text \<open>The checks of one subcommand.\<close>

definition validate_subcommand :: "jsstr \<Rightarrow> jsstr list \<Rightarrow> exec_error option" where
  "validate_subcommand sub rest =
     (if sub = js ''config'' then validateConfig rest
      else if sub = js ''init'' then validateInitArgs (sub # rest)
      else if sub = js ''commit'' then validateCommitArgs (sub # rest)
      else if sub = js ''branch'' then validateBranch rest
      else if sub = js ''remote'' then validateRemote rest
      else if sub = js ''symbolic-ref'' then validateSymbolicRef rest
      else if sub = js ''diff'' then validateDiff rest
      else if sub = js ''clone'' then validateCloneArgs (sub # rest)
      else None)"

lemma accepted_Cons:
  "validateGitExecArgs (sub # rest) = None \<longleftrightarrow>
     sub \<in> set ALLOWED_GIT_SUBCOMMANDS \<and> \<not> list_ex (\<lambda>a. matchesDeniedFlag a GLOBAL_DENIED_FLAGS) rest
     \<and> validate_subcommand sub rest = None"
  using allowed_not_dash [of sub]
  by (auto simp: validateGitExecArgs_def validate_subcommand_def)

lemma accepted_Nil: "validateGitExecArgs [] \<noteq> None"
  by (simp add: validateGitExecArgs_def)
text \<open>An argument that neither is a flag of the set nor gives one a value.\<close>

definition without :: "jsstr list \<Rightarrow> jsstr \<Rightarrow> bool" where
  "without flags a = (\<not> (\<exists>f\<in>set flags. flag_or_value f a))"

definition single_segment :: "jsstr \<Rightarrow> bool" where
  "single_segment d = (d \<noteq> [] \<and> d \<noteq> js ''.'' \<and> d \<noteq> js ''..'' \<and> set d \<inter> {47, 92, 0} = {})"

lemma no_denied:
  "\<not> list_ex (\<lambda>a. matchesDeniedFlag a GLOBAL_DENIED_FLAGS) rest \<longleftrightarrow> list_all (without GLOBAL_DENIED_FLAGS) rest"
  by (simp add: list_ex_iff list_all_iff without_def denied_iff)

lemma clone_None:
  "validateCloneArgs (c # rest) = None \<longleftrightarrow>
     (\<exists>url dir. (rest = [js ''--'', url, dir] \<or> rest = [js ''--progress'', js ''--'', url, dir])
        \<and> single_segment dir)"
  (is "?L \<longleftrightarrow> ?R")
proof
  assume ?L
  then obtain url dir where
    "(if rest \<noteq> [] \<and> hd rest = js ''--progress'' then tl rest else rest) = [js ''--'', url, dir]"
    and "single_segment dir"
    by (cases rest)
       (auto simp: validateCloneArgs_def single_segment_def Let_def split: list.splits if_splits)
  then show ?R by (cases rest) (auto split: if_splits)
next
  assume ?R
  then show ?L by (auto simp: validateCloneArgs_def single_segment_def)
qed

lemma commit_None:
  "validateCommitArgs (c # rest) = None \<longleftrightarrow>
     (\<exists>message. rest = [js ''--allow-empty'', js ''-m'', message] \<and> message \<noteq> [])"
  by (auto simp: validateCommitArgs_def split: list.splits if_splits)

lemma flags_without:
  "list_all (without GLOBAL_DENIED_FLAGS) (map js [''--'', ''--progress'', ''--allow-empty'', ''-m''])"
  unfolding no_denied [symmetric] by code_simp

text \<open>
  C27. Of the commands that write, \<open>init\<close>, \<open>commit\<close> and \<open>clone\<close>, exactly these are accepted:
  \<open>init\<close>, \<open>commit --allow-empty -m message\<close> with a message, and \<open>clone [--progress] -- url dir\<close>
  where \<open>dir\<close> is one path segment that is not \<open>.\<close> or \<open>..\<close>; and none of their words is one of the
  flags denied everywhere, with or without a value.
\<close>

theorem exec_write_shapes:
  "(validateGitExecArgs args = None \<and> (\<exists>rest. args \<in> {js ''init'' # rest, js ''commit'' # rest, js ''clone'' # rest}))
   \<longleftrightarrow> args = [js ''init'']
     \<or> (\<exists>message. args = [js ''commit'', js ''--allow-empty'', js ''-m'', message]
          \<and> message \<noteq> [] \<and> without GLOBAL_DENIED_FLAGS message)
     \<or> (\<exists>url dir. args \<in> {[js ''clone'', js ''--'', url, dir], [js ''clone'', js ''--progress'', js ''--'', url, dir]}
          \<and> single_segment dir \<and> without GLOBAL_DENIED_FLAGS url \<and> without GLOBAL_DENIED_FLAGS dir)"
proof -
  have subs: "js ''init'' \<in> set ALLOWED_GIT_SUBCOMMANDS" "js ''commit'' \<in> set ALLOWED_GIT_SUBCOMMANDS"
    "js ''clone'' \<in> set ALLOWED_GIT_SUBCOMMANDS"
    by code_simp+
  have parts: "validate_subcommand (js ''init'') rest = validateInitArgs (js ''init'' # rest)"
    "validate_subcommand (js ''commit'') rest = validateCommitArgs (js ''commit'' # rest)"
    "validate_subcommand (js ''clone'') rest = validateCloneArgs (js ''clone'' # rest)" for rest
    by (simp_all add: validate_subcommand_def)
  have init: "validateGitExecArgs (js ''init'' # rest) = None \<longleftrightarrow> rest = []" for rest
    unfolding accepted_Cons parts no_denied using subs by (auto simp: validateInitArgs_def)
  have commit: "validateGitExecArgs (js ''commit'' # rest) = None \<longleftrightarrow>
      (\<exists>message. rest = [js ''--allow-empty'', js ''-m'', message]
         \<and> message \<noteq> [] \<and> without GLOBAL_DENIED_FLAGS message)" for rest
    unfolding accepted_Cons parts no_denied commit_None using subs flags_without
    by (auto simp del: js.simps)
  have clone: "validateGitExecArgs (js ''clone'' # rest) = None \<longleftrightarrow>
      (\<exists>url dir. (rest = [js ''--'', url, dir] \<or> rest = [js ''--progress'', js ''--'', url, dir])
         \<and> single_segment dir \<and> without GLOBAL_DENIED_FLAGS url \<and> without GLOBAL_DENIED_FLAGS dir)" for rest
    unfolding accepted_Cons parts no_denied clone_None using subs flags_without
    by (auto simp del: js.simps)
  show ?thesis
    by (cases args) (auto simp: init commit clone simp del: js.simps)
qed
lemma remote_None:
  "validateRemote rest = None \<longleftrightarrow>
     set (take 1 (filter (\<lambda>a. \<not> dash_first a) rest)) \<inter> set REMOTE_WRITE_SUBCOMMANDS = {}"
proof (induction rest)
  case (Cons a rest)
  have "[] \<notin> set REMOTE_WRITE_SUBCOMMANDS" by code_simp
  with Cons show ?case
    by (cases "dash_first a") (auto simp: validateRemote_def split: if_splits)
qed (simp add: validateRemote_def)

text \<open>The first word that is not listed is empty or there is none.\<close>

lemma find_unlisted:
  "[] \<notin> set D \<Longrightarrow> (case find (\<lambda>a. a \<notin> set D) xs of None \<Rightarrow> True | Some w \<Rightarrow> w = []) \<longleftrightarrow>
     (if [] \<in> set xs then set (takeWhile (\<lambda>a. a \<noteq> []) xs) \<subseteq> set D else set xs \<subseteq> set D)"
  by (induction xs) auto

lemma diff_None:
  "validateDiff rest = None \<longleftrightarrow> (js ''--cached'' \<in> set rest \<or> js ''--staged'' \<in> set rest)
    \<and> set (if [] \<in> set rest then takeWhile (\<lambda>a. a \<noteq> []) rest else rest) \<subseteq> set DIFF_ALLOWED_FLAGS"
proof -
  have "[] \<notin> set DIFF_ALLOWED_FLAGS" by code_simp
  from find_unlisted [OF this, of rest, symmetric] show ?thesis
    by (auto simp: validateDiff_def list_ex_iff split: option.splits simp del: js.simps)
qed

lemma config_None:
  "validateConfig rest = None \<longleftrightarrow> set rest \<inter> set CONFIG_READ_ONLY_FLAGS \<noteq> {}
     \<and> list_all (without CONFIG_WRITE_FLAGS) rest"
  by (auto simp: validateConfig_def list_ex_iff list_all_iff without_def denied_iff)

lemma branch_None:
  "validateBranch rest = None \<longleftrightarrow> list_all (without BRANCH_DESTRUCTIVE_FLAGS) rest"
  by (auto simp: validateBranch_def list_ex_iff list_all_iff without_def denied_iff)

lemma symbolic_ref_None:
  "validateSymbolicRef rest = None \<longleftrightarrow> list_all (without SYMBOLIC_REF_WRITE_FLAGS) rest
     \<and> length (filter (\<lambda>a. \<not> dash_first a) rest) \<le> 1"
  by (auto simp: validateSymbolicRef_def list_ex_iff list_all_iff without_def denied_iff)

lemma subcommand_sets:
  "sub \<in> set ALLOWED_GIT_SUBCOMMANDS \<longleftrightarrow> sub \<in> {js ''init'', js ''commit'', js ''clone''} \<or>
     sub \<in> set (map js [''rev-parse'', ''branch'', ''log'', ''show-ref'', ''ls-remote'', ''remote'',
       ''symbolic-ref'', ''merge-base'', ''diff'', ''ls-files'', ''for-each-ref'', ''check-ref-format'', ''config''])"
  unfolding ALLOWED_GIT_SUBCOMMANDS_def list.map(2) list.map(1) list.set insert_iff empty_iff by blast

lemma reading_subcommands:
  "sub \<in> set (map js [''rev-parse'', ''branch'', ''log'', ''show-ref'', ''ls-remote'', ''remote'',
     ''symbolic-ref'', ''merge-base'', ''diff'', ''ls-files'', ''for-each-ref'', ''check-ref-format'', ''config''])
   \<Longrightarrow> sub \<notin> {js ''init'', js ''commit'', js ''clone''}"
proof -
  have "list_all (\<lambda>sub. sub \<notin> {js ''init'', js ''commit'', js ''clone''})
     (map js [''rev-parse'', ''branch'', ''log'', ''show-ref'', ''ls-remote'', ''remote'',
     ''symbolic-ref'', ''merge-base'', ''diff'', ''ls-files'', ''for-each-ref'', ''check-ref-format'', ''config''])"
    by code_simp
  then show "sub \<in> set (map js [''rev-parse'', ''branch'', ''log'', ''show-ref'', ''ls-remote'', ''remote'',
     ''symbolic-ref'', ''merge-base'', ''diff'', ''ls-files'', ''for-each-ref'', ''check-ref-format'', ''config''])
   \<Longrightarrow> sub \<notin> {js ''init'', js ''commit'', js ''clone''}"
    unfolding list_all_iff by blast
qed

text \<open>The rules of the subcommands that only read.\<close>

definition reading_policy :: "jsstr \<Rightarrow> jsstr list \<Rightarrow> bool" where
  "reading_policy sub rest =
     (if sub = js ''config'' then
        set rest \<inter> set CONFIG_READ_ONLY_FLAGS \<noteq> {} \<and> list_all (without CONFIG_WRITE_FLAGS) rest
      else if sub = js ''branch'' then list_all (without BRANCH_DESTRUCTIVE_FLAGS) rest
      else if sub = js ''remote'' then
        set (take 1 (filter (\<lambda>a. \<not> dash_first a) rest)) \<inter> set REMOTE_WRITE_SUBCOMMANDS = {}
      else if sub = js ''symbolic-ref'' then list_all (without SYMBOLIC_REF_WRITE_FLAGS) rest
        \<and> length (filter (\<lambda>a. \<not> dash_first a) rest) \<le> 1
      else if sub = js ''diff'' then (js ''--cached'' \<in> set rest \<or> js ''--staged'' \<in> set rest)
        \<and> set (if [] \<in> set rest then takeWhile (\<lambda>a. a \<noteq> []) rest else rest) \<subseteq> set DIFF_ALLOWED_FLAGS
      else True)"

lemma reading_policy:
  "sub \<notin> {js ''init'', js ''commit'', js ''clone''} \<Longrightarrow>
   validate_subcommand sub rest = None \<longleftrightarrow> reading_policy sub rest"
  unfolding validate_subcommand_def reading_policy_def config_None [symmetric] branch_None [symmetric]
    remote_None [symmetric] symbolic_ref_None [symmetric] diff_None [symmetric]
  by (auto simp del: js.simps)

lemma ex_split: "(\<exists>sub rest. s # r = sub # rest \<and> P sub rest) = P s r"
  by blast

text \<open>
  C26. Which commands are accepted beside \<open>init\<close>, \<open>commit\<close> and \<open>clone\<close>, for any words: exactly those
  that begin with one of the thirteen subcommands, so that no global option such as \<open>-c key=value\<close>
  comes before it, and where no later word is one of the five flags denied everywhere, alone or with
  a value after \<open>=\<close>; a \<open>config\<close> has one of the five flags that read and none of the twelve that write
  or name a file; a \<open>branch\<close> has none of the nine flags that delete, move or copy; a \<open>symbolic-ref\<close> has
  none of its three flags and at most one word that is not a flag; the first such word of a \<open>remote\<close> is
  none of the nine operations that write; and a \<open>diff\<close> is of the staged changes and all its words are
  among the seven listed, or, if one of its words is empty, all the words before that.
\<close>

theorem exec_accepted_flags:
  "(validateGitExecArgs args = None
     \<and> (\<forall>rest. args \<notin> {js ''init'' # rest, js ''commit'' # rest, js ''clone'' # rest})) \<longleftrightarrow>
   (\<exists>sub rest. args = sub # rest
    \<and> sub \<in> set (map js [''rev-parse'', ''branch'', ''log'', ''show-ref'', ''ls-remote'', ''remote'',
        ''symbolic-ref'', ''merge-base'', ''diff'', ''ls-files'', ''for-each-ref'', ''check-ref-format'', ''config''])
    \<and> list_all (without (map js [''--output'', ''-o'', ''--exec-path'', ''--work-tree'', ''--git-dir''])) rest
    \<and> (if sub = js ''config'' then
          set rest \<inter> set (map js [''--get'', ''--get-all'', ''--list'', ''--get-regexp'', ''-l'']) \<noteq> {}
          \<and> list_all (without (map js [''--add'', ''--unset'', ''--unset-all'', ''--replace-all'',
              ''--rename-section'', ''--remove-section'', ''--edit'', ''-e'', ''--file'', ''-f'', ''--global'',
              ''--system''])) rest
       else if sub = js ''branch'' then
          list_all (without (map js [''-d'', ''-D'', ''--delete'', ''-m'', ''-M'', ''--move'', ''-c'', ''-C'',
              ''--copy''])) rest
       else if sub = js ''remote'' then
          set (take 1 (filter (\<lambda>a. \<not> dash_first a) rest)) \<inter> set (map js [''add'', ''remove'', ''rm'',
              ''rename'', ''set-head'', ''set-branches'', ''set-url'', ''prune'', ''update'']) = {}
       else if sub = js ''symbolic-ref'' then
          list_all (without (map js [''-d'', ''--delete'', ''-m''])) rest
          \<and> length (filter (\<lambda>a. \<not> dash_first a) rest) \<le> 1
       else if sub = js ''diff'' then (js ''--cached'' \<in> set rest \<or> js ''--staged'' \<in> set rest)
          \<and> set (if [] \<in> set rest then takeWhile (\<lambda>a. a \<noteq> []) rest else rest) \<subseteq>
            set (map js [''--cached'', ''--staged'', ''--name-status'', ''--patch'', ''--minimal'',
              ''--no-color'', ''--no-ext-diff''])
       else True))"
proof (cases args)
  case Nil
  then show ?thesis using accepted_Nil by simp
next
  case (Cons sub rest)
  have writes: "(\<forall>rest'. args \<notin> {js ''init'' # rest', js ''commit'' # rest', js ''clone'' # rest'}) \<longleftrightarrow>
      sub \<notin> {js ''init'', js ''commit'', js ''clone''}"
    unfolding Cons by (auto simp del: js.simps)
  have "(validateGitExecArgs args = None \<and> sub \<notin> {js ''init'', js ''commit'', js ''clone''}) \<longleftrightarrow>
      sub \<in> set (map js [''rev-parse'', ''branch'', ''log'', ''show-ref'', ''ls-remote'', ''remote'',
        ''symbolic-ref'', ''merge-base'', ''diff'', ''ls-files'', ''for-each-ref'', ''check-ref-format'', ''config''])
      \<and> list_all (without GLOBAL_DENIED_FLAGS) rest \<and> reading_policy sub rest"
    using reading_subcommands [of sub] reading_policy [of sub rest]
    unfolding Cons accepted_Cons no_denied subcommand_sets by blast
  then show ?thesis
    unfolding writes unfolding reading_policy_def
      GLOBAL_DENIED_FLAGS_def CONFIG_WRITE_FLAGS_def CONFIG_READ_ONLY_FLAGS_def BRANCH_DESTRUCTIVE_FLAGS_def
      SYMBOLIC_REF_WRITE_FLAGS_def REMOTE_WRITE_SUBCOMMANDS_def DIFF_ALLOWED_FLAGS_def
    unfolding Cons ex_split .
qed

text \<open>
  What the check lets through: a program to run for \<open>ls-remote\<close>, a new branch, a file for \<open>config\<close>
  written in the short form without a space, and any word after an empty one in a \<open>diff\<close>.
\<close>

lemma exec_gaps:
  "validateGitExecArgs (map js [''ls-remote'', ''--upload-pack=touch pwned'', ''.'']) = None"
  "validateGitExecArgs (map js [''branch'', ''-f'', ''main'', ''HEAD~5'']) = None"
  "validateGitExecArgs (map js [''config'', ''-f/etc/passwd'', ''--list'']) = None"
  "validateGitExecArgs (map js [''log'', ''--outpu=/tmp/x'']) = None"
  "validateGitExecArgs (map js [''diff'', ''--cached'', '''', ''--no-index'', ''/etc/passwd'', ''/dev/null'']) = None"
  by code_simp+


end
