(* ===== verification/Carry_Scanner.thy ===== *)
theory Carry_Scanner
  imports Byte_Stream "HOL-Library.Sublist"
begin

section \<open>Scanners of terminal output that carry a rest\<close>

text \<open>
  Terminal output comes in chunks cut anywhere, so a scanner for escape sequences keeps the end of
  what it has seen, if it may be the beginning of a sequence, and puts it before the next chunk.
  The rest is limited. The locale \<open>carry_scanner\<close> says that a scanner does what an incremental
  parser does that throws away one unit at a time between the sequences, except for the limit; its
  lemma \<open>scans_concat\<close> is then that the cuts do not matter as long as no rest exceeds the limit.
\<close>

text \<open>The number a string of decimal digits denotes.\<close>

definition digits_value :: "jsstr \<Rightarrow> int" where
  "digits_value ds = foldl (\<lambda>n d. 10 * n + (int d - 48)) 0 ds"

text \<open>The chunks of a stream, each after the rest of those before.\<close>

fun scans :: "('b list \<Rightarrow> 'u list \<times> 'b list) \<Rightarrow> 'b list \<Rightarrow> 'b list list \<Rightarrow> 'u list \<times> 'b list" where
  "scans scan carry [] = ([], carry)"
| "scans scan carry (c # cs) = (case scan (carry @ c) of
     (us, r) \<Rightarrow> (case scans scan r cs of (vs, r') \<Rightarrow> (us @ vs, r')))"

text \<open>After none of the chunks but the last is more than the limit left of the stream so far.\<close>

fun short_rests :: "nat \<Rightarrow> ('b list \<Rightarrow> ('u list \<times> 'b list) option) \<Rightarrow> 'b list \<Rightarrow> 'b list list \<Rightarrow> bool" where
  "short_rests limit step before (c # d # cs) =
     (length (snd (drain_all step (before @ c))) \<le> limit \<and> short_rests limit step (before @ c) (d # cs))"
| "short_rests limit step before cs = True"

locale carry_scanner = incremental_parser step
  for step :: "'b list \<Rightarrow> ('u list \<times> 'b list) option" +
  fixes scan :: "'b list \<Rightarrow> 'u list \<times> 'b list" and limit :: nat
  assumes scan_units: "fst (scan b) = concat (fst (drain_all step b))"
    and scan_rest: "length (snd (drain_all step b)) \<le> limit \<Longrightarrow> snd (scan b) = snd (drain_all step b)"
begin

lemma scan_after_rest:
  "fst (scan (b @ c)) = concat (fst (drain_all step b)) @ fst (scan (snd (drain_all step b) @ c))"
  "snd (drain_all step (b @ c)) = snd (drain_all step (snd (drain_all step b) @ c))"
proof -
  obtain us r where d: "drain_all step b = (us, r)" by (cases "drain_all step b")
  obtain vs r' where v: "drain_all step (r @ c) = (vs, r')" by (cases "drain_all step (r @ c)")
  have "drain_all step (b @ c) = (us @ vs, r')"
    using drain_all_append [OF d, of c] v by simp
  with d v show
    "fst (scan (b @ c)) = concat (fst (drain_all step b)) @ fst (scan (snd (drain_all step b) @ c))"
    "snd (drain_all step (b @ c)) = snd (drain_all step (snd (drain_all step b) @ c))"
    by (simp_all add: scan_units)
qed

lemma scans_from:
  "short_rests limit step before cs \<Longrightarrow> cs \<noteq> [] \<Longrightarrow>
   concat (fst (drain_all step before)) @ fst (scans scan (snd (drain_all step before)) cs)
   = fst (scan (before @ concat cs))"
proof (induction cs arbitrary: before)
  case (Cons c cs)
  show ?case
  proof (cases cs)
    case Nil
    then show ?thesis using scan_after_rest(1) [of before c] by (simp split: prod.split)
  next
    case (Cons d ds)
    with Cons.prems have short: "length (snd (drain_all step (before @ c))) \<le> limit"
      "short_rests limit step (before @ c) cs" by simp_all
    have "snd (scan (snd (drain_all step before) @ c)) = snd (drain_all step (before @ c))"
      using short(1) scan_rest [of "snd (drain_all step before) @ c"]
      unfolding scan_after_rest(2) [of before c] by simp
    moreover have "concat (fst (drain_all step (before @ c))) @ fst (scans scan (snd (drain_all step (before @ c))) cs)
        = fst (scan ((before @ c) @ concat cs))"
      using short(2) Cons by (intro Cons.IH) simp_all
    moreover have "concat (fst (drain_all step (before @ c)))
        = concat (fst (drain_all step before)) @ fst (scan (snd (drain_all step before) @ c))"
      using scan_after_rest(1) [of before c] by (simp add: scan_units)
    ultimately show ?thesis by (simp add: split_beta)
  qed
qed simp

lemma rest_shorter: "length (snd (drain_all step b)) \<le> length b"
proof (induction b rule: length_induct)
  case (1 b)
  show ?case
  proof (cases "step b")
    case (Some x)
    obtain u r where x: "x = (u, r)" by (cases x)
    have "length r < length b" using step_shrinks Some x by simp
    with 1 Some x show ?thesis
      by (simp add: drain_all_unfold [of b] split_beta) (meson less_le_trans not_le order.asym)
  qed (simp add: drain_all_unfold [of b])
qed

text \<open>A stream within the limit leaves no longer rest.\<close>

lemma short_stream:
  "length before + length (concat cs) \<le> limit \<Longrightarrow> short_rests limit step before cs"
proof (induction cs arbitrary: before)
  case (Cons c cs)
  have "length (snd (drain_all step (before @ c))) \<le> limit"
    using rest_shorter [of "before @ c"] Cons.prems by simp
  moreover have "short_rests limit step (before @ c) cs"
    using Cons.prems by (intro Cons.IH) simp
  ultimately show ?case by (cases cs) simp_all
qed simp

lemma scans_concat:
  assumes "step [] = None" and "short_rests limit step [] cs"
  shows "fst (scans scan [] cs) = (if cs = [] then [] else fst (scan (concat cs)))"
proof -
  have "drain_all step [] = ([], [])" using assms(1) by (simp add: drain_all_def)
  with scans_from [OF assms(2)] show ?thesis by simp
qed

end

end
