(* ===== verification/Osc_133.thy ===== *)
theory Osc_133
  imports Carry_Scanner
begin

section \<open>Shell integration marks\<close>




text \<open>\<open>s.indexOf(n)\<close>.\<close>

fun index_of_str :: "jsstr \<Rightarrow> jsstr \<Rightarrow> nat option" where
  "index_of_str n [] = (if n = [] then Some 0 else None)"
| "index_of_str n (u # s) = (if prefix n (u # s) then Some 0 else map_option Suc (index_of_str n s))"

text \<open>The search begins at the start of the payload; index and length of the terminator.\<close>

definition findOscTerminator :: "jsstr \<Rightarrow> (nat \<times> nat) option" where
  "findOscTerminator data =
     (case (index_of_str [7] data, index_of_str [0x1B, 92] data) of
        (None, None) \<Rightarrow> None
      | (Some bel, None) \<Rightarrow> Some (bel, 1)
      | (Some bel, Some st) \<Rightarrow> if bel < st then Some (bel, 1) else Some (st, 2)
      | (None, Some st) \<Rightarrow> Some (st, 2))"












subsection \<open>One sequence at a time\<close>






lemma findOscTerminator_bound: "findOscTerminator d = Some (i, l) \<Longrightarrow> 0 < l"
  by (auto simp: findOscTerminator_def split: option.splits if_splits)











subsection \<open>What is reported\<close>


































end
