(* ===== verification/Bell_Detector.thy ===== *)
theory Bell_Detector
  imports Prelude
begin

section \<open>The bell of a terminal\<close>

text \<open>
  \<open>src/src/shared/terminal-bell-detector.ts\<close>: whether a chunk of terminal output rings the bell,
  where a BEL that ends an OSC sequence does not. What rings is said of the pieces the output is made
  of, apart from the detector, which stops at the first bell of a chunk.
\<close>

record bell_state =
  bs_pendingEscape :: bool
  bs_inOsc :: bool
  bs_pendingOscEscape :: bool

definition createBellDetector :: bell_state where
  "createBellDetector = \<lparr>bs_pendingEscape = False, bs_inOsc = False, bs_pendingOscEscape = False\<rparr>"

definition reset_bell :: "bell_state \<Rightarrow> bell_state" where
  "reset_bell s = s\<lparr>bs_pendingEscape := False, bs_inOsc := False, bs_pendingOscEscape := False\<rparr>"

text \<open>One turn of the loop, and whether it returns \<open>true\<close>.\<close>

definition bell_unit :: "nat \<Rightarrow> bell_state \<Rightarrow> bell_state \<times> bool" where
  "bell_unit u s =
     (if bs_inOsc s then
        if u = 0x18 \<or> u = 0x1A then (s\<lparr>bs_inOsc := False, bs_pendingOscEscape := False\<rparr>, False)
        else if bs_pendingOscEscape s then
          if u = 92 then (s\<lparr>bs_inOsc := False, bs_pendingOscEscape := False\<rparr>, False)
          else (s\<lparr>bs_pendingOscEscape := (u = 0x1B)\<rparr>, False)
        else if u = 7 then (s\<lparr>bs_inOsc := False\<rparr>, False)
        else (s\<lparr>bs_pendingOscEscape := (u = 0x1B)\<rparr>, False)
      else if bs_pendingEscape s then
        if u = 0x18 \<or> u = 0x1A then (s\<lparr>bs_pendingEscape := False\<rparr>, False)
        else if u = 93 then
          (s\<lparr>bs_pendingEscape := False, bs_inOsc := True, bs_pendingOscEscape := False\<rparr>, False)
        else if u = 0x1B then (s\<lparr>bs_pendingEscape := True\<rparr>, False)
        else (s\<lparr>bs_pendingEscape := False\<rparr>, u = 7)
      else if u = 0x1B then (s\<lparr>bs_pendingEscape := True\<rparr>, False)
      else (s, u = 7))"

primrec bell_loop :: "jsstr \<Rightarrow> bell_state \<Rightarrow> bell_state \<times> bool" where
  "bell_loop [] s = (s, False)"
| "bell_loop (u # data) s = (case bell_unit u s of (s', rings) \<Rightarrow>
     if rings then (s', True) else bell_loop data s')"

text \<open>\<open>data.includes('\x1b]')\<close>.\<close>

fun osc_introduced :: "jsstr \<Rightarrow> bool" where
  "osc_introduced (u # v # data) = (u = 0x1B \<and> v = 93 \<or> osc_introduced (v # data))"
| "osc_introduced data = False"

definition chunkContainsBell :: "bool option \<Rightarrow> jsstr \<Rightarrow> bell_state \<Rightarrow> bell_state \<times> bool" where
  "chunkContainsBell containsOscIntroducer data s =
     (if \<not> bs_inOsc s \<and> \<not> bs_pendingEscape s \<and> 7 \<notin> set data
         \<and> \<not> (case containsOscIntroducer of Some b \<Rightarrow> b | None \<Rightarrow> osc_introduced data)
      then (s\<lparr>bs_pendingEscape := (data \<noteq> [] \<and> last data = 0x1B)\<rparr>, False)
      else bell_loop data s)"

fun bell_chunks :: "(bool option \<times> jsstr) list \<Rightarrow> bell_state \<Rightarrow> bool list" where
  "bell_chunks [] s = []"
| "bell_chunks ((hint, data) # cs) s = (case chunkContainsBell hint data s of (s', rings) \<Rightarrow>
     rings # bell_chunks cs s')"

subsection \<open>What rings\<close>

text \<open>
  Output, said with what rings in it: text without escapes, where every BEL is a bell; a sequence
  \<open>ESC ]\<close> with a body and an end, in which nothing rings; and an escape with the unit after it, which
  rings if that is a BEL. Escapes may be repeated, the last one counts. The body of an OSC sequence
  has no CAN and no SUB, no backslash after an escape, and a BEL only right after an escape.
\<close>

datatype osc_end = End_BEL | End_ST | End_CAN | End_SUB

datatype bell_piece =
    Bell_text jsstr
  | Bell_osc nat jsstr osc_end
  | Bell_escape nat nat

fun end_units :: "osc_end \<Rightarrow> jsstr" where
  "end_units End_BEL = [7]"
| "end_units End_ST = [0x1B, 92]"
| "end_units End_CAN = [0x18]"
| "end_units End_SUB = [0x1A]"

definition escapes :: "nat \<Rightarrow> jsstr" where
  "escapes k = replicate (Suc k) 0x1B"

fun bell_piece_units :: "bell_piece \<Rightarrow> jsstr" where
  "bell_piece_units (Bell_text s) = s"
| "bell_piece_units (Bell_osc k body e) = escapes k @ 93 # body @ end_units e"
| "bell_piece_units (Bell_escape k u) = escapes k @ [u]"

primrec osc_body :: "nat \<Rightarrow> jsstr \<Rightarrow> bool" where
  "osc_body before [] = True"
| "osc_body before (u # s) = (u \<noteq> 0x18 \<and> u \<noteq> 0x1A \<and> (u = 92 \<longrightarrow> before \<noteq> 0x1B)
     \<and> (u = 7 \<longrightarrow> before = 0x1B) \<and> osc_body u s)"

fun bell_piece_ok :: "bell_piece \<Rightarrow> bool" where
  "bell_piece_ok (Bell_text s) = (0x1B \<notin> set s)"
| "bell_piece_ok (Bell_osc k body e) = (osc_body 93 body \<and> (e = End_BEL \<longrightarrow> last (93 # body) \<noteq> 0x1B))"
| "bell_piece_ok (Bell_escape k u) = (u \<noteq> 0x1B \<and> u \<noteq> 93)"

text \<open>What may be left at the end of the output: escapes, or an OSC sequence without its end.\<close>

datatype bell_rest = No_rest | Rest_escape nat | Rest_osc nat jsstr

fun rest_units :: "bell_rest \<Rightarrow> jsstr" where
  "rest_units No_rest = []"
| "rest_units (Rest_escape k) = escapes k"
| "rest_units (Rest_osc k body) = escapes k @ 93 # body"

fun rest_ok :: "bell_rest \<Rightarrow> bool" where
  "rest_ok (Rest_osc k body) = osc_body 93 body"
| "rest_ok r = True"

definition bell_output :: "bell_piece list \<Rightarrow> bell_rest \<Rightarrow> jsstr" where
  "bell_output ps r = concat (map bell_piece_units ps) @ rest_units r"

text \<open>For every unit: does it ring, and is one inside a sequence after it?\<close>

fun piece_bells :: "bell_piece \<Rightarrow> (bool \<times> bool) list" where
  "piece_bells (Bell_text s) = map (\<lambda>u. (u = 7, False)) s"
| "piece_bells (Bell_osc k body e) =
     replicate (length (escapes k) + length body + length (end_units e)) (False, True) @ [(False, False)]"
| "piece_bells (Bell_escape k u) = replicate (length (escapes k)) (False, True) @ [(u = 7, False)]"

definition output_bells :: "bell_piece list \<Rightarrow> bell_rest \<Rightarrow> (bool \<times> bool) list" where
  "output_bells ps r = concat (map piece_bells ps) @ replicate (length (rest_units r)) (False, True)"

text \<open>A list cut into pieces of the lengths of the chunks.\<close>

fun cut_at :: "jsstr list \<Rightarrow> 'a list \<Rightarrow> 'a list list" where
  "cut_at [] ms = []"
| "cut_at (c # cs) ms = take (length c) ms # cut_at cs (drop (length c) ms)"

definition chunk_rings :: "(bool \<times> bool) list \<Rightarrow> bool" where
  "chunk_rings ms = list_ex fst ms"

definition rings_inside :: "(bool \<times> bool) list \<Rightarrow> bool" where
  "rings_inside ms = (list_ex fst ms \<and> snd (last ms))"

text \<open>Any output is made of such pieces and a rest.\<close>

lemma osc_body_snoc: "osc_body b (s @ [u]) \<longleftrightarrow> osc_body b s \<and> u \<noteq> 0x18 \<and> u \<noteq> 0x1A
    \<and> (u = 92 \<longrightarrow> last (b # s) \<noteq> 0x1B) \<and> (u = 7 \<longrightarrow> last (b # s) = 0x1B)"
  by (induction s arbitrary: b) auto

lemma bell_output_total: "\<exists>ps r. data = bell_output ps r \<and> list_all bell_piece_ok ps \<and> rest_ok r"
proof (induction data rule: rev_induct)
  case Nil
  have "[] = bell_output [] No_rest \<and> list_all bell_piece_ok [] \<and> rest_ok No_rest"
    by (simp add: bell_output_def)
  then show ?case by blast
next
  case (snoc u data)
  then obtain ps r where IH: "data = bell_output ps r" "list_all bell_piece_ok ps" "rest_ok r" by blast
  have piece: ?case if "rest_units r @ [u] = bell_piece_units p" "bell_piece_ok p" for p
    using IH that by (intro exI [of _ "ps @ [p]"] exI [of _ No_rest]) (simp add: bell_output_def)
  have rest: ?case if "rest_units r @ [u] = rest_units r'" "rest_ok r'" for r'
    using IH that by (intro exI [of _ ps] exI [of _ r']) (simp add: bell_output_def)
  show ?case
  proof (cases r)
    case No_rest
    show ?thesis
    proof (cases "u = 0x1B")
      case True
      with No_rest show ?thesis by (intro rest [of "Rest_escape 0"]) (simp_all add: escapes_def)
    next
      case False
      with No_rest show ?thesis by (intro piece [of "Bell_text [u]"]) simp_all
    qed
  next
    case (Rest_escape k)
    consider "u = 0x1B" | "u = 93" | "u \<noteq> 0x1B" "u \<noteq> 93" by blast
    then show ?thesis
    proof cases
      case 1
      with Rest_escape show ?thesis
        by (intro rest [of "Rest_escape (Suc k)"]) (simp_all add: escapes_def replicate_append_same)
    next
      case 2
      with Rest_escape show ?thesis by (intro rest [of "Rest_osc k []"]) simp_all
    next
      case 3
      with Rest_escape show ?thesis by (intro piece [of "Bell_escape k u"]) simp_all
    qed
  next
    case (Rest_osc k body)
    then have body: "osc_body 93 body" using IH(3) by simp
    consider "u = 0x18" | "u = 0x1A" | "u = 92" "last (93 # body) = 0x1B" | "u = 7" "last (93 # body) \<noteq> 0x1B"
      | "osc_body 93 (body @ [u])"
      using body by (auto simp: osc_body_snoc)
    then show ?thesis
    proof cases
      case 1
      with Rest_osc body show ?thesis by (intro piece [of "Bell_osc k body End_CAN"]) simp_all
    next
      case 2
      with Rest_osc body show ?thesis by (intro piece [of "Bell_osc k body End_SUB"]) simp_all
    next
      case 3
      then obtain b where b: "body = b @ [0x1B]"
        by (cases body rule: rev_cases) auto
      with body have "osc_body 93 b" by (simp add: osc_body_snoc)
      with 3 Rest_osc b show ?thesis by (intro piece [of "Bell_osc k b End_ST"]) simp_all
    next
      case 4
      with Rest_osc body show ?thesis by (intro piece [of "Bell_osc k body End_BEL"]) simp_all
    next
      case 5
      with Rest_osc show ?thesis by (intro rest [of "Rest_osc k (body @ [u])"]) simp_all
    qed
  qed
qed

subsection \<open>The detector without its shortcuts\<close>

text \<open>Of every unit: does it ring, and is the detector inside a sequence after it?\<close>

primrec bell_trace :: "jsstr \<Rightarrow> bell_state \<Rightarrow> (bool \<times> bool) list" where
  "bell_trace [] s = []"
| "bell_trace (u # data) s = (case bell_unit u s of (s', rings) \<Rightarrow>
     (rings, s' \<noteq> createBellDetector) # bell_trace data s')"

definition bell_after :: "jsstr \<Rightarrow> bell_state \<Rightarrow> bell_state" where
  "bell_after data s = fold (\<lambda>u s. fst (bell_unit u s)) data s"

lemma bell_after_simps [simp]:
  "bell_after [] s = s"
  "bell_after (u # data) s = bell_after data (fst (bell_unit u s))"
  "bell_after (a @ b) s = bell_after b (bell_after a s)"
  by (simp_all add: bell_after_def)

lemma bell_trace_append: "bell_trace (a @ b) s = bell_trace a s @ bell_trace b (bell_after a s)"
  by (induction a arbitrary: s) (simp_all add: split_beta)

lemma length_bell_trace [simp]: "length (bell_trace a s) = length a"
  by (induction a arbitrary: s) (simp_all add: split_beta)

definition in_escape :: bell_state where
  "in_escape = createBellDetector\<lparr>bs_pendingEscape := True\<rparr>"

definition in_osc :: "nat \<Rightarrow> bell_state" where
  "in_osc before = createBellDetector\<lparr>bs_inOsc := True, bs_pendingOscEscape := (before = 0x1B)\<rparr>"

lemmas bell_states = in_escape_def in_osc_def createBellDetector_def

lemma unit_ground:
  "u \<noteq> 0x1B \<Longrightarrow> bell_unit u createBellDetector = (createBellDetector, u = 7)"
  "bell_unit 0x1B createBellDetector = (in_escape, False)"
  by (simp_all add: bell_unit_def bell_states)

lemma unit_escape:
  "bell_unit 0x1B in_escape = (in_escape, False)"
  "bell_unit 93 in_escape = (in_osc 93, False)"
  "u \<noteq> 0x1B \<Longrightarrow> u \<noteq> 93 \<Longrightarrow> bell_unit u in_escape = (createBellDetector, u = 7)"
  by (auto simp: bell_unit_def bell_states)

lemma unit_osc:
  "u \<noteq> 0x18 \<Longrightarrow> u \<noteq> 0x1A \<Longrightarrow> (u = 92 \<longrightarrow> b \<noteq> 0x1B) \<Longrightarrow> (u = 7 \<longrightarrow> b = 0x1B) \<Longrightarrow>
     bell_unit u (in_osc b) = (in_osc u, False)"
  "b \<noteq> 0x1B \<Longrightarrow> bell_unit 7 (in_osc b) = (createBellDetector, False)"
  "bell_unit 92 (in_osc 0x1B) = (createBellDetector, False)"
  "bell_unit 0x18 (in_osc b) = (createBellDetector, False)"
  "bell_unit 0x1A (in_osc b) = (createBellDetector, False)"
  by (auto simp: bell_unit_def bell_states)

lemma not_ground: "in_escape \<noteq> createBellDetector" "in_osc b \<noteq> createBellDetector"
  by (simp_all add: bell_states)

lemmas bell_steps = unit_ground unit_escape unit_osc not_ground

lemma trace_text:
  "0x1B \<notin> set s \<Longrightarrow> bell_trace s createBellDetector = map (\<lambda>u. (u = 7, False)) s
     \<and> bell_after s createBellDetector = createBellDetector"
  by (induction s) (simp_all add: unit_ground)

lemma trace_escapes:
  "bell_trace (escapes k) createBellDetector = replicate (length (escapes k)) (False, True)
     \<and> bell_after (escapes k) createBellDetector = in_escape"
proof -
  have "bell_trace (replicate k 0x1B) in_escape = replicate k (False, True)
      \<and> bell_after (replicate k 0x1B) in_escape = in_escape"
    by (induction k) (simp_all add: bell_steps)
  then show ?thesis by (simp add: escapes_def bell_steps)
qed

lemma trace_body:
  "osc_body b s \<Longrightarrow> bell_trace s (in_osc b) = replicate (length s) (False, True)
     \<and> bell_after s (in_osc b) = in_osc (last (b # s))"
  by (induction s arbitrary: b) (auto simp: bell_steps)

lemma trace_osc:
  "osc_body 93 body \<Longrightarrow>
   bell_trace (escapes k @ 93 # body) createBellDetector
     = replicate (length (escapes k) + Suc (length body)) (False, True)
   \<and> bell_after (escapes k @ 93 # body) createBellDetector = in_osc (last (93 # body))"
  using trace_escapes [of k] trace_body [of 93 body]
  by (simp add: bell_trace_append bell_steps replicate_add replicate_append_same)

lemma trace_piece:
  assumes "bell_piece_ok p"
  shows "bell_trace (bell_piece_units p) createBellDetector = piece_bells p
     \<and> bell_after (bell_piece_units p) createBellDetector = createBellDetector"
proof (cases p)
  case (Bell_text s)
  with assms show ?thesis by (simp add: trace_text)
next
  case (Bell_escape k u)
  with assms trace_escapes [of k] show ?thesis by (simp add: bell_trace_append bell_steps)
next
  case (Bell_osc k body e)
  with assms have body: "osc_body 93 body" and e: "e = End_BEL \<longrightarrow> last (93 # body) \<noteq> 0x1B" by simp_all
  have "bell_unit 0x1B (in_osc b) = (in_osc 0x1B, False)" for b by (simp add: unit_osc)
  then have "bell_trace (end_units e) (in_osc (last (93 # body)))
        = replicate (length (end_units e) - 1) (False, True) @ [(False, False)]
      \<and> bell_after (end_units e) (in_osc (last (93 # body))) = createBellDetector"
    using e by (cases e) (simp_all add: bell_steps)
  note e_trace = this
  let ?head = "escapes k @ 93 # body"
  have p: "bell_piece_units p = ?head @ end_units e" by (simp add: Bell_osc)
  have after: "bell_after ?head createBellDetector = in_osc (last (93 # body))"
    and head: "bell_trace ?head createBellDetector = replicate (length (escapes k) + Suc (length body)) (False, True)"
    using trace_osc [OF body, of k] by blast+
  have "bell_trace (?head @ end_units e) createBellDetector
      = replicate (length (escapes k) + Suc (length body)) (False, True)
        @ replicate (length (end_units e) - 1) (False, True) @ [(False, False)]"
    unfolding bell_trace_append [of ?head] after head using e_trace by simp
  also have "\<dots> = replicate (length (escapes k) + Suc (length body) + (length (end_units e) - 1)) (False, True)
      @ [(False, False)]"
    by (simp add: replicate_add)
  also have "length (escapes k) + Suc (length body) + (length (end_units e) - 1)
      = length (escapes k) + length body + length (end_units e)"
    by (cases e) simp_all
  finally show ?thesis
    unfolding p bell_after_simps(3) [of ?head] after using e_trace Bell_osc by simp
qed

lemma trace_output:
  assumes "list_all bell_piece_ok ps" and "rest_ok r"
  shows "bell_trace (bell_output ps r) createBellDetector = output_bells ps r"
proof -
  have "bell_trace (rest_units r) createBellDetector = replicate (length (rest_units r)) (False, True)"
    using assms(2) trace_osc trace_escapes by (cases r) simp_all
  then show ?thesis
    using assms(1)
    by (induction ps) (simp_all add: bell_output_def output_bells_def bell_trace_append trace_piece)
qed

text \<open>Outside an OSC sequence no escape within one is pending.\<close>

definition bell_inv :: "bell_state \<Rightarrow> bool" where
  "bell_inv s = (bs_pendingOscEscape s \<longrightarrow> bs_inOsc s)"

lemma bell_inv_unit: "bell_inv s \<Longrightarrow> bell_inv (fst (bell_unit u s))"
  by (auto simp: bell_inv_def bell_unit_def)

lemma bell_inv_after: "bell_inv s \<Longrightarrow> bell_inv (bell_after data s)"
  by (induction data arbitrary: s) (simp_all add: bell_inv_unit)

lemma bell_loop_trace:
  "snd (bell_loop data s) = chunk_rings (bell_trace data s)"
  "\<not> snd (bell_loop data s) \<Longrightarrow> fst (bell_loop data s) = bell_after data s"
  by (induction data arbitrary: s) (auto simp: split_beta chunk_rings_def)

text \<open>The shortcut for a chunk without a BEL and without the beginning of an OSC sequence.\<close>

lemma quiet_chunk:
  assumes "\<not> bs_inOsc s" and "7 \<notin> set data"
    and "\<not> osc_introduced (if bs_pendingEscape s then 0x1B # data else data)"
  shows "bell_loop data s =
    (s\<lparr>bs_pendingEscape := (if data = [] then bs_pendingEscape s else last data = 0x1B)\<rparr>, False)"
  using assms
proof (induction data arbitrary: s)
  case (Cons u data)
  have "\<not> osc_introduced (u # data)"
    using Cons.prems(3) by (cases "bs_pendingEscape s") auto
  moreover have "\<not> (bs_pendingEscape s \<and> u = 93)" using Cons.prems(3) by auto
  ultimately have turn: "bell_unit u s = (s\<lparr>bs_pendingEscape := (u = 0x1B)\<rparr>, False)"
    using Cons.prems(1,2) by (auto simp: bell_unit_def)
  have "\<not> osc_introduced (if u = 0x1B then 0x1B # data else data)"
    using \<open>\<not> osc_introduced (u # data)\<close> by (cases data) auto
  then show ?case
    using Cons.IH [of "s\<lparr>bs_pendingEscape := (u = 0x1B)\<rparr>"] Cons.prems(1,2) turn by auto
qed simp

text \<open>A hint is true to its chunk.\<close>

definition hint_ok :: "bool option \<times> jsstr \<Rightarrow> bool" where
  "hint_ok p = (case fst p of None \<Rightarrow> True | Some b \<Rightarrow> b = osc_introduced (snd p))"

lemma chunk_loop: "hint_ok (hint, data) \<Longrightarrow> chunkContainsBell hint data s = bell_loop data s"
  using quiet_chunk [of s data]
  by (cases data) (auto simp: chunkContainsBell_def hint_ok_def split: option.splits)

subsection \<open>Chunk by chunk\<close>

text \<open>A chunk that rings makes the detector forget the rest of it.\<close>

lemma unit_rings_ground: "bell_inv s \<Longrightarrow> snd (bell_unit u s) \<Longrightarrow> fst (bell_unit u s) = createBellDetector"
  by (cases s) (auto simp: bell_unit_def bell_inv_def createBellDetector_def split: if_splits)

lemma loop_rings_ground: "bell_inv s \<Longrightarrow> snd (bell_loop data s) \<Longrightarrow> fst (bell_loop data s) = createBellDetector"
  by (induction data arbitrary: s)
     (auto simp: split_beta unit_rings_ground bell_inv_unit split: if_splits)

lemma last_bell_trace:
  "data \<noteq> [] \<Longrightarrow> snd (last (bell_trace data s)) \<longleftrightarrow> bell_after data s \<noteq> createBellDetector"
  by (cases data rule: rev_cases) (simp_all add: bell_trace_append split_beta)

lemma cut_at_trace:
  "cut_at (c # cs) (bell_trace (concat (c # cs)) s)
     = bell_trace c s # cut_at cs (bell_trace (concat cs) (bell_after c s))"
  by (simp add: bell_trace_append)

lemma first_ring:
  "\<forall>p\<in>set cs. hint_ok p \<Longrightarrow>
   length (takeWhile Not (bell_chunks cs s))
   = length (takeWhile Not (map chunk_rings (cut_at (map snd cs) (bell_trace (concat (map snd cs)) s))))"
proof (induction cs arbitrary: s)
  case (Cons p cs)
  obtain hint c where p: "p = (hint, c)" by (cases p)
  have loop: "chunkContainsBell hint c s = bell_loop c s"
    using Cons.prems p by (intro chunk_loop) simp
  show ?case
    using Cons.IH [of "bell_after c s"] Cons.prems bell_loop_trace [of c s] cut_at_trace [of c "map snd cs" s]
    by (auto simp: p loop split_beta simp del: cut_at.simps)
qed simp

lemma all_rings:
  "\<forall>p\<in>set cs. hint_ok p \<Longrightarrow> bell_inv s \<Longrightarrow>
   \<not> list_ex rings_inside (cut_at (map snd cs) (bell_trace (concat (map snd cs)) s)) \<Longrightarrow>
   bell_chunks cs s = map chunk_rings (cut_at (map snd cs) (bell_trace (concat (map snd cs)) s))"
proof (induction cs arbitrary: s)
  case (Cons p cs)
  obtain hint c where p: "p = (hint, c)" by (cases p)
  have loop: "chunkContainsBell hint c s = bell_loop c s"
    using Cons.prems p by (intro chunk_loop) simp
  have inside: "\<not> rings_inside (bell_trace c s)"
    "\<not> list_ex rings_inside (cut_at (map snd cs) (bell_trace (concat (map snd cs)) (bell_after c s)))"
    using Cons.prems(3) unfolding p list.map snd_conv cut_at_trace by simp_all
  have "fst (bell_loop c s) = bell_after c s"
  proof (cases "snd (bell_loop c s)")
    case True
    then have "list_ex fst (bell_trace c s)" by (simp add: bell_loop_trace chunk_rings_def)
    moreover from this have "c \<noteq> []" by auto
    ultimately have "bell_after c s = createBellDetector"
      using inside(1) last_bell_trace [of c s] by (simp add: rings_inside_def)
    with loop_rings_ground [OF Cons.prems(2) True] show ?thesis by simp
  qed (simp add: bell_loop_trace(2))
  then show ?case
    using Cons.IH [OF _ _ inside(2)] Cons.prems bell_inv_after [OF Cons.prems(2), of c]
      bell_loop_trace(1) [of c s] cut_at_trace [of c "map snd cs" s]
    by (simp add: p loop split_beta del: cut_at.simps)
qed simp

text \<open>
  C34. Whatever text, escapes and OSC sequences ended by BEL, \<open>ESC \\<close>, CAN or SUB the output is made of,
  which any output is up to an unfinished rest, however it is cut into chunks, and whether the
  caller gives the hint or not: the first chunk that is said to ring is the first with a BEL of the
  text or right after an escape outside of OSC sequences; and every chunk is said to ring exactly if it
  has such a BEL, unless one that has ends inside a sequence.
\<close>

theorem bell_chunks_correct:
  assumes "\<forall>p\<in>set cs. hint_ok p" and "list_all bell_piece_ok ps" and "rest_ok r"
    and "concat (map snd cs) = bell_output ps r"
  shows "length (takeWhile Not (bell_chunks cs createBellDetector))
      = length (takeWhile Not (map chunk_rings (cut_at (map snd cs) (output_bells ps r))))
    \<and> (if list_ex rings_inside (cut_at (map snd cs) (output_bells ps r)) then True
       else bell_chunks cs createBellDetector = map chunk_rings (cut_at (map snd cs) (output_bells ps r)))"
proof -
  have "bell_inv createBellDetector" by (simp add: bell_inv_def createBellDetector_def)
  with first_ring [OF assms(1), of createBellDetector] all_rings [OF assms(1), of createBellDetector]
  show ?thesis by (simp add: assms(4) trace_output [OF assms(2,3)])
qed

definition title_and_bell :: "(bool option \<times> jsstr) list" where
  "title_and_bell = [(None, js ''a'' @ [0x1B]), (Some False, js '']0;t''), (None, js ''itle'' @ [7]), (None, js ''b'' @ [7])]"

theorem bell_chunks_correct_witness:
  "bell_chunks title_and_bell createBellDetector = [False, False, False, True]"
proof -
  let ?ps = "[Bell_text (js ''a''), Bell_osc 0 (js ''0;title'') End_BEL, Bell_text (js ''b'' @ [7])]"
  let ?marks = "cut_at (map snd title_and_bell) (output_bells ?ps No_rest)"
  have "\<forall>p\<in>set title_and_bell. hint_ok p" by code_simp
  moreover have "list_all bell_piece_ok ?ps" "rest_ok No_rest" by code_simp+
  moreover have "concat (map snd title_and_bell) = bell_output ?ps No_rest" by code_simp
  moreover have "\<not> list_ex rings_inside ?marks" by code_simp
  moreover have "map chunk_rings ?marks = [False, False, False, True]" by code_simp
  ultimately show ?thesis using bell_chunks_correct [of title_and_bell ?ps No_rest] by simp
qed

text \<open>
  A chunk that rings and then begins an OSC sequence: what follows the bell is not looked at, so the
  BEL that ends the sequence in the next chunk is taken for a bell.
\<close>

lemma bell_then_title:
  "bell_chunks [(None, 7 # 0x1B # js '']0;ti''), (None, js ''tle'' @ [7])] createBellDetector = [True, True]
   \<and> map chunk_rings (cut_at [7 # 0x1B # js '']0;ti'', js ''tle'' @ [7]]
       (output_bells [Bell_text [7], Bell_osc 0 (js ''0;title'') End_BEL] No_rest)) = [True, False]"
  by code_simp

end
