(* ===== verification/Kitty_Modes.thy ===== *)
theory Kitty_Modes
  imports Carry_Scanner
begin

unbundle bit_operations_syntax

section \<open>Keyboard modes a program has asked for\<close>

text \<open>
  \<open>src/src/shared/terminal-kitty-keyboard-mode-tracker.ts\<close>: the tracker that follows the kitty
  keyboard protocol in a program's output, with a stack of flags for each of the two screens.
  Numbers are the integers their digits denote, which is exact below \<open>2^53\<close>; the bitwise operators
  of JavaScript work on 32 bits.
\<close>

definition KITTY_SCAN_TAIL_LIMIT :: nat where
  "KITTY_SCAN_TAIL_LIMIT = 4096"

definition KITTY_STACK_LIMIT :: nat where
  "KITTY_STACK_LIMIT = 16"

record kitty_modes =
  currentFlags :: int
  mainFlags :: int
  altFlags :: int
  mainStack :: "int list"
  altStack :: "int list"
  alternateScreenActive :: bool

definition kitty_reset :: kitty_modes where
  "kitty_reset = \<lparr>currentFlags = 0, mainFlags = 0, altFlags = 0, mainStack = [], altStack = [],
     alternateScreenActive = False\<rparr>"

subsection \<open>What a sequence does\<close>

definition applySoftReset :: "kitty_modes \<Rightarrow> kitty_modes" where
  "applySoftReset s = s\<lparr>currentFlags := 0, mainFlags := 0, altFlags := 0, mainStack := [], altStack := []\<rparr>"

definition switch_screen :: "bool \<Rightarrow> int \<Rightarrow> kitty_modes \<Rightarrow> kitty_modes" where
  "switch_screen enabled param s =
     (if param \<noteq> 47 \<and> param \<noteq> 1047 \<and> param \<noteq> 1049 then s
      else if enabled
      then s\<lparr>mainFlags := currentFlags s, currentFlags := altFlags s, alternateScreenActive := True\<rparr>
      else s\<lparr>altFlags := currentFlags s, currentFlags := mainFlags s, alternateScreenActive := False\<rparr>)"

definition applyScreenSwitch :: "jsstr \<Rightarrow> bool \<Rightarrow> kitty_modes \<Rightarrow> kitty_modes" where
  "applyScreenSwitch params enabled s =
     fold (\<lambda>rawParam. switch_screen enabled (digits_value rawParam)) (split_on 59 params) s"

definition active_stack :: "kitty_modes \<Rightarrow> int list" where
  "active_stack s = (if alternateScreenActive s then altStack s else mainStack s)"

definition set_active_stack :: "int list \<Rightarrow> kitty_modes \<Rightarrow> kitty_modes" where
  "set_active_stack st s = (if alternateScreenActive s then s\<lparr>altStack := st\<rparr> else s\<lparr>mainStack := st\<rparr>)"

text \<open>\<open>for (let i = 0; i < count && stack.length > 0; i++)\<close>: the flags and the stack after it.\<close>

function pop_loop :: "int \<Rightarrow> int list \<Rightarrow> int \<Rightarrow> int \<times> int list" where
  "pop_loop count stack flags =
     (if count \<le> 0 \<or> stack = [] then (flags, stack)
      else pop_loop (count - 1) (butlast stack) (last stack))"
  by pat_completeness auto
termination
  by (relation "measure (\<lambda>(_, stack, _). length stack)") auto

declare pop_loop.simps [simp del]

definition int32_or :: "int \<Rightarrow> int \<Rightarrow> int" where
  "int32_or a b = sint ((word_of_int a :: 32 word) OR word_of_int b)"

definition int32_and_not :: "int \<Rightarrow> int \<Rightarrow> int" where
  "int32_and_not a b = sint ((word_of_int a :: 32 word) AND NOT (word_of_int b))"

definition push_flags :: "bool \<Rightarrow> int \<Rightarrow> kitty_modes \<Rightarrow> kitty_modes" where
  "push_flags replay flags s =
     (let stack = active_stack s;
          shifted = (if KITTY_STACK_LIMIT \<le> length stack then tl stack else stack);
          s1 = (if replay then s else set_active_stack (shifted @ [currentFlags s]) s)
      in s1\<lparr>currentFlags := flags\<rparr>)"

definition pop_flags :: "int \<Rightarrow> kitty_modes \<Rightarrow> kitty_modes" where
  "pop_flags n s =
     (let count = max 1 (if n = 0 then 1 else n)
      in case pop_loop count (active_stack s) (currentFlags s) of (flags, stack) \<Rightarrow>
           (set_active_stack stack s)\<lparr>currentFlags := (if stack = [] then 0 else flags)\<rparr>)"

definition set_flags :: "int list \<Rightarrow> kitty_modes \<Rightarrow> kitty_modes" where
  "set_flags parsed s =
     (let flags = hd parsed;
          mode = (if 1 < length parsed \<and> parsed ! 1 \<noteq> 0 then parsed ! 1 else 1)
      in if mode = 1 then s\<lparr>currentFlags := flags\<rparr>
         else if mode = 2 then s\<lparr>currentFlags := int32_or (currentFlags s) flags\<rparr>
         else if mode = 3 then s\<lparr>currentFlags := int32_and_not (currentFlags s) flags\<rparr>
         else s)"

text \<open>\<open>>\<close>, \<open><\<close> and \<open>=\<close> are the units 62, 60 and 61.\<close>

definition applyKittySequence :: "nat \<Rightarrow> jsstr \<Rightarrow> bool \<Rightarrow> kitty_modes \<Rightarrow> kitty_modes" where
  "applyKittySequence p params replay s =
     (let parsed = map digits_value (split_on 59 params)
      in if p = 62 then push_flags replay (hd parsed) s
         else if p = 60 then pop_flags (hd parsed) s
         else set_flags parsed s)"

datatype kitty_op = Ris | Soft_reset | Screen_switch jsstr bool | Kitty_sequence nat jsstr

primrec apply_op :: "bool \<Rightarrow> kitty_op \<Rightarrow> kitty_modes \<Rightarrow> kitty_modes" where
  "apply_op replay Ris s = kitty_reset"
| "apply_op replay Soft_reset s = applySoftReset s"
| "apply_op replay (Screen_switch params enabled) s = applyScreenSwitch params enabled s"
| "apply_op replay (Kitty_sequence p params) s = applyKittySequence p params replay s"

subsection \<open>The scan\<close>

definition param_unit :: "nat \<Rightarrow> bool" where
  "param_unit u = (48 \<le> u \<and> u \<le> 57 \<or> u = 59)"

text \<open>The regular expression \<open>kittyModeRe\<close>, at the front of a text: after the introducer, and whole.\<close>

definition csi_match :: "jsstr \<Rightarrow> (kitty_op \<times> jsstr) option" where
  "csi_match r = (case r of [] \<Rightarrow> None
     | c # r1 \<Rightarrow>
         (let params = takeWhile param_unit r1
          in case dropWhile param_unit r1 of [] \<Rightarrow> None
             | f # rest \<Rightarrow>
                 if c = 33 \<and> params = [] \<and> f = 112 then Some (Soft_reset, rest)
                 else if c = 63 \<and> params \<noteq> [] \<and> (f = 104 \<or> f = 108)
                 then Some (Screen_switch params (f = 104), rest)
                 else if (c = 60 \<or> c = 61 \<or> c = 62) \<and> f = 117
                 then Some (Kitty_sequence c params, rest)
                 else None))"

definition kitty_match :: "jsstr \<Rightarrow> (kitty_op \<times> jsstr) option" where
  "kitty_match b = (case b of [] \<Rightarrow> None
     | e # r \<Rightarrow>
         if e = 0x9B then csi_match r
         else if e = 0x1B then (case r of [] \<Rightarrow> None
           | k # r1 \<Rightarrow> if k = 99 then Some (Ris, r1) else if k = 91 then csi_match r1 else None)
         else None)"

lemma csi_match_shrinks: "csi_match r = Some (op, q) \<Longrightarrow> length q < length r"
proof (cases r)
  case (Cons c r1)
  assume "csi_match r = Some (op, q)"
  with Cons obtain f where "dropWhile param_unit r1 = f # q"
    by (auto simp: csi_match_def Let_def split: list.splits if_splits)
  with length_dropWhile_le [of param_unit r1] Cons show ?thesis by simp
qed (simp add: csi_match_def)

lemma kitty_match_shrinks: "kitty_match b = Some (op, q) \<Longrightarrow> length q < length b"
  by (auto simp: kitty_match_def dest!: csi_match_shrinks split: list.splits if_splits)

text \<open>The matches of the whole text, from the left.\<close>

function kitty_ops :: "jsstr \<Rightarrow> kitty_op list" where
  "kitty_ops b = (if b = [] then []
     else (case kitty_match b of
             Some (op, rest) \<Rightarrow> op # kitty_ops rest
           | None \<Rightarrow> kitty_ops (tl b)))"
  by pat_completeness auto
termination
  by (relation "measure length") (auto dest: kitty_match_shrinks)

declare kitty_ops.simps [simp del]

definition isIncompleteSequenceBody :: "jsstr \<Rightarrow> bool" where
  "isIncompleteSequenceBody body =
     (body = [33] \<or> (case body of [] \<Rightarrow> True
        | c # r \<Rightarrow> list_all param_unit (if 60 \<le> c \<and> c \<le> 63 then r else body)))"

text \<open>The text from the last introducer on.\<close>

fun last_intro :: "jsstr \<Rightarrow> jsstr option" where
  "last_intro [] = None"
| "last_intro (u # s) = (case last_intro s of
     Some t \<Rightarrow> Some t
   | None \<Rightarrow> if u = 0x1B \<or> u = 0x9B then Some (u # s) else None)"

definition incomplete_tail :: "jsstr \<Rightarrow> bool" where
  "incomplete_tail t =
     (if t = [0x1B] \<or> t = [0x1B, 91] \<or> t = [0x9B] then True
      else (case t of
              e # r \<Rightarrow>
                if e = 0x1B then (case r of k # body \<Rightarrow> k = 91 \<and> isIncompleteSequenceBody body | [] \<Rightarrow> False)
                else e = 0x9B \<and> isIncompleteSequenceBody r
            | [] \<Rightarrow> False))"

definition extractScanTail :: "jsstr \<Rightarrow> jsstr" where
  "extractScanTail input = (case last_intro input of
     None \<Rightarrow> []
   | Some t \<Rightarrow> if KITTY_SCAN_TAIL_LIMIT < length t then []
              else if incomplete_tail t then t else [])"

record kitty_tracker =
  scanTail :: jsstr
  modes :: kitty_modes

definition new_tracker :: kitty_tracker where
  "new_tracker = \<lparr>scanTail = [], modes = kitty_reset\<rparr>"

definition scanInternal :: "bool \<Rightarrow> jsstr \<Rightarrow> kitty_tracker \<Rightarrow> kitty_tracker" where
  "scanInternal replay data t =
     (let input = scanTail t @ data
      in \<lparr>scanTail = extractScanTail input, modes = fold (apply_op replay) (kitty_ops input) (modes t)\<rparr>)"

definition kitty_scan :: "jsstr \<Rightarrow> kitty_op list \<times> jsstr" where
  "kitty_scan input = (kitty_ops input, extractScanTail input)"
subsection \<open>One sequence at a time\<close>

definition kitty_step :: "jsstr \<Rightarrow> (kitty_op list \<times> jsstr) option" where
  "kitty_step b = (if b = [] then None
     else (case kitty_match b of
             Some (op, rest) \<Rightarrow> Some ([op], rest)
           | None \<Rightarrow> if incomplete_tail b then None else Some ([], tl b)))"

lemma csi_match_append: "csi_match r = Some (op, q) \<Longrightarrow> csi_match (r @ c) = Some (op, q @ c)"
proof (cases r)
  case (Cons x r1)
  assume m: "csi_match r = Some (op, q)"
  then obtain f d where d: "dropWhile param_unit r1 = f # d"
    using Cons by (auto simp: csi_match_def Let_def split: list.splits)
  then have "\<not> list_all param_unit r1" by (metis dropWhile_eq_Nil_conv list_all_iff list.distinct(1))
  then obtain u where "u \<in> set r1" "\<not> param_unit u" by (auto simp: list_all_iff)
  then have "takeWhile param_unit (r1 @ c) = takeWhile param_unit r1"
    "dropWhile param_unit (r1 @ c) = dropWhile param_unit r1 @ c"
    by (simp_all add: takeWhile_append1 dropWhile_append1)
  with m Cons d show "csi_match (r @ c) = Some (op, q @ c)"
    by (auto simp: csi_match_def Let_def split: if_splits)
qed (simp add: csi_match_def)

lemma csi_no_match_append:
  assumes "csi_match r = None" and "\<not> isIncompleteSequenceBody r"
  shows "csi_match (r @ c) = None \<and> \<not> isIncompleteSequenceBody (r @ c)"
proof (cases r)
  case (Cons x r1)
  show ?thesis
  proof (cases "list_all param_unit r1")
    case True
    then have all: "takeWhile param_unit (r1 @ c) = r1 @ takeWhile param_unit c"
      by (simp add: takeWhile_append2 list_all_iff)
    have "\<not> (60 \<le> x \<and> x \<le> 63)" "\<not> param_unit x" "x = 33 \<longrightarrow> r1 \<noteq> []"
      using assms(2) Cons True by (auto simp: isIncompleteSequenceBody_def split: if_splits)
    then show ?thesis
      using Cons all
      by (auto simp: csi_match_def isIncompleteSequenceBody_def Let_def split: list.splits)
  next
    case False
    then obtain u where u: "u \<in> set r1" "\<not> param_unit u" by (auto simp: list_all_iff)
    then have td: "takeWhile param_unit (r1 @ c) = takeWhile param_unit r1"
      "dropWhile param_unit (r1 @ c) = dropWhile param_unit r1 @ c"
      by (simp_all add: takeWhile_append1 dropWhile_append1)
    have "dropWhile param_unit r1 \<noteq> []" using u by (auto simp: dropWhile_eq_Nil_conv)
    then obtain f d where "dropWhile param_unit r1 = f # d" by (cases "dropWhile param_unit r1") auto
    with assms(1) Cons td have "csi_match (r @ c) = None"
      by (auto simp: csi_match_def Let_def split: if_splits)
    moreover have "\<not> isIncompleteSequenceBody (r @ c)"
      using Cons False u by (auto simp: isIncompleteSequenceBody_def)
    ultimately show ?thesis ..
  qed
qed (use assms in \<open>simp add: isIncompleteSequenceBody_def\<close>)

lemma incomplete_no_match: "isIncompleteSequenceBody r \<Longrightarrow> csi_match r = None"
proof (cases r)
  case (Cons x r1)
  assume "isIncompleteSequenceBody r"
  with Cons have "list_all param_unit r1" by (auto simp: isIncompleteSequenceBody_def split: if_splits)
  then have "dropWhile param_unit r1 = []" by (simp add: list_all_iff)
  then show ?thesis unfolding Cons csi_match_def Let_def by (simp only: list.case)
qed (simp add: csi_match_def)

lemma incomplete_tail_parts:
  "incomplete_tail b \<longleftrightarrow> (b = [0x1B] \<or> (\<exists>body. (b = 0x1B # 91 # body \<or> b = 0x9B # body) \<and> isIncompleteSequenceBody body))"
proof -
  have "isIncompleteSequenceBody []" by (simp add: isIncompleteSequenceBody_def)
  then show ?thesis
    by (cases b; cases "tl b") (auto simp: incomplete_tail_def)
qed

definition no_intro :: "jsstr \<Rightarrow> bool" where
  "no_intro s = (0x1B \<notin> set s \<and> 0x9B \<notin> set s)"

lemma incomplete_body_plain: "isIncompleteSequenceBody body \<Longrightarrow> no_intro body"
  by (cases body) (auto simp: isIncompleteSequenceBody_def no_intro_def list_all_iff param_unit_def split: if_splits)

lemma incomplete_tail_plain: "incomplete_tail b \<Longrightarrow> b \<noteq> [] \<and> no_intro (tl b) \<and> kitty_match b = None"
  using incomplete_body_plain incomplete_no_match
  by (auto simp: incomplete_tail_parts kitty_match_def no_intro_def)

lemma plain_no_match: "no_intro s \<Longrightarrow> kitty_match s = None"
  by (cases s) (auto simp: kitty_match_def no_intro_def)

lemma plain_ops: "no_intro s \<Longrightarrow> kitty_ops s = []"
proof (induction s)
  case (Cons u s)
  then have "no_intro s" by (simp add: no_intro_def)
  with Cons show ?case by (simp add: kitty_ops.simps [of "u # s"] plain_no_match)
qed (simp add: kitty_ops.simps)

lemma csi_match_parts: "csi_match r = Some (op, q) \<Longrightarrow> \<exists>m. r = m @ q \<and> no_intro m"
proof (cases r)
  case (Cons x r1)
  assume m: "csi_match r = Some (op, q)"
  let ?t = "takeWhile param_unit r1"
  obtain f where f: "dropWhile param_unit r1 = f # q" "x \<noteq> 0x1B" "x \<noteq> 0x9B" "f \<noteq> 0x1B" "f \<noteq> 0x9B"
    using m Cons by (auto simp: csi_match_def Let_def split: list.splits if_splits)
  have "r = (x # ?t @ [f]) @ q" using Cons f(1) takeWhile_dropWhile_id [of param_unit r1] by simp
  moreover have "no_intro ?t"
    by (auto simp: no_intro_def param_unit_def dest: set_takeWhileD)
  then have "no_intro (x # ?t @ [f])" using f by (simp add: no_intro_def)
  ultimately show ?thesis by blast
qed (simp add: csi_match_def)

lemma kitty_match_parts: "kitty_match b = Some (op, q) \<Longrightarrow> \<exists>e m. b = e # m @ q \<and> no_intro m"
proof -
  assume m: "kitty_match b = Some (op, q)"
  then obtain e r where b: "b = e # r" by (cases b) (auto simp: kitty_match_def)
  consider "csi_match r = Some (op, q)" | "r = 99 # q" | r1 where "r = 91 # r1" "csi_match r1 = Some (op, q)"
    using m b by (auto simp: kitty_match_def split: list.splits if_splits)
  then have "\<exists>m. r = m @ q \<and> no_intro m"
  proof cases
    case 1
    then show ?thesis by (rule csi_match_parts)
  next
    case 2
    then show ?thesis by (intro exI [of _ "[99]"]) (simp add: no_intro_def)
  next
    case 3
    then obtain m' where "r1 = m' @ q" "no_intro m'" using csi_match_parts by blast
    with 3 show ?thesis by (intro exI [of _ "91 # m'"]) (simp add: no_intro_def)
  qed
  with b show ?thesis by blast
qed
lemma kitty_match_append: "kitty_match b = Some (op, q) \<Longrightarrow> kitty_match (b @ c) = Some (op, q @ c)"
  by (auto simp: kitty_match_def split: list.splits if_splits dest: csi_match_append [of _ op q c])

lemma kitty_junk_append:
  assumes "b \<noteq> []" and "kitty_match b = None" and "\<not> incomplete_tail b"
  shows "kitty_match (b @ c) = None \<and> \<not> incomplete_tail (b @ c)"
proof -
  obtain e r where b: "b = e # r" using assms(1) by (cases b) auto
  consider "e = 0x9B" | "e = 0x1B" | "e \<noteq> 0x9B" "e \<noteq> 0x1B" by blast
  then show ?thesis
  proof cases
    case 1
    with assms b have "csi_match r = None" "\<not> isIncompleteSequenceBody r"
      by (auto simp: kitty_match_def incomplete_tail_parts)
    from csi_no_match_append [OF this, of c] 1 b show ?thesis
      by (auto simp: kitty_match_def incomplete_tail_parts)
  next
    case 2
    show ?thesis
    proof (cases r)
      case Nil
      with assms(3) b 2 show ?thesis by (simp add: incomplete_tail_parts)
    next
      case (Cons k body)
      show ?thesis
      proof (cases "k = 91")
        case True
        with assms b 2 Cons have "csi_match body = None" "\<not> isIncompleteSequenceBody body"
          by (auto simp: kitty_match_def incomplete_tail_parts)
        from csi_no_match_append [OF this, of c] True 2 b Cons show ?thesis
          by (auto simp: kitty_match_def incomplete_tail_parts)
      next
        case False
        with assms b 2 Cons show ?thesis
          by (auto simp: kitty_match_def incomplete_tail_parts split: if_splits)
      qed
    qed
  next
    case 3
    with b show ?thesis by (auto simp: kitty_match_def incomplete_tail_parts)
  qed
qed

lemma kitty_step_append: "kitty_step b = Some (u, r) \<Longrightarrow> kitty_step (b @ c) = Some (u, r @ c)"
proof (cases "kitty_match b")
  case None
  assume "kitty_step b = Some (u, r)"
  with None have b: "b \<noteq> []" "\<not> incomplete_tail b" "u = []" "r = tl b"
    by (auto simp: kitty_step_def split: if_splits)
  with kitty_junk_append [OF b(1) None b(2), of c] show ?thesis by (simp add: kitty_step_def)
next
  case (Some x)
  assume "kitty_step b = Some (u, r)"
  with Some show ?thesis
    by (cases x) (auto simp: kitty_step_def kitty_match_append split: if_splits)
qed

lemma kitty_step_shrinks: "kitty_step b = Some (u, r) \<Longrightarrow> length r < length b"
  by (auto simp: kitty_step_def dest: kitty_match_shrinks split: if_splits option.splits)

lemma kitty_step_Nil: "kitty_step [] = None"
  by (simp add: kitty_step_def)

interpretation kitty: incremental_parser kitty_step
  by unfold_locales (auto intro: kitty_step_append kitty_step_shrinks)

lemma last_intro_plain: "no_intro s \<Longrightarrow> last_intro (s @ r) = last_intro r"
  by (induction s) (auto simp: no_intro_def split: option.splits)

lemma last_intro_none: "no_intro s \<Longrightarrow> last_intro s = None"
  using last_intro_plain [of s "[]"] by simp

text \<open>What is not left waiting does not change the tail.\<close>

lemma extract_skip:
  assumes "no_intro m" and "\<not> incomplete_tail (e # m @ q)"
  shows "extractScanTail (e # m @ q) = extractScanTail q"
  using assms last_intro_plain [OF assms(1), of q]
  by (cases "last_intro q") (auto simp: extractScanTail_def)

lemma extract_waiting:
  assumes "incomplete_tail b"
  shows "extractScanTail b = (if KITTY_SCAN_TAIL_LIMIT < length b then [] else b)"
proof -
  have plain: "b \<noteq> []" "no_intro (tl b)" using incomplete_tail_plain [OF assms] by simp_all
  moreover have "hd b = 0x1B \<or> hd b = 0x9B" using assms by (auto simp: incomplete_tail_parts)
  ultimately have "last_intro b = Some b" using last_intro_none [of "tl b"] by (cases b) auto
  with assms show ?thesis by (simp add: extractScanTail_def)
qed

lemma kitty_drain:
  "kitty_ops b = concat (fst (drain_all kitty_step b))
   \<and> extractScanTail b = (if KITTY_SCAN_TAIL_LIMIT < length (snd (drain_all kitty_step b)) then []
        else snd (drain_all kitty_step b))"
proof (induction b rule: kitty_ops.induct)
  case (1 b)
  show ?case
  proof (cases "b = []")
    case True
    then show ?thesis
      by (simp add: kitty_ops.simps [of "[]"] kitty.drain_all_unfold [of "[]"] kitty_step_Nil extractScanTail_def)
  next
    case False
    show ?thesis
    proof (cases "kitty_match b")
      case None
      show ?thesis
      proof (cases "incomplete_tail b")
        case True
        then have "kitty_step b = None" using None by (simp add: kitty_step_def)
        moreover have "kitty_ops b = []"
          using False None plain_ops [of "tl b"] incomplete_tail_plain [OF True]
          by (simp add: kitty_ops.simps [of b])
        ultimately show ?thesis
          using extract_waiting [OF True] by (simp add: kitty.drain_all_unfold [of b])
      next
        case wait: False
        then have "kitty_step b = Some ([], tl b)" using False None by (simp add: kitty_step_def)
        then have d: "drain_all kitty_step b = ([] # fst (drain_all kitty_step (tl b)), snd (drain_all kitty_step (tl b)))"
          by (simp add: kitty.drain_all_unfold [of b] split_beta)
        have "extractScanTail b = extractScanTail (tl b)"
          using extract_skip [of "[]" "hd b" "tl b"] wait False by (simp add: no_intro_def)
        moreover have "kitty_ops b = kitty_ops (tl b)" using False None by (simp add: kitty_ops.simps [of b])
        ultimately show ?thesis using "1.IH"(1) [OF False None] unfolding d by simp
      qed
    next
      case (Some x)
      obtain op q where x: "x = (op, q)" by (cases x)
      with Some have m: "kitty_match b = Some (op, q)" by simp
      then have "kitty_step b = Some ([op], q)" using False by (simp add: kitty_step_def)
      then have d: "drain_all kitty_step b = ([op] # fst (drain_all kitty_step q), snd (drain_all kitty_step q))"
        by (simp add: kitty.drain_all_unfold [of b] split_beta)
      obtain e p where "b = e # p @ q" "no_intro p" using kitty_match_parts [OF m] by blast
      moreover have "\<not> incomplete_tail b" using incomplete_tail_plain [of b] m by auto
      ultimately have "extractScanTail b = extractScanTail q" using extract_skip by simp
      moreover have "kitty_ops b = op # kitty_ops q" using False m by (simp add: kitty_ops.simps [of b])
      ultimately show ?thesis using "1.IH"(2) [OF False Some x [symmetric]] unfolding d by simp
    qed
  qed
qed

interpretation kitty_scanner: carry_scanner kitty_step kitty_scan KITTY_SCAN_TAIL_LIMIT
  by unfold_locales (simp_all add: kitty_scan_def kitty_drain)

subsection \<open>Chunks\<close>

lemma scanInternal_scans:
  "fold (scanInternal replay) cs t =
     (case scans kitty_scan (scanTail t) cs of (ops, r) \<Rightarrow>
        \<lparr>scanTail = r, modes = fold (apply_op replay) ops (modes t)\<rparr>)"
  by (induction cs arbitrary: t) (auto simp: scanInternal_def kitty_scan_def Let_def split: prod.splits)

text \<open>
  However the output of a program is cut into chunks, scanning the chunks leaves the modes that
  scanning the whole output at once leaves, if after no chunk an unfinished sequence is longer than
  the limit; both for live output and for a replay.
\<close>

lemma kitty_chunking:
  assumes "short_rests KITTY_SCAN_TAIL_LIMIT kitty_step [] cs"
  shows "modes (fold (scanInternal replay) cs new_tracker)
    = modes (scanInternal replay (concat cs) new_tracker)"
proof -
  have "fst (scans kitty_scan [] cs) = kitty_ops (concat cs)"
    using kitty_scanner.scans_concat [OF kitty_step_Nil assms]
    by (simp add: kitty_scan_def kitty_ops.simps [of "[]"] split: if_splits)
  then show ?thesis
    by (simp add: scanInternal_scans new_tracker_def split_beta) (simp add: scanInternal_def Let_def)
qed
definition pushed_in_pieces :: "jsstr list" where
  "pushed_in_pieces = [js ''a'' @ [0x1B], js ''[>1'', js ''u b'', [0x9B] @ js ''=2'', js '';2u'']"

lemma kitty_chunking_example:
  "modes (fold (scanInternal False) pushed_in_pieces new_tracker)
   = modes (scanInternal False (concat pushed_in_pieces) new_tracker)
   \<and> currentFlags (modes (scanInternal False (concat pushed_in_pieces) new_tracker)) = 3"
proof -
  have "short_rests KITTY_SCAN_TAIL_LIMIT kitty_step [] pushed_in_pieces"
    by (rule kitty_scanner.short_stream) (simp add: KITTY_SCAN_TAIL_LIMIT_def pushed_in_pieces_def)
  moreover have "currentFlags (modes (scanInternal False (concat pushed_in_pieces) new_tracker)) = 3"
    by code_simp
  ultimately show ?thesis using kitty_chunking by blast
qed

subsection \<open>The stacks\<close>

datatype kitty_event = Kitty_data bool jsstr | Kitty_restart

fun kitty_event_step :: "kitty_event \<Rightarrow> kitty_tracker \<Rightarrow> kitty_tracker" where
  "kitty_event_step (Kitty_data replay data) t = scanInternal replay data t"
| "kitty_event_step Kitty_restart t = new_tracker"

definition stacks_within :: "nat \<Rightarrow> nat \<Rightarrow> kitty_modes \<Rightarrow> bool" where
  "stacks_within m a s = (length (mainStack s) \<le> m \<and> length (altStack s) \<le> a)"

lemma pop_loop_length: "length (snd (pop_loop n st f)) \<le> length st"
proof (induction n st f rule: pop_loop.induct)
  case (1 n st f)
  then show ?case by (subst pop_loop.simps) (auto simp: le_diff_conv)
qed

lemma pop_within: "stacks_within m a s \<Longrightarrow> stacks_within m a (pop_flags n s)"
  using pop_loop_length [of "max 1 (if n = 0 then 1 else n)" "active_stack s" "currentFlags s"]
  by (auto simp: stacks_within_def pop_flags_def set_active_stack_def active_stack_def Let_def split: prod.split)

lemma switch_within:
  "stacks_within m a s \<Longrightarrow> stacks_within m a (fold (\<lambda>r. switch_screen e (digits_value r)) ps s)"
  by (induction ps arbitrary: s) (auto simp: switch_screen_def stacks_within_def)

lemma set_within: "stacks_within m a s \<Longrightarrow> stacks_within m a (set_flags ps s)"
  by (auto simp: set_flags_def stacks_within_def Let_def)

lemma push_within:
  "stacks_within m a s \<Longrightarrow> (if replay then True else m = KITTY_STACK_LIMIT \<and> a = KITTY_STACK_LIMIT) \<Longrightarrow>
   stacks_within m a (push_flags replay flags s)"
  by (auto simp: push_flags_def stacks_within_def set_active_stack_def active_stack_def
      KITTY_STACK_LIMIT_def Let_def)

lemma op_within:
  "stacks_within m a s \<Longrightarrow> (if replay then True else m = KITTY_STACK_LIMIT \<and> a = KITTY_STACK_LIMIT) \<Longrightarrow>
   stacks_within m a (apply_op replay op s)"
  by (cases op)
     (auto simp: applyScreenSwitch_def applyKittySequence_def Let_def
       intro: pop_within switch_within set_within push_within,
      simp_all add: stacks_within_def kitty_reset_def applySoftReset_def)

lemma scan_within:
  "stacks_within m a (modes t) \<Longrightarrow> (if replay then True else m = KITTY_STACK_LIMIT \<and> a = KITTY_STACK_LIMIT) \<Longrightarrow>
   stacks_within m a (modes (scanInternal replay data t))"
proof -
  have "stacks_within m a (fold (apply_op replay) ops s)"
    if "stacks_within m a s" "if replay then True else m = KITTY_STACK_LIMIT \<and> a = KITTY_STACK_LIMIT" for ops s
    using that(1) by (induction ops arbitrary: s) (auto intro: op_within [OF _ that(2)])
  then show "stacks_within m a (modes t) \<Longrightarrow>
      (if replay then True else m = KITTY_STACK_LIMIT \<and> a = KITTY_STACK_LIMIT) \<Longrightarrow>
      stacks_within m a (modes (scanInternal replay data t))"
    by (simp add: scanInternal_def Let_def)
qed

text \<open>
  Whatever a program writes, live or in a replay, neither stack has more than 16 entries; and a
  replay makes neither longer, however often the same output is delivered again.
\<close>

lemma kitty_stacks_bounded:
  "stacks_within KITTY_STACK_LIMIT KITTY_STACK_LIMIT (modes (fold kitty_event_step evs new_tracker))"
proof (induction evs rule: rev_induct)
  case Nil
  show ?case by (simp add: new_tracker_def kitty_reset_def stacks_within_def)
next
  case (snoc e evs)
  have "stacks_within KITTY_STACK_LIMIT KITTY_STACK_LIMIT (modes new_tracker)"
    by (simp add: new_tracker_def kitty_reset_def stacks_within_def)
  with snoc show ?case by (cases e) (simp_all add: scan_within)
qed

lemma replay_keeps_stacks:
  "stacks_within (length (mainStack (modes t))) (length (altStack (modes t)))
     (modes (scanInternal True data t))"
  by (rule scan_within) (simp_all add: stacks_within_def)

text \<open>What a well-behaved program does between a push and its pop, with at most \<open>d\<close> pushes open.\<close>

definition pops_one :: "jsstr \<Rightarrow> bool" where
  "pops_one params = (hd (map digits_value (split_on 59 params)) \<in> {0, 1})"

inductive nested :: "nat \<Rightarrow> kitty_op list \<Rightarrow> bool" where
  nested_Nil: "nested d []"
| nested_set: "nested d ops \<Longrightarrow> nested d (Kitty_sequence 61 ps # ops)"
| nested_push: "nested d inner \<Longrightarrow> pops_one p \<Longrightarrow> nested (Suc d) ops \<Longrightarrow>
    nested (Suc d) (Kitty_sequence 62 ps # inner @ Kitty_sequence 60 p # ops)"

definition same_but_flags :: "kitty_modes \<Rightarrow> kitty_modes \<Rightarrow> bool" where
  "same_but_flags s s' = (s' = s\<lparr>currentFlags := currentFlags s'\<rparr>)"

lemma set_same: "same_but_flags s (set_flags ps s)"
  by (simp add: same_but_flags_def set_flags_def Let_def)

lemma pop_last:
  "pops_one p \<Longrightarrow> active_stack s = st @ [f] \<Longrightarrow>
   apply_op replay (Kitty_sequence 60 p) s = (set_active_stack st s)\<lparr>currentFlags := (if st = [] then 0 else f)\<rparr>"
proof -
  assume "pops_one p" and st: "active_stack s = st @ [f]"
  have "pop_loop 1 (st @ [f]) c = (f, st)" for c
    by (simp add: pop_loop.simps [of 1 "st @ [f]"] pop_loop.simps [of 0])
  with \<open>pops_one p\<close> st show ?thesis
    by (auto simp: applyKittySequence_def pops_one_def pop_flags_def Let_def)
qed

lemma push_depth:
  "length (active_stack s) < KITTY_STACK_LIMIT \<Longrightarrow>
   length (active_stack (apply_op False (Kitty_sequence 62 ps) s)) = Suc (length (active_stack s))"
  by (cases "alternateScreenActive s")
     (simp_all add: applyKittySequence_def push_flags_def Let_def active_stack_def set_active_stack_def)

lemma push_pop:
  assumes "length (active_stack s) < KITTY_STACK_LIMIT" and "pops_one p"
    and "same_but_flags (push_flags False flags s) s1"
  shows "apply_op False (Kitty_sequence 60 p) s1
    = s\<lparr>currentFlags := (if active_stack s = [] then 0 else currentFlags s)\<rparr>"
proof -
  have s1: "s1 = (set_active_stack (active_stack s @ [currentFlags s]) s)\<lparr>currentFlags := currentFlags s1\<rparr>"
    using assms(1,3) by (simp add: same_but_flags_def push_flags_def Let_def)
  then have "active_stack s1 = active_stack s @ [currentFlags s]"
    by (metis (no_types, lifting) active_stack_def kitty_modes.select_convs kitty_modes.surjective
        kitty_modes.update_convs set_active_stack_def)
  from pop_last [OF assms(2) this]
  have pop: "apply_op False (Kitty_sequence 60 p) s1 = (set_active_stack (active_stack s) s1)
      \<lparr>currentFlags := (if active_stack s = [] then 0 else currentFlags s)\<rparr>" .
  obtain c where "s1 = (set_active_stack (active_stack s @ [currentFlags s]) s)\<lparr>currentFlags := c\<rparr>"
    using s1 by blast
  then have "(set_active_stack (active_stack s) s1)\<lparr>currentFlags := f\<rparr> = s\<lparr>currentFlags := f\<rparr>" for f
    by (cases s; cases "alternateScreenActive s") (simp_all add: set_active_stack_def active_stack_def)
  with pop show ?thesis by simp
qed


lemma nested_same:
  "nested d ops \<Longrightarrow> d + length (active_stack s) \<le> KITTY_STACK_LIMIT \<Longrightarrow>
   same_but_flags s (fold (apply_op False) ops s)"
proof (induction arbitrary: s rule: nested.induct)
  case (nested_Nil d)
  show ?case by (simp add: same_but_flags_def)
next
  case (nested_set d ops ps)
  let ?s = "apply_op False (Kitty_sequence 61 ps) s"
  have s: "same_but_flags s ?s" by (simp add: applyKittySequence_def Let_def set_same)
  then have "active_stack ?s = active_stack s"
    unfolding same_but_flags_def by (metis active_stack_def kitty_modes.select_convs kitty_modes.surjective
        kitty_modes.update_convs(1))
  with nested_set have "same_but_flags ?s (fold (apply_op False) ops ?s)" by simp
  with s show ?case unfolding same_but_flags_def by (cases s) (metis fold_simps(2) kitty_modes.update_convs(1) kitty_modes.select_convs(1))
next
  case (nested_push d inner p ops ps)
  let ?push = "apply_op False (Kitty_sequence 62 ps) s"
  let ?inner = "fold (apply_op False) inner ?push"
  let ?pop = "apply_op False (Kitty_sequence 60 p) ?inner"
  have short: "length (active_stack s) < KITTY_STACK_LIMIT" using nested_push.prems by simp
  then have "length (active_stack ?push) = Suc (length (active_stack s))"
    by (rule push_depth)
  then have "same_but_flags ?push ?inner" using nested_push by simp
  then have pop: "?pop = s\<lparr>currentFlags := (if active_stack s = [] then 0 else currentFlags s)\<rparr>"
    using push_pop [OF short nested_push.hyps(2)] by (simp add: applyKittySequence_def Let_def)
  then have "active_stack ?pop = active_stack s" by (simp add: active_stack_def)
  then have "same_but_flags ?pop (fold (apply_op False) ops ?pop)" using nested_push by simp
  with pop show ?case
    unfolding same_but_flags_def by simp
qed

text \<open>
  C29. A program that pushes its flags, sets, nests pushes and pops of one entry as it likes, and
  pops again leaves the stacks and the screen as it found them, and the flags too if the stack had an
  entry when it began; with an empty stack they are off afterwards. The stack must have room for
  what the program has open at once, and no unfinished sequence may be before it.
\<close>

theorem kitty_push_pop:
  assumes "kitty_ops data = Kitty_sequence 62 ps # inner @ [Kitty_sequence 60 p]"
    and "nested d inner" and "pops_one p" and "scanTail t = []"
    and "d + length (active_stack (modes t)) < KITTY_STACK_LIMIT"
  shows "modes (scanInternal False data t)
    = (modes t)\<lparr>currentFlags := (if active_stack (modes t) = [] then 0 else currentFlags (modes t))\<rparr>"
proof -
  let ?push = "apply_op False (Kitty_sequence 62 ps) (modes t)"
  have short: "length (active_stack (modes t)) < KITTY_STACK_LIMIT" using assms(5) by simp
  then have "length (active_stack ?push) = Suc (length (active_stack (modes t)))"
    by (rule push_depth)
  with assms(5) have "d + length (active_stack ?push) \<le> KITTY_STACK_LIMIT" by linarith
  with assms(2) have "same_but_flags ?push (fold (apply_op False) inner ?push)" by (rule nested_same)
  with push_pop [OF short assms(3)] have "fold (apply_op False) (kitty_ops data) (modes t)
      = (modes t)\<lparr>currentFlags := (if active_stack (modes t) = [] then 0 else currentFlags (modes t))\<rparr>"
    by (simp add: assms(1) applyKittySequence_def Let_def)
  with assms(4) show ?thesis by (simp add: scanInternal_def Let_def)
qed

definition in_a_shell :: kitty_tracker where
  "in_a_shell = \<lparr>scanTail = [], modes = kitty_reset\<lparr>currentFlags := 5, mainStack := [1]\<rparr>\<rparr>"

definition editor_session :: jsstr where
  "editor_session = 0x1B # js ''[>7uHello'' @ 0x9B # js ''=1;3u'' @ 0x1B # js ''[>1u'' @ 0x1B # js ''[<u''
     @ 0x1B # js ''[<1u''"

theorem kitty_push_pop_witness:
  "modes (scanInternal False editor_session in_a_shell) = modes in_a_shell"
proof -
  have n: "nested 1 [Kitty_sequence 61 (js ''1;3''), Kitty_sequence 62 (js ''1''), Kitty_sequence 60 []]"
    using nested_set [OF nested_push [OF nested_Nil [of 0], of "[]" "[]" "js ''1''"]] nested_Nil [of 1]
    by (simp add: pops_one_def digits_value_def)
  have ops: "kitty_ops editor_session = Kitty_sequence 62 (js ''7'')
      # [Kitty_sequence 61 (js ''1;3''), Kitty_sequence 62 (js ''1''), Kitty_sequence 60 []] @ [Kitty_sequence 60 (js ''1'')]"
    by code_simp
  have "pops_one (js ''1'')" "active_stack (modes in_a_shell) = [1]" "currentFlags (modes in_a_shell) = 5"
    by (simp_all add: pops_one_def digits_value_def active_stack_def in_a_shell_def kitty_reset_def)
  with kitty_push_pop [OF ops n, of in_a_shell] show ?thesis
    by (simp add: in_a_shell_def KITTY_STACK_LIMIT_def)
qed

end
