(* ===== verification/Discard_Safety.thy ===== *)
theory Discard_Safety
  imports Prelude "HOL-Library.Sublist"
begin

section \<open>Which untracked paths may be removed\<close>

text \<open>
  \<open>src/src/shared/git-discard-path-safety.ts\<close>: the check before untracked paths are removed when a
  user discards them. Paths are POSIX paths; \<open>path.resolve\<close>, \<open>path.relative\<close>, \<open>path.dirname\<close> and
  \<open>path.isAbsolute\<close> are modelled as far as they are used, the file system by what \<open>realpath\<close> and
  \<open>lstat\<close> answer at the time of a check.
\<close>

datatype fs_error = ENOENT | Other_error jsstr

datatype discard_error = Fs_error fs_error | Outside_worktree jsstr

record file_system =
  fs_realpath :: "jsstr \<Rightarrow> fs_error + jsstr"
  fs_isSymbolicLink :: "jsstr \<Rightarrow> fs_error + bool"

subsection \<open>Paths\<close>

definition segments :: "jsstr \<Rightarrow> jsstr list" where
  "segments p = filter (\<lambda>s. s \<noteq> []) (split_on 47 p)"

fun join_path :: "jsstr list \<Rightarrow> jsstr" where
  "join_path [] = []"
| "join_path [s] = s"
| "join_path (s # t # ss) = s @ 47 # join_path (t # ss)"

definition isAbsolute :: "jsstr \<Rightarrow> bool" where
  "isAbsolute p = (case p of u # _ \<Rightarrow> u = 47 | [] \<Rightarrow> False)"

text \<open>\<open>.\<close> is left out and \<open>..\<close> takes back what is before it; there is nothing above the root.\<close>

definition walk :: "jsstr list \<Rightarrow> jsstr \<Rightarrow> jsstr list" where
  "walk done_segs s = (if s = js ''.'' then done_segs
     else if s = js ''..'' then butlast done_segs else done_segs @ [s])"

definition resolve_segments :: "jsstr \<Rightarrow> jsstr list \<Rightarrow> jsstr list" where
  "resolve_segments cwd ps =
     foldl walk [] (foldl (\<lambda>segs p. if isAbsolute p then segments p else segs @ segments p) (segments cwd) ps)"

definition path_resolve :: "jsstr \<Rightarrow> jsstr list \<Rightarrow> jsstr" where
  "path_resolve cwd ps = 47 # join_path (resolve_segments cwd ps)"

fun relative_segments :: "jsstr list \<Rightarrow> jsstr list \<Rightarrow> jsstr list" where
  "relative_segments (f # from) (t # to) =
     (if f = t then relative_segments from to
      else replicate (Suc (length from)) (js ''..'') @ t # to)"
| "relative_segments from to = replicate (length from) (js ''..'') @ to"

definition path_relative :: "jsstr \<Rightarrow> jsstr \<Rightarrow> jsstr \<Rightarrow> jsstr" where
  "path_relative cwd from to =
     join_path (relative_segments (resolve_segments cwd [from]) (resolve_segments cwd [to]))"

text \<open>The directory of an absolute path that \<open>path.resolve\<close> made.\<close>

definition path_dirname :: "jsstr \<Rightarrow> jsstr" where
  "path_dirname p = 47 # join_path (butlast (segments p))"

subsection \<open>The checks\<close>

definition isInsideOrEqual :: "jsstr \<Rightarrow> jsstr \<Rightarrow> jsstr \<Rightarrow> bool" where
  "isInsideOrEqual cwd rootPath candidatePath =
     (let relativePath = path_relative cwd rootPath candidatePath
      in relativePath = []
         \<or> relativePath \<noteq> js ''..'' \<and> \<not> prefix (js ''../'') relativePath \<and> \<not> isAbsolute relativePath)"

definition assertRealPathInsideWorktree ::
  "file_system \<Rightarrow> jsstr \<Rightarrow> jsstr \<Rightarrow> jsstr \<Rightarrow> jsstr \<Rightarrow> discard_error option" where
  "assertRealPathInsideWorktree fs cwd realWorktreePath candidatePath originalFilePath =
     (case fs_realpath fs candidatePath of
        Inl e \<Rightarrow> Some (Fs_error e)
      | Inr r \<Rightarrow>
          if \<not> isInsideOrEqual cwd realWorktreePath (path_resolve cwd [r])
          then Some (Outside_worktree originalFilePath) else None)"

text \<open>The loop goes up one directory in each turn; the argument is the number of segments left.\<close>

primrec nearest_loop ::
  "file_system \<Rightarrow> jsstr \<Rightarrow> jsstr \<Rightarrow> jsstr \<Rightarrow> nat \<Rightarrow> jsstr \<Rightarrow> discard_error option" where
  "nearest_loop fs cwd realWorktreePath originalFilePath 0 parentPath =
     Some (Outside_worktree originalFilePath)"
| "nearest_loop fs cwd realWorktreePath originalFilePath (Suc n) parentPath =
     (if parentPath = path_dirname parentPath then Some (Outside_worktree originalFilePath)
      else (case assertRealPathInsideWorktree fs cwd realWorktreePath parentPath originalFilePath of
              None \<Rightarrow> None
            | Some e \<Rightarrow>
                if e = Fs_error ENOENT
                then nearest_loop fs cwd realWorktreePath originalFilePath n (path_dirname parentPath)
                else Some e))"

definition assertNearestExistingParentInsideWorktree ::
  "file_system \<Rightarrow> jsstr \<Rightarrow> jsstr \<Rightarrow> jsstr \<Rightarrow> jsstr \<Rightarrow> discard_error option" where
  "assertNearestExistingParentInsideWorktree fs cwd realWorktreePath candidatePath originalFilePath =
     nearest_loop fs cwd realWorktreePath originalFilePath (length (segments candidatePath))
       (path_dirname candidatePath)"

definition assertTargetIsWorktreeChild ::
  "jsstr \<Rightarrow> jsstr \<Rightarrow> jsstr \<Rightarrow> jsstr \<Rightarrow> discard_error option" where
  "assertTargetIsWorktreeChild cwd resolvedWorktreePath resolvedTarget originalFilePath =
     (let relativeTarget = path_relative cwd resolvedWorktreePath resolvedTarget
      in if relativeTarget = [] \<or> relativeTarget = js ''.'' \<or> relativeTarget = js ''..''
            \<or> prefix (js ''../'') relativeTarget \<or> isAbsolute relativeTarget
         then Some (Outside_worktree originalFilePath) else None)"

definition validateUntrackedDiscardTarget ::
  "file_system \<Rightarrow> jsstr \<Rightarrow> jsstr \<Rightarrow> jsstr \<Rightarrow> discard_error + jsstr" where
  "validateUntrackedDiscardTarget fs cwd worktreePath filePath =
     (let resolvedWorktreePath = path_resolve cwd [worktreePath];
          resolvedTarget = path_resolve cwd [worktreePath, filePath]
      in case assertTargetIsWorktreeChild cwd resolvedWorktreePath resolvedTarget filePath of
           Some e \<Rightarrow> Inl e
         | None \<Rightarrow>
             (case fs_realpath fs worktreePath of
                Inl e \<Rightarrow> Inl (Fs_error e)
              | Inr r \<Rightarrow>
                  let realWorktreePath = path_resolve cwd [r];
                      checked =
                        (case fs_isSymbolicLink fs resolvedTarget of
                           Inl e \<Rightarrow> Some (Fs_error e)
                         | Inr link \<Rightarrow>
                             assertRealPathInsideWorktree fs cwd realWorktreePath
                               (if link then path_dirname resolvedTarget else resolvedTarget) filePath)
                  in (case checked of
                        None \<Rightarrow> Inr resolvedTarget
                      | Some e \<Rightarrow>
                          if e \<noteq> Fs_error ENOENT then Inl e
                          else (case assertNearestExistingParentInsideWorktree fs cwd realWorktreePath
                                       resolvedTarget filePath of
                                  Some e' \<Rightarrow> Inl e' | None \<Rightarrow> Inr resolvedTarget))))"

text \<open>What the callers hand over is called with: the steps that were reached.\<close>

datatype discard_step = Before_remove | Remove_paths "jsstr list"

text \<open>\<open>Promise.all\<close> of the checks fails if one of them does.\<close>

definition validate_all :: "file_system \<Rightarrow> jsstr \<Rightarrow> jsstr \<Rightarrow> jsstr list \<Rightarrow> bool" where
  "validate_all fs cwd worktreePath filePaths =
     list_all (\<lambda>p. \<not> isl (validateUntrackedDiscardTarget fs cwd worktreePath p)) filePaths"

definition removeSafeUntrackedDiscardTarget ::
  "file_system \<Rightarrow> jsstr \<Rightarrow> jsstr \<Rightarrow> jsstr \<Rightarrow> discard_error + discard_step list" where
  "removeSafeUntrackedDiscardTarget fs cwd worktreePath filePath =
     (case validateUntrackedDiscardTarget fs cwd worktreePath filePath of
        Inl e \<Rightarrow> Inl e | Inr target \<Rightarrow> Inr [Remove_paths [filePath]])"

text \<open>The file system may be another one at the second check; \<open>beforeRemove\<close> may fail.\<close>

definition removeSafeUntrackedDiscardTargets ::
  "file_system \<Rightarrow> file_system \<Rightarrow> bool \<Rightarrow> jsstr \<Rightarrow> jsstr \<Rightarrow> jsstr list \<Rightarrow> discard_step list" where
  "removeSafeUntrackedDiscardTargets fs fs' before_ok cwd worktreePath filePaths =
     (if \<not> validate_all fs cwd worktreePath filePaths then []
      else Before_remove #
        (if before_ok \<and> validate_all fs' cwd worktreePath filePaths then [Remove_paths filePaths] else []))"
subsection \<open>Resolved paths\<close>

definition good_segments :: "jsstr list \<Rightarrow> bool" where
  "good_segments segs = list_all (\<lambda>s. s \<noteq> [] \<and> 47 \<notin> set s \<and> s \<noteq> js ''.'' \<and> s \<noteq> js ''..'') segs"

lemma split_on_nonempty: "split_on c s \<noteq> []"
  by (induction s) (auto split: list.splits)

lemma split_on_plain: "c \<notin> set s \<Longrightarrow> split_on c s = [s]"
  by (induction s) auto

lemma split_on_step: "c \<notin> set s \<Longrightarrow> split_on c (s @ c # r) = s # split_on c r"
  by (induction s) auto

lemma split_on_units: "s \<in> set (split_on c p) \<Longrightarrow> c \<notin> set s"
proof (induction p arbitrary: s)
  case (Cons u p)
  obtain l ls where l: "split_on c p = l # ls" using split_on_nonempty [of c p] by (cases "split_on c p") auto
  with Cons show ?case by (auto split: if_splits)
qed simp

lemma segments_units: "s \<in> set (segments p) \<Longrightarrow> s \<noteq> [] \<and> 47 \<notin> set s"
  by (auto simp: segments_def dest: split_on_units)

lemma segments_join: "good_segments segs \<Longrightarrow> segments (47 # join_path segs) = segs"
proof -
  have "good_segments segs \<Longrightarrow> segs \<noteq> [] \<Longrightarrow> split_on 47 (join_path segs) = segs"
    by (induction segs rule: join_path.induct)
       (simp_all add: good_segments_def split_on_plain split_on_step)
  moreover have "good_segments segs \<Longrightarrow> filter (\<lambda>s. s \<noteq> []) segs = segs"
    by (simp add: good_segments_def filter_id_conv list_all_iff)
  ultimately show "good_segments segs \<Longrightarrow> segments (47 # join_path segs) = segs"
    by (cases segs) (simp_all add: segments_def)
qed

lemma good_walk: "good_segments segs \<Longrightarrow> s \<noteq> [] \<Longrightarrow> 47 \<notin> set s \<Longrightarrow> good_segments (walk segs s)"
  by (auto simp: walk_def good_segments_def list_all_iff dest: in_set_butlastD)

lemma good_walks:
  "good_segments segs \<Longrightarrow> \<forall>s\<in>set ss. s \<noteq> [] \<and> 47 \<notin> set s \<Longrightarrow> good_segments (foldl walk segs ss)"
  by (induction ss arbitrary: segs) (auto intro: good_walk)

lemma good_resolved: "good_segments (resolve_segments cwd ps)"
proof -
  let ?next = "\<lambda>segs p. if isAbsolute p then segments p else segs @ segments p"
  have units: "\<forall>s\<in>set (foldl ?next segs ps). s \<noteq> [] \<and> 47 \<notin> set s"
    if "\<forall>s\<in>set segs. s \<noteq> [] \<and> 47 \<notin> set s" for segs
    using that
  proof (induction ps arbitrary: segs)
    case (Cons p ps)
    have "s \<noteq> [] \<and> 47 \<notin> set s" if "s \<in> set (?next segs p)" for s
      using that Cons.prems segments_units [of s p] by (cases "isAbsolute p") auto
    then have "\<forall>s\<in>set (?next segs p). s \<noteq> [] \<and> 47 \<notin> set s" by blast
    from Cons.IH [OF this] show ?case by (simp only: foldl.simps)
  qed simp
  show ?thesis
    unfolding resolve_segments_def
  proof (rule good_walks)
    show "good_segments []" by (simp add: good_segments_def)
    show "\<forall>s\<in>set (foldl ?next (segments cwd) ps). s \<noteq> [] \<and> 47 \<notin> set s"
      by (rule units) (use segments_units in blast)
  qed
qed

lemma walk_good: "good_segments ss \<Longrightarrow> foldl walk segs ss = segs @ ss"
  by (induction ss arbitrary: segs) (simp_all add: good_segments_def walk_def)

lemma resolve_resolved: "resolve_segments cwd [path_resolve cwd' ps] = resolve_segments cwd' ps"
proof -
  have "segments (path_resolve cwd' ps) = resolve_segments cwd' ps"
    unfolding path_resolve_def by (rule segments_join [OF good_resolved])
  then show ?thesis
    by (simp add: resolve_segments_def [of cwd] isAbsolute_def walk_good good_resolved)
       (simp add: path_resolve_def)
qed

subsection \<open>Inside\<close>

lemma relative_prefix: "relative_segments root (root @ rest) = rest"
proof (induction root)
  case Nil
  then show ?case by (cases rest) simp_all
qed simp

lemma relative_outside:
  "\<not> prefix root p \<Longrightarrow> \<exists>k rest. relative_segments root p = replicate (Suc k) (js ''..'') @ rest"
proof (induction root arbitrary: p)
  case (Cons f fs)
  have other: ?case if "relative_segments (f # fs) p = replicate (Suc (length fs)) (js ''..'') @ rest" for rest
    using that by blast
  show ?case
  proof (cases p)
    case Nil
    then show ?thesis by (intro other) simp
  next
    case p: (Cons t ts)
    show ?thesis
    proof (cases "f = t")
      case True
      with Cons.IH [of ts] Cons.prems p show ?thesis by simp
    next
      case False
      with p show ?thesis by (intro other) simp
    qed
  qed
qed simp

text \<open>The tests on the relative path, as a text.\<close>

definition goes_up :: "jsstr \<Rightarrow> bool" where
  "goes_up p = (p = js ''..'' \<or> prefix (js ''../'') p \<or> isAbsolute p)"

lemma up_join: "goes_up (join_path (js ''..'' # rest))"
  by (cases rest) (simp_all add: goes_up_def)

lemma down_join:
  assumes "good_segments (s # rest)"
  shows "\<not> goes_up (join_path (s # rest)) \<and> join_path (s # rest) \<noteq> [] \<and> join_path (s # rest) \<noteq> js ''.''"
proof -
  have s: "s \<noteq> []" "47 \<notin> set s" "s \<noteq> js ''.''" "s \<noteq> js ''..''"
    using assms by (simp_all add: good_segments_def)
  obtain r where r: "join_path (s # rest) = s @ r" "r = [] \<or> hd r = 47"
    by (cases rest) auto
  have "\<not> isAbsolute (s @ r)" using s(1,2) by (cases s) (auto simp: isAbsolute_def)
  moreover have "s @ r \<noteq> js ''.''" "s @ r \<noteq> js ''..''" "\<not> prefix (js ''../'') (s @ r)"
    using s r(2) by (auto simp: append_eq_Cons_conv prefix_def Cons_eq_append_conv)
  ultimately show ?thesis using s(1) unfolding r(1) goes_up_def by simp
qed

lemma inside_iff:
  "(path_relative cwd root p = [] \<longleftrightarrow> resolve_segments cwd [root] = resolve_segments cwd [p])
   \<and> (goes_up (path_relative cwd root p) \<longleftrightarrow> \<not> prefix (resolve_segments cwd [root]) (resolve_segments cwd [p]))
   \<and> path_relative cwd root p \<noteq> js ''.''"
proof (cases "prefix (resolve_segments cwd [root]) (resolve_segments cwd [p])")
  case True
  then obtain rest where rest: "resolve_segments cwd [p] = resolve_segments cwd [root] @ rest"
    by (auto simp: prefix_def)
  then have rel: "path_relative cwd root p = join_path rest"
    by (simp add: path_relative_def relative_prefix)
  have "good_segments rest"
    using good_resolved [of cwd "[p]"] rest by (simp add: good_segments_def)
  then show ?thesis
    using True rest rel down_join by (cases rest) (auto simp: goes_up_def isAbsolute_def)
next
  case False
  then obtain k rest where "relative_segments (resolve_segments cwd [root]) (resolve_segments cwd [p])
      = js ''..'' # replicate k (js ''..'') @ rest"
    using relative_outside by fastforce
  then have rel: "path_relative cwd root p = join_path (js ''..'' # replicate k (js ''..'') @ rest)"
    by (simp add: path_relative_def)
  obtain r where "join_path (js ''..'' # replicate k (js ''..'') @ rest) = js ''..'' @ r"
    by (cases "replicate k (js ''..'') @ rest") simp_all
  then show ?thesis
    using False up_join [of "replicate k (js ''..'') @ rest"] unfolding rel by (auto simp: rel)
qed
subsection \<open>What passes the check\<close>

lemma isInside_prefix:
  "isInsideOrEqual cwd (path_resolve cwd [w]) (path_resolve cwd [r])
   \<longleftrightarrow> prefix (resolve_segments cwd [w]) (resolve_segments cwd [r])"
  using inside_iff [of cwd "path_resolve cwd [w]" "path_resolve cwd [r]"]
  unfolding resolve_resolved isInsideOrEqual_def Let_def goes_up_def by (metis prefix_order.refl)

lemma child_strict:
  "assertTargetIsWorktreeChild cwd (path_resolve cwd ws) (path_resolve cwd ts) orig = None
   \<longleftrightarrow> strict_prefix (resolve_segments cwd ws) (resolve_segments cwd ts)"
  using inside_iff [of cwd "path_resolve cwd ws" "path_resolve cwd ts"]
  unfolding resolve_resolved assertTargetIsWorktreeChild_def Let_def goes_up_def strict_prefix_def
  by (auto split: if_splits)

text \<open>Where a path really is, inside the worktree where that really is.\<close>

definition lands_inside :: "file_system \<Rightarrow> jsstr \<Rightarrow> jsstr \<Rightarrow> jsstr \<Rightarrow> bool" where
  "lands_inside fs cwd worktreePath q =
     (case (fs_realpath fs worktreePath, fs_realpath fs q) of
        (Inr w, Inr r) \<Rightarrow> prefix (resolve_segments cwd [w]) (resolve_segments cwd [r])
      | _ \<Rightarrow> False)"

definition missing :: "file_system \<Rightarrow> jsstr \<Rightarrow> nat \<Rightarrow> bool" where
  "missing fs t m = (fs_realpath fs ((path_dirname ^^ m) t) = Inl ENOENT
     \<or> m = 0 \<and> fs_isSymbolicLink fs t = Inl ENOENT)"

text \<open>A symbolic link is removed itself, so what counts is the directory it is in.\<close>

definition first_checked :: "file_system \<Rightarrow> jsstr \<Rightarrow> nat" where
  "first_checked fs t = (if fs_isSymbolicLink fs t = Inr True then 1 else 0)"

text \<open>The first of the target and the directories above it that exists is inside.\<close>

definition really_inside :: "file_system \<Rightarrow> jsstr \<Rightarrow> jsstr \<Rightarrow> jsstr \<Rightarrow> bool" where
  "really_inside fs cwd worktreePath t =
     (\<exists>n\<ge>first_checked fs t. lands_inside fs cwd worktreePath ((path_dirname ^^ n) t)
        \<and> (\<forall>m. first_checked fs t \<le> m \<and> m < n \<longrightarrow> missing fs t m))"

lemma assertReal_None:
  "fs_realpath fs wt = Inr w \<Longrightarrow>
   assertRealPathInsideWorktree fs cwd (path_resolve cwd [w]) q orig = None \<longleftrightarrow> lands_inside fs cwd wt q"
  by (auto simp: assertRealPathInsideWorktree_def lands_inside_def isInside_prefix split: sum.splits)

lemma assertReal_ENOENT:
  "assertRealPathInsideWorktree fs cwd real q orig = Some (Fs_error ENOENT) \<longleftrightarrow> fs_realpath fs q = Inl ENOENT"
  by (auto simp: assertRealPathInsideWorktree_def split: sum.splits)

lemma nearest_finds:
  assumes "fs_realpath fs wt = Inr w"
  shows "nearest_loop fs cwd (path_resolve cwd [w]) orig k ((path_dirname ^^ j) t) = None \<Longrightarrow>
    \<exists>n\<ge>j. lands_inside fs cwd wt ((path_dirname ^^ n) t)
      \<and> (\<forall>m. j \<le> m \<and> m < n \<longrightarrow> fs_realpath fs ((path_dirname ^^ m) t) = Inl ENOENT)"
proof (induction k arbitrary: j)
  case (Suc k)
  let ?q = "(path_dirname ^^ j) t"
  show ?case
  proof (cases "assertRealPathInsideWorktree fs cwd (path_resolve cwd [w]) ?q orig")
    case None
    then have "lands_inside fs cwd wt ?q" using assertReal_None [OF assms] by blast
    then show ?thesis by (intro exI [of _ j]) auto
  next
    case (Some e)
    with Suc.prems have "e = Fs_error ENOENT"
      and loop: "nearest_loop fs cwd (path_resolve cwd [w]) orig k ((path_dirname ^^ Suc j) t) = None"
      by (auto split: if_splits)
    with Some have gone: "fs_realpath fs ?q = Inl ENOENT" by (simp add: assertReal_ENOENT)
    from Suc.IH [OF loop] obtain n where n: "Suc j \<le> n" "lands_inside fs cwd wt ((path_dirname ^^ n) t)"
      "\<forall>m. Suc j \<le> m \<and> m < n \<longrightarrow> fs_realpath fs ((path_dirname ^^ m) t) = Inl ENOENT" by blast
    show ?thesis
    proof (intro exI [of _ n] conjI allI impI)
      fix m assume "j \<le> m \<and> m < n"
      with n(3) gone show "fs_realpath fs ((path_dirname ^^ m) t) = Inl ENOENT" by (cases "m = j") auto
    qed (use n in simp_all)
  qed
qed simp

lemma validated:
  assumes "validateUntrackedDiscardTarget fs cwd wt p = Inr t"
  shows "t = path_resolve cwd [wt, p]
    \<and> strict_prefix (resolve_segments cwd [wt]) (resolve_segments cwd [wt, p])
    \<and> really_inside fs cwd wt t"
proof -
  let ?t = "path_resolve cwd [wt, p]"
  let ?q = "(path_dirname ^^ first_checked fs ?t) ?t"
  obtain w where w: "fs_realpath fs wt = Inr w"
    and child: "assertTargetIsWorktreeChild cwd (path_resolve cwd [wt]) ?t p = None"
    and t: "t = ?t"
    using assms by (auto simp: validateUntrackedDiscardTarget_def Let_def split: option.splits sum.splits if_splits)
  have found: "lands_inside fs cwd wt ?q
      \<or> (missing fs ?t (first_checked fs ?t)
         \<and> assertNearestExistingParentInsideWorktree fs cwd (path_resolve cwd [w]) ?t p = None)"
    using assms child w assertReal_None [OF w, of cwd _ p] assertReal_ENOENT [of fs cwd "path_resolve cwd [w]" _ p]
    by (auto simp: validateUntrackedDiscardTarget_def Let_def first_checked_def missing_def
        split: option.splits sum.splits if_splits)
  have "really_inside fs cwd wt ?t"
  proof (cases "lands_inside fs cwd wt ?q")
    case True
    then show ?thesis unfolding really_inside_def by (intro exI [of _ "first_checked fs ?t"]) auto
  next
    case False
    with found have gone: "missing fs ?t (first_checked fs ?t)"
      and "nearest_loop fs cwd (path_resolve cwd [w]) p (length (segments ?t)) ((path_dirname ^^ 1) ?t) = None"
      by (auto simp: assertNearestExistingParentInsideWorktree_def)
    from nearest_finds [OF w this(2)] obtain n where n: "1 \<le> n" "lands_inside fs cwd wt ((path_dirname ^^ n) ?t)"
      "\<forall>m. 1 \<le> m \<and> m < n \<longrightarrow> fs_realpath fs ((path_dirname ^^ m) ?t) = Inl ENOENT" by blast
    have "missing fs ?t m" if "first_checked fs ?t \<le> m" "m < n" for m
      using n(3) gone that by (cases "m = 0") (auto simp: missing_def)
    moreover have "first_checked fs ?t \<le> n" using n(1) by (simp add: first_checked_def)
    ultimately show ?thesis using n(2) unfolding really_inside_def by blast
  qed
  with child t show ?thesis by (simp add: child_strict)
qed


text \<open>
  C17. Paths are handed over for removal only if, both before and after the step that may change
  the files, each of them is strictly below the worktree as written, and the first of it and the
  directories above it that exists (from its directory on, if it is a symbolic link) really lies in
  the real worktree: neither \<open>..\<close> nor an absolute path nor a symbolic link leads outside.
\<close>

theorem discard_inside:
  assumes "Remove_paths ps \<in> set (removeSafeUntrackedDiscardTargets fs fs' before_ok cwd wt filePaths)"
  shows "ps = filePaths \<and> before_ok \<and>
    (\<forall>p\<in>set ps. strict_prefix (resolve_segments cwd [wt]) (resolve_segments cwd [wt, p])
       \<and> really_inside fs cwd wt (path_resolve cwd [wt, p])
       \<and> really_inside fs' cwd wt (path_resolve cwd [wt, p]))"
proof -
  have ps: "ps = filePaths" "before_ok" "validate_all fs cwd wt filePaths" "validate_all fs' cwd wt filePaths"
    using assms by (auto simp: removeSafeUntrackedDiscardTargets_def split: if_splits)
  have "strict_prefix (resolve_segments cwd [wt]) (resolve_segments cwd [wt, p])
      \<and> really_inside f cwd wt (path_resolve cwd [wt, p])"
    if "p \<in> set filePaths" "validate_all f cwd wt filePaths" for p f
  proof -
    have "\<not> isl (validateUntrackedDiscardTarget f cwd wt p)"
      using that by (simp add: validate_all_def list_all_iff)
    then obtain t where "validateUntrackedDiscardTarget f cwd wt p = Inr t"
      by (cases "validateUntrackedDiscardTarget f cwd wt p") auto
    from validated [OF this] show ?thesis by auto
  qed
  with ps show ?thesis by blast
qed

definition one_file :: file_system where
  "one_file = \<lparr>fs_realpath = (\<lambda>p. if p = js ''/w'' then Inr (js ''/real/w'')
       else if p = js ''/w/a'' then Inr (js ''/real/w/a'') else Inl ENOENT),
     fs_isSymbolicLink = (\<lambda>p. if p = js ''/w/a'' then Inr False
       else if p = js ''/w/l'' then Inr True else Inl ENOENT)\<rparr>"

theorem discard_inside_witness:
  "removeSafeUntrackedDiscardTargets one_file one_file True (js ''/'') (js ''/w'') [js ''a'', js ''./l'', js ''d/x'']
     = [Before_remove, Remove_paths [js ''a'', js ''./l'', js ''d/x'']]
   \<and> really_inside one_file (js ''/'') (js ''/w'') (path_resolve (js ''/'') [js ''/w'', js ''d/x''])"
proof -
  let ?ps = "[js ''a'', js ''./l'', js ''d/x'']"
  have run: "removeSafeUntrackedDiscardTargets one_file one_file True (js ''/'') (js ''/w'') ?ps
      = [Before_remove, Remove_paths ?ps]"
    by code_simp
  then have "Remove_paths ?ps \<in> set (removeSafeUntrackedDiscardTargets one_file one_file True (js ''/'') (js ''/w'') ?ps)"
    by simp
  from discard_inside [OF this] run show ?thesis by simp
qed

text \<open>Nothing outside is handed over, and nothing at all if one path of several is outside.\<close>

lemma discard_refused:
  "removeSafeUntrackedDiscardTargets one_file one_file True (js ''/'') (js ''/w'') [js ''a'', js ''../x''] = []"
  "removeSafeUntrackedDiscardTargets one_file one_file True (js ''/'') (js ''/w'') [js ''a'', js ''.''] = []"
  "removeSafeUntrackedDiscardTargets one_file one_file True (js ''/'') (js ''/w'') [js ''/real/w/a''] = []"
  by code_simp+

end
