(* ===== verification/Spec2Isabelle.thy ===== *)
theory Spec2Isabelle
  imports Orch_Rpc_Props Task_Display Relay_Frames Daemon_Frames Batcher_Progress
    Ws_Queue Call_Queue Terminal_Frames Priority_Semaphore Recovery_Ticks History_Lifecycle
    Git_Stream_System Relay_System Flow_Control Git_Exec
    Osc_133 Bell_Detector Kitty_Modes Discard_Safety
begin

section \<open>Orchestration, terminal streams and recovery of Orca: a verification development\<close>

text \<open>
  Orca is an IDE that runs several coding agents in terminals. Three parts of its own core
  are modelled here: the orchestration, by which a coordinator hands tasks to agents and hears
  from them, the streams that carry terminal data between its processes, and the history from
  which a terminal is restored after a crash. Paths below are
  relative to \<open>src/src\<close>.

  \<^bold>\<open>Orchestration\<close> (\<open>main/runtime/orchestration\<close>, \<open>main/runtime/rpc/methods\<close>). Its state is
  an SQLite database of messages, tasks with dependencies, dispatch contexts, decision gates and
  coordinator runs. Agents and users reach it through RPC methods of the CLI; the coordinator is
  a polling loop over it.
  \<^item> \<open>Orch_Types\<close>: the rows and enumerations of \<open>types.ts\<close>; the database is the record
    \<open>odb\<close>, a list of rows per table in rowid order. \<open>Orch_Db\<close>: every method of the class
    \<open>OrchestrationDb\<close> (\<open>db.ts\<close>), under its own name. SQL is rendered as functions on the rows.
  \<^item> \<open>Pane_Key\<close> (\<open>shared/stable-pane-id.ts\<close>), \<open>Task_Display\<close>
    (\<open>shared/orchestration-task-display.ts\<close>, \<open>-summary.ts\<close>), \<open>Js_Json\<close> (\<open>JSON.parse\<close> and
    \<open>JSON.stringify\<close> as the code uses them): what the rows are made of.
  \<^item> \<open>Orch_Inv\<close>: the locale \<open>orch_invariant\<close> states what an invariant of the database owes to
    every method that writes; it is interpreted on six invariants (unique ids, sequence numbers,
    dispatch lock, circuit breaker, readable dependencies, references) and their conjunction
    \<open>db_inv\<close>. \<open>Orch_Steps\<close>: a run of the database is any sequence of calls of its methods, by any
    callers; every reachable state has the invariants.
  \<^item> \<open>Orch_Tasks\<close>, \<open>Orch_Gates\<close>, \<open>Orch_Mail\<close>: promotion against a reference definition,
    completion, circuit breaker, admission of a dispatch, gates, order and single delivery of mail.
  \<^item> \<open>Lifecycle\<close> (\<open>lifecycle-reconciliation.ts\<close>): which \<open>worker_done\<close> and \<open>heartbeat\<close> messages
    have authority over a dispatch, and what they change.
  \<^item> \<open>Coordinator\<close> (\<open>coordinator.ts\<close>), with \<open>Preamble\<close> (\<open>preamble.ts\<close>) and \<open>Stale_Base\<close> (the flag
    a specification can carry): the whole class, one definition per method. \<open>Coordinator_Props\<close>:
    it changes the database by its methods only, its report is right, a round of dispatching keeps
    the limit and touches only tasks that are ready, a run ends when nothing is left to do.
  \<^item> \<open>Orch_Groups\<close> (\<open>groups.ts\<close>, \<open>formatter.ts\<close>), \<open>Orch_Wait\<close> (the message waiters of
    \<open>main/runtime/orca-runtime.ts\<close>), \<open>Orch_Rpc\<close> and \<open>Orch_Handlers\<close> (\<open>rpc/methods/orchestration.ts\<close>,
    \<open>orchestration-gates.ts\<close>, \<open>rpc/schemas.ts\<close>, \<open>RpcDispatcher.dispatch\<close>): schemas as functions from
    JSON to typed parameters, handlers as computations that change the world and throw or give a
    value. \<open>Orch_Rpc_Props\<close>: the locale \<open>act_relation\<close> carries a relation between databases along
    the parts of a computation; by it no request leaves the reachable states. Also what a
    dispatch request does on each of its paths, what \<open>check\<close> consumes, and that a reply reaches the
    \<open>ask\<close> it answers.

  \<^bold>\<open>Streams\<close> (\<open>relay\<close>, \<open>main/daemon\<close>). A daemon process owns the terminals; a relay carries
  frames to remote machines.
  \<^item> \<open>Byte_Stream\<close>: bytes, big-endian numbers, and the locale \<open>incremental_parser\<close>: a parser that
    takes one unit from the front of its buffer gives the same units and residue however the input
    is cut into chunks.
  \<^item> \<open>Relay_Frames\<close> (\<open>relay/protocol.ts\<close>), \<open>Daemon_Frames\<close> (\<open>binary-frame.ts\<close>), \<open>Ndjson\<close>
    (\<open>ndjson.ts\<close>) are interpretations of it; the decoder of the relay, which keeps a list of chunks,
    is a refinement of the parser on one buffer.
  \<^item> \<open>Stream_Split\<close> (\<open>daemon-stream-data-split.ts\<close>), \<open>Keep_Tail\<close>
    (\<open>daemon-stream-keep-tail-drop.ts\<close>), \<open>Stream_Batcher\<close> (\<open>daemon-stream-data-batcher.ts\<close>):
    pieces of output that fit a line, the thinning of sessions in the background, and the batcher
    with its gated flush. \<open>Batcher_Order\<close>: nothing of a session that is not thinned is lost or
    reordered, and stream positions stay true for one that is. \<open>Batcher_Progress\<close>: what is pending
    always has a timer or a sentinel on its way.
  \<^item> \<open>Flow_Control\<close> (\<open>main/ipc/pty-producer-flow-control.ts\<close> and the producer pause of \<open>session.ts\<close>):
    a terminal whose output outruns the window is paused and resumed with hysteresis, and no lost
    signal leaves a live process blocked.
  \<^item> \<open>Carry_Scanner\<close>: the locale of a scanner for escape sequences that keeps the unfinished end of
    a chunk, as an incremental parser with a limit; the cuts between chunks do not matter to it.
    \<open>Osc_133\<close> (\<open>shared/terminal-osc133-command-finished.ts\<close>, the marks of a shell) and \<open>Kitty_Modes\<close>
    (\<open>shared/terminal-kitty-keyboard-mode-tracker.ts\<close>, what a program did to the keyboard protocol)
    interpret it. \<open>Bell_Detector\<close> (\<open>shared/terminal-bell-detector.ts\<close>): which chunk rings.
  \<^item> \<open>Terminal_Frames\<close> (\<open>shared/terminal-stream-protocol.ts\<close>): the frames of a terminal's socket.
    \<open>Ws_Queue\<close> (\<open>shared/ws-outbound-backpressure-queue.ts\<close>), \<open>Call_Queue\<close>
    (\<open>shared/runtime-rpc-call-queue.ts\<close>), \<open>Priority_Semaphore\<close> (\<open>main/daemon/priority-semaphore.ts\<close>):
    the queues in front of a socket, of a remote runtime and of the daemon's slots; for each, what
    it holds after any sequence of calls and events is in order, within its bounds, and moving.

  \<^bold>\<open>The relay connection\<close> (\<open>relay\<close>, \<open>main/ssh\<close>). On a remote host the main process talks to a
  relay over one SSH channel, in frames that carry JSON-RPC messages.
  \<^item> \<open>Request_Table\<close>: the table of requests that wait, with the outcomes so far, and messages as
    values. \<open>Json_Bytes\<close>, \<open>Base64\<close>: the platform's codecs. \<open>Rpc_Frames\<close> (\<open>encodeJsonRpcFrame\<close>):
    what one end sends is what the other decodes.
  \<^item> \<open>Ssh_Mux\<close> (\<open>ssh-channel-multiplexer.ts\<close>): requests, cancellation, timeouts, keepalives, probes,
    acknowledgements and the check for a dead link, for a transport that may throw at any frame.
    \<open>Ssh_Mux_System\<close>: runs of it under any events: each request ends once, a silent link is given
    up with all that waits for it, a live one is not.
  \<^item> \<open>Relay_Dispatcher\<close> (\<open>dispatcher.ts\<close>, \<open>client-request-aborts.ts\<close>): the other end, with several clients
    that attach, detach and reconnect, the abort controllers of their requests, and the bulk lane.
    \<open>Relay_Dispatcher_Inv\<close>: the locale \<open>dispatcher_invariant\<close> states what an invariant owes to the parts
    the operations are made of. \<open>Relay_Dispatcher_Props\<close> interprets it on clients, frame numbers and
    answers: no answer crosses connections. \<open>Relay_Bulk_Lane\<close> interprets it on the bulk lane: no
    sender is left behind. \<open>Relay_System\<close>: a cancelled request across both ends.
  \<^item> \<open>Git_Stream\<close> (\<open>git-response-stream.ts\<close>, \<open>ssh-git-response-stream-reader.ts\<close>): a response that is
    too long for a frame, cut into base64 chunks under a window of four acknowledgements.
    \<open>Git_Stream_System\<close>: both ends and the two channels as a step relation with failures; what is
    resolved is right, and without failures it is resolved.
  \<^item> \<open>Git_Exec\<close> (\<open>git-exec-validator.ts\<close>): which git commands the relay runs for a client.
    \<open>Discard_Safety\<close> (\<open>shared/git-discard-path-safety.ts\<close>): untracked paths are removed only inside the
    worktree, for whatever the file system answers.

  \<^bold>\<open>Recovery\<close> (\<open>main/daemon\<close>). The daemon keeps each terminal's screen in an emulator and
  records what it fed to it; every few seconds the main process takes the records and appends
  them to a log on disk, or takes a snapshot and makes it the checkpoint.
  \<^item> \<open>Escape_Tail\<close> (\<open>shared/terminal-partial-escape-tail.ts\<close>): the unfinished escape sequence
    at the end of a stream, and for which streams it can be tracked chunk by chunk.
  \<^item> \<open>Utf8\<close> (the platform's UTF-8 codec), \<open>History_Log\<close> (\<open>terminal-history-log.ts\<close>): the log
    file, read back as written, and what is read of it when the last append was cut off anywhere.
  \<^item> \<open>History_Store\<close> (\<open>history-manager.ts\<close>): the operations on a session's directory, with a
    fault that stops any of their writes at any byte.
  \<^item> \<open>Mouse_Mirror\<close> (\<open>terminal-mouse-mode-mirror.ts\<close>): the mouse modes, followed in the output.
    \<open>Snapshot_Ansi\<close> (\<open>terminal-mode-rehydrate-sequences.ts\<close>, \<open>terminal-snapshot-ansi-buffers.ts\<close>,
    \<open>shared/terminal-serialize-absolute-cursor.ts\<close>): the text of a snapshot; the mouse modes come
    back from it.
  \<^item> \<open>Headless\<close> (\<open>headless-emulator.ts\<close>, the pending output of \<open>session.ts\<close>), \<open>History_Reader\<close>
    (\<open>history-reader.ts\<close>): what is fed, kept and restored.
  \<^item> \<open>Checkpointing\<close> (\<open>daemon-pty-adapter.ts\<close>): the checkpoint tick, and the step relation of a
    session with its files under output, resizes, clears, ticks with faults and restarts of the
    process that writes. What is restored is described by the texts and sizes an emulator was
    given, not by what xterm makes of them, so that nothing is assumed of xterm. \<open>Recovery\<close>: the
    invariant of this system; \<open>Recovery_Props\<close>: whatever is restored at any moment is made of a
    checkpoint of the session and the records that follow it, or of a prefix of all records;
    \<open>Recovery_Ticks\<close>: after a tick that wrote everything nothing is missing, and how an empty tick
    makes the log unreadable; \<open>History_Lifecycle\<close>: closing, disposing and reopening.

  \<^bold>\<open>Conventions.\<close> A string is the list of its UTF-16 units. A thrown exception is a value of
  \<open>exn\<close>; a method that can throw halfway returns the state as it is then. JavaScript runs each
  synchronous part to its end, so such a part is one function; at an \<open>await\<close> the state is
  handed to the environment, which may call any method meanwhile.

  \<^bold>\<open>Fuel.\<close> The JSON parser takes twice the length of its text and two more, which is proved to be
  enough (\<open>json_parse_fuel\<close>). The loops of the parsers take the length of their buffer, since each
  turn consumes a unit of it, and the search for an existing directory the length of the path. The polling loop of the coordinator takes its number of ticks and
  \<open>ask\<close> its number of waits: both may go on for ever, and \<open>None\<close> is the value while they do;
  termination is stated on its own (\<open>finished_dag_ends\<close>, \<open>ask_reply_roundtrip\<close>).

  \<^bold>\<open>Parameters and hypotheses.\<close> Clock and random ids; the terminal runtime (records \<open>runtime\<close> and
  \<open>rpc_runtime\<close>, with the hypothesis that what runs during an awaited call changes the database by
  its methods: \<open>runtime_ok\<close>, \<open>rpc_runtime_ok\<close>); sockets and the salvage of sessions (the
  environment of the batcher, with \<open>depth_kept\<close>: a write does not make a deep socket shallow);
  the terminal of the xterm library and the scanner for working directory and title (record
  \<open>xterm\<close>, of which nothing is assumed); the file
  system of a path check (record \<open>file_system\<close>); the Unicode case tables; the number a JSON lexeme denotes. Each property with a hypothesis has
  a witness on concrete data.

  \<^bold>\<open>Not modelled.\<close> The schema and migrations of the database (DDL of the SQL engine); the texts of
  schema issues; sequence numbers of 2^32 and more, at which \<open>encodeFrame\<close> throws; the handshake of
  the relay and its file, git and PTY handlers; the lists of subscribers and handlers of both ends; the
  streaming RPC transport and its other methods; \<open>OrcaRuntimeService\<close> beyond its
  waiters (terminals, PTYs, IPC); the daemon process and its sockets, the life of a session's
  shell and subprocess, and the
  adapter beyond its checkpoint tick; the names of history directories; the links inside a
  snapshot, which are values of the xterm parameter; git, SSH and hosting providers;
  the renderer, the mobile app and the CLI, which are user interfaces over these parts.
\<close>

end
